(* ===== verification/Prelude.thy ===== *)
theory Prelude
  imports Main "HOL-Library.Char_ord" "HOL-Library.List_Lexorder" "HOL-Library.Product_Lexorder"
begin

text \<open>
  What every component of the model shares: results and panics, checked machine arithmetic,
  Rust's string operations on UTF-8 bytes, decimal text, and the ordered map that stands for
  \<open>BTreeMap\<close>.

  A Rust \<open>str\<close> is modelled as the list of its UTF-8 bytes, one \<open>char\<close> each, so that
  \<open>length\<close> is \<open>str::len\<close>, slicing is by byte and comparison is the byte-wise order of
  \<open>String\<close>'s \<open>Ord\<close>. The operations that look at Unicode (\<open>trim\<close>, char boundaries) work
  on the encoded bytes.
\<close>

named_theorems result_simps \<open>equations of the result combinators\<close>

section \<open>Results, errors and panics\<close>

text \<open>An operation that may fail returns \<open>Inl\<close> of a fault: an \<open>Err\<close> with its message, or a
  panic (an index out of range, an \<open>expect\<close> on \<open>None\<close>).\<close>

datatype fault = Err string | Panic

type_synonym 'a result = "fault + 'a"

definition bindE :: "'e + 'a \<Rightarrow> ('a \<Rightarrow> 'e + 'b) \<Rightarrow> 'e + 'b" where
  "bindE m f = (case m of Inl e \<Rightarrow> Inl e | Inr x \<Rightarrow> f x)"

lemma bindE_simps [simp, result_simps]:
  "bindE (Inl e) f = Inl e" "bindE (Inr x) f = f x"
  by (simp_all add: bindE_def)

lemma bindE_Inr_iff [result_simps]: "bindE m f = Inr y \<longleftrightarrow> (\<exists>x. m = Inr x \<and> f x = Inr y)"
  by (cases m) auto

lemma bindE_Inl_iff [result_simps]:
  "bindE m f = Inl e \<longleftrightarrow> m = Inl e \<or> (\<exists>x. m = Inr x \<and> f x = Inl e)"
  by (cases m) auto

lemma bindE_cong [fundef_cong]:
  "m = m' \<Longrightarrow> (\<And>x. m' = Inr x \<Longrightarrow> f x = f' x) \<Longrightarrow> bindE m f = bindE m' f'"
  by (cases m') auto

text \<open>\<open>xs[i]\<close>: a panic when out of range.\<close>

definition idx :: "'a list \<Rightarrow> nat \<Rightarrow> 'a result" where
  "idx xs i = (if i < length xs then Inr (xs ! i) else Inl Panic)"

text \<open>\<open>Option::ok_or\<close>.\<close>

definition ok_or :: "'a option \<Rightarrow> string \<Rightarrow> 'a result" where
  "ok_or x msg = (case x of None \<Rightarrow> Inl (Err msg) | Some v \<Rightarrow> Inr v)"

lemma ok_or_simps [simp]: "ok_or None msg = Inl (Err msg)" "ok_or (Some v) msg = Inr v"
  by (simp_all add: ok_or_def)

section \<open>Machine arithmetic\<close>

text \<open>\<open>usize\<close> and \<open>u64\<close> values are naturals; the checked and saturating operations of the
  source compare with the 64-bit bound.\<close>

definition usize_max :: nat where "usize_max = 2 ^ 64 - 1"

definition checked_add :: "nat \<Rightarrow> nat \<Rightarrow> nat option" where
  "checked_add a b = (if a + b \<le> usize_max then Some (a + b) else None)"

definition checked_mul :: "nat \<Rightarrow> nat \<Rightarrow> nat option" where
  "checked_mul a b = (if a * b \<le> usize_max then Some (a * b) else None)"

definition checked_sub :: "nat \<Rightarrow> nat \<Rightarrow> nat option" where
  "checked_sub a b = (if b \<le> a then Some (a - b) else None)"

definition saturating_mul :: "nat \<Rightarrow> nat \<Rightarrow> nat" where
  "saturating_mul a b = min (a * b) usize_max"

section \<open>Bytes and characters\<close>

abbreviation byte_of :: "char \<Rightarrow> nat" where "byte_of c \<equiv> of_char c"

abbreviation NL :: char where "NL \<equiv> CHR 0x0A"
abbreviation TAB :: char where "TAB \<equiv> CHR 0x09"
abbreviation CR :: char where "CR \<equiv> CHR 0x0D"

definition is_digit :: "char \<Rightarrow> bool" where
  "is_digit c \<longleftrightarrow> 48 \<le> byte_of c \<and> byte_of c \<le> 57"

definition is_upper :: "char \<Rightarrow> bool" where
  "is_upper c \<longleftrightarrow> 65 \<le> byte_of c \<and> byte_of c \<le> 90"

definition is_lower :: "char \<Rightarrow> bool" where
  "is_lower c \<longleftrightarrow> 97 \<le> byte_of c \<and> byte_of c \<le> 122"

definition is_alnum :: "char \<Rightarrow> bool" where
  "is_alnum c \<longleftrightarrow> is_digit c \<or> is_upper c \<or> is_lower c"

definition lower_char :: "char \<Rightarrow> char" where
  "lower_char c = (if is_upper c then char_of (byte_of c + 32) else c)"

definition upper_char :: "char \<Rightarrow> char" where
  "upper_char c = (if is_lower c then char_of (byte_of c - 32) else c)"

text \<open>\<open>to_ascii_lowercase\<close>, \<open>to_ascii_uppercase\<close>, \<open>eq_ignore_ascii_case\<close>.\<close>

definition to_lower :: "string \<Rightarrow> string" where "to_lower s = map lower_char s"
definition to_upper :: "string \<Rightarrow> string" where "to_upper s = map upper_char s"

definition eq_ignore_case :: "string \<Rightarrow> string \<Rightarrow> bool" where
  "eq_ignore_case a b \<longleftrightarrow> to_lower a = to_lower b"

lemma lower_char_simps [simp]:
  "\<not> is_upper c \<Longrightarrow> lower_char c = c"
  by (simp add: lower_char_def)

lemma byte_of_lower: "byte_of (lower_char c) = (if is_upper c then byte_of c + 32 else byte_of c)"
  by (auto simp: lower_char_def is_upper_def)

lemma not_upper_lower [simp]: "\<not> is_upper (lower_char c)"
  by (auto simp: is_upper_def byte_of_lower)

lemma to_lower_idem [simp]: "to_lower (to_lower s) = to_lower s"
  by (simp add: to_lower_def)

lemma length_to_lower [simp]: "length (to_lower s) = length s"
  by (simp add: to_lower_def)

lemma to_lower_append [simp]: "to_lower (a @ b) = to_lower a @ to_lower b"
  by (simp add: to_lower_def)


section \<open>String operations of the standard library\<close>

text \<open>\<open>str::split\<close> on one ASCII character: never empty.\<close>

fun split_on :: "char \<Rightarrow> string \<Rightarrow> string list" where
  "split_on c [] = [[]]"
| "split_on c (x # xs) =
     (if x = c then [] # split_on c xs
      else (case split_on c xs of [] \<Rightarrow> [[x]] | p # ps \<Rightarrow> (x # p) # ps))"

text \<open>\<open>split_inclusive\<close>: every piece keeps its terminator, and the empty string has no piece.\<close>

fun split_inclusive :: "char \<Rightarrow> string \<Rightarrow> string list" where
  "split_inclusive c [] = []"
| "split_inclusive c (x # xs) =
     (if x = c then [x] # split_inclusive c xs
      else (case split_inclusive c xs of [] \<Rightarrow> [[x]] | p # ps \<Rightarrow> (x # p) # ps))"

fun strip_prefix :: "string \<Rightarrow> string \<Rightarrow> string option" where
  "strip_prefix [] s = Some s"
| "strip_prefix (p # ps) [] = None"
| "strip_prefix (p # ps) (c # cs) = (if p = c then strip_prefix ps cs else None)"

definition strip_suffix :: "string \<Rightarrow> string \<Rightarrow> string option" where
  "strip_suffix p s = map_option rev (strip_prefix (rev p) (rev s))"

definition starts_with :: "string \<Rightarrow> string \<Rightarrow> bool" where
  "starts_with p s \<longleftrightarrow> strip_prefix p s \<noteq> None"

definition ends_with :: "string \<Rightarrow> string \<Rightarrow> bool" where
  "ends_with p s \<longleftrightarrow> strip_suffix p s \<noteq> None"

text \<open>\<open>str::contains\<close> for a pattern string.\<close>

fun contains :: "string \<Rightarrow> string \<Rightarrow> bool" where
  "contains p [] \<longleftrightarrow> p = []"
| "contains p (c # cs) \<longleftrightarrow> starts_with p (c # cs) \<or> contains p cs"

text \<open>\<open>split_once\<close> and \<open>rsplit_once\<close> on one ASCII character.\<close>

fun split_once :: "char \<Rightarrow> string \<Rightarrow> (string \<times> string) option" where
  "split_once c [] = None"
| "split_once c (x # xs) =
     (if x = c then Some ([], xs)
      else (case split_once c xs of None \<Rightarrow> None | Some (a, b) \<Rightarrow> Some (x # a, b)))"

definition rsplit_once :: "char \<Rightarrow> string \<Rightarrow> (string \<times> string) option" where
  "rsplit_once c s =
     (case split_once c (rev s) of None \<Rightarrow> None | Some (b, a) \<Rightarrow> Some (rev a, rev b))"

text \<open>\<open>str::lines\<close>: pieces end at a newline; a carriage return right before that newline is
  dropped with it, one at the very end of the text is not.\<close>

definition chomp :: "string \<Rightarrow> string" where
  "chomp l = (case strip_suffix [NL] l of None \<Rightarrow> l
     | Some l' \<Rightarrow> (case strip_suffix [CR] l' of None \<Rightarrow> l' | Some l'' \<Rightarrow> l''))"

definition lines :: "string \<Rightarrow> string list" where
  "lines s = map chomp (split_inclusive NL s)"

fun join :: "string \<Rightarrow> string list \<Rightarrow> string" where
  "join sep [] = []"
| "join sep [s] = s"
| "join sep (s # t # ts) = s @ sep @ join sep (t # ts)"

text \<open>Unicode \<open>White_Space\<close>, by the bytes of its UTF-8 encodings: U+0009 to U+000D and U+0020;
  U+0085 and U+00A0; U+1680, U+2000 to U+200A, U+2028, U+2029, U+202F, U+205F and U+3000.\<close>

definition ws1 :: "char \<Rightarrow> bool" where
  "ws1 c \<longleftrightarrow> (9 \<le> byte_of c \<and> byte_of c \<le> 13) \<or> byte_of c = 32"

definition ws2 :: "char \<Rightarrow> char \<Rightarrow> bool" where
  "ws2 c d \<longleftrightarrow> byte_of c = 0xC2 \<and> (byte_of d = 0x85 \<or> byte_of d = 0xA0)"

definition ws3 :: "char \<Rightarrow> char \<Rightarrow> char \<Rightarrow> bool" where
  "ws3 c d e \<longleftrightarrow>
     (byte_of c = 0xE1 \<and> byte_of d = 0x9A \<and> byte_of e = 0x80) \<or>
     (byte_of c = 0xE2 \<and> byte_of d = 0x80 \<and>
        ((0x80 \<le> byte_of e \<and> byte_of e \<le> 0x8A) \<or> byte_of e = 0xA8 \<or> byte_of e = 0xA9 \<or> byte_of e = 0xAF)) \<or>
     (byte_of c = 0xE2 \<and> byte_of d = 0x81 \<and> byte_of e = 0x9F) \<or>
     (byte_of c = 0xE3 \<and> byte_of d = 0x80 \<and> byte_of e = 0x80)"

fun trim_start :: "string \<Rightarrow> string" where
  "trim_start (c # d # e # s) =
     (if ws1 c then trim_start (d # e # s) else if ws2 c d then trim_start (e # s)
      else if ws3 c d e then trim_start s else c # d # e # s)"
| "trim_start [c, d] =
     (if ws1 c then trim_start [d] else if ws2 c d then [] else [c, d])"
| "trim_start [c] = (if ws1 c then [] else [c])"
| "trim_start [] = []"

text \<open>The same from the end, on the reversed text.\<close>

fun trim_start_rev :: "string \<Rightarrow> string" where
  "trim_start_rev (c # d # e # s) =
     (if ws1 c then trim_start_rev (d # e # s) else if ws2 d c then trim_start_rev (e # s)
      else if ws3 e d c then trim_start_rev s else c # d # e # s)"
| "trim_start_rev [c, d] =
     (if ws1 c then trim_start_rev [d] else if ws2 d c then [] else [c, d])"
| "trim_start_rev [c] = (if ws1 c then [] else [c])"
| "trim_start_rev [] = []"

definition trim_end :: "string \<Rightarrow> string" where "trim_end s = rev (trim_start_rev (rev s))"
definition trim :: "string \<Rightarrow> string" where "trim s = trim_end (trim_start s)"

text \<open>\<open>trim_matches\<close> and \<open>trim_end_matches\<close> for a set of ASCII characters.\<close>

definition trim_start_by :: "(char \<Rightarrow> bool) \<Rightarrow> string \<Rightarrow> string" where
  "trim_start_by p s = dropWhile p s"

definition trim_end_by :: "(char \<Rightarrow> bool) \<Rightarrow> string \<Rightarrow> string" where
  "trim_end_by p s = rev (dropWhile p (rev s))"

definition trim_by :: "(char \<Rightarrow> bool) \<Rightarrow> string \<Rightarrow> string" where
  "trim_by p s = trim_end_by p (trim_start_by p s)"

section \<open>Decimal text\<close>

fun dec :: "nat \<Rightarrow> string" where
  "dec n = (if n < 10 then [char_of (48 + n)] else dec (n div 10) @ [char_of (48 + n mod 10)])"

declare dec.simps [simp del]

definition pad_left :: "nat \<Rightarrow> string \<Rightarrow> string" where
  "pad_left w s = replicate (w - length s) (CHR ''0'') @ s"

definition digits_value :: "string \<Rightarrow> nat" where
  "digits_value s = foldl (\<lambda>n c. 10 * n + (byte_of c - 48)) 0 s"

text \<open>\<open>from_str\<close> of an unsigned integer of at most \<open>bound\<close>: an optional \<open>+\<close>, at least one digit,
  no overflow.\<close>

definition parse_uint :: "nat \<Rightarrow> string \<Rightarrow> nat option" where
  "parse_uint bound s =
     (let ds = (case s of c # cs \<Rightarrow> if c = CHR ''+'' then cs else s | [] \<Rightarrow> [])
      in if ds = [] \<or> \<not> list_all is_digit ds \<or> digits_value ds > bound then None
         else Some (digits_value ds))"

definition u32_max :: nat where "u32_max = 2 ^ 32 - 1"

abbreviation parse_u32 :: "string \<Rightarrow> nat option" where "parse_u32 \<equiv> parse_uint u32_max"
abbreviation parse_usize :: "string \<Rightarrow> nat option" where "parse_usize \<equiv> parse_uint usize_max"


section \<open>Lemmas on the string operations\<close>

lemma strip_prefix_iff [simp]: "strip_prefix p s = Some t \<longleftrightarrow> s = p @ t"
  by (induction p s rule: strip_prefix.induct) auto

lemma strip_prefix_append [simp]: "strip_prefix p (p @ t) = Some t"
  by simp

lemma strip_suffix_iff [simp]: "strip_suffix p s = Some t \<longleftrightarrow> s = t @ p"
proof
  assume "strip_suffix p s = Some t"
  then have "rev s = rev p @ rev t" by (auto simp: strip_suffix_def)
  then show "s = t @ p" by (metis rev_append rev_rev_ident)
qed (simp add: strip_suffix_def)

lemma strip_suffix_snoc [simp]: "strip_suffix [c] (l @ [c]) = Some l"
  by simp

lemma starts_with_iff: "starts_with p s \<longleftrightarrow> (\<exists>t. s = p @ t)"
  by (auto simp: starts_with_def)

lemma ends_with_iff: "ends_with p s \<longleftrightarrow> (\<exists>t. s = t @ p)"
  by (auto simp: ends_with_def)

lemma contains_iff: "contains p s \<longleftrightarrow> (\<exists>a b. s = a @ p @ b)"
proof (induction s)
  case (Cons c s)
  note IH = Cons.IH
  show ?case
  proof
    assume "contains p (c # s)"
    then consider t where "c # s = p @ t" | "contains p s" by (auto simp: starts_with_iff)
    then show "\<exists>a b. c # s = a @ p @ b"
    proof cases
      case 1
      then show ?thesis by (metis append_Nil)
    next
      case 2
      then show ?thesis using Cons.IH by (metis append_Cons)
    qed
  next
    assume "\<exists>a b. c # s = a @ p @ b"
    then obtain a b where ab: "c # s = a @ p @ b" by blast
    show "contains p (c # s)"
    proof (cases a)
      case Nil
      then have "starts_with p (c # s)" using ab by (auto simp: starts_with_iff)
      then show ?thesis by simp
    next
      case (Cons x a')
      then have "contains p s" using ab IH by auto
      then show ?thesis by simp
    qed
  qed
qed simp

lemma split_on_not_Nil [simp]: "split_on c s \<noteq> []"
  by (cases s) (auto split: list.splits)

lemma split_on_no_sep [simp]: "c \<notin> set s \<Longrightarrow> split_on c s = [s]"
  by (induction s) auto

lemma split_on_append [simp]: "c \<notin> set a \<Longrightarrow> split_on c (a @ c # b) = a # split_on c b"
  by (induction a) auto

lemma join_split_on: "join [c] (split_on c s) = s"
proof (induction s)
  case (Cons x s)
  obtain p ps where "split_on c s = p # ps" by (cases "split_on c s") auto
  with Cons show ?case by (cases ps) auto
qed simp

lemma split_on_pieces: "p \<in> set (split_on c s) \<Longrightarrow> c \<notin> set p"
  by (induction s arbitrary: p) (auto split: list.splits if_splits)

lemma set_split_on: "p \<in> set (split_on c s) \<Longrightarrow> set p \<subseteq> set s"
proof (induction s arbitrary: p)
  case (Cons x s)
  obtain q qs where "split_on c s = q # qs" by (cases "split_on c s") auto
  moreover from this have "set q \<subseteq> set s" "\<forall>r \<in> set qs. set r \<subseteq> set s"
    using Cons.IH by auto
  ultimately show ?case using Cons.prems by (auto split: if_splits)
qed simp

lemma split_on_snoc [simp]: "split_on c (s @ [c]) = split_on c s @ [[]]"
  by (induction s) (auto split: list.splits)

lemma split_once_append [simp]: "c \<notin> set a \<Longrightarrow> split_once c (a @ c # b) = Some (a, b)"
  by (induction a) auto

lemma split_once_None [simp]: "split_once c s = None \<longleftrightarrow> c \<notin> set s"
  by (induction s) (auto split: option.splits)

lemma split_once_Some: "split_once c s = Some (a, b) \<longleftrightarrow> s = a @ c # b \<and> c \<notin> set a"
proof
  show "split_once c s = Some (a, b) \<Longrightarrow> s = a @ c # b \<and> c \<notin> set a"
    by (induction s arbitrary: a) (auto split: option.splits if_splits)
qed simp

lemma rsplit_once_append [simp]: "c \<notin> set b \<Longrightarrow> rsplit_once c (a @ c # b) = Some (a, b)"
proof -
  assume "c \<notin> set b"
  then have "split_once c (rev b @ c # rev a) = Some (rev b, rev a)" by simp
  then show ?thesis by (simp add: rsplit_once_def)
qed

lemma rsplit_once_None [simp]: "rsplit_once c s = None \<longleftrightarrow> c \<notin> set s"
  by (auto simp: rsplit_once_def split: option.splits) (metis set_rev split_once_None option.distinct(1))

lemma rsplit_once_Some: "rsplit_once c s = Some (a, b) \<longleftrightarrow> s = a @ c # b \<and> c \<notin> set b"
proof
  assume "rsplit_once c s = Some (a, b)"
  then have "split_once c (rev s) = Some (rev b, rev a)"
    by (auto simp: rsplit_once_def split: option.splits)
  then have *: "rev s = rev b @ c # rev a \<and> c \<notin> set (rev b)"
    by (rule split_once_Some [THEN iffD1])
  from arg_cong [of _ _ rev, OF conjunct1 [OF *]] conjunct2 [OF *]
  show "s = a @ c # b \<and> c \<notin> set b" by simp
qed auto

lemma split_inclusive_no_sep: "c \<notin> set s \<Longrightarrow> s \<noteq> [] \<Longrightarrow> split_inclusive c s = [s]"
proof (induction s)
  case (Cons x s)
  then show ?case by (cases s) auto
qed simp

lemma split_inclusive_append [simp]:
  "c \<notin> set a \<Longrightarrow> split_inclusive c (a @ c # b) = (a @ [c]) # split_inclusive c b"
  by (induction a) auto

lemma concat_split_inclusive: "concat (split_inclusive c s) = s"
proof (induction s)
  case (Cons x s)
  then show ?case by (cases "split_inclusive c s") auto
qed simp

text \<open>A line that neither holds a newline nor ends in a carriage return.\<close>

definition clean_line :: "string \<Rightarrow> bool" where
  "clean_line l \<longleftrightarrow> NL \<notin> set l \<and> \<not> ends_with [CR] l"

lemma clean_line_mid:
  assumes "c \<noteq> CR" and "c \<noteq> NL"
  shows "clean_line (a @ c # b) \<longleftrightarrow> NL \<notin> set a \<and> clean_line b"
proof -
  have "ends_with [CR] (a @ c # b) \<longleftrightarrow> ends_with [CR] b"
    using assms(1) by (cases b rule: rev_cases) (auto simp: ends_with_iff)
  then show ?thesis using assms(2) by (auto simp: clean_line_def)
qed

lemma chomp_newline: "\<not> ends_with [CR] l \<Longrightarrow> chomp (l @ [NL]) = l"
  by (auto simp: chomp_def ends_with_def split: option.splits)

lemma chomp_no_newline: "NL \<notin> set l \<Longrightarrow> chomp l = l"
  by (auto simp: chomp_def split: option.splits)

lemma lines_Nil [simp]: "lines [] = []"
  by (simp add: lines_def)

lemma lines_append [simp]: "clean_line l \<Longrightarrow> lines (l @ NL # s) = l # lines s"
  by (simp add: lines_def clean_line_def chomp_newline)

lemma lines_snoc [simp]: "clean_line l \<Longrightarrow> lines (l @ [NL]) = [l]"
  using lines_append [of l "[]"] by simp

lemma lines_last: "NL \<notin> set l \<Longrightarrow> l \<noteq> [] \<Longrightarrow> lines l = [l]"
  by (simp add: lines_def split_inclusive_no_sep chomp_no_newline)

lemma lines_concat:
  "list_all clean_line ls \<Longrightarrow> lines (concat (map (\<lambda>l. l @ [NL]) ls) @ s) = ls @ lines s"
  by (induction ls) auto

text \<open>A text whose last line is complete.\<close>

definition terminated :: "string \<Rightarrow> bool" where
  "terminated s \<longleftrightarrow> s = [] \<or> ends_with [NL] s"

lemma terminated_snoc [simp]: "terminated (s @ [NL])" "terminated []"
  by (simp_all add: terminated_def ends_with_iff)

lemma split_inclusive_terminated:
  "split_inclusive c (a @ [c] @ b) = split_inclusive c (a @ [c]) @ split_inclusive c b"
proof (induction a)
  case (Cons x a)
  have "split_inclusive c (a @ [c]) \<noteq> []" by (cases a) (auto split: list.splits)
  then obtain p ps where "split_inclusive c (a @ [c]) = p # ps" by (cases "split_inclusive c (a @ [c])") auto
  with Cons show ?case by simp
qed simp

lemma lines_terminated: "terminated s \<Longrightarrow> lines (s @ t) = lines s @ lines t"
  using split_inclusive_terminated [of NL _ t]
  by (auto simp: terminated_def ends_with_iff lines_def)

lemma join_no_char: "c \<notin> set sep \<Longrightarrow> (\<forall>s \<in> set ss. c \<notin> set s) \<Longrightarrow> c \<notin> set (join sep ss)"
  by (induction sep ss rule: join.induct) auto

section \<open>Lemmas on decimal text\<close>

lemma is_digit_dec_char [simp]: "(d::nat) < 10 \<Longrightarrow> is_digit (char_of (48 + d))"
  by (simp add: is_digit_def)

lemma byte_of_dec_char [simp]: "(d::nat) < 10 \<Longrightarrow> byte_of (char_of (48 + d)) = 48 + d"
  by simp

lemma digit_chars [simp]:
  "char_of (48::nat) = CHR ''0''" "char_of (49::nat) = CHR ''1''" "char_of (50::nat) = CHR ''2''"
  "char_of (51::nat) = CHR ''3''" "char_of (52::nat) = CHR ''4''" "char_of (53::nat) = CHR ''5''"
  "char_of (54::nat) = CHR ''6''" "char_of (55::nat) = CHR ''7''" "char_of (56::nat) = CHR ''8''"
  "char_of (57::nat) = CHR ''9''"
  by (simp_all add: char_of_eq_iff take_bit_eq_mod)

lemma dec_not_Nil [simp]: "dec n \<noteq> []"
  by (subst dec.simps) simp

lemma dec_digits [simp]: "list_all is_digit (dec n)"
proof (induction n rule: dec.induct)
  case (1 n)
  then show ?case by (subst dec.simps) simp
qed

lemma digits_value_snoc: "digits_value (s @ [c]) = 10 * digits_value s + (byte_of c - 48)"
  by (simp add: digits_value_def)

lemma digits_value_dec [simp]: "digits_value (dec n) = n"
proof (induction n rule: dec.induct)
  case (1 n)
  show ?case
  proof (cases "n < 10")
    case True
    then show ?thesis by (subst dec.simps) (simp add: digits_value_def)
  next
    case False
    then show ?thesis using 1 by (subst dec.simps) (simp add: digits_value_snoc)
  qed
qed

lemma digit_ascii: "is_digit c \<Longrightarrow> c \<noteq> CHR ''+'' \<and> c \<noteq> TAB \<and> c \<noteq> NL \<and> c \<noteq> CR"
  by (auto simp: is_digit_def)

lemma not_in_dec [simp]: "\<not> is_digit c \<Longrightarrow> c \<notin> set (dec n)"
  using dec_digits [of n] by (auto simp: list_all_iff)

lemma not_digits [simp]: "\<not> is_digit TAB" "\<not> is_digit NL" "\<not> is_digit CR" "\<not> is_digit (CHR ''+'')"
  "\<not> is_digit (CHR ''-'')"
  by (simp_all add: is_digit_def)

lemma parse_uint_digits:
  "s \<noteq> [] \<Longrightarrow> list_all is_digit s \<Longrightarrow>
   parse_uint b s = (if digits_value s \<le> b then Some (digits_value s) else None)"
  by (cases s) (auto simp: parse_uint_def dest: digit_ascii)

lemma parse_uint_dec [simp]: "n \<le> b \<Longrightarrow> parse_uint b (dec n) = Some n"
  by (simp add: parse_uint_digits)

lemma parse_uint_bound: "parse_uint b s = Some n \<Longrightarrow> n \<le> b"
  by (auto simp: parse_uint_def Let_def split: if_splits)

lemma dec_inject [simp]: "dec m = dec n \<longleftrightarrow> m = n"
  by (metis digits_value_dec)

section \<open>Lemmas on trimming\<close>

lemma digits_value_Cons: "digits_value (c # s) = (byte_of c - 48) * 10 ^ length s + digits_value s"
proof (induction s rule: rev_induct)
  case (snoc d s)
  have "digits_value (c # s @ [d]) = 10 * digits_value (c # s) + (byte_of d - 48)"
    using digits_value_snoc [of "c # s" d] by simp
  then show ?case using snoc by (simp add: digits_value_snoc algebra_simps)
qed (simp add: digits_value_def)

lemma digits_value_zeros: "digits_value (replicate k (CHR ''0'') @ s) = digits_value s"
  by (induction k) (simp_all add: digits_value_Cons)

definition visible :: "char \<Rightarrow> bool" where
  "visible c \<longleftrightarrow> byte_of c < 128 \<and> \<not> ws1 c"

lemma visible_digit [simp]: "is_digit c \<Longrightarrow> visible c"
  by (auto simp: visible_def is_digit_def ws1_def)

lemma ws_not_visible:
  "ws1 c \<Longrightarrow> \<not> visible c" "ws2 c d \<Longrightarrow> \<not> visible c \<and> \<not> visible d"
  "ws3 c d e \<Longrightarrow> \<not> visible c \<and> \<not> visible d \<and> \<not> visible e"
  by (auto simp: visible_def ws1_def ws2_def ws3_def)

lemma trim_start_keeps: "visible x \<Longrightarrow> x \<in> set s \<Longrightarrow> x \<in> set (trim_start s)"
  by (induction s rule: trim_start.induct) (auto dest: ws_not_visible)

lemma trim_start_rev_keeps: "visible x \<Longrightarrow> x \<in> set s \<Longrightarrow> x \<in> set (trim_start_rev s)"
  by (induction s rule: trim_start_rev.induct) (auto dest: ws_not_visible)

lemma trim_keeps: "visible x \<Longrightarrow> x \<in> set s \<Longrightarrow> x \<in> set (trim s)"
  by (simp add: trim_def trim_end_def trim_start_keeps trim_start_rev_keeps)

lemma trim_not_blank: "\<exists>x \<in> set s. visible x \<Longrightarrow> trim s \<noteq> []"
  using trim_keeps by fastforce

lemma trim_start_id: "visible c \<Longrightarrow> trim_start (c # s) = c # s"
proof -
  assume c: "visible c"
  then have "\<not> ws1 c" "\<And>d. \<not> ws2 c d" "\<And>d e. \<not> ws3 c d e"
    using ws_not_visible by blast+
  then show ?thesis by (cases s; cases "tl s") auto
qed

lemma trim_start_rev_id: "visible c \<Longrightarrow> trim_start_rev (c # s) = c # s"
proof -
  assume c: "visible c"
  then have "\<not> ws1 c" "\<And>d. \<not> ws2 d c" "\<And>d e. \<not> ws3 e d c"
    using ws_not_visible by blast+
  then show ?thesis by (cases s; cases "tl s") auto
qed

lemma trim_id:
  assumes "s \<noteq> []" and "visible (hd s)" and "visible (last s)"
  shows "trim s = s"
proof -
  have 1: "trim_start s = s"
    using assms trim_start_id by (cases s) auto
  have 2: "rev s = last s # rev (butlast s)"
    using assms(1) by (cases s rule: rev_cases) auto
  have "trim_start_rev (rev s) = rev s"
    unfolding 2 by (rule trim_start_rev_id [OF assms(3)])
  then show ?thesis using 1 by (simp add: trim_def trim_end_def)
qed

lemma trim_dec [simp]: "trim (dec n) = dec n"
  using dec_digits [of n] dec_not_Nil [of n]
  by (intro trim_id) (auto simp: list_all_iff)

lemma pad_digits [simp]: "list_all is_digit (pad_left w (dec n))" "digits_value (pad_left w (dec n)) = n"
  "pad_left w (dec n) \<noteq> []"
  by (simp_all add: pad_left_def digits_value_zeros list_all_append) (simp add: list_all_iff is_digit_def)

lemma pad_clean [simp]: "\<not> is_digit c \<Longrightarrow> c \<notin> set (pad_left w (dec n))"
  using pad_digits(1) [of w n] by (auto simp: list_all_iff)

lemma pad_left_dec_inject [simp]: "pad_left w (dec m) = pad_left w (dec n) \<longleftrightarrow> m = n"
  using pad_digits(2) by metis

end
