(* ===== verification/LineStore.thy ===== *)
theory LineStore
  imports Prelude
begin

text \<open>
  The interface of the program's line-oriented state files: \<open>ingested.tsv\<close>, \<open>.pushed\<close>,
  \<open>.processed\<close>, \<open>.content-hashes\<close> and \<open>scan-status.tsv\<close> are all written one row per line
  (\<open>writeln!\<close>, or a whole-file rewrite) and read back with \<open>str::lines\<close> and a lenient row parser
  that skips what it cannot read. A format promises that a row it accepts is a single line and
  parses back; the locale proves once what that gives for whole files, for appends and for a
  file whose last write was interrupted.
\<close>

definition write_rows :: "('a \<Rightarrow> string) \<Rightarrow> 'a list \<Rightarrow> string" where
  "write_rows fmt xs = concat (map (\<lambda>x. fmt x @ [NL]) xs)"

definition read_rows :: "(string \<Rightarrow> 'a option) \<Rightarrow> string \<Rightarrow> 'a list" where
  "read_rows prs s = List.map_filter prs (lines s)"

lemma write_rows_simps [simp]:
  "write_rows fmt [] = []" "write_rows fmt (x # xs) = fmt x @ NL # write_rows fmt xs"
  by (simp_all add: write_rows_def)

lemma write_rows_append [simp]: "write_rows fmt (xs @ ys) = write_rows fmt xs @ write_rows fmt ys"
  by (simp add: write_rows_def)

lemma read_rows_Nil [simp]: "read_rows prs [] = []"
  by (simp add: read_rows_def List.map_filter_def)

lemma read_rows_line [simp]:
  "clean_line l \<Longrightarrow> read_rows prs (l @ NL # s) =
     (case prs l of None \<Rightarrow> read_rows prs s | Some x \<Rightarrow> x # read_rows prs s)"
  by (simp add: read_rows_def List.map_filter_def split: option.splits)

lemma read_rows_last:
  "NL \<notin> set l \<Longrightarrow> l \<noteq> [] \<Longrightarrow> read_rows prs l = (case prs l of None \<Rightarrow> [] | Some x \<Rightarrow> [x])"
  by (simp add: read_rows_def lines_last List.map_filter_def split: option.splits)

lemma map_filter_append: "List.map_filter f (xs @ ys) = List.map_filter f xs @ List.map_filter f ys"
  by (simp add: List.map_filter_def)

lemma map_filter_single: "f x = Some y \<Longrightarrow> List.map_filter f [x] = [y]"
  by (simp add: List.map_filter_def)

locale line_format =
  fixes fmt :: "'a \<Rightarrow> string"
    and prs :: "string \<Rightarrow> 'a option"
    and ok :: "'a \<Rightarrow> bool"
  assumes fmt_clean: "ok x \<Longrightarrow> clean_line (fmt x)"
    and prs_fmt: "ok x \<Longrightarrow> prs (fmt x) = Some x"
begin

lemma read_write_append:
  "list_all ok xs \<Longrightarrow> read_rows prs (write_rows fmt xs @ s) = xs @ read_rows prs s"
  by (induction xs) (auto simp: fmt_clean prs_fmt)

lemma read_write: "list_all ok xs \<Longrightarrow> read_rows prs (write_rows fmt xs) = xs"
  using read_write_append [of xs "[]"] by simp

lemma append_row:
  "list_all ok xs \<Longrightarrow> ok x \<Longrightarrow> read_rows prs (write_rows fmt xs @ fmt x @ [NL]) = xs @ [x]"
  using read_write_append [of xs "fmt x @ [NL]"] read_write [of "[x]"] by simp

lemma append_terminated:
  "terminated s \<Longrightarrow> ok x \<Longrightarrow> read_rows prs (s @ fmt x @ [NL]) = read_rows prs s @ [x]"
  by (simp add: read_rows_def lines_terminated map_filter_append lines_snoc fmt_clean
        map_filter_single prs_fmt)

lemma append_terminated_rows:
  assumes "list_all ok xs" and "terminated s"
  shows "read_rows prs (s @ write_rows fmt xs) = read_rows prs s @ xs"
  using assms
proof (induction xs arbitrary: s)
  case (Cons x xs)
  have "read_rows prs ((s @ fmt x @ [NL]) @ write_rows fmt xs) = read_rows prs (s @ fmt x @ [NL]) @ xs"
    by (rule Cons.IH) (use Cons.prems terminated_snoc(1) [of "s @ fmt x"] in simp_all)
  then show ?case using Cons.prems append_terminated [of s x] by simp
qed simp

text \<open>An interrupted last write: every earlier row survives, and the torn tail is read as at
  most one row.\<close>

lemma torn_tail:
  assumes "list_all ok xs" and "NL \<notin> set t"
  shows "\<exists>ys. read_rows prs (write_rows fmt xs @ t) = xs @ ys \<and> length ys \<le> 1"
proof (cases "t = []")
  case True
  then show ?thesis using assms(1) read_write by auto
next
  case False
  then show ?thesis
    using assms read_write_append [of xs t] by (auto simp: read_rows_last split: option.splits)
qed

lemma write_rows_inject:
  assumes "list_all ok xs" and "list_all ok ys" and "write_rows fmt xs = write_rows fmt ys"
  shows "xs = ys"
  using assms read_write by metis

end

end
