(* ===== verification/Utf8.thy ===== *)
theory Utf8
  imports Prelude
begin

text \<open>
  The character structure of a UTF-8 byte string: \<open>chars\<close> (Rust's \<open>str::chars\<close>, each character as
  its bytes), char boundaries and well-formedness as \<open>str::from_utf8\<close> checks it.
\<close>

definition is_cont :: "char \<Rightarrow> bool" where
  "is_cont c \<longleftrightarrow> 0x80 \<le> byte_of c \<and> byte_of c < 0xC0"

text \<open>\<open>str::is_char_boundary\<close>: the ends, and every byte that is not a continuation byte.\<close>

definition is_char_boundary :: "string \<Rightarrow> nat \<Rightarrow> bool" where
  "is_char_boundary s i \<longleftrightarrow> i = 0 \<or> i = length s \<or> (i < length s \<and> \<not> is_cont (s ! i))"

fun chars :: "string \<Rightarrow> string list" where
  "chars [] = []"
| "chars (c # s) = (case chars s of [] \<Rightarrow> [[c]]
     | p # ps \<Rightarrow> if is_cont (hd p) then (c # p) # ps else [c] # p # ps)"

definition char_len :: "char \<Rightarrow> nat" where
  "char_len c = (if byte_of c < 0xC0 then 1 else if byte_of c < 0xE0 then 2
                 else if byte_of c < 0xF0 then 3 else 4)"

text \<open>No overlong form, no surrogate and nothing past U+10FFFF: what the first two bytes decide.\<close>

definition lead_ok :: "string \<Rightarrow> bool" where
  "lead_ok p = (case p of
     a # b # _ \<Rightarrow> 0xC2 \<le> byte_of a \<and> byte_of a \<le> 0xF4 \<and>
       (byte_of a = 0xE0 \<longrightarrow> 0xA0 \<le> byte_of b) \<and> (byte_of a = 0xED \<longrightarrow> byte_of b \<le> 0x9F) \<and>
       (byte_of a = 0xF0 \<longrightarrow> 0x90 \<le> byte_of b) \<and> (byte_of a = 0xF4 \<longrightarrow> byte_of b \<le> 0x8F)
   | _ \<Rightarrow> True)"

definition utf8_char :: "string \<Rightarrow> bool" where
  "utf8_char p \<longleftrightarrow> p \<noteq> [] \<and> \<not> is_cont (hd p) \<and> list_all is_cont (tl p) \<and> length p = char_len (hd p) \<and>
     lead_ok p"

definition utf8_ok :: "string \<Rightarrow> bool" where
  "utf8_ok s \<longleftrightarrow> list_all utf8_char (chars s)"

lemma chars_ne: "p \<in> set (chars s) \<Longrightarrow> p \<noteq> []"
  by (induction s arbitrary: p) (auto split: list.splits if_splits)

lemma chars_Nil_iff [simp]: "chars s = [] \<longleftrightarrow> s = []"
  by (cases s) (auto split: list.splits if_splits)

lemma concat_chars [simp]: "concat (chars s) = s"
  by (induction s) (auto split: list.splits if_splits)

lemma hd_hd_chars: "s \<noteq> [] \<Longrightarrow> hd (hd (chars s)) = hd s"
  by (cases s) (auto split: list.splits if_splits)

lemma chars_append:
  "b = [] \<or> \<not> is_cont (hd b) \<Longrightarrow> chars (a @ b) = chars a @ chars b"
proof (induction a)
  case (Cons c a)
  show ?case
  proof (cases "chars a")
    case Nil
    then show ?thesis using Cons hd_hd_chars [of b] by (cases "b = []") (auto split: list.splits)
  next
    case (Cons p ps)
    then show ?thesis using Cons.IH Cons.prems by simp
  qed
qed simp

lemma chars_boundary:
  "is_char_boundary s n \<Longrightarrow> chars s = chars (take n s) @ chars (drop n s)"
  using chars_append [of "drop n s" "take n s"]
  by (cases "n < length s") (auto simp: is_char_boundary_def hd_drop_conv_nth)

lemma utf8_ok_Nil [simp]: "utf8_ok []"
  by (simp add: utf8_ok_def)

lemma utf8_ok_hd: "utf8_ok b \<Longrightarrow> b = [] \<or> \<not> is_cont (hd b)"
  using hd_hd_chars [of b] by (cases "chars b") (auto simp: utf8_ok_def utf8_char_def)

lemma utf8_ok_append: "utf8_ok a \<Longrightarrow> utf8_ok b \<Longrightarrow> utf8_ok (a @ b)"
  using utf8_ok_hd [of b] chars_append [of b a] by (simp add: utf8_ok_def)

lemma utf8_ok_take: "utf8_ok s \<Longrightarrow> is_char_boundary s n \<Longrightarrow> utf8_ok (take n s)"
  by (simp add: utf8_ok_def chars_boundary [of s n])

lemma utf8_ok_drop: "utf8_ok s \<Longrightarrow> is_char_boundary s n \<Longrightarrow> utf8_ok (drop n s)"
  by (simp add: utf8_ok_def chars_boundary [of s n])

lemma ascii_not_cont: "byte_of c < 0x80 \<Longrightarrow> \<not> is_cont c"
  by (simp add: is_cont_def)

lemma utf8_char_ascii: "byte_of c < 0x80 \<Longrightarrow> utf8_char [c]"
  by (simp add: utf8_char_def char_len_def ascii_not_cont lead_ok_def)

lemma utf8_char_ascii_hd: "utf8_char p \<Longrightarrow> byte_of (hd p) < 0x80 \<Longrightarrow> p = [hd p]"
  by (cases p) (auto simp: utf8_char_def char_len_def)

lemma utf8_ok_ascii: "list_all (\<lambda>c. byte_of c < 0x80) s \<Longrightarrow> utf8_ok s"
proof (induction s)
  case (Cons c s)
  then have "utf8_ok ([c] @ s)"
    by (intro utf8_ok_append) (simp_all add: utf8_ok_def utf8_char_ascii)
  then show ?case by simp
qed simp

lemma utf8_ok_split_ascii:
  assumes "utf8_ok (s @ c # t)" and "byte_of c < 0x80"
  shows "utf8_ok s \<and> utf8_ok t"
proof -
  have eq: "chars (s @ c # t) = chars s @ chars (c # t)"
    using assms(2) by (intro chars_append) (simp add: ascii_not_cont)
  then have ok: "utf8_ok s" "utf8_ok (c # t)" using assms(1) by (simp_all add: utf8_ok_def)
  show ?thesis
  proof (cases "t = []")
    case False
    have "hd (chars (c # t)) \<in> set (chars (c # t))" by (rule list.set_sel(1)) (metis chars_Nil_iff list.distinct(1))
    then have "hd (chars (c # t)) = [c]"
      using ok(2) utf8_char_ascii_hd hd_hd_chars [of "c # t"] assms(2)
      by (metis list.distinct(1) list.pred_set list.sel(1) utf8_ok_def)
    moreover obtain p ps where "chars t = p # ps" using False by (cases "chars t") auto
    ultimately have "\<not> is_cont (hd p)" "chars (c # t) = [c] # chars t"
      using chars_ne [of p t] by (auto split: if_splits)
    then show ?thesis using ok by (simp add: utf8_ok_def)
  qed (simp add: ok)
qed

text \<open>A text that starts well-formed and is well-formed goes on well-formed.\<close>

lemma chars_Cons: "chars (x # s) = (x # takeWhile is_cont s) # chars (dropWhile is_cont s)"
proof (induction s arbitrary: x)
  case (Cons c s)
  show ?case using Cons [of c] by (cases "is_cont c") simp_all
qed simp

declare chars.simps(2) [simp del]

lemma utf8_ok_Cons: "utf8_ok (x # s) \<longleftrightarrow> utf8_char (x # takeWhile is_cont s) \<and> utf8_ok (dropWhile is_cont s)"
  by (simp add: utf8_ok_def chars_Cons)

lemma utf8_ok_rest: "utf8_ok (a @ b) \<Longrightarrow> utf8_ok a \<Longrightarrow> utf8_ok b"
proof (induction "length a" arbitrary: a rule: less_induct)
  case less
  show ?case
  proof (cases a)
    case Nil
    then show ?thesis using less.prems by simp
  next
    case (Cons x s)
    let ?d = "dropWhile is_cont s"
    have a: "utf8_char (x # takeWhile is_cont s)" "utf8_ok ?d"
      using less.prems(2) Cons by (simp_all add: utf8_ok_Cons)
    have ab: "utf8_char (x # takeWhile is_cont (s @ b))" "utf8_ok (dropWhile is_cont (s @ b))"
      using less.prems(1) Cons by (simp_all add: utf8_ok_Cons)
    show ?thesis
    proof (cases "?d = []")
      case True
      then have "\<forall>c \<in> set s. is_cont c" by simp
      then have tw: "takeWhile is_cont (s @ b) = s @ takeWhile is_cont b" "takeWhile is_cont s = s"
        "dropWhile is_cont (s @ b) = dropWhile is_cont b"
        by (simp_all add: takeWhile_append2 takeWhile_eq_all_conv)
      have "length (x # s @ takeWhile is_cont b) = length (x # s)"
        using a(1) ab(1) unfolding tw by (simp add: utf8_char_def)
      then have "takeWhile is_cont b = []" by simp
      then have "dropWhile is_cont b = b" by (cases b) (auto split: if_splits)
      then show ?thesis using ab(2) tw(3) by simp
    next
      case False
      then have "dropWhile is_cont (s @ b) = ?d @ b" by (metis dropWhile_append dropWhile_eq_Nil_conv)
      moreover have "length ?d < length a" using Cons by (simp add: le_imp_less_Suc length_dropWhile_le)
      ultimately show ?thesis using less.hyps [of ?d] a(2) ab(2) by simp
    qed
  qed
qed

text \<open>The greatest boundary at or below a position: the \<open>while\<close> loop of
  \<open>truncate_at_char_boundary\<close>.\<close>

fun boundary_at_most :: "string \<Rightarrow> nat \<Rightarrow> nat" where
  "boundary_at_most s 0 = 0"
| "boundary_at_most s (Suc e) = (if is_char_boundary s (Suc e) then Suc e else boundary_at_most s e)"

lemma boundary_at_most_le: "boundary_at_most s n \<le> n"
  by (induction n) (auto intro: le_SucI)

lemma boundary_at_most_boundary: "is_char_boundary s (boundary_at_most s n)"
  by (induction n) (auto simp: is_char_boundary_def)

lemma boundary_at_most_greatest: "k \<le> n \<Longrightarrow> is_char_boundary s k \<Longrightarrow> k \<le> boundary_at_most s n"
  by (induction n) (auto simp: le_Suc_eq)

text \<open>A character is at most four bytes, so the greatest boundary is at most three bytes back.\<close>

lemma boundary_at_most_near:
  assumes "utf8_ok s" and "n \<le> length s"
  shows "n \<le> boundary_at_most s n + 3"
proof (rule ccontr)
  let ?k = "boundary_at_most s n"
  assume far: "\<not> n \<le> ?k + 3"
  then have ne: "drop ?k s \<noteq> []" using assms(2) by simp
  then obtain p ps where p: "chars (drop ?k s) = p # ps" by (cases "chars (drop ?k s)") auto
  have "utf8_ok (drop ?k s)" by (intro utf8_ok_drop assms(1) boundary_at_most_boundary)
  then have pc: "utf8_char p" and ps: "list_all utf8_char ps" by (simp_all add: utf8_ok_def p)
  have len: "1 \<le> length p" "length p \<le> 4" using pc by (auto simp: utf8_char_def char_len_def Suc_leI)
  have cat: "drop ?k s = p @ concat ps" using concat_chars [of "drop ?k s"] p by simp
  have "s = take ?k s @ p @ concat ps" using cat by (metis append_take_drop_id)
  moreover have "length (take ?k s) = ?k" using boundary_at_most_le [of s n] assms(2) by simp
  moreover have "concat ps = [] \<or> \<not> is_cont (hd (concat ps))"
    using ps by (cases ps) (auto simp: utf8_char_def)
  ultimately have "is_char_boundary s (?k + length p)"
    unfolding is_char_boundary_def
    by (metis (no_types, lifting) append.assoc append_Nil2 hd_append2 hd_conv_nth length_append
        length_greater_0_conv less_add_same_cancel1 nth_append_length_plus add.right_neutral hd_drop_conv_nth append_eq_conv_conj)
  then have "?k + length p \<le> ?k" using far len by (intro boundary_at_most_greatest) simp_all
  then show False using len by simp
qed

end
