(* ===== verification/DataCore.thy ===== *)
theory DataCore
  imports LineStore Utf8
begin

text \<open>
  \<open>src/src/core/data.rs\<close>: the content-hash index, collision-free file names, filename
  sanitising, the directory walk and the sidecar predicates. \<open>std::path\<close> is modelled on
  \<open>/\<close>-separated UTF-8 strings.
\<close>

section \<open>Paths\<close>

text \<open>\<open>Path::file_name\<close>: the last component that is not empty or \<open>.\<close>, unless it is \<open>..\<close>.\<close>

definition file_name :: "string \<Rightarrow> string option" where
  "file_name p =
     (let cs = filter (\<lambda>c. c \<noteq> [] \<and> c \<noteq> ''.'') (split_on (CHR ''/'') p) in
      if cs = [] \<or> last cs = ''..'' then None else Some (last cs))"

text \<open>\<open>file_stem\<close> and \<open>extension\<close> of a file name: the last dot splits, unless it is the first
  character.\<close>

definition stem_ext :: "string \<Rightarrow> string \<times> string option" where
  "stem_ext f = (case rsplit_once (CHR ''.'') f of None \<Rightarrow> (f, None)
     | Some (b, a) \<Rightarrow> if b = [] then (f, None) else (b, Some a))"

definition file_stem :: "string \<Rightarrow> string option" where
  "file_stem p = map_option (fst \<circ> stem_ext) (file_name p)"

definition extension :: "string \<Rightarrow> string option" where
  "extension p = Option.bind (file_name p) (snd \<circ> stem_ext)"

text \<open>\<open>Path::join\<close>; and \<open>Path::parent\<close>, which ignores trailing separators and \<open>.\<close> components.\<close>

definition path_join :: "string \<Rightarrow> string \<Rightarrow> string" where
  "path_join a b =
     (if starts_with ''/'' b then b else if a = [] \<or> ends_with ''/'' a then a @ b else a @ ''/'' @ b)"

fun strip_tail_rev :: "string \<Rightarrow> string" where
  "strip_tail_rev s = (case s of
     c # cs \<Rightarrow>
       if c = CHR ''/'' \<and> cs \<noteq> [] then strip_tail_rev cs
       else if c = CHR ''.'' \<and> cs \<noteq> [] \<and> hd cs = CHR ''/'' then strip_tail_rev cs
       else s
   | [] \<Rightarrow> [])"

declare strip_tail_rev.simps [simp del]

definition strip_tail :: "string \<Rightarrow> string" where
  "strip_tail p = rev (strip_tail_rev (rev p))"

definition path_parent :: "string \<Rightarrow> string option" where
  "path_parent p =
     (let q = strip_tail p in
      if q = [] \<or> q = ''/'' then None
      else case rsplit_once (CHR ''/'') q of
        None \<Rightarrow> Some []
      | Some (a, _) \<Rightarrow> Some (if a = [] then ''/'' else strip_tail a))"

lemma file_name_props:
  assumes "file_name p = Some f"
  shows "f \<noteq> []" "f \<noteq> ''.''" "f \<noteq> ''..''" "CHR ''/'' \<notin> set f" "set f \<subseteq> set p"
proof -
  let ?cs = "filter (\<lambda>c. c \<noteq> [] \<and> c \<noteq> ''.'') (split_on (CHR ''/'') p)"
  have "?cs \<noteq> []" "f = last ?cs" "f \<noteq> ''..''"
    using assms by (auto simp: file_name_def Let_def split: if_splits)
  then have "f \<in> set ?cs" "f \<noteq> ''..''" by (metis last_in_set)+
  then show "f \<noteq> []" "f \<noteq> ''.''" "f \<noteq> ''..''" "CHR ''/'' \<notin> set f" "set f \<subseteq> set p"
    using split_on_pieces set_split_on by fastforce+
qed

lemma file_name_id:
  "f \<noteq> [] \<Longrightarrow> f \<noteq> ''.'' \<Longrightarrow> f \<noteq> ''..'' \<Longrightarrow> CHR ''/'' \<notin> set f \<Longrightarrow> file_name f = Some f"
  by (simp add: file_name_def Let_def)

lemma file_name_join:
  "f \<noteq> [] \<Longrightarrow> f \<noteq> ''.'' \<Longrightarrow> f \<noteq> ''..'' \<Longrightarrow> CHR ''/'' \<notin> set f \<Longrightarrow> CHR ''/'' \<notin> set d \<Longrightarrow>
   file_name (d @ CHR ''/'' # f) = Some f"
  by (simp add: file_name_def Let_def)

section \<open>The content index\<close>

record content_index_entry =
  relative_path :: string
  original_key :: string
  source_bucket_alias :: string

text \<open>The index holds its dotfile's contents (\<open>None\<close> when the file does not exist) beside the
  loaded map.\<close>

record content_index =
  ci_file :: "string option"
  ci_entries :: "string \<rightharpoonup> content_index_entry"

definition parse_index_line :: "string \<Rightarrow> (string \<times> content_index_entry) option" where
  "parse_index_line line =
     (case split_once TAB line of
        Some (hash, rest) \<Rightarrow>
          (let (rel, rest1) = (case split_once TAB rest of Some ab \<Rightarrow> ab | None \<Rightarrow> (rest, []));
               (key, bucket) = (case split_once TAB rest1 of Some ab \<Rightarrow> ab | None \<Rightarrow> (rest1, []))
           in Some (hash, \<lparr>relative_path = rel, original_key = key, source_bucket_alias = bucket\<rparr>))
      | None \<Rightarrow>
          map_option (\<lambda>(hash, rel).
            (hash, \<lparr>relative_path = rel, original_key = [], source_bucket_alias = []\<rparr>))
          (split_once (CHR '' '') line))"

text \<open>Collecting into a \<open>HashMap\<close>: a later line of the same hash wins.\<close>

definition load_index :: "string option \<Rightarrow> content_index" where
  "load_index file = \<lparr>ci_file = file,
     ci_entries = map_of (rev (read_rows parse_index_line (case file of None \<Rightarrow> [] | Some s \<Rightarrow> s)))\<rparr>"

definition check_with_original_key_and_bucket ::
  "content_index \<Rightarrow> string \<Rightarrow> (string \<times> string \<times> string) option" where
  "check_with_original_key_and_bucket ix hash =
     map_option (\<lambda>e. (relative_path e, original_key e, source_bucket_alias e)) (ci_entries ix hash)"

definition format_index_line :: "string \<times> content_index_entry \<Rightarrow> string" where
  "format_index_line = (\<lambda>(hash, e).
     hash @ [TAB] @ relative_path e @ [TAB] @ original_key e @ [TAB] @ source_bucket_alias e)"

text \<open>The commit with a writable file (\<open>writable\<close>) or one that cannot be opened or written;
  the error path leaves the map alone.\<close>

definition commit_with_key_and_bucket ::
  "bool \<Rightarrow> string \<Rightarrow> string \<Rightarrow> string \<Rightarrow> string \<Rightarrow> content_index \<Rightarrow> content_index result" where
  "commit_with_key_and_bucket writable hash rel key bucket ix =
     (let e = \<lparr>relative_path = rel, original_key = key, source_bucket_alias = bucket\<rparr> in
      if \<not> writable then Inl (Err ''failed to write the content index'')
      else Inr \<lparr>ci_file = Some ((case ci_file ix of None \<Rightarrow> [] | Some s \<Rightarrow> s) @
                                 format_index_line (hash, e) @ [NL]),
                 ci_entries = (ci_entries ix)(hash \<mapsto> e)\<rparr>)"

definition index_row_ok :: "string \<times> content_index_entry \<Rightarrow> bool" where
  "index_row_ok = (\<lambda>(hash, e).
     TAB \<notin> set hash \<and> TAB \<notin> set (relative_path e) \<and> TAB \<notin> set (original_key e) \<and>
     NL \<notin> set hash \<and> NL \<notin> set (relative_path e) \<and> NL \<notin> set (original_key e) \<and>
     clean_line (source_bucket_alias e))"

lemma clean_line_TAB [simp]:
  "clean_line (a @ TAB # b) \<longleftrightarrow> NL \<notin> set a \<and> clean_line b"
  by (simp add: clean_line_mid)

lemma clean_line_no_CR: "NL \<notin> set l \<Longrightarrow> CR \<notin> set l \<Longrightarrow> clean_line l"
  by (auto simp: clean_line_def ends_with_iff)

lemma clean_line_dec [simp]: "clean_line (dec n)"
  by (rule clean_line_no_CR) simp_all

interpretation index_format: line_format format_index_line parse_index_line index_row_ok
proof unfold_locales
  fix x :: "string \<times> content_index_entry"
  assume "index_row_ok x"
  then show "clean_line (format_index_line x)" and "parse_index_line (format_index_line x) = Some x"
    by (auto simp: index_row_ok_def format_index_line_def parse_index_line_def split: prod.splits)
qed

section \<open>Collision-free file names\<close>

text \<open>\<open>dir\<close> is the listing of the parent directory of \<open>desired\<close>; names stand for paths in it.\<close>

definition candidate_name :: "string \<Rightarrow> nat \<Rightarrow> string" where
  "candidate_name desired n = (case stem_ext desired of
     (stem, Some ext) \<Rightarrow> stem @ ''-'' @ dec n @ ''.'' @ ext
   | (stem, None) \<Rightarrow> stem @ ''-'' @ dec n)"

lemma candidate_name_inject [simp]:
  "candidate_name desired m = candidate_name desired n \<longleftrightarrow> m = n"
  by (auto simp: candidate_name_def split: prod.splits option.splits)

lemma finite_candidates: "finite {m. n \<le> m \<and> candidate_name desired m \<in> set dir}"
proof -
  have "inj (candidate_name desired)" by (auto intro: injI)
  then have "finite (candidate_name desired -` set dir)" by (intro finite_vimageI) simp_all
  then show ?thesis by (rule rev_finite_subset) auto
qed

function first_free :: "string list \<Rightarrow> string \<Rightarrow> nat \<Rightarrow> string" where
  "first_free dir desired n =
     (if candidate_name desired n \<notin> set dir then candidate_name desired n
      else first_free dir desired (n + 1))"
  by pat_completeness auto
termination
proof (relation "measure (\<lambda>(dir, desired, n). card {m. n \<le> m \<and> candidate_name desired m \<in> set dir})")
  fix dir desired n
  assume "\<not> candidate_name desired n \<notin> set dir"
  then have "n \<in> {m. n \<le> m \<and> candidate_name desired m \<in> set dir} -
                 {m. n + 1 \<le> m \<and> candidate_name desired m \<in> set dir}" by simp
  then have "{m. n + 1 \<le> m \<and> candidate_name desired m \<in> set dir} \<noteq>
             {m. n \<le> m \<and> candidate_name desired m \<in> set dir}" by blast
  moreover have "{m. n + 1 \<le> m \<and> candidate_name desired m \<in> set dir} \<subseteq>
             {m. n \<le> m \<and> candidate_name desired m \<in> set dir}" by auto
  ultimately have "{m. n + 1 \<le> m \<and> candidate_name desired m \<in> set dir} \<subset>
             {m. n \<le> m \<and> candidate_name desired m \<in> set dir}" by blast
  then show "((dir, desired, n + 1), dir, desired, n) \<in>
      measure (\<lambda>(dir, desired, n). card {m. n \<le> m \<and> candidate_name desired m \<in> set dir})"
    by (simp add: psubset_card_mono finite_candidates)
qed simp

declare first_free.simps [simp del]

definition unique_path :: "string list \<Rightarrow> string \<Rightarrow> string" where
  "unique_path dir desired = (if desired \<notin> set dir then desired else first_free dir desired 2)"

lemma first_free_spec:
  "\<exists>m \<ge> n. first_free dir desired n = candidate_name desired m \<and> candidate_name desired m \<notin> set dir \<and>
     (\<forall>k. n \<le> k \<and> k < m \<longrightarrow> candidate_name desired k \<in> set dir)"
proof (induction dir desired n rule: first_free.induct)
  case (1 dir desired n)
  show ?case
  proof (cases "candidate_name desired n \<in> set dir")
    case False
    then show ?thesis by (intro exI [of _ n]) (subst first_free.simps, auto)
  next
    case True
    with "1.IH" obtain m where m: "n + 1 \<le> m"
      "first_free dir desired (n + 1) = candidate_name desired m" "candidate_name desired m \<notin> set dir"
      "\<forall>k. n + 1 \<le> k \<and> k < m \<longrightarrow> candidate_name desired k \<in> set dir" by blast
    have "\<forall>k. n \<le> k \<and> k < m \<longrightarrow> candidate_name desired k \<in> set dir"
      using m(4) True by (metis Suc_eq_plus1 le_antisym not_less_eq_eq)
    with m True show ?thesis by (intro exI [of _ m]) (subst first_free.simps, auto)
  qed
qed

section \<open>Sanitised names\<close>

definition MAX_FILENAME_LENGTH :: nat where "MAX_FILENAME_LENGTH = 100"

definition truncate_at_char_boundary :: "string \<Rightarrow> nat \<Rightarrow> string" where
  "truncate_at_char_boundary s max_bytes = take (boundary_at_most s (min max_bytes (length s))) s"

definition truncate_preserving_extension :: "string \<Rightarrow> nat \<Rightarrow> string" where
  "truncate_preserving_extension name max_len =
     (if length name \<le> max_len then name
      else case rsplit_once (CHR ''.'') name of
        Some (stem, ext) \<Rightarrow>
          if ext \<noteq> [] \<and> length ext + 1 < max_len
          then truncate_at_char_boundary stem (max_len - length ext - 1) @ ''.'' @ ext
          else truncate_at_char_boundary name max_len
      | None \<Rightarrow> truncate_at_char_boundary name max_len)"

definition sanitize_filename :: "string \<Rightarrow> string" where
  "sanitize_filename name = (case file_name name of
     Some base \<Rightarrow> if base = [] then ''file'' else truncate_preserving_extension base MAX_FILENAME_LENGTH
   | None \<Rightarrow> ''file'')"

section \<open>Slugs\<close>

definition MAX_SHEET_SLUG_LENGTH :: nat where "MAX_SHEET_SLUG_LENGTH = 40"

definition slug_char :: "char \<Rightarrow> bool" where
  "slug_char c \<longleftrightarrow> is_alnum c \<or> c = CHR ''.'' \<or> c = CHR ''_'' \<or> c = CHR ''-''"

text \<open>The character loop: every byte of a non-ASCII character only sets \<open>pending_separator\<close>, so
  the loop over bytes is the loop over characters.\<close>

fun slug_loop :: "nat \<Rightarrow> string \<Rightarrow> bool \<Rightarrow> string \<Rightarrow> string" where
  "slug_loop max_len slug pending [] = slug"
| "slug_loop max_len slug pending (ch # chs) =
     (if slug_char ch then
        let slug' = (if pending \<and> slug \<noteq> [] then slug @ ''-'' else slug) in
        if length slug' \<ge> max_len then slug'
        else slug_loop max_len (slug' @ [ch]) False chs
      else slug_loop max_len slug True chs)"

definition slugify :: "string \<Rightarrow> nat \<Rightarrow> string \<Rightarrow> string" where
  "slugify name max_len fallback =
     (let trimmed = trim_by (\<lambda>c. c = CHR ''-'') (slug_loop max_len [] False name) in
      if trimmed = [] then fallback else trimmed)"

definition sheet_slug :: "string \<Rightarrow> string" where
  "sheet_slug name = slugify name MAX_SHEET_SLUG_LENGTH ''sheet''"

definition strict_stem :: "string \<Rightarrow> string" where
  "strict_stem name = (case file_name name of
     Some base \<Rightarrow> if base = [] then ''file'' else slugify base MAX_FILENAME_LENGTH ''file''
   | None \<Rightarrow> ''file'')"

section \<open>Sidecars and the directory walk\<close>

definition last_segment :: "string \<Rightarrow> string" where
  "last_segment key = last (split_on (CHR ''/'') key)"

definition is_apple_double_basename :: "string \<Rightarrow> bool" where
  "is_apple_double_basename key \<longleftrightarrow> starts_with ''._'' (last_segment key)"

definition is_excel_lock_basename :: "string \<Rightarrow> bool" where
  "is_excel_lock_basename key \<longleftrightarrow> starts_with ''~$'' (last_segment key)"

text \<open>A directory tree; a directory that \<open>read_dir\<close> fails on is \<open>Unreadable\<close>. A path below the
  walked directory is its list of component names, and \<open>sort\<close> orders paths component by
  component, as \<open>PathBuf\<close>'s \<open>Ord\<close> does.\<close>

datatype fs_node = FileNode | DirNode "(string \<times> fs_node) list" | Unreadable

fun visit_dir :: "string list \<Rightarrow> fs_node \<Rightarrow> string list list result"
and visit_entries :: "string list \<Rightarrow> (string \<times> fs_node) list \<Rightarrow> string list list result" where
  "visit_dir dir FileNode = Inl (Err (''failed to read '' @ join ''/'' dir))"
| "visit_dir dir Unreadable = Inl (Err (''failed to read '' @ join ''/'' dir))"
| "visit_dir dir (DirNode entries) = visit_entries dir entries"
| "visit_entries dir [] = Inr []"
| "visit_entries dir ((name, node) # rest) =
     bindE (case node of FileNode \<Rightarrow> Inr [dir @ [name]] | _ \<Rightarrow> visit_dir (dir @ [name]) node)
       (\<lambda>fs. bindE (visit_entries dir rest) (\<lambda>gs. Inr (fs @ gs)))"

definition collect_files :: "fs_node option \<Rightarrow> string list list result" where
  "collect_files dir = (case dir of None \<Rightarrow> Inr []
     | Some node \<Rightarrow> bindE (visit_dir [] node) (\<lambda>fs. Inr (sort fs)))"

section \<open>Lemmas\<close>

definition file_text :: "content_index \<Rightarrow> string" where
  "file_text ix = (case ci_file ix of None \<Rightarrow> [] | Some s \<Rightarrow> s)"

text \<open>The in-memory map is what a fresh load of the dotfile gives, and the dotfile ends in a
  complete line.\<close>

definition index_inv :: "content_index \<Rightarrow> bool" where
  "index_inv ix \<longleftrightarrow> terminated (file_text ix) \<and> ci_entries ix = ci_entries (load_index (ci_file ix))"

lemma load_index_inv: "terminated (case file of None \<Rightarrow> [] | Some s \<Rightarrow> s) \<Longrightarrow> index_inv (load_index file)"
  by (simp add: index_inv_def load_index_def file_text_def)

lemma length_truncate: "length (truncate_at_char_boundary s n) \<le> min n (length s)"
  unfolding truncate_at_char_boundary_def
  using boundary_at_most_le [of s "min n (length s)"] by simp

lemma set_truncate: "set (truncate_at_char_boundary s n) \<subseteq> set s"
  by (simp add: truncate_at_char_boundary_def set_take_subset)

lemma utf8_ok_truncate: "utf8_ok s \<Longrightarrow> utf8_ok (truncate_at_char_boundary s n)"
  by (simp add: truncate_at_char_boundary_def utf8_ok_take boundary_at_most_boundary)

lemma truncate_loses_at_most_3:
  "utf8_ok s \<Longrightarrow> n \<le> length s \<Longrightarrow> n \<le> length (truncate_at_char_boundary s n) + 3"
  using boundary_at_most_near [of s n] boundary_at_most_le [of s n]
  by (simp add: truncate_at_char_boundary_def)

lemma utf8_ok_split_dot: "utf8_ok (s @ CHR ''.'' # t) \<Longrightarrow> utf8_ok s \<and> utf8_ok t"
  by (erule utf8_ok_split_ascii) simp

lemma utf8_ok_dot: "utf8_ok s \<Longrightarrow> utf8_ok t \<Longrightarrow> utf8_ok (s @ CHR ''.'' # t)"
  using utf8_ok_append [of s "''.'' @ t"] utf8_ok_append [of "''.''" t] by (simp add: utf8_ok_ascii)

text \<open>The three outcomes of the truncation.\<close>

lemma truncate_preserving_extension_cases:
  obtains (short) "truncate_preserving_extension s n = s" "length s \<le> n"
    | (cut) "truncate_preserving_extension s n = truncate_at_char_boundary s n" "n < length s"
    | (ext) stem ext where "s = stem @ CHR ''.'' # ext" "CHR ''.'' \<notin> set ext" "ext \<noteq> []"
        "length ext + 1 < n" "n < length s"
        "truncate_preserving_extension s n =
           truncate_at_char_boundary stem (n - length ext - 1) @ CHR ''.'' # ext"
proof (cases "length s \<le> n")
  case True
  then show ?thesis using short by (simp add: truncate_preserving_extension_def)
next
  case False
  show ?thesis
  proof (cases "rsplit_once (CHR ''.'') s")
    case None
    have "truncate_preserving_extension s n = truncate_at_char_boundary s n"
      unfolding truncate_preserving_extension_def None using False by simp
    then show ?thesis using cut False by simp
  next
    case (Some ab)
    obtain stem e where ab: "ab = (stem, e)" by (cases ab)
    then have "s = stem @ CHR ''.'' # e" "CHR ''.'' \<notin> set e" using Some rsplit_once_Some by blast+
    moreover have "truncate_preserving_extension s n =
        (if e \<noteq> [] \<and> length e + 1 < n
         then truncate_at_char_boundary stem (n - length e - 1) @ CHR ''.'' # e
         else truncate_at_char_boundary s n)"
      unfolding truncate_preserving_extension_def Some ab using False by simp
    ultimately show ?thesis
      using cut ext [of stem e] False by (cases "e \<noteq> [] \<and> length e + 1 < n") auto
  qed
qed

lemma length_truncate_preserving: "length (truncate_preserving_extension s n) \<le> n"
proof (cases s n rule: truncate_preserving_extension_cases)
  case (ext stem ext)
  then show ?thesis using length_truncate [of stem "n - length ext - 1"] by simp
qed (use length_truncate [of s n] in simp_all)

lemma set_truncate_preserving: "set (truncate_preserving_extension s n) \<subseteq> set s"
proof (cases s n rule: truncate_preserving_extension_cases)
  case (ext stem ext)
  then show ?thesis using set_truncate [of stem] by auto
qed (use set_truncate in simp_all)

lemma utf8_ok_truncate_preserving: "utf8_ok s \<Longrightarrow> utf8_ok (truncate_preserving_extension s n)"
proof (cases s n rule: truncate_preserving_extension_cases)
  case (ext stem ext)
  assume "utf8_ok s"
  then have "utf8_ok stem \<and> utf8_ok ext" unfolding ext(1) by (rule utf8_ok_split_dot)
  then show ?thesis unfolding ext(6) by (simp add: utf8_ok_dot utf8_ok_truncate)
qed (simp_all add: utf8_ok_truncate)

lemma truncate_preserving_extension_nontrivial:
  assumes "utf8_ok s" and "s \<noteq> []" and "s \<noteq> ''.''" and "s \<noteq> ''..''" and "8 \<le> n"
  shows "truncate_preserving_extension s n \<notin> {[], ''.'', ''..''}"
proof (cases s n rule: truncate_preserving_extension_cases)
  case short
  then show ?thesis using assms by simp
next
  case cut
  then have "5 \<le> length (truncate_preserving_extension s n)"
    using truncate_loses_at_most_3 [OF assms(1), of n] assms(5) by simp
  then show ?thesis by auto
next
  case (ext stem ext)
  then obtain ys y where "ext = ys @ [y]" "y \<noteq> CHR ''.''" by (cases ext rule: rev_cases) auto
  then show ?thesis by (auto simp: ext(6) append_eq_Cons_conv)
qed

section \<open>Lemmas on slugs\<close>

lemma slug_loop_bound:
  "length slug \<le> n \<Longrightarrow> 0 < n \<Longrightarrow>
   length (slug_loop n slug p s) \<le> n \<or>
   (length (slug_loop n slug p s) = n + 1 \<and> last (slug_loop n slug p s) = CHR ''-'')"
proof (induction n slug p s rule: slug_loop.induct)
  case (2 n slug p ch chs)
  show ?case
  proof (cases "slug_char ch")
    case True
    define slug' where "slug' = (if p \<and> slug \<noteq> [] then slug @ ''-'' else slug)"
    show ?thesis
    proof (cases "n \<le> length slug'")
      case stop: True
      then show ?thesis using True "2.prems" by (auto simp: slug'_def)
    next
      case False
      then show ?thesis
        using "2.IH"(1) [OF True slug'_def] "2.prems" True by (simp add: slug'_def)
    qed
  next
    case False
    then show ?thesis using "2.IH"(2) "2.prems" by simp
  qed
qed simp

lemma slug_char_dash [simp]: "slug_char (CHR ''-'')"
  by (simp add: slug_char_def)

lemma slug_loop_chars:
  "list_all slug_char slug \<Longrightarrow> list_all slug_char (slug_loop n slug p s)"
  by (induction n slug p s rule: slug_loop.induct) (auto simp: Let_def)

lemma slug_loop_id:
  "list_all slug_char s \<Longrightarrow> length slug + length s \<le> n \<Longrightarrow> slug_loop n slug False s = slug @ s"
  by (induction s arbitrary: slug) (auto simp: Let_def)

lemma set_dropWhile_subset: "set (dropWhile p s) \<subseteq> set s"
  using set_dropWhileD by fastforce

lemma trim_by_props:
  "set (trim_by p s) \<subseteq> set s" "length (trim_by p s) \<le> length s"
  "trim_by p s \<noteq> [] \<Longrightarrow> \<not> p (hd (trim_by p s)) \<and> \<not> p (last (trim_by p s))"
proof -
  let ?a = "dropWhile p s"
  have t: "trim_by p s = rev (dropWhile p (rev ?a))"
    by (simp add: trim_by_def trim_start_by_def trim_end_by_def)
  show "set (trim_by p s) \<subseteq> set s"
    unfolding t using set_dropWhile_subset [of p "rev ?a"] set_dropWhile_subset [of p s] by simp
  show "length (trim_by p s) \<le> length s"
    unfolding t using length_dropWhile_le [of p "rev ?a"] length_dropWhile_le [of p s] by simp
  assume ne: "trim_by p s \<noteq> []"
  then have ne': "dropWhile p (rev ?a) \<noteq> []" unfolding t by simp
  have last: "\<not> p (last (trim_by p s))"
    unfolding t last_rev using hd_dropWhile [OF ne'] .
  obtain u where u: "rev ?a = u @ dropWhile p (rev ?a)" by (metis takeWhile_dropWhile_id)
  then have "?a = trim_by p s @ rev u" unfolding t by (metis rev_append rev_rev_ident)
  then have "hd (trim_by p s) = hd ?a" "?a \<noteq> []" using ne by (metis hd_append2, auto)
  then show "\<not> p (hd (trim_by p s)) \<and> \<not> p (last (trim_by p s))"
    using last hd_dropWhile [of p s] by simp
qed

lemma trim_by_id: "s \<noteq> [] \<Longrightarrow> \<not> p (hd s) \<Longrightarrow> \<not> p (last s) \<Longrightarrow> trim_by p s = s"
proof -
  assume "s \<noteq> []" "\<not> p (hd s)" "\<not> p (last s)"
  then have "dropWhile p s = s" "dropWhile p (rev s) = rev s"
    by (auto simp: dropWhile_eq_self_iff hd_rev)
  then show ?thesis by (simp add: trim_by_def trim_start_by_def trim_end_by_def)
qed

lemma trim_by_shorter: "s \<noteq> [] \<Longrightarrow> p (last s) \<Longrightarrow> length (trim_by p s) < length s"
proof -
  assume "s \<noteq> []" "p (last s)"
  then obtain a x where s: "s = a @ [x]" "p x" by (cases s rule: rev_cases) auto
  show ?thesis
  proof (cases "\<forall>y \<in> set a. p y")
    case True
    then have "dropWhile p s = []" using s by simp
    then show ?thesis using s by (simp add: trim_by_def trim_start_by_def trim_end_by_def)
  next
    case False
    then have "dropWhile p s = dropWhile p a @ [x]" using s by (metis dropWhile_append1)
    then have "trim_by p s = rev (dropWhile p (rev (dropWhile p a)))"
      using s by (simp add: trim_by_def trim_start_by_def trim_end_by_def)
    then have "length (trim_by p s) \<le> length a"
      using length_dropWhile_le [of p "rev (dropWhile p a)"] length_dropWhile_le [of p a] by simp
    then show ?thesis using s by simp
  qed
qed

lemma slugify_cases:
  obtains (fallback) "slugify s n f = f"
    | (slug) "slugify s n f = trim_by (\<lambda>c. c = CHR ''-'') (slug_loop n [] False s)"
        "slugify s n f \<noteq> []"
proof (cases "trim_by (\<lambda>c. c = CHR ''-'') (slug_loop n [] False s) = []")
  case True
  then have "slugify s n f = f" by (simp add: slugify_def)
  then show ?thesis by (rule fallback)
next
  case False
  then have "slugify s n f = trim_by (\<lambda>c. c = CHR ''-'') (slug_loop n [] False s)"
    by (simp add: slugify_def)
  with False show ?thesis by (intro slug) simp_all
qed

lemma slugify_chars: "list_all slug_char f \<Longrightarrow> list_all slug_char (slugify s n f)"
proof (cases s n f rule: slugify_cases)
  case slug
  then show ?thesis
    using trim_by_props(1) [of "\<lambda>c. c = CHR ''-''" "slug_loop n [] False s"]
      slug_loop_chars [of "[]" n False s]
    by (auto simp: list_all_iff)
qed simp

lemma slugify_bound: "0 < n \<Longrightarrow> length f \<le> n \<Longrightarrow> length (slugify s n f) \<le> n"
proof (cases s n f rule: slugify_cases)
  case slug
  let ?r = "slug_loop n [] False s" and ?p = "\<lambda>c. c = CHR ''-''"
  assume "0 < n"
  then consider "length ?r \<le> n" | "length ?r = n + 1" "?p (last ?r)"
    using slug_loop_bound [of "[]" n False s] by auto
  then show ?thesis
  proof cases
    case 1
    then show ?thesis using slug trim_by_props(2) [of ?p ?r] by simp
  next
    case 2
    then have "?r \<noteq> []" by auto
    then show ?thesis using slug 2 trim_by_shorter [of ?r ?p] by simp
  qed
qed simp

lemma slugify_ends:
  "f \<noteq> [] \<Longrightarrow> hd f \<noteq> CHR ''-'' \<Longrightarrow> last f \<noteq> CHR ''-'' \<Longrightarrow>
   slugify s n f \<noteq> [] \<and> hd (slugify s n f) \<noteq> CHR ''-'' \<and> last (slugify s n f) \<noteq> CHR ''-''"
proof (cases s n f rule: slugify_cases)
  case slug
  then show ?thesis using trim_by_props(3) [of "\<lambda>c. c = CHR ''-''" "slug_loop n [] False s"] by auto
qed simp

lemma slugify_fixed:
  assumes "list_all slug_char t" and "length t \<le> n" and "t \<noteq> []" and "hd t \<noteq> CHR ''-''"
    and "last t \<noteq> CHR ''-''"
  shows "slugify t n f = t"
proof -
  have "slug_loop n [] False t = t" using slug_loop_id [of t "[]" n] assms(1,2) by simp
  then show ?thesis using assms(3-5) trim_by_id [of t "\<lambda>c. c = CHR ''-''"] by (simp add: slugify_def)
qed

section \<open>Lemmas on the directory walk\<close>

text \<open>The paths of every file below a node.\<close>

inductive file_at :: "(string \<times> fs_node) list \<Rightarrow> string list \<Rightarrow> bool" where
  file_here: "(name, FileNode) \<in> set entries \<Longrightarrow> file_at entries [name]"
| file_below: "(name, DirNode es) \<in> set entries \<Longrightarrow> file_at es path \<Longrightarrow> file_at entries (name # path)"

inductive_cases file_at_ConsE: "file_at entries (name # path)"
inductive_cases file_at_NilE: "file_at entries []"

lemma file_at_Nil [simp]: "\<not> file_at [] path"
  by (auto elim: file_at.cases)

lemma file_at_Cons:
  "file_at ((name, node) # rest) path \<longleftrightarrow>
     (node = FileNode \<and> path = [name]) \<or>
     (\<exists>es p. node = DirNode es \<and> path = name # p \<and> file_at es p) \<or> file_at rest path"
proof
  show "file_at ((name, node) # rest) path \<Longrightarrow> (node = FileNode \<and> path = [name]) \<or>
     (\<exists>es p. node = DirNode es \<and> path = name # p \<and> file_at es p) \<or> file_at rest path"
    by (erule file_at.cases) (auto intro: file_at.intros)
  show "(node = FileNode \<and> path = [name]) \<or>
     (\<exists>es p. node = DirNode es \<and> path = name # p \<and> file_at es p) \<or> file_at rest path \<Longrightarrow>
     file_at ((name, node) # rest) path"
    by (auto intro: file_at.intros elim!: file_at.cases [of rest])
qed

lemma visit_entries_set:
  "(\<forall>fs. visit_dir dir node = Inr fs \<longrightarrow>
     (\<exists>es. node = DirNode es \<and> set fs = {dir @ p | p. file_at es p}))"
  "(\<forall>fs. visit_entries dir es = Inr fs \<longrightarrow> set fs = {dir @ p | p. file_at es p})"
proof (induction dir node and dir es rule: visit_dir_visit_entries.induct)
  case (5 dir name node rest)
  have sub: "(case node of FileNode \<Rightarrow> Inr [dir @ [name]] | _ \<Rightarrow> visit_dir (dir @ [name]) node) = Inr hs \<Longrightarrow>
     set hs = {dir @ p | p. (node = FileNode \<and> p = [name]) \<or>
       (\<exists>es q. node = DirNode es \<and> p = name # q \<and> file_at es q)}" for hs
    using "5.IH" by (cases node) auto
  show ?case
  proof (intro allI impI)
    fix fs
    assume "visit_entries dir ((name, node) # rest) = Inr fs"
    then obtain hs gs where "(case node of FileNode \<Rightarrow> Inr [dir @ [name]]
        | _ \<Rightarrow> visit_dir (dir @ [name]) node) = Inr hs" "visit_entries dir rest = Inr gs" "fs = hs @ gs"
      by (auto simp: bindE_Inr_iff)
    moreover from calculation have "set gs = {dir @ p | p. file_at rest p}"
      using "5.IH"(3) by blast
    ultimately show "set fs = {dir @ p | p. file_at ((name, node) # rest) p}"
      using sub [of hs] by (auto simp: file_at_Cons)
  qed
qed auto

lemma utf8_ok_pieces:
  "utf8_ok s \<Longrightarrow> byte_of c < 0x80 \<Longrightarrow> p \<in> set (split_on c s) \<Longrightarrow> utf8_ok p"
proof (induction "length s" arbitrary: s p rule: less_induct)
  case less
  show ?case
  proof (cases "c \<in> set s")
    case False
    then show ?thesis using less.prems by simp
  next
    case True
    then obtain a b where s: "s = a @ c # b" "c \<notin> set a" by (metis split_list_first)
    then have "utf8_ok a" "utf8_ok b" using less.prems(1,2) utf8_ok_split_ascii by blast+
    moreover have "p = a \<or> p \<in> set (split_on c b)" using less.prems(3) s by simp
    ultimately show ?thesis using less.hyps [of b p] less.prems(2) s by auto
  qed
qed

lemma file_name_utf8: "utf8_ok p \<Longrightarrow> file_name p = Some f \<Longrightarrow> utf8_ok f"
proof -
  let ?cs = "filter (\<lambda>c. c \<noteq> [] \<and> c \<noteq> ''.'') (split_on (CHR ''/'') p)"
  assume p: "utf8_ok p" and f: "file_name p = Some f"
  have "?cs \<noteq> []" "f = last ?cs" using f by (auto simp: file_name_def Let_def split: if_splits)
  then have "f \<in> set ?cs" by (metis last_in_set)
  then show ?thesis using utf8_ok_pieces [OF p, of "CHR ''/''"] by simp
qed

lemma sanitize_filename_eq:
  "sanitize_filename name = (case file_name name of
     Some base \<Rightarrow> truncate_preserving_extension base 100 | None \<Rightarrow> ''file'')"
  using file_name_props(1) by (auto simp: sanitize_filename_def MAX_FILENAME_LENGTH_def split: option.splits)

lemma slug_words [simp]: "list_all slug_char ''file''" "list_all slug_char ''sheet''"
  by (simp_all add: slug_char_def is_alnum_def is_lower_def)

section \<open>Properties\<close>

text \<open>A committed hash is found again with the path, key and bucket it was committed with, no
  other hash changes, and the in-memory index stays what a restart would load from the dotfile:
  crash recovery loses no committed entry.\<close>

lemma commit_index_durable:
  assumes "index_inv ix"
    and "index_row_ok (hash, \<lparr>relative_path = rel, original_key = key, source_bucket_alias = bucket\<rparr>)"
  shows "\<exists>ix'. commit_with_key_and_bucket True hash rel key bucket ix = Inr ix' \<and> index_inv ix' \<and>
    check_with_original_key_and_bucket ix' hash = Some (rel, key, bucket) \<and>
    check_with_original_key_and_bucket (load_index (ci_file ix')) hash = Some (rel, key, bucket) \<and>
    (\<forall>h. h \<noteq> hash \<longrightarrow>
      check_with_original_key_and_bucket ix' h = check_with_original_key_and_bucket ix h)"
proof -
  let ?e = "\<lparr>relative_path = rel, original_key = key, source_bucket_alias = bucket\<rparr>"
  let ?s = "file_text ix @ format_index_line (hash, ?e) @ [NL]"
  let ?ix' = "\<lparr>ci_file = Some ?s, ci_entries = (ci_entries ix)(hash \<mapsto> ?e)\<rparr>"
  have commit: "commit_with_key_and_bucket True hash rel key bucket ix = Inr ?ix'"
    by (simp add: commit_with_key_and_bucket_def file_text_def Let_def)
  have rows: "read_rows parse_index_line ?s = read_rows parse_index_line (file_text ix) @ [(hash, ?e)]"
    using assms by (intro index_format.append_terminated) (simp_all add: index_inv_def)
  have "terminated ?s" using terminated_snoc(1) [of "file_text ix @ format_index_line (hash, ?e)"] by simp
  moreover have same: "ci_entries (load_index (ci_file ?ix')) = ci_entries ?ix'"
    using assms(1) rows by (simp add: load_index_def index_inv_def file_text_def)
  ultimately have inv: "index_inv ?ix'" by (simp add: index_inv_def file_text_def)
  show ?thesis
    by (rule exI [of _ ?ix'], simp only: commit inv check_with_original_key_and_bucket_def same) simp
qed

lemma commit_index_durable_witness:
  "\<exists>ix'. commit_with_key_and_bucket True ''9e10'' ''jpg/a.jpg'' ''x/a.jpg'' ''photos'' (load_index None) = Inr ix' \<and>
     check_with_original_key_and_bucket (load_index (ci_file ix')) ''9e10'' =
       Some (''jpg/a.jpg'', ''x/a.jpg'', ''photos'')"
proof -
  have "index_inv (load_index None)" by (rule load_index_inv) simp
  moreover have "index_row_ok (''9e10'', \<lparr>relative_path = ''jpg/a.jpg'', original_key = ''x/a.jpg'',
      source_bucket_alias = ''photos''\<rparr>)"
    by (simp add: index_row_ok_def clean_line_no_CR)
  ultimately show ?thesis using commit_index_durable by blast
qed

lemma unique_path_fresh [simp]: "unique_path dir desired \<notin> set dir"
  using first_free_spec [of 2 dir desired] by (auto simp: unique_path_def)

text \<open>\<open>unique_path\<close> always returns a name the directory does not have: the wanted name when it is
  free, and otherwise the least of \<open>-2\<close>, \<open>-3\<close>, ... that is. The search ends on every directory.\<close>

lemma unique_path_free:
  "unique_path dir desired \<notin> set dir \<and>
   (if desired \<notin> set dir then unique_path dir desired = desired
    else \<exists>n \<ge> 2. unique_path dir desired = candidate_name desired n \<and>
           (\<forall>k \<in> {2..<n}. candidate_name desired k \<in> set dir))"
  using first_free_spec [of 2 dir desired] by (auto simp: unique_path_def)

lemma unique_path_free_witness:
  "unique_path [''a.txt'', ''a-2.txt''] ''a.txt'' \<notin> {''a.txt'', ''a-2.txt''} \<and>
   unique_path [''a.txt'', ''a-2.txt''] ''a.txt'' = ''a-3.txt''"
proof -
  have "unique_path [''a.txt'', ''a-2.txt''] ''a.txt'' = ''a-3.txt''"
    by (simp add: unique_path_def first_free.simps [of _ _ 2] first_free.simps [of _ _ 3]
        candidate_name_def stem_ext_def rsplit_once_def dec.simps)
  then show ?thesis using unique_path_free [of "[''a.txt'', ''a-2.txt'']" "''a.txt''"] by simp
qed

text \<open>A sanitised name is a single path component (no separator, never empty, \<open>.\<close> or \<open>..\<close>), at
  most 100 bytes long, and still well-formed UTF-8: it can neither leave the directory it is joined
  to nor cut a character in two.\<close>

lemma sanitize_filename_safe:
  assumes "utf8_ok name"
  shows "length (sanitize_filename name) \<le> 100 \<and> CHR ''/'' \<notin> set (sanitize_filename name) \<and>
    sanitize_filename name \<notin> {[], ''.'', ''..''} \<and> utf8_ok (sanitize_filename name)"
proof (cases "file_name name")
  case None
  then show ?thesis by (simp add: sanitize_filename_eq utf8_ok_ascii)
next
  case (Some base)
  then show ?thesis
    using file_name_props [OF Some] file_name_utf8 [OF assms Some] length_truncate_preserving
      set_truncate_preserving [of base 100] utf8_ok_truncate_preserving [of base 100]
      truncate_preserving_extension_nontrivial [of base 100]
    by (auto simp: sanitize_filename_eq)
qed

lemma sanitize_filename_safe_witness:
  "sanitize_filename ''../../etc/passwd'' = ''passwd'' \<and> CHR ''/'' \<notin> set (sanitize_filename ''../../etc/passwd'')"
proof -
  have "utf8_ok ''../../etc/passwd''" by (intro utf8_ok_ascii) simp
  moreover have "sanitize_filename ''../../etc/passwd'' = ''passwd''"
    by (simp add: sanitize_filename_eq file_name_def truncate_preserving_extension_def)
  ultimately show ?thesis using sanitize_filename_safe by blast
qed

text \<open>A sheet slug and a strict stem are never empty, fit their budget, neither start nor end with
  a dash, and consist of letters, digits, dot, underscore and dash only, so no tab, newline or
  comma can reach the tab-separated report; slugging a slug changes nothing.\<close>

lemma slug_report_safe:
  "slug \<in> {sheet_slug name, strict_stem name} \<Longrightarrow>
     slug \<noteq> [] \<and> length slug \<le> 100 \<and> (slug = sheet_slug name \<longrightarrow> length slug \<le> 40) \<and>
     list_all slug_char slug \<and> TAB \<notin> set slug \<and> NL \<notin> set slug \<and> CHR '','' \<notin> set slug \<and>
     hd slug \<noteq> CHR ''-'' \<and> last slug \<noteq> CHR ''-'' \<and> slugify slug 100 ''file'' = slug"
proof -
  assume slug: "slug \<in> {sheet_slug name, strict_stem name}"
  have b1: "length (sheet_slug name) \<le> 40"
    using slugify_bound [of 40 "''sheet''" name] by (simp add: sheet_slug_def MAX_SHEET_SLUG_LENGTH_def)
  obtain s n f where s: "slug = slugify s n f" "n \<le> 100" "0 < n" "f = ''sheet'' \<and> n = 40 \<or> f = ''file''"
    "length f \<le> n"
  proof (cases "slug = sheet_slug name")
    case True
    then show ?thesis using that [of name 40 "''sheet''"] by (simp add: sheet_slug_def MAX_SHEET_SLUG_LENGTH_def)
  next
    case False
    have "slugify [] 100 ''file'' = ''file''"
      by (simp add: slugify_def trim_by_def trim_start_by_def trim_end_by_def)
    with False slug have "slug = slugify (case file_name name of Some b \<Rightarrow> b | None \<Rightarrow> []) 100 ''file''"
      using file_name_props(1) [of name]
      by (auto simp: strict_stem_def MAX_FILENAME_LENGTH_def split: option.splits)
    then show ?thesis using that [of _ 100 "''file''"] by simp
  qed
  have "list_all slug_char f" using s(4) slug_words by blast
  then have chars: "list_all slug_char slug" unfolding s(1) by (rule slugify_chars)
  have len: "length slug \<le> n" unfolding s(1) using s(3,5) by (intro slugify_bound)
  have ends: "slug \<noteq> [] \<and> hd slug \<noteq> CHR ''-'' \<and> last slug \<noteq> CHR ''-''"
    unfolding s(1) using s(4) by (intro slugify_ends) auto
  have "slugify slug 100 ''file'' = slug" using chars len ends s(2) by (intro slugify_fixed) auto
  moreover have "\<not> slug_char TAB" "\<not> slug_char NL" "\<not> slug_char (CHR '','')"
    by (simp_all add: slug_char_def is_alnum_def is_digit_def is_upper_def is_lower_def)
  then have "TAB \<notin> set slug" "NL \<notin> set slug" "CHR '','' \<notin> set slug"
    using chars unfolding list_all_iff by blast+
  ultimately show ?thesis using chars len ends s(2) b1 by auto
qed

lemma slug_report_safe_witness:
  "sheet_slug ''Q1, (draft)'' = ''Q1-draft'' \<and> CHR '','' \<notin> set (sheet_slug ''Q1, (draft)'')"
proof -
  have "sheet_slug ''Q1, (draft)'' = ''Q1-draft''"
    by (simp add: sheet_slug_def slugify_def MAX_SHEET_SLUG_LENGTH_def Let_def slug_char_def is_alnum_def
        is_digit_def is_upper_def is_lower_def trim_by_def trim_start_by_def trim_end_by_def)
  then show ?thesis using slug_report_safe [of "sheet_slug ''Q1, (draft)''" "''Q1, (draft)''"] by blast
qed

text \<open>The directory walk finds every file below the directory, at any depth and nothing else, in
  sorted path order; it fails exactly when it meets a directory it cannot read.\<close>

lemma collect_files_complete:
  "collect_files (Some (DirNode es)) = Inr fs \<Longrightarrow> sorted fs \<and> set fs = {p. file_at es p}"
proof -
  assume "collect_files (Some (DirNode es)) = Inr fs"
  then obtain gs where gs: "visit_entries [] es = Inr gs" "fs = sort gs"
    by (auto simp: collect_files_def bindE_Inr_iff)
  then have "set gs = {p. file_at es p}" using visit_entries_set(2) [rule_format, OF gs(1)] by simp
  then show ?thesis using gs(2) by simp
qed

lemma collect_files_complete_witness:
  "collect_files (Some (DirNode [(''b'', FileNode), (''a'', DirNode [(''c'', FileNode)])])) =
     Inr [[''a'', ''c''], [''b'']] \<and>
   sorted [[''a'', ''c''], [''b'']]"
proof -
  have "collect_files (Some (DirNode [(''b'', FileNode), (''a'', DirNode [(''c'', FileNode)])])) =
     Inr [[''a'', ''c''], [''b'']]"
    by (simp add: collect_files_def)
  then show ?thesis using collect_files_complete by blast
qed

end
