(* ===== verification/Keyring.thy ===== *)
theory Keyring
  imports DataCore
begin

text \<open>
  The keyring: \<open>commands/keyring/store.rs\<close> with its two entry kinds
  (\<open>email/identity.rs\<close>, \<open>email/provider.rs\<close>, \<open>bucket/store.rs\<close>) and the secret override of
  \<open>core/keyring/credentials.rs\<close>. TOML is a library: \<open>toml_parse\<close> and \<open>toml_print\<close> are arguments,
  and what is relied on is that printing a list of entries and parsing the text gives the list
  back. The file is modelled with its permission bits, because they are its only protection.
\<close>

section \<open>Providers and identities\<close>

datatype imap_security = Tls | StartTls

datatype provider = Gmail | Fastmail | Icloud | Proton | Custom

fun provider_name :: "provider \<Rightarrow> string" where
  "provider_name Gmail = ''gmail''"
| "provider_name Fastmail = ''fastmail''"
| "provider_name Icloud = ''icloud''"
| "provider_name Proton = ''proton''"
| "provider_name Custom = ''custom''"

definition DOMAIN_TABLE :: "(string \<times> provider) list" where
  "DOMAIN_TABLE = [(''gmail.com'', Gmail), (''googlemail.com'', Gmail), (''fastmail.com'', Fastmail),
     (''fastmail.fm'', Fastmail), (''icloud.com'', Icloud), (''me.com'', Icloud), (''mac.com'', Icloud)]"

definition detect :: "string \<Rightarrow> provider option" where
  "detect email = map_of DOMAIN_TABLE (to_lower (last (split_on (CHR ''@'') email)))"

fun default_host_port :: "provider \<Rightarrow> (string \<times> nat) option" where
  "default_host_port Gmail = Some (''imap.gmail.com'', 993)"
| "default_host_port Fastmail = Some (''imap.fastmail.com'', 993)"
| "default_host_port Icloud = Some (''imap.mail.me.com'', 993)"
| "default_host_port Proton = Some (''127.0.0.1'', 1143)"
| "default_host_port Custom = None"

fun default_security :: "provider \<Rightarrow> nat \<Rightarrow> imap_security" where
  "default_security Proton port = StartTls"
| "default_security Custom port = (if port = 143 then StartTls else Tls)"
| "default_security _ port = Tls"

definition accepts_invalid_certs :: "provider \<Rightarrow> bool" where
  "accepts_invalid_certs p \<longleftrightarrow> p = Proton"

definition PROVIDERS :: "provider list" where
  "PROVIDERS = [Gmail, Fastmail, Icloud, Proton, Custom]"

record identity =
  id_alias :: string
  id_email :: string
  id_provider :: provider
  id_host :: string
  id_port :: nat
  id_secret :: string
  id_max_connections :: "nat option"
  id_security :: "imap_security option"

definition identity_security :: "identity \<Rightarrow> imap_security" where
  "identity_security i = (case id_security i of Some s \<Rightarrow> s
     | None \<Rightarrow> default_security (id_provider i) (id_port i))"

definition identity_detail :: "identity \<Rightarrow> string" where
  "identity_detail i = (case id_max_connections i of
     Some cap \<Rightarrow> id_email i @ '' ('' @ provider_name (id_provider i) @ '', max '' @ dec cap @ '' IMAP conns)''
   | None \<Rightarrow> id_email i @ '' ('' @ provider_name (id_provider i) @ '')'')"

definition MAX_SEGMENT_LENGTH :: nat where "MAX_SEGMENT_LENGTH = 100"

text \<open>The character loop of \<open>sanitize_segment\<close>: only ASCII letters and digits are kept, so every byte
  of any other character acts as one non-alphanumeric character and runs collapse all the same.\<close>

fun segment_loop :: "string \<Rightarrow> bool \<Rightarrow> string \<Rightarrow> string" where
  "segment_loop segment last_was_hyphen [] = segment"
| "segment_loop segment last_was_hyphen (ch # chs) =
     (if is_alnum ch then segment_loop (segment @ [lower_char ch]) False chs
      else if \<not> last_was_hyphen \<and> segment \<noteq> [] then segment_loop (segment @ ''-'') True chs
      else segment_loop segment last_was_hyphen chs)"

definition sanitize_segment :: "string \<Rightarrow> string" where
  "sanitize_segment input =
     (let segment = take MAX_SEGMENT_LENGTH (segment_loop [] False input) in
      if ends_with ''-'' segment then butlast segment else segment)"

definition sanitize_alias :: "string \<Rightarrow> string" where
  "sanitize_alias email = sanitize_segment (hd (split_on (CHR ''@'') email))"

section \<open>Buckets and secrets\<close>

record bucket_config =
  bc_alias :: string
  bc_endpoint :: string
  bc_bucket :: string
  bc_access_key_id :: string
  bc_secret_key :: string

definition bucket_detail :: "bucket_config \<Rightarrow> string" where
  "bucket_detail b = bc_endpoint b @ '' ('' @ bc_bucket b @ '')''"

text \<open>One output character per input character, so a multi-byte character gives one underscore.\<close>

definition env_var_char :: "string \<Rightarrow> char" where
  "env_var_char ch = (case ch of
     [c] \<Rightarrow> let upper = upper_char c in if is_alnum upper \<or> upper = CHR ''_'' then upper else CHR ''_''
   | _ \<Rightarrow> CHR ''_'')"

definition env_var_name :: "string \<Rightarrow> string" where
  "env_var_name alias = ''PIGEON_SECRET_'' @ map env_var_char (chars alias)"

text \<open>\<open>env\<close> is \<open>std::env::var(..).ok()\<close>.\<close>

definition resolve_secret :: "(string \<Rightarrow> string option) \<Rightarrow> string \<Rightarrow> string \<Rightarrow> string" where
  "resolve_secret env alias stored = (case env (env_var_name alias) of Some v \<Rightarrow> v | None \<Rightarrow> stored)"

section \<open>Entries and the store\<close>

datatype entry = EmailEntry identity | BucketEntry bucket_config

fun entry_alias :: "entry \<Rightarrow> string" where
  "entry_alias (EmailEntry i) = id_alias i"
| "entry_alias (BucketEntry b) = bc_alias b"

fun entry_kind :: "entry \<Rightarrow> string" where
  "entry_kind (EmailEntry i) = ''email''"
| "entry_kind (BucketEntry b) = ''bucket''"

fun entry_detail :: "entry \<Rightarrow> string" where
  "entry_detail (EmailEntry i) = identity_detail i"
| "entry_detail (BucketEntry b) = bucket_detail b"

definition entry_label :: "entry \<Rightarrow> string" where
  "entry_label e = ''['' @ entry_kind e @ ''] '' @ entry_alias e @ '' - '' @ entry_detail e"

record store = st_entries :: "entry list"

definition empty_store :: store where "empty_store = \<lparr>st_entries = []\<rparr>"

definition contains_alias :: "store \<Rightarrow> string \<Rightarrow> bool" where
  "contains_alias st alias \<longleftrightarrow> list_ex (\<lambda>e. entry_alias e = alias) (st_entries st)"

definition store_push :: "store \<Rightarrow> entry \<Rightarrow> store" where
  "store_push st e = st\<lparr>st_entries := st_entries st @ [e]\<rparr>"

definition store_find :: "store \<Rightarrow> string \<Rightarrow> entry option" where
  "store_find st alias = List.find (\<lambda>e. entry_alias e = alias) (st_entries st)"

definition store_remove :: "store \<Rightarrow> string \<Rightarrow> store \<times> bool" where
  "store_remove st alias =
     (let kept = filter (\<lambda>e. entry_alias e \<noteq> alias) (st_entries st) in
      (st\<lparr>st_entries := kept\<rparr>, length kept \<noteq> length (st_entries st)))"

definition email_identities :: "store \<Rightarrow> identity list" where
  "email_identities st = List.map_filter (\<lambda>e. case e of EmailEntry i \<Rightarrow> Some i | _ \<Rightarrow> None) (st_entries st)"

definition bucket_configs :: "store \<Rightarrow> bucket_config list" where
  "bucket_configs st = List.map_filter (\<lambda>e. case e of BucketEntry b \<Rightarrow> Some b | _ \<Rightarrow> None) (st_entries st)"

text \<open>\<open>answer\<close> is what the interactive selection returns: an I/O error, or the index of a row.\<close>

definition prompt_select :: "string + nat \<Rightarrow> store \<Rightarrow> entry result" where
  "prompt_select answer st = (case st_entries st of
     [] \<Rightarrow> Inl (Err ''no keyring entries configured; run 'pigeon keyring add' first'')
   | [only] \<Rightarrow> Inr only
   | es \<Rightarrow> (case answer of Inl err \<Rightarrow> Inl (Err (''failed to read selection: '' @ err))
            | Inr selection \<Rightarrow> idx es selection))"

definition prompt_select_bucket :: "string + nat \<Rightarrow> store \<Rightarrow> bucket_config result" where
  "prompt_select_bucket answer st = (case bucket_configs st of
     [] \<Rightarrow> Inl (Err ''no bucket-configs configured; run 'pigeon keyring add bucket' first'')
   | [only] \<Rightarrow> Inr only
   | bs \<Rightarrow> (case answer of Inl err \<Rightarrow> Inl (Err (''failed to read bucket-config selection: '' @ err))
            | Inr selection \<Rightarrow> idx bs selection))"

section \<open>The keyring file\<close>

definition KEYRING_FILE_NAME :: string where "KEYRING_FILE_NAME = ''keyring.toml''"

definition resolve_path_from :: "string option \<Rightarrow> string option \<Rightarrow> string option \<Rightarrow> string result" where
  "resolve_path_from override_path config_dir project_dir = (case override_path of
     Some p \<Rightarrow> Inr p
   | None \<Rightarrow> (case config_dir of
       Some dir \<Rightarrow> Inr (path_join dir KEYRING_FILE_NAME)
     | None \<Rightarrow> bindE (ok_or project_dir ''could not determine the config directory for this platform'')
         (\<lambda>d. Inr (path_join d KEYRING_FILE_NAME))))"

text \<open>The double quotes of the message, and the hint a removed entry kind gets.\<close>

definition REMOVED_ENCRYPTION_KEY_KIND :: string where
  "REMOVED_ENCRYPTION_KEY_KIND = ''encryption-key''"

definition parse_error :: "string \<Rightarrow> string \<Rightarrow> string" where
  "parse_error path err =
     (let base = ''failed to parse '' @ path @ '': '' @ err in
      if contains REMOVED_ENCRYPTION_KEY_KIND err
      then base @ [NL, NL] @ ''CLI-0147 removed the '' @ [CHR 0x27] @ REMOVED_ENCRYPTION_KEY_KIND
        @ [CHR 0x27] @ '' entry kind along with client-side encryption. Delete the ['' @ ''[entries]''
        @ ''] block with kind = ''
        @ [CHR 0x22] @ REMOVED_ENCRYPTION_KEY_KIND @ [CHR 0x22] @ '' from '' @ path @ '' to continue.''
      else base)"

text \<open>\<open>TextFile s mode\<close>: the contents and permission bits. A file that exists and cannot be read as
  UTF-8 text is \<open>UnreadableFile\<close> with the error.\<close>

datatype secret_file = NoFile | UnreadableFile string | TextFile string nat

definition owner_only :: nat where "owner_only = 384"

type_synonym toml_parser = "string \<Rightarrow> string + entry list"

definition store_load :: "toml_parser \<Rightarrow> string \<Rightarrow> secret_file \<Rightarrow> store result" where
  "store_load toml_parse path file = (case file of
     NoFile \<Rightarrow> Inr empty_store
   | UnreadableFile err \<Rightarrow> Inl (Err (''failed to read '' @ path @ '': '' @ err))
   | TextFile contents mode \<Rightarrow> (case toml_parse contents of
       Inl err \<Rightarrow> Inl (Err (parse_error path err))
     | Inr es \<Rightarrow> Inr \<lparr>st_entries = es\<rparr>))"

text \<open>What the file system and the serializer do to one save: each \<open>Some\<close> is a failing call. A failing
  \<open>fs::write\<close> leaves any file behind; a new file is created with \<open>create_mode\<close> (0666 less the
  umask).\<close>

record write_env =
  mkdir_fault :: "string option"
  write_fault :: "(string \<times> secret_file) option"
  chmod_fault :: "string option"
  create_mode :: nat

definition mode_of :: "write_env \<Rightarrow> secret_file \<Rightarrow> nat" where
  "mode_of env file = (case file of TextFile s mode \<Rightarrow> mode | _ \<Rightarrow> create_mode env)"

text \<open>Writing a secret-bearing file: create the parent, serialize, write, then restrict the mode.\<close>

definition write_secret_file ::
  "write_env \<Rightarrow> string \<Rightarrow> string result \<Rightarrow> secret_file \<Rightarrow> secret_file \<times> unit result" where
  "write_secret_file env path contents file =
     (case (path_parent path, mkdir_fault env) of
       (Some parent, Some err) \<Rightarrow> (file, Inl (Err (''failed to create '' @ parent @ '': '' @ err)))
     | _ \<Rightarrow> (case contents of
         Inl err \<Rightarrow> (file, Inl err)
       | Inr text \<Rightarrow> (case write_fault env of
           Some (err, left) \<Rightarrow> (left, Inl (Err (''failed to write '' @ path @ '': '' @ err)))
         | None \<Rightarrow> (case chmod_fault env of
             Some err \<Rightarrow> (TextFile text (mode_of env file),
               Inl (Err (''failed to set permissions on '' @ path @ '': '' @ err)))
           | None \<Rightarrow> (TextFile text owner_only, Inr ())))))"

definition store_save ::
  "(entry list \<Rightarrow> string + string) \<Rightarrow> write_env \<Rightarrow> string \<Rightarrow> store \<Rightarrow> secret_file \<Rightarrow> secret_file \<times> unit result"
where
  "store_save toml_print env path st file = write_secret_file env path
     (case toml_print (st_entries st) of
        Inl err \<Rightarrow> Inl (Err (''failed to serialize keyring entries: '' @ err))
      | Inr text \<Rightarrow> Inr text) file"

section \<open>The store as a map from aliases\<close>

text \<open>What a client of the store relies on: lookups after an insert of a fresh alias and after a
  removal, under an invariant both keep. \<open>replace\<close> is how \<open>modify\<close> edits an entry.\<close>

locale alias_store =
  fixes inv :: "'s \<Rightarrow> bool"
    and lookup :: "'s \<Rightarrow> string \<Rightarrow> 'e option"
    and add :: "'s \<Rightarrow> 'e \<Rightarrow> 's"
    and del :: "'s \<Rightarrow> string \<Rightarrow> 's"
    and key :: "'e \<Rightarrow> string"
  assumes lookup_add: "inv s \<Longrightarrow> lookup s (key e) = None \<Longrightarrow>
      lookup (add s e) a = (if a = key e then Some e else lookup s a)"
    and lookup_del: "inv s \<Longrightarrow> lookup (del s b) a = (if a = b then None else lookup s a)"
    and inv_add: "inv s \<Longrightarrow> lookup s (key e) = None \<Longrightarrow> inv (add s e)"
    and inv_del: "inv s \<Longrightarrow> inv (del s b)"
    and lookup_key: "inv s \<Longrightarrow> lookup s a = Some e \<Longrightarrow> key e = a"
begin

lemma map_add: "inv s \<Longrightarrow> lookup s (key e) = None \<Longrightarrow> lookup (add s e) = (lookup s)(key e \<mapsto> e)"
  by (rule ext) (simp add: lookup_add)

lemma map_del: "inv s \<Longrightarrow> lookup (del s b) = (lookup s)(b := None)"
  by (rule ext) (simp add: lookup_del)

lemma map_replace: "inv s \<Longrightarrow> lookup (add (del s (key e)) e) = (lookup s)(key e \<mapsto> e)"
  by (simp add: map_add map_del inv_del)

lemma inv_replace: "inv s \<Longrightarrow> inv (add (del s (key e)) e)"
  by (simp add: inv_add inv_del lookup_del)

lemma replace_keeps_others:
  "inv s \<Longrightarrow> a \<noteq> key e \<Longrightarrow> lookup (add (del s (key e)) e) a = lookup s a"
  by (simp add: map_replace)

end

text \<open>Aliases are unique across both kinds of entry.\<close>

definition unique_aliases :: "store \<Rightarrow> bool" where
  "unique_aliases st \<longleftrightarrow> distinct (map entry_alias (st_entries st))"

lemma find_snoc:
  "List.find P (xs @ [x]) = (case List.find P xs of Some y \<Rightarrow> Some y | None \<Rightarrow> if P x then Some x else None)"
  by (induction xs) auto

lemma find_filter_key:
  "List.find (\<lambda>e. f e = a) (filter (\<lambda>e. f e \<noteq> b) xs) =
     (if a = b then None else List.find (\<lambda>e. f e = a) xs)"
  by (induction xs) auto

lemma store_find_None: "store_find st a = None \<longleftrightarrow> a \<notin> entry_alias ` set (st_entries st)"
  by (auto simp: store_find_def find_None_iff)

lemma contains_alias_iff: "contains_alias st a \<longleftrightarrow> store_find st a \<noteq> None"
  by (auto simp: store_find_None contains_alias_def list_ex_iff)

lemma store_find_alias: "store_find st a = Some e \<Longrightarrow> entry_alias e = a \<and> e \<in> set (st_entries st)"
  by (auto simp: store_find_def find_Some_iff)

lemma store_find_member:
  assumes "unique_aliases st" and "e \<in> set (st_entries st)"
  shows "store_find st (entry_alias e) = Some e"
proof -
  have "inj_on entry_alias (set (st_entries st))"
    using assms(1) by (simp add: unique_aliases_def distinct_map)
  moreover obtain x where "store_find st (entry_alias e) = Some x"
    using assms(2) store_find_None by fastforce
  ultimately show ?thesis using store_find_alias assms(2) by (metis inj_onD)
qed

interpretation st: alias_store unique_aliases store_find store_push "\<lambda>s a. fst (store_remove s a)" entry_alias
proof unfold_locales
  fix s e
  assume "store_find s (entry_alias e) = None"
  then show "store_find (store_push s e) a = (if a = entry_alias e then Some e else store_find s a)" for a
    by (auto simp: store_find_def store_push_def find_snoc split: option.splits)
next
  fix s b a
  show "store_find (fst (store_remove s b)) a = (if a = b then None else store_find s a)"
    by (simp add: store_find_def store_remove_def find_filter_key Let_def)
next
  fix s e
  assume "unique_aliases s" "store_find s (entry_alias e) = None"
  then show "unique_aliases (store_push s e)"
    by (simp add: unique_aliases_def store_push_def store_find_None)
next
  fix s b
  assume "unique_aliases s"
  then show "unique_aliases (fst (store_remove s b))"
    by (simp add: unique_aliases_def store_remove_def distinct_map_filter Let_def)
qed (simp add: store_find_alias)

lemma store_remove_reports: "snd (store_remove st a) \<longleftrightarrow> contains_alias st a"
proof -
  have "length (filter P es) \<noteq> length es \<longleftrightarrow> (\<exists>e \<in> set es. \<not> P e)" for P and es :: "entry list"
    using length_filter_less [of _ es P] by (metis filter_True less_irrefl)
  then show ?thesis by (simp add: store_remove_def contains_alias_def list_ex_iff Let_def)
qed

lemma email_identities_iff: "i \<in> set (email_identities st) \<longleftrightarrow> EmailEntry i \<in> set (st_entries st)"
  by (force simp: email_identities_def List.map_filter_def split: entry.splits)

lemma bucket_configs_iff: "b \<in> set (bucket_configs st) \<longleftrightarrow> BucketEntry b \<in> set (st_entries st)"
  by (force simp: bucket_configs_def List.map_filter_def split: entry.splits)

section \<open>Writing the file\<close>

lemma write_secret_file_ok:
  "write_secret_file env path contents file = (file', Inr ()) \<longleftrightarrow>
     (path_parent path = None \<or> mkdir_fault env = None) \<and> write_fault env = None \<and>
     chmod_fault env = None \<and> (\<exists>text. contents = Inr text \<and> file' = TextFile text owner_only)"
  by (auto simp: write_secret_file_def split: option.splits sum.splits)

lemma write_secret_file_untouched:
  "write_secret_file env path contents file = (file', Inl e) \<Longrightarrow> write_fault env = None \<Longrightarrow>
   chmod_fault env = None \<Longrightarrow> file' = file"
  by (auto simp: write_secret_file_def split: option.splits sum.splits)

lemma write_secret_file_not_serialized:
  "write_secret_file env path (Inl err) file = (file', r) \<Longrightarrow> file' = file \<and> (\<exists>e. r = Inl e)"
  by (auto simp: write_secret_file_def split: option.splits)

section \<open>Lemmas on aliases\<close>

definition segment_char :: "char \<Rightarrow> bool" where
  "segment_char c \<longleftrightarrow> is_digit c \<or> is_lower c \<or> c = CHR ''-''"

fun no_double_hyphen :: "string \<Rightarrow> bool" where
  "no_double_hyphen (a # b # s) \<longleftrightarrow> \<not> (a = CHR ''-'' \<and> b = CHR ''-'') \<and> no_double_hyphen (b # s)"
| "no_double_hyphen _ \<longleftrightarrow> True"

text \<open>What the loop keeps true of the segment built so far.\<close>

definition segment_ok :: "string \<Rightarrow> bool \<Rightarrow> bool" where
  "segment_ok s hyphen \<longleftrightarrow> list_all segment_char s \<and> no_double_hyphen s \<and>
     (s \<noteq> [] \<longrightarrow> hd s \<noteq> CHR ''-'' \<and> (last s = CHR ''-'' \<longleftrightarrow> hyphen))"

lemma no_double_hyphen_snoc:
  "no_double_hyphen (s @ [c]) \<longleftrightarrow>
     no_double_hyphen s \<and> \<not> (s \<noteq> [] \<and> last s = CHR ''-'' \<and> c = CHR ''-'')"
  by (induction s rule: no_double_hyphen.induct) auto

lemma no_double_hyphen_take: "no_double_hyphen s \<Longrightarrow> no_double_hyphen (take n s)"
proof (induction s rule: rev_induct)
  case (snoc c s)
  then show ?case by (cases "n \<le> length s") (simp_all add: no_double_hyphen_snoc)
qed simp

lemma segment_char_lower: "is_alnum c \<Longrightarrow> segment_char (lower_char c) \<and> lower_char c \<noteq> CHR ''-''"
proof -
  assume c: "is_alnum c"
  then have "is_digit (lower_char c) \<or> is_lower (lower_char c)"
    by (auto simp: is_alnum_def is_digit_def is_lower_def is_upper_def byte_of_lower)
  then show ?thesis by (auto simp: segment_char_def is_lower_def is_digit_def)
qed

lemma segment_loop_ok: "segment_ok s h \<Longrightarrow> \<exists>h'. segment_ok (segment_loop s h chs) h'"
proof (induction s h chs rule: segment_loop.induct)
  case (2 s h ch chs)
  have "is_alnum ch \<Longrightarrow> segment_ok (s @ [lower_char ch]) False"
    using 2(4) segment_char_lower [of ch] by (cases "s = []") (auto simp: segment_ok_def no_double_hyphen_snoc)
  moreover have "\<not> h \<Longrightarrow> s \<noteq> [] \<Longrightarrow> segment_ok (s @ ''-'') True"
    using 2(4) by (auto simp: segment_ok_def no_double_hyphen_snoc segment_char_def)
  ultimately show ?case using 2 by auto
qed auto

text \<open>A segment the loop copies unchanged.\<close>

lemma lower_char_segment: "segment_char c \<Longrightarrow> c \<noteq> CHR ''-'' \<Longrightarrow> is_alnum c \<and> lower_char c = c"
  by (auto simp: segment_char_def is_alnum_def is_digit_def is_lower_def is_upper_def lower_char_def)

lemma hyphen_not_alnum [simp]: "\<not> is_alnum (CHR ''-'')"
  by (simp add: is_alnum_def is_digit_def is_lower_def is_upper_def)

lemma segment_loop_copies:
  "list_all segment_char t \<Longrightarrow> no_double_hyphen (s @ t) \<Longrightarrow> (s = [] \<longrightarrow> t = [] \<or> hd t \<noteq> CHR ''-'') \<Longrightarrow>
   h = (s \<noteq> [] \<and> last s = CHR ''-'') \<Longrightarrow> segment_loop s h t = s @ t"
proof (induction t arbitrary: s h)
  case (Cons c t)
  have nd: "no_double_hyphen ((s @ [c]) @ t)" using Cons.prems(2) by simp
  have nd1: "no_double_hyphen (s @ [c])" using no_double_hyphen_take [OF nd, of "length (s @ [c])"] by simp
  show ?case
  proof (cases "c = CHR ''-''")
    case True
    then have "s \<noteq> [] \<and> \<not> h" using Cons.prems(3,4) nd1 by (auto simp: no_double_hyphen_snoc)
    then show ?thesis using Cons.IH [of "s @ [c]" True] Cons.prems(1) nd True by auto
  next
    case False
    then have c: "is_alnum c" "lower_char c = c" using lower_char_segment Cons.prems(1) by auto
    then show ?thesis using Cons.IH [of "s @ [c]" False] Cons.prems(1) nd False by auto
  qed
qed simp

lemma sanitize_segment_ok:
  "list_all segment_char (sanitize_segment s) \<and> no_double_hyphen (sanitize_segment s) \<and>
   length (sanitize_segment s) \<le> 100 \<and>
   (sanitize_segment s \<noteq> [] \<longrightarrow> hd (sanitize_segment s) \<noteq> CHR ''-'' \<and> last (sanitize_segment s) \<noteq> CHR ''-'')"
proof -
  obtain h where h: "segment_ok (segment_loop [] False s) h"
    using segment_loop_ok [of "[]" False s] by (auto simp: segment_ok_def)
  let ?t = "take 100 (segment_loop [] False s)"
  have t: "list_all segment_char ?t" "no_double_hyphen ?t" "?t \<noteq> [] \<Longrightarrow> hd ?t \<noteq> CHR ''-''"
    using h no_double_hyphen_take by (auto simp: segment_ok_def list_all_iff dest: in_set_takeD)
  have eq: "sanitize_segment s = (if ends_with ''-'' ?t then butlast ?t else ?t)"
    by (simp add: sanitize_segment_def MAX_SEGMENT_LENGTH_def Let_def)
  show ?thesis
  proof (cases "ends_with ''-'' ?t")
    case True
    then obtain u where u: "?t = u @ ''-''" by (auto simp: ends_with_iff)
    then have s: "sanitize_segment s = u" using eq True by simp
    have "length ?t \<le> 100" by simp
    then have len: "length u \<le> 100" unfolding u by simp
    have "no_double_hyphen (u @ ''-'')" "list_all segment_char (u @ ''-'')" "hd (u @ ''-'') \<noteq> CHR ''-''"
      using t unfolding u by simp_all
    then show ?thesis using len unfolding s by (cases "u = []") (auto simp: no_double_hyphen_snoc)
  next
    case False
    then have s: "sanitize_segment s = ?t" using eq by simp
    have "?t \<noteq> [] \<Longrightarrow> last ?t \<noteq> CHR ''-''"
      using False by (metis append_butlast_last_id ends_with_iff)
    then show ?thesis using t unfolding s by simp
  qed
qed

section \<open>Properties\<close>

text \<open>A sanitised segment (a derived alias, a mailbox or subject directory) has at most 100 bytes,
  only lower-case letters, digits and single hyphens, none of them at an end, so it is always a plain
  path component; sanitising it again changes nothing.\<close>

lemma sanitize_segment_safe:
  "length (sanitize_segment s) \<le> 100 \<and> list_all segment_char (sanitize_segment s) \<and>
   no_double_hyphen (sanitize_segment s) \<and>
   (sanitize_segment s = [] \<or> hd (sanitize_segment s) \<noteq> CHR ''-'' \<and> last (sanitize_segment s) \<noteq> CHR ''-'') \<and>
   sanitize_segment (sanitize_segment s) = sanitize_segment s"
proof -
  let ?t = "sanitize_segment s"
  have "segment_loop [] False ?t = ?t"
    using sanitize_segment_ok [of s] segment_loop_copies [of ?t "[]" False] by auto
  then have "sanitize_segment ?t = (if ends_with ''-'' ?t then butlast ?t else ?t)"
    using sanitize_segment_ok [of s] by (simp add: sanitize_segment_def [of ?t] MAX_SEGMENT_LENGTH_def Let_def)
  moreover have "\<not> ends_with ''-'' ?t" using sanitize_segment_ok [of s] by (auto simp: ends_with_iff)
  ultimately show ?thesis using sanitize_segment_ok [of s] by auto
qed

lemma sanitize_segment_safe_witness:
  "sanitize_segment ''-Re: Hello!'' = ''re-hello'' \<and> list_all segment_char (sanitize_segment ''-Re: Hello!'')"
proof -
  have "sanitize_segment ''-Re: Hello!'' = ''re-hello''"
    by code_simp
  then show ?thesis using sanitize_segment_safe by blast
qed

text \<open>Saving is all or an error: it succeeds exactly when every step does, and then the file is
  owner-only and loads back as the same entries; a store that cannot be serialized leaves the file as
  it was.\<close>

lemma store_save_load:
  assumes "\<forall>text. toml_print (st_entries s) = Inr text \<longrightarrow> toml_parse text = Inr (st_entries s)"
    and "store_save toml_print env path s file = (file', r)"
  shows "(r = Inr () \<longrightarrow> (\<exists>text. file' = TextFile text owner_only) \<and>
            store_load toml_parse path file' = Inr s) \<and>
         ((\<exists>err. toml_print (st_entries s) = Inl err) \<longrightarrow> file' = file \<and> r \<noteq> Inr ()) \<and>
         (r \<noteq> Inr () \<and> write_fault env = None \<and> chmod_fault env = None \<longrightarrow> file' = file)"
proof (intro conjI impI)
  assume "r = Inr ()"
  then obtain tx where "toml_print (st_entries s) = Inr tx" "file' = TextFile tx owner_only"
    using assms(2) by (auto simp: store_save_def write_secret_file_ok split: sum.splits)
  then show "\<exists>text. file' = TextFile text owner_only" "store_load toml_parse path file' = Inr s"
    using assms(1) by (simp_all add: store_load_def)
next
  assume "\<exists>err. toml_print (st_entries s) = Inl err"
  then show "file' = file" "r \<noteq> Inr ()"
    using assms(2) write_secret_file_not_serialized unfolding store_save_def by fastforce+
next
  assume r: "r \<noteq> Inr () \<and> write_fault env = None \<and> chmod_fault env = None"
  then obtain e where "r = Inl e" by (cases r) auto
  then show "file' = file" using assms(2) r write_secret_file_untouched unfolding store_save_def by metis
qed

lemma store_save_load_witness:
  "let s = \<lparr>st_entries = [BucketEntry \<lparr>bc_alias = ''b'', bc_endpoint = ''http://x'', bc_bucket = ''n'',
         bc_access_key_id = ''k'', bc_secret_key = ''s''\<rparr>]\<rparr>;
       env = \<lparr>mkdir_fault = None, write_fault = None, chmod_fault = None, create_mode = 420\<rparr>;
       file' = fst (store_save (\<lambda>es. Inr ''toml'') env ''/c/keyring.toml'' s NoFile)
   in file' = TextFile ''toml'' owner_only \<and>
      store_load (\<lambda>t. Inr (st_entries s)) ''/c/keyring.toml'' file' = Inr s"
proof -
  let ?s = "\<lparr>st_entries = [BucketEntry \<lparr>bc_alias = ''b'', bc_endpoint = ''http://x'', bc_bucket = ''n'',
         bc_access_key_id = ''k'', bc_secret_key = ''s''\<rparr>]\<rparr>"
  let ?env = "\<lparr>mkdir_fault = None, write_fault = None, chmod_fault = None, create_mode = 420\<rparr>"
  have "store_save (\<lambda>es. Inr ''toml'') ?env ''/c/keyring.toml'' ?s NoFile = (TextFile ''toml'' owner_only, Inr ())"
    by (simp add: store_save_def write_secret_file_def split: option.splits)
  from store_save_load [OF _ this, of "\<lambda>t. Inr (st_entries ?s)" ] this show ?thesis
    by (simp add: Let_def)
qed

end
