(* ===== verification/ImapClient.thy ===== *)
theory ImapClient
  imports Keyring
begin

text \<open>
  \<open>commands/keyring/email/imap_client.rs\<close>: connecting, securing and logging in. The network and
  the IMAP and TLS libraries are an environment that says how each awaited call ends; the model
  records every call as an event, so that what was sent before what can be stated. An attempt that
  outlives \<open>CONNECT_TIMEOUT\<close> is dropped at one of its awaits: a prefix of its events happened.
\<close>

section \<open>Responses and calls\<close>

text \<open>The part of \<open>imap_proto\<close>'s \<open>Response\<close> the greeting check looks at.\<close>

datatype capability = Imap4rev1 | Auth string | Atom string
datatype response_code = Capabilities "capability list" | OtherCode
datatype response = DataResponse "response_code option" | OtherResponse

definition greeting_lacks_starttls :: "response \<Rightarrow> bool" where
  "greeting_lacks_starttls greeting = (case greeting of
     DataResponse code \<Rightarrow> (case code of
       Some (Capabilities capabilities) \<Rightarrow> \<not> list_ex (\<lambda>capability. case capability of
           Atom atom \<Rightarrow> eq_ignore_case atom ''STARTTLS'' | _ \<Rightarrow> False) capabilities
     | _ \<Rightarrow> False)
   | OtherResponse \<Rightarrow> False)"

definition tls_mode_hint :: "string \<Rightarrow> string option" where
  "tls_mode_hint message =
     (let lowered = to_lower message in
      if contains ''record overflow'' lowered \<or> contains ''wrong version number'' lowered
      then Some ''the server sent plaintext, so it may expect STARTTLS; retry with --security starttls''
      else None)"

text \<open>What the client does, in order. \<open>HandshakeOk\<close> is a TLS handshake that succeeded on the socket;
  \<open>SendLogin\<close> puts the credentials on the wire.\<close>

datatype imap_event =
    DialTcp string nat
  | ReadGreeting
  | SendStartTls
  | StartHandshake bool
  | HandshakeOk
  | SendLogin string string
  | SendLogout

record imap_net =
  net_tcp :: "string + unit"
  net_plain_greeting :: "string + response option"
  net_starttls :: "string + unit"
  net_handshake :: "string + unit"
  net_tls_greeting :: "string + response option"
  net_login :: "string + unit"
  net_logout :: "string + unit"

text \<open>A computation with its events.\<close>

type_synonym 'a traced = "imap_event list \<times> 'a result"

definition traced :: "imap_event list \<Rightarrow> 'a result \<Rightarrow> 'a traced" where
  "traced es r = (es, r)"

definition bindT :: "'a traced \<Rightarrow> ('a \<Rightarrow> 'b traced) \<Rightarrow> 'b traced" where
  "bindT m f = (case snd m of Inl e \<Rightarrow> (fst m, Inl e) | Inr x \<Rightarrow> (fst m @ fst (f x), snd (f x)))"

definition map_err :: "(string \<Rightarrow> string) \<Rightarrow> string + 'a \<Rightarrow> 'a result" where
  "map_err f r = (case r of Inl e \<Rightarrow> Inl (Err (f e)) | Inr x \<Rightarrow> Inr x)"

definition at_host :: "string \<Rightarrow> nat \<Rightarrow> string" where
  "at_host host port = host @ '':'' @ dec port"

definition read_greeting :: "string \<Rightarrow> nat \<Rightarrow> string + response option \<Rightarrow> response traced" where
  "read_greeting host port r = traced [ReadGreeting]
     (bindE (map_err (\<lambda>err. ''failed to read greeting from '' @ at_host host port @ '': '' @ err) r)
        (\<lambda>g. ok_or g (''connection to '' @ at_host host port @ '' closed before greeting'')))"

definition start_tls :: "imap_net \<Rightarrow> string \<Rightarrow> nat \<Rightarrow> unit traced" where
  "start_tls net host port =
     bindT (read_greeting host port (net_plain_greeting net))
       (\<lambda>greeting.
          if greeting_lacks_starttls greeting then
            traced [] (Inl (Err (at_host host port @ '' does not offer STARTTLS; refusing to log in over ''
              @ ''plaintext (if it expects TLS from the first byte, use --security tls)'')))
          else traced [SendStartTls]
            (map_err (\<lambda>err. ''STARTTLS with '' @ at_host host port @ '' failed: '' @ err) (net_starttls net)))"

definition handshake_error :: "string \<Rightarrow> nat \<Rightarrow> imap_security \<Rightarrow> string \<Rightarrow> string" where
  "handshake_error host port security err =
     (let message = ''TLS handshake with '' @ at_host host port @ '' failed: '' @ err in
      case (security, tls_mode_hint message) of
        (Tls, Some hint) \<Rightarrow> message @ '' -- '' @ hint
      | _ \<Rightarrow> message)"

definition connect_and_login_inner ::
  "imap_net \<Rightarrow> string \<Rightarrow> nat \<Rightarrow> string \<Rightarrow> string \<Rightarrow> imap_security \<Rightarrow> bool \<Rightarrow> unit traced" where
  "connect_and_login_inner net host port email secret security accept_invalid_certs =
     bindT (traced [DialTcp host port]
        (map_err (\<lambda>err. ''failed to connect to '' @ at_host host port @ '': '' @ err) (net_tcp net)))
     (\<lambda>_. bindT (case security of Tls \<Rightarrow> traced [] (Inr ()) | StartTls \<Rightarrow> start_tls net host port)
     (\<lambda>_. bindT (case net_handshake net of
            Inl err \<Rightarrow> traced [StartHandshake accept_invalid_certs]
              (Inl (Err (handshake_error host port security err)))
          | Inr _ \<Rightarrow> traced [StartHandshake accept_invalid_certs, HandshakeOk] (Inr ()))
     (\<lambda>_. bindT (if security = Tls
          then bindT (read_greeting host port (net_tls_greeting net)) (\<lambda>_. traced [] (Inr ()))
          else traced [] (Inr ()))
     (\<lambda>_. traced [SendLogin email secret]
        (map_err (\<lambda>err. ''login failed: '' @ err) (net_login net))))))"

text \<open>\<open>timed_out = Some n\<close>: the 30 second budget ends after the first \<open>n\<close> events.\<close>

definition connect_and_login ::
  "imap_net \<Rightarrow> nat option \<Rightarrow> string \<Rightarrow> nat \<Rightarrow> string \<Rightarrow> string \<Rightarrow> imap_security \<Rightarrow> bool \<Rightarrow> unit traced"
where
  "connect_and_login net timed_out host port email secret security accept_invalid_certs =
     (let inner = connect_and_login_inner net host port email secret security accept_invalid_certs in
      case timed_out of
        None \<Rightarrow> inner
      | Some n \<Rightarrow> (take n (fst inner),
          Inl (Err (''timed out connecting to '' @ at_host host port @ '' after 30s''))))"

text \<open>The logout is best effort: its result is dropped. \<open>runtime\<close> is the start of the async runtime.\<close>

definition verify_login ::
  "string + unit \<Rightarrow> imap_net \<Rightarrow> nat option \<Rightarrow> string \<Rightarrow> nat \<Rightarrow> string \<Rightarrow> string \<Rightarrow> imap_security \<Rightarrow> bool \<Rightarrow>
   unit traced"
where
  "verify_login runtime net timed_out host port email secret security accept_invalid_certs =
     bindT (traced [] (map_err (\<lambda>err. ''failed to start async runtime: '' @ err) runtime))
     (\<lambda>_. bindT (connect_and_login net timed_out host port email secret security accept_invalid_certs)
     (\<lambda>_. traced [SendLogout] (Inr ())))"

section \<open>What was on the wire\<close>

text \<open>The wire as a state machine: which events may happen on a plain socket, and which only once TLS
  is up. \<open>plain_greeting\<close> remembers that the server greeted before any TLS.\<close>

datatype wire = NotConnected | PlainWire | Upgrading | Secure

inductive wire_step :: "wire \<Rightarrow> imap_event \<Rightarrow> wire \<Rightarrow> bool" where
  dial: "wire_step NotConnected (DialTcp h p) PlainWire"
| greet_plain: "wire_step PlainWire ReadGreeting PlainWire"
| ask_tls: "wire_step PlainWire SendStartTls Upgrading"
| shake: "wire_step w (StartHandshake c) Upgrading" if "w = PlainWire \<or> w = Upgrading"
| secured: "wire_step Upgrading HandshakeOk Secure"
| greet_secure: "wire_step Secure ReadGreeting Secure"
| login: "wire_step Secure (SendLogin e s) Secure"
| logout: "wire_step Secure SendLogout Secure"

code_pred wire_step .

inductive wire_run :: "wire \<Rightarrow> imap_event list \<Rightarrow> wire \<Rightarrow> bool" where
  wire_nil: "wire_run w [] w"
| wire_cons: "wire_step w e w' \<Longrightarrow> wire_run w' es w'' \<Longrightarrow> wire_run w (e # es) w''"

inductive_cases wire_run_consE: "wire_run w (e # es) w'"
inductive_cases wire_run_nilE: "wire_run w [] w'"
inductive_simps wire_step_login: "wire_step w (SendLogin e s) w'"
inductive_simps wire_step_ok: "wire_step w HandshakeOk w'"

lemma wire_run_append: "wire_run w es w' \<Longrightarrow> wire_run w' fs w'' \<Longrightarrow> wire_run w (es @ fs) w''"
  by (induction rule: wire_run.induct) (auto intro: wire_run.intros)

lemma wire_run_take: "wire_run w es w' \<Longrightarrow> \<exists>u. wire_run w (take n es) u"
proof (induction arbitrary: n rule: wire_run.induct)
  case (wire_cons w e w' es w'')
  then show ?case by (cases n) (auto, (blast intro: wire_run.intros)+)
qed (auto intro: wire_run.intros)

text \<open>Only a secure wire carries credentials: along any run, a login is preceded by a handshake.\<close>

lemma secure_needs_handshake:
  "wire_run w es w' \<Longrightarrow> w' = Secure \<Longrightarrow> w = Secure \<or> HandshakeOk \<in> set es"
  by (induction rule: wire_run.induct) (auto elim: wire_step.cases)

lemma login_after_handshake:
  "wire_run w es w' \<Longrightarrow> es = pre @ SendLogin e s # post \<Longrightarrow> w = Secure \<or> HandshakeOk \<in> set pre"
proof (induction arbitrary: pre rule: wire_run.induct)
  case (wire_cons w e' w' es w'')
  show ?case
  proof (cases pre)
    case Nil
    then show ?thesis using wire_cons by (auto simp: wire_step_login)
  next
    case (Cons p ps)
    then have "w' = Secure \<or> HandshakeOk \<in> set ps" "e' = p" using wire_cons by auto
    then show ?thesis using wire_cons.hyps(1) Cons by (auto elim: wire_step.cases)
  qed
qed simp

lemmas traced_simps = bindT_def traced_def map_err_def read_greeting_def start_tls_def ok_or_def

lemmas wire_intros = wire_step.intros wire_run.intros

lemma bindT_wire:
  assumes "\<exists>u. wire_run w (fst m) u \<and> (\<forall>x. snd m = Inr x \<longrightarrow> P x u)"
    and "\<And>x u. snd m = Inr x \<Longrightarrow> P x u \<Longrightarrow> \<exists>v. wire_run u (fst (f x)) v \<and> (\<forall>y. snd (f x) = Inr y \<longrightarrow> Q y v)"
  shows "\<exists>v. wire_run w (fst (bindT m f)) v \<and> (\<forall>y. snd (bindT m f) = Inr y \<longrightarrow> Q y v)"
proof (cases "snd m")
  case (Inl e)
  then show ?thesis using assms(1) by (auto simp: bindT_def)
next
  case (Inr x)
  then obtain u where "wire_run w (fst m) u" "P x u" using assms(1) by blast
  then show ?thesis using assms(2) [OF Inr] Inr wire_run_append by (fastforce simp: bindT_def)
qed

lemma start_tls_wire:
  "\<exists>u. wire_run PlainWire (fst (start_tls net host port)) u \<and>
       (\<forall>y. snd (start_tls net host port) = Inr y \<longrightarrow> u = Upgrading)"
  by (auto simp: traced_simps split: sum.splits option.splits intro!: exI wire_intros)

lemma traced_wire:
  "wire_run w es u \<Longrightarrow> (\<And>y. r = Inr y \<Longrightarrow> Q y u) \<Longrightarrow>
   \<exists>v. wire_run w (fst (traced es r)) v \<and> (\<forall>y. snd (traced es r) = Inr y \<longrightarrow> Q y v)"
  by (auto simp: traced_def)

lemma connect_wire:
  "\<exists>w. wire_run NotConnected (fst (connect_and_login_inner net host port email secret security c)) w \<and>
     (\<forall>y. snd (connect_and_login_inner net host port email secret security c) = Inr y \<longrightarrow> w = Secure)"
  unfolding connect_and_login_inner_def
proof (rule bindT_wire [where P = "\<lambda>_ u. u = PlainWire"], goal_cases)
  case 1
  show ?case by (rule traced_wire [where u = PlainWire]) (auto intro: wire_intros)
next
  case (2 x u)
  show ?case
  proof (rule bindT_wire [where P = "\<lambda>_ u. u = PlainWire \<or> u = Upgrading"], goal_cases)
    case 1
    then show ?case
      using 2 start_tls_wire [of net host port]
      by (cases security) (auto simp: traced_def intro: wire_intros)
  next
    case (2 x u)
    show ?case
    proof (rule bindT_wire [where P = "\<lambda>_ u. u = Secure"], goal_cases)
      case 1
      show ?case using 2(2)
        by (cases "net_handshake net") (auto simp: traced_def intro!: exI wire_intros)
    next
      case (2 x u)
      show ?case
      proof (rule bindT_wire [where P = "\<lambda>_ u. u = Secure"], goal_cases)
        case 1
        show ?case using 2(2)
          by (auto simp: traced_simps split: sum.splits option.splits intro!: exI wire_intros)
      next
        case (2 x u)
        then show ?case by (auto simp: traced_def intro!: exI wire_intros)
      qed
    qed
  qed
qed

lemma connect_result:
  "snd (connect_and_login_inner net host port email secret security c) = Inr y \<Longrightarrow>
     net_login net = Inr () \<and> SendLogin email secret \<in> set (fst (connect_and_login_inner net host port email secret security c)) \<and>
     net_handshake net = Inr ()"
  by (auto simp: connect_and_login_inner_def traced_simps split: sum.splits option.splits if_splits imap_security.splits)

text \<open>The events of \<open>verify_login\<close> are a run of the wire.\<close>

lemma verify_login_wire:
  "\<exists>w. wire_run NotConnected (fst (verify_login rt net tmo host port email secret security c)) w"
proof -
  obtain w where w: "wire_run NotConnected (fst (connect_and_login_inner net host port email secret security c)) w"
    "\<forall>y. snd (connect_and_login_inner net host port email secret security c) = Inr y \<longrightarrow> w = Secure"
    using connect_wire by blast
  then have "\<exists>u. wire_run NotConnected (fst (connect_and_login net tmo host port email secret security c)) u \<and>
      (\<forall>y. snd (connect_and_login net tmo host port email secret security c) = Inr y \<longrightarrow> u = Secure)"
    by (cases tmo) (auto simp: connect_and_login_def Let_def dest: wire_run_take)
  then obtain u where u: "wire_run NotConnected (fst (connect_and_login net tmo host port email secret security c)) u"
    "\<forall>y. snd (connect_and_login net tmo host port email secret security c) = Inr y \<longrightarrow> u = Secure" by blast
  show ?thesis
  proof (cases "rt")
    case (Inl e)
    then show ?thesis by (auto simp: verify_login_def traced_simps intro: wire_intros)
  next
    case (Inr z)
    have "wire_run Secure [SendLogout] Secure" by (rule wire_cons [OF logout wire_nil])
    with u Inr show ?thesis
      by (cases "snd (connect_and_login net tmo host port email secret security c)")
        (auto simp: verify_login_def traced_simps intro: wire_run_append)
  qed
qed

section \<open>Properties\<close>

text \<open>C3. Credentials never go over an unencrypted socket: whatever the server answers and wherever
  the timeout strikes, every \<open>LOGIN\<close> the client sends comes after a completed TLS handshake; with
  STARTTLS a server that refuses the upgrade, or whose greeting lists capabilities without it, gets
  no \<open>LOGIN\<close> at all; and a verification that succeeds did send the login and had it accepted.\<close>

theorem login_only_over_tls:
  assumes "verify_login rt net tmo host port email secret security c = (events, r)"
  shows "(\<forall>pre e s post. events = pre @ SendLogin e s # post \<longrightarrow> HandshakeOk \<in> set pre) \<and>
    (security = StartTls \<and> (net_starttls net \<noteq> Inr () \<or>
        (\<exists>g. net_plain_greeting net = Inr (Some g) \<and> greeting_lacks_starttls g)) \<longrightarrow>
      (\<forall>e s. SendLogin e s \<notin> set events) \<and> r \<noteq> Inr ()) \<and>
    (r = Inr () \<longrightarrow> SendLogin email secret \<in> set events \<and> net_login net = Inr ())"
proof (intro conjI impI)
  show "\<forall>pre e s post. events = pre @ SendLogin e s # post \<longrightarrow> HandshakeOk \<in> set pre"
    using verify_login_wire [of rt net tmo host port email secret security c] assms
      login_after_handshake by fastforce
next
  let ?i = "connect_and_login_inner net host port email secret security c"
  assume "security = StartTls \<and> (net_starttls net \<noteq> Inr () \<or>
        (\<exists>g. net_plain_greeting net = Inr (Some g) \<and> greeting_lacks_starttls g))"
  then have "(\<forall>e s. SendLogin e s \<notin> set (fst ?i)) \<and> snd ?i \<noteq> Inr ()"
    by (auto simp: connect_and_login_inner_def traced_simps split: sum.splits option.splits if_splits)
  then show "\<forall>e s. SendLogin e s \<notin> set events" "r \<noteq> Inr ()"
    using assms by (auto simp: verify_login_def connect_and_login_def traced_simps Let_def
        split: sum.splits option.splits dest: in_set_takeD)
next
  assume "r = Inr ()"
  then have i: "snd (connect_and_login net tmo host port email secret security c) = Inr ()"
    "set (fst (connect_and_login net tmo host port email secret security c)) \<subseteq> set events"
    using assms by (auto simp: verify_login_def traced_simps split: sum.splits)
  then have "tmo = None" by (auto simp: connect_and_login_def Let_def split: option.splits)
  then have "snd (connect_and_login_inner net host port email secret security c) = Inr ()"
    "set (fst (connect_and_login_inner net host port email secret security c)) \<subseteq> set events"
    using i by (simp_all add: connect_and_login_def Let_def)
  then show "SendLogin email secret \<in> set events" "net_login net = Inr ()"
    using connect_result by blast+
qed

definition stripping_server :: imap_net where
  "stripping_server = \<lparr>net_tcp = Inr (), net_plain_greeting = Inr (Some (DataResponse (Some (Capabilities [Imap4rev1, Auth ''PLAIN'']))))
     , net_starttls = Inr (), net_handshake = Inr (), net_tls_greeting = Inr None, net_login = Inr (), net_logout = Inr ()\<rparr>"

theorem login_only_over_tls_witness:
  "fst (verify_login (Inr ()) stripping_server None ''h'' 143 ''e'' ''s'' StartTls False) = [DialTcp ''h'' 143, ReadGreeting] \<and>
   SendLogin ''e'' ''s'' \<notin> set (fst (verify_login (Inr ()) stripping_server None ''h'' 143 ''e'' ''s'' StartTls False))"
proof -
  let ?v = "verify_login (Inr ()) stripping_server None ''h'' 143 ''e'' ''s'' StartTls False"
  have "fst ?v = [DialTcp ''h'' 143, ReadGreeting]"
    by (simp add: verify_login_def connect_and_login_def connect_and_login_inner_def traced_simps
        stripping_server_def greeting_lacks_starttls_def Let_def)
  moreover have "\<exists>g. net_plain_greeting stripping_server = Inr (Some g) \<and> greeting_lacks_starttls g"
    by (simp add: stripping_server_def greeting_lacks_starttls_def)
  ultimately show ?thesis
    using login_only_over_tls [of "Inr ()" stripping_server None "''h''" 143 "''e''" "''s''" StartTls False "fst ?v" "snd ?v"]
    by simp
qed

end
