(* ===== verification/RcloneConfig.thy ===== *)
theory RcloneConfig
  imports Keyring
begin

text \<open>
  \<open>core/rclone/config.rs\<close>: the sandboxed rclone configuration written from the keyring, and
  \<open>RemoteTarget\<close>, the \<open>alias:prefix/\<close> addresses resolved against it. How rclone reads the file is
  outside the repository; \<open>ini_get\<close> is the reading of an INI file that the properties use.
\<close>

section \<open>Generating the file\<close>

definition RCLONE_CONFIG_FILE_NAME :: string where "RCLONE_CONFIG_FILE_NAME = ''rclone.conf''"
definition BACKEND_SECTION_SUFFIX :: string where "BACKEND_SECTION_SUFFIX = ''.s3''"

definition backend_section_name :: "string \<Rightarrow> string" where
  "backend_section_name alias = alias @ BACKEND_SECTION_SUFFIX"

definition rclone_config_path_beside :: "string \<Rightarrow> string result" where
  "rclone_config_path_beside keyring_path =
     bindE (ok_or (path_parent keyring_path)
         (''could not determine a parent directory for '' @ keyring_path))
       (\<lambda>dir. Inr (path_join dir RCLONE_CONFIG_FILE_NAME))"

definition section_lines :: "(string \<Rightarrow> string option) \<Rightarrow> bucket_config \<Rightarrow> string list" where
  "section_lines env b =
     (let backend = backend_section_name (bc_alias b) in
      [''['' @ backend @ '']'', ''type = s3'', ''provider = Other'',
       ''access_key_id = '' @ bc_access_key_id b,
       ''secret_access_key = '' @ resolve_secret env (bc_alias b) (bc_secret_key b),
       ''endpoint = '' @ bc_endpoint b, ''acl = private'', ''no_check_bucket = true'', [],
       ''['' @ bc_alias b @ '']'', ''type = alias'', ''remote = '' @ backend @ '':'' @ bc_bucket b, []])"

definition collision_message :: "bucket_config \<Rightarrow> string" where
  "collision_message b =
     ''cannot generate an rclone config: the backend section for bucket-config '' @ [CHR 0x27] @ bc_alias b @
     [CHR 0x27] @ '' would be named '' @ [CHR 0x27] @ backend_section_name (bc_alias b) @ [CHR 0x27] @
     '', which collides with another configured alias -- rename one of them''"

text \<open>The loop over the buckets, with its early return on a colliding backend name.\<close>

fun config_contents ::
  "(string \<Rightarrow> string option) \<Rightarrow> store \<Rightarrow> bucket_config list \<Rightarrow> string \<Rightarrow> string result" where
  "config_contents env st [] contents = Inr contents"
| "config_contents env st (b # bs) contents =
     (if contains_alias st (backend_section_name (bc_alias b)) then Inl (Err (collision_message b))
      else config_contents env st bs (contents @ write_rows id (section_lines env b)))"

definition write_sandboxed_config ::
  "(string \<Rightarrow> string option) \<Rightarrow> write_env \<Rightarrow> store \<Rightarrow> string \<Rightarrow> secret_file \<Rightarrow> secret_file \<times> unit result" where
  "write_sandboxed_config env wenv st path file =
     write_secret_file wenv path (config_contents env st (bucket_configs st) []) file"

section \<open>Remote targets\<close>

record remote_target =
  rt_alias :: string
  rt_prefix :: "string option"

definition normalize_prefix :: "string \<Rightarrow> string option result" where
  "normalize_prefix raw =
     (let trimmed = trim_by (\<lambda>c. c = CHR ''/'') raw in
      if trimmed = [] then Inr None
      else if list_ex (\<lambda>segment. segment = ''..'') (split_on (CHR ''/'') trimmed) then
        Inl (Err (''invalid prefix '' @ [CHR 0x27] @ raw @ [CHR 0x27] @ '': a '' @ [CHR 0x27] @ ''..'' @
          [CHR 0x27] @ '' path segment is not allowed''))
      else Inr (Some (trimmed @ ''/'')))"

definition remote_parse :: "string \<Rightarrow> store \<Rightarrow> remote_target result" where
  "remote_parse value st =
     (let (alias, raw_prefix) = (case split_once (CHR '':'') value of Some ap \<Rightarrow> ap | None \<Rightarrow> (value, [])) in
      if \<not> contains_alias st alias then
        Inl (Err (''no bucket-config named '' @ [CHR 0x27] @ alias @ [CHR 0x27]))
      else bindE (normalize_prefix raw_prefix) (\<lambda>p. Inr \<lparr>rt_alias = alias, rt_prefix = p\<rparr>))"

definition bucket_root :: "string \<Rightarrow> remote_target" where
  "bucket_root alias = \<lparr>rt_alias = alias, rt_prefix = None\<rparr>"

definition with_default_prefix :: "remote_target \<Rightarrow> string \<Rightarrow> remote_target result" where
  "with_default_prefix t default_prefix = (case rt_prefix t of
     Some p \<Rightarrow> Inr t
   | None \<Rightarrow> bindE (normalize_prefix default_prefix) (\<lambda>p. Inr (t\<lparr>rt_prefix := p\<rparr>)))"

definition address :: "remote_target \<Rightarrow> string" where
  "address t = (case rt_prefix t of
     Some prefix \<Rightarrow> rt_alias t @ '':'' @ prefix | None \<Rightarrow> rt_alias t @ '':'')"

section \<open>Reading the generated file\<close>

text \<open>The value of a key in a section: the first line \<open>key = value\<close> after the first header of that
  name and before the next header.\<close>

definition ini_value :: "string list \<Rightarrow> string \<Rightarrow> string option" where
  "ini_value body key =
     (case List.map_filter (strip_prefix (key @ '' = '')) (takeWhile (\<lambda>l. \<not> starts_with ''['' l) body) of
        [] \<Rightarrow> None | v # vs \<Rightarrow> Some v)"

definition ini_get :: "string \<Rightarrow> string \<Rightarrow> string \<Rightarrow> string option" where
  "ini_get contents name key =
     (case dropWhile (\<lambda>l. l \<noteq> ''['' @ name @ '']'') (lines contents) of
        [] \<Rightarrow> None | header # body \<Rightarrow> ini_value body key)"

definition bucket_fields_clean :: "(string \<Rightarrow> string option) \<Rightarrow> bucket_config \<Rightarrow> bool" where
  "bucket_fields_clean env b \<longleftrightarrow> NL \<notin> set (bc_alias b) \<and> clean_line (bc_access_key_id b) \<and>
     clean_line (resolve_secret env (bc_alias b) (bc_secret_key b)) \<and> clean_line (bc_endpoint b) \<and>
     clean_line (bc_bucket b)"

lemma config_contents_Inr:
  "config_contents env st bs acc = Inr out \<longleftrightarrow>
     (\<forall>b \<in> set bs. \<not> contains_alias st (backend_section_name (bc_alias b))) \<and>
     out = acc @ write_rows id (concat (map (section_lines env) bs))"
  by (induction bs arbitrary: acc) auto

text \<open>Lines of known text with a clean tail are clean.\<close>

lemma clean_line_prefixed: "clean_line v \<Longrightarrow> NL \<notin> set p \<Longrightarrow> CR \<notin> set p \<Longrightarrow> clean_line (p @ v)"
proof -
  assume a: "clean_line v" "NL \<notin> set p" "CR \<notin> set p"
  then show ?thesis
    by (cases v rule: rev_cases) (auto simp: clean_line_def ends_with_iff)
qed

lemma clean_line_bracket: "NL \<notin> set n \<Longrightarrow> clean_line (''['' @ n @ '']'')"
  by (auto simp: clean_line_def ends_with_iff)

lemma section_lines_clean:
  assumes "bucket_fields_clean env b"
  shows "list_all clean_line (section_lines env b)"
proof -
  have c: "clean_line (p @ v)" if "clean_line v" "NL \<notin> set p" "CR \<notin> set p" for p v
    using that by (rule clean_line_prefixed)
  have k: "clean_line l" if "NL \<notin> set l" "CR \<notin> set l" for l using that by (rule clean_line_no_CR)
  have "NL \<notin> set (backend_section_name (bc_alias b))"
    using assms by (simp add: bucket_fields_clean_def backend_section_name_def BACKEND_SECTION_SUFFIX_def)
  moreover have "clean_line ((''remote = '' @ backend_section_name (bc_alias b) @ '':'') @ bc_bucket b)"
    using assms \<open>NL \<notin> set (backend_section_name (bc_alias b))\<close>
      clean_line_mid [of "CHR '':''" "''remote = '' @ backend_section_name (bc_alias b)"]
    by (simp add: bucket_fields_clean_def)
  ultimately show ?thesis
    using assms clean_line_bracket c [of "bc_access_key_id b" "''access_key_id = ''"]
      c [of "resolve_secret env (bc_alias b) (bc_secret_key b)" "''secret_access_key = ''"]
      c [of "bc_endpoint b" "''endpoint = ''"]
    by (simp add: section_lines_def Let_def bucket_fields_clean_def k)
qed

text \<open>A section is found behind others that do not carry its header.\<close>

lemma dropWhile_skip: "h \<notin> set ls \<Longrightarrow> dropWhile (\<lambda>l. l \<noteq> h) (ls @ h # rest) = h # rest"
  by (induction ls) auto

lemma ini_get_section:
  assumes "list_all clean_line (pre @ (''['' @ name @ '']'') # body @ [[]] @ post)"
    and "(''['' @ name @ '']'') \<notin> set pre"
  shows "ini_get (write_rows id (pre @ (''['' @ name @ '']'') # body @ [[]] @ post)) name key =
     ini_value (body @ [[]] @ post) key"
proof -
  let ?ls = "pre @ (''['' @ name @ '']'') # body @ [[]] @ post"
  have "lines (write_rows id ?ls) = ?ls"
    using lines_concat [OF assms(1), of "[]"] by (simp add: write_rows_def)
  then have "dropWhile (\<lambda>l. l \<noteq> ''['' @ name @ '']'') (lines (write_rows id ?ls)) = (''['' @ name @ '']'') # body @ [[]] @ post"
    using dropWhile_skip [OF assms(2)] by simp
  then show ?thesis by (simp only: ini_get_def list.case)
qed

lemma section_headers:
  "l \<in> set (section_lines env b) \<Longrightarrow> starts_with ''['' l \<Longrightarrow>
     l = ''['' @ bc_alias b @ '']'' \<or> l = ''['' @ backend_section_name (bc_alias b) @ '']''"
  by (auto simp: section_lines_def Let_def starts_with_iff)

lemma backend_section_name_inject [simp]: "backend_section_name a = backend_section_name b \<longleftrightarrow> a = b"
  by (simp add: backend_section_name_def)

lemma backend_not_self [simp]: "backend_section_name a \<noteq> a"
  by (simp add: backend_section_name_def BACKEND_SECTION_SUFFIX_def)

text \<open>No earlier section carries the header of a bucket or of its backend.\<close>

lemma distinct_bucket_aliases: "unique_aliases s \<Longrightarrow> distinct (map bc_alias (bucket_configs s))"
proof -
  assume u: "unique_aliases s"
  have "distinct (map bc_alias (List.map_filter (\<lambda>e. case e of BucketEntry b \<Rightarrow> Some b | _ \<Rightarrow> None) es)) \<and>
      bc_alias ` set (List.map_filter (\<lambda>e. case e of BucketEntry b \<Rightarrow> Some b | _ \<Rightarrow> None) es) \<subseteq> entry_alias ` set es"
    if "distinct (map entry_alias es)" for es
    using that
  proof (induction es)
    case (Cons e es)
    then show ?case by (cases e) (auto simp: map_filter_simps)
  qed (simp add: map_filter_simps)
  then show ?thesis using u by (simp add: unique_aliases_def bucket_configs_def)
qed

lemma bucket_entry_unique:
  assumes "unique_aliases s" and "bucket_configs s = xs @ b # ys" and "x \<in> set xs"
  shows "bc_alias x \<noteq> bc_alias b"
proof -
  have "bc_alias b \<notin> bc_alias ` set xs" using distinct_bucket_aliases [OF assms(1)] assms(2) by simp
  then show ?thesis using assms(3) by (metis image_eqI)
qed

lemma split_list_bucket:
  assumes "b \<in> set (bucket_configs s)"
  shows "\<exists>xs ys. bucket_configs s = xs @ b # ys"
  using assms by (rule split_list)

text \<open>The lines of one bucket, cut at its two headers.\<close>

lemma section_lines_split:
  "section_lines env b =
     (''['' @ backend_section_name (bc_alias b) @ '']'') #
       [''type = s3'', ''provider = Other'', ''access_key_id = '' @ bc_access_key_id b,
        ''secret_access_key = '' @ resolve_secret env (bc_alias b) (bc_secret_key b),
        ''endpoint = '' @ bc_endpoint b, ''acl = private'', ''no_check_bucket = true''] @ [[]] @
     (''['' @ bc_alias b @ '']'') #
       [''type = alias'', ''remote = '' @ backend_section_name (bc_alias b) @ '':'' @ bc_bucket b] @ [[]]"
  by (simp add: section_lines_def Let_def)

lemma headers_of:
  "l \<in> set (concat (map (section_lines env) xs)) \<Longrightarrow> starts_with ''['' l \<Longrightarrow>
     \<exists>x \<in> set xs. l = ''['' @ bc_alias x @ '']'' \<or> l = ''['' @ backend_section_name (bc_alias x) @ '']''"
  using section_headers by fastforce

lemma config_routes:
  assumes "unique_aliases s" and "b \<in> set (bucket_configs s)"
    and clean: "\<forall>b \<in> set (bucket_configs s). bucket_fields_clean env b"
    and "config_contents env s (bucket_configs s) [] = Inr out"
  shows "ini_get out (bc_alias b) ''remote'' = Some (backend_section_name (bc_alias b) @ '':'' @ bc_bucket b)"
    and "ini_get out (backend_section_name (bc_alias b)) ''endpoint'' = Some (bc_endpoint b)"
    and "ini_get out (backend_section_name (bc_alias b)) ''access_key_id'' = Some (bc_access_key_id b)"
    and "ini_get out (backend_section_name (bc_alias b)) ''secret_access_key'' =
           Some (resolve_secret env (bc_alias b) (bc_secret_key b))"
proof -
  obtain xs ys where split: "bucket_configs s = xs @ b # ys" using split_list_bucket [OF assms(2)] by blast
  let ?pre = "concat (map (section_lines env) xs)" and ?post = "concat (map (section_lines env) ys)"
  let ?bk = "backend_section_name (bc_alias b)"
  let ?s3 = "[''type = s3'', ''provider = Other'', ''access_key_id = '' @ bc_access_key_id b,
        ''secret_access_key = '' @ resolve_secret env (bc_alias b) (bc_secret_key b),
        ''endpoint = '' @ bc_endpoint b, ''acl = private'', ''no_check_bucket = true'']"
  let ?al = "[''type = alias'', ''remote = '' @ ?bk @ '':'' @ bc_bucket b]"
  have out: "out = write_rows id (?pre @ section_lines env b @ ?post)"
    and nocoll: "\<forall>x \<in> set (bucket_configs s). \<not> contains_alias s (backend_section_name (bc_alias x))"
    using assms(4) split by (simp_all add: config_contents_Inr)
  have "list_all clean_line (concat (map (section_lines env) (bucket_configs s)))"
    using section_lines_clean clean by (fastforce simp: list_all_iff)
  then have cl: "list_all clean_line (?pre @ section_lines env b @ ?post)" using split by simp
  have "contains_alias s (bc_alias x)" if "x \<in> set (bucket_configs s)" for x
    using that by (force simp: bucket_configs_iff contains_alias_def list_ex_iff)
  then have nb: "backend_section_name (bc_alias x) \<noteq> bc_alias y"
    if "x \<in> set (bucket_configs s)" "y \<in> set (bucket_configs s)" for x y
    using that nocoll by metis
  have fresh: "(''['' @ n @ '']'') \<notin> set ?pre" if "n = bc_alias b \<or> n = ?bk" for n
  proof
    assume "(''['' @ n @ '']'') \<in> set ?pre"
    then obtain x where x: "x \<in> set xs" "n = bc_alias x \<or> n = backend_section_name (bc_alias x)"
      using headers_of [of "''['' @ n @ '']''" env xs] by (auto simp: starts_with_iff)
    moreover have "bc_alias x \<noteq> bc_alias b" using bucket_entry_unique [OF assms(1) split x(1)] .
    moreover have "backend_section_name (bc_alias x) \<noteq> bc_alias b" "?bk \<noteq> bc_alias x"
      using nb x(1) split by auto
    ultimately show False using that by auto
  qed
  have e1: "?pre @ section_lines env b @ ?post =
      ?pre @ (''['' @ ?bk @ '']'') # ?s3 @ [[]] @ ((''['' @ bc_alias b @ '']'') # ?al @ [[]] @ ?post)"
    by (simp only: section_lines_split append_Cons append_assoc append_Nil)
  have e2: "?pre @ section_lines env b @ ?post =
      (?pre @ (''['' @ ?bk @ '']'') # ?s3 @ [[]]) @ (''['' @ bc_alias b @ '']'') # ?al @ [[]] @ ?post"
    by (simp only: section_lines_split append_Cons append_assoc append_Nil)
  have s3: "ini_get out ?bk key = ini_value (?s3 @ [[]] @ (''['' @ bc_alias b @ '']'') # ?al @ [[]] @ ?post) key" for key
    unfolding out e1 by (rule ini_get_section [OF cl [unfolded e1] fresh]) simp
  have "(''['' @ bc_alias b @ '']'') \<notin> set ((''['' @ ?bk @ '']'') # ?s3 @ [[]])"
    using backend_not_self [of "bc_alias b", symmetric] by auto
  then have "(''['' @ bc_alias b @ '']'') \<notin> set (?pre @ (''['' @ ?bk @ '']'') # ?s3 @ [[]])"
    using fresh by (simp only: set_append Un_iff) blast
  from ini_get_section [OF cl [unfolded e2] this]
  have al: "ini_get out (bc_alias b) key = ini_value (?al @ [[]] @ ?post) key" for key
    unfolding out e2 .
  show "ini_get out (bc_alias b) ''remote'' = Some (?bk @ '':'' @ bc_bucket b)"
    unfolding al by (simp add: ini_value_def starts_with_iff map_filter_simps)
  show "ini_get out ?bk ''endpoint'' = Some (bc_endpoint b)"
    "ini_get out ?bk ''access_key_id'' = Some (bc_access_key_id b)"
    "ini_get out ?bk ''secret_access_key'' = Some (resolve_secret env (bc_alias b) (bc_secret_key b))"
    unfolding s3 by (simp_all add: ini_value_def starts_with_iff map_filter_simps)
qed

text \<open>Each header is written once. The counting is done bucket by bucket.\<close>

lemma count_header_block:
  assumes "\<And>y. y \<in> set ys \<Longrightarrow> bc_alias y \<noteq> n \<and> backend_section_name (bc_alias y) \<noteq> n"
  shows "count_list (concat (map (section_lines env) ys)) (''['' @ n @ '']'') = 0"
proof -
  have "(''['' @ n @ '']'') \<notin> set (concat (map (section_lines env) ys))"
  proof
    assume "(''['' @ n @ '']'') \<in> set (concat (map (section_lines env) ys))"
    then obtain y where "y \<in> set ys" "n = bc_alias y \<or> n = backend_section_name (bc_alias y)"
      using headers_of [of "''['' @ n @ '']''" env ys] by (auto simp: starts_with_iff)
    then show False using assms by blast
  qed
  then show ?thesis unfolding count_list_0_iff .
qed

lemma count_header_own:
  assumes "n = bc_alias b \<or> n = backend_section_name (bc_alias b)"
  shows "count_list (section_lines env b) (''['' @ n @ '']'') = 1"
  using assms backend_not_self [of "bc_alias b"] by (auto simp: section_lines_def Let_def)

lemma headers_once:
  assumes "unique_aliases s" and b: "b \<in> set (bucket_configs s)"
    and clean: "\<forall>b \<in> set (bucket_configs s). bucket_fields_clean env b"
    and out: "config_contents env s (bucket_configs s) [] = Inr out"
  shows "count_list (lines out) (''['' @ bc_alias b @ '']'') = 1"
    and "count_list (lines out) (''['' @ backend_section_name (bc_alias b) @ '']'') = 1"
proof -
  obtain xs ys where split: "bucket_configs s = xs @ b # ys" using split_list_bucket [OF b] by blast
  let ?ls = "\<lambda>bs. concat (map (section_lines env) bs)"
  have "list_all clean_line (?ls (bucket_configs s))"
    using section_lines_clean clean by (fastforce simp: list_all_iff)
  then have ls: "lines out = ?ls (xs @ b # ys)"
    using out lines_concat [of "?ls (bucket_configs s)" "[]"] split
    by (simp add: config_contents_Inr write_rows_def)
  have alone: "bc_alias x \<noteq> bc_alias b \<and> backend_section_name (bc_alias x) \<noteq> bc_alias b \<and>
      bc_alias x \<noteq> backend_section_name (bc_alias b)" if "x \<in> set xs \<or> x \<in> set ys" for x
  proof -
    have "x \<in> set (bucket_configs s)" using that split by auto
    then have "backend_section_name (bc_alias x) \<noteq> bc_alias b" "bc_alias x \<noteq> backend_section_name (bc_alias b)"
      using out b by (auto simp: config_contents_Inr contains_alias_def list_ex_iff bucket_configs_iff; force)+
    then show ?thesis using that distinct_bucket_aliases [OF assms(1)] split by (auto simp: image_iff)
  qed
  have "count_list (lines out) (''['' @ n @ '']'') = 1"
    if n: "n = bc_alias b \<or> n = backend_section_name (bc_alias b)" for n
    using count_header_own [OF n] alone n
      count_header_block [of xs n env] count_header_block [of ys n env]
    by (auto simp: ls count_list_append)
  then show "count_list (lines out) (''['' @ bc_alias b @ '']'') = 1"
    and "count_list (lines out) (''['' @ backend_section_name (bc_alias b) @ '']'') = 1" by blast+
qed

text \<open>Nothing is escaped: a newline in a field ends the section and opens another one.\<close>

lemma newline_injects_section:
  assumes "clean_line e" and "clean_line bad" and "NL \<notin> set n" and "NL \<notin> set (bc_alias b)"
    and "clean_line (bc_access_key_id b)" and "clean_line (resolve_secret env (bc_alias b) (bc_secret_key b))"
    and "n \<noteq> bc_alias b" and "n \<noteq> backend_section_name (bc_alias b)"
    and "bc_endpoint b = e @ NL # (''['' @ n @ '']'') @ NL # ''endpoint = '' @ bad"
  shows "ini_get (write_rows id (section_lines env b) @ rest) n ''endpoint'' = Some bad"
proof -
  let ?pre = "[''['' @ backend_section_name (bc_alias b) @ '']'', ''type = s3'', ''provider = Other'',
      ''access_key_id = '' @ bc_access_key_id b,
      ''secret_access_key = '' @ resolve_secret env (bc_alias b) (bc_secret_key b), ''endpoint = '' @ e]"
  have "NL \<notin> set (backend_section_name (bc_alias b))"
    using assms(4) by (simp add: backend_section_name_def BACKEND_SECTION_SUFFIX_def)
  then have "list_all clean_line (?pre @ [''['' @ n @ '']'', ''endpoint = '' @ bad])"
    using assms(1-6) clean_line_bracket clean_line_prefixed [of e "''endpoint = ''"] clean_line_prefixed [of bad "''endpoint = ''"]
      clean_line_prefixed [of "bc_access_key_id b" "''access_key_id = ''"]
      clean_line_prefixed [of "resolve_secret env (bc_alias b) (bc_secret_key b)" "''secret_access_key = ''"]
    by (simp add: clean_line_no_CR)
  moreover obtain tail where "write_rows id (section_lines env b) @ rest =
      concat (map (\<lambda>l. l @ [NL]) (?pre @ [''['' @ n @ '']'', ''endpoint = '' @ bad])) @ tail"
    using assms(9) by (simp add: section_lines_def Let_def write_rows_def)
  ultimately have ls: "lines (write_rows id (section_lines env b) @ rest) =
      ?pre @ (''['' @ n @ '']'') # (''endpoint = '' @ bad) # lines tail"
    using lines_concat [of "?pre @ [''['' @ n @ '']'', ''endpoint = '' @ bad]" tail] by simp
  have "(''['' @ n @ '']'') \<notin> set ?pre" using assms(7,8) by auto
  from dropWhile_skip [OF this]
  show ?thesis unfolding ini_get_def ls by (simp add: ini_value_def map_filter_simps starts_with_iff)
qed

section \<open>Lemmas on prefixes\<close>

text \<open>A normalised prefix: a non-empty relative path with one trailing slash and no \<open>..\<close> component.\<close>

definition prefix_ok :: "string \<Rightarrow> bool" where
  "prefix_ok p \<longleftrightarrow> (\<exists>t. p = t @ ''/'' \<and> t \<noteq> [] \<and> hd t \<noteq> CHR ''/'' \<and> last t \<noteq> CHR ''/'' \<and>
     ''..'' \<notin> set (split_on (CHR ''/'') t))"

lemma normalize_prefix_ok: "normalize_prefix raw = Inr (Some p) \<Longrightarrow> prefix_ok p"
  using trim_by_props(3) [of "\<lambda>c. c = CHR ''/''" raw]
  by (auto simp: normalize_prefix_def prefix_ok_def Let_def list_ex_iff split: if_splits)

lemma trim_by_snoc: "t \<noteq> [] \<Longrightarrow> \<not> p (hd t) \<Longrightarrow> \<not> p (last t) \<Longrightarrow> p c \<Longrightarrow> trim_by p (t @ [c]) = t"
  using trim_by_id [of t p]
  by (cases t) (auto simp: trim_by_def trim_start_by_def trim_end_by_def)

lemma normalize_prefix_fixed: "prefix_ok p \<Longrightarrow> normalize_prefix p = Inr (Some p)"
  by (auto simp: prefix_ok_def normalize_prefix_def trim_by_snoc list_ex_iff)

lemma normalize_prefix_Nil [simp]: "normalize_prefix [] = Inr None"
  by (simp add: normalize_prefix_def trim_by_def trim_start_by_def trim_end_by_def)

lemma remote_parse_target:
  assumes "remote_parse value s = Inr t"
  shows "contains_alias s (rt_alias t) \<and> CHR '':'' \<notin> set (rt_alias t) \<and>
    (\<forall>p. rt_prefix t = Some p \<longrightarrow> prefix_ok p)"
proof -
  define ar where "ar = (case split_once (CHR '':'') value of Some ap \<Rightarrow> ap | None \<Rightarrow> (value, []))"
  have "CHR '':'' \<notin> set (fst ar)"
  proof (cases "split_once (CHR '':'') value")
    case None
    have "ar = (value, [])" unfolding ar_def None by simp
    then show ?thesis using None by simp
  next
    case (Some ap)
    then have "split_once (CHR '':'') value = Some (fst ap, snd ap)" by simp
    then show ?thesis unfolding split_once_Some by (simp add: ar_def Some)
  qed
  moreover have "contains_alias s (fst ar) \<and> (\<exists>p. normalize_prefix (snd ar) = Inr p \<and> t = \<lparr>rt_alias = fst ar, rt_prefix = p\<rparr>)"
    using assms unfolding remote_parse_def ar_def [symmetric]
    by (auto simp: bindE_Inr_iff split: prod.splits if_splits)
  ultimately show ?thesis using normalize_prefix_ok by auto
qed

lemma remote_parse_address:
  assumes "contains_alias s (rt_alias t)" and "CHR '':'' \<notin> set (rt_alias t)"
    and "\<forall>p. rt_prefix t = Some p \<longrightarrow> prefix_ok p"
  shows "remote_parse (address t) s = Inr t"
  using assms normalize_prefix_fixed
  by (cases "rt_prefix t") (auto simp: address_def remote_parse_def)

section \<open>Properties\<close>

text \<open>C4. The generated configuration routes every bucket alias to its own bucket. For a keyring whose
  aliases are unique and whose buckets have no newline in any field and no carriage return at the end
  of a written value (\<open>bucket_fields_clean\<close>: the source escapes nothing, and
  \<open>newline_injects_section\<close> is what happens otherwise), a successful write leaves an owner-only file
  in which the header of each alias and of each backend occurs on exactly one line, so no other entry
  of the keyring shadows it whichever occurrence a reader prefers; read as an INI file (\<open>ini_get\<close>, the
  specification's reader), the alias section points at that bucket's backend, and the backend section
  carries that bucket's endpoint, access key and resolved secret.\<close>

theorem sandboxed_config_routes:
  assumes "unique_aliases s" and "\<forall>b \<in> set (bucket_configs s). bucket_fields_clean env b"
    and "write_sandboxed_config env wenv s path file = (file', Inr ())"
  shows "\<exists>tx. file' = TextFile tx owner_only \<and> (\<forall>b \<in> set (bucket_configs s).
    count_list (lines tx) (''['' @ bc_alias b @ '']'') = 1 \<and>
    count_list (lines tx) (''['' @ backend_section_name (bc_alias b) @ '']'') = 1 \<and>
    ini_get tx (bc_alias b) ''remote'' = Some (backend_section_name (bc_alias b) @ '':'' @ bc_bucket b) \<and>
    ini_get tx (backend_section_name (bc_alias b)) ''endpoint'' = Some (bc_endpoint b) \<and>
    ini_get tx (backend_section_name (bc_alias b)) ''access_key_id'' = Some (bc_access_key_id b) \<and>
    ini_get tx (backend_section_name (bc_alias b)) ''secret_access_key'' =
      Some (resolve_secret env (bc_alias b) (bc_secret_key b)))"
proof -
  obtain tx where tx: "config_contents env s (bucket_configs s) [] = Inr tx" "file' = TextFile tx owner_only"
    using assms(3) by (auto simp: write_sandboxed_config_def write_secret_file_ok)
  show ?thesis
    by (intro exI [of _ tx] conjI ballI tx(2))
      (rule config_routes [OF assms(1) _ assms(2) tx(1)] headers_once [OF assms(1) _ assms(2) tx(1)], assumption)+
qed

definition one_bucket :: bucket_config where
  "one_bucket = \<lparr>bc_alias = ''b'', bc_endpoint = ''http://x'', bc_bucket = ''n'', bc_access_key_id = ''k'',
     bc_secret_key = ''s''\<rparr>"

theorem sandboxed_config_routes_witness:
  "\<exists>tx. fst (write_sandboxed_config (\<lambda>_. None)
        \<lparr>mkdir_fault = None, write_fault = None, chmod_fault = None, create_mode = 420\<rparr>
        \<lparr>st_entries = [BucketEntry one_bucket]\<rparr> ''/c/rclone.conf'' NoFile) = TextFile tx owner_only \<and>
     ini_get tx ''b'' ''remote'' = Some ''b.s3:n''"
proof -
  let ?w = "write_sandboxed_config (\<lambda>_. None)
        \<lparr>mkdir_fault = None, write_fault = None, chmod_fault = None, create_mode = 420\<rparr>
        \<lparr>st_entries = [BucketEntry one_bucket]\<rparr> ''/c/rclone.conf'' NoFile"
  have b: "bucket_configs \<lparr>st_entries = [BucketEntry one_bucket]\<rparr> = [one_bucket]"
    by (simp add: bucket_configs_def)
  have c: "config_contents (\<lambda>_. None) \<lparr>st_entries = [BucketEntry one_bucket]\<rparr> [one_bucket] [] =
      Inr (write_rows id (section_lines (\<lambda>_. None) one_bucket))"
    by (simp add: contains_alias_def one_bucket_def backend_section_name_def BACKEND_SECTION_SUFFIX_def)
  then have w: "?w = (fst ?w, Inr ())"
    by (simp add: write_sandboxed_config_def b write_secret_file_def split: option.splits)
  have "bucket_fields_clean (\<lambda>_. None) one_bucket"
    by (simp add: bucket_fields_clean_def one_bucket_def resolve_secret_def clean_line_no_CR)
  then have "\<exists>tx. fst ?w = TextFile tx owner_only \<and>
      ini_get tx (bc_alias one_bucket) ''remote'' = Some (backend_section_name (bc_alias one_bucket) @ '':'' @ bc_bucket one_bucket)"
    using sandboxed_config_routes [OF _ _ w] unfolding b by (simp add: unique_aliases_def) blast
  then show ?thesis by (simp add: one_bucket_def backend_section_name_def BACKEND_SECTION_SUFFIX_def)
qed

text \<open>A remote address that parses names an alias of the keyring, and its prefix is relative, ends
  in one slash and has no \<open>..\<close> component, also after a default prefix is applied: composing an address
  and parsing it again gives the same target, and a given prefix is never overridden.\<close>

lemma remote_target_roundtrip:
  assumes "remote_parse value s = Inr t" and "with_default_prefix t default_prefix = Inr t'"
  shows "contains_alias s (rt_alias t') \<and> remote_parse (address t) s = Inr t \<and>
    remote_parse (address t') s = Inr t' \<and> (rt_prefix t \<noteq> None \<longrightarrow> t' = t) \<and>
    (\<forall>p. rt_prefix t' = Some p \<longrightarrow> ''..'' \<notin> set (split_on (CHR ''/'') p) \<and> ends_with ''/'' p)"
proof -
  have t: "contains_alias s (rt_alias t)" "CHR '':'' \<notin> set (rt_alias t)"
    "\<forall>p. rt_prefix t = Some p \<longrightarrow> prefix_ok p"
    using remote_parse_target [OF assms(1)] by auto
  have t': "rt_alias t' = rt_alias t" "\<forall>p. rt_prefix t' = Some p \<longrightarrow> prefix_ok p" "rt_prefix t \<noteq> None \<longrightarrow> t' = t"
    using assms(2) t(3) normalize_prefix_ok
    by (auto simp: with_default_prefix_def bindE_Inr_iff split: option.splits)
  have "prefix_ok p \<Longrightarrow> ''..'' \<notin> set (split_on (CHR ''/'') p) \<and> ends_with ''/'' p" for p
    by (auto simp: prefix_ok_def ends_with_iff)
  then show ?thesis using t t' remote_parse_address by metis
qed

lemma remote_target_roundtrip_witness:
  "let s = \<lparr>st_entries = [BucketEntry one_bucket]\<rparr> in
   remote_parse ''b:/mp4//'' s = Inr \<lparr>rt_alias = ''b'', rt_prefix = Some ''mp4/''\<rparr> \<and>
   remote_parse (address \<lparr>rt_alias = ''b'', rt_prefix = Some ''mp4/''\<rparr>) s =
     Inr \<lparr>rt_alias = ''b'', rt_prefix = Some ''mp4/''\<rparr>"
proof -
  have 1: "remote_parse ''b:/mp4//'' \<lparr>st_entries = [BucketEntry one_bucket]\<rparr> =
      Inr \<lparr>rt_alias = ''b'', rt_prefix = Some ''mp4/''\<rparr>"
    by (simp add: remote_parse_def contains_alias_def one_bucket_def normalize_prefix_def trim_by_def
        trim_start_by_def trim_end_by_def)
  have 2: "with_default_prefix \<lparr>rt_alias = ''b'', rt_prefix = Some ''mp4/''\<rparr> ''jpg'' =
      Inr \<lparr>rt_alias = ''b'', rt_prefix = Some ''mp4/''\<rparr>"
    by (simp add: with_default_prefix_def)
  show ?thesis using remote_target_roundtrip [OF 1 2] 1 by (simp add: Let_def)
qed

end
