(* ===== verification/KeyringWizard.thy ===== *)
theory KeyringWizard
  imports ImapClient RcloneConfig
begin

text \<open>
  The keyring commands of \<open>commands/keyring/wizard.rs\<close> over the input helpers of
  \<open>core/wizard.rs\<close>. A command is a function on the world it changes, the keyring file and the
  throwaway probe configuration, and ends in a fault (the message of \<open>fail\<close>, exit code 1) or in the
  line it prints (exit code 0). Terminal prompts are an environment: what each prompt answers.
\<close>

section \<open>Prompts\<close>

record ui =
  is_terminal :: bool
  ask_text :: "string \<Rightarrow> string option \<Rightarrow> string + string"
  ask_number :: "string \<Rightarrow> nat option \<Rightarrow> string + nat"
  ask_select :: "string \<Rightarrow> nat \<Rightarrow> string + nat"
  ask_password :: "string \<Rightarrow> string + string"
  ask_confirm :: "string \<Rightarrow> bool \<Rightarrow> string + bool"
  stdin_line :: "string \<Rightarrow> string + string"

text \<open>\<open>WizardInput::resolve\<close>: a flag wins, also when it is invalid; a prompt needs a terminal.\<close>

definition wizard_resolve :: "bool \<Rightarrow> bool \<Rightarrow> 'r option \<Rightarrow> 'r \<Rightarrow> 'r \<Rightarrow> 'r" where
  "wizard_resolve terminal non_interactive flag_value prompt fallback = (case flag_value of
     Some r \<Rightarrow> r | None \<Rightarrow> if \<not> non_interactive \<and> terminal then prompt else fallback)"

definition read_secret :: "ui \<Rightarrow> string \<Rightarrow> string result" where
  "read_secret u prompt =
     (if is_terminal u then map_err (\<lambda>err. ''failed to read secret: '' @ err) (ask_password u prompt)
      else bindE (map_err (\<lambda>err. ''failed to read secret from stdin: '' @ err) (stdin_line u prompt))
        (\<lambda>line. Inr (trim_end_by (\<lambda>c. c = NL \<or> c = CR) line)))"

definition confirm_answer :: "string \<Rightarrow> bool \<Rightarrow> bool" where
  "confirm_answer line default_answer =
     (let a = to_lower (trim line) in
      if a = ''y'' \<or> a = ''yes'' then True else if a = ''n'' \<or> a = ''no'' then False else default_answer)"

definition confirm :: "ui \<Rightarrow> string \<Rightarrow> bool \<Rightarrow> bool result" where
  "confirm u prompt default_answer =
     (if is_terminal u then map_err (\<lambda>err. ''failed to read confirmation: '' @ err) (ask_confirm u prompt default_answer)
      else bindE (map_err (\<lambda>err. ''failed to read confirmation from stdin: '' @ err) (stdin_line u prompt))
        (\<lambda>line. Inr (confirm_answer line default_answer)))"

section \<open>Host, port and security\<close>

definition resolve_host_port :: "provider \<Rightarrow> string option \<Rightarrow> nat option \<Rightarrow> (string \<times> nat) result" where
  "resolve_host_port p host port =
     (let defaults = default_host_port p in
      bindE (ok_or (case host of Some h \<Rightarrow> Some h | None \<Rightarrow> map_option fst defaults)
          (''--host is required for provider '' @ [CHR 0x27] @ provider_name p @ [CHR 0x27]))
        (\<lambda>h. Inr (h, case port of Some n \<Rightarrow> n | None \<Rightarrow> (case defaults of Some (_, n) \<Rightarrow> n | None \<Rightarrow> 993))))"

definition SECURITY_OPTIONS :: "imap_security list" where "SECURITY_OPTIONS = [Tls, StartTls]"

fun position :: "('a \<Rightarrow> bool) \<Rightarrow> 'a list \<Rightarrow> nat option" where
  "position P [] = None"
| "position P (x # xs) = (if P x then Some 0 else map_option Suc (position P xs))"

definition prompt_security :: "ui \<Rightarrow> imap_security \<Rightarrow> imap_security result" where
  "prompt_security u default_sec =
     (let default_index = (case position (\<lambda>p. p = default_sec) SECURITY_OPTIONS of Some i \<Rightarrow> i | None \<Rightarrow> 0) in
      bindE (map_err (\<lambda>err. ''failed to read connection security: '' @ err)
          (ask_select u ''Connection security'' default_index))
        (\<lambda>i. idx SECURITY_OPTIONS i))"

definition stored_security :: "provider \<Rightarrow> nat \<Rightarrow> imap_security \<Rightarrow> imap_security option" where
  "stored_security p port chosen = (if chosen \<noteq> default_security p port then Some chosen else None)"

section \<open>Checking a bucket\<close>

text \<open>What the probe meets: the async runtime, \<open>rclone\<close> on the path, the directory of the generated
  configuration, and what \<open>rclone lsjson\<close> says of an address.\<close>

record probe_env =
  pe_runtime :: "string + unit"
  pe_available :: "string + unit"
  pe_config_path :: "string result"
  pe_pid :: nat
  pe_vars :: "string \<Rightarrow> string option"
  pe_write :: write_env
  pe_lsjson :: "string \<Rightarrow> string + unit"
  pe_remove_works :: bool

definition probe_config_path_beside :: "nat \<Rightarrow> string \<Rightarrow> string result" where
  "probe_config_path_beside pid generated =
     bindE (ok_or (path_parent generated) ''could not determine the config directory'')
       (\<lambda>parent. Inr (path_join parent (''rclone-probe-'' @ dec pid @ ''.conf'')))"

definition write_probe_config :: "probe_env \<Rightarrow> bucket_config \<Rightarrow> secret_file \<Rightarrow> secret_file \<times> unit result" where
  "write_probe_config pe b probe = (case bindE (pe_config_path pe) (probe_config_path_beside (pe_pid pe)) of
     Inl e \<Rightarrow> (probe, Inl e)
   | Inr path \<Rightarrow> write_sandboxed_config (pe_vars pe) (pe_write pe) (store_push empty_store (BucketEntry b)) path probe)"

definition check_bucket_reachable ::
  "probe_env \<Rightarrow> bucket_config \<Rightarrow> secret_file \<Rightarrow> secret_file \<times> unit result" where
  "check_bucket_reachable pe b probe =
     (case bindE (map_err (\<lambda>err. ''failed to start async runtime: '' @ err) (pe_runtime pe))
         (\<lambda>_. map_err (\<lambda>_. [CHR 0x27] @ ''rclone'' @ [CHR 0x27] @
            '' was not found on PATH -- required to verify a bucket-config'') (pe_available pe)) of
       Inl e \<Rightarrow> (probe, Inl e)
     | Inr _ \<Rightarrow> (case write_probe_config pe b probe of
         (probe', Inl e) \<Rightarrow> (probe', Inl e)
       | (probe', Inr _) \<Rightarrow>
           (if pe_remove_works pe then NoFile else probe',
            map_err id (pe_lsjson pe (address (bucket_root (bc_alias b)))))))"

section \<open>Commands\<close>

record keyring_env =
  ke_ui :: ui
  ke_path :: "string result"
  ke_parse :: toml_parser
  ke_print :: "entry list \<Rightarrow> string + string"
  ke_write :: write_env
  ke_runtime :: "string + unit"
  ke_net :: imap_net
  ke_timeout :: "nat option"
  ke_probe :: probe_env

record world =
  w_keyring :: secret_file
  w_probe :: secret_file

type_synonym 'a command = "world \<Rightarrow> world \<times> 'a result"

definition bindC :: "'a command \<Rightarrow> ('a \<Rightarrow> 'b command) \<Rightarrow> 'b command" where
  "bindC m f w = (case m w of (w', Inl e) \<Rightarrow> (w', Inl e) | (w', Inr x) \<Rightarrow> f x w')"

definition liftC :: "'a result \<Rightarrow> 'a command" where "liftC r w = (w, r)"
definition retC :: "'a \<Rightarrow> 'a command" where "retC x w = (w, Inr x)"
definition failC :: "string \<Rightarrow> 'a command" where "failC msg w = (w, Inl (Err msg))"

definition loadC :: "keyring_env \<Rightarrow> string \<Rightarrow> store command" where
  "loadC env path w = (w, store_load (ke_parse env) path (w_keyring w))"

definition saveC :: "keyring_env \<Rightarrow> string \<Rightarrow> store \<Rightarrow> unit command" where
  "saveC env path st w = (let (file, r) = store_save (ke_print env) (ke_write env) path st (w_keyring w)
     in (w\<lparr>w_keyring := file\<rparr>, r))"

definition reachableC :: "keyring_env \<Rightarrow> bucket_config \<Rightarrow> unit command" where
  "reachableC env b w = (let (probe, r) = check_bucket_reachable (ke_probe env) b (w_probe w) in
     (w\<lparr>w_probe := probe\<rparr>, case r of
        Inl (Err err) \<Rightarrow> Inl (Err (''failed to verify bucket '' @ [CHR 0x27] @ bc_bucket b @ [CHR 0x27] @ '': '' @ err))
      | Inl Panic \<Rightarrow> Inl Panic
      | Inr u \<Rightarrow> Inr u))"

definition open_store :: "keyring_env \<Rightarrow> (string \<times> store) command" where
  "open_store env = bindC (liftC (ke_path env)) (\<lambda>path. bindC (loadC env path) (\<lambda>st. retC (path, st)))"

definition quoted :: "string \<Rightarrow> string" where "quoted s = [CHR 0x27] @ s @ [CHR 0x27]"

definition input_text :: "keyring_env \<Rightarrow> string \<Rightarrow> string option \<Rightarrow> string \<Rightarrow> string result" where
  "input_text env prompt default_text failure =
     map_err (\<lambda>err. failure @ err) (ask_text (ke_ui env) prompt default_text)"

definition prompt_provider :: "keyring_env \<Rightarrow> provider result" where
  "prompt_provider env = bindE (map_err (\<lambda>err. ''failed to read provider selection: '' @ err)
     (ask_select (ke_ui env) ''Select a provider'' 0)) (\<lambda>i. idx PROVIDERS i)"

definition verify_identity ::
  "keyring_env \<Rightarrow> string \<Rightarrow> nat \<Rightarrow> string \<Rightarrow> string \<Rightarrow> imap_security \<Rightarrow> provider \<Rightarrow> unit result" where
  "verify_identity env host port email secret security p =
     snd (verify_login (ke_runtime env) (ke_net env) (ke_timeout env) host port email secret security
       (accepts_invalid_certs p))"

text \<open>The connection cap: \<open>value.max(1)\<close> of the answer, when one is wanted.\<close>

definition ask_cap :: "keyring_env \<Rightarrow> nat option \<Rightarrow> nat option result" where
  "ask_cap env current =
     bindE (confirm (ke_ui env) ''Cap simultaneous IMAP connections for this identity?'' (current \<noteq> None))
       (\<lambda>yes. if yes
          then bindE (map_err (\<lambda>err. ''failed to read max IMAP connections: '' @ err)
                 (ask_number (ke_ui env) ''Max simultaneous IMAP connections'' current))
               (\<lambda>value. Inr (Some (max value 1)))
          else Inr None)"

definition add_email ::
  "keyring_env \<Rightarrow> string option \<Rightarrow> string option \<Rightarrow> provider option \<Rightarrow> string option \<Rightarrow> nat option \<Rightarrow>
   imap_security option \<Rightarrow> string command" where
  "add_email env email_arg alias_arg provider_arg host_arg port_arg security_arg =
     bindC (open_store env) (\<lambda>(path, st).
     bindC (liftC (case email_arg of Some e \<Rightarrow> Inr e
        | None \<Rightarrow> input_text env ''Email address'' None ''failed to read email address: '')) (\<lambda>email.
     let alias = (case alias_arg of Some a \<Rightarrow> a | None \<Rightarrow> sanitize_alias email) in
     if contains_alias st alias then failC (''an entry named '' @ quoted alias @ '' already exists'')
     else bindC (liftC (case provider_arg of Some p \<Rightarrow> Inr p
        | None \<Rightarrow> (case detect email of Some p \<Rightarrow> Inr p | None \<Rightarrow> prompt_provider env))) (\<lambda>p.
     bindC (liftC (resolve_host_port p host_arg port_arg)) (\<lambda>(host, port).
     let security = (case security_arg of Some s \<Rightarrow> s | None \<Rightarrow> default_security p port) in
     bindC (liftC (read_secret (ke_ui env) (''App password for '' @ email))) (\<lambda>secret.
     bindC (liftC (verify_identity env host port email secret security p)) (\<lambda>_.
     bindC (liftC (ask_cap env None)) (\<lambda>cap.
     bindC (saveC env path (store_push st (EmailEntry
        \<lparr>id_alias = alias, id_email = email, id_provider = p, id_host = host, id_port = port,
         id_secret = secret, id_max_connections = cap,
         id_security = stored_security p port security\<rparr>))) (\<lambda>_.
     retC (''Added '' @ email @ '' as '' @ quoted alias @ '' ('' @ provider_name p @ '').'')))))))))"

definition add_bucket :: "keyring_env \<Rightarrow> string option \<Rightarrow> string command" where
  "add_bucket env alias_arg =
     bindC (open_store env) (\<lambda>(path, st).
     bindC (liftC (case alias_arg of Some a \<Rightarrow> Inr a
        | None \<Rightarrow> input_text env ''Alias'' None ''failed to read alias: '')) (\<lambda>alias.
     if contains_alias st alias then failC (''an entry named '' @ quoted alias @ '' already exists'')
     else bindC (liftC (input_text env ''Bucket Name'' None ''failed to read bucket name: '')) (\<lambda>bucket.
     bindC (liftC (input_text env ''Endpoint URL'' None ''failed to read endpoint: '')) (\<lambda>endpoint.
     bindC (liftC (input_text env ''Access Key ID'' None ''failed to read access key ID: '')) (\<lambda>key_id.
     bindC (liftC (read_secret (ke_ui env) ''Secret Key'')) (\<lambda>secret.
     let candidate = \<lparr>bc_alias = alias, bc_endpoint = endpoint, bc_bucket = bucket,
                      bc_access_key_id = key_id, bc_secret_key = secret\<rparr> in
     bindC (reachableC env candidate) (\<lambda>_.
     bindC (saveC env path (store_push st (BucketEntry candidate))) (\<lambda>_.
     retC (''Added bucket-config '' @ quoted alias @ ''.'')))))))))"

text \<open>The kind of entry is chosen with the subcommand, or at a prompt.\<close>

datatype add_kind =
    AddEmail string "string option" "provider option" "string option" "nat option" "imap_security option"
  | AddBucket "string option"

definition add_entry :: "keyring_env \<Rightarrow> add_kind option \<Rightarrow> string command" where
  "add_entry env kind = (case kind of
     Some (AddEmail email alias p host port security) \<Rightarrow> add_email env (Some email) alias p host port security
   | Some (AddBucket alias) \<Rightarrow> add_bucket env alias
   | None \<Rightarrow> (case ask_select (ke_ui env) ''What would you like to add?'' 0 of
       Inl err \<Rightarrow> failC (''failed to read selection: '' @ err)
     | Inr n \<Rightarrow> if n = 0 then add_email env None None None None None None else add_bucket env None))"

definition new_secret :: "keyring_env \<Rightarrow> string \<Rightarrow> string \<Rightarrow> string result" where
  "new_secret env prompt current =
     bindE (read_secret (ke_ui env) prompt) (\<lambda>s. Inr (if s = [] then current else s))"

definition modify_email :: "keyring_env \<Rightarrow> store \<Rightarrow> string \<Rightarrow> identity \<Rightarrow> string command" where
  "modify_email env st path current =
     (let current_index = (case position (\<lambda>p. p = id_provider current) PROVIDERS of Some i \<Rightarrow> i | None \<Rightarrow> 0) in
     bindC (liftC (bindE (map_err (\<lambda>err. ''failed to read provider selection: '' @ err)
        (ask_select (ke_ui env) ''Provider'' current_index)) (\<lambda>i. idx PROVIDERS i))) (\<lambda>p.
     bindC (liftC (input_text env ''Host'' (Some (id_host current)) ''failed to read host: '')) (\<lambda>host.
     bindC (liftC (map_err (\<lambda>err. ''failed to read port: '' @ err)
        (ask_number (ke_ui env) ''Port'' (Some (id_port current))))) (\<lambda>port.
     bindC (liftC (prompt_security (ke_ui env) (identity_security current))) (\<lambda>security.
     bindC (liftC (new_secret env ''App password (press enter to keep current)'' (id_secret current))) (\<lambda>secret.
     bindC (liftC (verify_identity env host port (id_email current) secret security p)) (\<lambda>_.
     bindC (liftC (ask_cap env (id_max_connections current))) (\<lambda>cap.
     let updated = \<lparr>id_alias = id_alias current, id_email = id_email current, id_provider = p,
         id_host = host, id_port = port, id_secret = secret, id_max_connections = cap,
         id_security = stored_security p port security\<rparr> in
     bindC (saveC env path (store_push (fst (store_remove st (id_alias current))) (EmailEntry updated))) (\<lambda>_.
     retC (''Updated '' @ quoted (id_alias current) @ ''.'')))))))))) "

definition modify_bucket :: "keyring_env \<Rightarrow> store \<Rightarrow> string \<Rightarrow> bucket_config \<Rightarrow> string command" where
  "modify_bucket env st path current =
     bindC (liftC (input_text env ''Bucket Name'' (Some (bc_bucket current)) ''failed to read bucket name: '')) (\<lambda>bucket.
     bindC (liftC (input_text env ''Endpoint URL'' (Some (bc_endpoint current)) ''failed to read endpoint: '')) (\<lambda>endpoint.
     bindC (liftC (input_text env ''Access Key ID'' (Some (bc_access_key_id current)) ''failed to read access key ID: '')) (\<lambda>key_id.
     bindC (liftC (new_secret env ''Secret Key (press enter to keep current)'' (bc_secret_key current))) (\<lambda>secret.
     let candidate = \<lparr>bc_alias = bc_alias current, bc_endpoint = endpoint, bc_bucket = bucket,
         bc_access_key_id = key_id, bc_secret_key = secret\<rparr> in
     bindC (reachableC env candidate) (\<lambda>_.
     bindC (saveC env path (store_push (fst (store_remove st (bc_alias current))) (BucketEntry candidate))) (\<lambda>_.
     retC (''Updated '' @ quoted (bc_alias current) @ ''.'')))))))"

definition resolve_existing_alias :: "keyring_env \<Rightarrow> store \<Rightarrow> string option \<Rightarrow> string result" where
  "resolve_existing_alias env st alias = (case alias of
     Some a \<Rightarrow> if contains_alias st a then Inr a else Inl (Err (''no entry named '' @ quoted a))
   | None \<Rightarrow> bindE (prompt_select (ask_select (ke_ui env) ''Select an entry'' 0) st) (\<lambda>e. Inr (entry_alias e)))"

text \<open>\<open>store.find(&alias).unwrap()\<close> panics when there is no such entry.\<close>

definition modify_entry :: "keyring_env \<Rightarrow> string option \<Rightarrow> string command" where
  "modify_entry env alias_arg =
     bindC (open_store env) (\<lambda>(path, st).
     bindC (liftC (resolve_existing_alias env st alias_arg)) (\<lambda>alias.
     case store_find st alias of
       None \<Rightarrow> liftC (Inl Panic)
     | Some (EmailEntry i) \<Rightarrow> modify_email env st path i
     | Some (BucketEntry b) \<Rightarrow> modify_bucket env st path b))"

definition delete_entry :: "keyring_env \<Rightarrow> string \<Rightarrow> string command" where
  "delete_entry env alias =
     bindC (open_store env) (\<lambda>(path, st).
     if \<not> contains_alias st alias then failC (''no entry named '' @ quoted alias)
     else bindC (liftC (confirm (ke_ui env) (''Remove '' @ quoted alias @ ''?'') False)) (\<lambda>yes.
     if \<not> yes then retC ''Cancelled.''
     else bindC (saveC env path (fst (store_remove st alias))) (\<lambda>_.
       retC (''Removed '' @ quoted alias @ ''.''))))"

text \<open>\<open>print_table\<close>: the widest cell of a column in bytes, a panic when a row is longer than the
  header; \<open>{:width$}\<close> pads by characters, and trailing white space is cut.\<close>

fun row_widths :: "nat list \<Rightarrow> string list \<Rightarrow> nat list result" where
  "row_widths ws [] = Inr ws"
| "row_widths [] (cell # cells) = Inl Panic"
| "row_widths (w # ws) (cell # cells) = bindE (row_widths ws cells) (\<lambda>vs. Inr (max w (length cell) # vs))"

fun table_widths :: "nat list \<Rightarrow> string list list \<Rightarrow> nat list result" where
  "table_widths ws [] = Inr ws"
| "table_widths ws (row # rows) = bindE (row_widths ws row) (\<lambda>vs. table_widths vs rows)"

definition pad_cell :: "nat \<times> string \<Rightarrow> string" where
  "pad_cell = (\<lambda>(width, cell). cell @ replicate (width - length (chars cell)) (CHR '' ''))"

definition format_table_row :: "nat list \<Rightarrow> string list \<Rightarrow> string" where
  "format_table_row widths cells = trim_end (join ''  '' (map pad_cell (zip widths cells)))"

definition print_table :: "string list \<Rightarrow> string list list \<Rightarrow> string list result" where
  "print_table headers rows =
     bindE (table_widths (map length headers) rows) (\<lambda>widths.
       Inr (map (format_table_row widths) (headers # rows)))"

definition list_rows :: "store \<Rightarrow> string list list" where
  "list_rows st = map (\<lambda>e. [entry_kind e, entry_alias e, entry_detail e]) (st_entries st)"

definition list_entries :: "keyring_env \<Rightarrow> string command" where
  "list_entries env = bindC (open_store env) (\<lambda>(path, st).
     if st_entries st = [] then retC ''No keyring entries configured.''
     else bindC (liftC (print_table [''KIND'', ''ALIAS'', ''DETAIL''] (list_rows st))) (\<lambda>ls. retC (join [NL] ls)))"

definition FAILURE_EXIT_CODE :: int where "FAILURE_EXIT_CODE = 1"

definition exit_code :: "'a result \<Rightarrow> int" where
  "exit_code r = (case r of Inl Panic \<Rightarrow> 101 | Inl (Err _) \<Rightarrow> FAILURE_EXIT_CODE | Inr _ \<Rightarrow> 0)"

datatype keyring_command = CmdAdd "add_kind option" | CmdModify "string option" | CmdDelete string | CmdList

definition keyring_dispatch :: "keyring_env \<Rightarrow> keyring_command \<Rightarrow> string command" where
  "keyring_dispatch env c = (case c of
     CmdAdd kind \<Rightarrow> add_entry env kind
   | CmdModify alias \<Rightarrow> modify_entry env alias
   | CmdDelete alias \<Rightarrow> delete_entry env alias
   | CmdList \<Rightarrow> list_entries env)"

section \<open>Reasoning about commands\<close>

text \<open>A command that succeeds, step by step; these equations take the handlers apart.\<close>

lemma bindC_Inr: "bindC m f w = (w', Inr y) \<longleftrightarrow> (\<exists>u x. m w = (u, Inr x) \<and> f x u = (w', Inr y))"
  by (auto simp: bindC_def split: prod.splits sum.splits)

lemma liftC_Inr: "liftC r w = (w', Inr y) \<longleftrightarrow> w' = w \<and> r = Inr y"
  by (auto simp: liftC_def)

lemma retC_Inr: "retC x w = (w', Inr y) \<longleftrightarrow> w' = w \<and> y = x"
  by (auto simp: retC_def)

lemma failC_Inr: "failC msg w = (w', Inr y) \<longleftrightarrow> False"
  by (simp add: failC_def)

lemma open_store_Inr: "open_store env w = (w', Inr (path, s)) \<longleftrightarrow>
    w' = w \<and> ke_path env = Inr path \<and> store_load (ke_parse env) path (w_keyring w) = Inr s"
  by (auto simp: open_store_def bindC_Inr liftC_Inr retC_Inr loadC_def)

lemma reachableC_Inr: "reachableC env b w = (w', Inr u) \<longleftrightarrow>
    snd (check_bucket_reachable (ke_probe env) b (w_probe w)) = Inr () \<and>
    w' = w\<lparr>w_probe := fst (check_bucket_reachable (ke_probe env) b (w_probe w))\<rparr>"
  by (auto simp: reachableC_def split: prod.splits sum.splits fault.splits)

lemma saveC_Inr: "saveC env path s w = (w', Inr u) \<longleftrightarrow>
    store_save (ke_print env) (ke_write env) path s (w_keyring w) = (w_keyring w', Inr ()) \<and>
    w' = w\<lparr>w_keyring := w_keyring w'\<rparr>"
  by (auto simp: saveC_def split: prod.splits)

lemmas command_simps = bindC_Inr liftC_Inr retC_Inr failC_Inr open_store_Inr reachableC_Inr saveC_Inr

text \<open>What an entry is worth: it was checked against its server with exactly the stored fields.\<close>

definition verified :: "keyring_env \<Rightarrow> entry \<Rightarrow> bool" where
  "verified env e = (case e of
     EmailEntry i \<Rightarrow> verify_identity env (id_host i) (id_port i) (id_email i) (id_secret i)
                       (identity_security i) (id_provider i) = Inr ()
   | BucketEntry b \<Rightarrow> \<exists>probe. snd (check_bucket_reachable (ke_probe env) b probe) = Inr ())"

lemma stored_security_effective:
  "identity_security \<lparr>id_alias = a, id_email = e, id_provider = p, id_host = h, id_port = n, id_secret = s,
     id_max_connections = c, id_security = stored_security p n chosen\<rparr> = chosen"
  by (simp add: identity_security_def stored_security_def)

text \<open>The abstract keyring is a map from aliases to entries. Adding binds a fresh alias to a verified
  entry, modifying rebinds a bound alias to a verified entry of the same kind, deleting unbinds one,
  listing changes nothing.\<close>

definition keyring_spec ::
  "keyring_env \<Rightarrow> keyring_command \<Rightarrow> (string \<rightharpoonup> entry) \<Rightarrow> (string \<rightharpoonup> entry) \<Rightarrow> bool" where
  "keyring_spec env c m m' = (case c of
     CmdAdd _ \<Rightarrow> \<exists>e. m (entry_alias e) = None \<and> verified env e \<and> m' = m(entry_alias e \<mapsto> e)
   | CmdModify a \<Rightarrow> \<exists>e old. m (entry_alias e) = Some old \<and> entry_kind old = entry_kind e \<and>
       (case a of Some n \<Rightarrow> entry_alias e = n | None \<Rightarrow> True) \<and> verified env e \<and> m' = m(entry_alias e \<mapsto> e)
   | CmdDelete a \<Rightarrow> m a \<noteq> None \<and> (m' = m(a := None) \<or> m' = m)
   | CmdList \<Rightarrow> m' = m)"

text \<open>What a successful handler did: it read a store, computed a new one and saved that.\<close>

definition saves :: "keyring_env \<Rightarrow> world \<Rightarrow> world \<Rightarrow> (store \<Rightarrow> store \<Rightarrow> bool) \<Rightarrow> bool" where
  "saves env w w' P \<longleftrightarrow> (\<exists>path s s'. ke_path env = Inr path \<and>
     store_load (ke_parse env) path (w_keyring w) = Inr s \<and>
     store_save (ke_print env) (ke_write env) path s' (w_keyring w) = (w_keyring w', Inr ()) \<and> P s s')"

lemma saves_mono: "saves env w w' P \<Longrightarrow> (\<And>s s'. P s s' \<Longrightarrow> Q s s') \<Longrightarrow> saves env w w' Q"
  unfolding saves_def by blast

lemma savesI:
  "store_save (ke_print env) (ke_write env) path s' (w_keyring w) = (w_keyring w', Inr ()) \<Longrightarrow>
   ke_path env = Inr path \<Longrightarrow> store_load (ke_parse env) path (w_keyring w) = Inr s \<Longrightarrow> P s s' \<Longrightarrow>
   saves env w w' P"
  by (auto simp: saves_def)

definition adds :: "keyring_env \<Rightarrow> store \<Rightarrow> store \<Rightarrow> bool" where
  "adds env s s' \<longleftrightarrow> (\<exists>e. \<not> contains_alias s (entry_alias e) \<and> verified env e \<and> s' = store_push s e)"

lemma addsI: "verified env e \<Longrightarrow> \<not> contains_alias s (entry_alias e) \<Longrightarrow> adds env s (store_push s e)"
  by (auto simp: adds_def)

definition replaces :: "keyring_env \<Rightarrow> entry \<Rightarrow> store \<Rightarrow> store \<Rightarrow> bool" where
  "replaces env old s s' \<longleftrightarrow> (\<exists>e. entry_alias e = entry_alias old \<and> entry_kind e = entry_kind old \<and>
     verified env e \<and> s' = store_push (fst (store_remove s (entry_alias e))) e)"

lemma replacesI:
  "verified env e \<Longrightarrow> entry_alias e = a \<Longrightarrow> entry_alias old = a \<Longrightarrow> entry_kind e = entry_kind old \<Longrightarrow>
     replaces env old s (store_push (fst (store_remove s a)) e)"
  by (auto simp: replaces_def)

lemma verified_simps:
  "verified env (EmailEntry i) \<longleftrightarrow> verify_identity env (id_host i) (id_port i) (id_email i) (id_secret i)
                       (identity_security i) (id_provider i) = Inr ()"
  "snd (check_bucket_reachable (ke_probe env) b probe) = Inr () \<Longrightarrow> verified env (BucketEntry b)"
  by (auto simp: verified_def)

lemma add_email_saves:
  "add_email env em al pr ho po se w = (w', Inr msg) \<Longrightarrow> saves env w w' (adds env)"
  unfolding add_email_def
  by (clarsimp simp: command_simps Let_def split: prod.splits if_splits)
    (rule savesI, assumption, assumption, assumption, rule addsI,
      simp_all add: verified_simps stored_security_effective)

lemma add_bucket_saves:
  "add_bucket env al w = (w', Inr msg) \<Longrightarrow> saves env w w' (adds env)"
  unfolding add_bucket_def
  by (clarsimp simp: command_simps Let_def split: prod.splits if_splits)
    (rule savesI, simp, assumption, assumption, rule addsI, simp_all add: verified_simps)

text \<open>The two modify handlers start from a loaded store, and the world they see may already differ
  from the loaded one only in the probe file.\<close>

lemma modify_email_saves:
  assumes "modify_email env s path i w = (w', Inr msg)" and "ke_path env = Inr path"
    and "store_load (ke_parse env) path (w_keyring w) = Inr s"
  shows "saves env w w' (\<lambda>t t'. t = s \<and> replaces env (EmailEntry i) t t')"
  using assms unfolding modify_email_def
  by (clarsimp simp: command_simps Let_def split: prod.splits if_splits)
    (rule savesI, assumption, assumption, assumption, intro conjI refl, rule replacesI,
      simp_all add: verified_simps stored_security_effective)

lemma modify_bucket_saves:
  assumes "modify_bucket env s path b w = (w', Inr msg)" and "ke_path env = Inr path"
    and "store_load (ke_parse env) path (w_keyring w) = Inr s"
  shows "saves env w w' (\<lambda>t t'. t = s \<and> replaces env (BucketEntry b) t t')"
  using assms unfolding modify_bucket_def
  by (clarsimp simp: command_simps Let_def split: prod.splits if_splits)
    (rule savesI, simp, assumption, assumption, intro conjI refl, rule replacesI, simp_all add: verified_simps)

lemma modify_entry_saves:
  "modify_entry env al w = (w', Inr msg) \<Longrightarrow>
   saves env w w' (\<lambda>t t'. \<exists>a old. store_find t a = Some old \<and> (\<forall>n. al = Some n \<longrightarrow> a = n) \<and> replaces env old t t')"
proof -
  assume "modify_entry env al w = (w', Inr msg)"
  then obtain path s a where s: "ke_path env = Inr path" "store_load (ke_parse env) path (w_keyring w) = Inr s"
    "resolve_existing_alias env s al = Inr a"
    and m: "(case store_find s a of None \<Rightarrow> liftC (Inl Panic) | Some (EmailEntry i) \<Rightarrow> modify_email env s path i
       | Some (BucketEntry b) \<Rightarrow> modify_bucket env s path b) w = (w', Inr msg)"
    by (auto simp: modify_entry_def command_simps)
  have a: "\<forall>n. al = Some n \<longrightarrow> a = n" using s(3) by (auto simp: resolve_existing_alias_def split: if_splits)
  obtain old where old: "store_find s a = Some old"
    using m by (cases "store_find s a") (auto simp: liftC_Inr)
  show ?thesis
  proof (cases old)
    case (EmailEntry i)
    then have "modify_email env s path i w = (w', Inr msg)" using m old by simp
    from modify_email_saves [OF this s(1,2)] show ?thesis
      by (rule saves_mono) (use a old EmailEntry in blast)
  next
    case (BucketEntry b)
    then have "modify_bucket env s path b w = (w', Inr msg)" using m old by simp
    from modify_bucket_saves [OF this s(1,2)] show ?thesis
      by (rule saves_mono) (use a old BucketEntry in blast)
  qed
qed

lemma delete_entry_saves:
  "delete_entry env a w = (w', Inr msg) \<Longrightarrow>
     w' = w \<and> (\<exists>path s. ke_path env = Inr path \<and> store_load (ke_parse env) path (w_keyring w) = Inr s \<and> contains_alias s a) \<or>
     saves env w w' (\<lambda>s s'. contains_alias s a \<and> s' = fst (store_remove s a))"
  unfolding delete_entry_def
  by (clarsimp simp: command_simps saves_def split: prod.splits if_splits)

text \<open>A failing command: without a fault of the final write or chmod, the keyring file is as before.\<close>

text \<open>Steps that never touch the keyring file compose.\<close>

definition reads :: "'a command \<Rightarrow> bool" where
  "reads m \<longleftrightarrow> (\<forall>w. w_keyring (fst (m w)) = w_keyring w)"

definition aborts_clean :: "'a command \<Rightarrow> bool" where
  "aborts_clean m \<longleftrightarrow> (\<forall>w w' e. m w = (w', Inl e) \<longrightarrow> w_keyring w' = w_keyring w)"

named_theorems command_frame

lemma reads_steps [command_frame]: "reads (liftC r)" "reads (retC x)" "reads (failC msg)" "reads (open_store env)"
  "reads (reachableC env b)"
  by (auto simp: reads_def liftC_def retC_def failC_def open_store_def bindC_def loadC_def reachableC_def
      split: prod.splits sum.splits)

lemma aborts_clean_reads [command_frame]: "reads m \<Longrightarrow> aborts_clean m"
  by (auto simp: reads_def aborts_clean_def) (metis fst_conv)

lemma aborts_clean_bind [command_frame]:
  "reads m \<Longrightarrow> (\<And>x. aborts_clean (f x)) \<Longrightarrow> aborts_clean (bindC m f)"
  by (auto simp: reads_def aborts_clean_def bindC_def split: prod.splits sum.splits) (metis fst_conv)+

lemma aborts_clean_save [command_frame]:
  assumes "write_fault (ke_write env) = None" and "chmod_fault (ke_write env) = None"
  shows "aborts_clean (bindC (saveC env path s) (\<lambda>u. retC x))"
  using assms
  by (auto simp: aborts_clean_def bindC_def saveC_def retC_def store_save_def
      split: prod.splits sum.splits dest: write_secret_file_untouched)

lemma aborts_clean_cases [command_frame]:
  "(b \<Longrightarrow> aborts_clean m) \<Longrightarrow> (\<not> b \<Longrightarrow> aborts_clean n) \<Longrightarrow> aborts_clean (if b then m else n)"
  "(\<And>x. aborts_clean (f x)) \<Longrightarrow> aborts_clean n \<Longrightarrow> aborts_clean (case o1 of None \<Rightarrow> n | Some x \<Rightarrow> f x)"
  "(\<And>x y. aborts_clean (g x y)) \<Longrightarrow> aborts_clean (case p of (x, y) \<Rightarrow> g x y)"
  "(\<And>i. aborts_clean (h i)) \<Longrightarrow> (\<And>b. aborts_clean (k b)) \<Longrightarrow>
     aborts_clean (case en of EmailEntry i \<Rightarrow> h i | BucketEntry b \<Rightarrow> k b)"
  by (auto split: option.splits prod.splits entry.splits)

lemma handlers_abort_clean:
  assumes "write_fault (ke_write env) = None" and "chmod_fault (ke_write env) = None"
  shows "aborts_clean (add_email env em al pr ho po se)" "aborts_clean (add_bucket env al)"
    "aborts_clean (modify_email env s path i)" "aborts_clean (modify_bucket env s path b)"
    "aborts_clean (delete_entry env a)" "aborts_clean (list_entries env)"
  unfolding add_email_def add_bucket_def modify_email_def modify_bucket_def delete_entry_def list_entries_def Let_def
  by (intro command_frame assms)+

lemma dispatch_aborts_clean:
  assumes "write_fault (ke_write env) = None" and "chmod_fault (ke_write env) = None"
  shows "aborts_clean (keyring_dispatch env c)"
proof (cases c)
  case (CmdAdd k)
  then show ?thesis using handlers_abort_clean [OF assms]
    by (auto simp: keyring_dispatch_def add_entry_def intro: command_frame
        split: option.splits add_kind.splits sum.splits)
next
  case (CmdModify a)
  have "aborts_clean (modify_entry env a)"
    unfolding modify_entry_def by (intro command_frame handlers_abort_clean assms)
  then show ?thesis using CmdModify by (simp add: keyring_dispatch_def)
qed (simp_all add: keyring_dispatch_def handlers_abort_clean [OF assms])

section \<open>Refinement\<close>

text \<open>What is relied on of TOML: text printed from entries parses to those entries.\<close>

definition toml_round_trip :: "keyring_env \<Rightarrow> bool" where
  "toml_round_trip env \<longleftrightarrow> (\<forall>es tx. ke_print env es = Inr tx \<longrightarrow> ke_parse env tx = Inr es)"

lemma saves_load:
  assumes "saves env w w' P" and "toml_round_trip env" and "ke_path env = Inr path"
    and "store_load (ke_parse env) path (w_keyring w) = Inr s"
  shows "\<exists>s'. store_load (ke_parse env) path (w_keyring w') = Inr s' \<and> P s s'"
proof -
  obtain s' where s': "store_save (ke_print env) (ke_write env) path s' (w_keyring w) = (w_keyring w', Inr ())" "P s s'"
    using assms(1,3,4) by (auto simp: saves_def)
  then have "store_load (ke_parse env) path (w_keyring w') = Inr s'"
    using assms(2) by (auto simp: store_save_def write_secret_file_ok store_load_def toml_round_trip_def split: sum.splits)
  then show ?thesis using s'(2) by blast
qed

lemma adds_spec:
  "unique_aliases s \<Longrightarrow> adds env s s' \<Longrightarrow> unique_aliases s' \<and> keyring_spec env (CmdAdd k) (store_find s) (store_find s')"
  by (auto simp: adds_def keyring_spec_def contains_alias_iff st.map_add st.inv_add)

lemma replaces_spec:
  assumes "unique_aliases s" and "store_find s a = Some old" and "\<forall>n. al = Some n \<longrightarrow> a = n"
    and "replaces env old s s'"
  shows "unique_aliases s' \<and> keyring_spec env (CmdModify al) (store_find s) (store_find s')"
proof -
  obtain e where e: "entry_alias e = entry_alias old" "entry_kind e = entry_kind old" "verified env e"
    "s' = store_push (fst (store_remove s (entry_alias e))) e"
    using assms(4) by (auto simp: replaces_def)
  moreover have "entry_alias old = a" using assms(2) store_find_alias by blast
  ultimately show ?thesis
    using assms(1,2,3) st.map_replace [of s e] st.inv_replace [of s e]
    by (cases al) (simp_all add: keyring_spec_def, (rule exI [of _ e], simp)+)
qed

lemma list_entries_reads: "list_entries env w = (w', Inr msg) \<Longrightarrow> w' = w \<and> (\<exists>path s. ke_path env = Inr path \<and>
    store_load (ke_parse env) path (w_keyring w) = Inr s)"
  by (auto simp: list_entries_def command_simps split: if_splits)

lemma dispatch_refines:
  assumes "keyring_dispatch env c w = (w', Inr msg)" and "toml_round_trip env"
    and "ke_path env = Inr path" and "store_load (ke_parse env) path (w_keyring w) = Inr s" and "unique_aliases s"
  shows "\<exists>s'. store_load (ke_parse env) path (w_keyring w') = Inr s' \<and> unique_aliases s' \<and>
    keyring_spec env c (store_find s) (store_find s')"
proof (cases c)
  case (CmdAdd k)
  then have "saves env w w' (adds env)"
    using assms(1) add_email_saves add_bucket_saves
    by (auto simp: keyring_dispatch_def add_entry_def failC_def split: option.splits add_kind.splits sum.splits if_splits)
  from saves_load [OF this assms(2-4)] show ?thesis using adds_spec [OF assms(5)] CmdAdd by blast
next
  case (CmdModify al)
  then have "modify_entry env al w = (w', Inr msg)" using assms(1) by (simp add: keyring_dispatch_def)
  from saves_load [OF modify_entry_saves [OF this] assms(2-4)] show ?thesis
    using replaces_spec [OF assms(5)] CmdModify by blast
next
  case (CmdDelete a)
  then have "delete_entry env a w = (w', Inr msg)" using assms(1) by (simp add: keyring_dispatch_def)
  from delete_entry_saves [OF this] show ?thesis
  proof
    assume "w' = w \<and> (\<exists>path s. ke_path env = Inr path \<and> store_load (ke_parse env) path (w_keyring w) = Inr s \<and> contains_alias s a)"
    then show ?thesis using assms(3-5) CmdDelete by (auto simp: keyring_spec_def contains_alias_iff)
  next
    assume "saves env w w' (\<lambda>s s'. contains_alias s a \<and> s' = fst (store_remove s a))"
    from saves_load [OF this assms(2-4)] show ?thesis
      using assms(5) CmdDelete st.map_del [of s a] st.inv_del [of s a]
      by (auto simp: keyring_spec_def contains_alias_iff)
  qed
next
  case CmdList
  then have "w' = w" using assms(1) list_entries_reads by (auto simp: keyring_dispatch_def)
  then show ?thesis using assms CmdList by (simp add: keyring_spec_def)
qed

section \<open>Properties\<close>

text \<open>C2. The keyring commands implement a map from aliases to entries. A command that succeeds leaves a
  file that loads again, with aliases still unique over both kinds: \<open>add\<close> binds a fresh alias,
  \<open>modify\<close> rebinds one bound alias to an entry of the same kind, \<open>delete\<close> unbinds the named alias
  or is cancelled, and every other entry stays what it was. Nothing is stored unverified: an email
  identity logged in with exactly the stored host, port, secret and effective security, a bucket
  answered a listing.\<close>

theorem keyring_commands_refine:
  assumes "keyring_dispatch env c w = (w', Inr msg)" and "toml_round_trip env"
    and "ke_path env = Inr path" and "store_load (ke_parse env) path (w_keyring w) = Inr s" and "unique_aliases s"
  shows "\<exists>s'. store_load (ke_parse env) path (w_keyring w') = Inr s' \<and> unique_aliases s' \<and>
    keyring_spec env c (store_find s) (store_find s')"
  using dispatch_refines [OF assms] .

definition demo_env :: keyring_env where
  "demo_env = \<lparr>ke_ui = \<lparr>is_terminal = False, ask_text = (\<lambda>_ _. Inl ''no''), ask_number = (\<lambda>_ _. Inl ''no''),
       ask_select = (\<lambda>_ _. Inl ''no''), ask_password = (\<lambda>_. Inl ''no''), ask_confirm = (\<lambda>_ _. Inl ''no''),
       stdin_line = (\<lambda>_. Inr ''yes'')\<rparr>,
     ke_path = Inr ''/c/keyring.toml'',
     ke_parse = (\<lambda>tx. if tx = ''one'' then Inr [BucketEntry one_bucket] else if tx = [] then Inr [] else Inl ''bad''),
     ke_print = (\<lambda>es. if es = [BucketEntry one_bucket] then Inr ''one'' else if es = [] then Inr [] else Inl ''no''),
     ke_write = \<lparr>mkdir_fault = None, write_fault = None, chmod_fault = None, create_mode = 420\<rparr>,
     ke_runtime = Inr (), ke_net = stripping_server, ke_timeout = None,
     ke_probe = \<lparr>pe_runtime = Inr (), pe_available = Inr (), pe_config_path = Inr ''/c/rclone.conf'', pe_pid = 7,
       pe_vars = (\<lambda>_. None), pe_write = \<lparr>mkdir_fault = None, write_fault = None, chmod_fault = None, create_mode = 420\<rparr>,
       pe_lsjson = (\<lambda>_. Inr ()), pe_remove_works = True\<rparr>\<rparr>"

definition demo_world :: world where
  "demo_world = \<lparr>w_keyring = TextFile ''one'' 384, w_probe = NoFile\<rparr>"

lemma demo_delete:
  "keyring_dispatch demo_env (CmdDelete ''b'') demo_world =
     (\<lparr>w_keyring = TextFile [] owner_only, w_probe = NoFile\<rparr>, Inr (''Removed '' @ quoted ''b'' @ ''.''))"
  by (simp add: keyring_dispatch_def delete_entry_def demo_env_def demo_world_def open_store_def bindC_def liftC_def
      loadC_def retC_def failC_def saveC_def store_load_def contains_alias_def one_bucket_def confirm_def map_err_def
      confirm_answer_def trim_id visible_def ws1_def to_lower_def lower_char_def is_upper_def store_remove_def
      store_save_def write_secret_file_def Let_def split: option.splits)

lemma demo_round_trip: "toml_round_trip demo_env"
  by (auto simp: toml_round_trip_def demo_env_def split: if_splits)

theorem keyring_commands_refine_witness:
  "\<exists>s'. store_load (ke_parse demo_env) ''/c/keyring.toml''
        (w_keyring (fst (keyring_dispatch demo_env (CmdDelete ''b'') demo_world))) = Inr s' \<and>
     unique_aliases s' \<and> keyring_spec demo_env (CmdDelete ''b'')
        (store_find \<lparr>st_entries = [BucketEntry one_bucket]\<rparr>) (store_find s')"
proof -
  have "ke_path demo_env = Inr ''/c/keyring.toml''"
    and "store_load (ke_parse demo_env) ''/c/keyring.toml'' (w_keyring demo_world) =
      Inr \<lparr>st_entries = [BucketEntry one_bucket]\<rparr>"
    by (simp_all add: demo_env_def demo_world_def store_load_def)
  from keyring_commands_refine [OF demo_delete demo_round_trip this] show ?thesis
    by (simp add: demo_delete unique_aliases_def)
qed

text \<open>C5. A keyring command that fails, for whatever reason before or while saving, leaves the keyring
  file exactly as it was; the only exceptions are a write that fails half way and a failing chmod.\<close>

theorem keyring_failure_keeps_file:
  assumes "keyring_dispatch env c w = (w', r)" and "exit_code r \<noteq> 0"
    and "write_fault (ke_write env) = None" and "chmod_fault (ke_write env) = None"
  shows "w_keyring w' = w_keyring w"
proof -
  obtain e where "r = Inl e" using assms(2) by (auto simp: exit_code_def split: sum.splits)
  then show ?thesis
    using dispatch_aborts_clean [OF assms(3,4), of c] assms(1) by (auto simp: aborts_clean_def)
qed

theorem keyring_failure_keeps_file_witness:
  "exit_code (snd (keyring_dispatch demo_env (CmdDelete ''x'') demo_world)) = 1 \<and>
   w_keyring (fst (keyring_dispatch demo_env (CmdDelete ''x'') demo_world)) = TextFile ''one'' 384"
proof -
  let ?d = "keyring_dispatch demo_env (CmdDelete ''x'') demo_world"
  have d: "snd ?d = Inl (Err (''no entry named '' @ quoted ''x''))"
    by (simp add: keyring_dispatch_def delete_entry_def demo_env_def demo_world_def open_store_def bindC_def liftC_def
      loadC_def retC_def failC_def store_load_def contains_alias_def one_bucket_def)
  have "exit_code (snd ?d) \<noteq> 0" unfolding d by (simp add: exit_code_def FAILURE_EXIT_CODE_def)
  moreover have "write_fault (ke_write demo_env) = None" "chmod_fault (ke_write demo_env) = None"
    by (simp_all add: demo_env_def)
  ultimately have "w_keyring (fst ?d) = w_keyring demo_world"
    using keyring_failure_keeps_file [of demo_env "CmdDelete ''x''" demo_world "fst ?d" "snd ?d"] by simp
  then show ?thesis using d by (simp add: exit_code_def FAILURE_EXIT_CODE_def demo_world_def)
qed

text \<open>A probe configuration whose permissions cannot be restricted is not removed: the early return
  skips the removal, and the candidate's secret stays on disk with the mode the file was created with.\<close>

lemma probe_left_behind:
  assumes "pe_runtime pe = Inr ()" and "pe_available pe = Inr ()"
    and "bindE (pe_config_path pe) (probe_config_path_beside (pe_pid pe)) = Inr path"
    and "write_fault (pe_write pe) = None" and "mkdir_fault (pe_write pe) = None"
    and "chmod_fault (pe_write pe) = Some err"
  shows "\<exists>tx. fst (check_bucket_reachable pe b NoFile) = TextFile tx (create_mode (pe_write pe)) \<and>
    tx = write_rows id (section_lines (pe_vars pe) b)"
proof -
  have bc: "bucket_configs (store_push empty_store (BucketEntry b)) = [b]"
    by (simp add: bucket_configs_def store_push_def empty_store_def)
  have "\<not> contains_alias (store_push empty_store (BucketEntry b)) (backend_section_name (bc_alias b))"
    using backend_not_self [of "bc_alias b", symmetric] by (simp add: contains_alias_def store_push_def empty_store_def del: backend_not_self)
  then show ?thesis
    using assms
    by (simp add: check_bucket_reachable_def write_probe_config_def write_sandboxed_config_def bc
        write_secret_file_def map_err_def mode_of_def split: option.splits)
qed

end
