(* ===== verification/Lzo1x.thy ===== *)
theory Lzo1x
  imports Prelude "HOL-Library.Word"
begin

text \<open>
  \<open>src/src/commands/job/transform/lzo1x.rs\<close>: the LZO1X decompressor for Procreate's tile
  chunks. The decoder's fields are those of the source; every method takes the decoder and
  returns it updated, or a fault. An index out of range is a panic (\<open>idx\<close>), so the safety theorem
  below is about the bounds checks the source makes and not about HOL's total list functions.
\<close>

type_synonym u8 = "8 word"

definition M2_MAX_OFFSET :: nat where "M2_MAX_OFFSET = 0x0800"

record decoder =
  d_src :: "u8 list"
  d_ip :: nat
  d_out :: "u8 list"
  d_max_len :: nat

definition next_byte :: "decoder \<Rightarrow> (nat \<times> decoder) result" where
  "next_byte d =
     (if d_ip d < length (d_src d) then Inr (unat (d_src d ! d_ip d), d\<lparr>d_ip := d_ip d + 1\<rparr>)
      else Inl (Err ''lzo: input ended mid-instruction''))"

definition le16 :: "decoder \<Rightarrow> (nat \<times> decoder) result" where
  "le16 d = bindE (next_byte d) (\<lambda>(lo, d1).
            bindE (next_byte d1) (\<lambda>(hi, d2). Inr (or lo (push_bit 8 hi), d2)))"

function count_zeros :: "decoder \<Rightarrow> nat \<Rightarrow> (nat \<times> decoder) result" where
  "count_zeros d zeros = bindE (next_byte d) (\<lambda>(b, d').
     if b = 0 then count_zeros d' (zeros + 1) else Inr (zeros, d'))"
  by pat_completeness auto
termination
  by (relation "measure (\<lambda>(d, zeros). length (d_src d) - d_ip d)")
     (auto simp: next_byte_def split: if_splits)

declare count_zeros.simps [simp del]

definition zero_run :: "decoder \<Rightarrow> nat \<Rightarrow> (nat \<times> decoder) result" where
  "zero_run d base = bindE (count_zeros d 0) (\<lambda>(zeros, d').
     bindE (idx (d_src d') (d_ip d' - 1)) (\<lambda>last_byte.
       case Option.bind (checked_mul zeros 255) (\<lambda>v. checked_add v (base + unat last_byte)) of
         None \<Rightarrow> Inl (Err ''lzo: length overflow'')
       | Some n \<Rightarrow> Inr (n, d')))"

definition room :: "decoder \<Rightarrow> nat \<Rightarrow> unit result" where
  "room d n =
     (if length (d_out d) + n > d_max_len d
      then Inl (Err (''lzo: output would exceed the expected '' @ dec (d_max_len d) @ '' bytes''))
      else Inr ())"

definition literals :: "decoder \<Rightarrow> nat \<Rightarrow> decoder result" where
  "literals d n =
     bindE (ok_or (checked_add (d_ip d) n) ''lzo: length overflow'') (\<lambda>end_pos.
     bindE (if end_pos \<le> length (d_src d) then Inr (take n (drop (d_ip d) (d_src d)))
            else Inl (Err ''lzo: literal run past the end of the input'')) (\<lambda>run.
     bindE (room d n) (\<lambda>_.
       Inr (d\<lparr>d_out := d_out d @ run, d_ip := end_pos\<rparr>))))"

text \<open>The byte-by-byte copy loop: \<open>pos\<close> is \<open>start + index\<close>.\<close>

fun copy_back :: "nat \<Rightarrow> nat \<Rightarrow> u8 list \<Rightarrow> u8 list result" where
  "copy_back pos 0 out = Inr out"
| "copy_back pos (Suc n) out =
     bindE (idx out pos) (\<lambda>v. copy_back (pos + 1) n (out @ [v]))"

definition back_reference :: "decoder \<Rightarrow> nat \<Rightarrow> nat \<Rightarrow> decoder result" where
  "back_reference d distance n =
     bindE (ok_or (checked_sub (length (d_out d)) distance)
              ''lzo: back-reference before the start of the output'') (\<lambda>start.
     bindE (room d n) (\<lambda>_.
     bindE (copy_back start n (d_out d)) (\<lambda>out. Inr (d\<lparr>d_out := out\<rparr>))))"

text \<open>One iteration of the main loop: \<open>Done\<close> at the end-of-stream marker, \<open>More\<close> otherwise.\<close>

datatype lzo_step = Done "u8 list" | More decoder nat

definition finish_match :: "decoder \<Rightarrow> nat \<Rightarrow> nat \<Rightarrow> nat \<Rightarrow> lzo_step result" where
  "finish_match d distance len nxt =
     bindE (back_reference d distance len) (\<lambda>d1.
     bindE (literals d1 nxt) (\<lambda>d2. Inr (More d2 nxt)))"

definition lzo_step :: "decoder \<Rightarrow> nat \<Rightarrow> lzo_step result" where
  "lzo_step d0 state = bindE (next_byte d0) (\<lambda>(t, d).
     if t < 16 then
       if state = 0 then
         bindE (if t = 0 then zero_run d 15 else Inr (t, d)) (\<lambda>(r, d1).
         bindE (literals d1 (r + 3)) (\<lambda>d2. Inr (More d2 4)))
       else if state \<noteq> 4 then
         bindE (next_byte d) (\<lambda>(b, d1).
           finish_match d1 (1 + drop_bit 2 t + push_bit 2 b) 2 (and t 3))
       else
         bindE (next_byte d) (\<lambda>(b, d1).
           finish_match d1 (1 + M2_MAX_OFFSET + drop_bit 2 t + push_bit 2 b) 3 (and t 3))
     else if t \<ge> 64 then
       bindE (next_byte d) (\<lambda>(b, d1).
         finish_match d1 (1 + and (drop_bit 2 t) 7 + push_bit 3 b) (drop_bit 5 t + 1) (and t 3))
     else if t \<ge> 32 then
       bindE (if and t 31 + 2 = 2 then bindE (zero_run d 31) (\<lambda>(z, d1). Inr (z + 2, d1))
              else Inr (and t 31 + 2, d)) (\<lambda>(n, d1).
       bindE (le16 d1) (\<lambda>(v, d2).
         finish_match d2 (1 + drop_bit 2 v) n (and v 3)))
     else
       bindE (if and t 7 + 2 = 2 then bindE (zero_run d 7) (\<lambda>(z, d1). Inr (z + 2, d1))
              else Inr (and t 7 + 2, d)) (\<lambda>(n, d1).
       bindE (le16 d1) (\<lambda>(v, d2).
         let far = push_bit 11 (and t 8) + drop_bit 2 v in
         if far = 0 then Inr (Done (d_out d2))
         else finish_match d2 (far + 0x4000) n (and v 3))))"

section \<open>Progress of the decoder, and termination of the loop\<close>

text \<open>What every decoder method keeps: the input and the limit, and the position only grows.\<close>

definition advances :: "decoder \<Rightarrow> decoder \<Rightarrow> bool" where
  "advances d d' \<longleftrightarrow> d_src d' = d_src d \<and> d_max_len d' = d_max_len d \<and> d_ip d \<le> d_ip d'"

named_theorems lzo_adv \<open>the decoder methods advance\<close>

lemma advances_refl [simp]: "advances d d"
  by (simp add: advances_def)

lemma advances_trans: "advances a b \<Longrightarrow> advances b c \<Longrightarrow> advances a c"
  by (auto simp: advances_def)

lemma next_byte_adv [lzo_adv]: "next_byte d = Inr (b, d') \<Longrightarrow> advances d d'"
  by (auto simp: next_byte_def advances_def split: if_splits)

lemma next_byte_Inr:
  "next_byte d = Inr (b, d') \<longleftrightarrow>
     d_ip d < length (d_src d) \<and> b = unat (d_src d ! d_ip d) \<and> d' = d\<lparr>d_ip := d_ip d + 1\<rparr>"
  by (auto simp: next_byte_def)

lemma le16_adv [lzo_adv]: "le16 d = Inr (v, d') \<Longrightarrow> advances d d'"
  by (auto simp: le16_def bindE_Inr_iff next_byte_Inr advances_def)

lemma count_zeros_adv:
  "count_zeros d z = Inr (n, d') \<Longrightarrow> advances d d' \<and> d_out d' = d_out d \<and> 0 < d_ip d' \<and>
     d_ip d' \<le> length (d_src d)"
proof (induction d z rule: count_zeros.induct)
  case (1 d z)
  from "1.prems" obtain b d1 where b: "next_byte d = Inr (b, d1)"
    by (subst (asm) count_zeros.simps) (auto simp: bindE_Inr_iff)
  then have d1: "advances d d1" "d_out d1 = d_out d" "d_ip d1 = d_ip d + 1" "d_ip d < length (d_src d)"
    by (auto simp: next_byte_Inr advances_def)
  show ?case
  proof (cases "b = 0")
    case True
    then have "count_zeros d1 (z + 1) = Inr (n, d')"
      using "1.prems" b by (subst (asm) count_zeros.simps) simp
    with "1.IH" [OF b refl True] d1 show ?thesis by (auto simp: advances_def)
  next
    case False
    then have "d' = d1"
      using "1.prems" b by (subst (asm) count_zeros.simps) simp
    with d1 show ?thesis by simp
  qed
qed

lemma zero_run_adv [lzo_adv]: "zero_run d base = Inr (n, d') \<Longrightarrow> advances d d'"
  by (auto simp: zero_run_def bindE_Inr_iff split: option.splits dest: count_zeros_adv)

lemma literals_adv [lzo_adv]: "literals d n = Inr d' \<Longrightarrow> advances d d'"
  by (auto simp: literals_def bindE_Inr_iff ok_or_def checked_add_def advances_def
        split: option.splits if_splits)

lemma back_reference_adv [lzo_adv]: "back_reference d dist n = Inr d' \<Longrightarrow> advances d d'"
  by (auto simp: back_reference_def bindE_Inr_iff advances_def)

lemma finish_match_adv [lzo_adv]: "finish_match d dist n nxt = Inr (More d' s) \<Longrightarrow> advances d d'"
  by (auto simp: finish_match_def bindE_Inr_iff dest: lzo_adv intro: advances_trans)

lemma lzo_step_adv:
  assumes "lzo_step d st = Inr (More d' st')"
  shows "d_src d' = d_src d \<and> d_max_len d' = d_max_len d \<and> d_ip d < d_ip d' \<and> d_ip d < length (d_src d)"
proof -
  from assms obtain t d0 where b: "next_byte d = Inr (t, d0)"
    by (auto simp: lzo_step_def bindE_Inr_iff)
  have "advances d0 d'"
    using assms b
    by (auto simp: lzo_step_def bindE_Inr_iff Let_def split: if_splits
        dest!: lzo_adv intro: advances_trans)
  with b show ?thesis by (auto simp: next_byte_Inr advances_def)
qed

function lzo_loop :: "decoder \<Rightarrow> nat \<Rightarrow> u8 list result" where
  "lzo_loop d st = bindE (lzo_step d st) (\<lambda>r. case r of
     Done out \<Rightarrow> Inr out | More d' st' \<Rightarrow> lzo_loop d' st')"
  by pat_completeness auto
termination
  by (relation "measure (\<lambda>(d, st). length (d_src d) - d_ip d)") (auto dest: lzo_step_adv)

declare lzo_loop.simps [simp del]

definition decompress :: "u8 list \<Rightarrow> nat \<Rightarrow> u8 list result" where
  "decompress src max_len =
     (let d = \<lparr>d_src = src, d_ip = 0, d_out = [], d_max_len = max_len\<rparr> in
      bindE (case src of [] \<Rightarrow> Inl (Err ''lzo: empty input'') | b # _ \<Rightarrow> Inr (unat b)) (\<lambda>first.
      bindE (if first > 17 then
               bindE (literals (d\<lparr>d_ip := 1\<rparr>) (first - 17)) (\<lambda>d'.
                 Inr (d', if first - 17 < 4 then first - 17 else 4))
             else Inr (d, 0)) (\<lambda>(d', state).
      lzo_loop d' state)))"

section \<open>No panic, and the output limit\<close>

named_theorems lzo_safe \<open>the decoder methods do not panic and keep the output within the limit\<close>

definition within :: "decoder \<Rightarrow> bool" where
  "within d \<longleftrightarrow> length (d_out d) \<le> d_max_len d"

lemma next_byte_no_panic [lzo_safe]: "next_byte d \<noteq> Inl Panic"
  by (simp add: next_byte_def)

text \<open>Reading instruction bytes leaves the output alone.\<close>

named_theorems lzo_reads \<open>the decoder methods that only read\<close>

lemma next_byte_out [lzo_reads]: "next_byte d = Inr (b, d') \<Longrightarrow> d_out d' = d_out d"
  by (auto simp: next_byte_Inr)

lemma le16_no_panic [lzo_safe]: "le16 d \<noteq> Inl Panic"
  by (auto simp: le16_def bindE_Inl_iff lzo_safe)

lemma le16_out [lzo_reads]: "le16 d = Inr (v, d') \<Longrightarrow> d_out d' = d_out d"
  by (auto simp: le16_def bindE_Inr_iff dest!: next_byte_out)

lemma count_zeros_no_panic [lzo_safe]: "count_zeros d z \<noteq> Inl Panic"
proof (induction d z rule: count_zeros.induct)
  case (1 d z)
  then show ?case
    by (subst count_zeros.simps) (auto simp: bindE_Inl_iff lzo_safe)
qed

lemma zero_run_no_panic [lzo_safe]: "zero_run d base \<noteq> Inl Panic"
  using count_zeros_adv count_zeros_no_panic
  by (fastforce simp: zero_run_def bindE_Inl_iff idx_def advances_def split: option.splits if_splits)

lemma zero_run_out [lzo_reads]: "zero_run d base = Inr (n, d') \<Longrightarrow> d_out d' = d_out d"
  by (auto simp: zero_run_def bindE_Inr_iff dest!: count_zeros_adv split: option.splits)

lemma room_simps:
  "room d n = Inl Panic \<longleftrightarrow> False" "room d n = Inr u \<longleftrightarrow> length (d_out d) + n \<le> d_max_len d"
  by (auto simp: room_def)

lemma literals_no_panic [lzo_safe]: "literals d n \<noteq> Inl Panic"
  by (auto simp: literals_def bindE_Inl_iff room_simps ok_or_def split: option.splits if_splits)

lemma literals_within [lzo_safe]: "literals d n = Inr d' \<Longrightarrow> within d'"
  by (auto simp: literals_def bindE_Inr_iff room_simps within_def ok_or_def
        split: option.splits if_splits)

text \<open>What the overlapping copy produces: the last \<open>distance\<close> bytes, repeated.\<close>

lemma copy_back_eq:
  assumes "1 \<le> dist" and "dist \<le> length out"
  shows "copy_back (length out - dist) n out =
           Inr (out @ map (\<lambda>i. out ! (length out - dist + i mod dist)) [0..<n])"
proof -
  let ?pat = "\<lambda>i. out ! (length out - dist + i mod dist)"
  have step: "copy_back (length out - dist + k) m (out @ map ?pat [0..<k]) =
              Inr (out @ map ?pat [0..<k + m])" for k m
  proof (induction m arbitrary: k)
    case (Suc m)
    let ?o = "out @ map ?pat [0..<k]"
    have len: "length out - dist + k < length ?o" using assms by simp
    have "?o ! (length out - dist + k) = ?pat k"
    proof (cases "k < dist")
      case True
      then have "length out - dist + k < length out" using assms(2) by arith
      with True show ?thesis by (simp add: nth_append)
    next
      case False
      then have "length out - dist + k - length out = k - dist" "k - dist < k"
        using assms by auto
      then show ?thesis using False assms by (simp add: nth_append le_mod_geq)
    qed
    then have "copy_back (length out - dist + k) (Suc m) ?o =
               copy_back (length out - dist + Suc k) m (out @ map ?pat [0..<Suc k])"
      using len by (simp add: idx_def)
    then show ?case using Suc.IH [of "Suc k"] by simp
  qed simp
  show ?thesis using step [of 0 n] by simp
qed

lemma back_reference_eq:
  assumes "1 \<le> dist"
  shows "back_reference d dist n =
    (if length (d_out d) < dist then Inl (Err ''lzo: back-reference before the start of the output'')
     else if d_max_len d < length (d_out d) + n
       then Inl (Err (''lzo: output would exceed the expected '' @ dec (d_max_len d) @ '' bytes''))
     else Inr (d\<lparr>d_out := d_out d @
       map (\<lambda>i. d_out d ! (length (d_out d) - dist + i mod dist)) [0..<n]\<rparr>))"
  using copy_back_eq [OF assms, of "d_out d" n]
  by (auto simp: back_reference_def checked_sub_def room_def)

lemma finish_match_no_panic [lzo_safe]: "1 \<le> dist \<Longrightarrow> finish_match d dist n nxt \<noteq> Inl Panic"
  by (auto simp: finish_match_def bindE_Inl_iff back_reference_eq literals_no_panic split: if_splits)

lemma finish_match_within [lzo_safe]: "finish_match d dist n nxt = Inr (More d' s) \<Longrightarrow> within d'"
  by (auto simp: finish_match_def bindE_Inr_iff dest: literals_within)

lemma finish_match_not_Done [simp]: "finish_match d dist n nxt \<noteq> Inr (Done out)"
  by (auto simp: finish_match_def bindE_Inr_iff)

lemma lzo_step_no_panic: "lzo_step d st \<noteq> Inl Panic"
  by (auto simp: lzo_step_def bindE_Inl_iff Let_def lzo_safe split: if_splits)

lemma lzo_step_More_within: "lzo_step d st = Inr (More d' st') \<Longrightarrow> within d'"
  by (auto simp: lzo_step_def bindE_Inr_iff Let_def split: if_splits
        dest: finish_match_within literals_within)

lemma lzo_step_Done: "lzo_step d st = Inr (Done out) \<Longrightarrow> out = d_out d"
  by (auto simp: lzo_step_def bindE_Inr_iff Let_def split: if_splits dest!: lzo_reads)

lemma lzo_loop_safe:
  "lzo_loop d st \<noteq> Inl Panic \<and>
   (within d \<longrightarrow> (\<forall>out. lzo_loop d st = Inr out \<longrightarrow> length out \<le> d_max_len d))"
proof (induction d st rule: lzo_loop.induct)
  case (1 d st)
  show ?case
  proof (cases "lzo_step d st")
    case (Inl e)
    then show ?thesis using lzo_step_no_panic [of d st] by (subst (1 2) lzo_loop.simps) auto
  next
    case (Inr r)
    show ?thesis
    proof (cases r)
      case (Done out)
      with Inr have "lzo_loop d st = Inr (d_out d)"
        by (subst lzo_loop.simps) (simp add: lzo_step_Done)
      then show ?thesis by (simp add: within_def)
    next
      case (More d' st')
      with Inr have "lzo_loop d st = lzo_loop d' st'" by (subst lzo_loop.simps) simp
      moreover have "d_max_len d' = d_max_len d" "within d'"
        using Inr More lzo_step_adv lzo_step_More_within by blast+
      ultimately show ?thesis using "1.IH" [OF Inr More] by simp
    qed
  qed
qed

section \<open>Stored streams\<close>

text \<open>A specification-level encoder: \<open>stored xs\<close> is the simplest valid LZO1X stream for \<open>xs\<close>, one
  literal run and the end marker. It is not code of the program.\<close>

fun run_length :: "nat \<Rightarrow> u8 list" where
  "run_length n = (if n \<le> 255 then [of_nat n] else 0 # run_length (n - 255))"

declare run_length.simps [simp del]

definition end_marker :: "u8 list" where "end_marker = [0x11, 0, 0]"

definition stored :: "u8 list \<Rightarrow> u8 list" where
  "stored xs =
     (if xs = [] then [] else if length xs \<le> 238 then of_nat (17 + length xs) # xs
      else 0 # run_length (length xs - 18) @ xs) @ end_marker"

lemma run_length_split:
  assumes "0 < n"
  shows "\<exists>k r. run_length n = replicate k 0 @ [of_nat r] \<and> n = 255 * k + r \<and> 0 < r \<and> r \<le> 255"
  using assms
proof (induction n rule: run_length.induct)
  case (1 n)
  show ?case
  proof (cases "n \<le> 255")
    case True
    with "1.prems" show ?thesis
      by (intro exI [of _ 0] exI [of _ n]) (subst run_length.simps, simp)
  next
    case False
    then obtain k r where kr: "run_length (n - 255) = replicate k 0 @ [of_nat r]"
      "n - 255 = 255 * k + r" "0 < r" "r \<le> 255"
      using "1.IH" by auto
    with False show ?thesis
      by (intro exI [of _ "Suc k"] exI [of _ r]) (subst run_length.simps, simp)
  qed
qed

lemma unat_of_nat_u8 [simp]: "n < 256 \<Longrightarrow> unat (of_nat n :: u8) = n"
  by (simp add: unat_of_nat take_bit_eq_mod)

lemma next_byte_at [simp]:
  "d_src d = pre @ b # suf \<Longrightarrow> d_ip d = length pre \<Longrightarrow>
   next_byte d = Inr (unat b, d\<lparr>d_ip := Suc (length pre)\<rparr>)"
  by (simp add: next_byte_def)

lemma count_zeros_run:
  assumes "d_src d = pre @ replicate k 0 @ b # suf" and "d_ip d = length pre" and "b \<noteq> 0"
  shows "count_zeros d z = Inr (z + k, d\<lparr>d_ip := Suc (length pre + k)\<rparr>)"
  using assms
proof (induction k arbitrary: d pre z)
  case 0
  then show ?case by (subst count_zeros.simps) (simp add: unat_eq_0)
next
  case (Suc k)
  have "next_byte d = Inr (0, d\<lparr>d_ip := Suc (length pre)\<rparr>)"
    using Suc.prems next_byte_at [of d pre 0 "replicate k 0 @ b # suf"] by simp
  moreover have "count_zeros (d\<lparr>d_ip := Suc (length pre)\<rparr>) (z + 1) =
      Inr (z + 1 + k, d\<lparr>d_ip := Suc (length (pre @ [0]) + k)\<rparr>)"
    using Suc.prems Suc.IH [of "d\<lparr>d_ip := Suc (length pre)\<rparr>" "pre @ [0]" "z + 1"] by simp
  ultimately show ?case by (subst count_zeros.simps) simp
qed

lemma literals_at:
  assumes "d_src d = pre @ xs @ suf" and "d_ip d = length pre" and "n = length xs"
    and "length (d_src d) \<le> usize_max" and "length (d_out d) + n \<le> d_max_len d"
  shows "literals d n = Inr (d\<lparr>d_out := d_out d @ xs, d_ip := length pre + n\<rparr>)"
proof -
  have "length pre + n \<le> usize_max" using assms(1,3,4) by simp
  then show ?thesis using assms by (simp add: literals_def checked_add_def room_def)
qed

lemma end_marker_done:
  assumes "d_src d = pre @ end_marker @ suf" and "d_ip d = length pre"
  shows "lzo_loop d st = Inr (d_out d)"
proof -
  let ?d1 = "d\<lparr>d_ip := Suc (length pre)\<rparr>" and ?d2 = "d\<lparr>d_ip := Suc (Suc (length pre))\<rparr>"
  let ?d3 = "d\<lparr>d_ip := Suc (Suc (Suc (length pre)))\<rparr>"
  have 1: "next_byte d = Inr (17, ?d1)"
    using assms next_byte_at [of d pre "0x11" "[0, 0] @ suf"] by (simp add: end_marker_def)
  have 2: "next_byte ?d1 = Inr (0, ?d2)"
    using assms next_byte_at [of ?d1 "pre @ [0x11]" 0 "0 # suf"] by (simp add: end_marker_def)
  have 3: "next_byte ?d2 = Inr (0, ?d3)"
    using assms next_byte_at [of ?d2 "pre @ [0x11, 0]" 0 suf] by (simp add: end_marker_def)
  have 4: "le16 ?d1 = Inr (0, ?d3)" by (simp add: le16_def 2 3)
  have "lzo_step d st = Inr (Done (d_out d))"
    by (simp add: lzo_step_def 1 4 Let_def)
  then show ?thesis by (subst lzo_loop.simps) simp
qed

lemma decompress_stored_eq:
  assumes "length (stored xs @ junk) \<le> usize_max" and "length xs \<le> max_len"
  shows "decompress (stored xs @ junk) max_len = Inr xs"
proof -
  let ?d = "\<lparr>d_src = stored xs @ junk, d_ip = 0, d_out = [], d_max_len = max_len\<rparr>"
  consider "xs = []" | "xs \<noteq> []" "length xs \<le> 238" | "238 < length xs" by linarith
  then show ?thesis
  proof cases
    case 1
    have "lzo_loop ?d 0 = Inr []"
      using 1 end_marker_done [of ?d "[]" junk 0] by (simp add: stored_def)
    then show ?thesis using 1 by (simp add: decompress_def stored_def end_marker_def)
  next
    case 2
    let ?b = "of_nat (17 + length xs) :: u8"
    have src: "stored xs @ junk = [?b] @ xs @ end_marker @ junk" using 2 by (simp add: stored_def)
    have b: "unat ?b = 17 + length xs" using 2 by (intro unat_of_nat_u8) simp
    have lit: "literals (?d\<lparr>d_ip := 1\<rparr>) (length xs) = Inr (?d\<lparr>d_out := xs, d_ip := 1 + length xs\<rparr>)"
      using literals_at [of "?d\<lparr>d_ip := 1\<rparr>" "[?b]" xs "end_marker @ junk" "length xs"] src assms
      by simp
    have "lzo_loop (?d\<lparr>d_out := xs, d_ip := 1 + length xs\<rparr>) st = Inr xs" for st
      using src end_marker_done [of "?d\<lparr>d_out := xs, d_ip := 1 + length xs\<rparr>" "?b # xs" junk st] by simp
    moreover have "0 < length xs" using 2 by simp
    ultimately show ?thesis
      using lit b by (simp add: decompress_def src)
  next
    case 3
    obtain k r where kr: "run_length (length xs - 18) = replicate k 0 @ [of_nat r]"
      "length xs - 18 = 255 * k + r" "0 < r" "r \<le> 255"
      using run_length_split [of "length xs - 18"] 3 by auto
    let ?pre = "0 # replicate k 0 @ [of_nat r :: u8]"
    let ?d1 = "?d\<lparr>d_ip := 1\<rparr>" and ?d2 = "?d\<lparr>d_ip := Suc (Suc k)\<rparr>"
    let ?d3 = "?d\<lparr>d_out := xs, d_ip := Suc (Suc k) + length xs\<rparr>"
    have src: "stored xs @ junk = ?pre @ xs @ end_marker @ junk" using 3 kr by (auto simp: stored_def)
    have 1: "next_byte ?d = Inr (0, ?d1)"
      using src next_byte_at [of ?d "[]" 0 "replicate k 0 @ [of_nat r] @ xs @ end_marker @ junk"] by simp
    have r0: "(of_nat r :: u8) \<noteq> 0" using kr(3,4) unat_of_nat_u8 [of r] by fastforce
    have 2: "count_zeros ?d1 0 = Inr (k, ?d2)"
      using src count_zeros_run [of ?d1 "[0]" k "of_nat r" "xs @ end_marker @ junk" 0] r0 by simp
    have at: "(stored xs @ junk) ! Suc k = of_nat r" by (simp add: src nth_append)
    have len: "Suc k < length (stored xs @ junk)" by (simp add: src)
    have kb: "255 * k + r + 18 \<le> usize_max" using kr(2) 3 assms by (simp add: src)
    have 3: "zero_run ?d1 15 = Inr (length xs - 3, ?d2)"
      using 2 kb kr(2,4) 3 at len
      by (simp add: zero_run_def idx_def checked_mul_def checked_add_def mult.commute)
    have 4: "literals ?d2 (length xs) = Inr ?d3"
      using literals_at [of ?d2 ?pre xs "end_marker @ junk" "length xs"] src assms by simp
    have "lzo_step ?d 0 = Inr (More ?d3 4)"
      using \<open>238 < length xs\<close> 1 3 4 by (simp add: lzo_step_def)
    moreover have "lzo_loop ?d3 4 = Inr xs"
      using src end_marker_done [of ?d3 "?pre @ xs" junk 4] by simp
    ultimately have "lzo_loop ?d 0 = Inr xs" by (subst lzo_loop.simps) simp
    moreover have "stored xs @ junk = 0 # (replicate k 0 @ [of_nat r] @ xs @ end_marker @ junk)"
      using src by simp
    ultimately show ?thesis by (simp add: decompress_def)
  qed
qed

section \<open>Properties\<close>

lemma decompress_bounded:
  "decompress src max_len \<noteq> Inl Panic \<and>
   (decompress src max_len = Inr out \<longrightarrow> length out \<le> max_len)"
proof (cases src)
  case Nil
  then show ?thesis by (simp add: decompress_def)
next
  case (Cons b bs)
  let ?d = "\<lparr>d_src = src, d_ip = 0, d_out = [], d_max_len = max_len\<rparr>"
  have loop: "lzo_loop d st \<noteq> Inl Panic"
    "within d \<Longrightarrow> lzo_loop d st = Inr out \<Longrightarrow> length out \<le> d_max_len d" for d st
    using lzo_loop_safe by blast+
  show ?thesis
  proof (cases "unat b > 17")
    case False
    then have "decompress src max_len = lzo_loop ?d 0" by (simp add: decompress_def Cons)
    then show ?thesis using loop [of ?d 0] by (simp add: within_def)
  next
    case True
    let ?n = "unat b - 17" and ?lit = "literals (?d\<lparr>d_ip := 1\<rparr>) (unat b - 17)"
    have eq: "decompress src max_len =
        bindE ?lit (\<lambda>d'. lzo_loop d' (if ?n < 4 then ?n else 4))"
      using True by (cases ?lit) (simp_all add: decompress_def Cons)
    show ?thesis
    proof (cases ?lit)
      case (Inl e)
      then show ?thesis using eq literals_no_panic by (metis bindE_simps(1) sum.simps(4))
    next
      case (Inr d')
      then have "within d'" "d_max_len d' = max_len"
        using literals_within literals_adv by (fastforce simp: advances_def)+
      then show ?thesis using eq loop [of d'] Inr by simp
    qed
  qed
qed

text \<open>C1. Decompression never panics, whatever the input bytes, and an accepted chunk never
  decompresses to more than \<open>max_len\<close> bytes: the bounds checks of the source cover every read,
  every back-reference and every write.\<close>

theorem decompress_safe:
  "decompress src max_len \<noteq> Inl Panic \<and>
   (decompress src max_len = Inr out \<longrightarrow> length out \<le> max_len)"
  by (rule decompress_bounded)

theorem decompress_safe_witness:
  "decompress [18, 7, 0x11, 0, 0] 4 = Inr [7] \<and> length [7 :: u8] \<le> 4"
proof -
  have "decompress [18, 7, 0x11, 0, 0] 4 = Inr [7]"
    using decompress_stored_eq [of "[7]" "[]" 4] by (simp add: stored_def end_marker_def usize_max_def)
  with decompress_safe [of "[18, 7, 0x11, 0, 0]" 4 "[7]"] show ?thesis by simp
qed

text \<open>A back-reference that is accepted appends exactly the bytes the LZ77 specification names:
  byte \<open>i\<close> of the copy is byte \<open>i mod distance\<close> of the last \<open>distance\<close> output bytes, so an
  overlapping match repeats its pattern. A distance beyond the output, or an output beyond the
  limit, is refused with its own error.\<close>

lemma back_reference_overlap:
  assumes "1 \<le> distance"
  shows "back_reference d distance n =
    (if length (d_out d) < distance
       then Inl (Err ''lzo: back-reference before the start of the output'')
     else if d_max_len d < length (d_out d) + n
       then Inl (Err (''lzo: output would exceed the expected '' @ dec (d_max_len d) @ '' bytes''))
     else Inr (d\<lparr>d_out := d_out d @
       map (\<lambda>i. d_out d ! (length (d_out d) - distance + i mod distance)) [0..<n]\<rparr>))"
  using assms by (rule back_reference_eq)

lemma back_reference_overlap_witness:
  "back_reference \<lparr>d_src = [], d_ip = 0, d_out = [1, 2, 3], d_max_len = 8\<rparr> 2 5 =
     Inr \<lparr>d_src = [], d_ip = 0, d_out = [1, 2, 3, 2, 3, 2, 3, 2], d_max_len = 8\<rparr>"
  using back_reference_overlap [of 2 "\<lparr>d_src = [], d_ip = 0, d_out = [1, 2, 3], d_max_len = 8\<rparr>" 5]
  by (simp add: upt_rec)

text \<open>Every byte sequence that fits the limit has a stream that decompresses to it: the stored
  stream, whatever its length (a short run in the first byte, a long one with the zero-run
  extension), and bytes after the end marker are ignored.\<close>

lemma decompress_stored:
  assumes "length (stored xs @ junk) \<le> usize_max" and "length xs \<le> max_len"
  shows "decompress (stored xs @ junk) max_len = Inr xs"
  using assms by (rule decompress_stored_eq)

lemma decompress_stored_witness:
  "decompress (stored (replicate 300 7) @ [1, 2]) 300 = Inr (replicate 300 7)"
proof -
  have "stored (replicate 300 7) = 0 # [0, 27] @ replicate 300 7 @ end_marker"
    by (simp add: stored_def run_length.simps)
  then have "length (stored (replicate 300 7) @ [1, 2]) \<le> usize_max"
    by (simp add: usize_max_def end_marker_def)
  then show ?thesis by (rule decompress_stored) simp
qed

end
