(* ===== verification/BTreeMap.thy ===== *)
theory BTreeMap
  imports Prelude
begin

text \<open>
  \<open>BTreeMap\<close>: an association list kept strictly sorted by key, so that iteration is the list itself
  and two maps with the same bindings are the same value. Keys are compared as Rust compares them:
  strings by bytes, tuples lexicographically.
\<close>

type_synonym ('k, 'v) btree_map = "('k \<times> 'v) list"

definition bt_ok :: "('k::linorder, 'v) btree_map \<Rightarrow> bool" where
  "bt_ok m \<longleftrightarrow> sorted_wrt (<) (map fst m)"

fun bt_insert :: "'k::linorder \<Rightarrow> 'v \<Rightarrow> ('k, 'v) btree_map \<Rightarrow> ('k, 'v) btree_map" where
  "bt_insert k v [] = [(k, v)]"
| "bt_insert k v ((k', v') # m) =
     (if k < k' then (k, v) # (k', v') # m else if k = k' then (k, v) # m else (k', v') # bt_insert k v m)"

abbreviation bt_get :: "('k, 'v) btree_map \<Rightarrow> 'k \<Rightarrow> 'v option" where "bt_get \<equiv> map_of"

lemma bt_ok_Nil [simp]: "bt_ok []"
  by (simp add: bt_ok_def)

lemma bt_ok_Cons [simp]: "bt_ok ((k, v) # m) \<longleftrightarrow> (\<forall>k' \<in> fst ` set m. k < k') \<and> bt_ok m"
  by (simp add: bt_ok_def)

lemma bt_get_insert [simp]: "bt_ok m \<Longrightarrow> bt_get (bt_insert k v m) = (bt_get m)(k \<mapsto> v)"
  by (induction m) (auto simp: fun_eq_iff)

lemma bt_insert_keys: "fst ` set (bt_insert k v m) = insert k (fst ` set m)"
proof (induction m)
  case (Cons kv m)
  obtain k' v' where "kv = (k', v')" by fastforce
  then show ?case using Cons by (simp add: insert_commute)
qed simp

lemma bt_insert_ok [simp]: "bt_ok m \<Longrightarrow> bt_ok (bt_insert k v m)"
proof (induction m)
  case (Cons kv m)
  then show ?case by (cases kv) (auto simp: bt_insert_keys)
qed simp

lemma bt_ok_distinct: "bt_ok m \<Longrightarrow> distinct (map fst m)"
  by (induction m) (auto simp: bt_ok_def)

lemma bt_get_iff: "bt_ok m \<Longrightarrow> bt_get m k = Some v \<longleftrightarrow> (k, v) \<in> set m"
  by (simp add: bt_ok_distinct)

lemma bt_get_None: "bt_get m k = None \<longleftrightarrow> k \<notin> fst ` set m"
  by (rule map_of_eq_None_iff)

text \<open>A map is determined by its bindings.\<close>

lemma bt_rebuild: "bt_ok m \<Longrightarrow> m = map (\<lambda>k. (k, the (bt_get m k))) (map fst m)"
proof -
  assume "bt_ok m"
  then have "kv \<in> set m \<Longrightarrow> (fst kv, the (bt_get m (fst kv))) = kv" for kv
    by (cases kv) (simp add: bt_ok_distinct)
  then show ?thesis by (simp add: comp_def map_idI)
qed

lemma bt_ext:
  assumes "bt_ok a" and "bt_ok b" and "bt_get a = bt_get b"
  shows "a = b"
proof -
  have "set (map fst a) = set (map fst b)"
    using assms(3) by (metis dom_map_of_conv_image_fst list.set_map)
  then have "map fst a = map fst b"
    using assms(1,2) by (intro strict_sorted_equal) (simp_all add: bt_ok_def)
  then show ?thesis using assms bt_rebuild by metis
qed

lemma bt_insert_id: "bt_ok m \<Longrightarrow> bt_get m k = Some v \<Longrightarrow> bt_insert k v m = m"
  by (intro bt_ext) auto

text \<open>Inserting the bindings of a sorted list in order rebuilds it.\<close>

lemma bt_insert_last: "bt_ok (m @ [(k, v)]) \<Longrightarrow> bt_insert k v m = m @ [(k, v)]"
proof (induction m)
  case (Cons kv m)
  then show ?case by (cases kv) (auto simp: bt_ok_def sorted_wrt_append)
qed simp

lemma bt_ok_append: "bt_ok (a @ b) \<Longrightarrow> bt_ok a \<and> bt_ok b"
  by (simp add: bt_ok_def sorted_wrt_append)

end
