(* ===== verification/Ledger.thy ===== *)
theory Ledger
  imports BTreeMap DataCore
begin

text \<open>
  \<open>email_import/ledger.rs\<close>, the durable record of ingested messages, and \<open>email_import/manifest.rs\<close>,
  the local delivery checkpoint and the batching.
\<close>

section \<open>Entries and the ledger\<close>

definition LEDGER_FILE :: string where "LEDGER_FILE = ''ingested.tsv''"

definition LEDGER_HEADER :: string where
  "LEDGER_HEADER = ''# mailbox'' @ [TAB] @ ''uidvalidity'' @ [TAB] @ ''uid'' @ [TAB] @ ''ingested_at''"

record ledger_entry =
  le_mailbox :: string
  le_uidvalidity :: nat
  le_uid :: nat
  le_ingested_at :: string

type_synonym ledger_key = "string \<times> nat \<times> nat"

record ledger = lg_entries :: "(ledger_key, string) btree_map"

definition empty_ledger :: ledger where "empty_ledger = \<lparr>lg_entries = []\<rparr>"

definition le_key :: "ledger_entry \<Rightarrow> ledger_key" where
  "le_key e = (le_mailbox e, le_uidvalidity e, le_uid e)"

text \<open>The earlier time stamp is kept.\<close>

definition ledger_insert :: "ledger_entry \<Rightarrow> ledger \<Rightarrow> ledger" where
  "ledger_insert e l =
     (let put = l\<lparr>lg_entries := bt_insert (le_key e) (le_ingested_at e) (lg_entries l)\<rparr> in
      case bt_get (lg_entries l) (le_key e) of
        Some existing \<Rightarrow> if existing \<le> le_ingested_at e then l else put
      | None \<Rightarrow> put)"

definition ledger_row :: "string \<Rightarrow> ledger_entry option" where
  "ledger_row line =
     (if trim line = [] \<or> starts_with ''#'' line then None
      else case split_on TAB line of
        [mailbox, uidvalidity, uid, ingested_at] \<Rightarrow>
          (case (parse_u32 uidvalidity, parse_u32 uid) of
             (Some v, Some u) \<Rightarrow> Some \<lparr>le_mailbox = mailbox, le_uidvalidity = v, le_uid = u,
                le_ingested_at = ingested_at\<rparr>
           | _ \<Rightarrow> None)
      | _ \<Rightarrow> None)"

definition ledger_parse :: "string \<Rightarrow> ledger" where
  "ledger_parse contents = fold ledger_insert (read_rows ledger_row contents) empty_ledger"

definition format_ledger_row :: "ledger_entry \<Rightarrow> string" where
  "format_ledger_row e =
     le_mailbox e @ [TAB] @ dec (le_uidvalidity e) @ [TAB] @ dec (le_uid e) @ [TAB] @ le_ingested_at e"

definition entry_of :: "ledger_key \<times> string \<Rightarrow> ledger_entry" where
  "entry_of = (\<lambda>((mailbox, v, u), at). \<lparr>le_mailbox = mailbox, le_uidvalidity = v, le_uid = u, le_ingested_at = at\<rparr>)"

definition ledger_entries :: "ledger \<Rightarrow> ledger_entry list" where
  "ledger_entries l = map entry_of (lg_entries l)"

definition ledger_serialize :: "ledger \<Rightarrow> string" where
  "ledger_serialize l = LEDGER_HEADER @ [NL] @ write_rows format_ledger_row (ledger_entries l)"

definition ledger_len :: "ledger \<Rightarrow> nat" where "ledger_len l = length (lg_entries l)"

definition ingested_uids :: "ledger \<Rightarrow> string \<Rightarrow> nat \<Rightarrow> nat set" where
  "ingested_uids l mailbox uidvalidity =
     set (map (\<lambda>((m, v, u), at). u) (filter (\<lambda>((m, v, u), at). m = mailbox \<and> v = uidvalidity) (lg_entries l)))"

section \<open>Seeding from a listing\<close>

record seed_mailbox =
  sm_mailbox :: string
  sm_relpath_key :: string
  sm_uidvalidity :: nat

definition owners :: "seed_mailbox list \<Rightarrow> string \<Rightarrow> seed_mailbox list" where
  "owners mailboxes relpath = filter (\<lambda>m. sm_relpath_key m = relpath) mailboxes"

definition eml_uid :: "string \<Rightarrow> (string \<times> nat) option" where
  "eml_uid path =
     (let (dir, f) = (case rsplit_once (CHR ''/'') path of Some df \<Rightarrow> df | None \<Rightarrow> ([], path)) in
      map_option (Pair dir) (Option.bind (strip_suffix ''.eml'' f) parse_u32))"

definition seed_entry :: "seed_mailbox list \<Rightarrow> string \<Rightarrow> string \<Rightarrow> ledger_entry option" where
  "seed_entry mailboxes ingested_at path = (case eml_uid path of
     None \<Rightarrow> None
   | Some (dir, uid) \<Rightarrow> (case owners mailboxes dir of
       [owner] \<Rightarrow> Some \<lparr>le_mailbox = sm_mailbox owner, le_uidvalidity = sm_uidvalidity owner, le_uid = uid,
                      le_ingested_at = ingested_at\<rparr>
     | _ \<Rightarrow> None))"

definition seed_from_listing :: "string list \<Rightarrow> seed_mailbox list \<Rightarrow> string \<Rightarrow> ledger \<times> string list" where
  "seed_from_listing listing mailboxes ingested_at =
     (fold ledger_insert (List.map_filter (seed_entry mailboxes ingested_at) listing) empty_ledger,
      sort (filter (\<lambda>r. 1 < length (owners mailboxes r)) (remdups (map sm_relpath_key mailboxes))))"

text \<open>The relpath of a mailbox is its list of components.\<close>

definition relpath_key :: "string list \<Rightarrow> string" where
  "relpath_key mailbox_relpath = join ''/'' mailbox_relpath"

section \<open>Time stamps\<close>

record civil_time =
  ct_year :: nat
  ct_month :: nat
  ct_day :: nat
  ct_hour :: nat
  ct_minute :: nat
  ct_second :: nat

definition utc_timestamp :: "civil_time \<Rightarrow> string" where
  "utc_timestamp now = pad_left 4 (dec (ct_year now)) @ ''-'' @ pad_left 2 (dec (ct_month now)) @ ''-'' @
     pad_left 2 (dec (ct_day now)) @ ''T'' @ pad_left 2 (dec (ct_hour now)) @ '':'' @
     pad_left 2 (dec (ct_minute now)) @ '':'' @ pad_left 2 (dec (ct_second now)) @ ''Z''"

section \<open>The delivery checkpoint\<close>

definition CHECKPOINT_FILE :: string where "CHECKPOINT_FILE = ''.pushed''"

record checkpoint_entry =
  cp_mailbox :: string
  cp_uidvalidity :: "nat option"
  cp_uid :: nat

definition format_checkpoint :: "checkpoint_entry \<Rightarrow> string" where
  "format_checkpoint e = (case cp_uidvalidity e of
     Some v \<Rightarrow> cp_mailbox e @ [TAB] @ dec v @ [TAB] @ dec (cp_uid e)
   | None \<Rightarrow> cp_mailbox e @ [TAB] @ dec (cp_uid e))"

definition checkpoint_row :: "string \<Rightarrow> checkpoint_entry option" where
  "checkpoint_row line =
     (if trim line = [] then None
      else case (case split_on TAB line of
          [mailbox, uid] \<Rightarrow> Some (mailbox, None, uid)
        | [mailbox, uidvalidity, uid] \<Rightarrow> (case parse_u32 (trim uidvalidity) of
             Some v \<Rightarrow> Some (mailbox, Some v, uid) | None \<Rightarrow> None)
        | _ \<Rightarrow> None) of
        None \<Rightarrow> None
      | Some (mailbox, uidvalidity, uid) \<Rightarrow>
          map_option (\<lambda>u. \<lparr>cp_mailbox = mailbox, cp_uidvalidity = uidvalidity, cp_uid = u\<rparr>) (parse_u32 (trim uid)))"

text \<open>The checkpoint file: missing, unreadable, or its text.\<close>

datatype state_file = Missing | Unreadable string | Text string

definition load_checkpoint :: "state_file \<Rightarrow> checkpoint_entry list result" where
  "load_checkpoint file = (case file of
     Missing \<Rightarrow> Inr []
   | Unreadable err \<Rightarrow> Inl (Err (''failed to read '' @ CHECKPOINT_FILE @ '': '' @ err))
   | Text contents \<Rightarrow> Inr (read_rows checkpoint_row contents))"

text \<open>Appending creates the file; \<open>writable\<close> says whether it can be opened.\<close>

definition append_checkpoint :: "bool \<Rightarrow> checkpoint_entry \<Rightarrow> state_file \<Rightarrow> state_file \<times> unit result" where
  "append_checkpoint writable e file =
     (if \<not> writable then (file, Inl (Err (''failed to open '' @ CHECKPOINT_FILE)))
      else case file of
        Missing \<Rightarrow> (Text (format_checkpoint e @ [NL]), Inr ())
      | Text s \<Rightarrow> (Text (s @ format_checkpoint e @ [NL]), Inr ())
      | Unreadable err \<Rightarrow> (file, Inr ()))"

definition done_uids :: "checkpoint_entry list \<Rightarrow> (string \<times> nat) set" where
  "done_uids entries = set (map (\<lambda>e. (cp_mailbox e, cp_uid e)) entries)"

definition clear_checkpoint_for_mailbox :: "bool \<Rightarrow> string \<Rightarrow> state_file \<Rightarrow> state_file \<times> unit result" where
  "clear_checkpoint_for_mailbox writable mailbox file = (case load_checkpoint file of
     Inl e \<Rightarrow> (file, Inl e)
   | Inr entries \<Rightarrow>
       (let kept = filter (\<lambda>e. cp_mailbox e \<noteq> mailbox) entries in
        if length kept = length entries then (file, Inr ())
        else if \<not> writable then (file, Inl (Err (''failed to write '' @ CHECKPOINT_FILE)))
        else (Text (write_rows format_checkpoint kept), Inr ())))"

function chunks :: "nat \<Rightarrow> 'a list \<Rightarrow> 'a list list" where
  "chunks n xs = (if xs = [] then [] else take (max n 1) xs # chunks n (drop (max n 1) xs))"
  by pat_completeness auto
termination by (relation "measure (\<lambda>(n, xs). length xs)") auto

declare chunks.simps [simp del]

definition split_into_batches :: "nat list \<Rightarrow> nat \<Rightarrow> nat list list" where
  "split_into_batches uids batch_size = (if uids = [] then [] else chunks batch_size uids)"

section \<open>Lemmas on the ledger\<close>

definition ledger_ok :: "ledger \<Rightarrow> bool" where "ledger_ok l \<longleftrightarrow> bt_ok (lg_entries l)"

definition ledger_map :: "ledger \<Rightarrow> ledger_key \<rightharpoonup> string" where "ledger_map l = bt_get (lg_entries l)"

text \<open>What a row needs to be one line of four fields: no tab or newline in the mailbox name or the time
  stamp, and numbers of 32 bits. A row that is read back needs a name not starting with a hash, too.\<close>

definition fields_ok :: "ledger_entry \<Rightarrow> bool" where
  "fields_ok e \<longleftrightarrow> TAB \<notin> set (le_mailbox e) \<and> NL \<notin> set (le_mailbox e) \<and>
     le_uidvalidity e \<le> u32_max \<and> le_uid e \<le> u32_max \<and> TAB \<notin> set (le_ingested_at e) \<and>
     clean_line (le_ingested_at e)"

definition row_ok :: "ledger_entry \<Rightarrow> bool" where
  "row_ok e \<longleftrightarrow> fields_ok e \<and> \<not> starts_with ''#'' (le_mailbox e)"

text \<open>The earlier of two time stamps, and of all of a list.\<close>

definition earlier :: "string option \<Rightarrow> string \<Rightarrow> string option" where
  "earlier a b = (case a of None \<Rightarrow> Some b | Some x \<Rightarrow> Some (min x b))"

lemma ledger_insert_ok [simp]: "ledger_ok l \<Longrightarrow> ledger_ok (ledger_insert e l)"
  by (auto simp: ledger_ok_def ledger_insert_def Let_def split: option.splits)

lemma ledger_map_insert:
  "ledger_ok l \<Longrightarrow> ledger_map (ledger_insert e l) =
     (ledger_map l)(le_key e := earlier (ledger_map l (le_key e)) (le_ingested_at e))"
  by (rule ext)
    (auto simp: ledger_ok_def ledger_insert_def ledger_map_def earlier_def Let_def min_def split: option.splits)

lemma empty_ledger_ok [simp]: "ledger_ok empty_ledger" "ledger_map empty_ledger = Map.empty"
  by (simp_all add: ledger_ok_def empty_ledger_def ledger_map_def)

lemma fold_insert_ok [simp]: "ledger_ok l \<Longrightarrow> ledger_ok (fold ledger_insert es l)"
  by (induction es arbitrary: l) simp_all

lemma fold_insert_map:
  "ledger_ok l \<Longrightarrow> ledger_map (fold ledger_insert es l) k =
     foldl earlier (ledger_map l k) (map le_ingested_at (filter (\<lambda>e. le_key e = k) es))"
  by (induction es arbitrary: l) (auto simp: ledger_map_insert)

lemma foldl_earlier:
  "foldl earlier a ts = (if a = None \<and> ts = [] then None else Some (Min (set_option a \<union> set ts)))"
proof (induction ts arbitrary: a)
  case Nil
  then show ?case by (cases a) simp_all
next
  case (Cons t ts)
  show ?case using Cons [of "earlier a t"]
    by (cases a; cases "ts = []") (auto simp: earlier_def insert_commute min.assoc)
qed

lemma ledger_eqI: "ledger_ok a \<Longrightarrow> ledger_ok b \<Longrightarrow> ledger_map a = ledger_map b \<Longrightarrow> a = b"
  using bt_ext by (cases a; cases b) (auto simp: ledger_ok_def ledger_map_def)

lemma ingested_uids_iff:
  "ledger_ok l \<Longrightarrow> u \<in> ingested_uids l m v \<longleftrightarrow> ledger_map l (m, v, u) \<noteq> None"
  by (force simp: ingested_uids_def ledger_map_def bt_get_None image_iff)

lemma clean_ledger_row: "fields_ok e \<Longrightarrow> clean_line (format_ledger_row e)"
  by (simp add: fields_ok_def format_ledger_row_def)

lemma row_not_blank: "trim (m @ TAB # dec v @ r) \<noteq> []"
proof (rule trim_not_blank)
  have "hd (dec v) \<in> set (dec v)" by (intro list.set_sel(1)) simp
  moreover have "visible (hd (dec v))"
    using dec_digits [of v] \<open>hd (dec v) \<in> set (dec v)\<close> by (simp add: list_all_iff)
  ultimately show "\<exists>x\<in>set (m @ TAB # dec v @ r). visible x" by auto
qed

lemma starts_with_hash: "starts_with ''#'' (m @ TAB # r) \<longleftrightarrow> starts_with ''#'' m"
  by (cases m) (auto simp: starts_with_iff)

interpretation ledger_format: line_format format_ledger_row ledger_row row_ok
proof unfold_locales
  fix e :: ledger_entry
  assume e: "row_ok e"
  then show "clean_line (format_ledger_row e)" using clean_ledger_row by (simp add: row_ok_def)
  show "ledger_row (format_ledger_row e) = Some e"
    using e row_not_blank [of "le_mailbox e" "le_uidvalidity e"]
      starts_with_hash [of "le_mailbox e"]
    by (simp add: row_ok_def fields_ok_def format_ledger_row_def ledger_row_def)
qed

lemma ledger_parse_ok [simp]: "ledger_ok (ledger_parse s)"
  by (simp add: ledger_parse_def)

lemma header_skipped: "clean_line LEDGER_HEADER" "ledger_row LEDGER_HEADER = None"
  by (simp_all add: LEDGER_HEADER_def clean_line_no_CR ledger_row_def starts_with_iff)

lemma parse_header: "read_rows ledger_row (LEDGER_HEADER @ [NL] @ s) = read_rows ledger_row s"
  by (simp add: header_skipped)

lemma le_key_entry_of [simp]: "le_key (entry_of kv) = fst kv" "le_ingested_at (entry_of kv) = snd kv"
  by (simp_all add: le_key_def entry_of_def split: prod.splits)

lemma fold_insert_entries:
  "ledger_ok l \<Longrightarrow> fold ledger_insert (ledger_entries l) empty_ledger = l"
proof (rule ledger_eqI)
  assume l: "ledger_ok l"
  have "map le_ingested_at (filter (\<lambda>e. le_key e = k) (map entry_of kvs)) = map snd (filter (\<lambda>kv. fst kv = k) kvs)" for k kvs
    by (induction kvs) auto
  moreover have "foldl earlier None (map snd (filter (\<lambda>kv. fst kv = k) kvs)) = bt_get kvs k"
    if "distinct (map fst kvs)" for k and kvs :: "(ledger_key \<times> string) list"
    using that
  proof (induction kvs)
    case (Cons kv kvs)
    have "fst kv = k \<Longrightarrow> filter (\<lambda>kv. fst kv = k) kvs = []"
      using Cons.prems by (auto simp: filter_empty_conv image_iff)
    then show ?case using Cons by (cases kv) (auto simp: earlier_def)
  qed simp
  moreover have "distinct (map fst (lg_entries l))"
    using bt_ok_distinct l unfolding ledger_ok_def by blast
  ultimately show "ledger_map (fold ledger_insert (ledger_entries l) empty_ledger) = ledger_map l"
    by (intro ext) (simp add: fold_insert_map ledger_entries_def, simp add: ledger_map_def ledger_ok_def)
qed simp_all

text \<open>A row that an interrupted write cut short.\<close>

lemma torn_row_cases:
  assumes "row_ok e"
  shows "ledger_row (take n (format_ledger_row e)) = None \<or>
    (\<exists>r. ledger_row (take n (format_ledger_row e)) = Some r \<and> le_key r = le_key e \<and>
         (\<exists>j. le_ingested_at r = take j (le_ingested_at e)))"
proof -
  let ?h = "le_mailbox e @ TAB # dec (le_uidvalidity e) @ TAB # dec (le_uid e)"
  have row: "format_ledger_row e = ?h @ TAB # le_ingested_at e"
    by (simp add: format_ledger_row_def)
  have tabs: "TAB \<notin> set (le_mailbox e)" "TAB \<notin> set (le_ingested_at e)" using assms by (simp_all add: row_ok_def fields_ok_def)
  show ?thesis
  proof (cases "n \<le> length ?h")
    case True
    define t where "t = take n ?h"
    have tk: "take n (format_ledger_row e) = t"
      using True unfolding row t_def by (simp only: take_append) simp
    obtain u where u: "t @ u = ?h" unfolding t_def using append_take_drop_id by blast
    have pieces: "split_on TAB (t @ u) = [le_mailbox e, dec (le_uidvalidity e), dec (le_uid e)]"
      unfolding u using tabs by simp
    have "length (split_on TAB t) \<le> length (split_on TAB (t @ u))"
    proof (induction t)
      case Nil
      then show ?case by (cases "split_on TAB u") auto
    next
      case (Cons x t)
      then show ?case by (auto split: list.splits)
    qed
    then have "length (split_on TAB t) \<le> 3" unfolding pieces by simp
    then have "ledger_row t = None" by (auto simp: ledger_row_def split: list.splits)
    then show ?thesis by (simp add: tk)
  next
    case False
    define j where "j = n - length ?h - 1"
    have tk: "take n (format_ledger_row e) = ?h @ TAB # take j (le_ingested_at e)"
      using False unfolding row j_def by (simp add: take_Cons' del: append_assoc append_Cons)
    have "TAB \<notin> set (take j (le_ingested_at e))" using tabs by (auto dest: in_set_takeD)
    then show ?thesis
      using tabs assms
      unfolding tk by (auto simp: ledger_row_def row_ok_def fields_ok_def le_key_def)
  qed
qed

section \<open>Lemmas on time stamps\<close>

lemma lex_append:
  "length a = length b \<Longrightarrow> (a @ x \<le> b @ (y :: string)) \<longleftrightarrow> a < b \<or> (a = b \<and> x \<le> y)"
  by (induction a b rule: list_induct2) auto

lemma digits_value_less: "list_all is_digit s \<Longrightarrow> digits_value s < 10 ^ length s"
proof (induction s rule: rev_induct)
  case (snoc d s)
  then have "digits_value s + 1 \<le> 10 ^ length s" "byte_of d - 48 \<le> 9" by (auto simp: is_digit_def)
  then show ?case by (simp add: digits_value_snoc)
qed (simp add: digits_value_def)

text \<open>Digit strings of one length are ordered as their values.\<close>

lemma digits_order:
  "length s = length t \<Longrightarrow> list_all is_digit s \<Longrightarrow> list_all is_digit t \<Longrightarrow>
     (s < t \<longleftrightarrow> digits_value s < digits_value t)"
proof (induction s t rule: list_induct2)
  case (Cons c s d t)
  have b: "digits_value s < 10 ^ length s" "digits_value t < 10 ^ length s"
    using Cons digits_value_less by fastforce+
  have cd: "48 \<le> byte_of c" "48 \<le> byte_of d" using Cons.prems by (simp_all add: is_digit_def)
  have IH: "s < t \<longleftrightarrow> digits_value s < digits_value t" using Cons by simp
  consider "byte_of c < byte_of d" | "c = d" | "byte_of d < byte_of c"
    by (metis linorder_neqE_nat of_char_eq_iff)
  then show ?case
  proof cases
    case 1
    then have "(byte_of c - 48 + 1) * 10 ^ length s \<le> (byte_of d - 48) * 10 ^ length s"
      using cd by (intro mult_right_mono) simp_all
    then have "digits_value (c # s) < digits_value (d # t)"
      using b Cons.hyps by (simp add: digits_value_Cons)
    moreover have "c < d" using 1 by (simp add: less_char_def)
    ultimately show ?thesis by simp
  next
    case 2
    then show ?thesis using IH Cons.hyps by (simp add: digits_value_Cons)
  next
    case 3
    then have "(byte_of d - 48 + 1) * 10 ^ length s \<le> (byte_of c - 48) * 10 ^ length s"
      using cd by (intro mult_right_mono) simp_all
    then have "digits_value (d # t) < digits_value (c # s)"
      using b Cons.hyps by (simp add: digits_value_Cons)
    moreover have "d < c" using 3 by (simp add: less_char_def)
    ultimately show ?thesis using 3 by auto
  qed
qed simp

lemma dec_length: "n < 10 ^ w \<Longrightarrow> 0 < w \<Longrightarrow> length (dec n) \<le> w"
proof (induction n arbitrary: w rule: dec.induct)
  case (1 n)
  show ?case
  proof (cases "n < 10")
    case True
    then show ?thesis using "1.prems" by (subst dec.simps) simp
  next
    case False
    obtain v where w: "w = Suc v" using "1.prems"(2) by (cases w) auto
    then have "n div 10 < 10 ^ v" using "1.prems"(1) by (simp add: less_mult_imp_div_less)
    moreover have "0 < v" using False w "1.prems"(1) by (cases v) auto
    ultimately have "length (dec (n div 10)) \<le> v" using "1.IH" False by blast
    then show ?thesis using False w by (subst dec.simps) simp
  qed
qed

lemma pad_left_dec:
  assumes "n < 10 ^ w" and "0 < w"
  shows "length (pad_left w (dec n)) = w" "list_all is_digit (pad_left w (dec n))"
    "digits_value (pad_left w (dec n)) = n"
  using dec_length [OF assms]
  by (simp_all add: pad_left_def digits_value_zeros list_all_append) (simp add: list_all_iff is_digit_def)

text \<open>Two padded numbers compare as the numbers, then as what follows.\<close>

lemma padded_le:
  assumes "a < 10 ^ w" and "b < 10 ^ w" and "0 < w"
  shows "pad_left w (dec a) @ x \<le> pad_left w (dec b) @ y \<longleftrightarrow> a < b \<or> (a = b \<and> x \<le> y)"
proof -
  note pa = pad_left_dec [OF assms(1,3)] and pb = pad_left_dec [OF assms(2,3)]
  have "pad_left w (dec a) = pad_left w (dec b) \<longleftrightarrow> a = b" using pa(3) pb(3) by metis
  moreover have "pad_left w (dec a) < pad_left w (dec b) \<longleftrightarrow> a < b"
    using digits_order pa pb by simp
  ultimately show ?thesis using lex_append pa(1) pb(1) by simp
qed

section \<open>Lemmas on the checkpoint and the batches\<close>

definition checkpoint_ok :: "checkpoint_entry \<Rightarrow> bool" where
  "checkpoint_ok e \<longleftrightarrow> TAB \<notin> set (cp_mailbox e) \<and> NL \<notin> set (cp_mailbox e) \<and> cp_uid e \<le> u32_max \<and>
     (case cp_uidvalidity e of None \<Rightarrow> True | Some v \<Rightarrow> v \<le> u32_max)"

interpretation checkpoint_format: line_format format_checkpoint checkpoint_row checkpoint_ok
proof unfold_locales
  fix e :: checkpoint_entry
  assume e: "checkpoint_ok e"
  then show "clean_line (format_checkpoint e)"
    by (auto simp: checkpoint_ok_def format_checkpoint_def split: option.splits)
  show "checkpoint_row (format_checkpoint e) = Some e"
  proof (cases "cp_uidvalidity e")
    case None
    then show ?thesis
      using e row_not_blank [of "cp_mailbox e" "cp_uid e" "[]"]
      by (simp add: checkpoint_ok_def format_checkpoint_def checkpoint_row_def)
  next
    case (Some v)
    then show ?thesis
      using e row_not_blank [of "cp_mailbox e" v]
      by (simp add: checkpoint_ok_def format_checkpoint_def checkpoint_row_def)
  qed
qed

lemma chunks_props:
  "concat (chunks n xs) = xs \<and>
   (\<forall>c \<in> set (chunks n xs). c \<noteq> [] \<and> length c \<le> max n 1) \<and>
   (\<forall>c \<in> set (butlast (chunks n xs)). length c = max n 1)"
proof (induction n xs rule: chunks.induct)
  case (1 n xs)
  show ?case
  proof (cases "xs = []")
    case False
    define m where "m = max n 1"
    define h where "h = take m xs"
    define r where "r = chunks n (drop m xs)"
    have c: "chunks n xs = h # r" using False unfolding h_def r_def m_def by (subst chunks.simps) simp
    have IH: "concat r = drop m xs \<and> (\<forall>c \<in> set r. c \<noteq> [] \<and> length c \<le> m) \<and> (\<forall>c \<in> set (butlast r). length c = m)"
      using "1.IH" [OF False] unfolding r_def m_def .
    have "0 < m" by (simp add: m_def)
    then have h: "h \<noteq> []" "length h \<le> m" "h @ drop m xs = xs" using False by (simp_all add: h_def)
    have "drop m xs = [] \<Longrightarrow> r = []" unfolding r_def by (simp add: chunks.simps)
    then have "r \<noteq> [] \<Longrightarrow> length h = m" unfolding h_def by force
    then show ?thesis using IH h unfolding c m_def [symmetric] by auto
  qed (simp add: chunks.simps)
qed

section \<open>Quirks\<close>

text \<open>A mailbox whose name starts with a hash sign (an IMAP namespace such as \<open>#news\<close>) is written as a
  row that every later load skips as a comment: its messages are never remembered.\<close>

lemma hash_mailbox_forgotten:
  "starts_with ''#'' (le_mailbox e) \<Longrightarrow> ledger_row (format_ledger_row e) = None"
  by (simp add: ledger_row_def format_ledger_row_def starts_with_hash)

lemma hash_row_torn:
  assumes "starts_with ''#'' (le_mailbox e)"
  shows "ledger_row (take n (format_ledger_row e)) = None"
proof (cases n)
  case (Suc k)
  obtain r where "le_mailbox e = CHR ''#'' # r" using assms by (auto simp: starts_with_iff)
  then show ?thesis by (simp add: Suc ledger_row_def format_ledger_row_def starts_with_iff)
qed (simp add: ledger_row_def)

lemma torn_append_cases:
  assumes "terminated s" and "fields_ok e"
  shows "ledger_parse (s @ take n (format_ledger_row e)) = ledger_parse s \<or>
    (\<not> starts_with ''#'' (le_mailbox e) \<and>
      (\<exists>r. le_key r = le_key e \<and> ledger_parse (s @ take n (format_ledger_row e)) = ledger_insert r (ledger_parse s)))"
proof -
  have nl: "NL \<notin> set (take n (format_ledger_row e))"
    using clean_ledger_row [OF assms(2)] by (auto simp: clean_line_def dest: in_set_takeD)
  have split: "read_rows ledger_row (s @ take n (format_ledger_row e)) =
      read_rows ledger_row s @ read_rows ledger_row (take n (format_ledger_row e))"
    using lines_terminated [OF assms(1)] by (simp add: read_rows_def map_filter_append)
  show ?thesis
  proof (cases "take n (format_ledger_row e) = []")
    case False
    then show ?thesis
      using read_rows_last [OF nl, of ledger_row] split torn_row_cases [of e n] hash_row_torn [of e n] assms(2)
      by (cases "starts_with ''#'' (le_mailbox e)") (auto simp: ledger_parse_def row_ok_def)
  qed (use split in \<open>auto simp: ledger_parse_def\<close>)
qed

text \<open>A torn ledger row that kept its third tab is read with a truncated time stamp, and since that is a
  prefix it also wins over the full one.\<close>

lemma torn_time_stamp_kept:
  "ledger_row (''a'' @ [TAB] @ ''1'' @ [TAB] @ ''2'' @ [TAB] @ ''20'') =
     Some \<lparr>le_mailbox = ''a'', le_uidvalidity = 1, le_uid = 2, le_ingested_at = ''20''\<rparr>"
  using ledger_format.prs_fmt [of "\<lparr>le_mailbox = ''a'', le_uidvalidity = 1, le_uid = 2, le_ingested_at = ''20''\<rparr>"]
  by (simp add: format_ledger_row_def row_ok_def fields_ok_def u32_max_def starts_with_iff clean_line_no_CR dec.simps)

text \<open>A torn checkpoint row can name another message: cut after \<open>1\<close>, the row of UID 25 under
  \<open>UIDVALIDITY\<close> 17 reads as a two-field row that says UID 1 was delivered.\<close>

lemma torn_checkpoint_names_another:
  "checkpoint_row (take 7 (format_checkpoint \<lparr>cp_mailbox = ''INBOX'', cp_uidvalidity = Some 17, cp_uid = 25\<rparr>)) =
     Some \<lparr>cp_mailbox = ''INBOX'', cp_uidvalidity = None, cp_uid = 1\<rparr>"
proof -
  have "take 7 (format_checkpoint \<lparr>cp_mailbox = ''INBOX'', cp_uidvalidity = Some 17, cp_uid = 25\<rparr>) =
      format_checkpoint \<lparr>cp_mailbox = ''INBOX'', cp_uidvalidity = None, cp_uid = 1\<rparr>"
    by (simp add: format_checkpoint_def dec.simps)
  then show ?thesis
    using checkpoint_format.prs_fmt [of "\<lparr>cp_mailbox = ''INBOX'', cp_uidvalidity = None, cp_uid = 1\<rparr>"]
    by (simp add: checkpoint_ok_def u32_max_def)
qed

section \<open>Properties\<close>

text \<open>The ledger file is a faithful copy of the ledger: parsing what was serialized gives the same
  ledger, and parsing any file gives, for every message, the earliest time stamp any of its rows has,
  whatever the order of the rows and however often one is repeated.\<close>

lemma ledger_round_trip:
  assumes "ledger_ok l" and "list_all row_ok (ledger_entries l)"
  shows "ledger_parse (ledger_serialize l) = l \<and>
    (\<forall>s k. ledger_map (ledger_parse s) k =
       (let ts = {le_ingested_at e | e. e \<in> set (read_rows ledger_row s) \<and> le_key e = k} in
        if ts = {} then None else Some (Min ts)))"
proof
  have "read_rows ledger_row (ledger_serialize l) = ledger_entries l"
    unfolding ledger_serialize_def parse_header using assms(2) by (rule ledger_format.read_write)
  then show "ledger_parse (ledger_serialize l) = l"
    using fold_insert_entries [OF assms(1)] by (simp add: ledger_parse_def)
next
  have "{le_ingested_at e | e. e \<in> set es \<and> le_key e = k} = set (map le_ingested_at (filter (\<lambda>e. le_key e = k) es))" for es k
    by auto
  note ts = this
  show "\<forall>s k. ledger_map (ledger_parse s) k =
       (let ts = {le_ingested_at e | e. e \<in> set (read_rows ledger_row s) \<and> le_key e = k} in
        if ts = {} then None else Some (Min ts))"
    unfolding ts by (simp add: ledger_parse_def fold_insert_map foldl_earlier Let_def del: set_map)
qed

lemma ledger_round_trip_witness:
  "let l = ledger_insert \<lparr>le_mailbox = ''INBOX'', le_uidvalidity = 7, le_uid = 3, le_ingested_at = ''2026''\<rparr> empty_ledger
   in ledger_parse (ledger_serialize l) = l \<and> ledger_map l (''INBOX'', 7, 3) = Some ''2026''"
proof -
  let ?l = "ledger_insert \<lparr>le_mailbox = ''INBOX'', le_uidvalidity = 7, le_uid = 3, le_ingested_at = ''2026''\<rparr> empty_ledger"
  have "ledger_ok ?l" by simp
  moreover have "list_all row_ok (ledger_entries ?l)"
    by (simp add: ledger_entries_def ledger_insert_def empty_ledger_def le_key_def entry_of_def row_ok_def
        fields_ok_def starts_with_iff u32_max_def clean_line_no_CR)
  moreover have "ledger_map ?l (''INBOX'', 7, 3) = Some ''2026''"
    by (simp add: ledger_map_insert earlier_def le_key_def)
  ultimately show ?thesis using ledger_round_trip [of ?l] by (simp add: Let_def)
qed

text \<open>C7. Recording a delivery is crash safe. Take a ledger file that is empty or ends in a newline, and a
  message whose mailbox name and time stamp have no tab or newline and whose numbers are 32-bit
  (\<open>fields_ok\<close>). Appending its row is the same as inserting the entry, except that a mailbox
  whose name starts with a hash sign leaves the ledger as it was (its row reads as a comment); and if
  the write is cut off anywhere, no message that was on record is lost, and no message other than the
  one being recorded becomes marked as ingested.\<close>

theorem ledger_append_crash_safe:
  assumes "terminated s" and "fields_ok e"
  shows "ledger_parse (s @ format_ledger_row e @ [NL]) =
      (if starts_with ''#'' (le_mailbox e) then ledger_parse s else ledger_insert e (ledger_parse s)) \<and>
    ingested_uids (ledger_parse (s @ take n (format_ledger_row e))) m v \<supseteq> ingested_uids (ledger_parse s) m v \<and>
    ingested_uids (ledger_parse (s @ take n (format_ledger_row e))) m v \<subseteq>
      ingested_uids (ledger_parse s) m v \<union> {u. (m, v, u) = le_key e \<and> \<not> starts_with ''#'' (le_mailbox e)}"
proof -
  have full: "ledger_parse (s @ format_ledger_row e @ [NL]) =
      (if starts_with ''#'' (le_mailbox e) then ledger_parse s else ledger_insert e (ledger_parse s))"
  proof (cases "starts_with ''#'' (le_mailbox e)")
    case True
    then show ?thesis
      using hash_mailbox_forgotten [OF True] clean_ledger_row [OF assms(2)] lines_terminated [OF assms(1)]
      by (simp add: ledger_parse_def read_rows_def lines_snoc map_filter_append List.map_filter_simps)
  next
    case False
    then show ?thesis
      using ledger_format.append_terminated [OF assms(1)] assms(2) by (simp add: ledger_parse_def row_ok_def)
  qed
  have ins: "u \<in> ingested_uids (ledger_insert x (ledger_parse s)) m v \<longleftrightarrow>
      u \<in> ingested_uids (ledger_parse s) m v \<or> le_key x = (m, v, u)" for x u
    by (auto simp: ingested_uids_iff ledger_map_insert earlier_def split: option.splits)
  show ?thesis using full torn_append_cases [OF assms, of n] ins by auto
qed

theorem ledger_append_crash_safe_witness:
  "ingested_uids (ledger_parse (take 9 (format_ledger_row
      \<lparr>le_mailbox = ''INBOX'', le_uidvalidity = 7, le_uid = 3, le_ingested_at = ''2026''\<rparr>))) ''INBOX'' 7 \<subseteq> {3}"
proof -
  let ?e = "\<lparr>le_mailbox = ''INBOX'', le_uidvalidity = 7, le_uid = 3, le_ingested_at = ''2026''\<rparr>"
  have "fields_ok ?e" by (simp add: fields_ok_def u32_max_def clean_line_no_CR)
  from ledger_append_crash_safe [OF terminated_snoc(2) this, where n = 9 and m = "''INBOX''" and v = 7]
  have "ingested_uids (ledger_parse (take 9 (format_ledger_row ?e))) ''INBOX'' 7 \<subseteq>
      ingested_uids (ledger_parse []) ''INBOX'' 7 \<union> {u. (''INBOX'', 7, u) = le_key ?e}" by auto
  also have "\<dots> = {3}"
    by (auto simp: ingested_uids_iff le_key_def ledger_parse_def)
  finally show ?thesis .
qed

text \<open>Seeding marks exactly the delivered messages: a message is on the seeded ledger if and only if
  the listing has its \<open>uid.eml\<close> under a path that exactly one mailbox has, and then under that
  mailbox's current \<open>UIDVALIDITY\<close>; a path two mailboxes share is reported and seeds nothing.\<close>

lemma seed_exact:
  assumes "seed_from_listing listing mailboxes at = (l, ambiguous)"
  shows "(u \<in> ingested_uids l m v \<longleftrightarrow>
      (\<exists>path \<in> set listing. \<exists>dir. eml_uid path = Some (dir, u) \<and>
         (\<exists>owner. owners mailboxes dir = [owner] \<and> sm_mailbox owner = m \<and> sm_uidvalidity owner = v))) \<and>
    sorted ambiguous \<and> set ambiguous = {r. 1 < length (owners mailboxes r)}"
proof -
  have l: "l = fold ledger_insert (List.map_filter (seed_entry mailboxes at) listing) empty_ledger"
    and a: "ambiguous = sort (filter (\<lambda>r. 1 < length (owners mailboxes r)) (remdups (map sm_relpath_key mailboxes)))"
    using assms by (simp_all add: seed_from_listing_def)
  have "ledger_map l k \<noteq> None \<longleftrightarrow> (\<exists>e \<in> set (List.map_filter (seed_entry mailboxes at) listing). le_key e = k)" for k
    by (auto simp: l fold_insert_map foldl_earlier filter_empty_conv)
  moreover have "(\<exists>e \<in> set (List.map_filter (seed_entry mailboxes at) listing). le_key e = k) \<longleftrightarrow>
      (\<exists>path \<in> set listing. \<exists>e. seed_entry mailboxes at path = Some e \<and> le_key e = k)" for k
    by (induction listing) (auto split: option.splits)
  moreover have "(\<exists>e. seed_entry mailboxes at path = Some e \<and> le_key e = (m, v, u)) \<longleftrightarrow>
      (\<exists>dir. eml_uid path = Some (dir, u) \<and>
         (\<exists>owner. owners mailboxes dir = [owner] \<and> sm_mailbox owner = m \<and> sm_uidvalidity owner = v))" for path
    by (auto simp: seed_entry_def le_key_def split: option.splits list.splits)
  moreover have "ledger_ok l" by (simp add: l)
  ultimately have iff: "u \<in> ingested_uids l m v \<longleftrightarrow>
      (\<exists>path \<in> set listing. \<exists>dir. eml_uid path = Some (dir, u) \<and>
         (\<exists>owner. owners mailboxes dir = [owner] \<and> sm_mailbox owner = m \<and> sm_uidvalidity owner = v))"
    by (simp add: ingested_uids_iff)
  have "1 < length (owners mailboxes r) \<Longrightarrow> r \<in> sm_relpath_key ` set mailboxes" for r
    by (cases "owners mailboxes r") (auto simp: owners_def filter_eq_Cons_iff)
  then show ?thesis using iff by (auto simp: a)
qed

lemma seed_exact_witness:
  "3 \<in> ingested_uids (fst (seed_from_listing [''inbox/3.eml'', ''x/4.eml'']
     [\<lparr>sm_mailbox = ''INBOX'', sm_relpath_key = ''inbox'', sm_uidvalidity = 7\<rparr>] ''t'')) ''INBOX'' 7"
proof -
  have "eml_uid ''inbox/3.eml'' = Some (''inbox'', 3)"
    by (simp add: eml_uid_def rsplit_once_def parse_uint_def digits_value_def is_digit_def u32_max_def
        strip_suffix_def)
  moreover have "owners [\<lparr>sm_mailbox = ''INBOX'', sm_relpath_key = ''inbox'', sm_uidvalidity = 7\<rparr>] ''inbox'' =
      [\<lparr>sm_mailbox = ''INBOX'', sm_relpath_key = ''inbox'', sm_uidvalidity = 7\<rparr>]"
    by (simp add: owners_def)
  ultimately show ?thesis
    using seed_exact [of "[''inbox/3.eml'', ''x/4.eml'']" "[\<lparr>sm_mailbox = ''INBOX'', sm_relpath_key = ''inbox'', sm_uidvalidity = 7\<rparr>]"
        "''t''" _ _ 3 "''INBOX''" 7] by (simp add: prod_eq_iff)
qed

text \<open>Comparing two ledger time stamps as strings compares the instants, which is what keeping the
  earlier one relies on.\<close>

lemma timestamps_chronological:
  assumes "ct_year a < 10000 \<and> ct_month a < 100 \<and> ct_day a < 100 \<and> ct_hour a < 100 \<and> ct_minute a < 100 \<and> ct_second a < 100"
    and "ct_year b < 10000 \<and> ct_month b < 100 \<and> ct_day b < 100 \<and> ct_hour b < 100 \<and> ct_minute b < 100 \<and> ct_second b < 100"
  shows "utc_timestamp a \<le> utc_timestamp b \<longleftrightarrow>
    [ct_year a, ct_month a, ct_day a, ct_hour a, ct_minute a, ct_second a] \<le>
    [ct_year b, ct_month b, ct_day b, ct_hour b, ct_minute b, ct_second b]"
  using assms
  by (auto simp: utc_timestamp_def padded_le)

lemma timestamps_chronological_witness:
  "utc_timestamp \<lparr>ct_year = 2026, ct_month = 2, ct_day = 28, ct_hour = 23, ct_minute = 59, ct_second = 59\<rparr> \<le>
   utc_timestamp \<lparr>ct_year = 2026, ct_month = 10, ct_day = 1, ct_hour = 0, ct_minute = 0, ct_second = 0\<rparr>"
  by (subst timestamps_chronological) simp_all

text \<open>The checkpoint remembers exactly the deliveries: reading back a checkpoint after one more
  delivery gives the old rows and the new one, and clearing a mailbox whose \<open>UIDVALIDITY\<close> changed
  forgets all of its rows, old-format ones included, and no row of any other mailbox.\<close>

lemma checkpoint_exact:
  assumes "terminated s" and "checkpoint_ok e"
    and "list_all checkpoint_ok (read_rows checkpoint_row s)"
  shows "load_checkpoint (fst (append_checkpoint True e (Text s))) = Inr (read_rows checkpoint_row s @ [e]) \<and>
    load_checkpoint (fst (clear_checkpoint_for_mailbox True m (Text s))) =
      Inr (filter (\<lambda>x. cp_mailbox x \<noteq> m) (read_rows checkpoint_row s))"
proof
  show "load_checkpoint (fst (append_checkpoint True e (Text s))) = Inr (read_rows checkpoint_row s @ [e])"
    using checkpoint_format.append_terminated [OF assms(1,2)] by (simp add: append_checkpoint_def load_checkpoint_def)
next
  let ?kept = "filter (\<lambda>x. cp_mailbox x \<noteq> m) (read_rows checkpoint_row s)"
  have "list_all checkpoint_ok ?kept" using assms(3) by (auto simp: list_all_iff)
  then have "read_rows checkpoint_row (write_rows format_checkpoint ?kept) = ?kept"
    by (rule checkpoint_format.read_write)
  moreover have "length ?kept = length (read_rows checkpoint_row s) \<Longrightarrow> read_rows checkpoint_row s = ?kept"
    by (metis filter_id_conv length_filter_less less_irrefl)
  ultimately show "load_checkpoint (fst (clear_checkpoint_for_mailbox True m (Text s))) = Inr ?kept"
    by (simp add: clear_checkpoint_for_mailbox_def load_checkpoint_def Let_def)
qed

lemma checkpoint_exact_witness:
  "load_checkpoint (fst (append_checkpoint True \<lparr>cp_mailbox = ''INBOX'', cp_uidvalidity = Some 7, cp_uid = 3\<rparr> (Text []))) =
     Inr [\<lparr>cp_mailbox = ''INBOX'', cp_uidvalidity = Some 7, cp_uid = 3\<rparr>]"
proof -
  have "checkpoint_ok \<lparr>cp_mailbox = ''INBOX'', cp_uidvalidity = Some 7, cp_uid = 3\<rparr>"
    by (simp add: checkpoint_ok_def u32_max_def)
  from checkpoint_exact [OF terminated_snoc(2) this] show ?thesis by simp
qed

end
