(* ===== verification/Recovery.thy ===== *)
theory Recovery
  imports Prelude
begin

text \<open>
  What keeps the jobs polite and patient: \<open>core/retry.rs\<close> (retries with linear backoff), \<open>core/rclone/mod.rs\<close>'s test for an unreachable endpoint,
  \<open>email_import/pace.rs\<close> (the message rate) and \<open>email_import/gate.rs\<close> (one task waits out an
  outage for all). Time is counted in nanoseconds. The gate is shared by concurrent tasks and is
  modelled as a step relation over their program points.
\<close>

section \<open>Retries\<close>

text \<open>The \<open>n\<close>th call of the closure ends as \<open>f n\<close>. The result carries the sleeps before each further
  attempt.\<close>

fun retry_from :: "(nat \<Rightarrow> string + 'a) \<Rightarrow> nat \<Rightarrow> nat \<Rightarrow> nat \<Rightarrow> string option \<Rightarrow> nat list \<times> (string + 'a)" where
  "retry_from f backoff attempt 0 last_err = ([], Inl (case last_err of
       Some err \<Rightarrow> err | None \<Rightarrow> ''retry_with_backoff called with zero attempts''))"
| "retry_from f backoff attempt (Suc left) last_err =
     (let slept = (if attempt > 0 then [backoff * attempt] else []) in
      case f attempt of
        Inr v \<Rightarrow> (slept, Inr v)
      | Inl err \<Rightarrow> (let (more, r) = retry_from f backoff (attempt + 1) left (Some err) in (slept @ more, r)))"

definition retry_with_backoff :: "nat \<Rightarrow> nat \<Rightarrow> (nat \<Rightarrow> string + 'a) \<Rightarrow> nat list \<times> (string + 'a)" where
  "retry_with_backoff attempts backoff f = retry_from f backoff 0 (max attempts 1) None"

lemma retry_from_ok:
  assumes "\<forall>i \<in> {a..<k}. \<exists>e. f i = Inl e" and "f k = Inr v" and "a \<le> k" and "k < a + n"
  shows "retry_from f b a n le = (map (\<lambda>i. b * i) (filter (\<lambda>i. 0 < i) [a..<k + 1]), Inr v)"
  using assms
proof (induction n arbitrary: a le)
  case (Suc n)
  show ?case
  proof (cases "a = k")
    case False
    then obtain e where e: "f a = Inl e" using Suc.prems by fastforce
    have "retry_from f b (a + 1) n (Some e) = (map (\<lambda>i. b * i) (filter (\<lambda>i. 0 < i) [a + 1..<k + 1]), Inr v)"
      using Suc.prems False by (intro Suc.IH) auto
    moreover have "[a..<k + 1] = a # [a + 1..<k + 1]" using Suc.prems(3) by (simp add: upt_conv_Cons)
    ultimately show ?thesis using e by simp
  qed (use Suc.prems in simp)
qed simp

lemma retry_from_err:
  assumes "\<forall>i \<in> {a..<a + n}. \<exists>e. f i = Inl e"
  shows "retry_from f b a n le =
    (map (\<lambda>i. b * i) (filter (\<lambda>i. 0 < i) [a..<a + n]),
     Inl (if n = 0 then (case le of Some e \<Rightarrow> e | None \<Rightarrow> ''retry_with_backoff called with zero attempts'')
          else projl (f (a + n - 1))))"
  using assms
proof (induction n arbitrary: a le)
  case (Suc n)
  obtain e where e: "f a = Inl e" using Suc.prems by fastforce
  have IH: "retry_from f b (a + 1) n (Some e) =
      (map (\<lambda>i. b * i) (filter (\<lambda>i. 0 < i) [a + 1..<a + 1 + n]),
       Inl (if n = 0 then e else projl (f (a + 1 + n - 1))))"
    using Suc.IH [of "a + 1" "Some e"] Suc.prems by simp
  have "[a..<a + Suc n] = a # [a + 1..<a + 1 + n]" by (simp add: upt_conv_Cons del: upt_Suc)
  then show ?case using e IH by (cases "n = 0") (simp_all del: upt_Suc)
qed simp

text \<open>The failures of rclone that mean the whole destination is unreachable.\<close>

definition ENDPOINT_UNREACHABLE_SIGNATURES :: "string list" where
  "ENDPOINT_UNREACHABLE_SIGNATURES = [''no such host'', ''dial tcp'', ''connection refused'',
     ''connection reset by peer'', ''i/o timeout'', ''no route to host'', ''network is unreachable'',
     ''TLS handshake timeout'']"

definition is_endpoint_unreachable_error :: "string \<Rightarrow> bool" where
  "is_endpoint_unreachable_error err \<longleftrightarrow>
     list_ex (\<lambda>signature. contains signature err) ENDPOINT_UNREACHABLE_SIGNATURES"

section \<open>Pace\<close>

text \<open>\<open>usize as u32\<close> keeps the low 32 bits.\<close>

definition as_u32 :: "nat \<Rightarrow> nat" where "as_u32 n = n mod 2 ^ 32"

definition reserve :: "nat \<Rightarrow> nat \<Rightarrow> nat \<Rightarrow> nat \<Rightarrow> nat \<times> nat" where
  "reserve next_allowed now count interval =
     (let start = (if next_allowed > now then next_allowed else now) in (start, start + interval * count))"

text \<open>Dividing a \<open>Duration\<close> by zero panics.\<close>

definition interval_for :: "nat \<Rightarrow> nat result" where
  "interval_for messages_per_minute =
     (let d = as_u32 (max messages_per_minute 1) in
      if d = 0 then Inl Panic else Inr (60 * 10 ^ 9 div d))"

record pacer =
  pc_next_allowed :: nat
  pc_interval :: nat

definition pacer_new :: "nat \<Rightarrow> nat \<Rightarrow> pacer result" where
  "pacer_new now messages_per_minute = bindE (interval_for messages_per_minute)
     (\<lambda>i. Inr \<lparr>pc_next_allowed = now, pc_interval = i\<rparr>)"

text \<open>One \<open>acquire\<close> at time \<open>now\<close>: the instant it waits for, and the pacer after it.\<close>

definition acquire :: "nat \<Rightarrow> nat \<Rightarrow> pacer \<Rightarrow> pacer \<times> nat" where
  "acquire now count p =
     (let (wait_until, updated) = reserve (pc_next_allowed p) now (as_u32 (max count 1)) (pc_interval p)
      in (p\<lparr>pc_next_allowed := updated\<rparr>, wait_until))"

text \<open>A run of calls \<open>(now, count)\<close> in the order they take the lock, with the windows they get.\<close>

fun acquire_all :: "(nat \<times> nat) list \<Rightarrow> pacer \<Rightarrow> pacer \<times> nat list" where
  "acquire_all [] p = (p, [])"
| "acquire_all ((now, count) # cs) p =
     (let (p1, w) = acquire now count p; (p2, ws) = acquire_all cs p1 in (p2, w # ws))"

lemma acquire_props:
  assumes "acquire now count p = (p', w)"
  shows "now \<le> w" "pc_next_allowed p \<le> w" "w = now \<or> w = pc_next_allowed p"
    "pc_next_allowed p' = w + pc_interval p * as_u32 (max count 1)" "pc_interval p' = pc_interval p"
  using assms by (auto simp: acquire_def reserve_def Let_def split: if_splits)

lemma acquire_all_later:
  "acquire_all cs p = (p', ws) \<Longrightarrow> j < length cs \<Longrightarrow>
     pc_next_allowed p + pc_interval p * (\<Sum>k<j. as_u32 (max (snd (cs ! k)) 1)) \<le> ws ! j \<and> fst (cs ! j) \<le> ws ! j"
proof (induction cs arbitrary: p p' ws j)
  case (Cons c cs)
  obtain now count where c: "c = (now, count)" by fastforce
  obtain p1 w where a: "acquire now count p = (p1, w)" by fastforce
  obtain p2 ws' where r: "acquire_all cs p1 = (p2, ws')" by fastforce
  have ws: "ws = w # ws'" using Cons.prems(1) c a r by simp
  show ?case
  proof (cases j)
    case 0
    then show ?thesis using acquire_props [OF a] ws c by simp
  next
    case (Suc i)
    have "(\<Sum>k<Suc i. as_u32 (max (snd ((c # cs) ! k)) 1)) =
        as_u32 (max count 1) + (\<Sum>k<i. as_u32 (max (snd (cs ! k)) 1))"
      by (simp add: sum.lessThan_Suc_shift c del: sum.lessThan_Suc)
    then show ?thesis
      using Cons.IH [OF r, of i] Cons.prems(2) acquire_props [OF a] ws Suc
      by (simp add: algebra_simps)
  qed
qed simp

lemma acquire_all_length: "acquire_all cs p = (p', ws) \<Longrightarrow> length ws = length cs"
  by (induction cs arbitrary: p p' ws) (auto split: prod.splits)

lemma acquire_all_drop:
  "acquire_all cs p = (p', ws) \<Longrightarrow> i < length cs \<Longrightarrow>
     \<exists>q. acquire_all (drop (Suc i) cs) q = (p', drop (Suc i) ws) \<and>
       pc_next_allowed q = ws ! i + pc_interval p * as_u32 (max (snd (cs ! i)) 1) \<and> pc_interval q = pc_interval p"
proof (induction cs arbitrary: p p' ws i)
  case (Cons c cs)
  obtain now count where c: "c = (now, count)" by fastforce
  obtain p1 w where a: "acquire now count p = (p1, w)" by fastforce
  obtain p2 ws' where r: "acquire_all cs p1 = (p2, ws')" by fastforce
  have ws: "ws = w # ws'" "p' = p2" using Cons.prems(1) c a r by simp_all
  show ?case
  proof (cases i)
    case 0
    then show ?thesis using r acquire_props [OF a] ws c by (intro exI [of _ p1]) simp
  next
    case (Suc k)
    then show ?thesis using Cons.IH [OF r, of k] Cons.prems(2) acquire_props(5) [OF a] ws by auto
  qed
qed simp

section \<open>The recovery gate\<close>

definition SERVER_OVERLOADED_SIGNATURES :: "string list" where
  "SERVER_OVERLOADED_SIGNATURES = [''too many simultaneous connections'', ''too many connections'',
     ''too many requests'', ''try again later'', ''temporarily unavailable'', ''server unavailable'',
     ''over quota'', ''rate limit'', ''throttl'']"

definition is_server_overloaded_error :: "string \<Rightarrow> bool" where
  "is_server_overloaded_error err \<longleftrightarrow>
     (let lowered = to_lower err in list_ex (\<lambda>signature. contains signature lowered) SERVER_OVERLOADED_SIGNATURES)"

datatype gate_decision = Retry | GiveUp

text \<open>Where a task stands inside \<open>wait_for_recovery\<close>: between the election and closing the gate, after
  closing it, sleeping through a round, having found the budget spent, with the gate reopened and the
  election lock still held, parked on the gate, or outside.\<close>

datatype task_point =
    Outside
  | Elected
  | Closed
  | Sleeping nat
  | Latching
  | Reopened gate_decision
  | Parked
  | Decided gate_decision

text \<open>The gate and its tasks. \<open>g_slept\<close> is a ghost: the rounds slept so far.\<close>

record gate =
  g_open :: bool
  g_prober :: "nat option"
  g_rounds :: nat
  g_max_rounds :: nat
  g_backoff :: nat
  g_tasks :: "nat \<Rightarrow> task_point"
  g_slept :: "nat list"

definition gate_new :: "nat \<Rightarrow> nat \<Rightarrow> gate" where
  "gate_new max_rounds backoff = \<lparr>g_open = True, g_prober = None, g_rounds = 0, g_max_rounds = max_rounds,
     g_backoff = backoff, g_tasks = (\<lambda>_. Outside), g_slept = []\<rparr>"

abbreviation at_point :: "nat \<Rightarrow> task_point \<Rightarrow> gate \<Rightarrow> gate" where
  "at_point t p g \<equiv> g\<lparr>g_tasks := (g_tasks g)(t := p)\<rparr>"

definition parked_decision :: "gate \<Rightarrow> gate_decision" where
  "parked_decision g = (if g_rounds g > g_max_rounds g then GiveUp else Retry)"

inductive gate_step :: "gate \<Rightarrow> gate \<Rightarrow> bool" where
  elect: "g_tasks g t = Outside \<Longrightarrow> g_prober g = None \<Longrightarrow>
     gate_step g (at_point t Elected (g\<lparr>g_prober := Some t\<rparr>))"
| park: "g_tasks g t = Outside \<Longrightarrow> g_prober g \<noteq> None \<Longrightarrow> gate_step g (at_point t Parked g)"
| close: "g_tasks g t = Elected \<Longrightarrow> gate_step g (at_point t Closed (g\<lparr>g_open := False\<rparr>))"
| spend: "g_tasks g t = Closed \<Longrightarrow> g_rounds g + 1 \<le> g_max_rounds g \<Longrightarrow>
     gate_step g (at_point t (Sleeping (g_rounds g + 1)) (g\<lparr>g_rounds := g_rounds g + 1\<rparr>))"
| latch: "g_tasks g t = Closed \<Longrightarrow> g_rounds g + 1 > g_max_rounds g \<Longrightarrow>
     gate_step g (at_point t Latching (g\<lparr>g_rounds := g_rounds g + 1\<rparr>))"
| wake: "g_tasks g t = Sleeping r \<Longrightarrow>
     gate_step g (at_point t (Reopened Retry) (g\<lparr>g_open := True, g_slept := g_slept g @ [r]\<rparr>))"
| reopen: "g_tasks g t = Latching \<Longrightarrow> gate_step g (at_point t (Reopened GiveUp) (g\<lparr>g_open := True\<rparr>))"
| release: "g_tasks g t = Reopened d \<Longrightarrow> gate_step g (at_point t (Decided d) (g\<lparr>g_prober := None\<rparr>))"
| unpark: "g_tasks g t = Parked \<Longrightarrow> g_open g \<Longrightarrow> gate_step g (at_point t (Decided (parked_decision g)) g)"
| leave: "g_tasks g t = Decided d \<Longrightarrow> gate_step g (at_point t Outside g)"

inductive gate_steps :: "gate \<Rightarrow> gate \<Rightarrow> bool" where
  gate_refl: "gate_steps g g"
| gate_trans: "gate_steps g h \<Longrightarrow> gate_step h k \<Longrightarrow> gate_steps g k"

definition holds_lock :: "task_point \<Rightarrow> bool" where
  "holds_lock p \<longleftrightarrow> p \<in> {Elected, Closed, Latching} \<or> (\<exists>r. p = Sleeping r) \<or> (\<exists>d. p = Reopened d)"

lemma point_simps [simp]:
  "holds_lock Elected" "holds_lock Closed" "holds_lock (Sleeping r)" "holds_lock Latching" "holds_lock (Reopened d)"
  "\<not> holds_lock Outside" "\<not> holds_lock Parked" "\<not> holds_lock (Decided d)"
  by (simp_all add: holds_lock_def)

text \<open>What holds at every moment, by the program point of the lock holder. The gate is closed from its
  closing to its reopening and at no other time; the rounds slept are \<open>1, 2, ...\<close> in order and never
  more than the budget; a giving up means the budget is overspent.\<close>

definition all_slept :: "gate \<Rightarrow> bool" where
  "all_slept g \<longleftrightarrow> g_slept g = [1..<min (g_rounds g) (g_max_rounds g) + 1]"

definition phase_ok :: "gate \<Rightarrow> task_point \<Rightarrow> bool" where
  "phase_ok g p = (case p of
     Elected \<Rightarrow> g_open g \<and> all_slept g
   | Closed \<Rightarrow> \<not> g_open g \<and> all_slept g
   | Sleeping r \<Rightarrow> \<not> g_open g \<and> r = g_rounds g \<and> 0 < r \<and> r \<le> g_max_rounds g \<and> g_slept g = [1..<r]
   | Latching \<Rightarrow> \<not> g_open g \<and> all_slept g \<and> g_rounds g > g_max_rounds g
   | Reopened d \<Rightarrow> g_open g \<and> all_slept g \<and> (d = GiveUp \<longleftrightarrow> g_rounds g > g_max_rounds g)
   | _ \<Rightarrow> False)"

definition gate_inv :: "gate \<Rightarrow> bool" where
  "gate_inv g \<longleftrightarrow> (\<forall>t. holds_lock (g_tasks g t) \<longleftrightarrow> g_prober g = Some t) \<and>
     (case g_prober g of None \<Rightarrow> g_open g \<and> all_slept g | Some p \<Rightarrow> phase_ok g (g_tasks g p))"

lemma gate_new_inv: "gate_inv (gate_new m b)"
  by (simp add: gate_inv_def gate_new_def all_slept_def)

lemma gate_inv_prober: "gate_inv g \<Longrightarrow> holds_lock (g_tasks g t) \<Longrightarrow> g_prober g = Some t \<and> phase_ok g (g_tasks g t)"
  by (auto simp: gate_inv_def)

lemma phase_ok_tasks [simp]: "phase_ok (g\<lparr>g_tasks := f\<rparr>) p \<longleftrightarrow> phase_ok g p"
  by (simp add: phase_ok_def all_slept_def split: task_point.splits)

text \<open>A task without the lock moves without taking it; the holder moves to a point its phase allows.\<close>

lemma gate_inv_other:
  assumes "gate_inv g" and "\<not> holds_lock (g_tasks g t)" and "\<not> holds_lock p"
  shows "gate_inv (at_point t p g)"
proof -
  have l: "\<forall>u. holds_lock (g_tasks g u) \<longleftrightarrow> g_prober g = Some u" using assms(1) by (simp add: gate_inv_def)
  have "\<forall>u. holds_lock (((g_tasks g)(t := p)) u) \<longleftrightarrow> g_prober g = Some u" using l assms(2,3) by auto
  moreover have "g_prober g \<noteq> Some t" using l assms(2) by blast
  ultimately show ?thesis
    using assms(1) by (auto simp: gate_inv_def all_slept_def split: option.splits)
qed

lemma gate_inv_holder:
  assumes "gate_inv g" and "holds_lock (g_tasks g t)" and "holds_lock p" and "phase_ok g' p"
    and "g_prober g' = g_prober g" and "g_tasks g' = (g_tasks g)(t := p)"
  shows "gate_inv g'"
proof -
  have l: "\<forall>u. holds_lock (g_tasks g u) \<longleftrightarrow> g_prober g = Some u" using assms(1) by (simp add: gate_inv_def)
  then have t: "g_prober g = Some t" using assms(2) by blast
  have "\<forall>u. holds_lock (g_tasks g' u) \<longleftrightarrow> g_prober g' = Some u"
    using l t assms(3,5,6) by auto
  then show ?thesis using t assms(4,5,6) by (simp add: gate_inv_def)
qed

lemma gate_step_inv: "gate_step g g' \<Longrightarrow> gate_inv g \<Longrightarrow> gate_inv g'"
proof (induction rule: gate_step.induct)
  case (elect g t)
  have l: "\<forall>u. \<not> holds_lock (g_tasks g u)" "g_open g \<and> all_slept g"
    using elect by (simp_all add: gate_inv_def)
  then show ?case by (simp add: gate_inv_def phase_ok_def all_slept_def)
next
  case (close g t)
  then have "phase_ok g Elected" using gate_inv_prober [of g t] by simp
  then have "phase_ok (g\<lparr>g_open := False\<rparr>) Closed" by (simp add: phase_ok_def all_slept_def)
  then show ?case using close by - (rule gate_inv_holder [of g t Closed], simp_all)
next
  case (spend g t)
  then have "phase_ok g Closed" using gate_inv_prober [of g t] by simp
  then have "phase_ok (g\<lparr>g_rounds := g_rounds g + 1\<rparr>) (Sleeping (g_rounds g + 1))"
    using spend.hyps(2) by (simp add: phase_ok_def all_slept_def min_def)
  then show ?case using spend by - (rule gate_inv_holder [of g t "Sleeping (g_rounds g + 1)"], simp_all)
next
  case (latch g t)
  then have "phase_ok g Closed" using gate_inv_prober [of g t] by simp
  then have "phase_ok (g\<lparr>g_rounds := g_rounds g + 1\<rparr>) Latching"
    using latch.hyps(2) by (simp add: phase_ok_def all_slept_def min_absorb2 del: upt_Suc)
  then show ?case using latch by - (rule gate_inv_holder [of g t Latching], simp_all)
next
  case (wake g t r)
  then have "phase_ok g (Sleeping r)" using gate_inv_prober [of g t] by simp
  then have "phase_ok (g\<lparr>g_open := True, g_slept := g_slept g @ [r]\<rparr>) (Reopened Retry)"
    by (simp add: phase_ok_def all_slept_def min_def)
  then show ?case using wake by - (rule gate_inv_holder [of g t "Reopened Retry"], simp_all)
next
  case (reopen g t)
  then have "phase_ok g Latching" using gate_inv_prober [of g t] by simp
  then have "phase_ok (g\<lparr>g_open := True\<rparr>) (Reopened GiveUp)" by (simp add: phase_ok_def all_slept_def)
  then show ?case using reopen by - (rule gate_inv_holder [of g t "Reopened GiveUp"], simp_all)
next
  case (release g t d)
  have l: "\<forall>u. holds_lock (g_tasks g u) \<longleftrightarrow> g_prober g = Some u" using release by (simp add: gate_inv_def)
  moreover have "g_prober g = Some t" "phase_ok g (Reopened d)"
    using gate_inv_prober [of g t] release by simp_all
  ultimately show ?case by (simp add: gate_inv_def phase_ok_def all_slept_def)
qed (rule gate_inv_other; simp)+

lemma gate_steps_inv: "gate_steps g h \<Longrightarrow> gate_inv g \<Longrightarrow> gate_inv h"
  by (induction rule: gate_steps.induct) (auto intro: gate_step_inv)

lemma gate_step_frame:
  "gate_step g h \<Longrightarrow> g_rounds g \<le> g_rounds h \<and> g_max_rounds h = g_max_rounds g \<and> g_backoff h = g_backoff g"
  by (induction rule: gate_step.induct) auto

lemma gate_steps_frame:
  "gate_steps g h \<Longrightarrow> g_rounds g \<le> g_rounds h \<and> g_max_rounds h = g_max_rounds g \<and> g_backoff h = g_backoff g"
  by (induction rule: gate_steps.induct) (auto dest: gate_step_frame)

text \<open>The slept rounds are an initial piece of the budget.\<close>

lemma slept_bound:
  assumes "gate_inv g"
  shows "\<exists>k \<le> g_max_rounds g. g_slept g = [1..<k + 1]"
proof (cases "g_prober g")
  case None
  then show ?thesis using assms
    by (intro exI [of _ "min (g_rounds g) (g_max_rounds g)"]) (simp add: gate_inv_def all_slept_def)
next
  case (Some p)
  then have "phase_ok g (g_tasks g p)" using assms by (simp add: gate_inv_def)
  then have "all_slept g \<or> (\<exists>r. 0 < r \<and> r \<le> g_max_rounds g \<and> g_slept g = [1..<r])"
    by (auto simp: phase_ok_def split: task_point.splits)
  then show ?thesis
  proof
    assume "all_slept g"
    then show ?thesis
      by (intro exI [of _ "min (g_rounds g) (g_max_rounds g)"]) (simp add: all_slept_def)
  next
    assume "\<exists>r. 0 < r \<and> r \<le> g_max_rounds g \<and> g_slept g = [1..<r]"
    then obtain r where "0 < r" "r \<le> g_max_rounds g" "g_slept g = [1..<r]" by blast
    then show ?thesis by (intro exI [of _ "r - 1"]) simp
  qed
qed

lemma sum_upt: "2 * sum_list [1..<k + 1] = k * (k + 1)"
  by (induction k) simp_all

text \<open>Whenever the gate is closed its holder can go on, without any other task, and reopens it.\<close>

lemma closed_gate_reopens:
  assumes "gate_inv g" and "\<not> g_open g"
  shows "\<exists>h. gate_steps g h \<and> g_open h \<and> (\<forall>t. g_tasks g t = Parked \<longrightarrow> g_tasks h t = Parked)"
proof -
  have one: "gate_step a b \<Longrightarrow> gate_steps a b" for a b using gate_refl gate_trans by blast
  obtain p where p: "g_prober g = Some p" "phase_ok g (g_tasks g p)"
    using assms by (cases "g_prober g") (auto simp: gate_inv_def)
  have wakes: "g_tasks a p = Sleeping r \<Longrightarrow>
      \<exists>h. gate_steps a h \<and> g_open h \<and> (\<forall>t. g_tasks a t = Parked \<longrightarrow> g_tasks h t = Parked)" for a r
    by (rule exI, rule conjI [OF one [OF wake]]) auto
  have reopens: "g_tasks a p = Latching \<Longrightarrow>
      \<exists>h. gate_steps a h \<and> g_open h \<and> (\<forall>t. g_tasks a t = Parked \<longrightarrow> g_tasks h t = Parked)" for a
    by (rule exI, rule conjI [OF one [OF reopen]]) auto
  consider r where "g_tasks g p = Sleeping r" | "g_tasks g p = Latching" | "g_tasks g p = Closed"
    using p(2) assms(2) by (auto simp: phase_ok_def split: task_point.splits)
  then show ?thesis
  proof cases
    case 3
    have step: "\<exists>a. gate_step g a \<and> (g_tasks a p = Sleeping (g_rounds g + 1) \<or> g_tasks a p = Latching) \<and>
        (\<forall>t. g_tasks g t = Parked \<longrightarrow> g_tasks a t = Parked)"
    proof (cases "g_rounds g + 1 \<le> g_max_rounds g")
      case True
      show ?thesis by (rule exI, rule conjI [OF spend [OF 3 True]]) (auto simp: 3)
    next
      case False
      then have "g_rounds g + 1 > g_max_rounds g" by simp
      show ?thesis by (rule exI, rule conjI [OF latch [OF 3 \<open>g_rounds g + 1 > g_max_rounds g\<close>]]) (auto simp: 3)
    qed
    then obtain a where a: "gate_step g a" "g_tasks a p = Sleeping (g_rounds g + 1) \<or> g_tasks a p = Latching"
      "\<forall>t. g_tasks g t = Parked \<longrightarrow> g_tasks a t = Parked" by blast
    then obtain h where h: "gate_steps a h" "g_open h" "\<forall>t. g_tasks a t = Parked \<longrightarrow> g_tasks h t = Parked"
      using wakes reopens by blast
    have "gate_steps x h \<Longrightarrow> gate_step g x \<Longrightarrow> gate_steps g h" for x
    proof (induction rule: gate_steps.induct)
      case (gate_refl g') then show ?case by (rule one)
    next
      case (gate_trans g' h' k) then show ?case using gate_steps.gate_trans by blast
    qed
    then show ?thesis using a h by blast
  qed (use wakes reopens in blast)+
qed

text \<open>Asking for a multiple of \<open>2 ^ 32\<close> messages a minute truncates to a division by zero.\<close>

lemma interval_truncation_panics: "interval_for (2 ^ 32) = Inl Panic"
  by (simp add: interval_for_def as_u32_def)

lemma filter_positive: "filter (\<lambda>i. 0 < i) [0..<n] = [1..<n]"
  by (induction n) auto

section \<open>Properties\<close>

text \<open>Retrying makes at most \<open>max attempts 1\<close> calls, stops at the first success with its value, and
  otherwise reports the last error; the sleeps are \<open>backoff\<close>, \<open>2 * backoff\<close>, ... and nothing is slept
  after the last call.\<close>

lemma retry_is_linear:
  assumes "\<forall>i < k. \<exists>e. f i = Inl e"
  shows "(k < max attempts 1 \<and> f k = Inr v \<longrightarrow>
      retry_with_backoff attempts b f = (map (\<lambda>i. b * i) [1..<k + 1], Inr v)) \<and>
    (k = max attempts 1 \<longrightarrow>
      retry_with_backoff attempts b f = (map (\<lambda>i. b * i) [1..<k], Inl (projl (f (k - 1)))) \<and>
      2 * sum_list (fst (retry_with_backoff attempts b f)) = b * (k * (k - 1)))"
proof (intro conjI impI)
  assume "k < max attempts 1 \<and> f k = Inr v"
  then show "retry_with_backoff attempts b f = (map (\<lambda>i. b * i) [1..<k + 1], Inr v)"
    using retry_from_ok [of 0 k f v "max attempts 1" b None] assms
    by (simp add: retry_with_backoff_def filter_positive del: upt_Suc)
next
  assume k: "k = max attempts 1"
  then show r: "retry_with_backoff attempts b f = (map (\<lambda>i. b * i) [1..<k], Inl (projl (f (k - 1))))"
    using retry_from_err [of 0 "max attempts 1" f b None] assms
    by (simp add: retry_with_backoff_def filter_positive)
  have "2 * sum_list (map (\<lambda>i. b * i) [1..<k]) = b * (2 * sum_list [1..<k])"
    by (simp add: sum_list_const_mult mult.left_commute)
  also have "\<dots> = b * (k * (k - 1))"
  proof (cases k)
    case (Suc n)
    then show ?thesis using sum_upt [of n] by (simp add: mult.commute del: upt_Suc)
  qed simp
  finally show "2 * sum_list (fst (retry_with_backoff attempts b f)) = b * (k * (k - 1))" using r by simp
qed

lemma retry_is_linear_witness:
  "retry_with_backoff 4 30 (\<lambda>i. if i < 2 then Inl ''down'' else Inr (7::nat)) = ([30, 60], Inr 7) \<and>
   sum_list (fst (retry_with_backoff 4 30 (\<lambda>i. Inl ''down'' :: string + nat))) = 180"
proof -
  have "retry_with_backoff 4 30 (\<lambda>i. if i < 2 then Inl ''down'' else Inr (7::nat)) = (map (\<lambda>i. 30 * i) [1..<2 + 1], Inr 7)"
    using retry_is_linear [of 2 "\<lambda>i. if i < 2 then Inl ''down'' else Inr (7::nat)" 4 7 30] by simp
  then have "retry_with_backoff 4 30 (\<lambda>i. if i < 2 then Inl ''down'' else Inr (7::nat)) = ([30, 60], Inr 7)"
    by (simp add: upt_rec)
  moreover have "2 * sum_list (fst (retry_with_backoff 4 30 (\<lambda>i. Inl ''down'' :: string + nat))) = 30 * (4 * (4 - 1))"
    by (rule retry_is_linear [of 4 _ 4 undefined 30, THEN conjunct2, THEN mp, THEN conjunct2]) simp_all
  then have "sum_list (fst (retry_with_backoff 4 30 (\<lambda>i. Inl ''down'' :: string + nat))) = 180" by linarith
  ultimately show ?thesis by blast
qed

text \<open>C26. The pacer holds the rate whatever the timing of the callers: no window opens before it is asked
  for, and between two windows of a run there is always at least one interval for every message reserved
  from the first on, so idle time is never paid back as a burst. (A request for no message counts as one, and the
  number of messages is cut to 32 bits as the code casts it.)\<close>

theorem pacer_rate:
  assumes "acquire_all cs p = (p', ws)" and "i < j" and "j < length cs"
  shows "fst (cs ! i) \<le> ws ! i \<and>
    ws ! i + pc_interval p * (\<Sum>k \<in> {i..<j}. as_u32 (max (snd (cs ! k)) 1)) \<le> ws ! j"
proof -
  obtain q where q: "acquire_all (drop (Suc i) cs) q = (p', drop (Suc i) ws)"
    "pc_next_allowed q = ws ! i + pc_interval p * as_u32 (max (snd (cs ! i)) 1)" "pc_interval q = pc_interval p"
    using acquire_all_drop [OF assms(1), of i] assms(2,3) by auto
  have len: "length ws = length cs" using acquire_all_length [OF assms(1)] .
  have "ws ! i + pc_interval p * as_u32 (max (snd (cs ! i)) 1) +
      pc_interval p * (\<Sum>k<j - Suc i. as_u32 (max (snd (drop (Suc i) cs ! k)) 1)) \<le> drop (Suc i) ws ! (j - Suc i)"
    using acquire_all_later [OF q(1), of "j - Suc i"] q(2,3) assms(2,3) by simp
  moreover have "drop (Suc i) ws ! (j - Suc i) = ws ! j" using assms(2,3) len by simp
  moreover have "(\<Sum>k<j - Suc i. as_u32 (max (snd (drop (Suc i) cs ! k)) 1)) =
      (\<Sum>k \<in> {Suc i..<j}. as_u32 (max (snd (cs ! k)) 1))"
    using assms(2,3) by (intro sum.reindex_bij_witness [of _ "\<lambda>k. k - Suc i" "\<lambda>k. k + Suc i"]) (auto simp: add.commute)
  moreover have "(\<Sum>k \<in> {i..<j}. as_u32 (max (snd (cs ! k)) 1)) =
      as_u32 (max (snd (cs ! i)) 1) + (\<Sum>k \<in> {Suc i..<j}. as_u32 (max (snd (cs ! k)) 1))"
    using assms(2) by (rule sum.atLeast_Suc_lessThan)
  moreover have "fst (cs ! i) \<le> ws ! i"
    using acquire_all_later [OF assms(1), of i] assms(2,3) by simp
  ultimately show ?thesis by (simp add: algebra_simps)
qed

theorem pacer_rate_witness:
  "snd (acquire_all [(100, 2), (100, 1), (900, 1)] \<lparr>pc_next_allowed = 0, pc_interval = 50\<rparr>) = [100, 200, 900] \<and>
   100 + 50 * (\<Sum>k \<in> {0..<1}. as_u32 (max (snd ([(100, 2), (100, 1), (900, 1)] ! k)) 1)) \<le> (200::nat)"
proof -
  obtain p' ws where r: "acquire_all [(100, 2), (100, 1), (900, 1)] \<lparr>pc_next_allowed = 0, pc_interval = 50\<rparr> = (p', ws)"
    by fastforce
  then have ws: "ws = [100, 200, 900]" by (auto simp: acquire_def reserve_def as_u32_def Let_def)
  show ?thesis using pacer_rate [OF r, of 0 1] ws r by simp
qed

text \<open>C8. One outage costs the run one bounded wait. From any interleaving of tasks: at most one task
  probes at a time; a closed gate always reopens by its prober's own steps, so parked tasks are never
  stranded; the rounds slept are \<open>1, 2, ...\<close>, each at most once for the whole run and never past the
  budget; and once a task was told to give up, every later parked task and every later prober gives up.\<close>

theorem gate_bounded_wait:
  assumes "gate_steps (gate_new m b) g"
  shows "(\<forall>t u. holds_lock (g_tasks g t) \<and> holds_lock (g_tasks g u) \<longrightarrow> t = u) \<and>
    (\<not> g_open g \<longrightarrow> (\<exists>h. gate_steps g h \<and> g_open h \<and> (\<forall>t. g_tasks g t = Parked \<longrightarrow> g_tasks h t = Parked))) \<and>
    (\<exists>k \<le> m. g_slept g = [1..<k + 1] \<and> 2 * (g_backoff g * sum_list (g_slept g)) \<le> b * (m * (m + 1))) \<and>
    (\<forall>t h. g_tasks g t = Reopened GiveUp \<and> gate_steps g h \<longrightarrow>
       parked_decision h = GiveUp \<and> (\<forall>u. g_tasks h u \<noteq> Reopened Retry \<and> (\<forall>r. g_tasks h u \<noteq> Sleeping r)))"
proof (intro conjI)
  have inv: "gate_inv g" using assms gate_steps_inv gate_new_inv by blast
  have frame: "g_max_rounds g = m" "g_backoff g = b"
    using gate_steps_frame [OF assms] by (simp_all add: gate_new_def)
  show "\<forall>t u. holds_lock (g_tasks g t) \<and> holds_lock (g_tasks g u) \<longrightarrow> t = u"
    using gate_inv_prober [OF inv] by (metis option.inject)
  show "\<not> g_open g \<longrightarrow> (\<exists>h. gate_steps g h \<and> g_open h \<and> (\<forall>t. g_tasks g t = Parked \<longrightarrow> g_tasks h t = Parked))"
    using closed_gate_reopens [OF inv] by blast
  obtain k where k: "k \<le> m" "g_slept g = [1..<k + 1]" using slept_bound [OF inv] frame by auto
  have "k * (k + 1) \<le> m * (m + 1)" using k(1) by (intro mult_le_mono) simp_all
  then have "2 * (g_backoff g * sum_list (g_slept g)) \<le> b * (m * (m + 1))"
    using sum_upt [of k] frame k(2) by (metis mult.left_commute mult_le_mono2)
  then show "\<exists>k \<le> m. g_slept g = [1..<k + 1] \<and> 2 * (g_backoff g * sum_list (g_slept g)) \<le> b * (m * (m + 1))"
    using k by blast
  show "\<forall>t h. g_tasks g t = Reopened GiveUp \<and> gate_steps g h \<longrightarrow>
       parked_decision h = GiveUp \<and> (\<forall>u. g_tasks h u \<noteq> Reopened Retry \<and> (\<forall>r. g_tasks h u \<noteq> Sleeping r))"
  proof (intro allI impI)
    fix t h
    assume gu: "g_tasks g t = Reopened GiveUp \<and> gate_steps g h"
    then have "phase_ok g (Reopened GiveUp)" using gate_inv_prober [OF inv, of t] by simp
    then have over: "g_rounds h > g_max_rounds h"
      using gate_steps_frame gu by (fastforce simp: phase_ok_def)
    have ih: "gate_inv h" using gu inv gate_steps_inv by blast
    have "\<not> phase_ok h (Reopened Retry)" "\<not> phase_ok h (Sleeping r)" for r
      using over by (auto simp: phase_ok_def)
    then have "g_tasks h u \<noteq> Reopened Retry \<and> g_tasks h u \<noteq> Sleeping r" for u r
      using gate_inv_prober [OF ih, of u] by (metis point_simps(3,5))
    then show "parked_decision h = GiveUp \<and> (\<forall>u. g_tasks h u \<noteq> Reopened Retry \<and> (\<forall>r. g_tasks h u \<noteq> Sleeping r))"
      using over by (simp add: parked_decision_def)
  qed
qed

theorem gate_bounded_wait_witness:
  "\<exists>g. gate_steps (gate_new 0 60) g \<and> g_tasks g 1 = Reopened GiveUp \<and> g_slept g = [] \<and> parked_decision g = GiveUp"
proof -
  let ?a = "at_point 1 Elected (gate_new 0 60\<lparr>g_prober := Some 1\<rparr>)"
  let ?b = "at_point 1 Closed (?a\<lparr>g_open := False\<rparr>)"
  let ?c = "at_point 1 Latching (?b\<lparr>g_rounds := g_rounds ?b + 1\<rparr>)"
  let ?d = "at_point 1 (Reopened GiveUp) (?c\<lparr>g_open := True\<rparr>)"
  have s1: "gate_step (gate_new 0 60) ?a" by (rule elect) (simp_all add: gate_new_def)
  have s2: "gate_step ?a ?b" by (rule close) simp
  have s3: "gate_step ?b ?c" by (rule latch) (simp_all add: gate_new_def)
  have s4: "gate_step ?c ?d" by (rule reopen) simp
  have run: "gate_steps (gate_new 0 60) ?d"
    by (rule gate_trans [OF gate_trans [OF gate_trans [OF gate_trans [OF gate_refl s1] s2] s3] s4])
  have t: "g_tasks ?d 1 = Reopened GiveUp" by simp
  note g = gate_bounded_wait [OF run, THEN conjunct2, THEN conjunct2, THEN conjunct2, rule_format, OF conjI [OF t gate_refl]]
  have "g_slept ?d = []" by (simp add: gate_new_def)
  then show ?thesis using run t conjunct1 [OF g] by blast
qed

end
