(* ===== verification/EmailImport.thy ===== *)
theory EmailImport
  imports Ledger Recovery RcloneConfig
begin

text \<open>
  \<open>email import\<close>: the mailbox bookkeeping of \<open>email_import/sink.rs\<close>, what is pending
  (\<open>email_import/mod.rs\<close>), one message's delivery and the workers' queue
  (\<open>email_import/worker.rs\<close>), and the object keys of \<open>push.rs\<close>. IMAP sessions, rclone and the
  file system are environments that say how each call ends.
\<close>

section \<open>Mailboxes\<close>

text \<open>\<open>str::split\<close> on a non-empty string: \<open>skip\<close> counts the rest of a delimiter just found.\<close>

fun split_str :: "string \<Rightarrow> nat \<Rightarrow> string \<Rightarrow> string list" where
  "split_str d skip [] = [[]]"
| "split_str d (Suc k) (c # cs) = split_str d k cs"
| "split_str d 0 (c # cs) =
     (if starts_with d (c # cs) then [] # split_str d (length d - 1) cs
      else (case split_str d 0 cs of [] \<Rightarrow> [[c]] | p # ps \<Rightarrow> (c # p) # ps))"

text \<open>A relative path is its list of components.\<close>

definition sanitize_mailbox_path :: "string \<Rightarrow> string option \<Rightarrow> string list" where
  "sanitize_mailbox_path name delimiter =
     (let segments = (case delimiter of
        Some d \<Rightarrow> if d \<noteq> [] then split_str d 0 name else [name] | None \<Rightarrow> [name]) in
      filter (\<lambda>segment. segment \<noteq> []) (map sanitize_segment segments))"

definition missing_uids :: "nat set \<Rightarrow> nat set \<Rightarrow> nat list" where
  "missing_uids server local = sorted_list_of_set (server - local)"

definition is_stale :: "nat option \<Rightarrow> nat \<Rightarrow> bool" where
  "is_stale on_disk_validity current_validity = (case on_disk_validity of
     Some v \<Rightarrow> v \<noteq> current_validity | None \<Rightarrow> False)"

definition read_uidvalidity :: "string option \<Rightarrow> nat option" where
  "read_uidvalidity file = Option.bind file (\<lambda>s. parse_u32 (trim s))"

definition write_uidvalidity :: "bool \<Rightarrow> nat \<Rightarrow> string option \<Rightarrow> string option \<times> unit result" where
  "write_uidvalidity writable v file =
     (if writable then (Some (dec v), Inr ()) else (file, Inl (Err ''failed to write .uidvalidity'')))"

section \<open>What is pending\<close>

record mailbox_state =
  ms_mailbox :: string
  ms_relpath :: "string list"
  ms_uidvalidity :: nat
  ms_server_uids :: "nat set"

record pending_mailbox =
  pm_mailbox :: string
  pm_relpath :: "string list"
  pm_uidvalidity :: nat
  pm_uids :: "nat list"

record identity_summary =
  is_alias :: string
  is_mailboxes :: nat
  is_pending_messages :: nat

definition seed_mailbox_of :: "mailbox_state \<Rightarrow> seed_mailbox" where
  "seed_mailbox_of s = \<lparr>sm_mailbox = ms_mailbox s, sm_relpath_key = relpath_key (ms_relpath s),
     sm_uidvalidity = ms_uidvalidity s\<rparr>"

datatype delivered = DeliveredLedger ledger | DeliveredCheckpoint "(string \<times> nat) set"

definition uids_for :: "delivered \<Rightarrow> mailbox_state \<Rightarrow> nat set" where
  "uids_for d s = (case d of
     DeliveredLedger l \<Rightarrow> ingested_uids l (ms_mailbox s) (ms_uidvalidity s)
   | DeliveredCheckpoint done \<Rightarrow> snd ` {x \<in> done. fst x = ms_mailbox s})"

fun pending_loop :: "delivered \<Rightarrow> mailbox_state list \<Rightarrow> identity_summary \<Rightarrow> pending_mailbox list \<Rightarrow>
    pending_mailbox list \<times> identity_summary" where
  "pending_loop d [] summary acc = (acc, summary)"
| "pending_loop d (s # ss) summary acc =
     (let pending = missing_uids (ms_server_uids s) (uids_for d s) in
      if pending = [] then pending_loop d ss summary acc
      else pending_loop d ss
        (summary\<lparr>is_mailboxes := is_mailboxes summary + 1,
                 is_pending_messages := is_pending_messages summary + length pending\<rparr>)
        (acc @ [\<lparr>pm_mailbox = ms_mailbox s, pm_relpath = ms_relpath s, pm_uidvalidity = ms_uidvalidity s,
                  pm_uids = pending\<rparr>]))"

text \<open>How the remote calls of a ledger load end: the listing of the state directory, the pull of the
  file and its text, the listing of the destination, the local write and the upload.\<close>

record ledger_env =
  le_listing :: "string list result"
  le_pull :: "unit result"
  le_text :: "string result"
  le_destination_listing :: "string list result"
  le_now :: string
  le_write_local :: "unit result"
  le_upload :: "unit result"

definition identity_dir_address :: "remote_target \<Rightarrow> string \<Rightarrow> string" where
  "identity_dir_address target email = address target @ sanitize_segment email @ ''/''"

definition download_state :: "ledger_env \<Rightarrow> string \<Rightarrow> string option result" where
  "download_state env name = bindE (le_listing env) (\<lambda>names.
     if name \<notin> set names then Inr None
     else bindE (le_pull env) (\<lambda>_. bindE (le_text env) (\<lambda>tx. Inr (Some tx))))"

text \<open>The result and what was uploaded.\<close>

definition load_or_seed ::
  "ledger_env \<Rightarrow> remote_target \<Rightarrow> bool \<Rightarrow> string \<Rightarrow> string \<Rightarrow> seed_mailbox list \<Rightarrow> (ledger \<times> bool) result \<times> string option" where
  "load_or_seed env ledger_target has_destination alias email mailboxes = (case download_state env LEDGER_FILE of
     Inl e \<Rightarrow> (Inl e, None)
   | Inr (Some tx) \<Rightarrow> (Inr (ledger_parse tx, False), None)
   | Inr None \<Rightarrow>
       if \<not> has_destination then
         (Inl (Err (''no ledger for '' @ [CHR 0x27] @ alias @ [CHR 0x27] @ '' at '' @
           identity_dir_address ledger_target email @ LEDGER_FILE @ ''; --destination is required to seed it'')), None)
       else case le_destination_listing env of
         Inl e \<Rightarrow> (Inl e, None)
       | Inr listing \<Rightarrow>
           (let (l, ambiguous) = seed_from_listing listing mailboxes (le_now env) in
            case le_write_local env of
              Inl e \<Rightarrow> (Inl e, None)
            | Inr _ \<Rightarrow> (case le_upload env of
                Inl e \<Rightarrow> (Inl e, None)
              | Inr _ \<Rightarrow> (Inr (l, True), Some (ledger_serialize l)))))"

text \<open>The legacy preparation: per mailbox the marker directory is created, a stale marker clears its
  checkpoint rows, and the marker is rewritten. \<open>markers\<close> maps a relpath to its \<open>.uidvalidity\<close> file;
  \<open>io\<close> says which of the three file operations work for a relpath.\<close>

record marker_io =
  mi_create_dir :: bool
  mi_clear :: bool
  mi_write :: bool

fun legacy_prepare :: "(string list \<Rightarrow> marker_io) \<Rightarrow> mailbox_state list \<Rightarrow> (string list \<rightharpoonup> string) \<Rightarrow> state_file \<Rightarrow>
    (string list \<rightharpoonup> string) \<times> state_file \<times> unit result" where
  "legacy_prepare io [] markers file = (markers, file, Inr ())"
| "legacy_prepare io (s # ss) markers file =
     (let rel = ms_relpath s in
      if \<not> mi_create_dir (io rel) then (markers, file, Inl (Err (''failed to create '' @ relpath_key rel)))
      else
        let (file', r) = (if is_stale (read_uidvalidity (markers rel)) (ms_uidvalidity s)
                          then clear_checkpoint_for_mailbox (mi_clear (io rel)) (ms_mailbox s) file
                          else (file, Inr ())) in
        (case r of
           Inl err \<Rightarrow> (markers, file', Inl err)
         | Inr _ \<Rightarrow>
            (case write_uidvalidity (mi_write (io rel)) (ms_uidvalidity s) (markers rel) of
               (_, Inl err) \<Rightarrow> (markers, file', Inl err)
             | (m, Inr _) \<Rightarrow> legacy_prepare io ss (markers(rel := m)) file')))"

text \<open>The server's side of the scan: the listed names with their \<open>NoSelect\<close> attribute and delimiter, and
  what \<open>EXAMINE\<close> and \<open>UID SEARCH ALL\<close> answer for each.\<close>

record listed_name =
  ln_name :: string
  ln_no_select :: bool
  ln_delimiter :: "string option"

record imap_answers =
  ia_list :: "string + listed_name list"
  ia_examine :: "string \<Rightarrow> string + nat option"
  ia_search :: "string \<Rightarrow> string + nat set"

fun mailbox_states :: "imap_answers \<Rightarrow> listed_name list \<Rightarrow> mailbox_state list result" where
  "mailbox_states a [] = Inr []"
| "mailbox_states a (n # ns) = (case ia_examine a (ln_name n) of
     Inl err \<Rightarrow> Inl (Err (''failed to open '' @ ln_name n @ '' read-only: '' @ err))
   | Inr v \<Rightarrow> (case ia_search a (ln_name n) of
       Inl err \<Rightarrow> Inl (Err (''failed to search '' @ ln_name n @ '': '' @ err))
     | Inr uids \<Rightarrow> bindE (mailbox_states a ns) (\<lambda>ss. Inr (\<lparr>ms_mailbox = ln_name n,
         ms_relpath = sanitize_mailbox_path (ln_name n) (ln_delimiter n),
         ms_uidvalidity = (case v of Some x \<Rightarrow> x | None \<Rightarrow> 0), ms_server_uids = uids\<rparr> # ss))))"

definition list_mailbox_states :: "imap_answers \<Rightarrow> mailbox_state list result" where
  "list_mailbox_states a = (case ia_list a of
     Inl err \<Rightarrow> Inl (Err (''failed to list mailboxes: '' @ err))
   | Inr names \<Rightarrow> mailbox_states a (filter (\<lambda>n. \<not> ln_no_select n) names))"

datatype import_mode = LegacyMode | LedgerMode remote_target

text \<open>One identity's staging directory: its \<open>.uidvalidity\<close> markers and its \<open>.pushed\<close> checkpoint.\<close>

record staging =
  st_markers :: "string list \<rightharpoonup> string"
  st_pushed :: state_file

definition gather_delivered ::
  "import_mode \<Rightarrow> ledger_env \<Rightarrow> (string list \<Rightarrow> marker_io) \<Rightarrow> string \<Rightarrow> string \<Rightarrow> mailbox_state list \<Rightarrow> staging \<Rightarrow>
   staging \<times> delivered result"
where
  "gather_delivered mode env io alias email states st = (case mode of
     LedgerMode target \<Rightarrow> (st,
       bindE (fst (load_or_seed env target True alias email (map seed_mailbox_of states))) (\<lambda>(l, seeded).
       bindE (le_write_local env) (\<lambda>_. Inr (DeliveredLedger l))))
   | LegacyMode \<Rightarrow>
       (let (markers', file', r) = legacy_prepare io states (st_markers st) (st_pushed st) in
        (\<lparr>st_markers = markers', st_pushed = file'\<rparr>,
         bindE r (\<lambda>_. bindE (load_checkpoint file') (\<lambda>es. Inr (DeliveredCheckpoint (done_uids es)))))))"

text \<open>\<open>login\<close> is how \<open>connect_with_retry\<close> ends.\<close>

definition gather_pending ::
  "import_mode \<Rightarrow> string + unit \<Rightarrow> imap_answers \<Rightarrow> ledger_env \<Rightarrow> (string list \<Rightarrow> marker_io) \<Rightarrow> string \<Rightarrow> string \<Rightarrow>
   staging \<Rightarrow> staging \<times> (pending_mailbox list \<times> identity_summary) result" where
  "gather_pending mode login answers env io alias email st = (case login of
     Inl err \<Rightarrow> (st, Inl (Err err))
   | Inr _ \<Rightarrow> (case list_mailbox_states answers of
       Inl err \<Rightarrow> (st, Inl err)
     | Inr states \<Rightarrow>
         (let (st', r) = gather_delivered mode env io alias email states st in
          (st', bindE r (\<lambda>d.
            Inr (pending_loop d states \<lparr>is_alias = alias, is_mailboxes = 0, is_pending_messages = 0\<rparr> []))))))"

record batch =
  b_mailbox :: string
  b_relpath :: "string list"
  b_uidvalidity :: nat
  b_uids :: "nat list"

definition batches_from_pending :: "pending_mailbox list \<Rightarrow> nat \<Rightarrow> batch list" where
  "batches_from_pending pending batch_size =
     concat (map (\<lambda>m. map (\<lambda>uids. \<lparr>b_mailbox = pm_mailbox m, b_relpath = pm_relpath m,
         b_uidvalidity = pm_uidvalidity m, b_uids = uids\<rparr>) (split_into_batches (pm_uids m) batch_size)) pending)"

section \<open>What the batches cover\<close>

text \<open>A message's name at the server: its mailbox, its relpath, the \<open>UIDVALIDITY\<close> and the UID.\<close>

type_synonym message = "string \<times> string list \<times> nat \<times> nat"

definition messages_of :: "batch \<Rightarrow> message list" where
  "messages_of b = map (\<lambda>u. (b_mailbox b, b_relpath b, b_uidvalidity b, u)) (b_uids b)"

definition due :: "delivered \<Rightarrow> mailbox_state \<Rightarrow> message list" where
  "due d s = map (\<lambda>u. (ms_mailbox s, ms_relpath s, ms_uidvalidity s, u))
     (sorted_list_of_set (ms_server_uids s - uids_for d s))"

lemma pending_loop_acc:
  "pending_loop d ss sm acc = (ps, sm') \<Longrightarrow>
   concat (map messages_of (batches_from_pending ps n)) =
     concat (map messages_of (batches_from_pending acc n)) @ concat (map (due d) ss) \<and>
   is_pending_messages sm' = is_pending_messages sm + length (concat (map (due d) ss)) \<and>
   is_mailboxes sm' - length ps = is_mailboxes sm - length acc \<and> is_alias sm' = is_alias sm"
proof (induction d ss sm acc rule: pending_loop.induct)
  case (2 d s ss summary acc)
  have flat: "concat (map messages_of (map (\<lambda>us. \<lparr>b_mailbox = m, b_relpath = r, b_uidvalidity = v, b_uids = us\<rparr>) uss)) =
      map (\<lambda>u. (m, r, v, u)) (concat uss)" for m r v uss
    by (induction uss) (simp_all add: messages_of_def)
  show ?case
  proof (cases "missing_uids (ms_server_uids s) (uids_for d s) = []")
    case True
    then have "due d s = []" by (simp add: due_def missing_uids_def)
    then show ?thesis using 2 True by (simp add: Let_def)
  next
    case False
    let ?u = "missing_uids (ms_server_uids s) (uids_for d s)"
    have "concat (split_into_batches ?u n) = ?u"
      using False chunks_props [where n = n and xs = ?u] by (simp add: split_into_batches_def)
    then have b: "concat (map messages_of (batches_from_pending (acc @ [\<lparr>pm_mailbox = ms_mailbox s, pm_relpath = ms_relpath s,
        pm_uidvalidity = ms_uidvalidity s, pm_uids = ?u\<rparr>]) n)) =
        concat (map messages_of (batches_from_pending acc n)) @ due d s"
      by (simp add: batches_from_pending_def flat due_def missing_uids_def del: map_map)
    have l: "length (due d s) = length ?u" by (simp add: due_def missing_uids_def)
    show ?thesis using "2.IH"(2) [OF refl False] "2.prems" False b l by (simp add: Let_def)
  qed
qed simp

lemma batches_bounded:
  "b \<in> set (batches_from_pending ps n) \<Longrightarrow> b_uids b \<noteq> [] \<and> length (b_uids b) \<le> max n 1"
  using chunks_props [where n = n]
  by (fastforce simp: batches_from_pending_def split_into_batches_def split: if_splits)

lemma mailbox_states_Inr:
  "mailbox_states a ns = Inr ss \<Longrightarrow> map ms_mailbox ss = map ln_name ns \<and>
     (\<forall>s \<in> set ss. ia_search a (ms_mailbox s) = Inr (ms_server_uids s))"
  by (induction a ns arbitrary: ss rule: mailbox_states.induct) (auto simp: result_simps split: sum.splits)

section \<open>The record of deliveries\<close>

lemma checkpoint_rows_ok:
  assumes "NL \<notin> set l" and "checkpoint_row l = Some e"
  shows "checkpoint_ok e"
proof -
  have piece: "p \<in> set (split_on TAB l) \<Longrightarrow> TAB \<notin> set p \<and> NL \<notin> set p" for p
    using split_on_pieces set_split_on assms(1) by blast
  have bound: "parse_u32 s = Some n \<Longrightarrow> n \<le> u32_max" for s n
    by (auto simp: parse_uint_def Let_def split: if_splits)
  from assms(2) consider (two) m u n where "split_on TAB l = [m, u]" "parse_u32 (trim u) = Some n"
      "e = \<lparr>cp_mailbox = m, cp_uidvalidity = None, cp_uid = n\<rparr>"
    | (three) m v u x n where "split_on TAB l = [m, v, u]" "parse_u32 (trim v) = Some x" "parse_u32 (trim u) = Some n"
      "e = \<lparr>cp_mailbox = m, cp_uidvalidity = Some x, cp_uid = n\<rparr>"
    by (auto simp: checkpoint_row_def split: if_splits list.splits option.splits)
  then show ?thesis
  proof cases
    case two
    then show ?thesis using piece [of m] bound [OF two(2)] by (simp add: checkpoint_ok_def)
  next
    case three
    then show ?thesis using piece [of m] bound [OF three(2)] bound [OF three(3)] by (simp add: checkpoint_ok_def)
  qed
qed

lemma lines_no_newline: "l \<in> set (lines s) \<Longrightarrow> NL \<notin> set l"
proof -
  have "x \<in> set (split_inclusive NL s) \<Longrightarrow> NL \<notin> set (butlast x)" for x and s :: string
  proof (induction s arbitrary: x)
    case (Cons c s)
    show ?case
    proof (cases "split_inclusive NL s")
      case Nil
      then show ?thesis using Cons.prems by (auto split: if_splits)
    next
      case (Cons q qs)
      then show ?thesis using Cons.IH [of x] Cons.IH [of q] \<open>x \<in> set (split_inclusive NL (c # s))\<close>
        by (cases "q = []") (auto split: if_splits)
    qed
  qed simp
  moreover have "NL \<notin> set (chomp x)" if "NL \<notin> set (butlast x)" for x
  proof (cases x rule: rev_cases)
    case (snoc ys y)
    then have "NL \<notin> set ys" using that by simp
    then show ?thesis using snoc by (auto simp: chomp_def strip_suffix_def split: option.splits)
  qed (simp add: chomp_def strip_suffix_def)
  ultimately show "l \<in> set (lines s) \<Longrightarrow> NL \<notin> set l" by (auto simp: lines_def)
qed

lemma loaded_rows_ok: "load_checkpoint file = Inr rows \<Longrightarrow> list_all checkpoint_ok rows"
  using checkpoint_rows_ok lines_no_newline
  by (fastforce simp: load_checkpoint_def read_rows_def List.map_filter_def list_all_iff split: state_file.splits)

lemma cleared_rows:
  assumes "clear_checkpoint_for_mailbox writable m file = (file', Inr ())"
  shows "\<exists>rows. load_checkpoint file = Inr rows \<and> load_checkpoint file' = Inr (filter (\<lambda>e. cp_mailbox e \<noteq> m) rows)"
proof -
  obtain rows where rows: "load_checkpoint file = Inr rows"
    using assms by (auto simp: clear_checkpoint_for_mailbox_def split: sum.splits)
  let ?kept = "filter (\<lambda>e. cp_mailbox e \<noteq> m) rows"
  have "list_all checkpoint_ok ?kept" using loaded_rows_ok [OF rows] by (simp add: list_all_iff)
  then have "load_checkpoint (Text (write_rows format_checkpoint ?kept)) = Inr ?kept"
    by (simp add: load_checkpoint_def checkpoint_format.read_write)
  moreover have "length ?kept = length rows \<Longrightarrow> ?kept = rows"
    by (metis filter_id_conv length_filter_less less_irrefl)
  ultimately show ?thesis
    using assms rows by (auto simp: clear_checkpoint_for_mailbox_def Let_def split: if_splits)
qed

text \<open>What the preparation leaves on the checkpoint: rows of before, and when no two mailboxes share a directory
  exactly those whose mailbox has no stale marker.\<close>

definition stale_mailbox :: "(string list \<rightharpoonup> string) \<Rightarrow> mailbox_state \<Rightarrow> bool" where
  "stale_mailbox markers s \<longleftrightarrow> is_stale (read_uidvalidity (markers (ms_relpath s))) (ms_uidvalidity s)"

lemma legacy_rows:
  "legacy_prepare io ss markers pushed = (markers', pushed', Inr ()) \<Longrightarrow> load_checkpoint pushed' = Inr es \<Longrightarrow>
   \<exists>rows. load_checkpoint pushed = Inr rows \<and> set es \<subseteq> set rows \<and>
     (distinct (map ms_relpath ss) \<longrightarrow>
        es = filter (\<lambda>e. \<forall>s \<in> set ss. ms_mailbox s = cp_mailbox e \<longrightarrow> \<not> stale_mailbox markers s) rows)"
proof (induction ss arbitrary: markers pushed)
  case (Cons s ss)
  obtain m pushed1 where m: "legacy_prepare io ss (markers(ms_relpath s := m)) pushed1 = (markers', pushed', Inr ())"
    and c: "if stale_mailbox markers s then clear_checkpoint_for_mailbox (mi_clear (io (ms_relpath s))) (ms_mailbox s) pushed = (pushed1, Inr ())
      else pushed1 = pushed"
    using Cons.prems(1) by (auto simp: Let_def stale_mailbox_def split: if_splits prod.splits sum.splits)
  obtain rows1 where r1: "load_checkpoint pushed1 = Inr rows1" "set es \<subseteq> set rows1"
    "distinct (map ms_relpath ss) \<Longrightarrow> es = filter (\<lambda>e. \<forall>t \<in> set ss. ms_mailbox t = cp_mailbox e \<longrightarrow>
       \<not> stale_mailbox (markers(ms_relpath s := m)) t) rows1"
    using Cons.IH [OF m Cons.prems(2)] by blast
  have "\<exists>rows. load_checkpoint pushed = Inr rows \<and>
    rows1 = filter (\<lambda>e. ms_mailbox s = cp_mailbox e \<longrightarrow> \<not> stale_mailbox markers s) rows"
  proof (cases "stale_mailbox markers s")
    case True
    then have "clear_checkpoint_for_mailbox (mi_clear (io (ms_relpath s))) (ms_mailbox s) pushed = (pushed1, Inr ())" using c by simp
    from cleared_rows [OF this] obtain rows where "load_checkpoint pushed = Inr rows"
      "load_checkpoint pushed1 = Inr (filter (\<lambda>e. cp_mailbox e \<noteq> ms_mailbox s) rows)" by blast
    moreover from this have "rows1 = filter (\<lambda>e. ms_mailbox s = cp_mailbox e \<longrightarrow> \<not> stale_mailbox markers s) rows"
      using r1(1) True by (auto intro: filter_cong)
    ultimately show ?thesis by blast
  next
    case False
    then show ?thesis using c r1(1) by simp
  qed
  then obtain rows where r: "load_checkpoint pushed = Inr rows"
    "rows1 = filter (\<lambda>e. ms_mailbox s = cp_mailbox e \<longrightarrow> \<not> stale_mailbox markers s) rows" by blast
  have "es = filter (\<lambda>e. \<forall>t \<in> set (s # ss). ms_mailbox t = cp_mailbox e \<longrightarrow> \<not> stale_mailbox markers t) rows"
    if d: "distinct (map ms_relpath (s # ss))"
  proof -
    have "stale_mailbox (markers(ms_relpath s := m)) t = stale_mailbox markers t" if "t \<in> set ss" for t
    proof -
      have "ms_relpath t \<noteq> ms_relpath s" using d that by (metis distinct.simps(2) image_eqI list.set_map list.simps(9))
      then show ?thesis by (simp add: stale_mailbox_def)
    qed
    then show ?thesis using r1(3) d unfolding r(2) by (auto simp: conj_commute intro: filter_cong)
  qed
  then show ?case using r r1(2) by auto
qed simp

text \<open>What the server says of a mailbox, straight from its answers.\<close>

definition path_of :: "listed_name \<Rightarrow> string list" where
  "path_of n = sanitize_mailbox_path (ln_name n) (ln_delimiter n)"

definition validity_of :: "imap_answers \<Rightarrow> listed_name \<Rightarrow> nat" where
  "validity_of a n = (case ia_examine a (ln_name n) of Inr (Some v) \<Rightarrow> v | _ \<Rightarrow> 0)"

definition uids_at :: "imap_answers \<Rightarrow> listed_name \<Rightarrow> nat set" where
  "uids_at a n = (case ia_search a (ln_name n) of Inr us \<Rightarrow> us | Inl _ \<Rightarrow> {})"

definition state_of :: "imap_answers \<Rightarrow> listed_name \<Rightarrow> mailbox_state" where
  "state_of a n = \<lparr>ms_mailbox = ln_name n, ms_relpath = path_of n, ms_uidvalidity = validity_of a n, ms_server_uids = uids_at a n\<rparr>"

definition owed :: "imap_answers \<Rightarrow> (string \<Rightarrow> nat \<Rightarrow> nat set) \<Rightarrow> listed_name \<Rightarrow> message list" where
  "owed a recorded n = map (\<lambda>u. (ln_name n, path_of n, validity_of a n, u))
     (sorted_list_of_set (uids_at a n - recorded (ln_name n) (validity_of a n)))"

text \<open>What is on record for a mailbox and a \<open>UIDVALIDITY\<close>. With a ledger: what the file says, or, where the directory
  has no such file, the messages whose file lies at the destination under a path that exactly one mailbox has.
  Without: the rows of the checkpoint, less those of a mailbox whose marker names another \<open>UIDVALIDITY\<close>.\<close>

definition record_read ::
  "import_mode \<Rightarrow> ledger_env \<Rightarrow> staging \<Rightarrow> imap_answers \<Rightarrow> listed_name list \<Rightarrow> (string \<Rightarrow> nat \<Rightarrow> nat set) \<Rightarrow> bool" where
  "record_read mode env st a ns recorded \<longleftrightarrow> (case mode of
     LedgerMode target \<Rightarrow> (\<exists>files. le_listing env = Inr files \<and>
       (if LEDGER_FILE \<in> set files
        then \<exists>tx. le_pull env = Inr () \<and> le_text env = Inr tx \<and> recorded = ingested_uids (ledger_parse tx)
        else \<exists>listing. le_destination_listing env = Inr listing \<and> (\<forall>m v u. u \<in> recorded m v \<longleftrightarrow>
          (\<exists>path \<in> set listing. \<exists>dir n. eml_uid path = Some (dir, u) \<and>
             filter (\<lambda>n. relpath_key (path_of n) = dir) ns = [n] \<and> ln_name n = m \<and> validity_of a n = v))))
   | LegacyMode \<Rightarrow> (\<exists>rows. load_checkpoint (st_pushed st) = Inr rows \<and>
       (\<forall>m v. recorded m v \<subseteq> {cp_uid e | e. e \<in> set rows \<and> cp_mailbox e = m}) \<and>
       (distinct (map path_of ns) \<longrightarrow> (\<forall>m v. recorded m v = {cp_uid e | e. e \<in> set rows \<and> cp_mailbox e = m \<and>
          (\<forall>n \<in> set ns. ln_name n = m \<longrightarrow> \<not> is_stale (read_uidvalidity (st_markers st (path_of n))) (validity_of a n))}))))"

lemma mailbox_states_of:
  "mailbox_states a ns = Inr ss \<Longrightarrow> ss = map (state_of a) ns \<and>
     (\<forall>n \<in> set ns. (\<exists>v. ia_examine a (ln_name n) = Inr v) \<and> (\<exists>us. ia_search a (ln_name n) = Inr us))"
  by (induction a ns arbitrary: ss rule: mailbox_states.induct)
    (auto simp: result_simps state_of_def path_of_def validity_of_def uids_at_def split: sum.splits option.splits)

lemma checkpoint_record: "uids_for (DeliveredCheckpoint (done_uids es)) s = {cp_uid e | e. e \<in> set es \<and> cp_mailbox e = ms_mailbox s}"
  by (force simp: uids_for_def done_uids_def)

lemma gathered_record:
  assumes "gather_delivered mode env io alias email (map (state_of a) ns) st = (st', Inr d)"
  shows "\<exists>recorded. record_read mode env st a ns recorded \<and> (\<forall>n \<in> set ns. due d (state_of a n) = owed a recorded n)"
proof (cases mode)
  case (LedgerMode target)
  let ?boxes = "map (seed_mailbox_of \<circ> state_of a) ns"
  obtain l seeded where load: "fst (load_or_seed env target True alias email ?boxes) = Inr (l, seeded)" and d: "d = DeliveredLedger l"
    using assms LedgerMode by (auto simp: gather_delivered_def result_simps comp_def)
  have "due d (state_of a n) = owed a (ingested_uids l) n" for n
    by (simp add: due_def owed_def state_of_def uids_for_def d)
  moreover have "record_read mode env st a ns (ingested_uids l)"
  proof (cases "download_state env LEDGER_FILE")
    case (Inr found)
    then obtain files where files: "le_listing env = Inr files" by (auto simp: download_state_def result_simps)
    show ?thesis
    proof (cases found)
      case (Some tx)
      then have "LEDGER_FILE \<in> set files" "le_pull env = Inr ()" "le_text env = Inr tx" "l = ledger_parse tx"
        using Inr files load by (auto simp: download_state_def load_or_seed_def result_simps split: if_splits)
      then show ?thesis using files LedgerMode by (simp add: record_read_def)
    next
      case None
      then have missing: "LEDGER_FILE \<notin> set files" using Inr files by (auto simp: download_state_def result_simps split: if_splits)
      obtain listing ambiguous where seed: "le_destination_listing env = Inr listing"
        "seed_from_listing listing ?boxes (le_now env) = (l, ambiguous)"
        using load Inr None by (auto simp: load_or_seed_def split: sum.splits prod.splits)
      have own: "(\<exists>owner. owners ?boxes dir = [owner] \<and> sm_mailbox owner = m \<and> sm_uidvalidity owner = v) \<longleftrightarrow>
          (\<exists>n. filter (\<lambda>n. relpath_key (path_of n) = dir) ns = [n] \<and> ln_name n = m \<and> validity_of a n = v)" for dir m v
        by (auto simp: owners_def filter_map comp_def seed_mailbox_of_def state_of_def map_eq_Cons_conv)
      have "u \<in> ingested_uids l m v \<longleftrightarrow> (\<exists>path \<in> set listing. \<exists>dir n. eml_uid path = Some (dir, u) \<and>
          filter (\<lambda>n. relpath_key (path_of n) = dir) ns = [n] \<and> ln_name n = m \<and> validity_of a n = v)" for m v u
        using seed_exact [OF seed(2), of u m v] unfolding own by blast
      then show ?thesis using files missing seed(1) LedgerMode by (simp add: record_read_def)
    qed
  qed (use load in \<open>simp add: load_or_seed_def\<close>)
  ultimately show ?thesis by blast
next
  case LegacyMode
  obtain markers' file' es where prep: "legacy_prepare io (map (state_of a) ns) (st_markers st) (st_pushed st) = (markers', file', Inr ())"
    and es: "load_checkpoint file' = Inr es" and d: "d = DeliveredCheckpoint (done_uids es)"
    using assms LegacyMode by (auto simp: gather_delivered_def result_simps split: prod.splits)
  obtain rows where rows: "load_checkpoint (st_pushed st) = Inr rows" "set es \<subseteq> set rows"
    "distinct (map path_of ns) \<Longrightarrow> es = filter (\<lambda>e. \<forall>s \<in> set (map (state_of a) ns). ms_mailbox s = cp_mailbox e \<longrightarrow>
       \<not> stale_mailbox (st_markers st) s) rows"
    using legacy_rows [OF prep es] by (auto simp: comp_def state_of_def)
  let ?r = "\<lambda>m v. {cp_uid e | e. e \<in> set es \<and> cp_mailbox e = m}"
  have "due d (state_of a n) = owed a ?r n" for n
    by (simp add: due_def owed_def d checkpoint_record) (simp add: state_of_def)
  moreover have "?r m v \<subseteq> {cp_uid e | e. e \<in> set rows \<and> cp_mailbox e = m}" for m v using rows(2) by blast
  moreover have "?r m v = {cp_uid e | e. e \<in> set rows \<and> cp_mailbox e = m \<and>
      (\<forall>n \<in> set ns. ln_name n = m \<longrightarrow> \<not> is_stale (read_uidvalidity (st_markers st (path_of n))) (validity_of a n))}"
    if "distinct (map path_of ns)" for m v
    using rows(3) [OF that] by (auto simp: stale_mailbox_def state_of_def)
  ultimately show ?thesis using rows(1) LegacyMode by (intro exI [of _ ?r]) (simp add: record_read_def)
qed

text \<open>Two mailboxes with one staging directory (their names differ only in what the path drops) and different
  \<open>UIDVALIDITY\<close> values take turns in its marker: every run finds both stale and forgets what it delivered.\<close>

lemma shared_directory_forgets:
  assumes "ms_relpath s = r" and "ms_relpath t = r" and "ms_uidvalidity s \<noteq> ms_uidvalidity t"
    and "ms_uidvalidity s \<le> u32_max" and "ms_uidvalidity t \<le> u32_max"
    and "markers r = Some (dec (ms_uidvalidity t))" and "load_checkpoint pushed = Inr rows"
    and "io r = \<lparr>mi_create_dir = True, mi_clear = True, mi_write = True\<rparr>"
  shows "\<exists>pushed'. legacy_prepare io [s, t] markers pushed = (markers, pushed', Inr ()) \<and>
    load_checkpoint pushed' = Inr (filter (\<lambda>e. cp_mailbox e \<noteq> ms_mailbox s \<and> cp_mailbox e \<noteq> ms_mailbox t) rows)"
proof -
  have clear: "\<exists>pushed'. clear_checkpoint_for_mailbox True m q = (pushed', Inr ()) \<and>
      load_checkpoint pushed' = Inr (filter (\<lambda>e. cp_mailbox e \<noteq> m) es)" if q: "load_checkpoint q = Inr es" for m q es
  proof -
    have "snd (clear_checkpoint_for_mailbox True m q) = Inr ()"
      using q by (simp add: clear_checkpoint_for_mailbox_def Let_def)
    then have cleared: "clear_checkpoint_for_mailbox True m q = (fst (clear_checkpoint_for_mailbox True m q), Inr ())"
      by (metis prod.collapse)
    from cleared_rows [OF this] q
    have "load_checkpoint (fst (clear_checkpoint_for_mailbox True m q)) = Inr (filter (\<lambda>e. cp_mailbox e \<noteq> m) es)" by auto
    then show ?thesis using cleared by blast
  qed
  obtain p1 where p1: "clear_checkpoint_for_mailbox True (ms_mailbox s) pushed = (p1, Inr ())"
    "load_checkpoint p1 = Inr (filter (\<lambda>e. cp_mailbox e \<noteq> ms_mailbox s) rows)" using clear [OF assms(7)] by blast
  obtain p2 where p2: "clear_checkpoint_for_mailbox True (ms_mailbox t) p1 = (p2, Inr ())"
    "load_checkpoint p2 = Inr (filter (\<lambda>e. cp_mailbox e \<noteq> ms_mailbox t) (filter (\<lambda>e. cp_mailbox e \<noteq> ms_mailbox s) rows))"
    using clear [OF p1(2)] by blast
  have "markers(r \<mapsto> dec (ms_uidvalidity t)) = markers" using assms(6) by auto
  then have "legacy_prepare io [s, t] markers pushed = (markers, p2, Inr ())"
    using assms p1(1) p2(1) by (simp add: read_uidvalidity_def write_uidvalidity_def is_stale_def Let_def)
  then show ?thesis using p2(2) by (auto simp: conj_commute)
qed

text \<open>C9. The work queued for an identity is exactly what is owed. When the scan succeeds, every mailbox the server lists
  without the \<open>NoSelect\<close> attribute was opened and searched, and the batches name, mailbox after mailbox in the server's
  order and each once, the UIDs the server reports for it and the record of deliveries does not have, and nothing else;
  no batch is empty or longer than the batch size (one when it is zero), and the summary's count is the number of
  messages named. The record (\<open>record_read\<close>) is what the ledger file says, or without one what lies at the
  destination; in legacy mode it is the checkpoint rows less those of mailboxes whose \<open>UIDVALIDITY\<close> changed, exactly so
  when no two mailboxes share a directory, and never anything that is not on the checkpoint.\<close>

theorem batches_cover_exactly_the_due:
  assumes "gather_pending mode (Inr ()) answers env io alias email st = (st', Inr (pending, summary))"
  shows "\<exists>names recorded. ia_list answers = Inr names \<and>
     (let selectable = filter (\<lambda>n. \<not> ln_no_select n) names in
      (\<forall>n \<in> set selectable. (\<exists>v. ia_examine answers (ln_name n) = Inr v) \<and> (\<exists>us. ia_search answers (ln_name n) = Inr us)) \<and>
      record_read mode env st answers selectable recorded \<and>
      concat (map messages_of (batches_from_pending pending batch_size)) = concat (map (owed answers recorded) selectable) \<and>
      is_pending_messages summary = length (concat (map (owed answers recorded) selectable))) \<and>
     (\<forall>b \<in> set (batches_from_pending pending batch_size). b_uids b \<noteq> [] \<and> length (b_uids b) \<le> max batch_size 1)"
proof -
  obtain states d where s: "list_mailbox_states answers = Inr states"
    and d: "gather_delivered mode env io alias email states st = (st', Inr d)"
    and p: "pending_loop d states \<lparr>is_alias = alias, is_mailboxes = 0, is_pending_messages = 0\<rparr> [] = (pending, summary)"
    using assms by (auto simp: gather_pending_def result_simps split: sum.splits prod.splits)
  obtain names where names: "ia_list answers = Inr names" "mailbox_states answers (filter (\<lambda>n. \<not> ln_no_select n) names) = Inr states"
    using s by (auto simp: list_mailbox_states_def split: sum.splits)
  let ?sel = "filter (\<lambda>n. \<not> ln_no_select n) names"
  note states = mailbox_states_of [OF names(2)]
  obtain recorded where r: "record_read mode env st answers ?sel recorded"
    "\<forall>n \<in> set ?sel. due d (state_of answers n) = owed answers recorded n"
    using gathered_record [OF d [unfolded conjunct1 [OF states]]] by blast
  have owed: "map (due d) states = map (owed answers recorded) ?sel" using states r(2) by (auto simp: comp_def)
  have "concat (map messages_of (batches_from_pending pending batch_size)) = concat (map (due d) states)"
    "is_pending_messages summary = length (concat (map (due d) states))"
    using pending_loop_acc [OF p, of batch_size] by (simp_all add: batches_from_pending_def)
  then show ?thesis unfolding owed using names(1) states r(1) batches_bounded
    by (intro exI [of _ names] exI [of _ recorded]) (simp add: Let_def)
qed

definition fresh_env :: ledger_env where
  "fresh_env = \<lparr>le_listing = Inr [], le_pull = Inr (), le_text = Inr [], le_destination_listing = Inr [''inbox/9.eml''],
     le_now = ''t'', le_write_local = Inr (), le_upload = Inr ()\<rparr>"

definition inbox_answers :: imap_answers where
  "inbox_answers = \<lparr>ia_list = Inr [\<lparr>ln_name = ''INBOX'', ln_no_select = False, ln_delimiter = Some ''/''\<rparr>,
       \<lparr>ln_name = ''[Gmail]'', ln_no_select = True, ln_delimiter = Some ''/''\<rparr>],
     ia_examine = (\<lambda>_. Inr (Some 7)), ia_search = (\<lambda>_. Inr {4, 9, 2, 11})\<rparr>"

definition nine_pushed :: checkpoint_entry where
  "nine_pushed = \<lparr>cp_mailbox = ''INBOX'', cp_uidvalidity = Some 7, cp_uid = 9\<rparr>"

definition io_works :: "string list \<Rightarrow> marker_io" where
  "io_works = (\<lambda>_. \<lparr>mi_create_dir = True, mi_clear = True, mi_write = True\<rparr>)"

definition inbox_staging :: staging where
  "inbox_staging = \<lparr>st_markers = Map.empty, st_pushed = Text (write_rows format_checkpoint [nine_pushed])\<rparr>"

lemma nine_loaded: "load_checkpoint (Text (write_rows format_checkpoint [nine_pushed])) = Inr [nine_pushed]"
  using checkpoint_format.read_write [of "[nine_pushed]"]
  by (simp add: load_checkpoint_def nine_pushed_def checkpoint_ok_def u32_max_def del: write_rows_simps)

lemma inbox_path: "sanitize_mailbox_path ''INBOX'' (Some ''/'') = [''inbox'']"
  by code_simp

lemma inbox_listed: "list_mailbox_states inbox_answers = Inr [\<lparr>ms_mailbox = ''INBOX'', ms_relpath = [''inbox''],
    ms_uidvalidity = 7, ms_server_uids = {4, 9, 2, 11}\<rparr>]"
  by (simp add: list_mailbox_states_def inbox_answers_def inbox_path)

lemma inbox_gathered: "\<exists>st' ps sm. gather_pending LegacyMode (Inr ()) inbox_answers env io_works ''me'' ''me@x.org'' inbox_staging =
    (st', Inr (ps, sm))"
  by (simp add: gather_pending_def inbox_listed gather_delivered_def inbox_staging_def io_works_def
      read_uidvalidity_def is_stale_def write_uidvalidity_def nine_loaded Let_def del: write_rows_simps split: prod.split)


theorem batches_cover_exactly_the_due_witness:
  "\<exists>st' pending summary. gather_pending LegacyMode (Inr ()) inbox_answers fresh_env io_works ''me'' ''me@x.org'' inbox_staging =
       (st', Inr (pending, summary)) \<and>
     concat (map messages_of (batches_from_pending pending 2)) =
       [(''INBOX'', [''inbox''], 7, 2), (''INBOX'', [''inbox''], 7, 4), (''INBOX'', [''inbox''], 7, 11)]"
proof -
  obtain st' ps sm where g: "gather_pending LegacyMode (Inr ()) inbox_answers fresh_env io_works ''me'' ''me@x.org'' inbox_staging =
      (st', Inr (ps, sm))" using inbox_gathered by blast
  let ?inbox = "\<lparr>ln_name = ''INBOX'', ln_no_select = False, ln_delimiter = Some ''/''\<rparr>"
  from batches_cover_exactly_the_due [OF g, of 2] obtain recorded where
    r: "record_read LegacyMode fresh_env inbox_staging inbox_answers [?inbox] recorded"
    and c: "concat (map messages_of (batches_from_pending ps 2)) = owed inbox_answers recorded ?inbox"
    by (auto simp: inbox_answers_def Let_def)
  have "recorded ''INBOX'' 7 = {9}"
  proof -
    obtain rows where "load_checkpoint (st_pushed inbox_staging) = Inr rows"
      "recorded ''INBOX'' 7 = {cp_uid e | e. e \<in> set rows \<and> cp_mailbox e = ''INBOX'' \<and>
         \<not> is_stale (read_uidvalidity (st_markers inbox_staging (path_of ?inbox))) (validity_of inbox_answers ?inbox)}"
      using r by (auto simp: record_read_def)
    moreover from this have "rows = [nine_pushed]" using nine_loaded by (simp add: inbox_staging_def del: write_rows_simps)
    ultimately show ?thesis by (auto simp: inbox_staging_def read_uidvalidity_def is_stale_def nine_pushed_def)
  qed
  moreover have "sorted_list_of_set ({4, 9, 2, 11::nat} - {9}) = [2, 4, 11]" by code_simp
  ultimately show ?thesis using g c
    by (simp add: owed_def uids_at_def validity_of_def path_of_def inbox_path) (simp add: inbox_answers_def)
qed

text \<open>C10. An unreachable ledger is never taken for an empty one. A ledger comes out of \<open>load_or_seed\<close>
  only after its directory was really listed: when the listing has the file, the ledger is exactly the text
  pulled from it and nothing is uploaded; only when the listing lacks it is the ledger seeded, from a
  destination listing that succeeded, and uploaded before it is used. Every failed call, and a missing
  destination, is an error that uploads nothing.\<close>

theorem ledger_never_mistaken_for_empty:
  "case load_or_seed env target has_destination name email mailboxes of
     (Inl e, up) \<Rightarrow> up = None
   | (Inr (l, seeded), up) \<Rightarrow> \<exists>names. le_listing env = Inr names \<and>
       (if LEDGER_FILE \<in> set names
        then \<not> seeded \<and> up = None \<and> le_pull env = Inr () \<and> (\<exists>tx. le_text env = Inr tx \<and> l = ledger_parse tx)
        else seeded \<and> up = Some (ledger_serialize l) \<and> has_destination \<and> le_upload env = Inr () \<and>
             (\<exists>listing. le_destination_listing env = Inr listing \<and>
                l = fst (seed_from_listing listing mailboxes (le_now env))))"
  by (cases "le_listing env"; cases "le_pull env"; cases "le_text env"; cases "le_destination_listing env";
      cases "le_write_local env"; cases "le_upload env")
    (auto simp: load_or_seed_def download_state_def split: prod.split)

theorem ledger_never_mistaken_for_empty_witness:
  "load_or_seed (fresh_env\<lparr>le_listing := Inl (Err ''dial tcp'')\<rparr>) (bucket_root ''l'') True ''me'' ''me@x.org'' [] = (Inl (Err ''dial tcp''), None) \<and>
   snd (load_or_seed fresh_env (bucket_root ''l'') True ''me'' ''me@x.org'' []) \<noteq> None"
proof -
  have "load_or_seed (fresh_env\<lparr>le_listing := Inl (Err ''dial tcp'')\<rparr>) (bucket_root ''l'') True ''me'' ''me@x.org'' [] = (Inl (Err ''dial tcp''), None)"
    by (simp add: load_or_seed_def download_state_def)
  moreover have "load_or_seed fresh_env (bucket_root ''l'') True ''me'' ''me@x.org'' [] = (Inr (l, s), up) \<Longrightarrow> up \<noteq> None" for l s up
    using ledger_never_mistaken_for_empty [where env = fresh_env and target = "bucket_root ''l''" and has_destination = True and
        name = "''me''" and email = "''me@x.org''" and mailboxes = "[]"] by (simp add: fresh_env_def)
  moreover have "\<exists>l s up. load_or_seed fresh_env (bucket_root ''l'') True ''me'' ''me@x.org'' [] = (Inr (l, s), up)"
    by (simp add: load_or_seed_def download_state_def fresh_env_def split: prod.split) blast
  ultimately show ?thesis by fastforce
qed

end
