(* ===== verification/Scratch.thy ===== *)
theory Scratch
  imports DataCore
begin

text \<open>
  The local directories the jobs work in, shared by their models: an association list from paths (lists of
  components below the directory) to contents, and the file system calls on it. How a call ends is the
  environment's choice.
\<close>

section \<open>The scratch directory\<close>

type_synonym path = "string list"
type_synonym scratch = "(path \<times> string) list"

abbreviation fs_get :: "scratch \<Rightarrow> path \<Rightarrow> string option" where "fs_get \<equiv> map_of"

definition fs_remove :: "path \<Rightarrow> scratch \<Rightarrow> scratch" where
  "fs_remove p fs = filter (\<lambda>(q, _). q \<noteq> p) fs"

definition fs_put :: "path \<Rightarrow> string \<Rightarrow> scratch \<Rightarrow> scratch" where
  "fs_put p c fs = (p, c) # fs_remove p fs"

text \<open>\<open>remove_dir_all\<close> and the names in a directory.\<close>

definition fs_remove_dir :: "path \<Rightarrow> scratch \<Rightarrow> scratch" where
  "fs_remove_dir d fs = filter (\<lambda>(q, _). take (length d) q \<noteq> d) fs"

definition fs_names :: "path \<Rightarrow> scratch \<Rightarrow> string list" where
  "fs_names d fs = map (last \<circ> fst) (filter (\<lambda>(q, _). q \<noteq> [] \<and> butlast q = d) fs)"

text \<open>\<open>fs::write\<close> succeeds, fails before it creates the file, or fails after writing a piece of it.\<close>

datatype write_outcome = Written | NotCreated | Partial string

definition fs_write :: "write_outcome \<Rightarrow> path \<Rightarrow> string \<Rightarrow> scratch \<Rightarrow> scratch \<times> bool" where
  "fs_write w p c fs = (case w of
     Written \<Rightarrow> (fs_put p c fs, True)
   | NotCreated \<Rightarrow> (fs, False)
   | Partial c' \<Rightarrow> (fs_put p c' fs, False))"

section \<open>Disk space\<close>

definition MIN_FREE_DISK_BYTES :: nat where "MIN_FREE_DISK_BYTES = 2 * 1024 * 1024 * 1024"

definition check_disk_space :: "nat option \<Rightarrow> nat \<Rightarrow> unit result" where
  "check_disk_space available needed = (case available of
     None \<Rightarrow> Inr ()
   | Some free \<Rightarrow> if free < max needed MIN_FREE_DISK_BYTES then Inl (Err ''not enough disk space'') else Inr ())"

section \<open>Lemmas\<close>

lemma map_of_filter_keys: "map_of (filter (\<lambda>(k, _). P k) xs) k = (if P k then map_of xs k else None)"
  by (induction xs) auto

lemma fs_get_remove [simp]: "fs_get (fs_remove p fs) q = (if q = p then None else fs_get fs q)"
  by (simp add: fs_remove_def map_of_filter_keys)

lemma fs_get_put [simp]: "fs_get (fs_put p c fs) q = (if q = p then Some c else fs_get fs q)"
  by (simp add: fs_put_def)

lemma fs_get_remove_dir [simp]:
  "fs_get (fs_remove_dir d fs) q = (if take (length d) q = d then None else fs_get fs q)"
  by (simp add: fs_remove_dir_def map_of_filter_keys)

lemma fs_names_iff: "n \<in> set (fs_names d fs) \<longleftrightarrow> fs_get fs (d @ [n]) \<noteq> None"
proof -
  have "n \<in> set (fs_names d fs) \<longleftrightarrow> (\<exists>x \<in> set fs. fst x \<noteq> [] \<and> butlast (fst x) = d \<and> last (fst x) = n)"
    by (auto simp: fs_names_def case_prod_beta)
  also have "\<dots> \<longleftrightarrow> d @ [n] \<in> fst ` set fs" by (auto simp: image_iff snoc_eq_iff_butlast)
  finally have "n \<in> set (fs_names d fs) \<longleftrightarrow> d @ [n] \<in> fst ` set fs" .
  then show ?thesis by (simp add: map_of_eq_None_iff)
qed

end
