(* ===== verification/ImportWorker.thy ===== *)
theory ImportWorker
  imports EmailImport Scratch
begin

text \<open>
  One message's delivery: \<open>email_import/attach.rs\<close>, \<open>push.rs\<close>, \<open>sink.rs\<close>'s fetch and the
  per-message half of \<open>worker.rs\<close>. The scratch directory of an identity is an association list from
  paths (lists of components) to contents; the bucket maps object addresses to contents. IMAP, rclone,
  the MIME parser and the file system are environments that say how each call ends.
\<close>

section \<open>Fetching\<close>

definition eml_path :: "path \<Rightarrow> nat \<Rightarrow> path" where
  "eml_path rel uid = rel @ [dec uid @ ''.eml'']"

text \<open>The fetch loop over the server's responses; \<open>write\<close> says how writing a UID's file ends.\<close>

fun fetch_loop :: "path \<Rightarrow> string \<Rightarrow> (nat \<Rightarrow> write_outcome) \<Rightarrow> (string + (nat option \<times> string option)) list \<Rightarrow>
    scratch \<Rightarrow> nat \<Rightarrow> scratch \<times> nat result" where
  "fetch_loop rel mailbox write [] fs written = (fs, Inr written)"
| "fetch_loop rel mailbox write (Inl err # rs) fs written =
     (fs, Inl (Err (''failed to fetch messages in '' @ mailbox @ '': '' @ err)))"
| "fetch_loop rel mailbox write (Inr (Some uid, Some body) # rs) fs written =
     (case fs_write (write uid) (eml_path rel uid) body fs of
        (fs', True) \<Rightarrow> fetch_loop rel mailbox write rs fs' (written + 1)
      | (fs', False) \<Rightarrow> (fs', Inl (Err (''failed to write '' @ join ''/'' (eml_path rel uid)))))"
| "fetch_loop rel mailbox write (Inr (uid, body) # rs) fs written = fetch_loop rel mailbox write rs fs written"

definition fetch_uids :: "path \<Rightarrow> string \<Rightarrow> (nat \<Rightarrow> write_outcome) \<Rightarrow> nat list \<Rightarrow>
    string + (string + (nat option \<times> string option)) list \<Rightarrow> scratch \<Rightarrow> scratch \<times> nat result" where
  "fetch_uids rel mailbox write missing responses fs =
     (if missing = [] then (fs, Inr 0)
      else case responses of
        Inl err \<Rightarrow> (fs, Inl (Err (''failed to fetch messages in '' @ mailbox @ '': '' @ err)))
      | Inr rs \<Rightarrow> fetch_loop rel mailbox write rs fs 0)"

section \<open>Pushing an object\<close>

definition log_name_for :: "string \<Rightarrow> string" where
  "log_name_for key =
     map (\<lambda>ch. if ch \<in> {CHR ''/'', CHR 0x5C, CHR '':''} then CHR ''-'' else ch) key"

record push_failure =
  pf_error :: string
  pf_gated :: bool

text \<open>The \<open>n\<close>th try of \<open>push_one\<close> ends as \<open>attempts n\<close>; after an unreachable endpoint the gate
  decides. \<open>None\<close> is a loop that never ends.\<close>

partial_function (option) push_with_gate ::
  "(nat \<Rightarrow> string + unit) \<Rightarrow> (nat \<Rightarrow> gate_decision) \<Rightarrow> nat \<Rightarrow> (push_failure + unit) option" where
  "push_with_gate attempts decide n = (case attempts n of
     Inr _ \<Rightarrow> Some (Inr ())
   | Inl error \<Rightarrow>
       if \<not> is_endpoint_unreachable_error error then Some (Inl \<lparr>pf_error = error, pf_gated = False\<rparr>)
       else (case decide n of
          Retry \<Rightarrow> push_with_gate attempts decide (n + 1)
        | GiveUp \<Rightarrow> Some (Inl \<lparr>pf_error = error, pf_gated = True\<rparr>)))"

declare push_with_gate.simps [code]

text \<open>A try that the loop does not go on from.\<close>

definition push_settles :: "(nat \<Rightarrow> string + unit) \<Rightarrow> (nat \<Rightarrow> gate_decision) \<Rightarrow> nat \<Rightarrow> bool" where
  "push_settles attempts decide m \<longleftrightarrow> (case attempts m of
     Inr _ \<Rightarrow> True | Inl error \<Rightarrow> \<not> is_endpoint_unreachable_error error \<or> decide m = GiveUp)"

lemma push_step:
  "push_settles attempts decide n \<Longrightarrow> push_with_gate attempts decide n = Some (case attempts n of
     Inr _ \<Rightarrow> Inr () | Inl error \<Rightarrow> Inl \<lparr>pf_error = error, pf_gated = is_endpoint_unreachable_error error\<rparr>)"
  "\<not> push_settles attempts decide n \<Longrightarrow>
     push_with_gate attempts decide n = push_with_gate attempts decide (n + 1)"
  by (subst push_with_gate.simps; simp add: push_settles_def split: sum.splits gate_decision.splits)+

lemma push_returns:
  "push_settles attempts decide m \<Longrightarrow> n \<le> m \<Longrightarrow> (\<forall>k \<in> {n..<m}. \<not> push_settles attempts decide k) \<Longrightarrow>
   push_with_gate attempts decide n = push_with_gate attempts decide m"
proof (induction "m - n" arbitrary: n)
  case (Suc d)
  then have "\<not> push_settles attempts decide n" "n + 1 \<le> m" by auto
  moreover have "push_with_gate attempts decide (n + 1) = push_with_gate attempts decide m"
    using Suc by (intro Suc.hyps(1)) auto
  ultimately show ?case by (simp add: push_step(2))
qed simp

section \<open>Attachments\<close>

text \<open>How the file operations of one message end. \<open>parse\<close> is the MIME parser: a part is its contents
  and its name.\<close>

record deliver_env =
  de_readable :: bool
  de_parse :: "string \<Rightarrow> (string \<times> string option) list option"
  de_mkdir :: bool
  de_write :: "string \<Rightarrow> write_outcome"
  de_attempts :: "string \<Rightarrow> nat \<Rightarrow> string + unit"
  de_gate :: "string \<Rightarrow> nat \<Rightarrow> gate_decision"
  de_checkpoint :: bool
  de_ledger :: bool
  de_now :: string
  de_remove_eml :: bool
  de_remove_dir :: bool

fun stage_parts :: "deliver_env \<Rightarrow> path \<Rightarrow> (string \<times> string option) list \<Rightarrow> scratch \<Rightarrow> string list \<Rightarrow>
    scratch \<times> string list" where
  "stage_parts env dir [] fs staged = (fs, staged)"
| "stage_parts env dir ((contents, name) # parts) fs staged =
     (if (contents = [] \<and> name = None) \<or> \<not> de_mkdir env then stage_parts env dir parts fs staged
      else
        let sanitized = sanitize_filename (case name of Some n \<Rightarrow> n | None \<Rightarrow> ''attachment'');
            n = unique_path (fs_names dir fs) sanitized
        in (case fs_write (de_write env n) (dir @ [n]) contents fs of
              (fs', True) \<Rightarrow> stage_parts env dir parts fs' (staged @ [n])
            | (fs', False) \<Rightarrow> stage_parts env dir parts fs' staged))"

definition extract_attachments :: "deliver_env \<Rightarrow> string \<Rightarrow> path \<Rightarrow> scratch \<Rightarrow> scratch \<times> string list option" where
  "extract_attachments env eml dir fs =
     (if \<not> de_readable env then (fs, None)
      else case de_parse env eml of
        None \<Rightarrow> (fs, None)
      | Some parts \<Rightarrow> (let (fs', staged) = stage_parts env dir parts fs [] in (fs', Some staged)))"

section \<open>Outcomes\<close>

record failure_breakdown =
  fb_connect :: nat
  fb_examine :: nat
  fb_fetch :: nat
  fb_missing_file :: nat
  fb_push :: nat

definition no_failures :: failure_breakdown where
  "no_failures = \<lparr>fb_connect = 0, fb_examine = 0, fb_fetch = 0, fb_missing_file = 0, fb_push = 0\<rparr>"

definition breakdown_merge :: "failure_breakdown \<Rightarrow> failure_breakdown \<Rightarrow> failure_breakdown" where
  "breakdown_merge a b = \<lparr>fb_connect = fb_connect a + fb_connect b, fb_examine = fb_examine a + fb_examine b,
     fb_fetch = fb_fetch a + fb_fetch b, fb_missing_file = fb_missing_file a + fb_missing_file b,
     fb_push = fb_push a + fb_push b\<rparr>"

record batch_outcome =
  bo_delivered :: nat
  bo_failed :: nat
  bo_objects_pushed :: nat
  bo_attachments_pushed :: nat
  bo_extraction_failed :: nat
  bo_gate_give_ups :: nat
  bo_breakdown :: failure_breakdown

definition no_outcome :: batch_outcome where
  "no_outcome = \<lparr>bo_delivered = 0, bo_failed = 0, bo_objects_pushed = 0, bo_attachments_pushed = 0,
     bo_extraction_failed = 0, bo_gate_give_ups = 0, bo_breakdown = no_failures\<rparr>"

definition outcome_merge :: "batch_outcome \<Rightarrow> batch_outcome \<Rightarrow> batch_outcome" where
  "outcome_merge a b = \<lparr>bo_delivered = bo_delivered a + bo_delivered b, bo_failed = bo_failed a + bo_failed b,
     bo_objects_pushed = bo_objects_pushed a + bo_objects_pushed b,
     bo_attachments_pushed = bo_attachments_pushed a + bo_attachments_pushed b,
     bo_extraction_failed = bo_extraction_failed a + bo_extraction_failed b,
     bo_gate_give_ups = bo_gate_give_ups a + bo_gate_give_ups b,
     bo_breakdown = breakdown_merge (bo_breakdown a) (bo_breakdown b)\<rparr>"

section \<open>One delivery\<close>

record import_context =
  ic_alias :: string
  ic_email :: string
  ic_scratch :: scratch
  ic_pushed :: state_file
  ic_ledger :: "state_file option"

definition relative_key :: "path \<Rightarrow> string" where
  "relative_key rel = (let joined = join ''/'' rel in if joined = [] then joined else joined @ ''/'')"

definition attachments_dir :: "path \<Rightarrow> nat \<Rightarrow> path" where
  "attachments_dir rel uid = rel @ [dec uid, ''attachments'']"

text \<open>An object to push: whether it is an attachment, its contents and its key.\<close>

type_synonym object = "bool \<times> string \<times> string"

definition message_objects :: "string \<Rightarrow> path \<Rightarrow> nat \<Rightarrow> string \<Rightarrow> string list \<Rightarrow> scratch \<Rightarrow> object list" where
  "message_objects email rel uid eml staged fs =
     (let stem = sanitize_segment email @ ''/'' @ relative_key rel @ dec uid in
      (False, eml, stem @ ''.eml'') #
      map (\<lambda>n. (True, the (fs_get fs (attachments_dir rel uid @ [n])), stem @ ''/attachments/'' @ n)) staged)"

fun push_objects :: "deliver_env \<Rightarrow> string \<Rightarrow> object list \<Rightarrow> (string \<rightharpoonup> string) \<Rightarrow> batch_outcome \<Rightarrow>
    ((string \<rightharpoonup> string) \<times> batch_outcome \<times> bool) option" where
  "push_objects env dest [] bucket o1 = Some (bucket, o1, True)"
| "push_objects env dest ((is_attachment, contents, key) # objects) bucket o1 =
     (case push_with_gate (de_attempts env key) (de_gate env key) 0 of
        None \<Rightarrow> None
      | Some (Inr _) \<Rightarrow> push_objects env dest objects (bucket(dest @ key \<mapsto> contents))
          (o1\<lparr>bo_objects_pushed := bo_objects_pushed o1 + 1,
              bo_attachments_pushed := bo_attachments_pushed o1 + (if is_attachment then 1 else 0)\<rparr>)
      | Some (Inl failure) \<Rightarrow> Some (bucket,
          o1\<lparr>bo_gate_give_ups := bo_gate_give_ups o1 + (if pf_gated failure then 1 else 0)\<rparr>, False))"

text \<open>Recording a delivery: the checkpoint row, then the ledger row when there is a ledger. A failed
  append is only logged.\<close>

definition ledger_append :: "bool \<Rightarrow> ledger_entry \<Rightarrow> state_file \<Rightarrow> state_file" where
  "ledger_append writable e file =
     (if \<not> writable then file
      else case file of
        Missing \<Rightarrow> Text (format_ledger_row e @ [NL])
      | Text s \<Rightarrow> Text (s @ format_ledger_row e @ [NL])
      | Unreadable err \<Rightarrow> file)"

definition delivery_row :: "deliver_env \<Rightarrow> batch \<Rightarrow> nat \<Rightarrow> ledger_entry" where
  "delivery_row env b uid = \<lparr>le_mailbox = b_mailbox b, le_uidvalidity = b_uidvalidity b, le_uid = uid,
     le_ingested_at = de_now env\<rparr>"

definition checkpoint_of :: "batch \<Rightarrow> nat \<Rightarrow> checkpoint_entry" where
  "checkpoint_of b uid = \<lparr>cp_mailbox = b_mailbox b, cp_uidvalidity = Some (b_uidvalidity b), cp_uid = uid\<rparr>"

definition record_delivery :: "deliver_env \<Rightarrow> batch \<Rightarrow> nat \<Rightarrow> import_context \<Rightarrow> import_context" where
  "record_delivery env b uid ctx =
     ctx\<lparr>ic_pushed := fst (append_checkpoint (de_checkpoint env) (checkpoint_of b uid) (ic_pushed ctx)),
         ic_ledger := map_option (ledger_append (de_ledger env) (delivery_row env b uid)) (ic_ledger ctx)\<rparr>"

definition remove_local :: "deliver_env \<Rightarrow> path \<Rightarrow> nat \<Rightarrow> import_context \<Rightarrow> import_context" where
  "remove_local env rel uid ctx =
     (let fs1 = (if de_remove_eml env then fs_remove (eml_path rel uid) (ic_scratch ctx) else ic_scratch ctx);
          fs2 = (if de_remove_dir env then fs_remove_dir (rel @ [dec uid]) fs1 else fs1)
      in ctx\<lparr>ic_scratch := fs2\<rparr>)"

definition deliver_one :: "deliver_env \<Rightarrow> string \<Rightarrow> batch \<Rightarrow> nat \<Rightarrow> import_context \<Rightarrow> (string \<rightharpoonup> string) \<Rightarrow>
    (import_context \<times> (string \<rightharpoonup> string) \<times> batch_outcome) option" where
  "deliver_one env dest b uid ctx bucket =
     (let rel = b_relpath b in
      case fs_get (ic_scratch ctx) (eml_path rel uid) of
        None \<Rightarrow> Some (ctx, bucket, no_outcome\<lparr>bo_failed := 1, bo_breakdown := no_failures\<lparr>fb_missing_file := 1\<rparr>\<rparr>)
      | Some eml \<Rightarrow>
          let (fs, extracted) = extract_attachments env eml (attachments_dir rel uid) (ic_scratch ctx);
              (staged, o1) = (case extracted of
                 Some names \<Rightarrow> (names, no_outcome)
               | None \<Rightarrow> ([], no_outcome\<lparr>bo_extraction_failed := 1\<rparr>))
          in (case push_objects env dest (message_objects (ic_email ctx) rel uid eml staged fs) bucket o1 of
                None \<Rightarrow> None
              | Some (bucket', o2, all_pushed) \<Rightarrow>
                  let ctx1 = ctx\<lparr>ic_scratch := fs\<rparr>;
                      (ctx2, o3) = (if all_pushed
                        then (record_delivery env b uid ctx1, o2\<lparr>bo_delivered := bo_delivered o2 + 1\<rparr>)
                        else (ctx1, o2\<lparr>bo_failed := bo_failed o2 + 1,
                          bo_breakdown := (bo_breakdown o2)\<lparr>fb_push := fb_push (bo_breakdown o2) + 1\<rparr>\<rparr>))
                  in Some (remove_local env rel uid ctx2, bucket', o3)))"

section \<open>Lemmas on a delivery\<close>

definition breakdown_sum :: "failure_breakdown \<Rightarrow> nat" where
  "breakdown_sum f = fb_connect f + fb_examine f + fb_fetch f + fb_missing_file f + fb_push f"

lemma breakdown_sums [simp]:
  "breakdown_sum no_failures = 0"
  "breakdown_sum (breakdown_merge a b) = breakdown_sum a + breakdown_sum b"
  "breakdown_sum (f\<lparr>fb_push := n\<rparr>) = breakdown_sum f - fb_push f + n"
  "breakdown_sum (f\<lparr>fb_missing_file := n\<rparr>) = breakdown_sum f - fb_missing_file f + n"
  "breakdown_sum (f\<lparr>fb_connect := n\<rparr>) = breakdown_sum f - fb_connect f + n"
  "breakdown_sum (f\<lparr>fb_examine := n\<rparr>) = breakdown_sum f - fb_examine f + n"
  "breakdown_sum (f\<lparr>fb_fetch := n\<rparr>) = breakdown_sum f - fb_fetch f + n"
  by (simp_all add: breakdown_sum_def no_failures_def breakdown_merge_def)

lemma no_outcome_simps [simp]:
  "bo_delivered no_outcome = 0" "bo_failed no_outcome = 0" "bo_breakdown no_outcome = no_failures"
  "bo_objects_pushed no_outcome = 0"
  by (simp_all add: no_outcome_def)

lemma fs_write_get:
  "fs_write w p c fs = (fs', ok) \<Longrightarrow> q \<noteq> p \<Longrightarrow> fs_get fs' q = fs_get fs q"
  "fs_write w p c fs = (fs', True) \<Longrightarrow> fs_get fs' p = Some c"
  by (auto simp: fs_write_def split: write_outcome.splits)

lemma stage_parts_props:
  "stage_parts env dir parts fs staged = (fs', staged') \<Longrightarrow> distinct staged \<Longrightarrow>
   \<forall>n \<in> set staged. fs_get fs (dir @ [n]) \<noteq> None \<Longrightarrow>
   distinct staged' \<and> (\<forall>n \<in> set staged'. fs_get fs' (dir @ [n]) \<noteq> None) \<and>
   (\<forall>q. fs_get fs q \<noteq> None \<longrightarrow> fs_get fs' q = fs_get fs q)"
proof (induction parts arbitrary: fs staged)
  case (Cons part parts)
  obtain contents name where part: "part = (contents, name)" by fastforce
  show ?case
  proof (cases "(contents = [] \<and> name = None) \<or> \<not> de_mkdir env")
    case True
    then show ?thesis using Cons part by simp
  next
    case False
    define s where "s = sanitize_filename (case name of Some n \<Rightarrow> n | None \<Rightarrow> ''attachment'')"
    define n where "n = unique_path (fs_names dir fs) s"
    obtain fs1 ok where w: "fs_write (de_write env n) (dir @ [n]) contents fs = (fs1, ok)" by fastforce
    have new: "fs_get fs (dir @ [n]) = None"
      using fs_names_iff [of n dir fs] unique_path_fresh [of "fs_names dir fs" s] by (auto simp: n_def)
    have keep: "\<forall>q. fs_get fs q \<noteq> None \<longrightarrow> fs_get fs1 q = fs_get fs q"
      using new fs_write_get(1) [OF w] by metis
    have r: "stage_parts env dir parts fs1 (if ok then staged @ [n] else staged) = (fs', staged')"
      using Cons.prems(1) part False w by (cases ok) (simp_all add: s_def [symmetric] n_def [symmetric] Let_def)
    have "distinct (if ok then staged @ [n] else staged)" using Cons.prems new by auto
    moreover have "\<forall>m \<in> set (if ok then staged @ [n] else staged). fs_get fs1 (dir @ [m]) \<noteq> None"
      using Cons.prems(3) keep fs_write_get(2) w by auto
    ultimately have "distinct staged' \<and> (\<forall>n \<in> set staged'. fs_get fs' (dir @ [n]) \<noteq> None) \<and>
        (\<forall>q. fs_get fs1 q \<noteq> None \<longrightarrow> fs_get fs' q = fs_get fs1 q)"
      by (rule Cons.IH [OF r])
    then show ?thesis using keep by metis
  qed
qed simp

lemma extract_props:
  assumes "extract_attachments env eml dir fs = (fs', r)"
  shows "case r of None \<Rightarrow> fs' = fs | Some staged \<Rightarrow> distinct staged \<and>
      (\<forall>n \<in> set staged. fs_get fs' (dir @ [n]) \<noteq> None)"
    and "fs_get fs q \<noteq> None \<Longrightarrow> fs_get fs' q = fs_get fs q"
  using assms stage_parts_props [where staged = "[]"]
  by (auto simp: extract_attachments_def split: if_splits option.splits prod.splits)

text \<open>The parts of a message that are unpacked: those that have contents or a name, when the message can be read and
  parsed and its directory made. Each gets a name from its own; the ones whose file could be written are staged.\<close>

definition parts_kept :: "deliver_env \<Rightarrow> (string \<times> string option) list \<Rightarrow> (string \<times> string option) list" where
  "parts_kept env parts = filter (\<lambda>(contents, name). de_mkdir env \<and> (contents \<noteq> [] \<or> name \<noteq> None)) parts"

definition unpacked_parts :: "deliver_env \<Rightarrow> string \<Rightarrow> (string \<times> string option) list" where
  "unpacked_parts env eml =
     (if de_readable env then parts_kept env (case de_parse env eml of Some parts \<Rightarrow> parts | None \<Rightarrow> []) else [])"

definition named_after :: "string option \<Rightarrow> string \<Rightarrow> bool" where
  "named_after name n \<longleftrightarrow> (let desired = sanitize_filename (case name of Some n \<Rightarrow> n | None \<Rightarrow> ''attachment'') in
     n = desired \<or> (\<exists>m. n = candidate_name desired m))"

type_synonym staged_part = "(string \<times> string option) \<times> string"

definition parts_written :: "deliver_env \<Rightarrow> staged_part list \<Rightarrow> staged_part list" where
  "parts_written env named = filter (\<lambda>(part, n). de_write env n = Written) named"

lemma unique_path_named: "named_after name (unique_path taken (sanitize_filename (case name of Some n \<Rightarrow> n | None \<Rightarrow> ''attachment'')))"
  unfolding named_after_def unique_path_def Let_def using first_free_spec by (auto simp del: first_free.simps) metis

lemma stage_parts_exact:
  "stage_parts env dir parts fs staged = (fs', staged') \<Longrightarrow> distinct staged \<Longrightarrow>
   \<forall>n \<in> set staged. fs_get fs (dir @ [n]) \<noteq> None \<Longrightarrow>
   \<exists>names. length names = length (parts_kept env parts) \<and>
     (\<forall>((c, name), n) \<in> set (zip (parts_kept env parts) names). named_after name n) \<and>
     staged' = staged @ map snd (parts_written env (zip (parts_kept env parts) names)) \<and>
     (\<forall>((c, name), n) \<in> set (parts_written env (zip (parts_kept env parts) names)). fs_get fs' (dir @ [n]) = Some c)"
proof (induction parts arbitrary: fs staged)
  case Nil
  then show ?case by (simp add: parts_written_def parts_kept_def)
next
  case (Cons part parts)
  obtain contents name where part: "part = (contents, name)" by fastforce
  show ?case
  proof (cases "(contents = [] \<and> name = None) \<or> \<not> de_mkdir env")
    case True
    then have "parts_kept env (part # parts) = parts_kept env parts" by (auto simp: parts_kept_def part)
    moreover have "stage_parts env dir parts fs staged = (fs', staged')" using Cons.prems(1) True part by simp
    ultimately show ?thesis using Cons.IH Cons.prems(2,3) by simp
  next
    case False
    define n where "n = unique_path (fs_names dir fs) (sanitize_filename (case name of Some n \<Rightarrow> n | None \<Rightarrow> ''attachment''))"
    obtain fs1 ok where w: "fs_write (de_write env n) (dir @ [n]) contents fs = (fs1, ok)" by fastforce
    have ok: "ok \<longleftrightarrow> de_write env n = Written" using w by (auto simp: fs_write_def split: write_outcome.splits)
    have new: "fs_get fs (dir @ [n]) = None"
      using fs_names_iff [of n dir fs] unique_path_fresh [of "fs_names dir fs"] by (auto simp: n_def)
    let ?s = "if ok then staged @ [n] else staged"
    have r: "stage_parts env dir parts fs1 ?s = (fs', staged')"
      using Cons.prems(1) part False w by (cases ok) (simp_all add: n_def [symmetric] Let_def)
    have d: "distinct ?s" using Cons.prems new by auto
    have keep: "\<forall>q. fs_get fs q \<noteq> None \<longrightarrow> fs_get fs1 q = fs_get fs q"
      using new fs_write_get(1) [OF w] by metis
    have present: "\<forall>m \<in> set ?s. fs_get fs1 (dir @ [m]) \<noteq> None"
      using Cons.prems(3) keep fs_write_get(2) w by auto
    let ?kept = "parts_kept env parts"
    have more: "parts_kept env (part # parts) = part # ?kept" using False by (simp add: parts_kept_def part)
    obtain names where names: "length names = length ?kept"
      "\<forall>((c, name), n) \<in> set (zip ?kept names). named_after name n"
      "staged' = ?s @ map snd (parts_written env (zip ?kept names))"
      "\<forall>((c, name), n) \<in> set (parts_written env (zip ?kept names)). fs_get fs' (dir @ [n]) = Some c"
      using Cons.IH [OF r d present] by blast
    have here: "ok \<Longrightarrow> fs_get fs' (dir @ [n]) = Some contents"
      using stage_parts_props [OF r d present] fs_write_get(2) [of "de_write env n" "dir @ [n]" contents fs fs1] w by auto
    have "named_after name n" unfolding n_def by (rule unique_path_named)
    then show ?thesis unfolding more using names here ok part
      by (intro exI [of _ "n # names"]) (auto simp: parts_written_def)
  qed
qed

lemma extract_exact:
  assumes "extract_attachments env eml dir fs = (fs', r)"
  shows "\<exists>names. length names = length (unpacked_parts env eml) \<and>
    (\<forall>((c, name), n) \<in> set (zip (unpacked_parts env eml) names). named_after name n) \<and>
    (case r of Some staged \<Rightarrow> staged | None \<Rightarrow> []) = map snd (parts_written env (zip (unpacked_parts env eml) names)) \<and>
    (\<forall>((c, name), n) \<in> set (parts_written env (zip (unpacked_parts env eml) names)). fs_get fs' (dir @ [n]) = Some c)"
proof (cases "de_readable env \<and> de_parse env eml \<noteq> None")
  case True
  then obtain parts staged' where "stage_parts env dir parts fs [] = (fs', staged')" "r = Some staged'" "de_parse env eml = Some parts"
    using assms by (auto simp: extract_attachments_def split: prod.splits)
  moreover have "unpacked_parts env eml = parts_kept env parts" using True calculation(3) by (simp add: unpacked_parts_def)
  ultimately show ?thesis using stage_parts_exact [of env dir parts fs "[]" fs' staged'] by simp
next
  case False
  then have "unpacked_parts env eml = []" "r = None"
    using assms by (auto simp: unpacked_parts_def parts_kept_def extract_attachments_def split: if_splits option.splits prod.splits)
  then show ?thesis by (simp add: parts_written_def)
qed

text \<open>What a delivery has to leave at the destination: the message and each part that was written, under its name.\<close>

definition objects_due :: "string \<Rightarrow> path \<Rightarrow> nat \<Rightarrow> string \<Rightarrow> staged_part list \<Rightarrow> object list" where
  "objects_due email rel uid eml written =
     (let stem = sanitize_segment email @ ''/'' @ relative_key rel @ dec uid in
      (False, eml, stem @ ''.eml'') # map (\<lambda>((contents, _), n). (True, contents, stem @ ''/attachments/'' @ n)) written)"

lemma message_objects_due:
  assumes "\<forall>((c, name), n) \<in> set written. fs_get fs (attachments_dir rel uid @ [n]) = Some c"
  shows "message_objects email rel uid eml (map snd written) fs = objects_due email rel uid eml written"
  using assms by (auto simp: message_objects_def objects_due_def Let_def)

lemma push_objects_props:
  "push_objects env dest objects bucket o1 = Some (bucket', o2, all_pushed) \<Longrightarrow>
   (all_pushed \<longrightarrow> distinct (map (snd \<circ> snd) objects) \<longrightarrow>
      (\<forall>(a, contents, key) \<in> set objects. bucket' (dest @ key) = Some contents)) \<and>
   (\<forall>x. x \<notin> (\<lambda>(a, c, key). dest @ key) ` set objects \<longrightarrow> bucket' x = bucket x) \<and>
   bo_delivered o2 = bo_delivered o1 \<and> bo_failed o2 = bo_failed o1 \<and> bo_breakdown o2 = bo_breakdown o1 \<and>
   bo_extraction_failed o2 = bo_extraction_failed o1 \<and>
   (all_pushed \<longrightarrow> bo_objects_pushed o2 = bo_objects_pushed o1 + length objects)"
proof (induction env dest objects bucket o1 rule: push_objects.induct)
  case (2 env dest att contents key objects bucket o1)
  show ?case
  proof (cases "push_with_gate (de_attempts env key) (de_gate env key) 0")
    case (Some r)
    show ?thesis
    proof (cases r)
      case (Inr u)
      note IH = "2.IH" [OF Some Inr] 
      have rest: "push_objects env dest objects (bucket(dest @ key \<mapsto> contents))
          (o1\<lparr>bo_objects_pushed := bo_objects_pushed o1 + 1,
              bo_attachments_pushed := bo_attachments_pushed o1 + (if att then 1 else 0)\<rparr>) = Some (bucket', o2, all_pushed)"
        using "2.prems" Some Inr by simp
      show ?thesis using IH [OF rest] by (fastforce simp: image_iff)
    qed (use 2 Some in auto)
  qed (use 2 in simp)
qed simp

lemma object_keys_distinct:
  assumes "distinct staged"
  shows "distinct (map (snd \<circ> snd) (message_objects email rel uid eml staged fs))"
  using assms by (auto simp: message_objects_def Let_def comp_def distinct_map inj_on_def)

lemma deliver_one_counts:
  assumes "deliver_one env dest b uid ctx bucket = Some (ctx', bucket', o1)"
  shows "bo_delivered o1 + bo_failed o1 = 1 \<and> bo_failed o1 = breakdown_sum (bo_breakdown o1)"
proof -
  have *: "bo_delivered o2 = 0 \<and> bo_failed o2 = 0 \<and> bo_breakdown o2 = no_failures"
    if "push_objects env dest objs bucket o0 = Some (bk, o2, ok)" "o0 = no_outcome \<or> o0 = no_outcome\<lparr>bo_extraction_failed := 1\<rparr>"
    for objs o0 bk o2 ok
    using push_objects_props [OF that(1)] that(2) by auto
  show ?thesis
    using assms by (auto simp: deliver_one_def Let_def breakdown_sum_def no_failures_def
        split: option.splits prod.splits if_splits dest!: *)
qed

definition calm_env :: deliver_env where
  "calm_env = \<lparr>de_readable = True, de_parse = (\<lambda>_. Some [(''pdf'', Some ''a.pdf'')]), de_mkdir = True,
     de_write = (\<lambda>_. Written), de_attempts = (\<lambda>_ n. if n = 0 then Inl ''dial tcp: no such host'' else Inr ()),
     de_gate = (\<lambda>_ _. Retry), de_checkpoint = True, de_ledger = True, de_now = ''2026'',
     de_remove_eml = True, de_remove_dir = True\<rparr>"

definition archive_batch :: batch where
  "archive_batch = \<lparr>b_mailbox = ''Archive'', b_relpath = [''archive''], b_uidvalidity = 7, b_uids = [20]\<rparr>"

definition archive_context :: import_context where
  "archive_context = \<lparr>ic_alias = ''me'', ic_email = ''me@x.org'',
     ic_scratch = [([''archive'', ''20.eml''], ''raw''), ([''archive'', ''20'', ''5.eml''], ''other'')],
     ic_pushed = Missing, ic_ledger = None\<rparr>"
text \<open>Deleting message 20 of the mailbox \<open>archive\<close> also deletes what is in flight for the mailbox
  \<open>archive/20\<close>: a message's directory and a child mailbox's directory have the same path.\<close>

lemma message_dir_is_child_mailbox:
  "fs_get (ic_scratch archive_context) (eml_path [''archive'', ''20''] 5) = Some ''other'' \<and>
   (case deliver_one calm_env ''b/'' archive_batch 20 archive_context Map.empty of
      Some (ctx, _, _) \<Rightarrow> fs_get (ic_scratch ctx) (eml_path [''archive'', ''20''] 5) = None | None \<Rightarrow> False)"
  by code_simp

text \<open>A message file cut short by a failed write is still there when the next fetch of its batch gets no
  answer for that message, and is then pushed and recorded as delivered.\<close>

lemma torn_fetch_delivered:
  "let write = (\<lambda>_. Partial ''ra'');
       (fs1, r1) = fetch_uids [''archive''] ''Archive'' write [20] (Inr [Inr (Some 20, Some ''raw'')]) [];
       (fs2, r2) = fetch_uids [''archive''] ''Archive'' write [20] (Inr [Inr (Some 20, None)]) fs1
   in r2 = Inr 0 \<and> (case deliver_one calm_env ''b/'' archive_batch 20 (archive_context\<lparr>ic_scratch := fs2\<rparr>) Map.empty of
      Some (ctx, bucket, o1) \<Rightarrow> bo_delivered o1 = 1 \<and> bucket ''b/me-x-org/archive/20.eml'' = Some ''ra''
    | None \<Rightarrow> False)"
  by code_simp



end
