(* ===== verification/ImportPool.thy ===== *)
theory ImportPool
  imports ImportWorker KeyringWizard "HOL-Library.Multiset"
begin

text \<open>
  The workers of \<open>email_import/worker.rs\<close>: the interleaved queue, each worker's loop over its program
  points, the connection permits, requeueing after a failure, and the summary of a run. The workers run
  concurrently and are modelled as one step relation in which any worker may move next.
\<close>

section \<open>Queue items\<close>

type_synonym queue_item = "nat \<times> batch \<times> nat"

definition BATCH_RETRIES :: nat where "BATCH_RETRIES = 3"

abbreviation item_size :: "queue_item \<Rightarrow> nat" where
  "item_size it \<equiv> length (b_uids (fst (snd it)))"

lemma sum_list_tl_less:
  "\<exists>bs \<in> set bss. bs \<noteq> [] \<Longrightarrow> sum_list (map (length \<circ> tl) bss) < sum_list (map length bss)"
proof (induction bss)
  case (Cons bs bss)
  have "sum_list (map (length \<circ> tl) bss) \<le> sum_list (map length bss)" by (induction bss) auto
  then show ?case using Cons by (cases "bs = []") (auto simp: neq_Nil_conv comp_def)
qed simp

text \<open>One batch from every identity in turn until none is left.\<close>

function interleave :: "batch list list \<Rightarrow> queue_item list" where
  "interleave per_identity =
     (let taken = concat (map (\<lambda>(index, bs). case bs of [] \<Rightarrow> [] | b # _ \<Rightarrow> [(index, b, BATCH_RETRIES)])
            (enumerate 0 per_identity)) in
      if \<forall>bs \<in> set per_identity. bs = [] then [] else taken @ interleave (map tl per_identity))"
  by pat_completeness auto

termination
  by (relation "measure (\<lambda>bss. sum_list (map length bss))") (auto intro: sum_list_tl_less)

declare interleave.simps [simp del]

definition worker_count :: "nat \<Rightarrow> nat \<Rightarrow> nat \<Rightarrow> nat" where
  "worker_count max_connections identities total_batches =
     min (max (max_connections * max identities 1) 1) (max total_batches 1)"

definition identity_cap :: "nat option \<Rightarrow> nat \<Rightarrow> nat" where
  "identity_cap own max_connections = max (case own of Some v \<Rightarrow> v | None \<Rightarrow> max_connections) 1"

definition requeue_or_none :: "queue_item \<Rightarrow> queue_item option" where
  "requeue_or_none = (\<lambda>(identity_index, b, attempts_remaining).
     if attempts_remaining = 0 then None else Some (identity_index, b, attempts_remaining - 1))"

definition wait_out_imap_outage :: "gate_decision \<Rightarrow> string \<Rightarrow> bool" where
  "wait_out_imap_outage decision err =
     (if \<not> is_server_overloaded_error err then True else decision = Retry)"

datatype failure_step = ConnectStep | ExamineStep | FetchStep

definition add_to_category :: "failure_step \<Rightarrow> nat \<Rightarrow> failure_breakdown \<Rightarrow> failure_breakdown" where
  "add_to_category step n f = (case step of
     ConnectStep \<Rightarrow> f\<lparr>fb_connect := fb_connect f + n\<rparr>
   | ExamineStep \<Rightarrow> f\<lparr>fb_examine := fb_examine f + n\<rparr>
   | FetchStep \<Rightarrow> f\<lparr>fb_fetch := fb_fetch f + n\<rparr>)"

definition record_dropped_or_requeued ::
  "queue_item list \<Rightarrow> queue_item option \<Rightarrow> nat \<Rightarrow> failure_step \<Rightarrow> batch_outcome \<Rightarrow> queue_item list \<times> batch_outcome" where
  "record_dropped_or_requeued queue it uid_count step o1 = (case it of
     Some i \<Rightarrow> (queue @ [i], o1)
   | None \<Rightarrow> (queue, o1\<lparr>bo_failed := bo_failed o1 + uid_count,
       bo_breakdown := add_to_category step uid_count (bo_breakdown o1)\<rparr>))"

section \<open>The workers\<close>

record connection =
  cn_identity :: nat
  cn_mailbox :: string

text \<open>Where a worker stands: about to take an item, waiting for a permit, connecting, connected with an
  item, its mailbox open, delivering the messages left over with the outcome so far, after a failure with
  what to requeue, or done.\<close>

datatype worker_point =
    Popping "connection option"
  | Acquiring queue_item
  | Connecting queue_item
  | Ready connection queue_item
  | Fetching connection queue_item
  | Delivering connection queue_item "nat list" batch_outcome
  | Settling failure_step "queue_item option" nat
  | Finished

record pool =
  po_queue :: "queue_item list"
  po_workers :: "(worker_point \<times> batch_outcome) list"
  po_permits :: "nat \<Rightarrow> nat"
  po_contexts :: "nat \<Rightarrow> import_context"
  po_bucket :: "string \<rightharpoonup> string"

abbreviation goto :: "nat \<Rightarrow> worker_point \<Rightarrow> batch_outcome \<Rightarrow> pool \<Rightarrow> pool" where
  "goto i pt o1 p \<equiv> p\<lparr>po_workers := (po_workers p)[i := (pt, o1)]\<rparr>"

abbreviation at_worker :: "pool \<Rightarrow> nat \<Rightarrow> worker_point \<Rightarrow> batch_outcome \<Rightarrow> bool" where
  "at_worker p i pt o1 \<equiv> i < length (po_workers p) \<and> po_workers p ! i = (pt, o1)"

definition free_permit :: "connection option \<Rightarrow> pool \<Rightarrow> pool" where
  "free_permit c p = (case c of
     None \<Rightarrow> p
   | Some cn \<Rightarrow> p\<lparr>po_permits := (po_permits p)(cn_identity cn := po_permits p (cn_identity cn) + 1)\<rparr>)"

text \<open>A failure at \<open>step\<close>: the batch is requeued unless the gate has latched or no attempt is left.\<close>

definition after_failure :: "nat \<Rightarrow> failure_step \<Rightarrow> queue_item \<Rightarrow> gate_decision \<Rightarrow> string \<Rightarrow> batch_outcome \<Rightarrow> pool \<Rightarrow> pool" where
  "after_failure i step it decision err o1 p =
     (let may_retry = wait_out_imap_outage decision err in
      goto i (Settling step (if may_retry then requeue_or_none it else None) (item_size it))
        (if may_retry then o1 else o1\<lparr>bo_gate_give_ups := bo_gate_give_ups o1 + item_size it\<rparr>) p)"

text \<open>What a batch needs before its messages are delivered: disk space, its directory, the fetch.\<close>

record fetch_env =
  fe_disk :: "string + unit"
  fe_mkdir :: "string + unit"
  fe_write :: "nat \<Rightarrow> write_outcome"
  fe_responses :: "string + (string + (nat option \<times> string option)) list"

definition fetch_batch :: "fetch_env \<Rightarrow> batch \<Rightarrow> import_context \<Rightarrow> import_context \<times> string option" where
  "fetch_batch env b ctx = (case fe_disk env of
     Inl err \<Rightarrow> (ctx, Some err)
   | Inr _ \<Rightarrow> (case fe_mkdir env of
       Inl err \<Rightarrow> (ctx, Some err)
     | Inr _ \<Rightarrow>
        (let (fs, r) = fetch_uids (b_relpath b) (b_mailbox b) (fe_write env) (b_uids b) (fe_responses env) (ic_scratch ctx)
         in (ctx\<lparr>ic_scratch := fs\<rparr>, case r of Inr _ \<Rightarrow> None | Inl (Err err) \<Rightarrow> Some err | Inl Panic \<Rightarrow> Some []))))"

inductive pool_step :: "string \<Rightarrow> pool \<Rightarrow> pool \<Rightarrow> bool" for dest :: string where
  drained: "at_worker p i (Popping c) o1 \<Longrightarrow> po_queue p = [] \<Longrightarrow>
     pool_step dest p (goto i Finished o1 (free_permit c p))"
| keep: "at_worker p i (Popping (Some cn)) o1 \<Longrightarrow> po_queue p = it # q \<Longrightarrow> fst it = cn_identity cn \<Longrightarrow>
     pool_step dest p (goto i (Ready cn it) o1 (p\<lparr>po_queue := q\<rparr>))"
| switch: "at_worker p i (Popping c) o1 \<Longrightarrow> po_queue p = it # q \<Longrightarrow>
     (case c of None \<Rightarrow> True | Some cn \<Rightarrow> cn_identity cn \<noteq> fst it) \<Longrightarrow>
     pool_step dest p (goto i (Acquiring it) o1 (free_permit c (p\<lparr>po_queue := q\<rparr>)))"
| permit: "at_worker p i (Acquiring it) o1 \<Longrightarrow> po_permits p (fst it) > 0 \<Longrightarrow>
     pool_step dest p (goto i (Connecting it) o1 (p\<lparr>po_permits := (po_permits p)(fst it := po_permits p (fst it) - 1)\<rparr>))"
| connected: "at_worker p i (Connecting it) o1 \<Longrightarrow>
     pool_step dest p (goto i (Ready \<lparr>cn_identity = fst it, cn_mailbox = []\<rparr> it) o1 p)"
| connect_failed: "at_worker p i (Connecting it) o1 \<Longrightarrow>
     pool_step dest p (after_failure i ConnectStep it d err o1
       (free_permit (Some \<lparr>cn_identity = fst it, cn_mailbox = []\<rparr>) p))"
| same_mailbox: "at_worker p i (Ready cn it) o1 \<Longrightarrow> cn_mailbox cn = b_mailbox (fst (snd it)) \<Longrightarrow>
     pool_step dest p (goto i (Fetching cn it) o1 p)"
| examined: "at_worker p i (Ready cn it) o1 \<Longrightarrow> cn_mailbox cn \<noteq> b_mailbox (fst (snd it)) \<Longrightarrow>
     pool_step dest p (goto i (Fetching (cn\<lparr>cn_mailbox := b_mailbox (fst (snd it))\<rparr>) it) o1 p)"
| examine_failed: "at_worker p i (Ready cn it) o1 \<Longrightarrow> cn_mailbox cn \<noteq> b_mailbox (fst (snd it)) \<Longrightarrow>
     pool_step dest p (after_failure i ExamineStep it d err o1 (free_permit (Some cn) p))"
| fetched: "at_worker p i (Fetching cn it) o1 \<Longrightarrow>
     fetch_batch env (fst (snd it)) (po_contexts p (fst it)) = (ctx', None) \<Longrightarrow>
     pool_step dest p (goto i (Delivering cn it (b_uids (fst (snd it))) no_outcome) o1
       (p\<lparr>po_contexts := (po_contexts p)(fst it := ctx')\<rparr>))"
| fetch_failed: "at_worker p i (Fetching cn it) o1 \<Longrightarrow>
     fetch_batch env (fst (snd it)) (po_contexts p (fst it)) = (ctx', Some err) \<Longrightarrow>
     pool_step dest p (after_failure i FetchStep it d err o1
       (free_permit (Some cn) (p\<lparr>po_contexts := (po_contexts p)(fst it := ctx')\<rparr>)))"
| delivered_one: "at_worker p i (Delivering cn it todo acc) o1 \<Longrightarrow> uid \<in> set todo \<Longrightarrow>
     deliver_one denv dest (fst (snd it)) uid (po_contexts p (fst it)) (po_bucket p) = Some (ctx', bucket', one) \<Longrightarrow>
     pool_step dest p (goto i (Delivering cn it (remove1 uid todo) (outcome_merge acc one)) o1
       (p\<lparr>po_contexts := (po_contexts p)(fst it := ctx'), po_bucket := bucket'\<rparr>))"
| batch_done: "at_worker p i (Delivering cn it [] acc) o1 \<Longrightarrow>
     pool_step dest p (goto i (Popping (Some cn)) (outcome_merge o1 acc) p)"
| settled: "at_worker p i (Settling step it n) o1 \<Longrightarrow>
     record_dropped_or_requeued (po_queue p) it n step o1 = (q', o2) \<Longrightarrow>
     pool_step dest p (goto i (Popping None) o2 (p\<lparr>po_queue := q'\<rparr>))"

inductive pool_run :: "string \<Rightarrow> nat \<Rightarrow> pool \<Rightarrow> pool \<Rightarrow> bool" for dest :: string where
  run_refl: "pool_run dest 0 p p"
| run_step: "pool_run dest n p q \<Longrightarrow> pool_step dest q r \<Longrightarrow> pool_run dest (Suc n) p r"

text \<open>The start of a run, and the summary of its workers' outcomes.\<close>

definition import_start :: "nat \<Rightarrow> nat \<Rightarrow> (import_context \<times> nat option) list \<Rightarrow> pending_mailbox list list \<Rightarrow>
    (string \<rightharpoonup> string) \<Rightarrow> pool" where
  "import_start batch_size max_connections contexts pending_by_identity bucket =
     (let queue = interleave (map (\<lambda>ps. batches_from_pending ps batch_size) pending_by_identity) in
      \<lparr>po_queue = queue,
       po_workers = replicate (worker_count max_connections (length contexts) (length queue)) (Popping None, no_outcome),
       po_permits = (\<lambda>k. if k < length contexts then identity_cap (snd (contexts ! k)) max_connections else 1),
       po_contexts = (\<lambda>k. fst (contexts ! k)),
       po_bucket = bucket\<rparr>)"

definition job_summary :: "pool \<Rightarrow> batch_outcome" where
  "job_summary p = foldl (\<lambda>acc w. outcome_merge acc (snd w)) no_outcome (po_workers p)"

text \<open>The pushes of the ledgers; a context without one is skipped.\<close>

fun flush_ledgers :: "(string + unit) option list \<Rightarrow> nat" where
  "flush_ledgers [] = 0"
| "flush_ledgers (None # cs) = flush_ledgers cs"
| "flush_ledgers (Some (Inr _) # cs) = flush_ledgers cs"
| "flush_ledgers (Some (Inl _) # cs) = flush_ledgers cs + 1"

text \<open>The summary of a run and how the command ends: \<open>periodic\<close> counts the failures of the periodic pushes, \<open>pushes\<close> are
  the final ones, one for each identity.\<close>

record import_summary =
  is_outcome :: batch_outcome
  is_ledger_flush_failures :: nat
  is_final_flush_failed :: bool

definition import_end :: "pool \<Rightarrow> nat \<Rightarrow> (string + unit) option list \<Rightarrow> import_summary" where
  "import_end p periodic pushes =
     \<lparr>is_outcome = job_summary p,
      is_ledger_flush_failures = (if list_ex (\<lambda>c. c \<noteq> None) pushes then periodic + flush_ledgers pushes else 0),
      is_final_flush_failed = (flush_ledgers pushes > 0)\<rparr>"

definition import_messages :: "import_summary \<Rightarrow> string list" where
  "import_messages s = (let r = is_outcome s; f = bo_breakdown r in
     [''Delivered '' @ dec (bo_delivered r) @ '' message(s) and '' @ dec (bo_attachments_pushed r) @ '' attachment(s) ('' @
        dec (bo_objects_pushed r) @ '' object(s) pushed), '' @ dec (bo_failed r) @ '' failed ('' @ dec (fb_connect f) @ '' connect, '' @
        dec (fb_examine f) @ '' examine, '' @ dec (fb_fetch f) @ '' fetch, '' @ dec (fb_missing_file f) @ '' missing-file, '' @
        dec (fb_push f) @ '' push).''] @
     (if bo_extraction_failed r > 0
      then [dec (bo_extraction_failed r) @ '' message(s) could not be parsed; their raw .eml was still delivered.''] else []) @
     (if bo_gate_give_ups r > 0
      then [dec (bo_gate_give_ups r) @ '' failure(s) happened after an endpoint stayed unreachable past the recovery budget -- a rerun will pick them up.'']
      else []) @
     (if is_ledger_flush_failures s > 0
      then [dec (is_ledger_flush_failures s) @ '' ledger push(es) failed'' @
        (if is_final_flush_failed s
         then '', including the final one -- the ledger is missing this run'' @ [CHR 0x27] @
           ''s latest deliveries, so a run on another host would ingest them again''
         else []) @ ''.'']
      else []))"

definition import_exit_code :: "import_summary result \<Rightarrow> int" where
  "import_exit_code r = (case r of
     Inr s \<Rightarrow> if bo_failed (is_outcome s) > 0 \<or> is_final_flush_failed s then FAILURE_EXIT_CODE else 0
   | Inl _ \<Rightarrow> FAILURE_EXIT_CODE)"

lemma flush_ledgers_zero: "flush_ledgers cs = 0 \<longleftrightarrow> (\<forall>err. Some (Inl err) \<notin> set cs)"
  by (induction cs rule: flush_ledgers.induct) auto

section \<open>What every step keeps\<close>

fun held :: "worker_point \<Rightarrow> nat" where
  "held (Acquiring it) = item_size it"
| "held (Connecting it) = item_size it"
| "held (Ready _ it) = item_size it"
| "held (Fetching _ it) = item_size it"
| "held (Delivering _ it todo acc) = length todo + bo_delivered acc + bo_failed acc"
| "held (Settling _ _ n) = n"
| "held _ = 0"

definition counted :: "batch_outcome \<Rightarrow> nat" where "counted o1 = bo_delivered o1 + bo_failed o1"

definition balanced :: "batch_outcome \<Rightarrow> bool" where
  "balanced o1 \<longleftrightarrow> bo_failed o1 = breakdown_sum (bo_breakdown o1)"

fun worker_ok :: "worker_point \<times> batch_outcome \<Rightarrow> bool" where
  "worker_ok (Delivering _ it todo acc, o1) \<longleftrightarrow> balanced o1 \<and> balanced acc"
| "worker_ok (Settling _ (Some it) n, o1) \<longleftrightarrow> balanced o1 \<and> item_size it = n"
| "worker_ok (_, o1) \<longleftrightarrow> balanced o1"

text \<open>How many permits of an identity a worker holds.\<close>

fun holds :: "nat \<Rightarrow> worker_point \<Rightarrow> nat" where
  "holds k (Popping (Some cn)) = (if cn_identity cn = k then 1 else 0)"
| "holds k (Connecting it) = (if fst it = k then 1 else 0)"
| "holds k (Ready cn _) = (if cn_identity cn = k then 1 else 0)"
| "holds k (Fetching cn _) = (if cn_identity cn = k then 1 else 0)"
| "holds k (Delivering cn _ _ _) = (if cn_identity cn = k then 1 else 0)"
| "holds k _ = 0"

text \<open>The work still possible: an item is worth its remaining attempts times its longest passage through a
  worker.\<close>

definition item_weight :: "queue_item \<Rightarrow> nat" where
  "item_weight it = (snd (snd it) + 1) * (item_size it + 10)"

definition base_weight :: "queue_item \<Rightarrow> nat" where
  "base_weight it = snd (snd it) * (item_size it + 10)"

fun point_weight :: "worker_point \<Rightarrow> nat" where
  "point_weight (Popping _) = 1"
| "point_weight (Acquiring it) = base_weight it + item_size it + 9"
| "point_weight (Connecting it) = base_weight it + item_size it + 8"
| "point_weight (Ready _ it) = base_weight it + item_size it + 7"
| "point_weight (Fetching _ it) = base_weight it + item_size it + 6"
| "point_weight (Delivering _ it todo _) = base_weight it + length todo + 5"
| "point_weight (Settling _ it _) = (case it of Some i \<Rightarrow> item_weight i | None \<Rightarrow> 0) + 3"
| "point_weight Finished = 0"

definition queue_size :: "pool \<Rightarrow> nat" where "queue_size p = sum_list (map item_size (po_queue p))"
definition queue_weight :: "pool \<Rightarrow> nat" where "queue_weight p = sum_list (map item_weight (po_queue p))"

lemma item_weight_base: "item_weight it = base_weight it + item_size it + 10"
  by (simp add: item_weight_def base_weight_def)

lemma requeue_weight: "requeue_or_none it = Some it' \<Longrightarrow> item_weight it' = base_weight it \<and> item_size it' = item_size it"
  by (cases it, cases "snd (snd it)") (auto simp: requeue_or_none_def item_weight_def base_weight_def)

lemma outcome_sums [simp]:
  "counted (outcome_merge a b) = counted a + counted b"
  "balanced a \<Longrightarrow> balanced b \<Longrightarrow> balanced (outcome_merge a b)"
  "balanced no_outcome" "counted no_outcome = 0"
  by (simp_all add: counted_def balanced_def outcome_merge_def)

text \<open>What one step does to the worker that moves and to the shared state.\<close>

definition moves :: "pool \<Rightarrow> pool \<Rightarrow> worker_point \<times> batch_outcome \<Rightarrow> worker_point \<times> batch_outcome \<Rightarrow> bool" where
  "moves p p' w w' \<longleftrightarrow>
     queue_size p' + held (fst w') + counted (snd w') = queue_size p + held (fst w) + counted (snd w) \<and>
     queue_weight p' + point_weight (fst w') < queue_weight p + point_weight (fst w) \<and>
     (\<forall>k. po_permits p' k + holds k (fst w') = po_permits p k + holds k (fst w)) \<and>
     worker_ok w' \<and> fst w \<noteq> Finished \<and> (fst w' = Finished \<longrightarrow> po_queue p' = [])"

lemma free_permit_simps [simp]:
  "po_queue (free_permit c p) = po_queue p" "po_workers (free_permit c p) = po_workers p"
  "po_permits (free_permit c p) k = po_permits p k + holds k (Popping c)"
  by (auto simp: free_permit_def split: option.split)

lemma add_to_category_sum [simp]: "breakdown_sum (add_to_category step n f) = breakdown_sum f + n"
  by (cases step) (simp_all add: add_to_category_def breakdown_sum_def)

lemma worker_ok_balanced: "worker_ok (pt, o1) \<Longrightarrow> balanced o1"
  by (cases "(pt, o1)" rule: worker_ok.cases) simp_all

definition moved :: "pool \<Rightarrow> pool \<Rightarrow> nat \<Rightarrow> worker_point \<times> batch_outcome \<Rightarrow> bool" where
  "moved p p' i w' \<longleftrightarrow> i < length (po_workers p) \<and> po_workers p' = (po_workers p)[i := w'] \<and>
     moves p p' (po_workers p ! i) w'"

lemmas moved_defs = moved_def moves_def queue_size_def queue_weight_def item_weight_base

lemma after_failure_moves:
  assumes "at_worker p i pt o1" "balanced o1" "held pt = item_size it" "po_queue p' = po_queue p"
    "base_weight it + 3 < point_weight pt" "po_workers p' = po_workers p" "pt \<noteq> Finished"
    "\<And>k. po_permits p' k = po_permits p k + holds k pt"
  shows "\<exists>w'. moved p (after_failure i step it d err o1 p') i w'"
proof -
  let ?r = "if wait_out_imap_outage d err then requeue_or_none it else None"
  let ?o = "if wait_out_imap_outage d err then o1 else o1\<lparr>bo_gate_give_ups := bo_gate_give_ups o1 + item_size it\<rparr>"
  let ?w = "(Settling step ?r (item_size it), ?o)"
  let ?p = "after_failure i step it d err o1 p'"
  have q: "po_queue ?p = po_queue p" "po_workers ?p = (po_workers p)[i := ?w]" "po_permits ?p = po_permits p'"
    using assms(4,6) by (simp_all add: after_failure_def Let_def)
  have o: "balanced ?o" "counted ?o = counted o1" using assms(2) by (simp_all add: balanced_def counted_def)
  have r: "?r = Some it' \<Longrightarrow> item_weight it' = base_weight it \<and> item_size it' = item_size it" for it'
    using requeue_weight by (simp split: if_splits)
  have w: "worker_ok ?w" using o(1) r by (cases ?r) auto
  have pw: "point_weight (fst ?w) \<le> base_weight it + 3" using r by (cases ?r) auto
  have "moves p ?p (pt, o1) ?w"
    unfolding moves_def queue_size_def queue_weight_def using q o w pw assms(3,5,7,8) by simp
  then show ?thesis using assms(1) q(2) unfolding moved_def by metis
qed

lemma pool_step_moves:
  assumes "pool_step dest p p'" and ok: "\<forall>w \<in> set (po_workers p). worker_ok w"
  shows "\<exists>i w'. moved p p' i w'"
proof -
  have wok: "worker_ok (pt, o1)" "balanced o1" if "at_worker p i pt o1" for i pt o1
    using that ok nth_mem worker_ok_balanced by metis+
  from assms(1) show ?thesis
  proof cases
    case (drained i c o1)
    then have "moved p p' i (Finished, o1)" using wok(2) by (simp add: moved_defs)
    then show ?thesis by blast
  next
    case (keep i cn o1 it q)
    then have "moved p p' i (Ready cn it, o1)" using wok(2) by (simp add: moved_defs)
    then show ?thesis by blast
  next
    case (switch i c o1 it q)
    then have "moved p p' i (Acquiring it, o1)" using wok(2) by (simp add: moved_defs)
    then show ?thesis by blast
  next
    case (permit i it o1)
    then have "moved p p' i (Connecting it, o1)" using wok(2) by (simp add: moved_defs)
    then show ?thesis by blast
  next
    case (connected i it o1)
    then have "moved p p' i (Ready \<lparr>cn_identity = fst it, cn_mailbox = []\<rparr> it, o1)"
      using wok(2) by (simp add: moved_defs)
    then show ?thesis by blast
  next
    case (connect_failed i it o1 d err)
    have "\<exists>w'. moved p p' i w'" unfolding connect_failed(1)
      by (rule after_failure_moves [OF connect_failed(2) wok(2) [OF connect_failed(2)]]) simp_all
    then show ?thesis by blast
  next
    case (same_mailbox i cn it o1)
    then have "moved p p' i (Fetching cn it, o1)" using wok(2) by (simp add: moved_defs)
    then show ?thesis by blast
  next
    case (examined i cn it o1)
    then have "moved p p' i (Fetching (cn\<lparr>cn_mailbox := b_mailbox (fst (snd it))\<rparr>) it, o1)"
      using wok(2) by (simp add: moved_defs)
    then show ?thesis by blast
  next
    case (examine_failed i cn it o1 d err)
    have "\<exists>w'. moved p p' i w'" unfolding examine_failed(1)
      by (rule after_failure_moves [OF examine_failed(2) wok(2) [OF examine_failed(2)]]) simp_all
    then show ?thesis by blast
  next
    case (fetched i cn it o1 env ctx')
    then have "moved p p' i (Delivering cn it (b_uids (fst (snd it))) no_outcome, o1)"
      using wok(2) by (simp add: moved_defs)
    then show ?thesis by blast
  next
    case (fetch_failed i cn it o1 env ctx' err d)
    have "\<exists>w'. moved p p' i w'" unfolding fetch_failed(1)
      by (rule after_failure_moves [OF fetch_failed(2) wok(2) [OF fetch_failed(2)]]) simp_all
    then show ?thesis by blast
  next
    case (delivered_one i cn it todo acc o1 uid denv ctx' bucket' one)
    have "moved p p' i (Delivering cn it (remove1 uid todo) (outcome_merge acc one), o1)"
      using delivered_one wok [OF delivered_one(2)] deliver_one_counts [OF delivered_one(4)]
      by (auto simp: moved_defs length_remove1 outcome_merge_def balanced_def dest: length_pos_if_in_set)
    then show ?thesis by blast
  next
    case (batch_done i cn it acc o1)
    have "moved p p' i (Popping (Some cn), outcome_merge o1 acc)"
      using batch_done wok [OF batch_done(2)] by (simp add: moved_defs) (simp add: counted_def)
    then show ?thesis by blast
  next
    case (settled i step it n o1 q' o2)
    have "moved p p' i (Popping None, o2)"
      using settled wok [OF settled(2)]
      by (cases it) (auto simp: record_dropped_or_requeued_def moved_defs counted_def balanced_def)
    then show ?thesis by blast
  qed
qed

section \<open>What a run keeps\<close>

definition workers_sum :: "(worker_point \<times> batch_outcome \<Rightarrow> nat) \<Rightarrow> pool \<Rightarrow> nat" where
  "workers_sum f p = sum_list (map f (po_workers p))"

definition pool_weight :: "pool \<Rightarrow> nat" where
  "pool_weight p = queue_weight p + workers_sum (point_weight \<circ> fst) p"

definition accounted :: "pool \<Rightarrow> nat" where
  "accounted p = queue_size p + workers_sum (\<lambda>w. held (fst w) + counted (snd w)) p"

definition pool_inv :: "(nat \<Rightarrow> nat) \<Rightarrow> nat \<Rightarrow> pool \<Rightarrow> bool" where
  "pool_inv cap msgs p \<longleftrightarrow> accounted p = msgs \<and> (\<forall>w \<in> set (po_workers p). worker_ok w) \<and>
     (\<forall>k. po_permits p k + workers_sum (holds k \<circ> fst) p = cap k) \<and>
     ((\<forall>w \<in> set (po_workers p). fst w = Finished) \<longrightarrow> po_queue p = [])"

lemma sum_list_set: "i < length xs \<Longrightarrow> sum_list (map f (xs[i := x])) + f (xs ! i) = sum_list (map f xs) + (f x :: 'b :: comm_monoid_add)"
proof (induction xs arbitrary: i)
  case (Cons y ys)
  then show ?case by (cases i) (simp_all add: ac_simps)
qed simp

lemma workers_sum_moved:
  "moved p p' i w' \<Longrightarrow> workers_sum f p' + f (po_workers p ! i) = workers_sum f p + f w'"
  unfolding workers_sum_def moved_def using sum_list_set [of i "po_workers p" f w'] by simp

lemma pool_inv_step:
  assumes "pool_step dest p p'" and "pool_inv cap msgs p"
  shows "pool_inv cap msgs p' \<and> pool_weight p' < pool_weight p"
proof -
  obtain i w' where m: "moved p p' i w'"
    using pool_step_moves [OF assms(1)] assms(2) by (auto simp: pool_inv_def)
  then have mv: "moves p p' (po_workers p ! i) w'" and i: "i < length (po_workers p)"
    and ws: "po_workers p' = (po_workers p)[i := w']" by (simp_all add: moved_def)
  note s = workers_sum_moved [OF m]
  have acc: "accounted p' = accounted p"
    using mv s [of "\<lambda>w. held (fst w) + counted (snd w)"] unfolding accounted_def moves_def by linarith
  have wt: "pool_weight p' < pool_weight p"
    using mv s [of "point_weight \<circ> fst"] unfolding pool_weight_def moves_def comp_def by linarith
  have permits: "po_permits p' k + workers_sum (holds k \<circ> fst) p' = cap k" for k
  proof -
    have "po_permits p' k + holds k (fst w') = po_permits p k + holds k (fst (po_workers p ! i))"
      using mv by (simp add: moves_def)
    moreover have "po_permits p k + workers_sum (holds k \<circ> fst) p = cap k" using assms(2) by (simp add: pool_inv_def)
    ultimately show ?thesis using s [of "holds k \<circ> fst"] unfolding comp_def by linarith
  qed
  have "w' \<in> set (po_workers p')" using ws i by (simp add: set_update_memI)
  then have "(\<forall>w \<in> set (po_workers p'). fst w = Finished) \<longrightarrow> po_queue p' = []"
    using mv by (auto simp: moves_def)
  moreover have "\<forall>w \<in> set (po_workers p'). worker_ok w"
    using ws mv assms(2) set_update_subset_insert [of "po_workers p" i w'] by (auto simp: moves_def pool_inv_def)
  ultimately show ?thesis using acc wt permits assms(2) by (simp add: pool_inv_def)
qed

lemma pool_inv_run:
  "pool_run dest n p q \<Longrightarrow> pool_inv cap msgs p \<Longrightarrow> pool_inv cap msgs q \<and> pool_weight q + n \<le> pool_weight p"
  by (induction rule: pool_run.induct) (auto dest!: pool_inv_step)

text \<open>Some worker can always move until all are done: one that waits for a permit waits for workers that
  can move.\<close>

lemma push_objects_returns:
  "(\<And>key. de_attempts env key 0 = Inr ()) \<Longrightarrow> \<exists>r. push_objects env dest objects bucket o1 = Some r"
  by (induction env dest objects bucket o1 rule: push_objects.induct)
    (auto simp: push_step(1) push_settles_def)

lemma deliver_one_returns:
  assumes "\<And>key. de_attempts env key 0 = Inr ()"
  shows "\<exists>ctx' bucket' o1. deliver_one env dest b uid ctx bucket = Some (ctx', bucket', o1)"
proof -
  have "\<exists>x y z. push_objects env dest objects bucket o1 = Some (x, y, z)" for objects o1
    using push_objects_returns [OF assms] by (metis prod_cases3)
  then show ?thesis
    by (auto simp: deliver_one_def Let_def split: option.splits prod.splits) (metis option.distinct(1))+
qed

lemma fetch_failure_possible: "fetch_batch \<lparr>fe_disk = Inl err, fe_mkdir = m, fe_write = w, fe_responses = r\<rparr> b ctx = (ctx, Some err)"
  by (simp add: fetch_batch_def)

lemma busy_worker_moves:
  assumes "at_worker p i pt o1" and "pt \<noteq> Finished" and "\<forall>it. pt \<noteq> Acquiring it"
  shows "\<exists>p'. pool_step dest p p'"
proof (cases pt)
  case (Popping c)
  show ?thesis
  proof (cases "po_queue p")
    case Nil
    then show ?thesis using drained [OF assms(1) [unfolded Popping]] by blast
  next
    case (Cons it q)
    show ?thesis
    proof (cases "\<exists>cn. c = Some cn \<and> cn_identity cn = fst it")
      case True
      then obtain cn where c: "c = Some cn" "fst it = cn_identity cn" by auto
      show ?thesis using keep [OF assms(1) [unfolded Popping c(1)] Cons c(2)] by blast
    next
      case False
      then have "case c of None \<Rightarrow> True | Some cn \<Rightarrow> cn_identity cn \<noteq> fst it" by (auto split: option.split)
      then show ?thesis using switch [OF assms(1) [unfolded Popping] Cons] by blast
    qed
  qed
next
  case (Connecting it)
  then show ?thesis using connected assms(1) by blast
next
  case (Ready cn it)
  then show ?thesis using same_mailbox examined assms(1) by blast
next
  case (Fetching cn it)
  then show ?thesis using fetch_failed [OF _ fetch_failure_possible] assms(1) by blast
next
  case (Delivering cn it todo acc)
  show ?thesis
  proof (cases todo)
    case Nil
    then show ?thesis using batch_done assms(1) Delivering by blast
  next
    case (Cons uid rest)
    define env where "env = calm_env\<lparr>de_attempts := (\<lambda>_ _. Inr ())\<rparr>"
    obtain ctx' bucket' one where
      "deliver_one env dest (fst (snd it)) uid (po_contexts p (fst it)) (po_bucket p) = Some (ctx', bucket', one)"
      using deliver_one_returns [of env dest "fst (snd it)" uid "po_contexts p (fst it)" "po_bucket p"]
      by (auto simp: env_def)
    from delivered_one [OF assms(1) [unfolded Delivering] _ this] show ?thesis using Cons by auto
  qed
next
  case (Settling step it n)
  obtain q' o2 where "record_dropped_or_requeued (po_queue p) it n step o1 = (q', o2)" by fastforce
  then show ?thesis using settled assms(1) Settling by blast
qed (use assms in simp_all)

lemma pool_progress:
  assumes inv: "pool_inv cap msgs p" and cap: "\<And>k. 0 < cap k" and w: "\<exists>w \<in> set (po_workers p). fst w \<noteq> Finished"
  shows "\<exists>p'. pool_step dest p p'"
proof (cases "\<exists>w \<in> set (po_workers p). fst w \<noteq> Finished \<and> (\<forall>it. fst w \<noteq> Acquiring it)")
  case True
  then obtain i where "i < length (po_workers p)" "fst (po_workers p ! i) \<noteq> Finished"
    "\<forall>it. fst (po_workers p ! i) \<noteq> Acquiring it" by (metis in_set_conv_nth)
  then show ?thesis using busy_worker_moves [where p = p and i = i] by (metis prod.collapse)
next
  case False
  then have "\<forall>w \<in> set (po_workers p). holds k (fst w) = 0" for k by force
  then have z: "workers_sum (holds k \<circ> fst) p = 0" for k by (simp add: workers_sum_def)
  obtain i it where i: "i < length (po_workers p)" "fst (po_workers p ! i) = Acquiring it"
    using w False by (metis in_set_conv_nth)
  have "po_permits p (fst it) > 0" using inv z cap [of "fst it"] by (simp add: pool_inv_def)
  moreover have "at_worker p i (Acquiring it) (snd (po_workers p ! i))" using i by (metis prod.collapse)
  ultimately show ?thesis using permit by blast
qed

section \<open>From the pending messages to the summary\<close>

lemma interleave_sum: "sum_list (map (\<lambda>it. f (fst (snd it))) (interleave bss)) = (\<Sum>bs \<leftarrow> bss. sum_list (map f bs))"
  for f :: "batch \<Rightarrow> nat"
proof (induction bss rule: interleave.induct)
  case (1 bss)
  define firsts where "firsts n bss = concat (map (\<lambda>(index, bs). case bs of [] \<Rightarrow> [] | b # _ \<Rightarrow> [(index, b, BATCH_RETRIES)])
      (enumerate n bss))" for n and bss :: "batch list list"
  have split: "sum_list (map (\<lambda>it. f (fst (snd it))) (firsts n bss)) + (\<Sum>bs \<leftarrow> map tl bss. sum_list (map f bs)) =
      (\<Sum>bs \<leftarrow> bss. sum_list (map f bs))" for n bss
    by (induction bss arbitrary: n) (auto simp: firsts_def split: list.split)
  show ?case
  proof (cases "\<forall>bs \<in> set bss. bs = []")
    case True
    then have "(\<Sum>bs \<leftarrow> bss. sum_list (map f bs)) = 0" by (induction bss) auto
    then show ?thesis using True by (subst interleave.simps) simp
  next
    case False
    then have "interleave bss = firsts 0 bss @ interleave (map tl bss)"
      by (subst interleave.simps) (simp only: firsts_def Let_def if_False)
    then show ?thesis using "1.IH" [OF refl False] split [of 0 bss] by simp
  qed
qed

lemma batches_size: "sum_list (map (length \<circ> b_uids) (batches_from_pending ps n)) = (\<Sum>pm \<leftarrow> ps. length (pm_uids pm))"
proof -
  have "sum_list (map length (chunks n us)) = length us" for us :: "nat list"
    using chunks_props [where n = n and xs = us] by (metis length_concat)
  then show ?thesis
    by (induction ps) (simp_all add: batches_from_pending_def split_into_batches_def comp_def)
qed

text \<open>All messages pending in an import.\<close>

definition pending_total :: "pending_mailbox list list \<Rightarrow> nat" where
  "pending_total pending = (\<Sum>ps \<leftarrow> pending. \<Sum>pm \<leftarrow> ps. length (pm_uids pm))"

lemma import_start_inv:
  "pool_inv (po_permits (import_start bs mc contexts pending bucket)) (pending_total pending)
     (import_start bs mc contexts pending bucket)"
proof -
  let ?q = "interleave (map (\<lambda>ps. batches_from_pending ps bs) pending)"
  have "sum_list (map item_size ?q) = pending_total pending"
    using interleave_sum [of "length \<circ> b_uids"]
    by (simp add: pending_total_def comp_def batches_size [unfolded comp_def])
  moreover have "sum_list (replicate n (0::nat)) = 0" for n by (induction n) simp_all
  moreover have "0 < worker_count mc n k" for n k by (simp add: worker_count_def less_max_iff_disj)
  ultimately show ?thesis
    by (simp add: pool_inv_def import_start_def Let_def accounted_def queue_size_def workers_sum_def
        map_replicate_const)
qed

lemma import_start_caps: "0 < po_permits (import_start bs mc contexts pending bucket) k"
  by (simp add: import_start_def Let_def identity_cap_def less_max_iff_disj)

lemma job_summary_sums:
  "counted (job_summary p) = workers_sum (counted \<circ> snd) p"
  "\<forall>w \<in> set (po_workers p). balanced (snd w) \<Longrightarrow> balanced (job_summary p)"
proof -
  have "counted (foldl (\<lambda>acc w. outcome_merge acc (snd w)) a ws) = counted a + sum_list (map (counted \<circ> snd) ws)"
    for a and ws :: "(worker_point \<times> batch_outcome) list"
    by (induction ws arbitrary: a) (simp_all add: comp_def)
  then show "counted (job_summary p) = workers_sum (counted \<circ> snd) p"
    by (simp add: job_summary_def workers_sum_def)
  have "balanced a \<Longrightarrow> \<forall>w \<in> set ws. balanced (snd w) \<Longrightarrow> balanced (foldl (\<lambda>acc w. outcome_merge acc (snd w)) a ws)"
    for a and ws :: "(worker_point \<times> batch_outcome) list"
    by (induction ws arbitrary: a) simp_all
  then show "\<forall>w \<in> set (po_workers p). balanced (snd w) \<Longrightarrow> balanced (job_summary p)"
    by (simp add: job_summary_def)
qed

section \<open>Which message is where\<close>

text \<open>A message of an import: the identity it belongs to, its mailbox, relpath and \<open>UIDVALIDITY\<close>, and its UID.\<close>

type_synonym pending_message = "nat \<times> message"

definition queued_messages :: "nat \<Rightarrow> batch \<Rightarrow> nat list \<Rightarrow> pending_message multiset" where
  "queued_messages k b uids = mset (map (\<lambda>u. (k, b_mailbox b, b_relpath b, b_uidvalidity b, u)) uids)"

abbreviation item_messages :: "queue_item \<Rightarrow> pending_message multiset" where
  "item_messages it \<equiv> queued_messages (fst it) (fst (snd it)) (b_uids (fst (snd it)))"

text \<open>The messages a worker still has to see to, and the number of those it has settled but not yet counted.\<close>

fun in_hand :: "worker_point \<Rightarrow> pending_message multiset" where
  "in_hand (Acquiring it) = item_messages it"
| "in_hand (Connecting it) = item_messages it"
| "in_hand (Ready _ it) = item_messages it"
| "in_hand (Fetching _ it) = item_messages it"
| "in_hand (Delivering _ it todo _) = queued_messages (fst it) (fst (snd it)) todo"
| "in_hand (Settling _ (Some it) _) = item_messages it"
| "in_hand _ = {#}"

fun settled_here :: "worker_point \<Rightarrow> nat" where
  "settled_here (Delivering _ _ _ acc) = counted acc"
| "settled_here (Settling _ None n) = n"
| "settled_here _ = 0"

definition waiting :: "pool \<Rightarrow> pending_message multiset" where
  "waiting p = sum_list (map item_messages (po_queue p)) + sum_list (map (in_hand \<circ> fst) (po_workers p))"

text \<open>The messages of the whole import, straight from the pending mailboxes of each identity.\<close>

definition all_messages :: "pending_mailbox list list \<Rightarrow> pending_message multiset" where
  "all_messages pending = mset (concat (map (\<lambda>(k, ps). concat (map (\<lambda>m.
     map (\<lambda>u. (k, pm_mailbox m, pm_relpath m, pm_uidvalidity m, u)) (pm_uids m)) ps)) (enumerate 0 pending)))"

text \<open>A worker that fetches or delivers is connected as the identity of its item, with the item's mailbox open.\<close>

fun connection_fits :: "worker_point \<Rightarrow> bool" where
  "connection_fits (Ready cn it) = (cn_identity cn = fst it)"
| "connection_fits (Fetching cn it) = (cn_identity cn = fst it \<and> cn_mailbox cn = b_mailbox (fst (snd it)))"
| "connection_fits (Delivering cn it _ _) = (cn_identity cn = fst it \<and> cn_mailbox cn = b_mailbox (fst (snd it)))"
| "connection_fits _ = True"

lemma size_queued_messages [simp]: "size (queued_messages k b uids) = length uids"
  by (simp add: queued_messages_def)

lemma size_sum_list: "size (sum_list (ms :: 'a multiset list)) = sum_list (map size ms)"
  by (induction ms) simp_all

lemma queued_messages_simps [simp]: "queued_messages k b [] = {#}" "queued_messages k b (xs @ ys) = queued_messages k b xs + queued_messages k b ys"
  by (simp_all add: queued_messages_def)

lemma queued_messages_remove1: "queued_messages k b (remove1 u uids) \<subseteq># queued_messages k b uids"
  by (simp add: queued_messages_def image_mset_subseteq_mono mset_map)

lemma requeue_messages: "requeue_or_none it = Some it' \<Longrightarrow> item_messages it' = item_messages it"
  by (cases it) (auto simp: requeue_or_none_def split: if_splits)

text \<open>One step moves no message anywhere but on, and never under another name.\<close>

definition hands_on :: "pool \<Rightarrow> pool \<Rightarrow> nat \<Rightarrow> worker_point \<times> batch_outcome \<Rightarrow> bool" where
  "hands_on p p' i w' \<longleftrightarrow> i < length (po_workers p) \<and> po_workers p' = (po_workers p)[i := w'] \<and> connection_fits (fst w') \<and>
     sum_list (map item_messages (po_queue p')) + in_hand (fst w') \<subseteq>#
       sum_list (map item_messages (po_queue p)) + in_hand (fst (po_workers p ! i))"

lemma after_failure_hands_on:
  assumes "at_worker p i pt o1" "po_queue p' = po_queue p" "po_workers p' = po_workers p" "in_hand pt = item_messages it"
  shows "\<exists>w'. hands_on p (after_failure i step it d err o1 p') i w'"
proof -
  let ?r = "if wait_out_imap_outage d err then requeue_or_none it else None"
  have "in_hand (Settling step ?r (item_size it)) \<subseteq># item_messages it"
    using requeue_messages by (cases ?r) (auto split: if_splits)
  then show ?thesis using assms by (auto simp: hands_on_def after_failure_def Let_def)
qed

lemma pool_step_hands_on:
  assumes "pool_step dest p p'" and "\<forall>w \<in> set (po_workers p). connection_fits (fst w)"
  shows "\<exists>i w'. hands_on p p' i w'"
proof -
  have fits: "connection_fits pt" if "at_worker p i pt o1" for i pt o1
    using that assms(2) nth_mem by fastforce
  from assms(1) show ?thesis
  proof cases
    case (connect_failed i it o1 d err)
    have "\<exists>w'. hands_on p p' i w'" unfolding connect_failed(1)
      by (rule after_failure_hands_on [OF connect_failed(2)]) simp_all
    then show ?thesis by blast
  next
    case (examine_failed i cn it o1 d err)
    have "\<exists>w'. hands_on p p' i w'" unfolding examine_failed(1)
      by (rule after_failure_hands_on [OF examine_failed(2)]) simp_all
    then show ?thesis by blast
  next
    case (fetch_failed i cn it o1 env ctx' err d)
    have "\<exists>w'. hands_on p p' i w'" unfolding fetch_failed(1)
      by (rule after_failure_hands_on [OF fetch_failed(2)]) simp_all
    then show ?thesis by blast
  next
    case (delivered_one i cn it todo acc o1 uid denv ctx' bucket' one)
    then have "hands_on p p' i (Delivering cn it (remove1 uid todo) (outcome_merge acc one), o1)"
      using fits [OF delivered_one(2)] queued_messages_remove1 by (simp add: hands_on_def)
    then show ?thesis by blast
  next
    case (settled i step it n o1 q' o2)
    then have "hands_on p p' i (Popping None, o2)"
      by (cases it) (auto simp: hands_on_def record_dropped_or_requeued_def)
    then show ?thesis by blast
  next
    case (drained i c o1)
    then have "hands_on p p' i (Finished, o1)"
      using fits [OF drained(2)] by (simp add: hands_on_def ac_simps)
    then show ?thesis by blast
  next
    case (keep i cn o1 it q)
    then have "hands_on p p' i (Ready cn it, o1)"
      using fits [OF keep(2)] by (simp add: hands_on_def ac_simps)
    then show ?thesis by blast
  next
    case (switch i c o1 it q)
    then have "hands_on p p' i (Acquiring it, o1)"
      using fits [OF switch(2)] by (simp add: hands_on_def ac_simps)
    then show ?thesis by blast
  next
    case (permit i it o1)
    then have "hands_on p p' i (Connecting it, o1)"
      using fits [OF permit(2)] by (simp add: hands_on_def ac_simps)
    then show ?thesis by blast
  next
    case (connected i it o1)
    then have "hands_on p p' i (Ready \<lparr>cn_identity = fst it, cn_mailbox = []\<rparr> it, o1)"
      using fits [OF connected(2)] by (simp add: hands_on_def ac_simps)
    then show ?thesis by blast
  next
    case (same_mailbox i cn it o1)
    then have "hands_on p p' i (Fetching cn it, o1)"
      using fits [OF same_mailbox(2)] by (simp add: hands_on_def ac_simps)
    then show ?thesis by blast
  next
    case (examined i cn it o1)
    then have "hands_on p p' i (Fetching (cn\<lparr>cn_mailbox := b_mailbox (fst (snd it))\<rparr>) it, o1)"
      using fits [OF examined(2)] by (simp add: hands_on_def ac_simps)
    then show ?thesis by blast
  next
    case (fetched i cn it o1 env ctx')
    then have "hands_on p p' i (Delivering cn it (b_uids (fst (snd it))) no_outcome, o1)"
      using fits [OF fetched(2)] by (simp add: hands_on_def ac_simps)
    then show ?thesis by blast
  next
    case (batch_done i cn it acc o1)
    then have "hands_on p p' i (Popping (Some cn), outcome_merge o1 acc)"
      using fits [OF batch_done(2)] by (simp add: hands_on_def ac_simps)
    then show ?thesis by blast
  qed
qed

lemma hands_on_keeps:
  assumes "hands_on p p' i w'"
  shows "waiting p' \<subseteq># waiting p"
proof -
  have "sum_list (map (in_hand \<circ> fst) (po_workers p')) + in_hand (fst (po_workers p ! i)) =
      sum_list (map (in_hand \<circ> fst) (po_workers p)) + in_hand (fst w')"
    using assms sum_list_set [of i "po_workers p" "in_hand \<circ> fst" w'] by (simp add: hands_on_def)
  moreover have "sum_list (map item_messages (po_queue p')) + in_hand (fst w') \<subseteq>#
      sum_list (map item_messages (po_queue p)) + in_hand (fst (po_workers p ! i))" using assms by (simp add: hands_on_def)
  moreover have "qa + ha \<subseteq># qb + hb" if "ha + w = hb + v" "qa + v \<subseteq># qb + w"
    for qa qb ha hb v w :: "pending_message multiset"
  proof -
    have "(qa + v) + (ha + w) \<subseteq># (qb + w) + (hb + v)" using that(2) unfolding that(1) by simp
    then have "(qa + ha) + (v + w) \<subseteq># (qb + hb) + (v + w)" by (simp only: ac_simps)
    then show ?thesis by (simp only: subset_mset.add_le_cancel_right)
  qed
  ultimately show ?thesis unfolding waiting_def by blast
qed

lemma pool_run_keeps:
  "pool_run dest n p q \<Longrightarrow> \<forall>w \<in> set (po_workers p). connection_fits (fst w) \<Longrightarrow>
     waiting q \<subseteq># waiting p \<and> (\<forall>w \<in> set (po_workers q). connection_fits (fst w))"
proof (induction rule: pool_run.induct)
  case (run_step n p q r)
  then obtain i w' where h: "hands_on q r i w'" using pool_step_hands_on by blast
  then have "\<forall>w \<in> set (po_workers r). connection_fits (fst w)"
    using run_step.IH [OF run_step.prems] set_update_subset_insert [of "po_workers q" i w'] by (auto simp: hands_on_def)
  then show ?case using hands_on_keeps [OF h] run_step.IH [OF run_step.prems] subset_mset.order_trans by blast
qed simp

text \<open>The queue at the start holds exactly the pending messages.\<close>

lemma interleave_messages:
  "sum_list (map item_messages (interleave bss)) =
     (\<Sum>(k, bs) \<leftarrow> enumerate 0 bss. \<Sum>b \<leftarrow> bs. queued_messages k b (b_uids b))"
proof (induction bss rule: interleave.induct)
  case (1 bss)
  define firsts where "firsts n bss = concat (map (\<lambda>(index, bs). case bs of [] \<Rightarrow> [] | b # _ \<Rightarrow> [(index, b, BATCH_RETRIES)])
      (enumerate n bss))" for n and bss :: "batch list list"
  have split: "sum_list (map item_messages (firsts n bss)) +
      (\<Sum>(k, bs) \<leftarrow> enumerate n (map tl bss). \<Sum>b \<leftarrow> bs. queued_messages k b (b_uids b)) =
      (\<Sum>(k, bs) \<leftarrow> enumerate n bss. \<Sum>b \<leftarrow> bs. queued_messages k b (b_uids b))" for n bss
  proof (induction bss arbitrary: n)
    case (Cons bs bss)
    show ?case using Cons.IH [of "Suc n"] by (cases bs) (simp_all add: firsts_def ac_simps)
  qed (simp add: firsts_def)
  show ?case
  proof (cases "\<forall>bs \<in> set bss. bs = []")
    case True
    have "(\<Sum>(k, bs) \<leftarrow> enumerate n bss. \<Sum>b \<leftarrow> bs. queued_messages k b (b_uids b)) = {#}" for n
      using True by (induction bss arbitrary: n) auto
    then show ?thesis using True by (subst interleave.simps) simp
  next
    case False
    then have "interleave bss = firsts 0 bss @ interleave (map tl bss)"
      by (subst interleave.simps) (simp only: firsts_def Let_def if_False)
    then show ?thesis using "1.IH" [OF refl False] split [of 0 bss] by simp
  qed
qed

lemma batches_messages:
  "(\<Sum>b \<leftarrow> batches_from_pending ps n. queued_messages k b (b_uids b)) =
     mset (concat (map (\<lambda>m. map (\<lambda>u. (k, pm_mailbox m, pm_relpath m, pm_uidvalidity m, u)) (pm_uids m)) ps))"
proof -
  have chunk: "(\<Sum>c \<leftarrow> cs. mset (map f c)) = mset (map f (concat cs))" for f :: "nat \<Rightarrow> pending_message" and cs
    by (induction cs) simp_all
  have "concat (split_into_batches us n) = us" for us
    using chunks_props [where n = n and xs = us] by (simp add: split_into_batches_def)
  then show ?thesis
    by (induction ps) (simp_all add: batches_from_pending_def comp_def queued_messages_def chunk del: mset_map)
qed

lemma import_start_waiting:
  "waiting (import_start bs mc contexts pending bucket) = all_messages pending"
proof -
  have "(\<Sum>(k, bs') \<leftarrow> enumerate n (map (\<lambda>ps. batches_from_pending ps bs) pending). \<Sum>b \<leftarrow> bs'. queued_messages k b (b_uids b)) =
      mset (concat (map (\<lambda>(k, ps). concat (map (\<lambda>m.
        map (\<lambda>u. (k, pm_mailbox m, pm_relpath m, pm_uidvalidity m, u)) (pm_uids m)) ps)) (enumerate n pending)))" for n
    by (induction pending arbitrary: n) (simp_all add: batches_messages del: mset_map)
  moreover have "sum_list (replicate n {#}) = {#}" for n by (induction n) simp_all
  ultimately show ?thesis
    by (simp add: waiting_def import_start_def Let_def interleave_messages all_messages_def del: mset_map)
qed

lemma waiting_total:
  assumes "pool_inv cap msgs p"
  shows "size (waiting p) + workers_sum (settled_here \<circ> fst) p + counted (job_summary p) = msgs"
proof -
  have held: "held pt = size (in_hand pt) + settled_here pt" if "worker_ok (pt, o1)" for pt o1
    using that by (cases pt rule: in_hand.cases) (auto simp: counted_def)
  have "workers_sum (\<lambda>w. held (fst w) + counted (snd w)) p =
      workers_sum (\<lambda>w. size (in_hand (fst w)) + settled_here (fst w) + counted (snd w)) p"
    unfolding workers_sum_def using assms held by (intro arg_cong [of _ _ sum_list] map_cong) (auto simp: pool_inv_def)
  also have "\<dots> = workers_sum (size \<circ> in_hand \<circ> fst) p + workers_sum (settled_here \<circ> fst) p + workers_sum (counted \<circ> snd) p"
    by (simp add: workers_sum_def sum_list_addf comp_def)
  finally show ?thesis
    using assms job_summary_sums(1) [of p]
    by (simp add: pool_inv_def accounted_def queue_size_def waiting_def workers_sum_def size_sum_list comp_def)
qed

text \<open>C12. No message is ever lost track of. At every moment of an import, under every interleaving of the workers and every
  failure of login, mailbox, fetch, push, checkpoint or gate, the messages that are queued or in a worker's hand are
  pending messages, each under its own identity, mailbox, \<open>UIDVALIDITY\<close> and UID and in one place only; the others
  are as many as are counted as delivered or as failed, by a worker or by the batch it is busy with. A worker that
  fetches or delivers is connected as the identity of its batch with the batch's mailbox open. The failure counts by
  cause add up to the failures, and the open connections and free permits of an identity are together its cap.\<close>

theorem import_accounts_for_every_message:
  assumes "pool_run dest n (import_start bs mc contexts pending bucket) p"
  shows "waiting p \<subseteq># all_messages pending \<and>
    size (all_messages pending - waiting p) =
      bo_delivered (job_summary p) + bo_failed (job_summary p) + workers_sum (settled_here \<circ> fst) p \<and>
    (\<forall>w \<in> set (po_workers p). connection_fits (fst w)) \<and>
    bo_failed (job_summary p) = breakdown_sum (bo_breakdown (job_summary p)) \<and>
    po_permits p k + workers_sum (holds k \<circ> fst) p =
      (if k < length contexts then identity_cap (snd (contexts ! k)) mc else 1)"
proof -
  let ?s = "import_start bs mc contexts pending bucket"
  have inv: "pool_inv (po_permits ?s) (pending_total pending) p"
    using pool_inv_run [OF assms import_start_inv] by simp
  have "\<forall>w \<in> set (po_workers ?s). connection_fits (fst w)" by (simp add: import_start_def Let_def)
  from pool_run_keeps [OF assms this] have keeps: "waiting p \<subseteq># all_messages pending"
    "\<forall>w \<in> set (po_workers p). connection_fits (fst w)" by (simp_all add: import_start_waiting)
  have total: "size (waiting p) + workers_sum (settled_here \<circ> fst) p + counted (job_summary p) = pending_total pending"
    using waiting_total [OF inv] .
  have start: "workers_sum f ?s = 0" if "f (Popping None, no_outcome) = 0" for f
    using that by (simp add: workers_sum_def import_start_def Let_def sum_list_replicate)
  have "size (all_messages pending) = pending_total pending"
    using waiting_total [OF import_start_inv [of bs mc contexts pending bucket]] import_start_waiting [of bs mc contexts pending bucket]
      start [of "settled_here \<circ> fst"] start [of "counted \<circ> snd"] job_summary_sums(1) [of ?s] by simp
  then have "size (all_messages pending - waiting p) = counted (job_summary p) + workers_sum (settled_here \<circ> fst) p"
    using total keeps(1) by (simp add: size_Diff_submset)
  moreover have "\<forall>w \<in> set (po_workers p). balanced (snd w)"
    using inv worker_ok_balanced by (metis pool_inv_def prod.collapse)
  then have "balanced (job_summary p)" by (rule job_summary_sums(2))
  moreover have "po_permits ?s k = (if k < length contexts then identity_cap (snd (contexts ! k)) mc else 1)"
    by (simp add: import_start_def Let_def)
  ultimately show ?thesis
    using inv keeps by (simp add: pool_inv_def counted_def balanced_def)
qed

text \<open>C13. An import ends, with every message delivered or counted as failed. No run has more steps than
  the weight of its start (attempts times batch sizes, and a few steps per worker), so no worker loops
  forever requeueing; until all workers are done some worker can move, so none waits forever for a
  connection permit; and once none can move every worker is done, the queue is empty, and the summary's
  deliveries and failures are all the pending messages. Then the command exits with zero exactly when every
  pending message was delivered and every ledger was pushed at the end.\<close>

theorem import_ends_with_all_counted:
  assumes "pool_run dest n (import_start bs mc contexts pending bucket) p"
  shows "n \<le> pool_weight (import_start bs mc contexts pending bucket) \<and>
    ((\<exists>q. pool_step dest p q) \<or>
     ((\<forall>w \<in> set (po_workers p). fst w = Finished) \<and> po_queue p = [] \<and>
      bo_delivered (job_summary p) + bo_failed (job_summary p) = pending_total pending \<and>
      (import_exit_code (Inr (import_end p periodic pushes)) = 0 \<longleftrightarrow>
        bo_delivered (job_summary p) = pending_total pending \<and> (\<forall>err. Some (Inl err) \<notin> set pushes))))"
proof -
  let ?s = "import_start bs mc contexts pending bucket"
  have inv: "pool_inv (po_permits ?s) (pending_total pending) p" "pool_weight p + n \<le> pool_weight ?s"
    using pool_inv_run [OF assms import_start_inv] by simp_all
  show ?thesis
  proof (cases "\<exists>w \<in> set (po_workers p). fst w \<noteq> Finished")
    case True
    then show ?thesis using pool_progress [OF inv(1) import_start_caps] inv(2) by auto
  next
    case False
    then have q: "po_queue p = []" using inv(1) by (auto simp: pool_inv_def)
    have "workers_sum (\<lambda>w. held (fst w) + counted (snd w)) p = workers_sum (counted \<circ> snd) p"
      unfolding workers_sum_def using False by (intro arg_cong [of _ _ sum_list] map_cong) auto
    then have "counted (job_summary p) = pending_total pending"
      using inv(1) q job_summary_sums(1) [of p] by (simp add: pool_inv_def accounted_def queue_size_def)
    then show ?thesis using False q inv(2) flush_ledgers_zero [of pushes]
      by (auto simp: counted_def import_exit_code_def import_end_def FAILURE_EXIT_CODE_def)
  qed
qed

definition one_pending :: "pending_mailbox list list" where
  "one_pending = [[\<lparr>pm_mailbox = ''Archive'', pm_relpath = [''archive''], pm_uidvalidity = 7, pm_uids = [20]\<rparr>]]"

definition one_import :: pool where
  "one_import = import_start 5 2 [(archive_context\<lparr>ic_scratch := []\<rparr>, None)] one_pending Map.empty"

lemma one_import_run: "\<exists>p. pool_run ''b/'' 1 one_import p \<and> queue_size p = 0"
proof -
  have s: "one_import = \<lparr>po_queue = [(0, archive_batch, 3)], po_workers = [(Popping None, no_outcome)],
      po_permits = po_permits one_import, po_contexts = po_contexts one_import, po_bucket = Map.empty\<rparr>"
    by (simp add: one_import_def import_start_def one_pending_def batches_from_pending_def split_into_batches_def
        chunks.simps interleave.simps archive_batch_def BATCH_RETRIES_def worker_count_def Let_def)
  have "po_workers one_import = [(Popping None, no_outcome)]" by (subst s) simp
  then have "at_worker one_import 0 (Popping None) no_outcome" by simp
  moreover have "po_queue one_import = (0, archive_batch, 3) # []" by (subst s) simp
  ultimately have "pool_step ''b/'' one_import
      (goto 0 (Acquiring (0, archive_batch, 3)) no_outcome (free_permit None (one_import\<lparr>po_queue := []\<rparr>)))"
    by (rule pool_step.switch) simp
  then show ?thesis using pool_run.intros by (fastforce simp: queue_size_def)
qed

theorem import_accounts_for_every_message_witness:
  "\<exists>p. pool_run ''b/'' 1 one_import p \<and> waiting p \<subseteq># {#(0, ''Archive'', [''archive''], 7, 20)#}"
proof -
  obtain p where p: "pool_run ''b/'' 1 one_import p" using one_import_run by blast
  have "all_messages one_pending = {#(0, ''Archive'', [''archive''], 7, 20)#}"
    by (simp add: all_messages_def one_pending_def)
  with import_accounts_for_every_message [OF p [unfolded one_import_def]] p show ?thesis by auto
qed

theorem import_ends_with_all_counted_witness: "\<exists>p. pool_run ''b/'' 1 one_import p \<and> 1 \<le> pool_weight one_import"
proof -
  obtain p where p: "pool_run ''b/'' 1 one_import p" using one_import_run by blast
  from import_ends_with_all_counted [OF p [unfolded one_import_def]] p
  show ?thesis by (auto simp: one_import_def)
qed

end
