(* ===== verification/EmailScan.thy ===== *)
theory EmailScan
  imports EmailImport
begin

text \<open>
  \<open>email scan\<close>: counting attachments from \<open>BODYSTRUCTURE\<close> trees with bisection around messages the
  parser cannot read (\<open>email_scan/bodystructure.rs\<close>), the status rows and their file
  (\<open>email_scan/status.rs\<close>), and the scan of one identity (\<open>email_scan/mod.rs\<close>). The ledger and the
  mailbox listing are those of the import; IMAP and rclone are environments.
\<close>

section \<open>Attachments\<close>

record body_common =
  bc_disposition :: "string option"
  bc_params :: "(string \<times> string) list option"

datatype body_structure =
    Multipart "body_structure list"
  | Basic body_common
  | TextPart body_common
  | MessagePart body_common

definition counts_as_attachment :: "body_common \<Rightarrow> bool" where
  "counts_as_attachment common \<longleftrightarrow>
     (case bc_disposition common of Some d \<Rightarrow> eq_ignore_case d ''attachment'' | None \<Rightarrow> False) \<or>
     (case bc_params common of
        Some params \<Rightarrow> list_ex (\<lambda>(key, _). eq_ignore_case key ''name'') params | None \<Rightarrow> False)"

fun count_attachments :: "body_structure \<Rightarrow> nat" where
  "count_attachments (Multipart bodies) = sum_list (map count_attachments bodies)"
| "count_attachments (Basic common) = of_bool (counts_as_attachment common)"
| "count_attachments (TextPart common) = of_bool (counts_as_attachment common)"
| "count_attachments (MessagePart common) = of_bool (counts_as_attachment common)"

definition ATTACHMENT_COUNT_CAP :: nat where "ATTACHMENT_COUNT_CAP = 5000"
definition FETCH_BATCH :: nat where "FETCH_BATCH = 50"

definition within_cap :: "nat \<Rightarrow> bool" where
  "within_cap total_new \<longleftrightarrow> total_new \<le> ATTACHMENT_COUNT_CAP"

record attachment_count =
  ac_attachments :: nat
  ac_unparsed :: nat

text \<open>One request: the responses up to an error or the end; a response may lack its structure.\<close>

fun add_structures :: "(string + body_structure option) list \<Rightarrow> nat \<Rightarrow> string + nat" where
  "add_structures [] n = Inr n"
| "add_structures (Inl err # rs) n = Inl err"
| "add_structures (Inr s # rs) n =
     add_structures rs (n + (case s of Some b \<Rightarrow> count_attachments b | None \<Rightarrow> 0))"

definition fetch_structures :: "string + (string + body_structure option) list \<Rightarrow> string + nat" where
  "fetch_structures answer = (case answer of Inl err \<Rightarrow> Inl err | Inr rs \<Rightarrow> add_structures rs 0)"

datatype bisect_outcome = Fetched nat | Poisoned | RetryHalves "nat list" "nat list"

definition bisect_step :: "nat list \<Rightarrow> string + nat \<Rightarrow> bisect_outcome" where
  "bisect_step batch result = (case result of
     Inr attachments \<Rightarrow> Fetched attachments
   | Inl _ \<Rightarrow> if length batch \<le> 1 then Poisoned
       else let mid = length batch div 2 in RetryHalves (take mid batch) (drop mid batch))"

text \<open>The work list is a stack whose top is the head; \<open>ask\<close> answers a batch.\<close>

lemma halves_smaller:
  "\<not> n \<le> Suc 0 \<Longrightarrow> max (Suc 0) (2 * (n div 2) - Suc 0) + 2 * (n - n div 2) - Suc 0 < 2 * n - Suc 0"
  by (cases "n div 2") (auto simp: max_def)

function count_loop :: "(nat list \<Rightarrow> string + nat) \<Rightarrow> nat list list \<Rightarrow> attachment_count \<Rightarrow> attachment_count" where
  "count_loop ask [] count = count"
| "count_loop ask (batch # work) count = (case bisect_step batch (ask batch) of
     Fetched attachments \<Rightarrow> count_loop ask work (count\<lparr>ac_attachments := ac_attachments count + attachments\<rparr>)
   | Poisoned \<Rightarrow> count_loop ask work (count\<lparr>ac_unparsed := ac_unparsed count + length batch\<rparr>)
   | RetryHalves left right \<Rightarrow> count_loop ask (left # right # work) count)"
  by pat_completeness auto
termination
  by (relation "measure (\<lambda>(ask, work, count). sum_list (map (\<lambda>b. max 1 (2 * length b - 1)) work))")
    (auto simp: bisect_step_def Let_def halves_smaller split: sum.splits if_splits)

definition count_new_attachments :: "(nat list \<Rightarrow> string + nat) \<Rightarrow> nat list \<Rightarrow> attachment_count" where
  "count_new_attachments ask uids =
     count_loop ask (chunks FETCH_BATCH uids) \<lparr>ac_attachments = 0, ac_unparsed = 0\<rparr>"

section \<open>Status rows\<close>

definition STATUS_FILE :: string where "STATUS_FILE = ''scan-status.tsv''"
definition TOTAL_ROW :: string where "TOTAL_ROW = ''*''"

definition STATUS_HEADER :: string where
  "STATUS_HEADER = join [TAB] [''# mailbox'', ''uidvalidity'', ''server_messages'', ''ingested'', ''new_messages'',
     ''new_attachments'', ''removed_on_server'', ''last_scanned_at'', ''last_in_sync_at'']"

record mailbox_status =
  mx_mailbox :: string
  mx_uidvalidity :: "nat option"
  mx_server_messages :: nat
  mx_ingested :: nat
  mx_new_messages :: nat
  mx_new_attachments :: "nat option"
  mx_removed_on_server :: nat
  mx_last_scanned_at :: string
  mx_last_in_sync_at :: "string option"

definition status_diff :: "string \<Rightarrow> nat \<Rightarrow> nat set \<Rightarrow> nat set \<Rightarrow> string \<Rightarrow> mailbox_status \<times> nat list" where
  "status_diff mailbox uidvalidity server ingested scanned_at =
     (let new_uids = sorted_list_of_set (server - ingested) in
      (\<lparr>mx_mailbox = mailbox, mx_uidvalidity = Some uidvalidity, mx_server_messages = card server,
        mx_ingested = card ingested, mx_new_messages = length new_uids, mx_new_attachments = Some 0,
        mx_removed_on_server = card (ingested - server), mx_last_scanned_at = scanned_at,
        mx_last_in_sync_at = None\<rparr>, new_uids))"

text \<open>Summing options: \<open>None\<close> as soon as one is.\<close>

definition sum_options :: "nat option list \<Rightarrow> nat option" where
  "sum_options os = (if list_ex (\<lambda>o1. o1 = None) os then None else Some (sum_list (map the os)))"

definition status_total :: "mailbox_status list \<Rightarrow> string \<Rightarrow> mailbox_status" where
  "status_total rows scanned_at =
     \<lparr>mx_mailbox = TOTAL_ROW, mx_uidvalidity = None,
      mx_server_messages = sum_list (map mx_server_messages rows),
      mx_ingested = sum_list (map mx_ingested rows), mx_new_messages = sum_list (map mx_new_messages rows),
      mx_new_attachments = sum_options (map mx_new_attachments rows),
      mx_removed_on_server = sum_list (map mx_removed_on_server rows),
      mx_last_scanned_at = scanned_at, mx_last_in_sync_at = None\<rparr>"

text \<open>Collecting the previous rows into a \<open>HashMap\<close>: a later row of the same mailbox wins.\<close>

definition carry_forward :: "mailbox_status list \<Rightarrow> mailbox_status list \<Rightarrow> mailbox_status list" where
  "carry_forward previous current =
     (let before = map_of (rev (map (\<lambda>row. (mx_mailbox row, mx_last_in_sync_at row)) previous)) in
      map (\<lambda>row. row\<lparr>mx_last_in_sync_at :=
        (if mx_new_messages row = 0 then Some (mx_last_scanned_at row)
         else case before (mx_mailbox row) of Some v \<Rightarrow> v | None \<Rightarrow> None)\<rparr>) current)"

definition format_status_row :: "mailbox_status \<Rightarrow> string" where
  "format_status_row row = mx_mailbox row @ [TAB] @
     (case mx_uidvalidity row of Some v \<Rightarrow> dec v | None \<Rightarrow> ''-'') @ [TAB] @
     dec (mx_server_messages row) @ [TAB] @ dec (mx_ingested row) @ [TAB] @ dec (mx_new_messages row) @ [TAB] @
     (case mx_new_attachments row of Some v \<Rightarrow> dec v | None \<Rightarrow> ''unknown'') @ [TAB] @
     dec (mx_removed_on_server row) @ [TAB] @ mx_last_scanned_at row @ [TAB] @
     (case mx_last_in_sync_at row of Some at \<Rightarrow> at | None \<Rightarrow> ''-'')"

definition status_serialize :: "mailbox_status list \<Rightarrow> string" where
  "status_serialize rows = STATUS_HEADER @ [NL] @ write_rows format_status_row rows"

definition status_row :: "string \<Rightarrow> mailbox_status option" where
  "status_row line =
     (if trim line = [] \<or> starts_with ''#'' line then None
      else case split_on TAB line of
        [mailbox, uidvalidity, server, ingested, new, attachments, removed, scanned, in_sync] \<Rightarrow>
          (case (parse_usize server, parse_usize ingested, parse_usize new, parse_usize removed) of
             (Some s, Some i, Some n, Some r) \<Rightarrow>
               Some \<lparr>mx_mailbox = mailbox, mx_uidvalidity = parse_u32 uidvalidity, mx_server_messages = s,
                 mx_ingested = i, mx_new_messages = n, mx_new_attachments = parse_usize attachments,
                 mx_removed_on_server = r, mx_last_scanned_at = scanned,
                 mx_last_in_sync_at = (if in_sync \<noteq> ''-'' then Some in_sync else None)\<rparr>
           | _ \<Rightarrow> None)
      | _ \<Rightarrow> None)"

definition status_parse :: "string \<Rightarrow> mailbox_status list" where
  "status_parse contents = read_rows status_row contents"

section \<open>The scan of an identity\<close>

record scan_env =
  se_connect :: "string + unit"
  se_answers :: imap_answers
  se_ledger :: ledger_env
  se_now :: string
  se_reconnect :: "string + unit"
  se_examine :: "string \<Rightarrow> string + unit"
  se_ask :: "string \<Rightarrow> nat list \<Rightarrow> string + nat"
  se_status :: ledger_env

record identity_scan =
  sc_alias :: string
  sc_rows :: "mailbox_status list"
  sc_seeded :: bool
  sc_unparsed :: nat

definition scan_rows :: "ledger \<Rightarrow> string \<Rightarrow> mailbox_state list \<Rightarrow> (mailbox_status \<times> nat list) list" where
  "scan_rows l scanned_at states = map (\<lambda>s. status_diff (ms_mailbox s) (ms_uidvalidity s) (ms_server_uids s)
     (ingested_uids l (ms_mailbox s) (ms_uidvalidity s)) scanned_at) states"

text \<open>The attachment counts of the mailboxes with something new; a mailbox that cannot be reopened is
  unknown.\<close>

fun count_rows :: "scan_env \<Rightarrow> (mailbox_status \<times> nat list) list \<Rightarrow> mailbox_status list \<times> nat" where
  "count_rows env [] = ([], 0)"
| "count_rows env ((row, new_uids) # rest) =
     (let (rows, unparsed) = count_rows env rest in
      if new_uids = [] then (row # rows, unparsed)
      else case se_examine env (mx_mailbox row) of
        Inr _ \<Rightarrow> (let c = count_new_attachments (se_ask env (mx_mailbox row)) new_uids in
           (row\<lparr>mx_new_attachments := Some (ac_attachments c)\<rparr> # rows, unparsed + ac_unparsed c))
      | Inl _ \<Rightarrow> (row\<lparr>mx_new_attachments := None\<rparr> # rows, unparsed))"

definition attachment_rows :: "scan_env \<Rightarrow> (mailbox_status \<times> nat list) list \<Rightarrow> (mailbox_status list \<times> nat) result" where
  "attachment_rows env diffs =
     (let total_new = sum_list (map (length \<circ> snd) diffs) in
      if total_new > 0 \<and> \<not> within_cap total_new then
        Inr (map (\<lambda>(row, new_uids). if new_uids = [] then row else row\<lparr>mx_new_attachments := None\<rparr>) diffs, 0)
      else if total_new > 0 then
        (case se_reconnect env of Inl err \<Rightarrow> Inl (Err err) | Inr _ \<Rightarrow> Inr (count_rows env diffs))
      else Inr (map fst diffs, 0))"

definition scan_identity ::
  "scan_env \<Rightarrow> remote_target \<Rightarrow> bool \<Rightarrow> string \<Rightarrow> string \<Rightarrow> (identity_scan \<times> string) result" where
  "scan_identity env ledger_target has_destination name email =
     bindE (case se_connect env of Inl err \<Rightarrow> Inl (Err err) | Inr _ \<Rightarrow> Inr ()) (\<lambda>_.
     bindE (list_mailbox_states (se_answers env)) (\<lambda>states.
     bindE (fst (load_or_seed (se_ledger env) ledger_target has_destination name email (map seed_mailbox_of states)))
       (\<lambda>(l, seeded).
     bindE (attachment_rows env (scan_rows l (se_now env) states)) (\<lambda>(rows, unparsed).
     bindE (download_state (se_status env) STATUS_FILE) (\<lambda>previous.
       let before = (case previous of Some contents \<Rightarrow> status_parse contents | None \<Rightarrow> []);
           current = carry_forward before (rows @ [status_total rows (se_now env)])
       in bindE (le_write_local (se_status env)) (\<lambda>_.
          bindE (le_upload (se_status env)) (\<lambda>_.
            Inr (\<lparr>sc_alias = name, sc_rows = current, sc_seeded = seeded, sc_unparsed = unparsed\<rparr>,
                 status_serialize current))))))))"

section \<open>Counting\<close>

text \<open>What \<open>imap-proto\<close> does: a response with one structure it cannot parse fails the whole request, and
  otherwise every message's count is in it.\<close>

definition honest_answers :: "nat set \<Rightarrow> (nat \<Rightarrow> nat) \<Rightarrow> (nat list \<Rightarrow> string + nat) \<Rightarrow> bool" where
  "honest_answers bad attachments ask \<longleftrightarrow>
     (\<forall>batch. if set batch \<inter> bad \<noteq> {} then isl (ask batch)
              else ask batch = Inr (sum_list (map attachments batch)))"

abbreviation good_sum :: "nat set \<Rightarrow> (nat \<Rightarrow> nat) \<Rightarrow> nat list \<Rightarrow> nat" where
  "good_sum bad attachments us \<equiv> sum_list (map attachments (filter (\<lambda>u. u \<notin> bad) us))"

abbreviation bad_number :: "nat set \<Rightarrow> nat list \<Rightarrow> nat" where
  "bad_number bad us \<equiv> length (filter (\<lambda>u. u \<in> bad) us)"

lemma count_loop_exact:
  assumes "honest_answers bad attachments ask"
  shows "count_loop ask work count =
    \<lparr>ac_attachments = ac_attachments count + good_sum bad attachments (concat work),
     ac_unparsed = ac_unparsed count + bad_number bad (concat work)\<rparr>"
proof -
  have "honest_answers bad attachments ask \<Longrightarrow> count_loop ask work count =
    \<lparr>ac_attachments = ac_attachments count + good_sum bad attachments (concat work),
     ac_unparsed = ac_unparsed count + bad_number bad (concat work)\<rparr>"
  proof (induction ask work count rule: count_loop.induct)
    case (2 ask batch work count)
    show ?case
    proof (cases "set batch \<inter> bad = {}")
      case True
      then have a: "ask batch = Inr (sum_list (map attachments batch))"
        using "2.prems" unfolding honest_answers_def by (metis (full_types))
      have "filter (\<lambda>u. u \<notin> bad) batch = batch" "filter (\<lambda>u. u \<in> bad) batch = []"
        using True by (auto simp: filter_id_conv filter_empty_conv)
      then show ?thesis using "2.IH"(1) "2.prems" by (simp add: a bisect_step_def)
    next
      case False
      then obtain e where e: "ask batch = Inl e"
        using "2.prems" unfolding honest_answers_def by (metis isl_def)
      show ?thesis
      proof (cases "length batch \<le> 1")
        case True
        then obtain u where "batch = [u]" "u \<in> bad" using False by (cases batch) auto
        then show ?thesis using "2.IH"(2) "2.prems" e by (simp add: bisect_step_def)
      next
        case long: False
        let ?m = "length batch div 2"
        have "count_loop ask (batch # work) count = count_loop ask (take ?m batch # drop ?m batch # work) count"
          using long e by (simp add: bisect_step_def Let_def)
        also have "\<dots> = \<lparr>ac_attachments = ac_attachments count + good_sum bad attachments (concat (take ?m batch # drop ?m batch # work)),
            ac_unparsed = ac_unparsed count + bad_number bad (concat (take ?m batch # drop ?m batch # work))\<rparr>"
          using long e by (intro "2.IH"(3) "2.prems") (simp add: bisect_step_def Let_def)
        also have "concat (take ?m batch # drop ?m batch # work) = concat (batch # work)" by simp
        finally show ?thesis .
      qed
    qed
  qed simp
  then show ?thesis using assms .
qed

section \<open>Rows on file\<close>

definition status_ok :: "mailbox_status \<Rightarrow> bool" where
  "status_ok row \<longleftrightarrow> TAB \<notin> set (mx_mailbox row) \<and> NL \<notin> set (mx_mailbox row) \<and> \<not> starts_with ''#'' (mx_mailbox row) \<and>
     (case mx_uidvalidity row of None \<Rightarrow> True | Some v \<Rightarrow> v \<le> u32_max) \<and>
     mx_server_messages row \<le> usize_max \<and> mx_ingested row \<le> usize_max \<and> mx_new_messages row \<le> usize_max \<and>
     mx_removed_on_server row \<le> usize_max \<and>
     (case mx_new_attachments row of None \<Rightarrow> True | Some v \<Rightarrow> v \<le> usize_max) \<and>
     TAB \<notin> set (mx_last_scanned_at row) \<and> NL \<notin> set (mx_last_scanned_at row) \<and>
     (case mx_last_in_sync_at row of None \<Rightarrow> True | Some at \<Rightarrow> at \<noteq> ''-'' \<and> TAB \<notin> set at \<and> clean_line at)"

definition row_fields :: "mailbox_status \<Rightarrow> string list" where
  "row_fields row = [case mx_uidvalidity row of Some v \<Rightarrow> dec v | None \<Rightarrow> ''-'',
     dec (mx_server_messages row), dec (mx_ingested row), dec (mx_new_messages row),
     case mx_new_attachments row of Some v \<Rightarrow> dec v | None \<Rightarrow> ''unknown'',
     dec (mx_removed_on_server row), mx_last_scanned_at row,
     case mx_last_in_sync_at row of Some at \<Rightarrow> at | None \<Rightarrow> ''-'']"

lemma format_status_row_join: "format_status_row row = join [TAB] (mx_mailbox row # row_fields row)"
  by (simp add: format_status_row_def row_fields_def)

lemma split_on_join:
  "\<forall>x \<in> set xs. c \<notin> set x \<Longrightarrow> xs \<noteq> [] \<Longrightarrow> split_on c (join [c] xs) = xs"
proof (induction xs)
  case (Cons x xs)
  then show ?case by (cases xs) auto
qed simp

lemma word_unread [simp]: "parse_uint b ''-'' = None" "parse_uint b ''unknown'' = None"
  by (simp_all add: parse_uint_def is_digit_def)

lemma format_status_clean:
  assumes "status_ok row"
  shows "NL \<notin> set (format_status_row row)" "\<not> ends_with [CR] (format_status_row row)"
    "\<forall>x \<in> set (mx_mailbox row # row_fields row). TAB \<notin> set x"
proof -
  show "\<forall>x \<in> set (mx_mailbox row # row_fields row). TAB \<notin> set x"
    using assms by (auto simp: status_ok_def row_fields_def split: option.splits)
  show "NL \<notin> set (format_status_row row)"
    using assms by (auto simp: status_ok_def format_status_row_def clean_line_def split: option.splits)
  show "\<not> ends_with [CR] (format_status_row row)"
  proof (cases "mx_last_in_sync_at row")
    case None
    then show ?thesis by (auto simp: format_status_row_def ends_with_iff)
  next
    case (Some at)
    then have "clean_line at" using assms by (simp add: status_ok_def)
    then show ?thesis using Some
      by (cases at rule: rev_cases) (auto simp: format_status_row_def ends_with_iff clean_line_def)
  qed
qed

interpretation status_format: line_format format_status_row status_row status_ok
proof unfold_locales
  fix row
  assume ok: "status_ok row"
  then show "clean_line (format_status_row row)" using format_status_clean by (simp add: clean_line_def)
  have "split_on TAB (format_status_row row) = mx_mailbox row # row_fields row"
    using format_status_clean(3) [OF ok] by (simp add: format_status_row_join split_on_join)
  moreover have "trim (format_status_row row) \<noteq> []"
    by (rule trim_not_blank, rule bexI [of _ "hd (dec (mx_server_messages row))"])
      (use dec_digits [of "mx_server_messages row"] in \<open>auto simp: format_status_row_def list_all_iff intro!: visible_digit\<close>)
  moreover have "starts_with ''#'' (format_status_row row) \<longleftrightarrow> starts_with ''#'' (mx_mailbox row)"
    by (cases "mx_mailbox row") (auto simp: format_status_row_def starts_with_iff)
  ultimately show "status_row (format_status_row row) = Some row"
    using ok by (auto simp: status_row_def row_fields_def status_ok_def split: option.splits)
qed

lemma status_parse_serialize: "list_all status_ok rows \<Longrightarrow> status_parse (status_serialize rows) = rows"
proof -
  have "status_row STATUS_HEADER = None" by (simp add: status_row_def STATUS_HEADER_def starts_with_iff)
  moreover have "clean_line STATUS_HEADER" by (simp add: clean_line_def STATUS_HEADER_def ends_with_iff)
  ultimately show "list_all status_ok rows \<Longrightarrow> status_parse (status_serialize rows) = rows"
    using status_format.read_write by (simp add: status_parse_def status_serialize_def)
qed

section \<open>What a scan reports\<close>

definition reconciled :: "mailbox_status \<Rightarrow> bool" where
  "reconciled row \<longleftrightarrow> mx_server_messages row + mx_removed_on_server row = mx_ingested row + mx_new_messages row"

lemma status_diff_reconciled:
  "finite server \<Longrightarrow> finite ingested \<Longrightarrow> reconciled (fst (status_diff m v server ingested at))"
proof -
  assume f: "finite server" "finite ingested"
  have "card server = card (server \<inter> ingested) + card (server - ingested)"
    "card ingested = card (server \<inter> ingested) + card (ingested - server)"
    using f by (simp_all add: card_Int_Diff Int_commute [of server ingested])
      (metis card_Int_Diff Int_commute)
  then show ?thesis by (simp add: reconciled_def status_diff_def Let_def)
qed

lemma attachment_rows_same:
  assumes "attachment_rows env diffs = Inr (rows, n)"
  shows "map (\<lambda>r. r\<lparr>mx_new_attachments := x\<rparr>) rows = map (\<lambda>d. (fst d)\<lparr>mx_new_attachments := x\<rparr>) diffs"
proof -
  have "count_rows env ds = (rs, k) \<Longrightarrow>
      map (\<lambda>r. r\<lparr>mx_new_attachments := x\<rparr>) rs = map (\<lambda>d. (fst d)\<lparr>mx_new_attachments := x\<rparr>) ds" for ds rs k
    by (induction env ds arbitrary: rs k rule: count_rows.induct)
      (auto simp: Let_def split: prod.splits if_splits sum.splits)
  then show ?thesis using assms
    by (auto simp: attachment_rows_def Let_def split: if_splits sum.splits)
qed

lemma reconciled_irrelevant [simp]:
  "reconciled (r\<lparr>mx_new_attachments := x\<rparr>) = reconciled r" "reconciled (r\<lparr>mx_last_in_sync_at := y\<rparr>) = reconciled r"
  by (simp_all add: reconciled_def)

lemma reconciled_total: "list_all reconciled rows \<Longrightarrow> reconciled (status_total rows at)"
  by (induction rows) (simp_all add: reconciled_def status_total_def)

lemma carry_forward_row:
  "row \<in> set (carry_forward before rows) \<Longrightarrow> \<exists>r \<in> set rows. row = r\<lparr>mx_last_in_sync_at := mx_last_in_sync_at row\<rparr> \<and>
     (mx_new_messages row = 0 \<longrightarrow> mx_last_in_sync_at row = Some (mx_last_scanned_at row)) \<and>
     (mx_new_messages row \<noteq> 0 \<longrightarrow> mx_last_in_sync_at row \<noteq> None \<longrightarrow>
        (\<exists>p \<in> set before. mx_mailbox p = mx_mailbox row \<and> mx_last_in_sync_at p = mx_last_in_sync_at row))"
  by (auto simp: carry_forward_def Let_def split: if_splits option.splits dest!: map_of_SomeD) metis

lemma finite_ingested: "finite (ingested_uids l m v)"
  by (simp add: ingested_uids_def)

lemma attachment_rows_reconciled:
  assumes "attachment_rows env (scan_rows l at states) = Inr (rows, n)"
    and "\<forall>s \<in> set states. finite (ms_server_uids s)"
  shows "list_all reconciled rows" and "map mx_mailbox rows = map ms_mailbox states"
    and "map mx_new_messages rows = map (\<lambda>s. card (ms_server_uids s - ingested_uids l (ms_mailbox s) (ms_uidvalidity s))) states"
proof -
  have eq: "map (\<lambda>r. r\<lparr>mx_new_attachments := None\<rparr>) rows =
      map (\<lambda>d. (fst d)\<lparr>mx_new_attachments := None\<rparr>) (scan_rows l at states)"
    using attachment_rows_same [OF assms(1)] .
  have "list_all reconciled (map (\<lambda>d. (fst d)\<lparr>mx_new_attachments := None\<rparr>) (scan_rows l at states))"
    using assms(2) by (auto simp: list_all_iff scan_rows_def finite_ingested intro!: status_diff_reconciled)
  then have "list_all reconciled (map (\<lambda>r. r\<lparr>mx_new_attachments := None\<rparr>) rows)" using eq by simp
  then show "list_all reconciled rows" by (simp add: list_all_iff)
  have "map mx_mailbox (map (\<lambda>r. r\<lparr>mx_new_attachments := None\<rparr>) rows) = map ms_mailbox states"
    unfolding eq by (simp add: scan_rows_def status_diff_def Let_def comp_def)
  then show "map mx_mailbox rows = map ms_mailbox states" by (simp add: comp_def)
  have "map mx_new_messages (map (\<lambda>r. r\<lparr>mx_new_attachments := None\<rparr>) rows) =
      map (\<lambda>s. card (ms_server_uids s - ingested_uids l (ms_mailbox s) (ms_uidvalidity s))) states"
    unfolding eq by (simp add: scan_rows_def status_diff_def Let_def comp_def)
  then show "map mx_new_messages rows =
      map (\<lambda>s. card (ms_server_uids s - ingested_uids l (ms_mailbox s) (ms_uidvalidity s))) states" by (simp add: comp_def)
qed

text \<open>C14. Attachments are counted exactly. When the parser fails on certain messages, and with them on every
  request that contains one, the bisection ends with the attachments of all other messages counted once and
  the number of unreadable messages, whatever their number and place: no readable message is lost with an
  unreadable one.\<close>

theorem attachments_counted_exactly:
  assumes "honest_answers bad attachments ask"
  shows "count_new_attachments ask uids =
    \<lparr>ac_attachments = (\<Sum>u \<leftarrow> filter (\<lambda>u. u \<notin> bad) uids. attachments u),
     ac_unparsed = length (filter (\<lambda>u. u \<in> bad) uids)\<rparr>"
  using count_loop_exact [OF assms] chunks_props [where n = FETCH_BATCH and xs = uids]
  by (simp add: count_new_attachments_def)

definition poisoned_ask :: "nat list \<Rightarrow> string + nat" where
  "poisoned_ask batch = (if 7 \<in> set batch then Inl ''parse error'' else Inr (sum_list batch))"

theorem attachments_counted_exactly_witness:
  "count_new_attachments poisoned_ask [5, 7, 1, 2] = \<lparr>ac_attachments = 8, ac_unparsed = 1\<rparr>"
proof -
  have "honest_answers {7} id poisoned_ask" by (auto simp: honest_answers_def poisoned_ask_def)
  from attachments_counted_exactly [OF this, of "[5, 7, 1, 2]"] show ?thesis by simp
qed

text \<open>A published scan adds up and is read back. Each row, the total included, satisfies server messages
  plus removed messages = ingested plus new messages; there is one row for every mailbox of the server, in
  order, with the messages of the server that the ledger lacks, and the total row last with the sums; a
  row is in sync now exactly when it has nothing new, and otherwise keeps only what the previous snapshot
  said of a row of that name; and the text uploaded parses back to these rows.\<close>

lemma scan_rows_reconcile:
  assumes "scan_identity env target has_destination name email = Inr (scan, uploaded)"
    and "\<forall>m uids. ia_search (se_answers env) m = Inr uids \<longrightarrow> finite uids"
  shows "list_all reconciled (sc_rows scan) \<and>
    (\<exists>states l up. list_mailbox_states (se_answers env) = Inr states \<and>
       load_or_seed (se_ledger env) target has_destination name email (map seed_mailbox_of states) =
         (Inr (l, sc_seeded scan), up) \<and>
       map mx_mailbox (sc_rows scan) = map ms_mailbox states @ [TOTAL_ROW] \<and>
       map mx_new_messages (butlast (sc_rows scan)) =
         map (\<lambda>s. card (ms_server_uids s - ingested_uids l (ms_mailbox s) (ms_uidvalidity s))) states \<and>
       mx_new_messages (last (sc_rows scan)) = sum_list (map mx_new_messages (butlast (sc_rows scan)))) \<and>
    (\<forall>row \<in> set (sc_rows scan). mx_new_messages row = 0 \<longrightarrow> mx_last_in_sync_at row = Some (mx_last_scanned_at row)) \<and>
    (\<forall>row \<in> set (sc_rows scan). mx_new_messages row \<noteq> 0 \<and> mx_last_in_sync_at row \<noteq> None \<longrightarrow>
       (\<exists>contents. download_state (se_status env) STATUS_FILE = Inr (Some contents) \<and>
         (\<exists>p \<in> set (status_parse contents). mx_mailbox p = mx_mailbox row \<and>
            mx_last_in_sync_at p = mx_last_in_sync_at row))) \<and>
    (list_all status_ok (sc_rows scan) \<longrightarrow> status_parse uploaded = sc_rows scan)"
proof -
  obtain states l seeded up rows n prev where s: "list_mailbox_states (se_answers env) = Inr states"
    and l: "load_or_seed (se_ledger env) target has_destination name email (map seed_mailbox_of states) = (Inr (l, seeded), up)"
    and r: "attachment_rows env (scan_rows l (se_now env) states) = Inr (rows, n)"
    and prev: "download_state (se_status env) STATUS_FILE = Inr prev"
    and sc: "sc_rows scan = carry_forward (case prev of Some contents \<Rightarrow> status_parse contents | None \<Rightarrow> []) (rows @ [status_total rows (se_now env)])" "sc_seeded scan = seeded"
      "uploaded = status_serialize (sc_rows scan)"
    using assms(1)
    by (auto simp: scan_identity_def result_simps Let_def split: prod.splits) (metis prod.collapse fst_conv)
  have fin: "\<forall>s \<in> set states. finite (ms_server_uids s)"
    using s assms(2) mailbox_states_Inr by (fastforce simp: list_mailbox_states_def split: sum.splits)
  note a = attachment_rows_reconciled [OF r fin]
  let ?all = "rows @ [status_total rows (se_now env)]"
  have same: "map mx_mailbox (sc_rows scan) = map mx_mailbox ?all"
    "map mx_new_messages (sc_rows scan) = map mx_new_messages ?all"
    "length (sc_rows scan) = length ?all" "map reconciled (sc_rows scan) = map reconciled ?all"
    unfolding sc(1) carry_forward_def by (simp_all add: Let_def comp_def)
  have "list_all reconciled ?all" using a(1) reconciled_total [OF a(1)] by simp
  then have rec: "list_all reconciled (sc_rows scan)" using same(4) by (metis list.pred_map list_all_iff map_map nth_map same(3) in_set_conv_nth)
  have ne: "sc_rows scan \<noteq> []" using same(3) by auto
  have "map mx_new_messages (butlast (sc_rows scan)) = map mx_new_messages rows"
    using same(2) by (metis butlast_snoc map_butlast)
  moreover have "mx_new_messages (last (sc_rows scan)) = sum_list (map mx_new_messages rows)"
    using same(2) ne by (metis last_map last_snoc map_append list.map(2) mailbox_status.select_convs(5) status_total_def append_is_Nil_conv list.distinct(1) map_is_Nil_conv)
  moreover have "map mx_mailbox (sc_rows scan) = map ms_mailbox states @ [TOTAL_ROW]"
    using same(1) a(2) by (simp add: status_total_def)
  moreover have "\<forall>row \<in> set (sc_rows scan). mx_new_messages row = 0 \<longrightarrow> mx_last_in_sync_at row = Some (mx_last_scanned_at row)"
    using carry_forward_row unfolding sc(1) by fastforce
  moreover have "\<exists>contents. prev = Some contents \<and> (\<exists>p \<in> set (status_parse contents). mx_mailbox p = mx_mailbox row \<and>
      mx_last_in_sync_at p = mx_last_in_sync_at row)"
    if "row \<in> set (sc_rows scan)" "mx_new_messages row \<noteq> 0" "mx_last_in_sync_at row \<noteq> None" for row
    using carry_forward_row [OF that(1) [unfolded sc(1)]] that(2,3) by (cases prev) auto
  moreover have "list_all status_ok (sc_rows scan) \<longrightarrow> status_parse uploaded = sc_rows scan"
    using status_parse_serialize sc(3) by simp
  ultimately show ?thesis using rec s l sc(2) a(3) prev by auto
qed

definition quiet_scan :: scan_env where
  "quiet_scan = \<lparr>se_connect = Inr (), se_answers = inbox_answers,
     se_ledger = fresh_env\<lparr>le_destination_listing := Inr []\<rparr>, se_now = ''2026'', se_reconnect = Inr (),
     se_examine = (\<lambda>_. Inr ()), se_ask = (\<lambda>_. poisoned_ask), se_status = fresh_env\<rparr>"

lemma quiet_scan_runs:
  "\<exists>scan up. scan_identity quiet_scan (bucket_root ''l'') True ''me'' ''me@x.org'' = Inr (scan, up)"
proof -
  have a: "\<exists>rows n. attachment_rows quiet_scan ds = Inr (rows, n)" for ds
    by (auto simp: attachment_rows_def quiet_scan_def Let_def)
  have "\<exists>l up. load_or_seed (se_ledger quiet_scan) (bucket_root ''l'') True ''me'' ''me@x.org'' ms = (Inr (l, True), up)" for ms
    by (simp add: load_or_seed_def download_state_def quiet_scan_def fresh_env_def split: prod.split)
  then obtain l up where l: "load_or_seed (se_ledger quiet_scan) (bucket_root ''l'') True ''me'' ''me@x.org''
      (map seed_mailbox_of [\<lparr>ms_mailbox = ''INBOX'', ms_relpath = [''inbox''], ms_uidvalidity = 7,
        ms_server_uids = {4, 9, 2, 11}\<rparr>]) = (Inr (l, True), up)" by blast
  obtain rows n where r: "attachment_rows quiet_scan (scan_rows l (se_now quiet_scan) [\<lparr>ms_mailbox = ''INBOX'',
      ms_relpath = [''inbox''], ms_uidvalidity = 7, ms_server_uids = {4, 9, 2, 11}\<rparr>]) = Inr (rows, n)"
    using a by blast
  have "se_connect quiet_scan = Inr ()" "se_answers quiet_scan = inbox_answers"
    "download_state (se_status quiet_scan) STATUS_FILE = Inr None"
    "le_write_local (se_status quiet_scan) = Inr ()" "le_upload (se_status quiet_scan) = Inr ()"
    by (simp_all add: quiet_scan_def fresh_env_def download_state_def)
  then show ?thesis using l r by (simp add: scan_identity_def inbox_listed Let_def)
qed

lemma scan_rows_reconcile_witness:
  "\<exists>scan up. scan_identity quiet_scan (bucket_root ''l'') True ''me'' ''me@x.org'' = Inr (scan, up) \<and>
     list_all reconciled (sc_rows scan) \<and> map mx_mailbox (sc_rows scan) = [''INBOX'', ''*'']"
proof -
  obtain scan up where s: "scan_identity quiet_scan (bucket_root ''l'') True ''me'' ''me@x.org'' = Inr (scan, up)"
    using quiet_scan_runs by blast
  have fin: "\<forall>m uids. ia_search (se_answers quiet_scan) m = Inr uids \<longrightarrow> finite uids"
    by (auto simp: quiet_scan_def inbox_answers_def)
  have "se_answers quiet_scan = inbox_answers" by (simp add: quiet_scan_def)
  with scan_rows_reconcile [OF s fin] s show ?thesis by (auto simp: inbox_listed TOTAL_ROW_def)
qed

end
