(* ===== verification/Archive.thy ===== *)
theory Archive
  imports Scratch "HOL-Library.Sublist"
begin

text \<open>
  \<open>commands/job/archive.rs\<close>: which entries of a zip are noise, streaming one entry to disk under the
  extraction budget, and the expansion of a whole archive. What the \<open>zip\<close> crate reads out of the bytes,
  and how the file system's calls end, are parameters; the scratch directory is \<open>Scratch\<close>'s.
\<close>

section \<open>Noise\<close>

definition is_apple_metadata_entry :: "string \<Rightarrow> bool" where
  "is_apple_metadata_entry entry_name \<longleftrightarrow>
     starts_with ''__MACOSX/'' entry_name \<or> is_apple_double_basename entry_name"

definition is_skippable_zip_entry :: "string \<Rightarrow> bool" where
  "is_skippable_zip_entry entry_name \<longleftrightarrow>
     is_apple_metadata_entry entry_name \<or> last_segment entry_name = ''.DS_Store'' \<or>
     list_ex (\<lambda>segment. segment = ''.git'' \<or> segment = ''node_modules'') (split_on (CHR ''/'') entry_name)"

section \<open>Streaming an entry\<close>

definition MAX_ZIP_DEPTH :: nat where "MAX_ZIP_DEPTH = 10"
definition EXTRACTION_RATIO_LIMIT :: nat where "EXTRACTION_RATIO_LIMIT = 100"
definition COPY_CHUNK_BYTES :: nat where "COPY_CHUNK_BYTES = 64 * 1024"

text \<open>One turn of the copy loop: the read fails, or it gives a piece (empty at the end of the entry) and
  the write of that piece ends as given. A list of turns that stops has reached the end.\<close>

datatype turn = ReadFails string | Piece string "string + unit"

text \<open>The bytes in the new file, the archive's running total, and the outcome.\<close>

fun copy_capped :: "nat \<Rightarrow> turn list \<Rightarrow> string \<Rightarrow> nat \<Rightarrow> string \<times> nat \<times> (string + nat)" where
  "copy_capped budget [] written running_total = (written, running_total, Inr (length written))"
| "copy_capped budget (ReadFails err # turns) written running_total =
     (written, running_total, Inl (''failed to read zip entry: '' @ err))"
| "copy_capped budget (Piece piece write # turns) written running_total =
     (if piece = [] then (written, running_total, Inr (length written))
      else case write of
        Inl err \<Rightarrow> (written, running_total, Inl (''failed to write extracted member: '' @ err))
      | Inr _ \<Rightarrow>
          (if running_total + length piece > budget then
             (written @ piece, running_total + length piece,
              Inl (''extraction cap ('' @ dec budget @ '' bytes, '' @ dec EXTRACTION_RATIO_LIMIT @
                   ''x this archive's compressed size) exceeded''))
           else copy_capped budget turns (written @ piece) (running_total + length piece)))"

section \<open>Expanding an archive\<close>

record zip_entry =
  ze_name :: string
  ze_is_dir :: bool
  ze_turns :: "turn list"

record extracted_member =
  em_name :: string
  em_path :: path
  em_size :: nat

record archive_failure =
  af_key :: string
  af_error :: string

text \<open>How the calls of one expansion end: creating the directory, opening the archive (and its size, when
  the metadata can be read), reading its directory and each of its entries, creating each member's file.\<close>

record expand_env =
  xe_mkdir :: "string + unit"
  xe_open :: "string + nat option"
  xe_archive :: "string + (string + zip_entry) list"
  xe_create :: "path \<Rightarrow> string + unit"

definition member_path :: "nat \<Rightarrow> path" where
  "member_path n = [pad_left 12 (dec n) @ ''.member'']"

text \<open>What an entry's outcome leaves in the directory, and in the results: a member, or one more dropped.\<close>

definition after_entry :: "path \<Rightarrow> string \<Rightarrow> string + nat \<Rightarrow> scratch \<Rightarrow> scratch" where
  "after_entry p data outcome fs = (case outcome of
     Inr _ \<Rightarrow> fs_put p data fs | Inl _ \<Rightarrow> fs_remove p (fs_put p data fs))"

definition note_entry :: "string \<Rightarrow> path \<Rightarrow> string + nat \<Rightarrow> extracted_member list \<times> nat \<Rightarrow> extracted_member list \<times> nat" where
  "note_entry name p outcome = (\<lambda>(members, dropped). case outcome of
     Inr len \<Rightarrow> (\<lparr>em_name = name, em_path = p, em_size = len\<rparr> # members, dropped)
   | Inl _ \<Rightarrow> (members, dropped + 1))"

text \<open>The loop over the entries: the counter and the directory, then the members and the number dropped,
  or the error of an entry that cannot be read or of a file that cannot be created.\<close>

fun expand_entries :: "(path \<Rightarrow> string + unit) \<Rightarrow> nat \<Rightarrow> (string + zip_entry) list \<Rightarrow> nat \<Rightarrow> nat \<Rightarrow> nat \<Rightarrow> scratch \<Rightarrow>
    (nat \<times> scratch) \<times> (extracted_member list \<times> nat) result" where
  "expand_entries create budget [] index running counter fs = ((counter, fs), Inr ([], 0))"
| "expand_entries create budget (Inl err # entries) index running counter fs =
     ((counter, fs), Inl (Err (''failed to read zip entry '' @ dec index @ '': '' @ err)))"
| "expand_entries create budget (Inr entry # entries) index running counter fs =
     (if ze_is_dir entry \<or> is_skippable_zip_entry (ze_name entry) then
        expand_entries create budget entries (index + 1) running counter fs
      else case create (member_path counter) of
        Inl err \<Rightarrow> ((counter + 1, fs), Inl (Err (''failed to create: '' @ err)))
      | Inr _ \<Rightarrow>
          (case copy_capped budget (ze_turns entry) [] running of (data, running', outcome) \<Rightarrow>
             apsnd (\<lambda>r. bindE r (\<lambda>found. Inr (note_entry (ze_name entry) (member_path counter) outcome found)))
               (expand_entries create budget entries (index + 1) running' (counter + 1)
                  (after_entry (member_path counter) data outcome fs))))"

definition expand_to_dir :: "expand_env \<Rightarrow> nat \<Rightarrow> scratch \<Rightarrow>
    (nat \<times> scratch) \<times> (extracted_member list \<times> nat) result" where
  "expand_to_dir env counter fs = (case xe_mkdir env of
     Inl err \<Rightarrow> ((counter, fs), Inl (Err err))
   | Inr _ \<Rightarrow> (case xe_open env of
       Inl err \<Rightarrow> ((counter, fs), Inl (Err (''failed to open: '' @ err)))
     | Inr len \<Rightarrow> (case xe_archive env of
         Inl err \<Rightarrow> ((counter, fs), Inl (Err (''invalid zip archive: '' @ err)))
       | Inr entries \<Rightarrow>
           expand_entries (xe_create env)
             (saturating_mul (case len of Some n \<Rightarrow> n | None \<Rightarrow> 0) EXTRACTION_RATIO_LIMIT) entries 0 0 counter fs)))"

section \<open>What an archive holds\<close>

text \<open>The reference: an entry's whole contents, the entries that are files worth keeping, and all of an
  archive's files when every one of them can be read.\<close>

fun whole_entry :: "turn list \<Rightarrow> string option" where
  "whole_entry [] = Some []"
| "whole_entry (ReadFails err # turns) = None"
| "whole_entry (Piece piece write # turns) =
     (if piece = [] then Some [] else map_option ((@) piece) (whole_entry turns))"

definition is_wanted :: "zip_entry \<Rightarrow> bool" where
  "is_wanted entry \<longleftrightarrow> \<not> ze_is_dir entry \<and> \<not> is_skippable_zip_entry (ze_name entry)"

fun entries_of :: "(string + zip_entry) list \<Rightarrow> zip_entry list option" where
  "entries_of [] = Some []"
| "entries_of (Inl err # rest) = None"
| "entries_of (Inr entry # rest) =
     map_option (\<lambda>es. if is_wanted entry then entry # es else es) (entries_of rest)"

definition member_of :: "zip_entry \<Rightarrow> (string \<times> string) option" where
  "member_of entry = map_option (Pair (ze_name entry)) (whole_entry (ze_turns entry))"

lemma copy_capped_ok:
  "copy_capped budget turns written running = (data, running', Inr len) \<Longrightarrow>
     (\<exists>rest. whole_entry turns = Some rest \<and> data = written @ rest \<and> len = length data \<and>
        running' = running + length rest \<and> (rest = [] \<or> running' \<le> budget))"
proof (induction budget turns written running rule: copy_capped.induct)
  case (3 budget piece w turns written running)
  show ?case
  proof (cases "piece = []")
    case False
    with 3 obtain u where w: "w = Inr u" and le: "running + length piece \<le> budget"
      and rec: "copy_capped budget turns (written @ piece) (running + length piece) = (data, running', Inr len)"
      by (auto split: sum.splits if_splits)
    from "3.IH" [OF False w] le rec obtain rest where "whole_entry turns = Some rest"
      "data = (written @ piece) @ rest" "len = length data" "running' = running + length piece + length rest"
      "rest = [] \<or> running' \<le> budget" by auto
    then show ?thesis using False le by (intro exI [of _ "piece @ rest"]) auto
  qed (use 3 in auto)
qed auto

lemma copy_capped_mono:
  "copy_capped budget turns written running = (data, running', r) \<Longrightarrow> running \<le> running'"
  by (induction budget turns written running rule: copy_capped.induct)
    (auto split: sum.splits if_splits)

text \<open>Whatever happens, the bytes written for an entry exceed what is left of the budget by less than one
  piece: an entry that lies about its size is cut off at once.\<close>

lemma copy_capped_bound:
  assumes "copy_capped budget turns written running = (data, running', r)"
    and "\<forall>piece w. Piece piece w \<in> set turns \<longrightarrow> length piece \<le> COPY_CHUNK_BYTES"
  shows "length data \<le> length written + (budget - running) + COPY_CHUNK_BYTES \<and> running \<le> running' \<and>
    length data + running \<le> length written + running'"
  using assms
proof (induction budget turns written running rule: copy_capped.induct)
  case (3 budget piece w turns written running)
  have piece: "length piece \<le> COPY_CHUNK_BYTES" using "3.prems"(2) by simp
  consider "piece = [] \<or> (\<exists>e. w = Inl e)" | "piece \<noteq> []" "w = Inr ()" "budget < running + length piece"
    | "piece \<noteq> []" "w = Inr ()" "running + length piece \<le> budget"
    by (cases w; cases "running + length piece \<le> budget"; fastforce)
  then show ?case
  proof cases
    case 3
    then have "length data \<le> length (written @ piece) + (budget - (running + length piece)) + COPY_CHUNK_BYTES \<and>
        running + length piece \<le> running' \<and> length data + (running + length piece) \<le> length (written @ piece) + running'"
      using "3.IH" "3.prems" by auto
    then show ?thesis using 3 by auto
  qed (use "3.prems"(1) piece in \<open>auto split: if_splits\<close>)
qed auto

section \<open>Expansion\<close>

lemma member_path_inject [simp]: "member_path m = member_path n \<longleftrightarrow> m = n"
  by (simp add: member_path_def)

text \<open>An expansion touches only the files its counter allocates, whether it succeeds or not.\<close>

lemma fs_get_after_entry: "q \<noteq> p \<Longrightarrow> fs_get (after_entry p data outcome fs) q = fs_get fs q"
  by (simp add: after_entry_def split: sum.splits)

lemma expand_entries_frame:
  "expand_entries create budget entries index running counter fs = ((counter', fs'), r) \<Longrightarrow>
     counter \<le> counter' \<and> (\<forall>p. p \<notin> member_path ` {counter..<counter'} \<longrightarrow> fs_get fs' p = fs_get fs p)"
proof (induction create budget entries index running counter fs arbitrary: r rule: expand_entries.induct)
  case (3 create budget entry entries index running counter fs)
  show ?case
  proof (cases "ze_is_dir entry \<or> is_skippable_zip_entry (ze_name entry)")
    case True
    then show ?thesis using "3.IH"(1) "3.prems" by simp
  next
    case False
    show ?thesis
    proof (cases "create (member_path counter)")
      case (Inl err)
      then show ?thesis using "3.prems" False by auto
    next
      case (Inr u)
      obtain data run outcome where c: "copy_capped budget (ze_turns entry) [] running = (data, run, outcome)"
        by (metis prod_cases3)
      let ?rec = "expand_entries create budget entries (index + 1) run (counter + 1)
        (after_entry (member_path counter) data outcome fs)"
      have "fst ?rec = (counter', fs')" using "3.prems" False Inr c by (cases ?rec) simp
      then have rec: "?rec = ((counter', fs'), snd ?rec)" by (metis prod.collapse)
      have IH: "counter + 1 \<le> counter' \<and> (\<forall>p. p \<notin> member_path ` {counter + 1..<counter'} \<longrightarrow>
          fs_get fs' p = fs_get (after_entry (member_path counter) data outcome fs) p)"
        by (rule "3.IH"(2) [OF False Inr c [symmetric] refl rec])
      have "{counter..<counter'} = insert counter {counter + 1..<counter'}" using IH by auto
      then show ?thesis using IH by (simp add: fs_get_after_entry)
    qed
  qed
qed auto

text \<open>What a whole expansion leaves behind, against the reference.\<close>

abbreviation stored :: "scratch \<Rightarrow> extracted_member \<Rightarrow> string \<times> string option" where
  "stored fs m \<equiv> (em_name m, fs_get fs (em_path m))"

abbreviation held :: "zip_entry \<Rightarrow> string \<times> string option" where
  "held e \<equiv> (ze_name e, whole_entry (ze_turns e))"

abbreviation kept_bytes :: "extracted_member list \<Rightarrow> nat" where
  "kept_bytes members \<equiv> sum_list (map em_size members)"

definition expanded :: "nat \<Rightarrow> nat \<Rightarrow> nat set \<Rightarrow> scratch \<Rightarrow> zip_entry list \<Rightarrow> extracted_member list \<times> nat \<Rightarrow> bool" where
  "expanded budget running ns fs es = (\<lambda>(members, dropped).
     length members + dropped = length es \<and>
     (kept_bytes members + running \<le> budget \<or> kept_bytes members = 0) \<and>
     distinct (map em_path members) \<and> em_path ` set members \<subseteq> member_path ` ns \<and>
     subseq (map (stored fs) members) (map held es) \<and>
     (\<forall>m \<in> set members. \<exists>data. fs_get fs (em_path m) = Some data \<and> em_size m = length data))"

lemma note_entry_simps [simp]:
  "note_entry name p (Inr len) (members, dropped) = (\<lparr>em_name = name, em_path = p, em_size = len\<rparr> # members, dropped)"
  "note_entry name p (Inl e) (members, dropped) = (members, dropped + 1)"
  by (simp_all add: note_entry_def)

lemma expanded_bytes:
  "expanded budget running ns fs es (members, dropped) \<Longrightarrow>
     kept_bytes members + running \<le> budget \<or> kept_bytes members = 0"
  by (simp add: expanded_def)

lemma expanded_drop:
  assumes "expanded budget running' {counter + 1..<counter'} fs' es (members, dropped)" and "running \<le> running'"
  shows "expanded budget running {counter..<counter'} fs' (entry # es) (members, dropped + 1)"
proof -
  have "{counter + 1..<counter'} \<subseteq> {counter..<counter'}" by auto
  then have "member_path ` {counter + 1..<counter'} \<subseteq> member_path ` {counter..<counter'}" by (rule image_mono)
  then show ?thesis using assms by (auto simp: expanded_def)
qed

lemma expanded_keep:
  assumes exp: "expanded budget running' {counter + 1..<counter'} fs' es (members, dropped)"
    and "counter < counter'" and "fs_get fs' (member_path counter) = Some data"
    and "whole_entry (ze_turns entry) = Some data" and "running' = running + length data"
    and "data = [] \<or> running' \<le> budget"
  shows "expanded budget running {counter..<counter'} fs' (entry # es)
    (\<lparr>em_name = ze_name entry, em_path = member_path counter, em_size = length data\<rparr> # members, dropped)"
proof -
  have new: "member_path counter \<notin> member_path ` {counter + 1..<counter'}" by auto
  have "{counter..<counter'} = insert counter {counter + 1..<counter'}" using assms(2) by auto
  then have "member_path ` {counter..<counter'} = insert (member_path counter) (member_path ` {counter + 1..<counter'})"
    by simp
  moreover have "length data + kept_bytes members + running \<le> budget \<or> length data + kept_bytes members = 0"
    using expanded_bytes [OF exp] assms(5,6) by (elim disjE) (simp_all del: sum_list_eq_0_iff)
  ultimately show ?thesis using assms(3,4) exp new by (auto simp: expanded_def)
qed

lemma expand_entries_ok:
  "expand_entries create budget entries index running counter fs = ((counter', fs'), Inr found) \<Longrightarrow>
     \<exists>es. entries_of entries = Some es \<and> expanded budget running {counter..<counter'} fs' es found"
proof (induction create budget entries index running counter fs arbitrary: found rule: expand_entries.induct)
  case (1 create budget index running counter fs)
  then show ?case by (auto simp: expanded_def)
next
  case (3 create budget entry entries index running counter fs)
  show ?case
  proof (cases "ze_is_dir entry \<or> is_skippable_zip_entry (ze_name entry)")
    case True
    then show ?thesis using "3.IH"(1) "3.prems" by (auto simp: is_wanted_def)
  next
    case False
    then obtain u where u: "create (member_path counter) = Inr u" using "3.prems" by (auto split: sum.splits)
    obtain data run outcome where c: "copy_capped budget (ze_turns entry) [] running = (data, run, outcome)"
      by (metis prod_cases3)
    let ?fs = "after_entry (member_path counter) data outcome fs"
    obtain members dropped where
      rec: "expand_entries create budget entries (index + 1) run (counter + 1) ?fs = ((counter', fs'), Inr (members, dropped))"
      and found: "found = note_entry (ze_name entry) (member_path counter) outcome (members, dropped)"
      using "3.prems" False u c
      by (cases "expand_entries create budget entries (index + 1) run (counter + 1) ?fs") (auto simp: bindE_Inr_iff)
    obtain es where es: "entries_of entries = Some es"
      and exp: "expanded budget run {counter + 1..<counter'} fs' es (members, dropped)"
      using "3.IH"(2) [OF False u c [symmetric] refl rec] by blast
    from expand_entries_frame [OF rec] have "counter < counter'"
      and here: "fs_get fs' (member_path counter) = fs_get ?fs (member_path counter)"
      by (auto simp: image_iff)
    have "expanded budget running {counter..<counter'} fs' (entry # es) found"
    proof (cases outcome)
      case (Inl err)
      have "running \<le> run" using c copy_capped_mono by blast
      then show ?thesis using expanded_drop [OF exp] found Inl by simp
    next
      case (Inr len)
      then have "whole_entry (ze_turns entry) = Some data" "len = length data" "run = running + length data"
        "data = [] \<or> run \<le> budget" using copy_capped_ok c by fastforce+
      then show ?thesis
        using expanded_keep [OF exp \<open>counter < counter'\<close>] here found Inr by (simp add: after_entry_def)
    qed
    then show ?thesis using es False by (intro exI [of _ "entry # es"]) (simp add: is_wanted_def)
  qed
qed auto

section \<open>Properties\<close>

text \<open>C15. Expanding an archive never keeps more than 100 times the archive's size, whatever its
  entries claim; no kept file is cut short: the members are, in order, whole files the archive holds, each
  in a scratch file of its own; every file the archive holds that is not noise is either kept or counted as
  dropped, so when none is dropped the members are exactly those files; and no other scratch file is touched.\<close>

theorem extraction_bounded:
  assumes "expand_to_dir env counter fs = ((counter', fs'), Inr (members, dropped))"
  shows "\<exists>len entries es. xe_open env = Inr len \<and> xe_archive env = Inr entries \<and> entries_of entries = Some es \<and>
    kept_bytes members \<le> 100 * (case len of Some n \<Rightarrow> n | None \<Rightarrow> 0) \<and>
    length members + dropped = length es \<and> subseq (map (stored fs') members) (map held es) \<and>
    (dropped = 0 \<longrightarrow> map (stored fs') members = map held es) \<and>
    (\<forall>m \<in> set members. \<exists>data. fs_get fs' (em_path m) = Some data \<and> em_size m = length data) \<and>
    distinct (map em_path members) \<and> em_path ` set members \<subseteq> member_path ` {counter..<counter'} \<and>
    (\<forall>p. p \<notin> member_path ` {counter..<counter'} \<longrightarrow> fs_get fs' p = fs_get fs p)"
proof -
  obtain len entries where env: "xe_open env = Inr len" "xe_archive env = Inr entries"
    and run: "expand_entries (xe_create env)
      (saturating_mul (case len of Some n \<Rightarrow> n | None \<Rightarrow> 0) EXTRACTION_RATIO_LIMIT) entries 0 0 counter fs =
      ((counter', fs'), Inr (members, dropped))"
    using assms by (auto simp: expand_to_dir_def split: sum.splits)
  obtain es where es: "entries_of entries = Some es" and exp: "expanded
      (saturating_mul (case len of Some n \<Rightarrow> n | None \<Rightarrow> 0) EXTRACTION_RATIO_LIMIT) 0 {counter..<counter'} fs' es (members, dropped)"
    using expand_entries_ok [OF run] by blast
  have "kept_bytes members \<le> 100 * (case len of Some n \<Rightarrow> n | None \<Rightarrow> 0)"
    using expanded_bytes [OF exp] unfolding saturating_mul_def EXTRACTION_RATIO_LIMIT_def
    by (elim disjE) (simp_all del: sum_list_eq_0_iff)
  moreover have "dropped = 0 \<longrightarrow> map (stored fs') members = map held es"
    using exp subseq_same_length by (fastforce simp: expanded_def)
  ultimately show ?thesis
    using env es exp expand_entries_frame [OF run] by (auto simp: expanded_def)
qed

text \<open>A bomb beside an honest file: the budget is 100 bytes, the bomb is cut off and counted, the resource
  fork is noise.\<close>

definition bomb_entries :: "(string + zip_entry) list" where
  "bomb_entries = [Inr \<lparr>ze_name = ''__MACOSX/._a'', ze_is_dir = False, ze_turns = [Piece ''x'' (Inr ())]\<rparr>,
     Inr \<lparr>ze_name = ''a.txt'', ze_is_dir = False, ze_turns = [Piece ''he'' (Inr ()), Piece ''llo'' (Inr ())]\<rparr>,
     Inr \<lparr>ze_name = ''bomb'', ze_is_dir = False,
       ze_turns = [Piece (replicate 60 (CHR ''0'')) (Inr ()), Piece (replicate 60 (CHR ''0'')) (Inr ())]\<rparr>]"

definition bomb_env :: expand_env where
  "bomb_env = \<lparr>xe_mkdir = Inr (), xe_open = Inr (Some 1), xe_archive = Inr bomb_entries,
     xe_create = \<lambda>_. Inr ()\<rparr>"

abbreviation bomb_file :: extracted_member where
  "bomb_file \<equiv> \<lparr>em_name = ''a.txt'', em_path = [''000000000000.member''], em_size = 5\<rparr>"

lemma bomb_run:
  "expand_to_dir bomb_env 0 [] = ((2, [([''000000000000.member''], ''hello'')]), Inr ([bomb_file], 1))"
proof -
  have "expand_entries (\<lambda>_. Inr ()) 100 bomb_entries 0 0 0 [] =
      ((2, [([''000000000000.member''], ''hello'')]), Inr ([bomb_file], 1))" by code_simp
  moreover have "saturating_mul 1 EXTRACTION_RATIO_LIMIT = 100"
    by (simp add: saturating_mul_def usize_max_def EXTRACTION_RATIO_LIMIT_def)
  ultimately show ?thesis by (simp add: expand_to_dir_def bomb_env_def)
qed

theorem extraction_bounded_witness:
  "kept_bytes [bomb_file] \<le> 100 \<and> length [bomb_file] + 1 = 2 \<and>
   (\<exists>es. entries_of bomb_entries = Some es \<and> length es = 2)"
  using extraction_bounded [OF bomb_run] by (auto simp: bomb_env_def)

end
