(* ===== verification/Dedup.thy ===== *)
theory Dedup
  imports Archive BTreeMap RcloneConfig
begin

text \<open>
  The sequential parts of the deduplicate job: \<open>deduplicate/manifest.rs\<close> (extensions, the \<open>.processed\<close>
  checkpoint, the list of pending objects) and \<open>deduplicate/dedup.rs\<close> (placement by content hash and the
  merge report). The result directory is a \<open>Scratch\<close> directory whose paths are an extension and a file name.
\<close>

section \<open>Keys and the checkpoint\<close>

definition after_zip_separator :: "string \<Rightarrow> string" where
  "after_zip_separator key = last (split_on (CHR ''!'') key)"

definition extension_of :: "string \<Rightarrow> string" where
  "extension_of key = (case extension (after_zip_separator key) of
     Some ext \<Rightarrow> to_lower ext | None \<Rightarrow> ''(none)'')"

definition is_zip_key :: "string \<Rightarrow> bool" where
  "is_zip_key key \<longleftrightarrow> extension_of key = ''zip''"

record deduplicate_task =
  dt_bucket_alias :: string
  dt_key :: string
  dt_size :: nat

record type_summary =
  ty_extension :: string
  ty_count :: nat
  ty_total_bytes :: nat

definition PROCESSED_FILE_NAME :: string where "PROCESSED_FILE_NAME = ''.processed''"

text \<open>The checkpoint file's contents, \<open>None\<close> when it does not exist; its rows.\<close>

definition processed_row :: "string \<Rightarrow> (string \<times> string) option" where
  "processed_row line = Some (case split_once TAB line of Some (bucket, key) \<Rightarrow> (bucket, key) | None \<Rightarrow> ([], line))"

definition load_processed :: "string + string option \<Rightarrow> (string \<times> string) set result" where
  "load_processed file = (case file of
     Inl err \<Rightarrow> Inl (Err (''failed to read: '' @ err))
   | Inr contents \<Rightarrow> Inr (set (read_rows processed_row (case contents of None \<Rightarrow> [] | Some s \<Rightarrow> s))))"

definition is_checkpointed :: "(string \<times> string) set \<Rightarrow> string \<Rightarrow> string \<Rightarrow> bool" where
  "is_checkpointed finished bucket key \<longleftrightarrow> (bucket, key) \<in> finished \<or> ([], key) \<in> finished"

definition format_processed :: "string \<times> string \<Rightarrow> string" where
  "format_processed = (\<lambda>(bucket, key). bucket @ [TAB] @ key)"

definition append_processed :: "string + unit \<Rightarrow> string \<times> string \<Rightarrow> string option \<Rightarrow> string option \<times> unit result" where
  "append_processed write row contents = (case write of
     Inl err \<Rightarrow> (contents, Inl (Err err))
   | Inr _ \<Rightarrow> (Some ((case contents of None \<Rightarrow> [] | Some s \<Rightarrow> s) @ format_processed row @ [NL]), Inr ()))"

section \<open>Pending work\<close>

definition count_extension :: "nat \<Rightarrow> string \<Rightarrow> (string, nat \<times> nat) btree_map \<Rightarrow> (string, nat \<times> nat) btree_map" where
  "count_extension bytes ext m = (case bt_get m ext of
     Some (n, total_bytes) \<Rightarrow> bt_insert ext (n + 1, total_bytes + bytes) m
   | None \<Rightarrow> bt_insert ext (1, bytes) m)"

fun pending_entries :: "(string \<times> string) set \<Rightarrow> string \<Rightarrow> (string \<times> nat) list \<Rightarrow>
    (string, nat \<times> nat) btree_map \<Rightarrow> deduplicate_task list \<times> (string, nat \<times> nat) btree_map" where
  "pending_entries finished bucket [] by_ext = ([], by_ext)"
| "pending_entries finished bucket ((key, bytes) # entries) by_ext =
     (if is_checkpointed finished bucket key then pending_entries finished bucket entries by_ext
      else apfst ((#) \<lparr>dt_bucket_alias = bucket, dt_key = key, dt_size = bytes\<rparr>)
             (pending_entries finished bucket entries (count_extension bytes (extension_of key) by_ext)))"

text \<open>\<open>lsjson\<close> is what rclone lists at an address.\<close>

fun pending_buckets :: "(string \<Rightarrow> string + (string \<times> nat) list) \<Rightarrow> (string \<times> string) set \<Rightarrow> bucket_config list \<Rightarrow>
    (string, nat \<times> nat) btree_map \<Rightarrow> (deduplicate_task list \<times> (string, nat \<times> nat) btree_map) result" where
  "pending_buckets lsjson finished [] by_ext = Inr ([], by_ext)"
| "pending_buckets lsjson finished (b # bs) by_ext =
     (case lsjson (address (bucket_root (bc_alias b))) of
        Inl err \<Rightarrow> Inl (Err err)
      | Inr entries \<Rightarrow>
          (let (tasks, by_ext') = pending_entries finished (bc_alias b) entries by_ext
           in bindE (pending_buckets lsjson finished bs by_ext') (\<lambda>(rest, m). Inr (tasks @ rest, m))))"

definition gather_deduplicate :: "(string \<Rightarrow> string + (string \<times> nat) list) \<Rightarrow> string + string option \<Rightarrow>
    bucket_config list \<Rightarrow> (deduplicate_task list \<times> type_summary list) result" where
  "gather_deduplicate lsjson file buckets =
     bindE (load_processed file) (\<lambda>finished.
     bindE (pending_buckets lsjson finished buckets []) (\<lambda>(tasks, by_ext).
       Inr (tasks, map (\<lambda>(ext, n, bytes). \<lparr>ty_extension = ext, ty_count = n, ty_total_bytes = bytes\<rparr>) by_ext)))"

section \<open>Placement by content\<close>

record hashed_file =
  hf_original_key :: string
  hf_bucket_alias :: string
  hf_scratch_path :: path
  hf_extension :: string
  hf_content_hash :: string

record merge_record =
  mr_duplicate_key :: string
  mr_duplicate_bucket_alias :: string
  mr_kept_path :: string
  mr_kept_original_key :: string
  mr_kept_bucket_alias :: string
  mr_content_hash :: string

record placement_summary =
  ps_placed :: nat
  ps_duplicates_skipped :: nat
  ps_failed :: nat

definition CONTENT_HASHES_FILE :: string where "CONTENT_HASHES_FILE = ''.content-hashes''"

definition name_or_tail :: "string \<Rightarrow> string" where
  "name_or_tail key = (case file_name (after_zip_separator key) of Some n \<Rightarrow> n | None \<Rightarrow> after_zip_separator key)"

definition is_undated_key :: "string \<Rightarrow> bool" where
  "is_undated_key key \<longleftrightarrow> starts_with ''0000-00-00-'' (name_or_tail key)"

text \<open>How the three calls of one placement end, and what a placement reads and writes: the raw files, the
  result directory and the content index.\<close>

record placing_env =
  pe_mkdir :: "hashed_file \<Rightarrow> string + unit"
  pe_rename :: "hashed_file \<Rightarrow> string + unit"
  pe_commit :: "hashed_file \<Rightarrow> bool"

record placing =
  pl_scratch :: scratch
  pl_result :: scratch
  pl_index :: content_index

definition place_hashed :: "placing_env \<Rightarrow> hashed_file \<Rightarrow> placing \<Rightarrow> placing \<times> unit result" where
  "place_hashed env f st = (case pe_mkdir env f of
     Inl err \<Rightarrow> (st, Inl (Err err))
   | Inr _ \<Rightarrow>
       (let final = unique_path (fs_names [hf_extension f] (pl_result st)) (sanitize_filename (name_or_tail (hf_original_key f)))
        in case (pe_rename env f, fs_get (pl_scratch st) (hf_scratch_path f)) of
          (Inr _, Some data) \<Rightarrow>
            (let moved = st\<lparr>pl_scratch := fs_remove (hf_scratch_path f) (pl_scratch st),
                            pl_result := fs_put [hf_extension f, final] data (pl_result st)\<rparr>
             in case commit_with_key_and_bucket (pe_commit env f) (hf_content_hash f) (hf_extension f @ ''/'' @ final)
                       (hf_original_key f) (hf_bucket_alias f) (pl_index moved) of
                 Inl err \<Rightarrow> (moved, Inl err)
               | Inr ix \<Rightarrow> (moved\<lparr>pl_index := ix\<rparr>, Inr ()))
        | (Inr _, None) \<Rightarrow> (st, Inl (Err ''failed to move''))
        | (Inl err, _) \<Rightarrow> (st, Inl (Err err))))"

type_synonym placed = "placement_summary \<times> merge_record list \<times> (string \<times> string) list"

text \<open>One turn of the placement loop: a known hash is a duplicate, anything else is placed.\<close>

definition place_turn :: "placing_env \<Rightarrow> hashed_file \<Rightarrow> placed \<times> placing \<Rightarrow> placed \<times> placing" where
  "place_turn env f = (\<lambda>((summary, records, finished), st).
     case check_with_original_key_and_bucket (pl_index st) (hf_content_hash f) of
       Some (kept_path, kept_key, kept_bucket) \<Rightarrow>
         ((summary\<lparr>ps_duplicates_skipped := ps_duplicates_skipped summary + 1\<rparr>,
           records @ [\<lparr>mr_duplicate_key = hf_original_key f, mr_duplicate_bucket_alias = hf_bucket_alias f,
              mr_kept_path = kept_path, mr_kept_original_key = kept_key, mr_kept_bucket_alias = kept_bucket,
              mr_content_hash = hf_content_hash f\<rparr>],
           finished @ [(hf_bucket_alias f, hf_original_key f)]),
          st\<lparr>pl_scratch := fs_remove (hf_scratch_path f) (pl_scratch st)\<rparr>)
     | None \<Rightarrow> (case place_hashed env f st of
           (st', Inl _) \<Rightarrow> ((summary\<lparr>ps_failed := ps_failed summary + 1\<rparr>, records, finished), st')
         | (st', Inr _) \<Rightarrow> ((summary\<lparr>ps_placed := ps_placed summary + 1\<rparr>, records,
              finished @ [(hf_bucket_alias f, hf_original_key f)]), st')))"

definition placement_order :: "hashed_file list \<Rightarrow> hashed_file list" where
  "placement_order files = sort_key (\<lambda>f. (is_undated_key (hf_original_key f), hf_original_key f)) files"

definition no_placements :: placed where
  "no_placements = (\<lparr>ps_placed = 0, ps_duplicates_skipped = 0, ps_failed = 0\<rparr>, [], [])"

definition place_and_report :: "placing_env \<Rightarrow> hashed_file list \<Rightarrow> placing \<Rightarrow> placed \<times> placing" where
  "place_and_report env files st = fold (place_turn env) (placement_order files) (no_placements, st)"

section \<open>The report\<close>

definition report_row :: "merge_record \<Rightarrow> string" where
  "report_row r = join [TAB] [mr_duplicate_key r, mr_content_hash r, mr_kept_path r, mr_kept_original_key r,
     mr_duplicate_bucket_alias r, mr_kept_bucket_alias r]"

definition report_text :: "merge_record list \<Rightarrow> archive_failure list \<Rightarrow> string" where
  "report_text records failures =
     join [TAB] [''duplicate_key'', ''content_hash'', ''kept_path'', ''kept_original_key'', ''duplicate_bucket_alias'',
       ''kept_bucket_alias''] @ [NL] @
     write_rows report_row records @
     [NL] @ dec (length records) @ '' duplicate(s) removed.'' @ [NL] @
     [NL] @ dec (length failures) @
     '' archive(s) need manual attention (password-protected or corrupt -- open and resolve by hand, then re-run):'' @ [NL] @
     write_rows (\<lambda>f. af_key f @ [TAB] @ af_error f) failures"

definition write_report :: "string + unit \<Rightarrow> merge_record list \<Rightarrow> archive_failure list \<Rightarrow> string result" where
  "write_report write records failures = (case write of
     Inl err \<Rightarrow> Inl (Err (''failed to write: '' @ err))
   | Inr _ \<Rightarrow> Inr (report_text records failures))"

section \<open>The checkpoint\<close>

definition processed_ok :: "string \<times> string \<Rightarrow> bool" where
  "processed_ok = (\<lambda>(bucket, key). TAB \<notin> set bucket \<and> NL \<notin> set bucket \<and> clean_line key)"

interpretation processed_format: line_format format_processed processed_row processed_ok
  by unfold_locales (auto simp: format_processed_def processed_row_def processed_ok_def)

lemma pending_entries_tasks:
  "fst (pending_entries finished bucket entries m) =
     map (\<lambda>(key, bytes). \<lparr>dt_bucket_alias = bucket, dt_key = key, dt_size = bytes\<rparr>)
       (filter (\<lambda>(key, _). \<not> is_checkpointed finished bucket key) entries)"
  by (induction finished bucket entries m rule: pending_entries.induct) simp_all

section \<open>One copy of every content\<close>

text \<open>The result files with a given hash; an index whose every entry names one of them, and an index that
  knows all of them and has each only once.\<close>

definition hash_paths :: "(string \<Rightarrow> string) \<Rightarrow> placing \<Rightarrow> string \<Rightarrow> path set" where
  "hash_paths sha st h = {p. \<exists>c. fs_get (pl_result st) p = Some c \<and> sha c = h}"

definition index_backed :: "(string \<Rightarrow> string) \<Rightarrow> placing \<Rightarrow> bool" where
  "index_backed sha st \<longleftrightarrow>
     (\<forall>h e. ci_entries (pl_index st) h = Some e \<longrightarrow> split_on (CHR ''/'') (relative_path e) \<in> hash_paths sha st h)"

definition index_exact :: "(string \<Rightarrow> string) \<Rightarrow> placing \<Rightarrow> bool" where
  "index_exact sha st \<longleftrightarrow> (\<forall>h. hash_paths sha st h =
     (case ci_entries (pl_index st) h of None \<Rightarrow> {} | Some e \<Rightarrow> {split_on (CHR ''/'') (relative_path e)}))"

text \<open>A hashed file as the workers hand it over.\<close>

definition ready :: "(string \<Rightarrow> string) \<Rightarrow> scratch \<Rightarrow> hashed_file \<Rightarrow> bool" where
  "ready sha fs f \<longleftrightarrow> CHR ''/'' \<notin> set (hf_extension f) \<and>
     (\<exists>c. fs_get fs (hf_scratch_path f) = Some c \<and> hf_content_hash f = sha c)"

lemma sanitize_filename_no_slash: "CHR ''/'' \<notin> set (sanitize_filename name)"
  using file_name_props(4) set_truncate_preserving
  by (fastforce simp: sanitize_filename_eq split: option.splits)

lemma stem_ext_chars: "stem_ext f = (stem, ext) \<Longrightarrow> set stem \<subseteq> set f \<and> (\<forall>e. ext = Some e \<longrightarrow> set e \<subseteq> set f)"
  by (auto simp: stem_ext_def rsplit_once_Some split: option.splits if_splits)

lemma unique_path_no_slash:
  assumes "CHR ''/'' \<notin> set desired"
  shows "CHR ''/'' \<notin> set (unique_path dir desired)"
proof -
  have "CHR ''/'' \<notin> set (candidate_name desired n)" for n
  proof -
    obtain stem ext where "stem_ext desired = (stem, ext)" by fastforce
    moreover have "\<not> is_digit (CHR ''/'')" by (simp add: is_digit_def)
    ultimately show ?thesis
      using stem_ext_chars [of desired stem ext] assms by (cases ext) (auto simp: candidate_name_def)
  qed
  then show ?thesis
    using first_free_spec [of 2 dir desired] assms by (auto simp: unique_path_def)
qed

text \<open>A placement that reports an error left everything alone, or put the file in place without the index
  knowing; one that succeeds put it in place and into the index.\<close>

lemma place_hashed_cases:
  assumes "place_hashed env f st = (st', r)" and "ready sha (pl_scratch st) f"
  obtains (failed) err where "r = Inl err" "st' = st" "\<not> (pe_mkdir env f = Inr () \<and> pe_rename env f = Inr ())"
  | (moved) final data ix where "CHR ''/'' \<notin> set final" "fs_get (pl_result st) [hf_extension f, final] = None"
      "fs_get (pl_scratch st) (hf_scratch_path f) = Some data" "hf_content_hash f = sha data"
      "st' = \<lparr>pl_scratch = fs_remove (hf_scratch_path f) (pl_scratch st),
              pl_result = fs_put [hf_extension f, final] data (pl_result st), pl_index = ix\<rparr>"
      "(if pe_commit env f then r = Inr () \<and> ci_entries ix = (ci_entries (pl_index st))(hf_content_hash f \<mapsto>
            \<lparr>relative_path = hf_extension f @ ''/'' @ final, original_key = hf_original_key f,
             source_bucket_alias = hf_bucket_alias f\<rparr>)
        else (\<exists>err. r = Inl err) \<and> ix = pl_index st)"
proof -
  let ?final = "unique_path (fs_names [hf_extension f] (pl_result st)) (sanitize_filename (name_or_tail (hf_original_key f)))"
  have final: "CHR ''/'' \<notin> set ?final" by (intro unique_path_no_slash sanitize_filename_no_slash)
  have "?final \<notin> set (fs_names [hf_extension f] (pl_result st))" by simp
  then have free: "fs_get (pl_result st) [hf_extension f, ?final] = None" by (simp add: fs_names_iff)
  obtain data where data: "fs_get (pl_scratch st) (hf_scratch_path f) = Some data" "hf_content_hash f = sha data"
    using assms(2) by (auto simp: ready_def)
  show ?thesis
  proof (cases "pe_mkdir env f = Inr () \<and> pe_rename env f = Inr ()")
    case True
    then show ?thesis
      using assms(1) data final free
      by (intro moved [of ?final data "pl_index st'"])
        (auto simp: place_hashed_def commit_with_key_and_bucket_def Let_def split: if_splits)
  next
    case False
    then have "\<exists>err. r = Inl err \<and> st' = st"
      using assms(1) data by (cases "pe_mkdir env f"; cases "pe_rename env f") (auto simp: place_hashed_def Let_def)
    then show ?thesis using failed False by blast
  qed
qed

text \<open>What holds after the files \<open>done\<close> have been through the loop, from the state \<open>st0\<close>.\<close>

definition env_succeeds :: "placing_env \<Rightarrow> bool" where
  "env_succeeds env \<longleftrightarrow> (\<forall>f. pe_mkdir env f = Inr () \<and> pe_rename env f = Inr () \<and> pe_commit env f)"

definition counts_add_up :: "hashed_file list \<Rightarrow> placement_summary \<Rightarrow> bool" where
  "counts_add_up seen summary \<longleftrightarrow>
     ps_placed summary + ps_duplicates_skipped summary + ps_failed summary = length seen"

definition names_kept_copies :: "(string \<Rightarrow> string) \<Rightarrow> hashed_file list \<Rightarrow> placed \<Rightarrow> placing \<Rightarrow> bool" where
  "names_kept_copies sha seen = (\<lambda>(summary, records, finished) st.
     (\<forall>r \<in> set records. \<exists>f \<in> set seen. mr_duplicate_key r = hf_original_key f \<and>
        mr_duplicate_bucket_alias r = hf_bucket_alias f \<and> mr_content_hash r = hf_content_hash f \<and>
        split_on (CHR ''/'') (mr_kept_path r) \<in> hash_paths sha st (hf_content_hash f)) \<and>
     (\<forall>(b, k) \<in> set finished. \<exists>f \<in> set seen. hf_bucket_alias f = b \<and> hf_original_key f = k \<and>
        hash_paths sha st (hf_content_hash f) \<noteq> {}))"

definition keeps_first :: "hashed_file list \<Rightarrow> placing \<Rightarrow> placing \<Rightarrow> bool" where
  "keeps_first seen st0 st \<longleftrightarrow> (\<forall>h. map_option original_key (ci_entries (pl_index st) h) =
     (case ci_entries (pl_index st0) h of Some e \<Rightarrow> Some (original_key e)
      | None \<Rightarrow> map_option hf_original_key (find (\<lambda>f. hf_content_hash f = h) seen)))"

definition placing_inv :: "(string \<Rightarrow> string) \<Rightarrow> placing_env \<Rightarrow> placing \<Rightarrow> hashed_file list \<Rightarrow> placed \<times> placing \<Rightarrow> bool" where
  "placing_inv sha env st0 seen = (\<lambda>((summary, records, finished), st).
     counts_add_up seen summary \<and> index_backed sha st \<and>
     (\<forall>p c. fs_get (pl_result st0) p = Some c \<longrightarrow> fs_get (pl_result st) p = Some c) \<and>
     names_kept_copies sha seen (summary, records, finished) st \<and>
     (ps_failed summary = 0 \<longrightarrow> (\<forall>f \<in> set seen. hash_paths sha st (hf_content_hash f) \<noteq> {})) \<and>
     (index_exact sha st0 \<and> (\<forall>f. pe_commit env f) \<longrightarrow> index_exact sha st) \<and>
     (env_succeeds env \<longrightarrow> ps_failed summary = 0 \<and> keeps_first seen st0 st))"

lemma names_kept_mono:
  assumes "names_kept_copies sha seen (summary, records, finished) st"
    and "\<And>h. hash_paths sha st h \<subseteq> hash_paths sha st' h"
  shows "names_kept_copies sha (seen @ [f]) (summary', records, finished) st'"
  using assms by (fastforce simp: names_kept_copies_def)

lemma hash_paths_moved:
  assumes "fs_get (pl_result st) p = None"
  shows "hash_paths sha \<lparr>pl_scratch = fs, pl_result = fs_put p data (pl_result st), pl_index = ix\<rparr> h =
    (if sha data = h then insert p (hash_paths sha st h) else hash_paths sha st h)"
  using assms by (auto simp: hash_paths_def)

lemma hash_paths_scratch [simp]: "hash_paths sha (st\<lparr>pl_scratch := fs\<rparr>) h = hash_paths sha st h"
  by (simp add: hash_paths_def)

lemma index_scratch [simp]:
  "index_backed sha (st\<lparr>pl_scratch := fs\<rparr>) = index_backed sha st"
  "index_exact sha (st\<lparr>pl_scratch := fs\<rparr>) = index_exact sha st"
  "keeps_first seen st0 (st\<lparr>pl_scratch := fs\<rparr>) = keeps_first seen st0 st"
  by (simp_all add: index_backed_def index_exact_def keeps_first_def)

text \<open>A duplicate: the index already names a copy, and naming it is all that happens.\<close>

lemma place_turn_duplicate:
  assumes inv: "placing_inv sha env st0 seen ((summary, records, finished), st)"
    and known: "ci_entries (pl_index st) (hf_content_hash f) = Some e"
  shows "placing_inv sha env st0 (seen @ [f]) (place_turn env f ((summary, records, finished), st))"
proof -
  have backed: "split_on (CHR ''/'') (relative_path e) \<in> hash_paths sha st (hf_content_hash f)"
    using inv known by (auto simp: placing_inv_def index_backed_def)
  have "names_kept_copies sha seen (summary, records, finished) st" using inv by (simp add: placing_inv_def)
  moreover have "keeps_first (seen @ [f]) st0 st" if "keeps_first seen st0 st"
    unfolding keeps_first_def
  proof
    fix h
    show "map_option original_key (ci_entries (pl_index st) h) = (case ci_entries (pl_index st0) h of
        Some e \<Rightarrow> Some (original_key e)
      | None \<Rightarrow> map_option hf_original_key (find (\<lambda>f. hf_content_hash f = h) (seen @ [f])))"
      using that known spec [OF that [unfolded keeps_first_def], of h]
      by (auto simp: find_snoc split: option.splits)
  qed
  ultimately show ?thesis
    using inv known backed
    by (fastforce simp: placing_inv_def place_turn_def check_with_original_key_and_bucket_def counts_add_up_def
        names_kept_copies_def)
qed

lemma keeps_first_snoc:
  assumes "keeps_first seen st0 st" and "ci_entries (pl_index st) (hf_content_hash f) = None"
    and "ci_entries (pl_index st') = (ci_entries (pl_index st))(hf_content_hash f \<mapsto> e)"
    and "original_key e = hf_original_key f"
  shows "keeps_first (seen @ [f]) st0 st'"
  unfolding keeps_first_def
proof
  fix h
  show "map_option original_key (ci_entries (pl_index st') h) = (case ci_entries (pl_index st0) h of
      Some e \<Rightarrow> Some (original_key e)
    | None \<Rightarrow> map_option hf_original_key (find (\<lambda>f. hf_content_hash f = h) (seen @ [f])))"
    using assms spec [OF assms(1) [unfolded keeps_first_def], of h]
    by (cases "h = hf_content_hash f") (auto simp: find_snoc split: option.splits)
qed

lemma index_backed_moved:
  assumes "index_backed sha st" and "fs_get (pl_result st) [ext, final] = None"
    and "CHR ''/'' \<notin> set ext" and "CHR ''/'' \<notin> set final"
    and "ci_entries ix = ci_entries (pl_index st) \<or>
      (\<exists>key b. ci_entries ix = (ci_entries (pl_index st))(sha data \<mapsto>
         \<lparr>relative_path = ext @ ''/'' @ final, original_key = key, source_bucket_alias = b\<rparr>))"
  shows "index_backed sha \<lparr>pl_scratch = fs, pl_result = fs_put [ext, final] data (pl_result st), pl_index = ix\<rparr>"
  using assms by (auto simp: index_backed_def hash_paths_moved)

lemma index_exact_moved:
  assumes "index_exact sha st" and "fs_get (pl_result st) [ext, final] = None"
    and "CHR ''/'' \<notin> set ext" and "CHR ''/'' \<notin> set final" and "ci_entries (pl_index st) (sha data) = None"
    and "ci_entries ix = (ci_entries (pl_index st))(sha data \<mapsto>
         \<lparr>relative_path = ext @ ''/'' @ final, original_key = key, source_bucket_alias = b\<rparr>)"
  shows "index_exact sha \<lparr>pl_scratch = fs, pl_result = fs_put [ext, final] data (pl_result st), pl_index = ix\<rparr>"
  using assms by (auto simp: index_exact_def hash_paths_moved)

lemma place_turn_new:
  assumes inv: "placing_inv sha env st0 seen ((summary, records, finished), st)"
    and new: "ci_entries (pl_index st) (hf_content_hash f) = None" and ready: "ready sha (pl_scratch st) f"
  shows "placing_inv sha env st0 (seen @ [f]) (place_turn env f ((summary, records, finished), st))"
proof -
  obtain st' r where placed: "place_hashed env f st = (st', r)" by fastforce
  have names: "names_kept_copies sha seen (summary, records, finished) st" using inv by (simp add: placing_inv_def)
  show ?thesis
  using placed ready
  proof (cases rule: place_hashed_cases)
    case (failed err)
    then have "\<not> env_succeeds env" by (auto simp: env_succeeds_def)
    then show ?thesis using inv new placed failed names_kept_mono [OF names, of st]
      by (auto simp: placing_inv_def place_turn_def check_with_original_key_and_bucket_def counts_add_up_def)
  next
    case (moved final data ix)
    let ?p = "[hf_extension f, final]"
    have slash: "CHR ''/'' \<notin> set (hf_extension f)" using ready by (simp add: ready_def)
    have paths: "hash_paths sha st' h = (if sha data = h then insert ?p (hash_paths sha st h) else hash_paths sha st h)" for h
      unfolding moved(5) by (rule hash_paths_moved [OF moved(2)])
    have kept: "\<forall>p c. fs_get (pl_result st0) p = Some c \<longrightarrow> fs_get (pl_result st') p = Some c"
      using inv moved by (auto simp: placing_inv_def)
    have still: "index_backed sha st'"
      unfolding moved(5) using inv moved slash
      by (intro index_backed_moved) (auto simp: placing_inv_def split: if_splits)
    have names': "names_kept_copies sha (seen @ [f]) (s', records, finished) st'" for s'
      using names by (rule names_kept_mono) (simp add: paths subset_insertI)
    show ?thesis
    proof (cases "pe_commit env f")
      case True
      then have r: "r = Inr ()" and ix: "ci_entries ix = (ci_entries (pl_index st))(sha data \<mapsto>
          \<lparr>relative_path = hf_extension f @ ''/'' @ final, original_key = hf_original_key f,
           source_bucket_alias = hf_bucket_alias f\<rparr>)" using moved(4,6) by auto
      have "index_exact sha st'" if "index_exact sha st"
        unfolding moved(5) using that moved(1,2,4) slash new ix by (intro index_exact_moved) simp_all
      moreover have "keeps_first (seen @ [f]) st0 st'" if "keeps_first seen st0 st"
        by (rule keeps_first_snoc [OF that new]) (use ix moved(4,5) in simp)+
      moreover have "names_kept_copies sha (seen @ [f]) (s', records, finished @ [(hf_bucket_alias f, hf_original_key f)]) st'"
        for s' using names' [of s'] paths [of "sha data"] moved(4) by (fastforce simp: names_kept_copies_def)
      moreover have "hash_paths sha st' (hf_content_hash g) \<noteq> {}"
        if "g = f \<or> hash_paths sha st (hf_content_hash g) \<noteq> {}" for g
        using that by (auto simp: paths moved(4))
      ultimately show ?thesis
        using inv new placed r kept still
        by (auto simp: placing_inv_def place_turn_def check_with_original_key_and_bucket_def counts_add_up_def)
    next
      case False
      then obtain err where "r = Inl err" using moved(6) by auto
      moreover have "\<not> env_succeeds env" "\<not> (\<forall>f. pe_commit env f)" using False by (auto simp: env_succeeds_def)
      ultimately show ?thesis
        using inv new placed kept still names'
        by (auto simp: placing_inv_def place_turn_def check_with_original_key_and_bucket_def counts_add_up_def)
    qed
  qed
qed

text \<open>The first match in a sorted list is a least one; sorting permutes what is mapped.\<close>

lemma find_first_least:
  assumes "find P (sort_key k xs) = Some g" and "x \<in> set xs" and "P x"
  shows "k g \<le> k x"
proof -
  obtain i where i: "i < length (sort_key k xs)" "g = sort_key k xs ! i" "\<forall>j<i. \<not> P (sort_key k xs ! j)"
    using assms(1) by (auto simp: find_Some_iff)
  obtain j where j: "j < length (sort_key k xs)" "x = sort_key k xs ! j"
    using assms(2) by (metis in_set_conv_nth set_sort)
  then have "i \<le> j" using i(3) assms(3) by (meson not_le)
  then show ?thesis
    using i(2) j sorted_nth_mono [OF sorted_sort_key [of k xs], of i j] by simp
qed

lemma distinct_map_sort_key: "distinct (map f (sort_key k xs)) = distinct (map f xs)"
  by (metis distinct_map distinct_sort set_sort)

text \<open>The rest of the queue stays ready: a turn only removes its own raw file.\<close>

lemma place_turn_scratch:
  "q \<noteq> hf_scratch_path f \<Longrightarrow> place_turn env f (acc, st) = (acc', st') \<Longrightarrow>
     fs_get (pl_scratch st') q = fs_get (pl_scratch st) q"
  by (cases acc) (auto simp: place_turn_def place_hashed_def commit_with_key_and_bucket_def Let_def
      split: option.splits sum.splits prod.splits if_splits)

lemma placing_loop:
  "placing_inv sha env st0 seen acc \<Longrightarrow> \<forall>f \<in> set files. ready sha (pl_scratch (snd acc)) f \<Longrightarrow>
     distinct (map hf_scratch_path files) \<Longrightarrow> placing_inv sha env st0 (seen @ files) (fold (place_turn env) files acc)"
proof (induction files arbitrary: seen acc)
  case (Cons f files)
  obtain summary records finished st where acc: "acc = ((summary, records, finished), st)"
    by (metis prod.exhaust)
  let ?acc = "place_turn env f acc"
  have "placing_inv sha env st0 (seen @ [f]) ?acc"
    using Cons.prems(1,2) place_turn_duplicate place_turn_new
    by (cases "ci_entries (pl_index st) (hf_content_hash f)") (auto simp: acc)
  moreover have "\<forall>g \<in> set files. ready sha (pl_scratch (snd ?acc)) g"
  proof
    fix g
    assume g: "g \<in> set files"
    then have "hf_scratch_path g \<noteq> hf_scratch_path f" using Cons.prems(3) by (auto simp: image_iff)
    then have "fs_get (pl_scratch (snd ?acc)) (hf_scratch_path g) = fs_get (pl_scratch (snd acc)) (hf_scratch_path g)"
      using place_turn_scratch [of "hf_scratch_path g" f env "fst acc" "snd acc"] by (metis prod.collapse)
    then show "ready sha (pl_scratch (snd ?acc)) g" using Cons.prems(2) g by (simp add: ready_def)
  qed
  ultimately show ?case using Cons.IH [of "seen @ [f]" ?acc] Cons.prems(3) by simp
qed simp

lemma checkpoint_appends:
  assumes "list_all processed_ok rows"
  shows "fold (\<lambda>row c. fst (append_processed (Inr ()) row c)) rows contents =
      (if rows = [] then contents
       else Some ((case contents of None \<Rightarrow> [] | Some s \<Rightarrow> s) @ write_rows format_processed rows))"
  using assms by (induction rows arbitrary: contents) (auto simp: append_processed_def split: option.splits)

text \<open>What the summary table should say of an extension, given what was counted before.\<close>

definition tally :: "deduplicate_task list \<Rightarrow> string \<Rightarrow> nat \<times> nat" where
  "tally tasks ext = (let ts = filter (\<lambda>t. extension_of (dt_key t) = ext) tasks in (length ts, sum_list (map dt_size ts)))"

definition add_tally :: "(nat \<times> nat) option \<Rightarrow> nat \<times> nat \<Rightarrow> (nat \<times> nat) option" where
  "add_tally before t = (case before of
     None \<Rightarrow> if fst t = 0 then None else Some t | Some (n, bytes) \<Rightarrow> Some (n + fst t, bytes + snd t))"

lemma tally_simps [simp]:
  "tally [] ext = (0, 0)"
  "tally (t # ts) ext = (if extension_of (dt_key t) = ext then (fst (tally ts ext) + 1, snd (tally ts ext) + dt_size t) else tally ts ext)"
  "tally (ts @ us) ext = (fst (tally ts ext) + fst (tally us ext), snd (tally ts ext) + snd (tally us ext))"
  by (simp_all add: tally_def Let_def)

lemma tally_none: "fst (tally ts ext) = 0 \<Longrightarrow> snd (tally ts ext) = 0"
  by (simp add: tally_def Let_def)

lemma add_tally_twice:
  "(fst t = 0 \<Longrightarrow> snd t = 0) \<Longrightarrow> (fst u = 0 \<Longrightarrow> snd u = 0) \<Longrightarrow>
     add_tally (add_tally before t) u = add_tally before (fst t + fst u, snd t + snd u)"
  by (cases t; cases u) (auto simp: add_tally_def split: option.splits)

lemma pending_entries_tally:
  "bt_ok m \<Longrightarrow> pending_entries finished bucket entries m = (tasks, m') \<Longrightarrow>
     bt_ok m' \<and> (\<forall>ext. bt_get m' ext = add_tally (bt_get m ext) (tally tasks ext))"
proof (induction finished bucket entries m arbitrary: tasks rule: pending_entries.induct)
  case (1 finished bucket m)
  then show ?case by (auto simp: add_tally_def split: option.splits)
next
  case (2 finished bucket key bytes entries m)
  show ?case
  proof (cases "is_checkpointed finished bucket key")
    case True
    then show ?thesis using 2 by simp
  next
    case False
    let ?m = "count_extension bytes (extension_of key) m"
    obtain ts where ts: "pending_entries finished bucket entries ?m = (ts, m')"
      "tasks = \<lparr>dt_bucket_alias = bucket, dt_key = key, dt_size = bytes\<rparr> # ts"
      using "2.prems"(2) False by (cases "pending_entries finished bucket entries ?m") simp
    have ok: "bt_ok ?m" using "2.prems"(1) by (simp add: count_extension_def split: option.splits)
    have "bt_ok m' \<and> (\<forall>ext. bt_get m' ext = add_tally (bt_get ?m ext) (tally ts ext))"
      using "2.IH"(2) [OF False ok ts(1)] .
    then show ?thesis using "2.prems"(1) ts(2) tally_none
      by (auto simp: count_extension_def add_tally_def split: option.splits)
  qed
qed

lemma pending_buckets_tally:
  "bt_ok m \<Longrightarrow> pending_buckets lsjson finished buckets m = Inr (tasks, m') \<Longrightarrow>
     bt_ok m' \<and> (\<forall>ext. bt_get m' ext = add_tally (bt_get m ext) (tally tasks ext))"
proof (induction lsjson finished buckets m arbitrary: tasks rule: pending_buckets.induct)
  case (1 lsjson finished m)
  then show ?case by (auto simp: add_tally_def split: option.splits)
next
  case (2 lsjson finished b bs m)
  obtain entries where entries: "lsjson (address (bucket_root (bc_alias b))) = Inr entries"
    using "2.prems"(2) by (auto split: sum.splits)
  obtain ts m1 where ts: "pending_entries finished (bc_alias b) entries m = (ts, m1)" by fastforce
  obtain us where us: "pending_buckets lsjson finished bs m1 = Inr (us, m')" "tasks = ts @ us"
    using "2.prems"(2) entries ts by (auto simp: bindE_Inr_iff)
  have 1: "bt_ok m1 \<and> (\<forall>ext. bt_get m1 ext = add_tally (bt_get m ext) (tally ts ext))"
    using pending_entries_tally [OF "2.prems"(1) ts] .
  then have "bt_ok m' \<and> (\<forall>ext. bt_get m' ext = add_tally (bt_get m1 ext) (tally us ext))"
    using "2.IH" [OF entries ts [symmetric] refl _ us(1)] by blast
  then show ?case using 1 us(2) add_tally_twice [OF tally_none tally_none] by simp
qed

text \<open>More rows in the checkpoint only take their own objects off the list.\<close>

lemma pending_buckets_filter:
  assumes "\<forall>row \<in> rows. fst row \<noteq> []"
  shows "pending_buckets lsjson finished buckets m = Inr (tasks, m') \<Longrightarrow>
    \<exists>k'. pending_buckets lsjson (finished \<union> rows) buckets k =
      Inr (filter (\<lambda>t. (dt_bucket_alias t, dt_key t) \<notin> rows) tasks, k')"
proof (induction lsjson finished buckets m arbitrary: tasks k rule: pending_buckets.induct)
  case (2 lsjson finished b bs m)
  obtain entries where entries: "lsjson (address (bucket_root (bc_alias b))) = Inr entries"
    using "2.prems" by (auto split: sum.splits)
  obtain ts m1 where ts: "pending_entries finished (bc_alias b) entries m = (ts, m1)" by fastforce
  obtain us where us: "pending_buckets lsjson finished bs m1 = Inr (us, m')" "tasks = ts @ us"
    using "2.prems" entries ts by (auto simp: bindE_Inr_iff)
  obtain vs k1 where vs: "pending_entries (finished \<union> rows) (bc_alias b) entries k = (vs, k1)" by fastforce
  have "is_checkpointed (finished \<union> rows) (bc_alias b) key \<longleftrightarrow>
      is_checkpointed finished (bc_alias b) key \<or> (bc_alias b, key) \<in> rows" for key
    using assms by (auto simp: is_checkpointed_def)
  then have "vs = filter (\<lambda>t. (dt_bucket_alias t, dt_key t) \<notin> rows) ts"
    using pending_entries_tasks [of finished "bc_alias b" entries m]
      pending_entries_tasks [of "finished \<union> rows" "bc_alias b" entries k] ts vs
    by (simp add: filter_map comp_def case_prod_unfold conj_commute)
  then show ?case using "2.IH" [OF entries ts [symmetric] refl us(1), of k1] entries vs us(2) by auto
qed simp

lemma placement_order_props:
  "set (placement_order files) = set files" "length (placement_order files) = length files"
  "distinct (map hf_scratch_path (placement_order files)) = distinct (map hf_scratch_path files)"
  by (simp_all add: placement_order_def distinct_map_sort_key)

lemma placing_whole:
  assumes "\<forall>f \<in> set files. ready sha (pl_scratch st) f" and "distinct (map hf_scratch_path files)"
    and "index_backed sha st" and "place_and_report env files st = ((summary, records, finished), st')"
  shows "placing_inv sha env st (placement_order files) ((summary, records, finished), st')"
proof -
  have "placing_inv sha env st [] (no_placements, st)"
    using assms(3) by (auto simp: placing_inv_def no_placements_def counts_add_up_def names_kept_copies_def
        keeps_first_def split: option.splits)
  then show ?thesis
    using placing_loop [of sha env st "[]" "(no_placements, st)" "placement_order files"] assms(1,2,4)
    by (simp add: place_and_report_def placement_order_props)
qed

lemma place_backed:
  assumes "\<forall>f \<in> set files. ready sha (pl_scratch st) f" and "distinct (map hf_scratch_path files)"
    and "index_backed sha st" and "place_and_report env files st = ((summary, records, finished), st')"
  shows "index_backed sha st'"
  using placing_whole [OF assms] by (simp add: placing_inv_def)

lemma place_all:
  assumes "\<forall>f \<in> set files. ready sha (pl_scratch st) f" and "distinct (map hf_scratch_path files)"
    and "index_backed sha st" and "place_and_report env files st = ((summary, records, finished), st')"
  shows "\<forall>(b, k) \<in> set finished. \<exists>f \<in> set files. hf_bucket_alias f = b \<and> hf_original_key f = k \<and>
      hash_paths sha st' (hf_content_hash f) \<noteq> {}"
    "ps_failed summary = 0 \<longrightarrow> (\<forall>f \<in> set files. hash_paths sha st' (hf_content_hash f) \<noteq> {})"
  using placing_whole [OF assms] by (auto simp: placing_inv_def names_kept_copies_def placement_order_props)

section \<open>Properties\<close>

text \<open>Which of two copies is preferred: dated before undated, then the key that is less byte by byte.\<close>

definition goes_before :: "hashed_file \<Rightarrow> hashed_file \<Rightarrow> bool" where
  "goes_before g f \<longleftrightarrow>
     (if is_undated_key (hf_original_key g) = is_undated_key (hf_original_key f)
      then hf_original_key g \<le> hf_original_key f else is_undated_key (hf_original_key f))"


text \<open>Resuming: once rows for some objects are appended to \<open>.processed\<close>, the next run lists exactly
  the objects it would have listed before, less those; and the summary table it shows beforehand counts every
  pending object and every pending byte under its extension, with no empty or missing line.\<close>

lemma gather_resumes:
  assumes "gather_deduplicate lsjson (Inr contents) buckets = Inr (tasks, sums)"
    and "list_all processed_ok rows" and "\<forall>row \<in> set rows. fst row \<noteq> []"
    and "terminated (case contents of None \<Rightarrow> [] | Some s \<Rightarrow> s)"
  shows "(\<exists>sums'. gather_deduplicate lsjson
      (Inr (fold (\<lambda>row c. fst (append_processed (Inr ()) row c)) rows contents)) buckets =
        Inr (filter (\<lambda>t. (dt_bucket_alias t, dt_key t) \<notin> set rows) tasks, sums')) \<and>
    (\<forall>s \<in> set sums. 0 < ty_count s \<and> (ty_count s, ty_total_bytes s) = tally tasks (ty_extension s)) \<and>
    (\<forall>t \<in> set tasks. extension_of (dt_key t) \<in> ty_extension ` set sums) \<and> distinct (map ty_extension sums)"
proof -
  let ?s = "case contents of None \<Rightarrow> [] | Some s \<Rightarrow> s"
  let ?old = "set (read_rows processed_row ?s)"
  obtain m where m: "pending_buckets lsjson ?old buckets [] = Inr (tasks, m)"
    and sums: "sums = map (\<lambda>(ext, n, bytes). \<lparr>ty_extension = ext, ty_count = n, ty_total_bytes = bytes\<rparr>) m"
    using assms(1) by (auto simp: gather_deduplicate_def load_processed_def bindE_Inr_iff)
  have ok: "bt_ok m" and get: "\<And>ext. bt_get m ext = add_tally None (tally tasks ext)"
    using pending_buckets_tally [OF _ m] by simp_all
  have get_iff: "(ext, n, bytes) \<in> set m \<longleftrightarrow> 0 < n \<and> (n, bytes) = tally tasks ext" for ext n bytes
    using bt_get_iff [OF ok, of ext "(n, bytes)"] get [of ext] by (cases "tally tasks ext") (auto simp: add_tally_def split: if_splits)
  have "read_rows processed_row (?s @ write_rows format_processed rows) = read_rows processed_row ?s @ rows"
    using assms(2,4) by (rule processed_format.append_terminated_rows)
  then have "load_processed (Inr (fold (\<lambda>row c. fst (append_processed (Inr ()) row c)) rows contents)) =
      Inr (?old \<union> set rows)"
    using assms(2) by (simp add: load_processed_def checkpoint_appends)
  moreover obtain m' where "pending_buckets lsjson (?old \<union> set rows) buckets [] =
      Inr (filter (\<lambda>t. (dt_bucket_alias t, dt_key t) \<notin> set rows) tasks, m')"
    using pending_buckets_filter [OF assms(3) m, of "[]"] by blast
  moreover have "\<forall>t \<in> set tasks. extension_of (dt_key t) \<in> ty_extension ` set sums"
  proof
    fix t
    assume "t \<in> set tasks"
    then have "0 < fst (tally tasks (extension_of (dt_key t)))"
      by (auto simp: tally_def Let_def filter_empty_conv length_greater_0_conv)
    then have "(extension_of (dt_key t), tally tasks (extension_of (dt_key t))) \<in> set m"
      using get_iff [of "extension_of (dt_key t)" "fst (tally tasks (extension_of (dt_key t)))"
          "snd (tally tasks (extension_of (dt_key t)))"] by simp
    then have "extension_of (dt_key t) \<in> fst ` set m" by (rule rev_image_eqI) simp
    then show "extension_of (dt_key t) \<in> ty_extension ` set sums"
      by (simp add: sums image_image case_prod_unfold)
  qed
  moreover have "map ty_extension sums = map fst m" by (auto simp: sums)
  then have "distinct (map ty_extension sums)" using bt_ok_distinct [OF ok] by simp
  moreover have "\<forall>s \<in> set sums. 0 < ty_count s \<and> (ty_count s, ty_total_bytes s) = tally tasks (ty_extension s)"
    using get_iff by (auto simp: sums)
  ultimately show ?thesis by (simp add: gather_deduplicate_def)
qed

text \<open>A run over one bucket with three objects, two of them equal.\<close>

definition demo_lsjson :: "string \<Rightarrow> string + (string \<times> nat) list" where
  "demo_lsjson _ = Inr [(''a/x.JPG'', 3), (''b/y.jpg'', 3), (''README'', 1)]"

definition demo_bucket :: bucket_config where
  "demo_bucket = \<lparr>bc_alias = ''src'', bc_endpoint = [], bc_bucket = [], bc_access_key_id = [], bc_secret_key = []\<rparr>"

lemma gather_resumes_witness:
  "\<exists>sums sums'. gather_deduplicate demo_lsjson (Inr None) [demo_bucket] =
      Inr ([\<lparr>dt_bucket_alias = ''src'', dt_key = ''a/x.JPG'', dt_size = 3\<rparr>,
            \<lparr>dt_bucket_alias = ''src'', dt_key = ''b/y.jpg'', dt_size = 3\<rparr>,
            \<lparr>dt_bucket_alias = ''src'', dt_key = ''README'', dt_size = 1\<rparr>], sums) \<and>
    gather_deduplicate demo_lsjson (Inr (Some (''src'' @ [TAB] @ ''b/y.jpg'' @ [NL]))) [demo_bucket] =
      Inr ([\<lparr>dt_bucket_alias = ''src'', dt_key = ''a/x.JPG'', dt_size = 3\<rparr>,
            \<lparr>dt_bucket_alias = ''src'', dt_key = ''README'', dt_size = 1\<rparr>], sums')"
proof -
  let ?rows = "[(''src'', ''b/y.jpg'')]"
  let ?sums = "[\<lparr>ty_extension = ''(none)'', ty_count = 1, ty_total_bytes = 1\<rparr>,
    \<lparr>ty_extension = ''jpg'', ty_count = 2, ty_total_bytes = 6\<rparr>]"
  have run: "gather_deduplicate demo_lsjson (Inr None) [demo_bucket] =
      Inr ([\<lparr>dt_bucket_alias = ''src'', dt_key = ''a/x.JPG'', dt_size = 3\<rparr>,
            \<lparr>dt_bucket_alias = ''src'', dt_key = ''b/y.jpg'', dt_size = 3\<rparr>,
            \<lparr>dt_bucket_alias = ''src'', dt_key = ''README'', dt_size = 1\<rparr>], ?sums)"
    by code_simp
  have rows: "list_all processed_ok ?rows" by code_simp
  have "fold (\<lambda>row c. fst (append_processed (Inr ()) row c)) ?rows None =
      Some (''src'' @ [TAB] @ ''b/y.jpg'' @ [NL])"
    by (simp add: append_processed_def format_processed_def)
  then show ?thesis
    using run gather_resumes [OF run rows] by (auto simp: terminated_def)
qed

definition demo_files :: "hashed_file list" where
  "demo_files =
     [\<lparr>hf_original_key = ''0000-00-00-x.jpg'', hf_bucket_alias = ''src'', hf_scratch_path = [''1.jpg''],
       hf_extension = ''jpg'', hf_content_hash = ''data''\<rparr>,
      \<lparr>hf_original_key = ''2020-01-02-x.jpg'', hf_bucket_alias = ''src'', hf_scratch_path = [''2.jpg''],
       hf_extension = ''jpg'', hf_content_hash = ''data''\<rparr>]"

definition demo_placing :: placing where
  "demo_placing = \<lparr>pl_scratch = [([''1.jpg''], ''data''), ([''2.jpg''], ''data'')], pl_result = [], pl_index = load_index None\<rparr>"

definition demo_placing_env :: placing_env where
  "demo_placing_env = \<lparr>pe_mkdir = \<lambda>_. Inr (), pe_rename = \<lambda>_. Inr (), pe_commit = \<lambda>_. True\<rparr>"


end
