(* ===== verification/DedupPool.thy ===== *)
theory DedupPool
  imports Dedup "HOL-Library.Multiset"
begin

text \<open>
  \<open>deduplicate/worker.rs\<close>: one item of the work queue (a bucket object to download, or a zip member on
  disk), the concurrent workers as a step relation over their shared state, and the end of the run:
  placement, report, checkpoint and upload. rclone, the file system, the zip reader and the hash are an
  environment; \<open>spawn_blocking\<close>'s join errors are one of its answers. A worker's turn is taken in two
  steps, so that the items in flight, and the order they finish in, are arbitrary.
\<close>

section \<open>One item\<close>

record queue_item =
  qi_source_key :: "string option"
  qi_display_key :: string
  qi_path :: "path option"
  qi_depth :: nat
  qi_size :: nat
  qi_root_key :: string
  qi_bucket_alias :: string

record dedup_failures =
  df_download :: nat
  df_archive :: nat
  df_hash :: nat
  df_placement :: nat

datatype failure_category = DownloadFailed | ArchiveFailed | HashFailed

datatype item_outcome =
    ZipExpanded string nat "queue_item list" nat
  | Hashed nat hashed_file
  | SkippedAppleDouble nat
  | ArchiveOpenFailed string string
  | ItemFailed failure_category

text \<open>The answers an item gets: the disk space seen before a download and before an expansion, creating
  the directory, what \<open>rclone copyto\<close> fetches from an address, how reading an archive's bytes goes, creating
  a member's file, reading a file back to hash it, and how the blocking task ends.\<close>

record item_env =
  ie_free_space :: "queue_item \<Rightarrow> nat option"
  ie_mkdir :: "queue_item \<Rightarrow> string + unit"
  ie_copyto :: "string \<Rightarrow> string + string"
  ie_free_space_zip :: "queue_item \<Rightarrow> nat option"
  ie_open :: "queue_item \<Rightarrow> string + unit"
  ie_unzip :: "string \<Rightarrow> string + (string + zip_entry) list"
  ie_create :: "path \<Rightarrow> string + unit"
  ie_read :: "queue_item \<Rightarrow> string + unit"
  ie_sha256 :: "string \<Rightarrow> string"
  ie_join :: "queue_item \<Rightarrow> string + unit"

type_synonym dedup_buckets = "(bucket_config \<times> string) list"

definition bucket_of :: "dedup_buckets \<Rightarrow> string \<Rightarrow> (bucket_config \<times> string) option" where
  "bucket_of buckets = map_of (rev (map (\<lambda>(b, secret). (bc_alias b, (b, secret))) buckets))"

definition next_scratch_path :: "string + unit \<Rightarrow> string \<Rightarrow> nat \<Rightarrow> nat \<times> path result" where
  "next_scratch_path mkdir ext counter = (case mkdir of
     Inl err \<Rightarrow> (counter, Inl (Err err))
   | Inr _ \<Rightarrow> (counter + 1, Inr [pad_left 12 (dec counter) @ ''.'' @ ext]))"

definition source_address :: "bucket_config \<Rightarrow> queue_item \<Rightarrow> string" where
  "source_address b item = address (bucket_root (bc_alias b)) @
     (case qi_source_key item of Some key \<Rightarrow> key | None \<Rightarrow> qi_display_key item)"

text \<open>The file on disk, downloaded when it is not there yet.\<close>

definition fetch_item :: "item_env \<Rightarrow> dedup_buckets \<Rightarrow> queue_item \<Rightarrow> nat \<times> scratch \<Rightarrow>
    (nat \<times> scratch) \<times> path option" where
  "fetch_item env buckets item = (\<lambda>(counter, fs). case qi_path item of
     Some p \<Rightarrow> ((counter, fs), Some p)
   | None \<Rightarrow> (case bucket_of buckets (qi_bucket_alias item) of
       None \<Rightarrow> ((counter, fs), None)
     | Some (b, _) \<Rightarrow> (case check_disk_space (ie_free_space env item) (qi_size item) of
         Inl _ \<Rightarrow> ((counter, fs), None)
       | Inr _ \<Rightarrow> (case next_scratch_path (ie_mkdir env item) (extension_of (qi_display_key item)) counter of
           (counter', Inl _) \<Rightarrow> ((counter', fs), None)
         | (counter', Inr p) \<Rightarrow> (case ie_copyto env (source_address b item) of
             Inl _ \<Rightarrow> ((counter', fs_remove p fs), None)
           | Inr data \<Rightarrow> ((counter', fs_put p data fs), Some p))))))"

definition member_item :: "queue_item \<Rightarrow> extracted_member \<Rightarrow> queue_item" where
  "member_item item m = \<lparr>qi_source_key = None, qi_display_key = qi_display_key item @ ''!'' @ em_name m,
     qi_path = Some (em_path m), qi_depth = qi_depth item + 1, qi_size = em_size m,
     qi_root_key = qi_root_key item, qi_bucket_alias = qi_bucket_alias item\<rparr>"

definition expand_env_of :: "item_env \<Rightarrow> queue_item \<Rightarrow> string \<Rightarrow> expand_env" where
  "expand_env_of env item data = \<lparr>xe_mkdir = ie_mkdir env item,
     xe_open = (case ie_open env item of Inl err \<Rightarrow> Inl err | Inr _ \<Rightarrow> Inr (Some (length data))),
     xe_archive = ie_unzip env data, xe_create = ie_create env\<rparr>"

definition expand_item :: "item_env \<Rightarrow> queue_item \<Rightarrow> path \<Rightarrow> nat \<times> scratch \<Rightarrow> (nat \<times> scratch) \<times> item_outcome" where
  "expand_item env item p = (\<lambda>(counter, fs).
     if qi_depth item \<ge> MAX_ZIP_DEPTH then ((counter, fs_remove p fs), ItemFailed ArchiveFailed)
     else case check_disk_space (ie_free_space_zip env item) 0 of
       Inl _ \<Rightarrow> ((counter, fs_remove p fs), ItemFailed ArchiveFailed)
     | Inr _ \<Rightarrow>
         (case expand_to_dir (expand_env_of env item (case fs_get fs p of Some data \<Rightarrow> data | None \<Rightarrow> [])) counter fs of
            ((counter', fs'), r) \<Rightarrow> ((counter', fs_remove p fs'),
              (case ie_join env item of
                 Inl _ \<Rightarrow> ItemFailed ArchiveFailed
               | Inr _ \<Rightarrow> (case r of
                   Inr (members, dropped) \<Rightarrow>
                     ZipExpanded (qi_display_key item) (qi_depth item) (map (member_item item) members) dropped
                 | Inl (Err err) \<Rightarrow> ArchiveOpenFailed (qi_display_key item) err
                 | Inl Panic \<Rightarrow> ItemFailed ArchiveFailed)))))"

definition hash_item :: "item_env \<Rightarrow> queue_item \<Rightarrow> path \<Rightarrow> nat \<times> scratch \<Rightarrow> (nat \<times> scratch) \<times> item_outcome" where
  "hash_item env item p = (\<lambda>(counter, fs).
     case (ie_join env item, ie_read env item, fs_get fs p) of
       (Inr _, Inr _, Some data) \<Rightarrow> ((counter, fs), Hashed (qi_depth item)
         \<lparr>hf_original_key = qi_display_key item, hf_bucket_alias = qi_bucket_alias item, hf_scratch_path = p,
          hf_extension = extension_of (qi_display_key item), hf_content_hash = ie_sha256 env data\<rparr>)
     | _ \<Rightarrow> ((counter, fs_remove p fs), ItemFailed HashFailed))"

definition process_item :: "item_env \<Rightarrow> dedup_buckets \<Rightarrow> queue_item \<Rightarrow> nat \<times> scratch \<Rightarrow>
    (nat \<times> scratch) \<times> item_outcome" where
  "process_item env buckets item disk =
     (if is_apple_double_basename (qi_display_key item) then
        ((case qi_path item of Some p \<Rightarrow> apsnd (fs_remove p) disk | None \<Rightarrow> disk), SkippedAppleDouble (qi_depth item))
      else case fetch_item env buckets item disk of
        (disk', None) \<Rightarrow> (disk', ItemFailed DownloadFailed)
      | (disk', Some p) \<Rightarrow>
          if is_zip_key (qi_display_key item) then expand_item env item p disk' else hash_item env item p disk')"

section \<open>The workers\<close>

type_synonym root = "string \<times> string"

record dedup_pool =
  dp_queue :: "queue_item list"
  dp_in_flight :: "queue_item list"
  dp_counter :: nat
  dp_scratch :: scratch
  dp_hashed_files :: "hashed_file list"
  dp_finished_root_keys :: "root list"
  dp_failures :: dedup_failures
  dp_dropped_members :: nat
  dp_tainted_roots :: "root set"
  dp_apple_double :: "root list"
  dp_archive_failures :: "archive_failure list"

definition count_failure :: "failure_category \<Rightarrow> dedup_failures \<Rightarrow> dedup_failures" where
  "count_failure c b = (case c of
     DownloadFailed \<Rightarrow> b\<lparr>df_download := df_download b + 1\<rparr>
   | ArchiveFailed \<Rightarrow> b\<lparr>df_archive := df_archive b + 1\<rparr>
   | HashFailed \<Rightarrow> b\<lparr>df_hash := df_hash b + 1\<rparr>)"

definition record_outcome :: "string \<Rightarrow> string \<Rightarrow> item_outcome \<Rightarrow> dedup_pool \<Rightarrow> dedup_pool" where
  "record_outcome bucket root_key outcome s = (case outcome of
     ZipExpanded key depth members dropped \<Rightarrow>
       (let s1 = s\<lparr>dp_queue := dp_queue s @ members\<rparr>;
            s2 = (if depth = 0 then s1\<lparr>dp_finished_root_keys := dp_finished_root_keys s1 @ [(bucket, key)]\<rparr> else s1)
        in if dropped > 0 then
             s2\<lparr>dp_failures := (dp_failures s2)\<lparr>df_archive := df_archive (dp_failures s2) + dropped\<rparr>,
                dp_dropped_members := dp_dropped_members s2 + dropped,
                dp_tainted_roots := insert (bucket, root_key) (dp_tainted_roots s2)\<rparr>
           else s2)
   | Hashed depth file \<Rightarrow>
       (let s1 = (if depth = 0
                  then s\<lparr>dp_finished_root_keys := dp_finished_root_keys s @ [(bucket, hf_original_key file)]\<rparr> else s)
        in s1\<lparr>dp_hashed_files := dp_hashed_files s1 @ [file]\<rparr>)
   | SkippedAppleDouble depth \<Rightarrow>
       (if depth = 0 then s\<lparr>dp_apple_double := dp_apple_double s @ [(bucket, root_key)]\<rparr> else s)
   | ArchiveOpenFailed key error \<Rightarrow>
       s\<lparr>dp_tainted_roots := insert (bucket, root_key) (dp_tainted_roots s),
         dp_failures := count_failure ArchiveFailed (dp_failures s),
         dp_archive_failures := dp_archive_failures s @ [\<lparr>af_key = key, af_error = error\<rparr>]\<rparr>
   | ItemFailed category \<Rightarrow>
       s\<lparr>dp_tainted_roots := insert (bucket, root_key) (dp_tainted_roots s),
         dp_failures := count_failure category (dp_failures s)\<rparr>)"

definition dedup_worker_count :: "nat \<Rightarrow> nat" where
  "dedup_worker_count concurrency = max concurrency 1"

definition finish_item :: "item_env \<Rightarrow> dedup_buckets \<Rightarrow> queue_item \<Rightarrow> dedup_pool \<Rightarrow> dedup_pool" where
  "finish_item env buckets item s =
     (let ((counter, fs), outcome) = process_item env buckets item (dp_counter s, dp_scratch s)
      in record_outcome (qi_bucket_alias item) (qi_root_key item) outcome
           (s\<lparr>dp_in_flight := remove1 item (dp_in_flight s), dp_counter := counter, dp_scratch := fs\<rparr>))"

text \<open>A worker takes the next item, if fewer are in flight than there are workers; or finishes one.\<close>

inductive dedup_step :: "item_env \<Rightarrow> dedup_buckets \<Rightarrow> nat \<Rightarrow> dedup_pool \<Rightarrow> dedup_pool \<Rightarrow> bool"
  for env buckets concurrency where
  take_item: "dp_queue s = item # rest \<Longrightarrow> length (dp_in_flight s) < dedup_worker_count concurrency \<Longrightarrow>
     dedup_step env buckets concurrency s (s\<lparr>dp_queue := rest, dp_in_flight := item # dp_in_flight s\<rparr>)"
| end_item: "item \<in> set (dp_in_flight s) \<Longrightarrow>
     dedup_step env buckets concurrency s (finish_item env buckets item s)"

inductive_cases dedup_stepE: "dedup_step env buckets concurrency s s'"

abbreviation dedup_run :: "item_env \<Rightarrow> dedup_buckets \<Rightarrow> nat \<Rightarrow> dedup_pool \<Rightarrow> dedup_pool \<Rightarrow> bool" where
  "dedup_run env buckets concurrency \<equiv> (dedup_step env buckets concurrency)\<^sup>*\<^sup>*"

definition root_item :: "deduplicate_task \<Rightarrow> queue_item" where
  "root_item t = \<lparr>qi_source_key = Some (dt_key t), qi_display_key = dt_key t, qi_path = None, qi_depth = 0,
     qi_size = dt_size t, qi_root_key = dt_key t, qi_bucket_alias = dt_bucket_alias t\<rparr>"

definition dedup_start :: "deduplicate_task list \<Rightarrow> scratch \<Rightarrow> dedup_pool" where
  "dedup_start tasks fs = \<lparr>dp_queue = map root_item tasks, dp_in_flight = [], dp_counter = 0, dp_scratch = fs,
     dp_hashed_files = [], dp_finished_root_keys = [],
     dp_failures = \<lparr>df_download = 0, df_archive = 0, df_hash = 0, df_placement = 0\<rparr>, dp_dropped_members = 0,
     dp_tainted_roots = {}, dp_apple_double = [], dp_archive_failures = []\<rparr>"

definition dedup_done :: "dedup_pool \<Rightarrow> bool" where
  "dedup_done s \<longleftrightarrow> dp_queue s = [] \<and> dp_in_flight s = []"

section \<open>The end of the run\<close>

record deduplicate_summary =
  ds_processed :: nat
  ds_failed :: nat
  ds_failure_breakdown :: dedup_failures
  ds_duplicates_skipped :: nat
  ds_dropped_members :: nat
  ds_skipped_apple_double :: nat
  ds_archive_failures :: "archive_failure list"
  ds_uploaded :: nat
  ds_upload_failed :: nat

text \<open>Appending the rows, stopping at the first that cannot be written.\<close>

fun append_rows :: "(root \<Rightarrow> string + unit) \<Rightarrow> root list \<Rightarrow> string option \<Rightarrow> string option \<times> unit result" where
  "append_rows write [] contents = (contents, Inr ())"
| "append_rows write (row # rows) contents = (case append_processed (write row) row contents of
     (contents', Inl err) \<Rightarrow> (contents', Inl err)
   | (contents', Inr _) \<Rightarrow> append_rows write rows contents')"

definition retained_roots :: "dedup_pool \<Rightarrow> root list \<Rightarrow> root list" where
  "retained_roots s placed_keys = filter (\<lambda>(bucket, key).
     (bucket, key) \<notin> dp_tainted_roots s \<and> ((bucket, key) \<in> set placed_keys \<or> is_zip_key key))
     (dp_finished_root_keys s)"

record end_env =
  ee_placing :: placing_env
  ee_report :: "string + unit"
  ee_append :: "root \<Rightarrow> string + unit"
  ee_upload :: "string \<Rightarrow> string \<Rightarrow> string + nat \<times> nat"

definition upload_result :: "end_env \<Rightarrow> string \<Rightarrow> string \<Rightarrow> (nat \<times> nat) result" where
  "upload_result env remote_alias local_output =
     (case ee_upload env (path_join local_output ''result'') (address (bucket_root remote_alias)) of
        Inl err \<Rightarrow> Inl (Err err) | Inr r \<Rightarrow> Inr r)"

definition dedup_summary :: "dedup_pool \<Rightarrow> placement_summary \<Rightarrow> deduplicate_summary" where
  "dedup_summary s placed = \<lparr>ds_processed = ps_placed placed,
     ds_failed = df_download (dp_failures s) + df_archive (dp_failures s) + df_hash (dp_failures s) + ps_failed placed,
     ds_failure_breakdown = (dp_failures s)\<lparr>df_placement := ps_failed placed\<rparr>,
     ds_duplicates_skipped = ps_duplicates_skipped placed, ds_dropped_members = dp_dropped_members s,
     ds_skipped_apple_double = length (dp_apple_double s), ds_archive_failures = dp_archive_failures s,
     ds_uploaded = 0, ds_upload_failed = 0\<rparr>"

definition placement_of :: "end_env \<Rightarrow> scratch \<Rightarrow> content_index \<Rightarrow> dedup_pool \<Rightarrow> placed \<times> placing" where
  "placement_of env result_dir index s = place_and_report (ee_placing env) (dp_hashed_files s)
     \<lparr>pl_scratch = dp_scratch s, pl_result = result_dir, pl_index = index\<rparr>"

text \<open>From the pool's final state: the result and index, the checkpoint file, and the summary or the error
  that ends the run.\<close>

definition finish_run :: "end_env \<Rightarrow> string option \<Rightarrow> string \<Rightarrow> scratch \<Rightarrow> content_index \<Rightarrow> string option \<Rightarrow> dedup_pool \<Rightarrow>
    placing \<times> string option \<times> deduplicate_summary result" where
  "finish_run env remote local_output result_dir index processed s =
     (case placement_of env result_dir index s of
        ((summary, records, placed_keys), st) \<Rightarrow>
          (case write_report (ee_report env) records (dp_archive_failures s) of
             Inl err \<Rightarrow> (st, processed, Inl err)
           | Inr _ \<Rightarrow>
               (case append_rows (ee_append env) (retained_roots s placed_keys @ dp_apple_double s) processed of
                  (processed', Inl err) \<Rightarrow> (st, processed', Inl err)
                | (processed', Inr _) \<Rightarrow> (st, processed',
                    (case remote of
                       None \<Rightarrow> Inr (dedup_summary s summary)
                     | Some remote_alias \<Rightarrow> bindE (upload_result env remote_alias local_output)
                         (\<lambda>(transferred, errors). Inr ((dedup_summary s summary)
                            \<lparr>ds_uploaded := transferred, ds_upload_failed := errors\<rparr>)))))))"

section \<open>Every run ends\<close>

text \<open>A taken item weighs less than a queued one, and a zip's members, one level deeper, less than the zip;
  at \<open>MAX_ZIP_DEPTH\<close> nothing is expanded. So every turn makes the multiset of weights smaller.\<close>

definition queued_weight :: "queue_item \<Rightarrow> nat" where
  "queued_weight item = 2 * (MAX_ZIP_DEPTH - qi_depth item) + 1"

definition taken_weight :: "queue_item \<Rightarrow> nat" where
  "taken_weight item = 2 * (MAX_ZIP_DEPTH - qi_depth item)"

definition pool_weight :: "dedup_pool \<Rightarrow> nat multiset" where
  "pool_weight s = mset (map queued_weight (dp_queue s)) + mset (map taken_weight (dp_in_flight s))"

text \<open>What an outcome adds to the queue.\<close>

definition new_items :: "item_outcome \<Rightarrow> queue_item list" where
  "new_items outcome = (case outcome of ZipExpanded _ _ members _ \<Rightarrow> members | _ \<Rightarrow> [])"

lemma record_outcome_queue [simp]:
  "dp_queue (record_outcome bucket root outcome s) = dp_queue s @ new_items outcome"
  "dp_in_flight (record_outcome bucket root outcome s) = dp_in_flight s"
  "dp_counter (record_outcome bucket root outcome s) = dp_counter s"
  "dp_scratch (record_outcome bucket root outcome s) = dp_scratch s"
  by (simp_all add: record_outcome_def new_items_def Let_def split: item_outcome.splits)

lemma new_items_deeper:
  assumes "process_item env buckets item disk = (disk', outcome)" and "m \<in> set (new_items outcome)"
  shows "qi_depth m = qi_depth item + 1 \<and> qi_depth item < MAX_ZIP_DEPTH"
  using assms
  by (auto simp: process_item_def expand_item_def hash_item_def new_items_def member_item_def
      split: if_splits prod.splits option.splits sum.splits fault.splits item_outcome.splits)

lemma step_weight:
  assumes "dedup_step env buckets concurrency s s'"
  shows "(pool_weight s', pool_weight s) \<in> mult less_than"
  using assms
proof (cases rule: dedup_step.cases)
  case (take_item item rest)
  have "(mset (map queued_weight rest) + mset (map taken_weight (dp_in_flight s)) + {#taken_weight item#},
      mset (map queued_weight rest) + mset (map taken_weight (dp_in_flight s)) + {#queued_weight item#}) \<in> mult less_than"
    by (rule one_step_implies_mult) (simp_all add: queued_weight_def taken_weight_def)
  then show ?thesis using take_item by (simp add: pool_weight_def)
next
  case (end_item item)
  obtain disk outcome where p: "process_item env buckets item (dp_counter s, dp_scratch s) = (disk, outcome)" by fastforce
  let ?rest = "mset (map queued_weight (dp_queue s)) + mset (map taken_weight (remove1 item (dp_in_flight s)))"
  have "(?rest + mset (map queued_weight (new_items outcome)), ?rest + {#taken_weight item#}) \<in> mult less_than"
  proof (rule one_step_implies_mult)
    show "\<forall>k \<in> set_mset (mset (map queued_weight (new_items outcome))). \<exists>j \<in> set_mset {#taken_weight item#}. (k, j) \<in> less_than"
      by (auto simp: queued_weight_def taken_weight_def dest!: new_items_deeper [OF p])
  qed simp
  moreover have "mset (map taken_weight (dp_in_flight s)) =
      mset (map taken_weight (remove1 item (dp_in_flight s))) + {#taken_weight item#}"
    using \<open>item \<in> set (dp_in_flight s)\<close> by (simp add: image_mset_Diff)
  ultimately show ?thesis
    using end_item p by (simp add: pool_weight_def finish_item_def ac_simps split: prod.splits)
qed

lemma step_wf: "wfp (\<lambda>s' s. dedup_step env buckets concurrency s s')"
proof -
  have "wf (inv_image (mult less_than) pool_weight)" by (intro wf_inv_image wf_mult wf_less_than)
  then show ?thesis unfolding wfp_def by (rule wf_subset) (auto simp: inv_image_def step_weight)
qed

lemma step_possible: "dedup_done s \<or> (\<exists>s'. dedup_step env buckets concurrency s s')"
proof (cases "dp_in_flight s")
  case Nil
  then show ?thesis
    by (cases "dp_queue s") (auto simp: dedup_done_def dedup_worker_count_def intro!: exI dedup_step.take_item)
next
  case (Cons item rest)
  then show ?thesis by (auto intro!: exI dedup_step.end_item)
qed

lemma run_to_done: "\<exists>s'. dedup_run env buckets concurrency s s' \<and> dedup_done s'"
proof (induction s rule: wfp_induct_rule [OF step_wf [of env buckets concurrency]])
  case (1 s)
  then show ?case
    using step_possible [of s env buckets concurrency] by (meson converse_rtranclp_into_rtranclp rtranclp.rtrancl_refl)
qed

section \<open>What an object holds\<close>

text \<open>The reference: the files below a key with given contents, by unpacking zips as far as the nesting
  limit allows; \<open>None\<close> when something in it cannot be read.\<close>

primrec archive_files :: "nat \<Rightarrow> (string \<Rightarrow> string + (string + zip_entry) list) \<Rightarrow> string \<Rightarrow> string \<Rightarrow>
    (string \<times> string) list option" where
  "archive_files 0 unzip key data =
     (if is_apple_double_basename key then Some [] else if is_zip_key key then None else Some [(key, data)])"
| "archive_files (Suc n) unzip key data =
     (if is_apple_double_basename key then Some [] else if \<not> is_zip_key key then Some [(key, data)]
      else (case unzip data of
        Inl _ \<Rightarrow> None
      | Inr entries \<Rightarrow>
          Option.bind (entries_of entries) (\<lambda>es. Option.bind (those (map member_of es)) (\<lambda>members.
            map_option concat (those (map (\<lambda>(name, d). archive_files n unzip (key @ ''!'' @ name) d) members))))))"

text \<open>The contents an item stands for, on disk or still to be downloaded, and the files below it.\<close>

definition item_data :: "item_env \<Rightarrow> dedup_buckets \<Rightarrow> scratch \<Rightarrow> queue_item \<Rightarrow> string option" where
  "item_data env buckets fs item = (case qi_path item of
     Some p \<Rightarrow> fs_get fs p
   | None \<Rightarrow> (case bucket_of buckets (qi_bucket_alias item) of
       None \<Rightarrow> None
     | Some (b, _) \<Rightarrow> (case ie_copyto env (source_address b item) of Inl _ \<Rightarrow> None | Inr data \<Rightarrow> Some data)))"

definition promised :: "item_env \<Rightarrow> dedup_buckets \<Rightarrow> scratch \<Rightarrow> queue_item \<Rightarrow> (string \<times> string) list option" where
  "promised env buckets fs item =
     (if is_apple_double_basename (qi_display_key item) then Some []
      else Option.bind (item_data env buckets fs item)
        (archive_files (MAX_ZIP_DEPTH - qi_depth item) (ie_unzip env) (qi_display_key item)))"

text \<open>The scratch names a counter hands out.\<close>

definition allocated :: "nat \<Rightarrow> path \<Rightarrow> bool" where
  "allocated k p \<longleftrightarrow> (\<exists>ext. p = [pad_left 12 (dec k) @ ''.'' @ ext])"

definition fresh_in :: "nat set \<Rightarrow> path \<Rightarrow> bool" where
  "fresh_in ks p \<longleftrightarrow> (\<exists>k \<in> ks. allocated k p)"

lemma allocated_unique: "allocated k p \<Longrightarrow> allocated k' p \<Longrightarrow> k = k'"
proof -
  assume "allocated k p" "allocated k' p"
  then obtain x y where xy: "pad_left 12 (dec k) @ CHR ''.'' # x = pad_left 12 (dec k') @ CHR ''.'' # y"
    by (auto simp: allocated_def)
  have no: "CHR ''.'' \<notin> set (pad_left 12 (dec n))" for n by (simp add: is_digit_def)
  have "split_once (CHR ''.'') (pad_left 12 (dec k) @ CHR ''.'' # x) = Some (pad_left 12 (dec k), x)"
    "split_once (CHR ''.'') (pad_left 12 (dec k') @ CHR ''.'' # y) = Some (pad_left 12 (dec k'), y)"
    using split_once_append [OF no [of k], of x] split_once_append [OF no [of k'], of y] by blast+
  then have "Some (pad_left 12 (dec k), x) = Some (pad_left 12 (dec k'), y)" unfolding xy by (rule trans [OF sym])
  then have "pad_left 12 (dec k) = pad_left 12 (dec k')" by (simp only: option.inject prod.inject)
  then show "k = k'" by (rule iffD1 [OF pad_left_dec_inject])
qed

lemma member_path_allocated: "allocated k (member_path k)"
  by (simp add: allocated_def member_path_def)

lemma member_path_fresh: "p \<in> member_path ` ks \<Longrightarrow> fresh_in ks p"
  using member_path_allocated by (auto simp: fresh_in_def)

lemma fresh_in_disjoint: "fresh_in ks p \<Longrightarrow> fresh_in ls p \<Longrightarrow> ks \<inter> ls \<noteq> {}"
proof -
  assume "fresh_in ks p" "fresh_in ls p"
  then obtain k l where kl: "k \<in> ks" "allocated k p" "l \<in> ls" "allocated l p" unfolding fresh_in_def by blast
  then have "k = l" using allocated_unique by blast
  then show ?thesis using kl by blast
qed

lemma fresh_in_mono: "fresh_in ks p \<Longrightarrow> ks \<subseteq> ls \<Longrightarrow> fresh_in ls p"
  by (auto simp: fresh_in_def)

section \<open>One item against the reference\<close>

lemma fetch_item_cases:
  assumes "fetch_item env buckets item (c, fs) = ((c', fs'), r)"
  obtains (unfetched) "r = None" "c \<le> c'" "\<forall>q. \<not> fresh_in {c..<c'} q \<longrightarrow> fs_get fs' q = fs_get fs q"
  | (there) p where "r = Some p" "qi_path item = Some p" "c' = c" "fs' = fs"
  | (fetched) p data where "r = Some p" "qi_path item = None" "c' = c + 1" "allocated c p"
      "item_data env buckets fs item = Some data" "fs' = fs_put p data fs"
proof (cases "qi_path item")
  case (Some p)
  then show ?thesis using assms there [of p] by (simp add: fetch_item_def)
next
  case None
  show ?thesis
  proof (cases r)
    case None
    with assms \<open>qi_path item = None\<close> show ?thesis
      by (intro unfetched)
        (auto simp: fetch_item_def next_scratch_path_def fresh_in_def allocated_def split: option.splits sum.splits prod.splits)
  next
    case (Some p)
    with assms \<open>qi_path item = None\<close> obtain data where "c' = c + 1" "allocated c p"
      "item_data env buckets fs item = Some data" "fs' = fs_put p data fs"
      by (auto simp: fetch_item_def next_scratch_path_def allocated_def item_data_def
          split: option.splits sum.splits prod.splits)
    then show ?thesis using fetched Some \<open>qi_path item = None\<close> by blast
  qed
qed

lemma expand_to_dir_frame:
  "expand_to_dir env c fs = ((c', fs'), r) \<Longrightarrow>
     c \<le> c' \<and> (\<forall>q. q \<notin> member_path ` {c..<c'} \<longrightarrow> fs_get fs' q = fs_get fs q)"
  by (auto simp: expand_to_dir_def dest: expand_entries_frame split: sum.splits)

text \<open>Everything an item does to the disk: its own file may go, and fresh names may appear.\<close>

definition disk_step :: "queue_item \<Rightarrow> nat \<times> scratch \<Rightarrow> nat \<times> scratch \<Rightarrow> bool" where
  "disk_step item = (\<lambda>(c, fs) (c', fs'). c \<le> c' \<and>
     (\<forall>q. qi_path item \<noteq> Some q \<longrightarrow> \<not> fresh_in {c..<c'} q \<longrightarrow> fs_get fs' q = fs_get fs q))"

lemma fetch_item_disk: "fetch_item env buckets item (c, fs) = ((c', fs'), r) \<Longrightarrow> disk_step item (c, fs) (c', fs')"
  by (cases rule: fetch_item_cases, assumption) (auto simp: disk_step_def fresh_in_def)

lemma disk_step_trans:
  assumes "disk_step item (c, fs) (c1, fs1)" and "c1 \<le> c2"
    and "\<forall>q. q \<noteq> p \<longrightarrow> \<not> fresh_in {c1..<c2} q \<longrightarrow> fs_get fs2 q = fs_get fs1 q"
    and "qi_path item = Some p \<or> fresh_in {c..<c1} p"
  shows "disk_step item (c, fs) (c2, fs2)"
proof -
  have "fs_get fs2 q = fs_get fs q" if "qi_path item \<noteq> Some q" "\<not> fresh_in {c..<c2} q" for q
  proof -
    have "c \<le> c1" using assms(1) by (simp add: disk_step_def)
    then have "{c..<c1} \<subseteq> {c..<c2}" "{c1..<c2} \<subseteq> {c..<c2}" using assms(2) by auto
    then have "\<not> fresh_in {c..<c1} q" "\<not> fresh_in {c1..<c2} q" using that(2) fresh_in_mono by blast+
    then show ?thesis using that(1) assms by (auto simp: disk_step_def)
  qed
  then show ?thesis using assms(1,2) by (auto simp: disk_step_def)
qed

lemma expand_to_dir_ok:
  assumes "expand_to_dir env c fs = ((c', fs'), Inr (members, dropped))"
  obtains entries es where "xe_archive env = Inr entries" "entries_of entries = Some es"
    "distinct (map em_path members)" "em_path ` set members \<subseteq> member_path ` {c..<c'}"
    "\<forall>m \<in> set members. fs_get fs' (em_path m) \<noteq> None"
    "dropped = 0 \<longrightarrow> map (stored fs') members = map held es"
proof -
  obtain len entries where env: "xe_archive env = Inr entries" and run: "expand_entries (xe_create env)
      (saturating_mul (case len of Some n \<Rightarrow> n | None \<Rightarrow> 0) EXTRACTION_RATIO_LIMIT) entries 0 0 c fs =
      ((c', fs'), Inr (members, dropped))"
    using assms by (auto simp: expand_to_dir_def split: sum.splits)
  obtain es where es: "entries_of entries = Some es" and exp: "expanded
      (saturating_mul (case len of Some n \<Rightarrow> n | None \<Rightarrow> 0) EXTRACTION_RATIO_LIMIT) 0 {c..<c'} fs' es (members, dropped)"
    using expand_entries_ok [OF run] by blast
  have "dropped = 0 \<longrightarrow> map (stored fs') members = map held es"
    using exp subseq_same_length by (fastforce simp: expanded_def)
  moreover have "\<forall>m \<in> set members. fs_get fs' (em_path m) \<noteq> None" using exp by (auto simp: expanded_def)
  ultimately show ?thesis using that env es exp by (simp add: expanded_def)
qed

lemma members_read:
  "map (stored fs) members = map held es \<Longrightarrow> \<forall>m \<in> set members. fs_get fs (em_path m) \<noteq> None \<Longrightarrow>
     those (map member_of es) = Some (map (\<lambda>m. (em_name m, the (fs_get fs (em_path m)))) members)"
proof (induction members arbitrary: es)
  case (Cons m members)
  then obtain e es' where es: "es = e # es'" "stored fs m = held e" "map (stored fs) members = map held es'"
    by (cases es) auto
  obtain data where data: "fs_get fs (em_path m) = Some data" using Cons.prems(2) by auto
  have rest: "those (map member_of es') = Some (map (\<lambda>m. (em_name m, the (fs_get fs (em_path m)))) members)"
    using Cons.IH [OF es(3)] Cons.prems(2) by simp
  have "member_of e = Some (em_name m, data)" using es(2) data by (auto simp: member_of_def dest: sym)
  then show ?case unfolding es(1) using rest data by simp
qed simp

lemma archive_files_apple [simp]: "is_apple_double_basename key \<Longrightarrow> archive_files n unzip key data = Some []"
  by (cases n) simp_all

lemma archive_files_plain [simp]:
  "\<not> is_apple_double_basename key \<Longrightarrow> \<not> is_zip_key key \<Longrightarrow> archive_files n unzip key data = Some [(key, data)]"
  by (cases n) simp_all

lemma promised_data:
  "item_data env buckets fs item = Some data \<Longrightarrow> promised env buckets fs item =
     archive_files (MAX_ZIP_DEPTH - qi_depth item) (ie_unzip env) (qi_display_key item) data"
  by (simp add: promised_def)

text \<open>What an item's outcome tells, given the disk before and after.\<close>

definition hashed_ok :: "item_env \<Rightarrow> dedup_buckets \<Rightarrow> queue_item \<Rightarrow> nat \<times> scratch \<Rightarrow> nat \<times> scratch \<Rightarrow> hashed_file \<Rightarrow> bool" where
  "hashed_ok env buckets item = (\<lambda>(c, fs) (c', fs') f.
     hf_original_key f = qi_display_key item \<and> hf_bucket_alias f = qi_bucket_alias item \<and>
     hf_extension f = extension_of (qi_display_key item) \<and>
     (qi_path item = Some (hf_scratch_path f) \<or> qi_path item = None \<and> fresh_in {c..<c'} (hf_scratch_path f)) \<and>
     (\<exists>data. fs_get fs' (hf_scratch_path f) = Some data \<and> hf_content_hash f = ie_sha256 env data \<and>
        promised env buckets fs item = Some [(qi_display_key item, data)]))"

definition members_ok :: "item_env \<Rightarrow> dedup_buckets \<Rightarrow> queue_item \<Rightarrow> nat \<times> scratch \<Rightarrow> nat \<times> scratch \<Rightarrow>
    queue_item list \<Rightarrow> nat \<Rightarrow> bool" where
  "members_ok env buckets item = (\<lambda>(c, fs) (c', fs') members dropped.
     (\<forall>m \<in> set members. qi_root_key m = qi_root_key item \<and> qi_bucket_alias m = qi_bucket_alias item \<and>
        qi_depth m = qi_depth item + 1 \<and> CHR ''!'' \<in> set (qi_display_key m) \<and>
        (\<exists>q. qi_path m = Some q \<and> fresh_in {c..<c'} q \<and> fs_get fs' q \<noteq> None)) \<and>
     distinct (map qi_path members) \<and>
     (dropped = 0 \<longrightarrow> promised env buckets fs item = map_option concat (those (map (promised env buckets fs') members))))"

lemma expand_item_members:
  assumes run: "expand_item env item p (c, fs) = ((c', fs'), ZipExpanded key depth members dropped)"
    and data: "fs_get fs p = Some data" and p: "fresh_in {0..<c} p"
    and item: "promised env buckets fs0 item =
      archive_files (MAX_ZIP_DEPTH - qi_depth item) (ie_unzip env) (qi_display_key item) data"
    and zip: "is_zip_key (qi_display_key item)" "\<not> is_apple_double_basename (qi_display_key item)"
  shows "key = qi_display_key item \<and> depth = qi_depth item \<and> c \<le> c' \<and>
    members_ok env buckets item (c, fs0) (c', fs') members dropped"
proof -
  obtain fs1 ems where depth: "qi_depth item < MAX_ZIP_DEPTH"
    and exp: "expand_to_dir (expand_env_of env item data) c fs = ((c', fs1), Inr (ems, dropped))"
    and fs': "fs' = fs_remove p fs1" and members: "members = map (member_item item) ems"
    and key: "key = qi_display_key item" "depth = qi_depth item"
    using run data by (auto simp: expand_item_def split: if_splits sum.splits prod.splits fault.splits)
  from exp obtain entries es where es: "ie_unzip env data = Inr entries" "entries_of entries = Some es"
    "distinct (map em_path ems)" "em_path ` set ems \<subseteq> member_path ` {c..<c'}"
    "\<forall>m \<in> set ems. fs_get fs1 (em_path m) \<noteq> None" "dropped = 0 \<longrightarrow> map (stored fs1) ems = map held es"
    by (rule expand_to_dir_ok) (simp add: expand_env_of_def)
  have fresh: "fresh_in {c..<c'} (em_path m)" if "m \<in> set ems" for m
    using es(4) that by (intro member_path_fresh) auto
  have "em_path m \<noteq> p" if "m \<in> set ems" for m
  proof
    assume "em_path m = p"
    then have "{0..<c} \<inter> {c..<c'} \<noteq> {}" using p fresh [OF that] by (intro fresh_in_disjoint [of _ p]) simp_all
    then show False by simp
  qed
  then have there: "fs_get fs' (em_path m) = fs_get fs1 (em_path m)" if "m \<in> set ems" for m
    using that by (simp add: fs')
  have each: "promised env buckets fs' (member_item item m) =
      archive_files (MAX_ZIP_DEPTH - (qi_depth item + 1)) (ie_unzip env) (qi_display_key item @ ''!'' @ em_name m)
        (the (fs_get fs1 (em_path m)))" if "m \<in> set ems" for m
    using promised_data [of env buckets fs' "member_item item m"] there [OF that] es(5) that
    by (auto simp: item_data_def member_item_def)
  have "promised env buckets fs0 item = map_option concat (those (map (promised env buckets fs') members))" if "dropped = 0"
  proof -
    have read: "those (map member_of es) = Some (map (\<lambda>m. (em_name m, the (fs_get fs1 (em_path m)))) ems)"
      using that es(5,6) by (intro members_read) simp_all
    have "MAX_ZIP_DEPTH - qi_depth item = Suc (MAX_ZIP_DEPTH - (qi_depth item + 1))" using depth by simp
    then have "promised env buckets fs0 item = map_option concat (those (map
        (\<lambda>m. archive_files (MAX_ZIP_DEPTH - (qi_depth item + 1)) (ie_unzip env) (qi_display_key item @ ''!'' @ em_name m)
          (the (fs_get fs1 (em_path m)))) ems))"
      using item zip es(1,2) read by (simp add: comp_def)
    also have "map (\<lambda>m. archive_files (MAX_ZIP_DEPTH - (qi_depth item + 1)) (ie_unzip env) (qi_display_key item @ ''!'' @ em_name m)
          (the (fs_get fs1 (em_path m)))) ems = map (promised env buckets fs') members"
      unfolding members using each by simp
    finally show ?thesis .
  qed
  moreover have "distinct (map qi_path members)"
    using es(3) by (simp add: members distinct_map inj_on_def member_item_def)
  moreover have "c \<le> c'" using expand_to_dir_frame [OF exp] by simp
  ultimately show ?thesis
    using key fresh there es(5) by (auto simp: members_ok_def members member_item_def)
qed

lemma expand_item_frame:
  assumes "expand_item env item p (c, fs) = ((c', fs'), outcome)"
  shows "c \<le> c' \<and> (\<forall>q. q \<noteq> p \<longrightarrow> \<not> fresh_in {c..<c'} q \<longrightarrow> fs_get fs' q = fs_get fs q)"
proof (cases "qi_depth item \<ge> MAX_ZIP_DEPTH \<or> (\<exists>e. check_disk_space (ie_free_space_zip env item) 0 = Inl e)")
  case True
  then show ?thesis using assms by (auto simp: expand_item_def split: if_splits sum.splits)
next
  case False
  then obtain u where u: "\<not> MAX_ZIP_DEPTH \<le> qi_depth item" "check_disk_space (ie_free_space_zip env item) 0 = Inr u"
    by (cases "check_disk_space (ie_free_space_zip env item) 0") auto
  obtain c1 fs1 r where run: "expand_to_dir (expand_env_of env item (case fs_get fs p of Some data \<Rightarrow> data | None \<Rightarrow> [])) c fs =
      ((c1, fs1), r)" by (metis prod.exhaust)
  then have "c' = c1" "fs' = fs_remove p fs1" using assms u by (simp_all add: expand_item_def)
  moreover have "q \<notin> member_path ` {c..<c1}" if "\<not> fresh_in {c..<c1} q" for q
    using that member_path_fresh by blast
  ultimately show ?thesis using expand_to_dir_frame [OF run] by simp
qed

lemma hash_item_frame:
  "hash_item env item p (c, fs) = ((c', fs'), outcome) \<Longrightarrow> c' = c \<and> (\<forall>q. q \<noteq> p \<longrightarrow> fs_get fs' q = fs_get fs q)"
  by (auto simp: hash_item_def split: sum.splits option.splits)

lemma hash_item_hashed:
  assumes "hash_item env item p (c, fs) = ((c', fs'), Hashed d f)"
  obtains data where "fs_get fs p = Some data" "fs' = fs" "d = qi_depth item"
    "f = \<lparr>hf_original_key = qi_display_key item, hf_bucket_alias = qi_bucket_alias item, hf_scratch_path = p,
       hf_extension = extension_of (qi_display_key item), hf_content_hash = ie_sha256 env data\<rparr>"
  using assms by (auto simp: hash_item_def split: sum.splits option.splits)

definition outcome_ok :: "item_env \<Rightarrow> dedup_buckets \<Rightarrow> queue_item \<Rightarrow> nat \<times> scratch \<Rightarrow> nat \<times> scratch \<Rightarrow> item_outcome \<Rightarrow> bool" where
  "outcome_ok env buckets item before after outcome = (case outcome of
     Hashed d f \<Rightarrow> d = qi_depth item \<and> \<not> is_zip_key (qi_display_key item) \<and> hashed_ok env buckets item before after f
   | ZipExpanded key d members dropped \<Rightarrow> key = qi_display_key item \<and> d = qi_depth item \<and> is_zip_key key \<and>
       members_ok env buckets item before after members dropped
   | SkippedAppleDouble d \<Rightarrow> d = qi_depth item \<and> is_apple_double_basename (qi_display_key item)
   | _ \<Rightarrow> True)"

lemma members_ok_wider:
  "members_ok env buckets item (c1, fs) (c', fs') members dropped \<Longrightarrow> c \<le> c1 \<Longrightarrow>
     members_ok env buckets item (c, fs) (c', fs') members dropped"
  using fresh_in_mono [of "{c1..<c'}" _ "{c..<c'}"] by (fastforce simp: members_ok_def)

lemma process_item_ok:
  assumes run: "process_item env buckets item (c, fs) = ((c', fs'), outcome)"
    and there: "\<forall>p. qi_path item = Some p \<longrightarrow> fs_get fs p \<noteq> None \<and> fresh_in {0..<c} p"
  shows "disk_step item (c, fs) (c', fs') \<and> outcome_ok env buckets item (c, fs) (c', fs') outcome"
proof (cases "is_apple_double_basename (qi_display_key item)")
  case True
  then show ?thesis using run by (auto simp: process_item_def disk_step_def outcome_ok_def split: option.splits)
next
  case apple: False
  obtain c1 fs1 r where fetch: "fetch_item env buckets item (c, fs) = ((c1, fs1), r)" by (metis prod.exhaust)
  then have fd: "disk_step item (c, fs) (c1, fs1)" by (rule fetch_item_disk)
  show ?thesis
  proof (cases r)
    case None
    then show ?thesis using run apple fetch fd by (auto simp: process_item_def outcome_ok_def)
  next
    case (Some p)
    have p: "c \<le> c1 \<and> fresh_in {0..<c1} p \<and> (qi_path item = Some p \<or> qi_path item = None \<and> fresh_in {c..<c1} p) \<and>
        (\<exists>data. fs_get fs1 p = Some data \<and> item_data env buckets fs item = Some data)"
      using fetch there Some
      by (cases rule: fetch_item_cases) (auto simp: item_data_def fresh_in_def)
    then obtain data where data: "fs_get fs1 p = Some data" "item_data env buckets fs item = Some data" by blast
    note promise = promised_data [OF data(2)]
    show ?thesis
    proof (cases "is_zip_key (qi_display_key item)")
      case True
      then have exp: "expand_item env item p (c1, fs1) = ((c', fs'), outcome)"
        using run apple fetch Some by (simp add: process_item_def)
      have "disk_step item (c, fs) (c', fs')"
        using disk_step_trans [OF fd, of c' p fs'] expand_item_frame [OF exp] p by blast
      moreover have "outcome_ok env buckets item (c, fs) (c', fs') outcome"
      proof (cases outcome)
        case (ZipExpanded key d members dropped)
        then show ?thesis
          using expand_item_members [OF exp [unfolded ZipExpanded] data(1) conjunct1 [OF conjunct2 [OF p]] promise True apple]
            members_ok_wider [of env buckets item c1 fs c' fs' members dropped c] p True
          by (simp add: outcome_ok_def)
      qed (use exp in \<open>auto simp: outcome_ok_def expand_item_def split: if_splits sum.splits prod.splits fault.splits\<close>)
      ultimately show ?thesis by blast
    next
      case False
      then have hash: "hash_item env item p (c1, fs1) = ((c', fs'), outcome)"
        using run apple fetch Some by (simp add: process_item_def)
      have c': "c' = c1" using hash_item_frame [OF hash] by simp
      have "disk_step item (c, fs) (c', fs')"
        using disk_step_trans [OF fd, of c' p fs'] hash_item_frame [OF hash] p by blast
      moreover have "outcome_ok env buckets item (c, fs) (c', fs') outcome"
      proof (cases outcome)
        case (Hashed d f)
        show ?thesis using hash [unfolded Hashed]
          by (rule hash_item_hashed) (use Hashed False apple p data promise c' in \<open>auto simp: outcome_ok_def hashed_ok_def\<close>)
      qed (use hash in \<open>auto simp: outcome_ok_def hash_item_def split: sum.splits option.splits\<close>)
      ultimately show ?thesis by blast
    qed
  qed
qed

section \<open>The pool against the reference\<close>

definition item_root :: "queue_item \<Rightarrow> root" where
  "item_root item = (qi_bucket_alias item, qi_root_key item)"

definition task_root :: "deduplicate_task \<Rightarrow> root" where
  "task_root t = (dt_bucket_alias t, dt_key t)"

abbreviation pending :: "dedup_pool \<Rightarrow> queue_item list" where
  "pending s \<equiv> dp_queue s @ dp_in_flight s"

definition owned :: "dedup_pool \<Rightarrow> path list" where
  "owned s = List.map_filter qi_path (pending s) @ map hf_scratch_path (dp_hashed_files s)"

definition delivered :: "dedup_pool \<Rightarrow> string \<Rightarrow> (string \<times> string) set" where
  "delivered s bucket = {(key, d). \<exists>f \<in> set (dp_hashed_files s). hf_original_key f = key \<and> hf_bucket_alias f = bucket \<and>
     fs_get (dp_scratch s) (hf_scratch_path f) = Some d}"

text \<open>Every scratch file in use is there, belongs to one item or hashed file, and was handed out by the
  counter; every hashed file is hashed by its contents.\<close>

definition disk_ok :: "item_env \<Rightarrow> dedup_pool \<Rightarrow> bool" where
  "disk_ok env s \<longleftrightarrow> distinct (owned s) \<and>
     (\<forall>p \<in> set (owned s). fs_get (dp_scratch s) p \<noteq> None \<and> fresh_in {0..<dp_counter s} p) \<and>
     (\<forall>f \<in> set (dp_hashed_files s). ready (ie_sha256 env) (dp_scratch s) f)"

text \<open>An untainted object: unless something still pending cannot be read, its files are all delivered or
  below a pending item.\<close>

definition kept_promise :: "item_env \<Rightarrow> dedup_buckets \<Rightarrow> dedup_pool \<Rightarrow> deduplicate_task \<Rightarrow> bool" where
  "kept_promise env buckets s t \<longleftrightarrow> task_root t \<in> dp_tainted_roots s \<or>
     ((\<forall>i \<in> set (pending s). item_root i = task_root t \<longrightarrow> promised env buckets (dp_scratch s) i \<noteq> None) \<longrightarrow>
      (\<exists>files. promised env buckets [] (root_item t) = Some files \<and> set files \<subseteq> delivered s (dt_bucket_alias t) \<union>
         (\<Union>i \<in> {i \<in> set (pending s). item_root i = task_root t}. set (the (promised env buckets (dp_scratch s) i)))))"

definition accounted :: "dedup_pool \<Rightarrow> deduplicate_task \<Rightarrow> bool" where
  "accounted s t \<longleftrightarrow> root_item t \<in> set (pending s) \<or>
     task_root t \<in> dp_tainted_roots s \<union> set (dp_finished_root_keys s) \<union> set (dp_apple_double s)"

definition origin :: "deduplicate_task list \<Rightarrow> dedup_pool \<Rightarrow> bool" where
  "origin tasks s \<longleftrightarrow> (\<forall>i \<in> set (pending s). qi_depth i = 0 \<longrightarrow> i \<in> root_item ` set tasks) \<and>
     set (dp_finished_root_keys s) \<subseteq> task_root ` set tasks \<and>
     (\<forall>r \<in> set (dp_apple_double s). \<exists>t \<in> set tasks. r = task_root t \<and> is_apple_double_basename (dt_key t))"

text \<open>A file whose key has no \<open>!\<close> is an object of the bucket itself, hashed by the object's contents.\<close>

definition traced :: "item_env \<Rightarrow> dedup_buckets \<Rightarrow> deduplicate_task list \<Rightarrow> dedup_pool \<Rightarrow> bool" where
  "traced env buckets tasks s \<longleftrightarrow>
     (\<forall>i \<in> set (pending s). qi_depth i \<noteq> 0 \<longrightarrow> CHR ''!'' \<in> set (qi_display_key i)) \<and>
     (\<forall>f \<in> set (dp_hashed_files s). CHR ''!'' \<in> set (hf_original_key f) \<or>
        (\<exists>t \<in> set tasks. \<exists>data. task_root t = (hf_bucket_alias f, hf_original_key f) \<and>
           promised env buckets [] (root_item t) = Some [(dt_key t, data)] \<and> hf_content_hash f = ie_sha256 env data))"

definition dedup_inv :: "item_env \<Rightarrow> dedup_buckets \<Rightarrow> deduplicate_task list \<Rightarrow> dedup_pool \<Rightarrow> bool" where
  "dedup_inv env buckets tasks s \<longleftrightarrow> disk_ok env s \<and> origin tasks s \<and> traced env buckets tasks s \<and>
     (\<forall>t \<in> set tasks. kept_promise env buckets s t \<and> accounted s t)"

definition new_hashed :: "item_outcome \<Rightarrow> hashed_file list" where
  "new_hashed outcome = (case outcome of Hashed _ f \<Rightarrow> [f] | _ \<Rightarrow> [])"

definition taints :: "item_outcome \<Rightarrow> bool" where
  "taints outcome = (case outcome of
     ZipExpanded _ _ _ dropped \<Rightarrow> dropped > 0 | Hashed _ _ \<Rightarrow> False | SkippedAppleDouble _ \<Rightarrow> False | _ \<Rightarrow> True)"

lemma record_outcome_hashed [simp]:
  "dp_hashed_files (record_outcome bucket root outcome s) = dp_hashed_files s @ new_hashed outcome"
  "dp_tainted_roots (record_outcome bucket root outcome s) =
     (if taints outcome then insert (bucket, root) (dp_tainted_roots s) else dp_tainted_roots s)"
  by (simp_all add: record_outcome_def new_hashed_def taints_def Let_def split: item_outcome.splits)

lemma map_filter_mset: "mset (List.map_filter f xs) = image_mset the (filter_mset (\<lambda>x. x \<noteq> None) (image_mset f (mset xs)))"
  by (induction xs) (auto simp: List.map_filter_def)

lemma take_keeps_owned:
  assumes "dp_queue s = item # rest"
  shows "mset (owned (s\<lparr>dp_queue := rest, dp_in_flight := item # dp_in_flight s\<rparr>)) = mset (owned s)"
  using assms by (auto simp: owned_def map_filter_mset split: option.splits)

lemma take_inv:
  assumes "dedup_inv env buckets tasks s" and "dp_queue s = item # rest"
  shows "dedup_inv env buckets tasks (s\<lparr>dp_queue := rest, dp_in_flight := item # dp_in_flight s\<rparr>)"
proof -
  let ?s = "s\<lparr>dp_queue := rest, dp_in_flight := item # dp_in_flight s\<rparr>"
  have pend: "set (pending ?s) = set (pending s)" using assms(2) by auto
  have own: "mset (owned ?s) = mset (owned s)" using assms(2) by (rule take_keeps_owned)
  then have "set (owned ?s) = set (owned s)" "distinct (owned ?s) = distinct (owned s)"
    by (metis mset_eq_setD, metis mset_eq_imp_distinct_iff)
  then have "disk_ok env ?s" using assms(1) by (simp add: dedup_inv_def disk_ok_def)
  moreover have "delivered ?s = delivered s" by (simp add: delivered_def fun_eq_iff)
  ultimately show ?thesis using assms(1) unfolding dedup_inv_def origin_def traced_def kept_promise_def accounted_def pend by simp
qed

lemma extension_of_no_slash: "CHR ''/'' \<notin> set (extension_of key)"
proof (cases "extension (after_zip_separator key)")
  case (Some e)
  then obtain f where f: "file_name (after_zip_separator key) = Some f" "stem_ext f = (fst (stem_ext f), Some e)"
    by (auto simp: extension_def bind_eq_Some_conv) (metis prod.collapse)
  have "CHR ''/'' \<notin> set f" using file_name_props(4) [OF f(1)] .
  then have "CHR ''/'' \<notin> set e" using stem_ext_chars [OF f(2)] by auto
  moreover have "c = CHR ''/''" if "lower_char c = CHR ''/''" for c
    using that byte_of_lower [of c] by (cases "is_upper c") (simp_all add: is_upper_def)
  ultimately show ?thesis using Some by (fastforce simp: extension_of_def to_lower_def)
qed (simp add: extension_of_def)

text \<open>What finishing an item does to the pool, with the items it leaves alone.\<close>

definition own_path :: "queue_item \<Rightarrow> path list" where
  "own_path item = (case qi_path item of None \<Rightarrow> [] | Some p \<Rightarrow> [p])"

definition new_paths :: "item_outcome \<Rightarrow> path list" where
  "new_paths outcome = List.map_filter qi_path (new_items outcome) @ map hf_scratch_path (new_hashed outcome)"

definition other_paths :: "queue_item list \<Rightarrow> dedup_pool \<Rightarrow> path list" where
  "other_paths others s = List.map_filter qi_path others @ map hf_scratch_path (dp_hashed_files s)"

definition finishes :: "item_env \<Rightarrow> dedup_buckets \<Rightarrow> queue_item \<Rightarrow> queue_item list \<Rightarrow> item_outcome \<Rightarrow>
    dedup_pool \<Rightarrow> dedup_pool \<Rightarrow> bool" where
  "finishes env buckets item others outcome s s' \<longleftrightarrow>
     mset (pending s) = add_mset item (mset others) \<and> mset (pending s') = mset others + mset (new_items outcome) \<and>
     dp_hashed_files s' = dp_hashed_files s @ new_hashed outcome \<and>
     dp_tainted_roots s' = (if taints outcome then insert (item_root item) (dp_tainted_roots s) else dp_tainted_roots s) \<and>
     disk_step item (dp_counter s, dp_scratch s) (dp_counter s', dp_scratch s') \<and>
     outcome_ok env buckets item (dp_counter s, dp_scratch s) (dp_counter s', dp_scratch s') outcome"

lemma finishes_pending:
  assumes "finishes env buckets item others outcome s s'"
  shows "set (pending s) = insert item (set others)" "set (pending s') = set others \<union> set (new_items outcome)"
  using assms mset_eq_setD [of "pending s" "item # others"] mset_eq_setD [of "pending s'" "others @ new_items outcome"]
  by (simp_all add: finishes_def)

lemma mset_map_filter_cong: "mset xs = mset ys \<Longrightarrow> mset (List.map_filter f xs) = mset (List.map_filter f ys)"
  by (simp add: map_filter_mset)

lemma finishes_owned:
  assumes "finishes env buckets item others outcome s s'"
  shows "mset (owned s) = mset (own_path item @ other_paths others s)"
    "mset (owned s') = mset (other_paths others s @ new_paths outcome)"
proof -
  have "mset (List.map_filter qi_path (pending s)) = mset (List.map_filter qi_path (item # others))"
    using assms by (intro mset_map_filter_cong) (simp add: finishes_def)
  moreover have "List.map_filter qi_path (item # others) = own_path item @ List.map_filter qi_path others"
    by (simp add: own_path_def split: option.splits)
  ultimately show "mset (owned s) = mset (own_path item @ other_paths others s)"
    by (simp add: owned_def other_paths_def)
  have "mset (List.map_filter qi_path (pending s')) = mset (List.map_filter qi_path (others @ new_items outcome))"
    using assms by (intro mset_map_filter_cong) (simp add: finishes_def)
  then show "mset (owned s') = mset (other_paths others s @ new_paths outcome)"
    using assms by (simp add: owned_def other_paths_def new_paths_def finishes_def map_filter_append)
qed

lemma finishes_disk_before:
  assumes "disk_ok env s" and "finishes env buckets item others outcome s s'"
  shows "distinct (own_path item @ other_paths others s)"
    "\<forall>p \<in> set (own_path item @ other_paths others s). fs_get (dp_scratch s) p \<noteq> None \<and> fresh_in {0..<dp_counter s} p"
  using assms(1) mset_eq_setD [OF finishes_owned(1) [OF assms(2)]]
    mset_eq_imp_distinct_iff [OF finishes_owned(1) [OF assms(2)]]
  unfolding disk_ok_def by blast+

text \<open>The files of the others stay as they are.\<close>

lemma finishes_others:
  assumes "disk_ok env s" and fin: "finishes env buckets item others outcome s s'" and p: "p \<in> set (other_paths others s)"
  shows "fs_get (dp_scratch s') p = fs_get (dp_scratch s) p \<and> \<not> fresh_in {dp_counter s..<dp_counter s'} p"
proof -
  note before = finishes_disk_before [OF assms(1,2)]
  have "qi_path item \<noteq> Some p" using before(1) p by (auto simp: own_path_def)
  moreover have "\<not> fresh_in {dp_counter s..<dp_counter s'} p"
  proof
    assume "fresh_in {dp_counter s..<dp_counter s'} p"
    moreover have "fresh_in {0..<dp_counter s} p" using before(2) p by simp
    ultimately have "{dp_counter s..<dp_counter s'} \<inter> {0..<dp_counter s} \<noteq> {}" by (rule fresh_in_disjoint)
    then show False by auto
  qed
  ultimately show ?thesis using fin by (simp add: finishes_def disk_step_def)
qed

lemma new_paths_ok:
  assumes "disk_ok env s" and fin: "finishes env buckets item others outcome s s'"
  shows "distinct (new_paths outcome)"
    "\<forall>p \<in> set (new_paths outcome). (p \<in> set (own_path item) \<or> fresh_in {dp_counter s..<dp_counter s'} p) \<and>
       fs_get (dp_scratch s') p \<noteq> None"
proof -
  have ok: "outcome_ok env buckets item (dp_counter s, dp_scratch s) (dp_counter s', dp_scratch s') outcome"
    using fin by (simp add: finishes_def)
  have "distinct (new_paths outcome) \<and> (\<forall>p \<in> set (new_paths outcome). (p \<in> set (own_path item) \<or>
      fresh_in {dp_counter s..<dp_counter s'} p) \<and> fs_get (dp_scratch s') p \<noteq> None)"
  proof (cases outcome)
    case (ZipExpanded key d members dropped)
    have members: "\<forall>m \<in> set members. \<exists>q. qi_path m = Some q \<and> fresh_in {dp_counter s..<dp_counter s'} q \<and>
        fs_get (dp_scratch s') q \<noteq> None" and dist: "distinct (map qi_path members)"
      using ok ZipExpanded by (auto simp: outcome_ok_def members_ok_def)
    have "map qi_path members = map Some (List.map_filter qi_path members)"
      using members by (induction members) auto
    then have "distinct (List.map_filter qi_path members)" using dist by (simp add: distinct_map)
    then show ?thesis using members ZipExpanded
      by (fastforce simp: new_paths_def new_items_def new_hashed_def List.map_filter_def)
  next
    case (Hashed d f)
    then show ?thesis using ok
      by (auto simp: new_paths_def new_items_def new_hashed_def outcome_ok_def hashed_ok_def own_path_def)
  qed (simp_all add: new_paths_def new_items_def new_hashed_def)
  then show "distinct (new_paths outcome)"
    "\<forall>p \<in> set (new_paths outcome). (p \<in> set (own_path item) \<or> fresh_in {dp_counter s..<dp_counter s'} p) \<and>
       fs_get (dp_scratch s') p \<noteq> None" by blast+
qed

lemma finishes_disk:
  assumes "disk_ok env s" and fin: "finishes env buckets item others outcome s s'"
  shows "disk_ok env s'"
proof -
  note before = finishes_disk_before [OF assms] and new = new_paths_ok [OF assms] and others = finishes_others [OF assms]
  have le: "dp_counter s \<le> dp_counter s'" using fin by (simp add: finishes_def disk_step_def)
  have wide: "fresh_in {0..<dp_counter s'} p" if "fresh_in {0..<dp_counter s} p \<or> fresh_in {dp_counter s..<dp_counter s'} p" for p
    using that
  proof
    show "fresh_in {0..<dp_counter s} p \<Longrightarrow> ?thesis" using le by (auto elim: fresh_in_mono)
    show "fresh_in {dp_counter s..<dp_counter s'} p \<Longrightarrow> ?thesis" by (auto elim: fresh_in_mono)
  qed
  have "set (other_paths others s) \<inter> set (new_paths outcome) = {}"
    using before(1) new(2) others by fastforce
  then have "distinct (other_paths others s @ new_paths outcome)" using before(1) new(1) by simp
  moreover have "\<forall>p \<in> set (other_paths others s @ new_paths outcome). fs_get (dp_scratch s') p \<noteq> None \<and>
      fresh_in {0..<dp_counter s'} p"
  proof
    fix p
    assume p: "p \<in> set (other_paths others s @ new_paths outcome)"
    then consider "p \<in> set (other_paths others s)" | "p \<in> set (new_paths outcome)" by auto
    then show "fs_get (dp_scratch s') p \<noteq> None \<and> fresh_in {0..<dp_counter s'} p"
    proof cases
      case 1
      then show ?thesis using before(2) others [OF 1] wide by simp
    next
      case 2
      then show ?thesis using before(2) new(2) wide by auto
    qed
  qed
  ultimately have own: "distinct (owned s') \<and> (\<forall>p \<in> set (owned s'). fs_get (dp_scratch s') p \<noteq> None \<and>
      fresh_in {0..<dp_counter s'} p)"
    using mset_eq_setD [OF finishes_owned(2) [OF fin]] mset_eq_imp_distinct_iff [OF finishes_owned(2) [OF fin]] by simp
  have "ready (ie_sha256 env) (dp_scratch s') f" if f: "f \<in> set (dp_hashed_files s')" for f
  proof (cases "f \<in> set (dp_hashed_files s)")
    case True
    then have "hf_scratch_path f \<in> set (other_paths others s)" by (simp add: other_paths_def)
    then show ?thesis using others True assms(1) by (simp add: ready_def disk_ok_def)
  next
    case False
    then have "f \<in> set (new_hashed outcome)" using f fin by (simp add: finishes_def)
    then obtain d where "outcome = Hashed d f" by (cases outcome) (auto simp: new_hashed_def)
    then show ?thesis using fin extension_of_no_slash by (auto simp: finishes_def outcome_ok_def hashed_ok_def ready_def)
  qed
  then show ?thesis using own by (simp add: disk_ok_def)
qed

lemma those_map_Some: "\<forall>x \<in> set xs. f x \<noteq> None \<Longrightarrow> those (map f xs) = Some (map (\<lambda>x. the (f x)) xs)"
  by (induction xs) auto

text \<open>What was delivered stays delivered; what the other items promise stays promised.\<close>

lemma finishes_delivered:
  assumes "disk_ok env s" and fin: "finishes env buckets item others outcome s s'"
  shows "delivered s b \<subseteq> delivered s' b"
proof
  fix x
  assume "x \<in> delivered s b"
  then obtain f d where f: "f \<in> set (dp_hashed_files s)" "hf_bucket_alias f = b" "x = (hf_original_key f, d)"
    "fs_get (dp_scratch s) (hf_scratch_path f) = Some d" by (auto simp: delivered_def)
  have "hf_scratch_path f \<in> set (other_paths others s)" using f(1) by (simp add: other_paths_def)
  then have "fs_get (dp_scratch s') (hf_scratch_path f) = Some d" using finishes_others [OF assms] f(4) by simp
  moreover have "f \<in> set (dp_hashed_files s')" using f(1) fin by (simp add: finishes_def)
  ultimately show "x \<in> delivered s' b" using f(2,3) by (auto simp: delivered_def)
qed

lemma finishes_promised:
  assumes "disk_ok env s" and fin: "finishes env buckets item others outcome s s'" and i: "i \<in> set others"
  shows "promised env buckets (dp_scratch s') i = promised env buckets (dp_scratch s) i"
proof (cases "qi_path i")
  case None
  then show ?thesis by (simp add: promised_def item_data_def)
next
  case (Some p)
  then have "p \<in> set (other_paths others s)"
    using i by (force simp: other_paths_def List.map_filter_def)
  then show ?thesis using finishes_others [OF assms(1,2)] Some by (simp add: promised_def item_data_def)
qed

text \<open>What the finished item promised is delivered, or promised by its members.\<close>

lemma finished_item_promise:
  assumes fin: "finishes env buckets item others outcome s s'" and clean: "\<not> taints outcome"
    and members: "\<forall>m \<in> set (new_items outcome). promised env buckets (dp_scratch s') m \<noteq> None"
  obtains files where "promised env buckets (dp_scratch s) item = Some files"
    "set files \<subseteq> delivered s' (qi_bucket_alias item) \<union>
       (\<Union>m \<in> set (new_items outcome). set (the (promised env buckets (dp_scratch s') m)))"
proof (cases outcome)
  case (ZipExpanded key d ms dropped)
  then have eq: "promised env buckets (dp_scratch s) item =
      map_option concat (those (map (promised env buckets (dp_scratch s')) ms))"
    using fin clean by (simp add: finishes_def outcome_ok_def members_ok_def taints_def)
  have "those (map (promised env buckets (dp_scratch s')) ms) =
      Some (map (\<lambda>m. the (promised env buckets (dp_scratch s') m)) ms)"
    using members ZipExpanded by (intro those_map_Some) (simp add: new_items_def)
  then show ?thesis using that eq ZipExpanded by (auto simp: new_items_def)
next
  case (Hashed d f)
  then obtain data where f: "hf_original_key f = qi_display_key item" "hf_bucket_alias f = qi_bucket_alias item"
    "fs_get (dp_scratch s') (hf_scratch_path f) = Some data"
    "promised env buckets (dp_scratch s) item = Some [(qi_display_key item, data)]" "f \<in> set (dp_hashed_files s')"
    using fin by (auto simp: finishes_def outcome_ok_def hashed_ok_def new_hashed_def)
  then have "(qi_display_key item, data) \<in> delivered s' (qi_bucket_alias item)" by (auto simp: delivered_def)
  then show ?thesis using that f(4) by simp
next
  case (SkippedAppleDouble d)
  then show ?thesis using that fin by (simp add: finishes_def outcome_ok_def promised_def)
qed (use clean in \<open>simp_all add: taints_def\<close>)

lemma new_item_roots:
  "finishes env buckets item others outcome s s' \<Longrightarrow> m \<in> set (new_items outcome) \<Longrightarrow>
     item_root m = item_root item \<and> qi_depth m \<noteq> 0"
  by (auto simp: finishes_def outcome_ok_def members_ok_def new_items_def item_root_def split: item_outcome.splits)

lemma finishes_promise:
  assumes disk: "disk_ok env s" and fin: "finishes env buckets item others outcome s s'"
    and "kept_promise env buckets s t"
  shows "kept_promise env buckets s' t"
proof (cases "task_root t \<in> dp_tainted_roots s'")
  case False
  let ?p = "promised env buckets (dp_scratch s)" and ?p' = "promised env buckets (dp_scratch s')"
  have pend: "set (pending s) = insert item (set others)" "set (pending s') = set others \<union> set (new_items outcome)"
    by (rule finishes_pending [OF fin])+
  have untainted: "task_root t \<notin> dp_tainted_roots s" using False fin by (auto simp: finishes_def split: if_splits)
  have "\<exists>files. promised env buckets [] (root_item t) = Some files \<and> set files \<subseteq> delivered s' (dt_bucket_alias t) \<union>
      (\<Union>i \<in> {i \<in> set (pending s'). item_root i = task_root t}. set (the (?p' i)))"
    if all: "\<forall>i \<in> set (pending s'). item_root i = task_root t \<longrightarrow> ?p' i \<noteq> None"
  proof -
    have others: "?p' i = ?p i" if "i \<in> set others" for i using finishes_promised [OF disk fin that] .
    have mine: "?p item \<noteq> None \<and> set (the (?p item)) \<subseteq> delivered s' (dt_bucket_alias t) \<union>
        (\<Union>m \<in> set (new_items outcome). set (the (?p' m)))" if root: "item_root item = task_root t"
    proof -
      have "\<not> taints outcome" using False root fin by (auto simp: finishes_def)
      moreover have "\<forall>m \<in> set (new_items outcome). ?p' m \<noteq> None"
        using all new_item_roots [OF fin] root pend(2) by simp
      ultimately obtain files where "?p item = Some files" "set files \<subseteq> delivered s' (qi_bucket_alias item) \<union>
          (\<Union>m \<in> set (new_items outcome). set (the (?p' m)))" by (rule finished_item_promise [OF fin])
      moreover have "qi_bucket_alias item = dt_bucket_alias t" using root by (simp add: item_root_def task_root_def)
      ultimately show ?thesis by simp
    qed
    have "\<forall>i \<in> set (pending s). item_root i = task_root t \<longrightarrow> ?p i \<noteq> None"
      using all mine others pend by auto
    then obtain files where files: "promised env buckets [] (root_item t) = Some files"
      "set files \<subseteq> delivered s (dt_bucket_alias t) \<union>
        (\<Union>i \<in> {i \<in> set (pending s). item_root i = task_root t}. set (the (?p i)))"
      using assms(3) untainted by (auto simp: kept_promise_def)
    have each: "set (the (?p i)) \<subseteq> delivered s' (dt_bucket_alias t) \<union>
        (\<Union>i \<in> {i \<in> set (pending s'). item_root i = task_root t}. set (the (?p' i)))"
      if i: "i \<in> set (pending s)" "item_root i = task_root t" for i
    proof (cases "i \<in> set others")
      case True
      then have "i \<in> {i \<in> set (pending s'). item_root i = task_root t}" using i pend(2) by simp
      then show ?thesis using others [OF True] by auto
    next
      case no: False
      then have "i = item" using i(1) pend(1) by blast
      have "m \<in> {i \<in> set (pending s'). item_root i = task_root t}" if "m \<in> set (new_items outcome)" for m
        using new_item_roots [OF fin that] i(2) \<open>i = item\<close> that unfolding pend(2) by simp
      then have "(\<Union>m \<in> set (new_items outcome). set (the (?p' m))) \<subseteq>
          (\<Union>i \<in> {i \<in> set (pending s'). item_root i = task_root t}. set (the (?p' i)))" by blast
      moreover have "set (the (?p i)) \<subseteq> delivered s' (dt_bucket_alias t) \<union>
          (\<Union>m \<in> set (new_items outcome). set (the (?p' m)))"
        using mine i(2) unfolding \<open>i = item\<close> by blast
      ultimately show ?thesis by (rule order_trans [OF _ Un_mono [OF order_refl], rotated])
    qed
    have "set files \<subseteq> delivered s' (dt_bucket_alias t) \<union>
        (\<Union>i \<in> {i \<in> set (pending s'). item_root i = task_root t}. set (the (?p' i)))"
    proof (rule order_trans [OF files(2)], rule Un_least)
      show "delivered s (dt_bucket_alias t) \<subseteq> delivered s' (dt_bucket_alias t) \<union>
          (\<Union>i \<in> {i \<in> set (pending s'). item_root i = task_root t}. set (the (?p' i)))"
        by (rule le_supI1 [OF finishes_delivered [OF disk fin]])
      show "(\<Union>i \<in> {i \<in> set (pending s). item_root i = task_root t}. set (the (?p i))) \<subseteq>
          delivered s' (dt_bucket_alias t) \<union>
          (\<Union>i \<in> {i \<in> set (pending s'). item_root i = task_root t}. set (the (?p' i)))"
        by (rule UN_least) (elim CollectE conjE, rule each)
    qed
    then show ?thesis using files(1) by blast
  qed
  then show ?thesis using False by (simp add: kept_promise_def)
qed (simp add: kept_promise_def)

lemma finish_item_finishes:
  assumes "dedup_inv env buckets tasks s" and item: "item \<in> set (dp_in_flight s)"
  obtains others outcome where "finishes env buckets item others outcome s (finish_item env buckets item s)"
    "process_item env buckets item (dp_counter s, dp_scratch s) =
       ((dp_counter (finish_item env buckets item s), dp_scratch (finish_item env buckets item s)), outcome)"
proof -
  obtain c' fs' outcome where run: "process_item env buckets item (dp_counter s, dp_scratch s) = ((c', fs'), outcome)"
    by (metis prod.exhaust)
  let ?others = "dp_queue s @ remove1 item (dp_in_flight s)"
  have "qi_path item = Some p \<Longrightarrow> p \<in> set (owned s)" for p
    using item by (force simp: owned_def List.map_filter_def)
  then have "\<forall>p. qi_path item = Some p \<longrightarrow> fs_get (dp_scratch s) p \<noteq> None \<and> fresh_in {0..<dp_counter s} p"
    using assms(1) by (auto simp: dedup_inv_def disk_ok_def)
  note ok = process_item_ok [OF run this]
  have "mset (dp_in_flight s) = add_mset item (mset (remove1 item (dp_in_flight s)))" using item by simp
  then have "finishes env buckets item ?others outcome s (finish_item env buckets item s)"
    using ok run by (simp add: finishes_def finish_item_def item_root_def ac_simps)
  then show ?thesis using that run by (simp add: finish_item_def)
qed

lemma record_outcome_roots:
  "set (dp_finished_root_keys (record_outcome b r outcome s)) = set (dp_finished_root_keys s) \<union>
     (case outcome of ZipExpanded key d _ _ \<Rightarrow> if d = 0 then {(b, key)} else {}
      | Hashed d f \<Rightarrow> if d = 0 then {(b, hf_original_key f)} else {} | _ \<Rightarrow> {})"
  "set (dp_apple_double (record_outcome b r outcome s)) = set (dp_apple_double s) \<union>
     (case outcome of SkippedAppleDouble d \<Rightarrow> if d = 0 then {(b, r)} else {} | _ \<Rightarrow> {})"
  by (simp_all add: record_outcome_def Let_def split: item_outcome.splits)

text \<open>Where a finished root item ends up: tainted, finished, or skipped as a resource fork.\<close>

lemma finish_item_roots:
  assumes fin: "finishes env buckets item others outcome s (finish_item env buckets item s)"
    and run: "process_item env buckets item (dp_counter s, dp_scratch s) = (disk, outcome)"
  shows "set (dp_finished_root_keys (finish_item env buckets item s)) \<subseteq> set (dp_finished_root_keys s) \<union>
      {r. qi_depth item = 0 \<and> r = (qi_bucket_alias item, qi_display_key item)}"
    "set (dp_apple_double (finish_item env buckets item s)) \<subseteq> set (dp_apple_double s) \<union>
      {r. qi_depth item = 0 \<and> r = item_root item \<and> is_apple_double_basename (qi_display_key item)}"
    "qi_depth item = 0 \<Longrightarrow> qi_display_key item = qi_root_key item \<Longrightarrow>
      item_root item \<in> dp_tainted_roots (finish_item env buckets item s) \<union>
        set (dp_finished_root_keys (finish_item env buckets item s)) \<union> set (dp_apple_double (finish_item env buckets item s))"
    "set (dp_finished_root_keys s) \<subseteq> set (dp_finished_root_keys (finish_item env buckets item s))"
    "set (dp_apple_double s) \<subseteq> set (dp_apple_double (finish_item env buckets item s))"
proof -
  obtain c fs where disk: "disk = (c, fs)" by fastforce
  have eq: "finish_item env buckets item s = record_outcome (qi_bucket_alias item) (qi_root_key item) outcome
      (s\<lparr>dp_in_flight := remove1 item (dp_in_flight s), dp_counter := c, dp_scratch := fs\<rparr>)"
    using run disk by (simp add: finish_item_def)
  have ok: "\<exists>before after. outcome_ok env buckets item before after outcome" using fin by (auto simp: finishes_def)
  show "set (dp_finished_root_keys (finish_item env buckets item s)) \<subseteq> set (dp_finished_root_keys s) \<union>
      {r. qi_depth item = 0 \<and> r = (qi_bucket_alias item, qi_display_key item)}"
    using ok by (cases outcome) (auto simp: eq record_outcome_roots outcome_ok_def hashed_ok_def)
  show "set (dp_apple_double (finish_item env buckets item s)) \<subseteq> set (dp_apple_double s) \<union>
      {r. qi_depth item = 0 \<and> r = item_root item \<and> is_apple_double_basename (qi_display_key item)}"
    using ok by (cases outcome) (auto simp: eq record_outcome_roots outcome_ok_def item_root_def)
  show "item_root item \<in> dp_tainted_roots (finish_item env buckets item s) \<union>
        set (dp_finished_root_keys (finish_item env buckets item s)) \<union> set (dp_apple_double (finish_item env buckets item s))"
    if "qi_depth item = 0" "qi_display_key item = qi_root_key item"
    using ok that by (cases outcome) (auto simp: eq record_outcome_roots outcome_ok_def hashed_ok_def item_root_def taints_def)
  show "set (dp_finished_root_keys s) \<subseteq> set (dp_finished_root_keys (finish_item env buckets item s))"
    "set (dp_apple_double s) \<subseteq> set (dp_apple_double (finish_item env buckets item s))"
    by (auto simp: eq record_outcome_roots)
qed

lemma root_item_simps [simp]:
  "qi_depth (root_item t) = 0" "qi_display_key (root_item t) = dt_key t" "qi_root_key (root_item t) = dt_key t"
  "qi_bucket_alias (root_item t) = dt_bucket_alias t" "qi_path (root_item t) = None" "item_root (root_item t) = task_root t"
  by (simp_all add: root_item_def item_root_def task_root_def)

lemma finish_inv:
  assumes inv: "dedup_inv env buckets tasks s" and item: "item \<in> set (dp_in_flight s)"
  shows "dedup_inv env buckets tasks (finish_item env buckets item s)"
proof -
  let ?s = "finish_item env buckets item s"
  obtain others outcome where fin: "finishes env buckets item others outcome s ?s"
    and run: "process_item env buckets item (dp_counter s, dp_scratch s) = ((dp_counter ?s, dp_scratch ?s), outcome)"
    using finish_item_finishes [OF inv item] .
  note pend = finishes_pending [OF fin] and roots = finish_item_roots [OF fin run]
  have disk: "disk_ok env s" and old: "origin tasks s" using inv by (simp_all add: dedup_inv_def)
  have mine: "\<exists>t \<in> set tasks. item = root_item t" if "qi_depth item = 0"
    using old that item by (auto simp: origin_def)
  have "origin tasks ?s"
    unfolding origin_def
  proof (intro conjI ballI impI)
    fix i
    assume i: "i \<in> set (pending ?s)" "qi_depth i = 0"
    then have "i \<in> set others \<union> set (new_items outcome)" using pend(2) by blast
    then have "i \<in> set others" using new_item_roots [OF fin] i(2) by blast
    then have "i \<in> set (pending s)" using pend(1) by simp
    then show "i \<in> root_item ` set tasks" using old i(2) unfolding origin_def by blast
  next
    show "set (dp_finished_root_keys ?s) \<subseteq> task_root ` set tasks"
    proof
      fix r
      assume "r \<in> set (dp_finished_root_keys ?s)"
      then consider "r \<in> set (dp_finished_root_keys s)" | "qi_depth item = 0" "r = (qi_bucket_alias item, qi_display_key item)"
        by (elim UnE [OF subsetD [OF roots(1)]]) simp_all
      then show "r \<in> task_root ` set tasks"
      proof cases
        case 1
        then show ?thesis using old unfolding origin_def by blast
      next
        case 2
        then obtain t where "t \<in> set tasks" "item = root_item t" using mine by blast
        then show ?thesis using 2(2) by (simp add: task_root_def)
      qed
    qed
  next
    fix r
    assume "r \<in> set (dp_apple_double ?s)"
    then consider "r \<in> set (dp_apple_double s)"
      | "qi_depth item = 0" "r = item_root item" "is_apple_double_basename (qi_display_key item)"
      by (elim UnE [OF subsetD [OF roots(2)]]) simp_all
    then show "\<exists>t \<in> set tasks. r = task_root t \<and> is_apple_double_basename (dt_key t)"
    proof cases
      case 1
      then show ?thesis using old unfolding origin_def by blast
    next
      case 2
      then obtain t where "t \<in> set tasks" "item = root_item t" using mine by blast
      then show ?thesis using 2(2,3) by auto
    qed
  qed
  moreover have "accounted ?s t" if t: "t \<in> set tasks" for t
  proof -
    have "accounted s t" using inv t by (simp add: dedup_inv_def)
    then consider "root_item t \<in> set others" | "root_item t = item"
      | "task_root t \<in> dp_tainted_roots s \<union> set (dp_finished_root_keys s) \<union> set (dp_apple_double s)"
      using pend(1) unfolding accounted_def by blast
    then show ?thesis
    proof cases
      case 1
      then show ?thesis using pend(2) unfolding accounted_def by blast
    next
      case 2
      then have "qi_depth item = 0" "qi_display_key item = qi_root_key item" "item_root item = task_root t" by auto
      then show ?thesis using roots(3) by (simp add: accounted_def)
    next
      case 3
      moreover have "dp_tainted_roots s \<subseteq> dp_tainted_roots ?s" using fin by (auto simp: finishes_def)
      ultimately show ?thesis using roots(4,5) unfolding accounted_def by blast
    qed
  qed
  moreover have "traced env buckets tasks ?s"
    unfolding traced_def
  proof (intro conjI ballI impI)
    fix i
    assume i: "i \<in> set (pending ?s)" "qi_depth i \<noteq> 0"
    then consider "i \<in> set (pending s)" | "i \<in> set (new_items outcome)" using pend by blast
    then show "CHR ''!'' \<in> set (qi_display_key i)"
    proof cases
      case 1
      then show ?thesis using inv i(2) unfolding dedup_inv_def traced_def by blast
    next
      case 2
      then show ?thesis using fin
        by (auto simp: finishes_def outcome_ok_def members_ok_def new_items_def split: item_outcome.splits)
    qed
  next
    fix f
    assume "f \<in> set (dp_hashed_files ?s)"
    then consider "f \<in> set (dp_hashed_files s)" | d where "outcome = Hashed d f"
      using fin by (cases outcome) (auto simp: finishes_def new_hashed_def)
    then show "CHR ''!'' \<in> set (hf_original_key f) \<or>
        (\<exists>t \<in> set tasks. \<exists>data. task_root t = (hf_bucket_alias f, hf_original_key f) \<and>
           promised env buckets [] (root_item t) = Some [(dt_key t, data)] \<and> hf_content_hash f = ie_sha256 env data)"
    proof cases
      case 1
      then show ?thesis using inv unfolding dedup_inv_def traced_def by blast
    next
      case 2
      then obtain data where f: "hf_original_key f = qi_display_key item" "hf_bucket_alias f = qi_bucket_alias item"
        "hf_content_hash f = ie_sha256 env data" "promised env buckets (dp_scratch s) item = Some [(qi_display_key item, data)]"
        using fin by (auto simp: finishes_def outcome_ok_def hashed_ok_def)
      show ?thesis
      proof (cases "qi_depth item = 0")
        case True
        then obtain t where t: "t \<in> set tasks" "item = root_item t" using mine by blast
        then have "promised env buckets [] (root_item t) = promised env buckets (dp_scratch s) item"
          by (simp add: promised_def item_data_def)
        then show ?thesis using t f by (auto simp: task_root_def)
      next
        case False
        moreover have "item \<in> set (pending s)" using item by simp
        ultimately show ?thesis using inv f(1) unfolding dedup_inv_def traced_def by auto
      qed
    qed
  qed
  ultimately show ?thesis
    using inv finishes_disk [OF disk fin] finishes_promise [OF disk fin] by (simp add: dedup_inv_def)
qed

lemma start_inv: "dedup_inv env buckets tasks (dedup_start tasks fs)"
proof -
  have none: "List.map_filter qi_path (map root_item ts) = []" for ts by (induction ts) (simp_all add: List.map_filter_def)
  have "kept_promise env buckets (dedup_start tasks fs) t" if "t \<in> set tasks" for t
  proof -
    have same: "promised env buckets fs (root_item t) = promised env buckets [] (root_item t)"
      by (simp add: promised_def item_data_def)
    have mem: "root_item t \<in> {i \<in> set (pending (dedup_start tasks fs)). item_root i = task_root t}"
      using that by (simp add: dedup_start_def)
    have "dp_scratch (dedup_start tasks fs) = fs" by (simp add: dedup_start_def)
    then show ?thesis unfolding kept_promise_def using mem same by fastforce
  qed
  then show ?thesis
    by (auto simp: dedup_inv_def disk_ok_def owned_def none origin_def traced_def accounted_def) (auto simp: dedup_start_def none)
qed

lemma run_inv:
  assumes "dedup_run env buckets concurrency (dedup_start tasks fs) s"
  shows "dedup_inv env buckets tasks s"
  using assms
proof (induction rule: rtranclp_induct)
  case (step s s')
  then show ?case by (auto elim!: dedup_stepE intro: take_inv finish_inv)
qed (rule start_inv)

section \<open>The end of the run against the reference\<close>

text \<open>When the workers are done, every object is tainted, finished or a skipped resource fork, and the
  files of an untainted one are all delivered.\<close>

lemma done_accounted:
  assumes "dedup_inv env buckets tasks s" and "dedup_done s" and "t \<in> set tasks"
  shows "task_root t \<in> dp_tainted_roots s \<union> set (dp_finished_root_keys s) \<union> set (dp_apple_double s)"
  using assms by (auto simp: dedup_inv_def accounted_def dedup_done_def)

lemma done_delivered:
  assumes "dedup_inv env buckets tasks s" and "dedup_done s" and "t \<in> set tasks" and "task_root t \<notin> dp_tainted_roots s"
  obtains files where "promised env buckets [] (root_item t) = Some files" "set files \<subseteq> delivered s (dt_bucket_alias t)"
  using assms by (auto simp: dedup_inv_def kept_promise_def dedup_done_def)

lemma append_rows_prefix:
  "append_rows app rows contents = (contents', r) \<Longrightarrow>
     \<exists>n \<le> length rows. (r = Inr () \<longrightarrow> n = length rows) \<and>
       contents' = fold (\<lambda>row c. fst (append_processed (Inr ()) row c)) (take n rows) contents"
proof (induction app rows contents rule: append_rows.induct)
  case (2 app row rows contents)
  show ?case
  proof (cases "app row")
    case (Inl err)
    then show ?thesis using "2.prems" by (intro exI [of _ 0]) (auto simp: append_processed_def)
  next
    case (Inr u)
    then have next1: "append_processed (app row) row contents = (fst (append_processed (Inr ()) row contents), Inr ())"
      by (simp add: append_processed_def)
    then obtain n where "n \<le> length rows" "r = Inr () \<longrightarrow> n = length rows"
      "contents' = fold (\<lambda>row c. fst (append_processed (Inr ()) row c)) (take n rows)
         (fst (append_processed (Inr ()) row contents))"
      using "2.IH" [OF next1 [symmetric]] "2.prems" by auto
    then show ?thesis by (intro exI [of _ "Suc n"]) auto
  qed
qed auto

lemma finish_run_rows:
  assumes "finish_run env remote local_output result_dir index processed s = (st, processed', r)"
    and "placement_of env result_dir index s = ((summary, records, placed_keys), st1)"
  obtains rows where "st = st1" "set rows \<subseteq> set (retained_roots s placed_keys) \<union> set (dp_apple_double s)"
    "processed' = fold (\<lambda>row c. fst (append_processed (Inr ()) row c)) rows processed"
    "\<And>x. r = Inr x \<Longrightarrow> set rows = set (retained_roots s placed_keys) \<union> set (dp_apple_double s)"
proof (cases "write_report (ee_report env) records (dp_archive_failures s)")
  case (Inl err)
  then show ?thesis using assms by (intro that [of "[]"]) (auto simp: finish_run_def)
next
  case (Inr report)
  let ?rows = "retained_roots s placed_keys @ dp_apple_double s"
  obtain r1 where app: "append_rows (ee_append env) ?rows processed = (processed', r1)" and st: "st = st1"
    and ok: "\<And>x. r = Inr x \<Longrightarrow> r1 = Inr ()"
    using assms Inr by (cases "append_rows (ee_append env) ?rows processed") (auto simp: finish_run_def split: sum.splits)
  obtain n where n: "n \<le> length ?rows" "r1 = Inr () \<longrightarrow> n = length ?rows"
    "processed' = fold (\<lambda>row c. fst (append_processed (Inr ()) row c)) (take n ?rows) processed"
    using append_rows_prefix [OF app] by blast
  have "set (take n ?rows) \<subseteq> set ?rows" by (rule set_take_subset)
  moreover have "set (take n ?rows) = set ?rows" if "r = Inr x" for x
    using n(2) ok [OF that] by (simp del: take_append)
  ultimately show ?thesis using that [of "take n ?rows"] st n(3) by (simp del: take_append)
qed

text \<open>What the checkpoint owes for an object it records: every file the object holds has a copy with its
  hash in the result, except that a zip's files may be missing when a placement failed.\<close>

definition is_kept :: "item_env \<Rightarrow> dedup_buckets \<Rightarrow> placement_summary \<Rightarrow> placing \<Rightarrow> deduplicate_task \<Rightarrow> bool" where
  "is_kept env buckets summary st t \<longleftrightarrow> is_apple_double_basename (dt_key t) \<or>
     (\<exists>files. promised env buckets [] (root_item t) = Some files \<and>
       (is_zip_key (dt_key t) \<and> 0 < ps_failed summary \<or>
        (\<forall>(key, data) \<in> set files. hash_paths (ie_sha256 env) st (ie_sha256 env data) \<noteq> {})))"

lemma retained_kept:
  assumes inv: "dedup_inv env buckets tasks s" and fin: "dedup_done s"
    and backed: "index_backed (ie_sha256 env) \<lparr>pl_scratch = dp_scratch s, pl_result = result_dir, pl_index = index\<rparr>"
    and place: "placement_of e result_dir index s = ((summary, records, placed_keys), st)"
    and t: "t \<in> set tasks" "CHR ''!'' \<notin> set (dt_key t)" and row: "task_root t \<in> set (retained_roots s placed_keys)"
  shows "is_kept env buckets summary st t"
proof -
  let ?sha = "ie_sha256 env"
  have ready: "\<forall>f \<in> set (dp_hashed_files s). ready ?sha (dp_scratch s) f"
    and dist: "distinct (map hf_scratch_path (dp_hashed_files s))"
    using inv by (simp_all add: dedup_inv_def disk_ok_def owned_def)
  note placed = place_all [OF _ dist backed place [unfolded placement_of_def], simplified, OF ready]
  have clean: "task_root t \<notin> dp_tainted_roots s"
    and how: "task_root t \<in> set placed_keys \<or> is_zip_key (dt_key t)"
    using row by (auto simp: retained_roots_def task_root_def)
  obtain files where files: "promised env buckets [] (root_item t) = Some files" "set files \<subseteq> delivered s (dt_bucket_alias t)"
    using done_delivered [OF inv fin t(1) clean] .
  show ?thesis
  proof (cases "is_zip_key (dt_key t)")
    case True
    have "hash_paths ?sha st (?sha data) \<noteq> {}" if "ps_failed summary = 0" "(key, data) \<in> set files" for key data
    proof -
      obtain f where f: "f \<in> set (dp_hashed_files s)" "fs_get (dp_scratch s) (hf_scratch_path f) = Some data"
        using files(2) \<open>(key, data) \<in> set files\<close> by (auto simp: delivered_def)
      then have "hf_content_hash f = ?sha data" using ready by (auto simp: ready_def)
      then show ?thesis using placed(2) f(1) that(1) by auto
    qed
    then show ?thesis using files(1) True unfolding is_kept_def by blast
  next
    case False
    then have key: "(dt_bucket_alias t, dt_key t) \<in> set placed_keys" using how by (simp add: task_root_def)
    obtain f where f: "f \<in> set (dp_hashed_files s)" "hf_bucket_alias f = dt_bucket_alias t" "hf_original_key f = dt_key t"
      "hash_paths ?sha st (hf_content_hash f) \<noteq> {}"
      using bspec [OF placed(1) key] by auto
    then obtain t' data where t': "task_root t' = task_root t" "promised env buckets [] (root_item t') = Some [(dt_key t', data)]"
      "hf_content_hash f = ?sha data"
      using inv t(2) by (fastforce simp: dedup_inv_def traced_def task_root_def)
    have "promised env buckets [] (root_item t) = promised env buckets [] (root_item t')"
      using t'(1) by (cases "bucket_of buckets (dt_bucket_alias t)")
        (auto simp: promised_def item_data_def source_address_def root_item_def task_root_def)
    then show ?thesis using t' f(4) files(1) unfolding is_kept_def by auto
  qed
qed

text \<open>Two limits the properties leave room for: a zip that unpacked is recorded whatever became of its
  members' placement; and a key is read from its last \<open>!\<close> on, so an archive with one at the end of its
  name is never unpacked and loses its name.\<close>

lemma zip_recorded_whatever_is_placed:
  "(b, k) \<in> set (dp_finished_root_keys s) \<Longrightarrow> (b, k) \<notin> dp_tainted_roots s \<Longrightarrow> is_zip_key k \<Longrightarrow>
     (b, k) \<in> set (retained_roots s [])"
  by (simp add: retained_roots_def)

lemma bang_zip_not_unpacked: "\<not> is_zip_key ''Photos!.zip'' \<and> name_or_tail ''Photos!.zip'' = ''.zip''"
  by code_simp

section \<open>Properties\<close>

text \<open>C17. The worker phase always ends: no schedule of the workers goes on for ever, however the zips are
  nested and whatever they claim to hold; while an item is queued or in flight some worker can move; and from
  the start of a run the workers reach a state with nothing left.\<close>

theorem expansion_terminates:
  "(\<nexists>run. \<forall>i. dedup_step env buckets concurrency (run i) (run (Suc i))) \<and>
   (\<forall>s. dedup_done s \<or> (\<exists>s'. dedup_step env buckets concurrency s s')) \<and>
   (\<exists>s. dedup_run env buckets concurrency (dedup_start tasks fs) s \<and> dedup_done s)"
proof (intro conjI)
  show "\<nexists>run. \<forall>i. dedup_step env buckets concurrency (run i) (run (Suc i))"
    using step_wf [of env buckets concurrency] unfolding wfp_def wf_iff_no_infinite_down_chain by simp
qed (use step_possible run_to_done in blast)+

text \<open>C18. The checkpoint of a whole run, for every schedule of its workers: when they are done every
  object has been finished, tainted by a failure, or skipped as a resource fork. What the run then appends to
  \<open>.processed\<close> are rows of its own objects, none of them tainted except resource forks; and an object
  recorded (whose key has no \<open>!\<close> of its own) is kept: it could be read and unpacked completely, and each
  file in it, however deeply nested, has a copy with its hash in the result. The one exception is a zip when
  a placement failed. (The content index the run starts from names copies that are there, as this theorem shows
  of the index every run leaves behind.)\<close>

theorem checkpoint_only_when_kept:
  assumes "dedup_run env buckets concurrency (dedup_start tasks fs) s" and "dedup_done s"
    and "index_backed (ie_sha256 env) \<lparr>pl_scratch = dp_scratch s, pl_result = result_dir, pl_index = index\<rparr>"
    and "placement_of e result_dir index s = ((summary, records, placed_keys), st1)"
    and "finish_run e remote local_output result_dir index processed s = (st, processed', r)"
  shows "(\<forall>t \<in> set tasks. task_root t \<in> dp_tainted_roots s \<union> set (dp_finished_root_keys s) \<union> set (dp_apple_double s)) \<and>
    index_backed (ie_sha256 env) st \<and>
    (\<exists>rows. processed' = fold (\<lambda>row c. fst (append_processed (Inr ()) row c)) rows processed \<and>
      set rows \<subseteq> task_root ` set tasks \<and>
      (\<forall>t \<in> set tasks. task_root t \<in> set rows \<and> CHR ''!'' \<notin> set (dt_key t) \<longrightarrow> is_kept env buckets summary st t) \<and>
      (\<forall>t \<in> set tasks. task_root t \<in> set rows \<and> task_root t \<in> dp_tainted_roots s \<longrightarrow>
         task_root t \<in> set (dp_apple_double s)))"
proof -
  have inv: "dedup_inv env buckets tasks s" using assms(1) by (rule run_inv)
  obtain rows where rows: "st = st1" "set rows \<subseteq> set (retained_roots s placed_keys) \<union> set (dp_apple_double s)"
    "processed' = fold (\<lambda>row c. fst (append_processed (Inr ()) row c)) rows processed"
    using finish_run_rows [OF assms(5,4)] by metis
  have origin: "set (retained_roots s placed_keys) \<subseteq> task_root ` set tasks"
    "\<forall>r \<in> set (dp_apple_double s). \<exists>t \<in> set tasks. r = task_root t \<and> is_apple_double_basename (dt_key t)"
    using inv by (auto simp: dedup_inv_def origin_def retained_roots_def)
  have "set rows \<subseteq> task_root ` set tasks" using rows(2) origin by blast
  moreover have "is_kept env buckets summary st t"
    if t: "t \<in> set tasks" "task_root t \<in> set rows" "CHR ''!'' \<notin> set (dt_key t)" for t
  proof (cases "task_root t \<in> set (retained_roots s placed_keys)")
    case True
    then show ?thesis using retained_kept [OF inv assms(2,3,4) t(1,3)] rows(1) by simp
  next
    case False
    then have "task_root t \<in> set (dp_apple_double s)" using t(2) rows(2) by blast
    then show ?thesis using origin(2) by (fastforce simp: is_kept_def task_root_def)
  qed
  moreover have "task_root t \<in> set (dp_apple_double s)"
    if "task_root t \<in> set rows" "task_root t \<in> dp_tainted_roots s" for t
    using that rows(2) by (auto simp: retained_roots_def task_root_def)
  moreover have "index_backed (ie_sha256 env) st"
    using inv rows(1) place_backed [OF _ _ assms(3) assms(4) [unfolded placement_of_def]]
    by (auto simp: dedup_inv_def disk_ok_def owned_def)
  ultimately show ?thesis using done_accounted [OF inv assms(2)] rows(3) by blast
qed

text \<open>One object, one worker: it is downloaded, hashed, placed and recorded.\<close>

definition solo_env :: item_env where
  "solo_env = \<lparr>ie_free_space = \<lambda>_. None, ie_mkdir = \<lambda>_. Inr (), ie_copyto = \<lambda>_. Inr ''data'',
     ie_free_space_zip = \<lambda>_. None, ie_open = \<lambda>_. Inr (), ie_unzip = \<lambda>_. Inl ''not a zip'', ie_create = \<lambda>_. Inr (),
     ie_read = \<lambda>_. Inr (), ie_sha256 = id, ie_join = \<lambda>_. Inr ()\<rparr>"

definition solo_end :: end_env where
  "solo_end = \<lparr>ee_placing = demo_placing_env, ee_report = Inr (), ee_append = \<lambda>_. Inr (),
     ee_upload = \<lambda>_ _. Inl ''unused''\<rparr>"

definition solo_task :: deduplicate_task where
  "solo_task = \<lparr>dt_bucket_alias = ''src'', dt_key = ''x.jpg'', dt_size = 4\<rparr>"

definition solo_final :: dedup_pool where
  "solo_final = (dedup_start [solo_task] [])\<lparr>dp_queue := [], dp_counter := 1,
     dp_scratch := [([''000000000000.jpg''], ''data'')],
     dp_hashed_files := [\<lparr>hf_original_key = ''x.jpg'', hf_bucket_alias = ''src'', hf_scratch_path = [''000000000000.jpg''],
       hf_extension = ''jpg'', hf_content_hash = ''data''\<rparr>], dp_finished_root_keys := [(''src'', ''x.jpg'')]\<rparr>"

lemma solo_run:
  "dedup_run solo_env [(demo_bucket, [])] 1 (dedup_start [solo_task] []) solo_final \<and> dedup_done solo_final"
proof -
  let ?taken = "(dedup_start [solo_task] [])\<lparr>dp_queue := [], dp_in_flight := [root_item solo_task]\<rparr>"
  have "dedup_step solo_env [(demo_bucket, [])] 1 (dedup_start [solo_task] []) ?taken"
    using dedup_step.take_item [of "dedup_start [solo_task] []" "root_item solo_task" "[]" 1]
    by (simp add: dedup_start_def dedup_worker_count_def)
  moreover have "dedup_step solo_env [(demo_bucket, [])] 1 ?taken (finish_item solo_env [(demo_bucket, [])] (root_item solo_task) ?taken)"
    by (rule dedup_step.end_item) simp
  moreover have "process_item solo_env [(demo_bucket, [])] (root_item solo_task) (0, []) =
      ((1, [([''000000000000.jpg''], ''data'')]), Hashed 0 \<lparr>hf_original_key = ''x.jpg'', hf_bucket_alias = ''src'',
         hf_scratch_path = [''000000000000.jpg''], hf_extension = ''jpg'', hf_content_hash = ''data''\<rparr>)" by code_simp
  then have "finish_item solo_env [(demo_bucket, [])] (root_item solo_task) ?taken = solo_final"
    by (simp add: finish_item_def record_outcome_def solo_final_def dedup_start_def solo_task_def)
  ultimately show ?thesis by (auto simp: solo_final_def dedup_done_def dedup_start_def)
qed

theorem checkpoint_only_when_kept_witness:
  "\<exists>st processed' r rows. finish_run solo_end None ''out'' [] (load_index None) None solo_final = (st, processed', r) \<and>
     processed' = fold (\<lambda>row c. fst (append_processed (Inr ()) row c)) rows None \<and> set rows \<subseteq> {(''src'', ''x.jpg'')} \<and>
     (''src'', ''x.jpg'') \<in> set (dp_finished_root_keys solo_final)"
proof -
  obtain summary records placed_keys st1 where place: "placement_of solo_end [] (load_index None) solo_final =
      ((summary, records, placed_keys), st1)" by (metis prod.exhaust)
  obtain st processed' r where fin: "finish_run solo_end None ''out'' [] (load_index None) None solo_final = (st, processed', r)"
    by (metis prod.exhaust)
  have backed: "index_backed (ie_sha256 solo_env) \<lparr>pl_scratch = dp_scratch solo_final, pl_result = [], pl_index = load_index None\<rparr>"
    by (simp add: index_backed_def load_index_def)
  have "task_root solo_task \<in> dp_tainted_roots solo_final \<union> set (dp_finished_root_keys solo_final) \<union> set (dp_apple_double solo_final)"
    "\<exists>rows. processed' = fold (\<lambda>row c. fst (append_processed (Inr ()) row c)) rows None \<and> set rows \<subseteq> task_root ` set [solo_task]"
    using checkpoint_only_when_kept [OF conjunct1 [OF solo_run] conjunct2 [OF solo_run] backed place fin] by auto
  then show ?thesis using fin by (auto simp: task_root_def solo_task_def solo_final_def dedup_start_def)
qed

end
