(* ===== verification/TransformFormat.thy ===== *)
theory TransformFormat
  imports DataCore
begin

text \<open>
  \<open>transform/format.rs\<close>: the input kinds of \<open>--input-file-type\<close> with their spellings, names, families
  and output extensions, and the two quality menus.
\<close>

section \<open>Input kinds\<close>

definition unknown_value :: "string \<Rightarrow> string \<Rightarrow> string \<Rightarrow> string" where
  "unknown_value flag value expected = ''unknown '' @ flag @ '' '' @ [CHR 0x27] @ value @ [CHR 0x27] @ '' '' @ expected"

definition KINDS_EXPECTED :: string where
  "KINDS_EXPECTED =
     ''(expected an image kind png, jpeg, heic, avif, tif, tiff, webp or bmp; an icon or artwork '' @
     ''kind ico, icns, procreate or procreate-2; a vector kind ai, emz, eps or svg; a video kind '' @
     ''mov, m4v or mp4; an audio kind mp4-audio, m4a, mp3, aac, wav or opus; a spreadsheet kind '' @
     ''numbers, xlsx, xls or csv; a document kind doc, docx, pages, rtf, pdf, epub, pptx or key; '' @
     ''a text kind txt, md, markdown, mkd, rst, textclipping, ics or vcf; or tsv)''"

datatype input_file_type =
    PngKind | JpegKind | HeicKind | MovKind | M4vKind | Mp4Kind | Mp4AudioKind | NumbersKind |
    XlsxKind | XlsKind | CsvKind | M4aKind | Mp3Kind | AacKind | WavKind | OpusKind | DocKind |
    DocxKind | PagesKind | RtfKind | PdfKind | EpubKind | PptxKind | KeyKind | TxtKind | MdKind |
    RstKind | TextclippingKind | TsvKind | AvifKind | TifKind | TiffKind | WebpKind | IcoKind |
    IcnsKind | ProcreateKind | Procreate2Kind | AiKind | EmzKind | SvgKind | BmpKind | EpsKind |
    IcsKind | VcfKind

fun kind_extensions :: "input_file_type \<Rightarrow> string list" where
  "kind_extensions PngKind = [''png'']"
| "kind_extensions JpegKind = [''jpg'', ''jpeg'']"
| "kind_extensions HeicKind = [''heic'']"
| "kind_extensions MovKind = [''mov'']"
| "kind_extensions M4vKind = [''m4v'']"
| "kind_extensions Mp4Kind = [''mp4'']"
| "kind_extensions Mp4AudioKind = [''mp4'']"
| "kind_extensions NumbersKind = [''numbers'']"
| "kind_extensions XlsxKind = [''xlsx'']"
| "kind_extensions XlsKind = [''xls'']"
| "kind_extensions CsvKind = [''csv'']"
| "kind_extensions M4aKind = [''m4a'']"
| "kind_extensions Mp3Kind = [''mp3'']"
| "kind_extensions AacKind = [''aac'']"
| "kind_extensions WavKind = [''wav'']"
| "kind_extensions OpusKind = [''opus'']"
| "kind_extensions DocKind = [''doc'']"
| "kind_extensions DocxKind = [''docx'']"
| "kind_extensions PagesKind = [''pages'']"
| "kind_extensions RtfKind = [''rtf'']"
| "kind_extensions PdfKind = [''pdf'']"
| "kind_extensions EpubKind = [''epub'']"
| "kind_extensions PptxKind = [''pptx'']"
| "kind_extensions KeyKind = [''key'']"
| "kind_extensions TxtKind = [''txt'']"
| "kind_extensions MdKind = [''md'', ''markdown'', ''mkd'']"
| "kind_extensions RstKind = [''rst'']"
| "kind_extensions TextclippingKind = [''textclipping'']"
| "kind_extensions TsvKind = [''tsv'']"
| "kind_extensions AvifKind = [''avif'']"
| "kind_extensions TifKind = [''tif'']"
| "kind_extensions TiffKind = [''tiff'']"
| "kind_extensions WebpKind = [''webp'']"
| "kind_extensions IcoKind = [''ico'']"
| "kind_extensions IcnsKind = [''icns'']"
| "kind_extensions ProcreateKind = [''procreate'']"
| "kind_extensions Procreate2Kind = [''procreate 2'']"
| "kind_extensions AiKind = [''ai'']"
| "kind_extensions EmzKind = [''emz'']"
| "kind_extensions SvgKind = [''svg'']"
| "kind_extensions BmpKind = [''bmp'']"
| "kind_extensions EpsKind = [''eps'']"
| "kind_extensions IcsKind = [''ics'']"
| "kind_extensions VcfKind = [''vcf'']"

definition canonical_extension :: "input_file_type \<Rightarrow> string" where
  "canonical_extension k = hd (kind_extensions k)"

definition kind_name :: "input_file_type \<Rightarrow> string" where
  "kind_name k = (case k of
     Mp4AudioKind \<Rightarrow> ''mp4-audio''
   | Procreate2Kind \<Rightarrow> ''procreate-2''
   | _ \<Rightarrow> canonical_extension k)"

definition matches_extension :: "input_file_type \<Rightarrow> string \<Rightarrow> bool" where
  "matches_extension k ext \<longleftrightarrow> to_lower ext \<in> set (kind_extensions k)"

text \<open>The arms of \<open>parse\<close>, in order.\<close>

definition PARSE_ARMS :: "(string \<times> input_file_type) list" where
  "PARSE_ARMS =
    [
     (''png'', PngKind), (''jpeg'', JpegKind), (''jpg'', JpegKind), (''heic'', HeicKind),
     (''mov'', MovKind), (''m4v'', M4vKind), (''mp4'', Mp4Kind), (''mp4-audio'', Mp4AudioKind),
     (''numbers'', NumbersKind), (''xlsx'', XlsxKind), (''xls'', XlsKind), (''csv'', CsvKind),
     (''m4a'', M4aKind), (''mp3'', Mp3Kind), (''aac'', AacKind), (''wav'', WavKind),
     (''opus'', OpusKind), (''doc'', DocKind), (''docx'', DocxKind), (''pages'', PagesKind),
     (''rtf'', RtfKind), (''pdf'', PdfKind), (''epub'', EpubKind), (''pptx'', PptxKind),
     (''key'', KeyKind), (''txt'', TxtKind), (''md'', MdKind), (''markdown'', MdKind),
     (''mkd'', MdKind), (''rst'', RstKind), (''textclipping'', TextclippingKind),
     (''tsv'', TsvKind), (''avif'', AvifKind), (''tif'', TifKind), (''tiff'', TiffKind),
     (''webp'', WebpKind), (''ico'', IcoKind), (''icns'', IcnsKind),
     (''procreate'', ProcreateKind), (''procreate-2'', Procreate2Kind),
     (''procreate 2'', Procreate2Kind), (''ai'', AiKind), (''emz'', EmzKind), (''svg'', SvgKind),
     (''bmp'', BmpKind), (''eps'', EpsKind), (''ics'', IcsKind), (''vcf'', VcfKind)]"

definition parse_kind :: "string \<Rightarrow> string + input_file_type" where
  "parse_kind value = (let lower = to_lower value in
     case map_of PARSE_ARMS lower of
       Some k \<Rightarrow> Inr k
     | None \<Rightarrow> Inl (unknown_value ''--input-file-type'' lower KINDS_EXPECTED))"

definition is_video :: "input_file_type \<Rightarrow> bool" where
  "is_video k \<longleftrightarrow> k \<in> {MovKind, M4vKind, Mp4Kind}"

fun output_extension :: "input_file_type \<Rightarrow> string" where
  "output_extension PngKind = ''jpg''"
| "output_extension JpegKind = ''jpg''"
| "output_extension HeicKind = ''jpg''"
| "output_extension MovKind = ''mp4''"
| "output_extension M4vKind = ''mp4''"
| "output_extension Mp4Kind = ''mp4''"
| "output_extension Mp4AudioKind = ''opus''"
| "output_extension NumbersKind = ''csv''"
| "output_extension XlsxKind = ''csv''"
| "output_extension XlsKind = ''csv''"
| "output_extension CsvKind = ''csv''"
| "output_extension M4aKind = ''opus''"
| "output_extension Mp3Kind = ''opus''"
| "output_extension AacKind = ''opus''"
| "output_extension WavKind = ''opus''"
| "output_extension OpusKind = ''opus''"
| "output_extension DocKind = ''pdf''"
| "output_extension DocxKind = ''pdf''"
| "output_extension PagesKind = ''pdf''"
| "output_extension RtfKind = ''pdf''"
| "output_extension PdfKind = ''pdf''"
| "output_extension EpubKind = ''pdf''"
| "output_extension PptxKind = ''pdf''"
| "output_extension KeyKind = ''pdf''"
| "output_extension TxtKind = ''txt''"
| "output_extension MdKind = ''txt''"
| "output_extension RstKind = ''txt''"
| "output_extension TextclippingKind = ''txt''"
| "output_extension TsvKind = ''csv''"
| "output_extension AvifKind = ''jpg''"
| "output_extension TifKind = ''jpg''"
| "output_extension TiffKind = ''jpg''"
| "output_extension WebpKind = ''jpg''"
| "output_extension IcoKind = ''png''"
| "output_extension IcnsKind = ''png''"
| "output_extension ProcreateKind = ''png''"
| "output_extension Procreate2Kind = ''png''"
| "output_extension AiKind = ''svg''"
| "output_extension EmzKind = ''svg''"
| "output_extension SvgKind = ''svg''"
| "output_extension BmpKind = ''jpg''"
| "output_extension EpsKind = ''svg''"
| "output_extension IcsKind = ''txt''"
| "output_extension VcfKind = ''txt''"

definition is_audio :: "input_file_type \<Rightarrow> bool" where
  "is_audio k \<longleftrightarrow> k \<in> {Mp4AudioKind, M4aKind, Mp3Kind, AacKind, WavKind, OpusKind}"

definition is_spreadsheet :: "input_file_type \<Rightarrow> bool" where
  "is_spreadsheet k \<longleftrightarrow> k \<in> {NumbersKind, XlsxKind, XlsKind, CsvKind}"

section \<open>Qualities\<close>

datatype audio_quality = LowAudio | MediumAudio | HighAudio | Transparent

definition default_audio_quality :: "input_file_type \<Rightarrow> audio_quality" where
  "default_audio_quality k =
     (if k \<in> {M4aKind, Mp3Kind, AacKind, WavKind, OpusKind} then Transparent else MediumAudio)"

fun bitrate :: "audio_quality \<Rightarrow> string" where
  "bitrate LowAudio = ''32k''"
| "bitrate MediumAudio = ''48k''"
| "bitrate HighAudio = ''96k''"
| "bitrate Transparent = ''128k''"

fun audio_name :: "audio_quality \<Rightarrow> string" where
  "audio_name LowAudio = ''low''"
| "audio_name MediumAudio = ''medium''"
| "audio_name HighAudio = ''high''"
| "audio_name Transparent = ''transparent''"

definition parse_audio_quality :: "string \<Rightarrow> string + audio_quality" where
  "parse_audio_quality value = (let lower = to_lower value in
     if lower = ''low'' then Inr LowAudio
     else if lower = ''medium'' then Inr MediumAudio
     else if lower = ''high'' then Inr HighAudio
     else if lower = ''transparent'' then Inr Transparent
     else Inl (unknown_value ''--audio-quality'' lower ''(expected low, medium, high, or transparent)''))"

datatype video_quality = LowVideo | MediumVideo | HighVideo | LosslessVideo

fun crf :: "video_quality \<Rightarrow> nat option" where
  "crf LowVideo = Some 30"
| "crf MediumVideo = Some 24"
| "crf HighVideo = Some 20"
| "crf LosslessVideo = None"

fun video_name :: "video_quality \<Rightarrow> string" where
  "video_name LowVideo = ''low''"
| "video_name MediumVideo = ''medium''"
| "video_name HighVideo = ''high''"
| "video_name LosslessVideo = ''lossless''"

definition parse_video_quality :: "string \<Rightarrow> string + video_quality" where
  "parse_video_quality value = (let lower = to_lower value in
     if lower = ''low'' then Inr LowVideo
     else if lower = ''medium'' then Inr MediumVideo
     else if lower = ''high'' then Inr HighVideo
     else if lower = ''lossless'' then Inr LosslessVideo
     else Inl (unknown_value ''--video-quality'' lower ''(expected low, medium, high, or lossless)''))"

section \<open>Lemmas\<close>

text \<open>All kinds, for proofs by enumeration.\<close>

definition ALL_KINDS :: "input_file_type list" where
  "ALL_KINDS = map snd PARSE_ARMS"

lemma all_kinds: "k \<in> set ALL_KINDS"
  by (cases k) (simp_all add: ALL_KINDS_def PARSE_ARMS_def)

lemma kinds_parse_check:
  "list_all (\<lambda>k. map_of PARSE_ARMS (kind_name k) = Some k \<and> to_lower (kind_name k) = kind_name k \<and>
     list_all (\<lambda>e. to_lower e = e \<and>
       (case map_of PARSE_ARMS e of Some k' \<Rightarrow> e \<in> set (kind_extensions k') | None \<Rightarrow> False)) (kind_extensions k))
   ALL_KINDS"
  by code_simp

lemma kinds_overlap_check:
  "list_all (\<lambda>k. list_all (\<lambda>k'. k = k' \<or> list_all (\<lambda>e. e \<notin> set (kind_extensions k')) (kind_extensions k) \<or>
     {k, k'} = {Mp4Kind, Mp4AudioKind}) ALL_KINDS) ALL_KINDS"
  by code_simp

lemma kinds_family_check:
  "list_all (\<lambda>k. (is_video k \<longleftrightarrow> output_extension k = ''mp4'') \<and> (is_audio k \<longleftrightarrow> output_extension k = ''opus'') \<and>
     (is_spreadsheet k \<longrightarrow> output_extension k = ''csv'')) ALL_KINDS"
  by code_simp

lemma output_extension_plain: "CHR ''.'' \<notin> set (output_extension k)" "CHR ''/'' \<notin> set (output_extension k)"
  "output_extension k \<noteq> []"
  by (cases k; simp)+

text \<open>The menu of kinds is consistent. Every kind's displayed name is accepted back in any case as that
  kind; every file extension of a kind is itself an accepted spelling; a file can belong to two kinds only
  when they are the two readings of \<open>mp4\<close>; the video kinds are those written as \<open>mp4\<close>, the audio kinds
  those written as \<open>opus\<close>, and every spreadsheet becomes \<open>csv\<close>; no output extension has a dot or a
  separator.\<close>

lemma kinds_consistent:
  "(to_lower value = kind_name k \<longrightarrow> parse_kind value = Inr k) \<and>
   (matches_extension k ext \<longrightarrow> (\<exists>k'. parse_kind ext = Inr k' \<and> matches_extension k' ext)) \<and>
   (matches_extension k ext \<and> matches_extension k' ext \<longrightarrow> k = k' \<or> {k, k'} = {Mp4Kind, Mp4AudioKind}) \<and>
   (is_video k \<longleftrightarrow> output_extension k = ''mp4'') \<and> (is_audio k \<longleftrightarrow> output_extension k = ''opus'') \<and>
   (is_spreadsheet k \<longrightarrow> output_extension k = ''csv'') \<and>
   CHR ''.'' \<notin> set (output_extension k) \<and> CHR ''/'' \<notin> set (output_extension k)"
proof -
  note c = kinds_parse_check [unfolded list_all_iff] kinds_overlap_check [unfolded list_all_iff]
    kinds_family_check [unfolded list_all_iff]
  have "to_lower value = kind_name k \<longrightarrow> parse_kind value = Inr k"
    using c(1) all_kinds [of k] by (auto simp: parse_kind_def)
  moreover have "matches_extension k ext \<longrightarrow> (\<exists>k'. parse_kind ext = Inr k' \<and> matches_extension k' ext)"
  proof
    assume "matches_extension k ext"
    then have "case map_of PARSE_ARMS (to_lower ext) of Some k' \<Rightarrow> to_lower ext \<in> set (kind_extensions k') | None \<Rightarrow> False"
      using c(1) all_kinds [of k] by (auto simp: matches_extension_def)
    then show "\<exists>k'. parse_kind ext = Inr k' \<and> matches_extension k' ext"
      by (auto simp: parse_kind_def matches_extension_def split: option.splits)
  qed
  moreover have "matches_extension k ext \<and> matches_extension k' ext \<longrightarrow> k = k' \<or> {k, k'} = {Mp4Kind, Mp4AudioKind}"
    using c(2) all_kinds [of k] all_kinds [of k'] unfolding matches_extension_def by blast
  moreover have "(is_video k \<longleftrightarrow> output_extension k = ''mp4'') \<and> (is_audio k \<longleftrightarrow> output_extension k = ''opus'') \<and>
     (is_spreadsheet k \<longrightarrow> output_extension k = ''csv'')"
    using c(3) all_kinds [of k] by blast
  ultimately show ?thesis using output_extension_plain by blast
qed

lemma kinds_consistent_witness: "parse_kind ''MP4-Audio'' = Inr Mp4AudioKind \<and> parse_kind ''JPG'' = Inr JpegKind"
proof -
  have "to_lower ''MP4-Audio'' = kind_name Mp4AudioKind" "to_lower ''JPG'' = kind_name JpegKind"
    by code_simp+
  then show ?thesis using kinds_consistent [of "''MP4-Audio''" Mp4AudioKind] kinds_consistent [of "''JPG''" JpegKind]
    by blast
qed

end
