(* ===== verification/Placement.thy ===== *)
theory Placement
  imports TransformFormat
begin

text \<open>
  \<open>transform/placement.rs\<close>: destination names that are unique by construction, placing a file, and the
  index that decides from a listing which inputs are already done. \<open>sha256_hex\<close> is a parameter; a
  directory is an association list from names to contents.
\<close>

section \<open>Names\<close>

definition NAME_HASH_HEX_LEN :: nat where "NAME_HASH_HEX_LEN = 16"

type_synonym hasher = "string \<Rightarrow> string"

definition group_key :: "hasher \<Rightarrow> string \<Rightarrow> string \<Rightarrow> input_file_type \<Rightarrow> string" where
  "group_key sha256_hex source_path original_relative_path k =
     (let raw_stem = (case file_stem original_relative_path of Some s \<Rightarrow> s | None \<Rightarrow> ''file'');
          stem = (if is_spreadsheet k then strict_stem raw_stem else sanitize_filename raw_stem);
          digest = sha256_hex (source_path @ [CHR 0x01] @ original_relative_path)
      in stem @ ''-'' @ take NAME_HASH_HEX_LEN digest)"

definition compute_destination_name :: "hasher \<Rightarrow> string \<Rightarrow> string \<Rightarrow> input_file_type \<Rightarrow> string" where
  "compute_destination_name sha256_hex source_path original_relative_path k =
     group_key sha256_hex source_path original_relative_path k @ ''.'' @ output_extension k"

definition sheet_destination_name :: "string \<Rightarrow> nat \<Rightarrow> nat \<Rightarrow> string \<Rightarrow> input_file_type \<Rightarrow> string" where
  "sheet_destination_name grp index tot sheet_name k =
     grp @ ''-'' @ pad_left 2 (dec index) @ ''of'' @ pad_left 2 (dec tot) @ ''-'' @ sheet_slug sheet_name @ ''.'' @
     output_extension k"

section \<open>Placing\<close>

type_synonym directory = "(string \<times> string) list"

text \<open>\<open>mkdir\<close> and \<open>rename\<close> are how the two file system calls end; the results are the scratch file, the
  directory and the outcome. A rename to another name leaves what is there.\<close>

definition place_one :: "string + unit \<Rightarrow> string + unit \<Rightarrow> string \<Rightarrow> string \<Rightarrow> string option \<Rightarrow> directory \<Rightarrow>
    string option \<times> directory \<times> (string + string)" where
  "place_one mkdir rename rel name scratch dir = (case mkdir of
     Inl err \<Rightarrow> (scratch, dir, Inl err)
   | Inr _ \<Rightarrow>
       if map_of dir name \<noteq> None then
         (scratch, dir, Inl (''destination name collision placing '' @ rel @ '' at '' @ name))
       else (case (rename, scratch) of
           (Inr _, Some c) \<Rightarrow> (None, (name, c) # dir, Inr name)
         | (Inr _, None) \<Rightarrow> (scratch, dir, Inl ''failed to move'')
         | (Inl err, _) \<Rightarrow> (scratch, dir, Inl err)))"

definition place_sheet :: "string + unit \<Rightarrow> string + unit \<Rightarrow> bool \<Rightarrow> string \<Rightarrow> string option \<Rightarrow> directory \<Rightarrow>
    string option \<times> directory \<times> (string + string)" where
  "place_sheet mkdir rename removable name scratch dir = (case mkdir of
     Inl err \<Rightarrow> (scratch, dir, Inl err)
   | Inr _ \<Rightarrow>
       if map_of dir name \<noteq> None then (if removable then None else scratch, dir, Inr name)
       else (case (rename, scratch) of
           (Inr _, Some c) \<Rightarrow> (None, (name, c) # dir, Inr name)
         | (Inr _, None) \<Rightarrow> (scratch, dir, Inl ''failed to move'')
         | (Inl err, _) \<Rightarrow> (scratch, dir, Inl err)))"

lemma place_keeps_the_rest:
  "place_one mkdir rename rel name scratch dir = (s', dir', r) \<Longrightarrow> map_of dir n = Some c \<Longrightarrow> map_of dir' n = Some c"
  "place_sheet mkdir rename removable name scratch dir = (s', dir', r) \<Longrightarrow> map_of dir n = Some c \<Longrightarrow>
     map_of dir' n = Some c"
  by (auto simp: place_one_def place_sheet_def split: sum.splits if_splits option.splits)

section \<open>The resume index\<close>

record group_state =
  gs_plain :: bool
  gs_members :: "nat set"
  gs_declared_total :: "nat option"
  gs_inconsistent :: bool

definition no_group :: group_state where
  "no_group = \<lparr>gs_plain = False, gs_members = {}, gs_declared_total = None, gs_inconsistent = False\<rparr>"

type_synonym destination_groups = "string \<rightharpoonup> group_state"

definition is_hexdigit :: "char \<Rightarrow> bool" where
  "is_hexdigit c \<longleftrightarrow> is_digit c \<or> byte_of c \<in> {65..70} \<or> byte_of c \<in> {97..102}"

text \<open>The digest must be whole, hexadecimal, and end the stem or be followed by a dash.\<close>

definition digest_at :: "string \<Rightarrow> nat \<Rightarrow> bool" where
  "digest_at stem dash \<longleftrightarrow> dash + 1 + NAME_HASH_HEX_LEN \<le> length stem \<and>
     list_all is_hexdigit (take NAME_HASH_HEX_LEN (drop (dash + 1) stem)) \<and>
     (dash + 1 + NAME_HASH_HEX_LEN = length stem \<or> stem ! (dash + 1 + NAME_HASH_HEX_LEN) = CHR ''-'')"

definition candidate_groups :: "string \<Rightarrow> (string \<times> string) list" where
  "candidate_groups stem =
     map (\<lambda>dash. (take (dash + 1 + NAME_HASH_HEX_LEN) stem, drop (dash + 1 + NAME_HASH_HEX_LEN) stem))
       (filter (digest_at stem) (filter (\<lambda>i. stem ! i = CHR ''-'') [0..<length stem]))"

text \<open>\<open>str::split_once\<close> with a string pattern.\<close>

fun split_once_str :: "string \<Rightarrow> string \<Rightarrow> (string \<times> string) option" where
  "split_once_str p [] = (if p = [] then Some ([], []) else None)"
| "split_once_str p (c # cs) = (case strip_prefix p (c # cs) of
     Some rest \<Rightarrow> Some ([], rest)
   | None \<Rightarrow> map_option (\<lambda>(a, b). (c # a, b)) (split_once_str p cs))"

definition parse_sheet_marker :: "string \<Rightarrow> (nat \<times> nat) option" where
  "parse_sheet_marker remainder =
     Option.bind (strip_prefix ''-'' remainder) (\<lambda>tail.
     Option.bind (split_once (CHR ''-'') tail) (\<lambda>(marker, slug).
     Option.bind (split_once_str ''of'' marker) (\<lambda>(index, tot).
       if index = [] \<or> tot = [] \<or> \<not> list_all is_digit index \<or> \<not> list_all is_digit tot then None
       else Option.bind (parse_usize index) (\<lambda>i. Option.bind (parse_usize tot) (\<lambda>t.
         if i = 0 \<or> t = 0 \<or> i > t then None else Some (i, t))))))"

definition note_member :: "nat \<Rightarrow> nat \<Rightarrow> group_state \<Rightarrow> group_state" where
  "note_member index tot st =
     (let st1 = st\<lparr>gs_members := insert index (gs_members st)\<rparr> in
      case gs_declared_total st of
        Some seen \<Rightarrow> if seen \<noteq> tot then st1\<lparr>gs_inconsistent := True\<rparr> else st1
      | None \<Rightarrow> st1\<lparr>gs_declared_total := Some tot\<rparr>)"

definition note_remainder :: "string \<Rightarrow> group_state \<Rightarrow> group_state" where
  "note_remainder remainder st =
     (if remainder = [] then st\<lparr>gs_plain := True\<rparr>
      else case parse_sheet_marker remainder of
        Some (index, tot) \<Rightarrow> note_member index tot st
      | None \<Rightarrow> st)"

definition name_stem :: "string \<Rightarrow> string" where
  "name_stem name = (case rsplit_once (CHR ''.'') name of Some (head, _) \<Rightarrow> head | None \<Rightarrow> name)"

definition note_candidate :: "string \<times> string \<Rightarrow> destination_groups \<Rightarrow> destination_groups" where
  "note_candidate = (\<lambda>(grp, remainder) groups.
     groups(grp \<mapsto> note_remainder remainder (case groups grp of Some st \<Rightarrow> st | None \<Rightarrow> no_group)))"

definition index_names :: "string list \<Rightarrow> destination_groups" where
  "index_names names = fold (\<lambda>name. fold note_candidate (candidate_groups (name_stem name))) names Map.empty"

definition is_complete :: "destination_groups \<Rightarrow> string \<Rightarrow> bool" where
  "is_complete groups grp = (case groups grp of
     None \<Rightarrow> False
   | Some st \<Rightarrow>
       if gs_plain st then True
       else if gs_inconsistent st then False
       else gs_declared_total st = Some (card (gs_members st)))"

section \<open>Lemmas on the index\<close>

definition remainders_of :: "string \<Rightarrow> string list \<Rightarrow> string list" where
  "remainders_of g names =
     concat (map (\<lambda>n. map snd (filter (\<lambda>c. fst c = g) (candidate_groups (name_stem n)))) names)"

lemma fold_note_candidate:
  "fold note_candidate cs groups g =
     (let rs = map snd (filter (\<lambda>c. fst c = g) cs) in
      if rs = [] then groups g
      else Some (fold note_remainder rs (case groups g of Some st \<Rightarrow> st | None \<Rightarrow> no_group)))"
  by (induction cs arbitrary: groups) (auto simp: note_candidate_def Let_def split: prod.split)

lemma fold_index:
  "fold (\<lambda>name. fold note_candidate (candidate_groups (name_stem name))) names groups g =
     (if remainders_of g names = [] then groups g
      else Some (fold note_remainder (remainders_of g names) (case groups g of Some st \<Rightarrow> st | None \<Rightarrow> no_group)))"
proof (induction names arbitrary: groups)
  case (Cons n names)
  have "remainders_of g (n # names) =
      map snd (filter (\<lambda>c. fst c = g) (candidate_groups (name_stem n))) @ remainders_of g names"
    by (simp add: remainders_of_def)
  moreover have "fold (\<lambda>name. fold note_candidate (candidate_groups (name_stem name))) (n # names) groups g =
      fold (\<lambda>name. fold note_candidate (candidate_groups (name_stem name))) names
        (fold note_candidate (candidate_groups (name_stem n)) groups) g" by simp
  ultimately show ?case
    unfolding Cons.IH [of "fold note_candidate (candidate_groups (name_stem n)) groups"]
    using fold_note_candidate [of "candidate_groups (name_stem n)" groups g]
    by (cases "filter (\<lambda>c. fst c = g) (candidate_groups (name_stem n))") (simp_all add: Let_def)
qed (simp add: remainders_of_def)

lemma index_names_at:
  "index_names names g =
     (if remainders_of g names = [] then None else Some (fold note_remainder (remainders_of g names) no_group))"
  by (simp add: index_names_def fold_index)

definition group_shaped :: "string \<Rightarrow> bool" where
  "group_shaped g \<longleftrightarrow> (\<exists>stem d. g = stem @ CHR ''-'' # d \<and> length d = NAME_HASH_HEX_LEN \<and> list_all is_hexdigit d)"

definition group_remainder :: "string \<Rightarrow> string \<Rightarrow> string option" where
  "group_remainder g stem =
     (case strip_prefix g stem of
        Some r \<Rightarrow> if r = [] \<or> hd r = CHR ''-'' then Some r else None
      | None \<Rightarrow> None)"

lemma filter_upt_single: "filter (\<lambda>i. i = d \<and> c i) [0..<n] = (if d < n \<and> c d then [d] else [])"
  by (induction n) auto

lemma candidates_of_group:
  assumes "group_shaped g"
  shows "map snd (filter (\<lambda>c. fst c = g) (candidate_groups stem)) =
    (case group_remainder g stem of Some r \<Rightarrow> [r] | None \<Rightarrow> [])"
proof -
  obtain h d where g: "g = h @ CHR ''-'' # d" and d: "length d = NAME_HASH_HEX_LEN" "list_all is_hexdigit d"
    using assms by (auto simp: group_shaped_def)
  let ?n = "length h"
  let ?e = "?n + 1 + NAME_HASH_HEX_LEN"
  have le: "length g = ?e" using g d by simp
  have *: "(take (i + 1 + NAME_HASH_HEX_LEN) stem = g \<and> digest_at stem i \<and> stem ! i = CHR ''-'') \<longleftrightarrow>
      i = ?n \<and> (\<exists>r. group_remainder g stem = Some r)" if "i < length stem" for i
  proof
    assume a: "take (i + 1 + NAME_HASH_HEX_LEN) stem = g \<and> digest_at stem i \<and> stem ! i = CHR ''-''"
    then have l: "i + 1 + NAME_HASH_HEX_LEN \<le> length stem" by (simp add: digest_at_def)
    then have "length g = i + 1 + NAME_HASH_HEX_LEN" using a by (metis length_take min.absorb2)
    then have i: "i = ?n" using le by simp
    define r where "r = drop ?e stem"
    have s: "stem = g @ r" using a i by (metis append_take_drop_id r_def)
    have "r = [] \<or> hd r = CHR ''-''"
    proof (cases "?e = length stem")
      case False
      then have "?e < length stem" using l i by simp
      then have "hd r = stem ! ?e" by (simp add: r_def hd_drop_conv_nth)
      then show ?thesis using a i False by (simp add: digest_at_def)
    qed (simp add: r_def)
    then show "i = ?n \<and> (\<exists>r. group_remainder g stem = Some r)" using i s by (simp add: group_remainder_def)
  next
    assume a: "i = ?n \<and> (\<exists>r. group_remainder g stem = Some r)"
    then obtain r where s: "stem = g @ r" and r: "r = [] \<or> hd r = CHR ''-''"
      by (auto simp: group_remainder_def split: option.splits if_splits)
    have "take (?n + 1 + NAME_HASH_HEX_LEN) stem = g" using s le by simp
    moreover have "stem ! ?n = CHR ''-''" using s g by simp
    moreover have "take NAME_HASH_HEX_LEN (drop (?n + 1) stem) = d" using s g d by simp
    moreover have "?e = length stem \<or> stem ! ?e = CHR ''-''"
    proof (cases r)
      case Nil
      then show ?thesis using s le by simp
    next
      case (Cons c cs)
      then have "stem ! length g = c" using s by simp
      then show ?thesis using r Cons unfolding le by simp
    qed
    moreover have "?e \<le> length stem" using s le by simp
    ultimately show "take (i + 1 + NAME_HASH_HEX_LEN) stem = g \<and> digest_at stem i \<and> stem ! i = CHR ''-''"
      using a d(2) by (simp add: digest_at_def)
  qed
  have n: "?n < length stem" if "group_remainder g stem = Some r" for r
    using that g by (auto simp: group_remainder_def split: option.splits)
  have "filter (\<lambda>c. fst c = g) (candidate_groups stem) =
      map (\<lambda>dash. (take (dash + 1 + NAME_HASH_HEX_LEN) stem, drop (dash + 1 + NAME_HASH_HEX_LEN) stem))
        (filter (\<lambda>i. take (i + 1 + NAME_HASH_HEX_LEN) stem = g \<and> digest_at stem i \<and> stem ! i = CHR ''-'') [0..<length stem])"
    by (simp add: candidate_groups_def filter_map comp_def conj_ac)
  also have "filter (\<lambda>i. take (i + 1 + NAME_HASH_HEX_LEN) stem = g \<and> digest_at stem i \<and> stem ! i = CHR ''-'') [0..<length stem] =
      filter (\<lambda>i. i = ?n \<and> (\<exists>r. group_remainder g stem = Some r)) [0..<length stem]"
    using * by (intro filter_cong) auto
  also have "\<dots> = (if \<exists>r. group_remainder g stem = Some r then [?n] else [])"
    using n filter_upt_single [of ?n "\<lambda>_. True" "length stem"] by (cases "group_remainder g stem") auto
  finally show ?thesis
    using le by (auto simp: group_remainder_def split: option.splits if_splits)
qed

lemma remainders_of_group:
  "group_shaped g \<Longrightarrow> remainders_of g names = List.map_filter (group_remainder g \<circ> name_stem) names"
  by (induction names)
    (simp_all add: remainders_of_def candidates_of_group List.map_filter_def split: option.split)

lemma set_map_filter: "set (List.map_filter f xs) = {y. \<exists>x \<in> set xs. f x = Some y}"
  by (force simp: List.map_filter_def)

lemma split_once_str_append: "p \<noteq> [] \<Longrightarrow> hd p \<notin> set a \<Longrightarrow> split_once_str p (a @ p @ b) = Some (a, b)"
proof (induction a)
  case Nil
  then obtain c cs where p: "p = c # cs" by (cases p) auto
  then show ?case using strip_prefix_append [of p b] by simp
next
  case (Cons c a)
  then have "strip_prefix p (c # a @ p @ b) = None" by (cases p) (auto simp: not_Some_eq [symmetric] simp del: not_Some_eq)
  then show ?case using Cons by simp
qed

definition sheet_marker :: "nat \<Rightarrow> nat \<Rightarrow> string \<Rightarrow> string" where
  "sheet_marker i t slug = ''-'' @ pad_left 2 (dec i) @ ''of'' @ pad_left 2 (dec t) @ ''-'' @ slug"

lemma marker_parses:
  assumes "0 < i" "i \<le> t" "t \<le> usize_max"
  shows "parse_sheet_marker (sheet_marker i t slug) = Some (i, t)"
proof -
  have d: "\<not> is_digit (CHR ''-'')" "\<not> is_digit (CHR ''o'')" "\<not> is_digit (CHR ''f'')" by (simp_all add: is_digit_def)
  have "split_once (CHR ''-'') ((pad_left 2 (dec i) @ ''of'' @ pad_left 2 (dec t)) @ CHR ''-'' # slug) =
      Some (pad_left 2 (dec i) @ ''of'' @ pad_left 2 (dec t), slug)"
    using d by (intro split_once_append) simp
  moreover have "split_once_str ''of'' (pad_left 2 (dec i) @ ''of'' @ pad_left 2 (dec t)) =
      Some (pad_left 2 (dec i), pad_left 2 (dec t))"
    using d by (intro split_once_str_append) simp_all
  ultimately show ?thesis
    using assms by (simp add: parse_sheet_marker_def sheet_marker_def parse_uint_digits)
qed

lemma fold_note_remainder:
  assumes "\<forall>r \<in> set rs. r = [] \<or> (\<exists>i. parse_sheet_marker r = Some (i, t))"
    and "gs_declared_total st \<in> {None, Some t}"
  shows "fold note_remainder rs st = \<lparr>gs_plain = gs_plain st \<or> [] \<in> set rs,
     gs_members = gs_members st \<union> {i. \<exists>r \<in> set rs. r \<noteq> [] \<and> parse_sheet_marker r = Some (i, t)},
     gs_declared_total = (if \<exists>r \<in> set rs. r \<noteq> [] then Some t else gs_declared_total st),
     gs_inconsistent = gs_inconsistent st\<rparr>"
  using assms
proof (induction rs arbitrary: st)
  case (Cons r rs)
  show ?case
  proof (cases "r = []")
    case True
    have "fold note_remainder rs (st\<lparr>gs_plain := True\<rparr>) = \<lparr>gs_plain = True,
        gs_members = gs_members st \<union> {i. \<exists>r \<in> set rs. r \<noteq> [] \<and> parse_sheet_marker r = Some (i, t)},
        gs_declared_total = (if \<exists>r \<in> set rs. r \<noteq> [] then Some t else gs_declared_total st),
        gs_inconsistent = gs_inconsistent st\<rparr>"
      using Cons.IH [of "st\<lparr>gs_plain := True\<rparr>"] Cons.prems by simp
    moreover have "fold note_remainder (r # rs) st = fold note_remainder rs (st\<lparr>gs_plain := True\<rparr>)"
      using True by (simp add: note_remainder_def)
    ultimately show ?thesis using True by simp
  next
    case False
    then obtain i where i: "parse_sheet_marker r = Some (i, t)" using Cons.prems(1) by auto
    let ?st = "note_member i t st"
    have st: "gs_plain ?st = gs_plain st" "gs_members ?st = insert i (gs_members st)"
      "gs_declared_total ?st = Some t" "gs_inconsistent ?st = gs_inconsistent st"
      using Cons.prems(2) by (auto simp: note_member_def Let_def split: option.split)
    have "fold note_remainder (r # rs) st = fold note_remainder rs ?st"
      using False i by (simp add: note_remainder_def)
    also have "\<dots> = \<lparr>gs_plain = gs_plain st \<or> [] \<in> set rs,
        gs_members = insert i (gs_members st) \<union> {i. \<exists>r \<in> set rs. r \<noteq> [] \<and> parse_sheet_marker r = Some (i, t)},
        gs_declared_total = Some t, gs_inconsistent = gs_inconsistent st\<rparr>"
      using Cons.IH [of ?st] Cons.prems(1) st by simp
    finally show ?thesis using False i by auto
  qed
qed simp

lemma strip_prefix_self [simp]: "strip_prefix g g = Some []"
  using strip_prefix_append [of g "[]"] by simp

lemma group_key_shaped:
  assumes "\<And>x. NAME_HASH_HEX_LEN \<le> length (sha x) \<and> list_all is_hexdigit (sha x)"
  shows "group_shaped (group_key sha src rel k)"
proof -
  have "list_all is_hexdigit (take n (sha x))" for n x
    using assms [of x] by (auto simp: list_all_iff dest: in_set_takeD)
  then have "list_all is_hexdigit (take NAME_HASH_HEX_LEN (sha (src @ [CHR 0x01] @ rel)))" .
  moreover have "length (take NAME_HASH_HEX_LEN (sha (src @ [CHR 0x01] @ rel))) = NAME_HASH_HEX_LEN" using assms by simp
  moreover have "\<exists>stem. group_key sha src rel k = stem @ CHR ''-'' # take NAME_HASH_HEX_LEN (sha (src @ [CHR 0x01] @ rel))"
    by (simp add: group_key_def Let_def)
  ultimately show ?thesis unfolding group_shaped_def by blast
qed

lemma name_stems:
  "name_stem (g @ ''.'' @ output_extension k) = g"
  "name_stem (sheet_destination_name g i t s k) = g @ sheet_marker i t (sheet_slug s)"
proof -
  show "name_stem (g @ ''.'' @ output_extension k) = g"
    using rsplit_once_append [OF output_extension_plain(1) [of k], of g] by (simp add: name_stem_def)
  show "name_stem (sheet_destination_name g i t s k) = g @ sheet_marker i t (sheet_slug s)"
    using rsplit_once_append [OF output_extension_plain(1) [of k], of "g @ sheet_marker i t (sheet_slug s)"]
    by (simp add: name_stem_def sheet_destination_name_def sheet_marker_def)
qed

lemma complete_names:
  assumes "group_shaped g" and "0 < t" and "t \<le> usize_max"
    and "\<forall>n \<in> set names. group_remainder g (name_stem n) \<noteq> None \<longrightarrow>
      n = g @ ''.'' @ output_extension k \<or> (\<exists>i \<in> {1..t}. \<exists>s. n = sheet_destination_name g i t s k)"
  shows "is_complete (index_names names) g \<longleftrightarrow>
    g @ ''.'' @ output_extension k \<in> set names \<or>
    {i \<in> {1..t}. \<exists>s. sheet_destination_name g i t s k \<in> set names} = {1..t}"
proof -
  let ?plain = "g @ ''.'' @ output_extension k"
  let ?present = "{i \<in> {1..t}. \<exists>s. sheet_destination_name g i t s k \<in> set names}"
  define rs where "rs = remainders_of g names"
  note shaped = assms(1)
  have rem: "group_remainder g (name_stem ?plain) = Some []"
    "group_remainder g (name_stem (sheet_destination_name g i t s k)) = Some (sheet_marker i t (sheet_slug s))" for i s
    unfolding name_stems by (simp_all add: group_remainder_def sheet_marker_def)
  have rs: "set rs = {r. \<exists>n \<in> set names. group_remainder g (name_stem n) = Some r}"
    by (simp add: rs_def remainders_of_group [OF shaped] set_map_filter)
  have ne: "sheet_marker i t s \<noteq> []" for i s by (simp add: sheet_marker_def)
  have cases: "(r = [] \<and> ?plain \<in> set names) \<or>
      (\<exists>i s. r = sheet_marker i t (sheet_slug s) \<and> i \<in> {1..t} \<and> sheet_destination_name g i t s k \<in> set names)"
    if r: "r \<in> set rs" for r
  proof -
    obtain n where n: "n \<in> set names" "group_remainder g (name_stem n) = Some r" using r rs by auto
    then have "n = ?plain \<or> (\<exists>i \<in> {1..t}. \<exists>s. n = sheet_destination_name g i t s k)" using assms(4) by auto
    then show ?thesis using n rem by auto
  qed
  have parses: "parse_sheet_marker (sheet_marker i t s) = Some (i, t)" if "i \<in> {1..t}" for i s
    using that marker_parses assms(3) by simp
  have "\<forall>r \<in> set rs. r = [] \<or> (\<exists>i. parse_sheet_marker r = Some (i, t))" using cases parses by blast
  from fold_note_remainder [OF this, of no_group]
  have st: "fold note_remainder rs no_group = \<lparr>gs_plain = ([] \<in> set rs),
      gs_members = {i. \<exists>r \<in> set rs. r \<noteq> [] \<and> parse_sheet_marker r = Some (i, t)},
      gs_declared_total = (if \<exists>r \<in> set rs. r \<noteq> [] then Some t else None), gs_inconsistent = False\<rparr>"
    by (simp add: no_group_def)
  have pl: "[] \<in> set rs \<longleftrightarrow> ?plain \<in> set names" 
  proof
    assume "[] \<in> set rs"
    from cases [OF this] ne show "?plain \<in> set names" by metis
  next
    assume "?plain \<in> set names"
    then show "[] \<in> set rs" unfolding rs using rem(1) by blast
  qed
  have mem: "{i. \<exists>r \<in> set rs. r \<noteq> [] \<and> parse_sheet_marker r = Some (i, t)} = ?present"
  proof (intro set_eqI iffI)
    fix i assume "i \<in> {i. \<exists>r \<in> set rs. r \<noteq> [] \<and> parse_sheet_marker r = Some (i, t)}"
    then obtain r where r: "r \<in> set rs" "r \<noteq> []" "parse_sheet_marker r = Some (i, t)" by auto
    then show "i \<in> ?present" using cases [OF r(1)] parses by auto
  next
    fix i assume i: "i \<in> ?present"
    then obtain s where "sheet_destination_name g i t s k \<in> set names" by auto
    then have "sheet_marker i t (sheet_slug s) \<in> set rs"
      unfolding rs using rem(2) [of i s] by blast
    then show "i \<in> {i. \<exists>r \<in> set rs. r \<noteq> [] \<and> parse_sheet_marker r = Some (i, t)}" using i parses ne by blast
  qed
  have sub: "?present \<subseteq> {1..t}" by auto
  have "card ?present = t \<longleftrightarrow> ?present = {1..t}"
    using card_subset_eq [OF finite_atLeastAtMost sub] by auto
  moreover have "?present \<noteq> {} \<longleftrightarrow> (\<exists>r \<in> set rs. r \<noteq> [])" unfolding mem [symmetric] using cases parses ne by blast
  moreover have "?present = {1..t} \<Longrightarrow> ?present \<noteq> {}" using assms(2) by auto
  ultimately have "is_complete (index_names names) g \<longleftrightarrow> ?plain \<in> set names \<or> ?present = {1..t}"
    using st pl mem rs_def by (auto simp: is_complete_def index_names_at)
  then show ?thesis .
qed

text \<open>C19. A workbook counts as done exactly when all of it is there. For an input's group key, take a listing
  in which every name of that group was produced by this program for it, as the plain output name or as a
  sheet of a workbook of \<open>t\<close> sheets. Then the group is complete if and only if the plain name is listed or
  the listed sheets are all of \<open>1..t\<close>: a half-pushed workbook is never taken for a finished one, and names
  of other groups change nothing.\<close>

theorem resume_exact:
  assumes "\<And>x. NAME_HASH_HEX_LEN \<le> length (sha x) \<and> list_all is_hexdigit (sha x)"
    and "g = group_key sha src rel k" and "0 < t" and "t \<le> usize_max"
    and "\<forall>n \<in> set names. group_remainder g (name_stem n) \<noteq> None \<longrightarrow>
      n = compute_destination_name sha src rel k \<or> (\<exists>i \<in> {1..t}. \<exists>s. n = sheet_destination_name g i t s k)"
  shows "is_complete (index_names names) g \<longleftrightarrow>
    compute_destination_name sha src rel k \<in> set names \<or>
    {i \<in> {1..t}. \<exists>s. sheet_destination_name g i t s k \<in> set names} = {1..t}"
proof -
  have plain: "compute_destination_name sha src rel k = g @ ''.'' @ output_extension k"
    using assms(2) by (simp add: compute_destination_name_def)
  have "group_shaped g" using group_key_shaped assms(1,2) by simp
  from complete_names [OF this assms(3,4)] assms(5) show ?thesis unfolding plain by blast
qed

definition zero_digest :: "string \<Rightarrow> string" where "zero_digest _ = replicate 64 (CHR ''0'')"

theorem resume_exact_witness:
  "\<not> is_complete (index_names [sheet_destination_name (group_key zero_digest ''s'' ''b.xlsx'' XlsxKind) 1 2 ''A'' XlsxKind])
     (group_key zero_digest ''s'' ''b.xlsx'' XlsxKind)"
proof -
  let ?g = "group_key zero_digest ''s'' ''b.xlsx'' XlsxKind"
  let ?n = "sheet_destination_name ?g 1 2 ''A'' XlsxKind"
  have sha: "\<And>x. NAME_HASH_HEX_LEN \<le> length (zero_digest x) \<and> list_all is_hexdigit (zero_digest x)"
    by (simp add: zero_digest_def NAME_HASH_HEX_LEN_def list_all_iff is_hexdigit_def is_digit_def)
  have t: "0 < (2::nat)" "2 \<le> usize_max" by (simp_all add: usize_max_def)
  have "(1::nat) \<in> {1..2}" by simp
  then have a: "\<forall>n \<in> set [?n]. group_remainder ?g (name_stem n) \<noteq> None \<longrightarrow>
      n = compute_destination_name zero_digest ''s'' ''b.xlsx'' XlsxKind \<or>
      (\<exists>i \<in> {1..2}. \<exists>s. n = sheet_destination_name ?g i 2 s XlsxKind)" by auto
  have marker: "sheet_marker 1 2 (sheet_slug ''A'') = sheet_marker i 2 s \<Longrightarrow> i \<in> {1..2} \<Longrightarrow> i = 1" for i s
    using marker_parses [of 1 2 "sheet_slug ''A''"] marker_parses [of i 2 s] t(2) by simp
  have "?n \<noteq> compute_destination_name zero_digest ''s'' ''b.xlsx'' XlsxKind"
    by (simp add: sheet_destination_name_def compute_destination_name_def)
  moreover have "2 \<notin> {i \<in> {1..2}. \<exists>s. sheet_destination_name ?g i 2 s XlsxKind \<in> set [?n]}"
  proof
    assume "2 \<in> {i \<in> {1..2}. \<exists>s. sheet_destination_name ?g i 2 s XlsxKind \<in> set [?n]}"
    then obtain s where "sheet_destination_name ?g 2 2 s XlsxKind = ?n" by auto
    then have "name_stem (sheet_destination_name ?g 2 2 s XlsxKind) = name_stem ?n" by simp
    then have "sheet_marker 1 2 (sheet_slug ''A'') = sheet_marker 2 2 (sheet_slug s)" unfolding name_stems by simp
    then show False using marker [of 2] by force
  qed
  ultimately show ?thesis using resume_exact [OF sha refl t a] by auto
qed

end
