(* ===== verification/TransformSelect.thy ===== *)
theory TransformSelect
  imports Placement "HOL-Library.Multiset"
begin

text \<open>
  The decisions of \<open>transform/worker.rs\<close> taken before and after the pull: which listed keys still need
  pulling, which of them cannot share one local directory and into which slots they go, why a key went
  undelivered; and the error classes of \<open>transform/media.rs\<close>. A hash map keyed by folded names that is only
  read group by group is the list of the keys with that fold; Unicode normalisation and lowercasing of
  \<open>local_fold\<close> is a parameter.
\<close>

section \<open>Error classes\<close>

definition NO_VIDEO_STREAM_SIGNATURE :: string where "NO_VIDEO_STREAM_SIGNATURE = ''has no video stream''"
definition UNEXPECTED_VIDEO_STREAM_SIGNATURE :: string where
  "UNEXPECTED_VIDEO_STREAM_SIGNATURE = ''is not an audio-only recording''"
definition NOT_A_WORKBOOK_SIGNATURE :: string where "NOT_A_WORKBOOK_SIGNATURE = ''is not a readable spreadsheet''"
definition NOT_A_DOCUMENT_SIGNATURE :: string where "NOT_A_DOCUMENT_SIGNATURE = ''is not a readable document''"
definition NOT_AN_ICNS_SIGNATURE :: string where "NOT_AN_ICNS_SIGNATURE = ''is not a readable icns icon''"
definition NOT_A_PROCREATE_SIGNATURE :: string where
  "NOT_A_PROCREATE_SIGNATURE = ''is not a readable Procreate document''"
definition PROCREATE_UNVERIFIED_SIGNATURE :: string where
  "PROCREATE_UNVERIFIED_SIGNATURE = ''does not match its own thumbnail''"
definition CONVERTER_CRASHED_SIGNATURE :: string where "CONVERTER_CRASHED_SIGNATURE = ''converter crashed''"
definition NOT_A_KEYNOTE_SIGNATURE :: string where "NOT_A_KEYNOTE_SIGNATURE = ''is not a Keynote presentation''"
definition NOT_A_TEXTCLIPPING_SIGNATURE :: string where
  "NOT_A_TEXTCLIPPING_SIGNATURE = ''is not a readable text clipping''"
definition NOT_A_CALENDAR_SIGNATURE :: string where "NOT_A_CALENDAR_SIGNATURE = ''is not an iCalendar file''"
definition NOT_A_VCARD_SIGNATURE :: string where "NOT_A_VCARD_SIGNATURE = ''is not a vCard file''"
definition SVG_DREW_NOTHING_SIGNATURE :: string where
  "SVG_DREW_NOTHING_SIGNATURE = ''converted to an SVG that draws nothing''"

definition is_wrong_input_kind_error :: "string \<Rightarrow> bool" where
  "is_wrong_input_kind_error err \<longleftrightarrow> list_ex (\<lambda>signature. contains signature err)
     [NO_VIDEO_STREAM_SIGNATURE, UNEXPECTED_VIDEO_STREAM_SIGNATURE, NOT_A_WORKBOOK_SIGNATURE,
      NOT_A_DOCUMENT_SIGNATURE, NOT_A_KEYNOTE_SIGNATURE, NOT_A_TEXTCLIPPING_SIGNATURE,
      NOT_AN_ICNS_SIGNATURE, NOT_A_PROCREATE_SIGNATURE, NOT_A_CALENDAR_SIGNATURE, NOT_A_VCARD_SIGNATURE]"

definition NON_RETRYABLE_SIGNATURES :: "string list" where
  "NON_RETRYABLE_SIGNATURES = [
     ''moov atom not found'', ''Invalid data found when processing input'', ''Decoder (codec'',
     ''could not find codec parameters'', ''refusing an output that isn'' @ [CHR 0x27] @ ''t full-size'',
     ''Unknown encoder'',
     NO_VIDEO_STREAM_SIGNATURE, UNEXPECTED_VIDEO_STREAM_SIGNATURE, NOT_A_WORKBOOK_SIGNATURE,
     NOT_A_DOCUMENT_SIGNATURE, NOT_A_KEYNOTE_SIGNATURE, NOT_A_TEXTCLIPPING_SIGNATURE,
     CONVERTER_CRASHED_SIGNATURE, NOT_AN_ICNS_SIGNATURE, NOT_A_PROCREATE_SIGNATURE,
     PROCREATE_UNVERIFIED_SIGNATURE, NOT_A_CALENDAR_SIGNATURE, NOT_A_VCARD_SIGNATURE,
     SVG_DREW_NOTHING_SIGNATURE]"

definition is_non_retryable_transcode_error :: "string \<Rightarrow> bool" where
  "is_non_retryable_transcode_error err \<longleftrightarrow> list_ex (\<lambda>signature. contains signature err) NON_RETRYABLE_SIGNATURES"

lemma wrong_kind_non_retryable: "is_wrong_input_kind_error err \<Longrightarrow> is_non_retryable_transcode_error err"
  by (auto simp: is_wrong_input_kind_error_def is_non_retryable_transcode_error_def NON_RETRYABLE_SIGNATURES_def)

definition CIRCUIT_BREAKER_SAMPLE_SIZE :: nat where "CIRCUIT_BREAKER_SAMPLE_SIZE = 20"
definition CIRCUIT_BREAKER_TRIP_THRESHOLD :: nat where "CIRCUIT_BREAKER_TRIP_THRESHOLD = 18"

definition circuit_breaker_should_trip :: "nat \<Rightarrow> nat \<Rightarrow> bool" where
  "circuit_breaker_should_trip samples matches \<longleftrightarrow>
     samples = CIRCUIT_BREAKER_SAMPLE_SIZE \<and> CIRCUIT_BREAKER_TRIP_THRESHOLD \<le> matches"

section \<open>The pull set\<close>

record pull_selection =
  sel_to_pull :: "string list"
  sel_already_done :: nat
  sel_apple_double :: nat
  sel_lock_file :: nat
  sel_case_collisions :: "string set"

definition by_folded :: "(string \<Rightarrow> string) \<Rightarrow> string list \<Rightarrow> string \<Rightarrow> string list" where
  "by_folded local_fold keys folded = filter (\<lambda>key. local_fold key = folded) keys"

definition case_insensitive_collisions :: "(string \<Rightarrow> string) \<Rightarrow> string list \<Rightarrow> string set" where
  "case_insensitive_collisions local_fold relative_paths =
     set (filter (\<lambda>key. 1 < length (by_folded local_fold relative_paths (local_fold key))) relative_paths)"

definition case_collision_groups :: "(string \<Rightarrow> string) \<Rightarrow> string set \<Rightarrow> string list list" where
  "case_collision_groups local_fold collisions =
     (let keys = sorted_list_of_set collisions in
      sort (map (by_folded local_fold keys) (remdups (map local_fold keys))))"

text \<open>One turn of the loop of \<open>files_needing_pull\<close>; \<open>grp\<close> is the group key of a path.\<close>

definition select_path ::
  "(string \<Rightarrow> string) \<Rightarrow> destination_groups \<Rightarrow> string \<Rightarrow> pull_selection \<Rightarrow> pull_selection" where
  "select_path grp groups p sel =
     (if is_apple_double_basename p then sel\<lparr>sel_apple_double := sel_apple_double sel + 1\<rparr>
      else if is_excel_lock_basename p then sel\<lparr>sel_lock_file := sel_lock_file sel + 1\<rparr>
      else if is_complete groups (grp p) then sel\<lparr>sel_already_done := sel_already_done sel + 1\<rparr>
      else sel\<lparr>sel_to_pull := sel_to_pull sel @ [p]\<rparr>)"

definition files_needing_pull ::
  "(string \<Rightarrow> string) \<Rightarrow> hasher \<Rightarrow> string list \<Rightarrow> string \<Rightarrow> input_file_type \<Rightarrow> destination_groups \<Rightarrow> pull_selection" where
  "files_needing_pull local_fold sha256_hex relative_paths source_path k groups =
     (let sel = fold (select_path (\<lambda>p. group_key sha256_hex source_path p k) groups) relative_paths
        \<lparr>sel_to_pull = [], sel_already_done = 0, sel_apple_double = 0, sel_lock_file = 0, sel_case_collisions = {}\<rparr>
      in sel\<lparr>sel_case_collisions := case_insensitive_collisions local_fold (sel_to_pull sel)\<rparr>)"

definition split_pull_set :: "string list \<Rightarrow> string set \<Rightarrow> string list \<times> string list" where
  "split_pull_set files_to_pull case_collisions =
     (filter (\<lambda>key. key \<notin> case_collisions) files_to_pull, sorted_list_of_set case_collisions)"

definition undelivered_detail :: "string \<Rightarrow> string set \<Rightarrow> (string \<rightharpoonup> string) \<Rightarrow> string" where
  "undelivered_detail p case_collisions case_variant_failures = (case case_variant_failures p of
     Some err \<Rightarrow>
       ''this source key collides with another under case-folding, so it was pulled '' @
       ''separately to its own local path (CLI-0152/0156) -- and that pull failed: '' @ err
   | None \<Rightarrow>
       if p \<in> case_collisions then
         ''this source key collides with another under case-folding and should have been pulled '' @
         ''separately, but it never entered the pipeline and its own pull reported no error''
       else
         ''file was in this run'' @ [CHR 0x27] @ ''s pull set but rclone never reported it as copied, so it never '' @
         ''entered the transcode pipeline'')"

definition write_files_from :: "string + unit \<Rightarrow> string + unit \<Rightarrow> string \<Rightarrow> string \<Rightarrow> string list \<Rightarrow> string + string \<times> string" where
  "write_files_from mkdir written dir name relative_paths = (case mkdir of
     Inl err \<Rightarrow> Inl (''failed to create '' @ dir @ '': '' @ err)
   | Inr _ \<Rightarrow> (case written of
       Inl err \<Rightarrow> Inl (''failed to write '' @ path_join dir name @ '': '' @ err)
     | Inr _ \<Rightarrow> Inr (path_join dir name, join [NL] relative_paths)))"

section \<open>Slots\<close>

fun prefixes_from :: "string \<Rightarrow> string list \<Rightarrow> string list" where
  "prefixes_from accumulated [] = []"
| "prefixes_from accumulated (component # rest) =
     (let accumulated' = (if accumulated \<noteq> [] then accumulated @ ''/'' else accumulated) @ component
      in accumulated' # prefixes_from accumulated' rest)"

definition path_prefixes :: "string \<Rightarrow> string list" where
  "path_prefixes source_key = prefixes_from [] (split_on (CHR ''/'') source_key)"

type_synonym claims = "string \<rightharpoonup> string"

definition fits :: "(string \<Rightarrow> string) \<Rightarrow> string list \<Rightarrow> claims \<Rightarrow> bool" where
  "fits local_fold prefixes claimed \<longleftrightarrow> list_all (\<lambda>prefix.
     case claimed (local_fold prefix) of Some spelling \<Rightarrow> spelling = prefix | None \<Rightarrow> True) prefixes"

definition claim :: "(string \<Rightarrow> string) \<Rightarrow> string list \<Rightarrow> claims \<Rightarrow> claims" where
  "claim local_fold prefixes claimed = fold (\<lambda>prefix m. m(local_fold prefix \<mapsto> prefix)) prefixes claimed"

text \<open>The two vectors \<open>slots\<close> and \<open>claims\<close> run in step, so they are one list of pairs.\<close>

fun add_to_slots :: "(string \<Rightarrow> string) \<Rightarrow> string \<Rightarrow> (string list \<times> claims) list \<Rightarrow> (string list \<times> claims) list" where
  "add_to_slots local_fold key [] = [([key], claim local_fold (path_prefixes key) Map.empty)]"
| "add_to_slots local_fold key ((keys, claimed) # slots) =
     (if fits local_fold (path_prefixes key) claimed
      then (keys @ [key], claim local_fold (path_prefixes key) claimed) # slots
      else (keys, claimed) # add_to_slots local_fold key slots)"

definition assign_case_variant_slots :: "(string \<Rightarrow> string) \<Rightarrow> string list \<Rightarrow> string list list" where
  "assign_case_variant_slots local_fold variants = map fst (fold (add_to_slots local_fold) variants [])"

section \<open>Lemmas on the pull set\<close>

definition wanted :: "(string \<Rightarrow> string) \<Rightarrow> destination_groups \<Rightarrow> string \<Rightarrow> bool" where
  "wanted grp groups p \<longleftrightarrow> \<not> is_apple_double_basename p \<and> \<not> is_excel_lock_basename p \<and> \<not> is_complete groups (grp p)"

lemma fold_select_path:
  "fold (select_path grp groups) ps sel = sel\<lparr>
     sel_to_pull := sel_to_pull sel @ filter (wanted grp groups) ps,
     sel_already_done := sel_already_done sel + length (filter
       (\<lambda>p. \<not> is_apple_double_basename p \<and> \<not> is_excel_lock_basename p \<and> is_complete groups (grp p)) ps),
     sel_apple_double := sel_apple_double sel + length (filter is_apple_double_basename ps),
     sel_lock_file := sel_lock_file sel + length (filter
       (\<lambda>p. \<not> is_apple_double_basename p \<and> is_excel_lock_basename p) ps)\<rparr>"
  by (induction ps arbitrary: sel) (auto simp: select_path_def wanted_def)

lemma files_needing_pull_fields:
  fixes local_fold sha src ps k groups
  defines "sel \<equiv> files_needing_pull local_fold sha ps src k groups"
  shows "sel_to_pull sel = filter (wanted (\<lambda>p. group_key sha src p k) groups) ps"
    and "length (sel_to_pull sel) + sel_already_done sel + sel_apple_double sel + sel_lock_file sel = length ps"
    and "sel_case_collisions sel = case_insensitive_collisions local_fold (sel_to_pull sel)"
proof -
  show "sel_to_pull sel = filter (wanted (\<lambda>p. group_key sha src p k) groups) ps"
    "sel_case_collisions sel = case_insensitive_collisions local_fold (sel_to_pull sel)"
    by (simp_all add: sel_def files_needing_pull_def fold_select_path Let_def)
  have "length (filter (wanted (\<lambda>p. group_key sha src p k) groups) ps) + length (filter
       (\<lambda>p. \<not> is_apple_double_basename p \<and> \<not> is_excel_lock_basename p \<and> is_complete groups (group_key sha src p k)) ps) +
      length (filter is_apple_double_basename ps) +
      length (filter (\<lambda>p. \<not> is_apple_double_basename p \<and> is_excel_lock_basename p) ps) = length ps"
    by (induction ps) (auto simp: wanted_def)
  then show "length (sel_to_pull sel) + sel_already_done sel + sel_apple_double sel + sel_lock_file sel = length ps"
    by (simp add: sel_def files_needing_pull_def fold_select_path Let_def)
qed

lemma collisions_iff:
  "k \<in> case_insensitive_collisions local_fold ps \<longleftrightarrow>
     k \<in> set ps \<and> 1 < length (by_folded local_fold ps (local_fold k))"
  by (simp add: case_insensitive_collisions_def)

lemma finite_collisions [simp]: "finite (case_insensitive_collisions local_fold ps)"
  by (simp add: case_insensitive_collisions_def)

lemma two_with_property: "1 < length (filter P xs) \<Longrightarrow> distinct xs \<Longrightarrow> x \<in> set xs \<Longrightarrow> \<exists>y \<in> set xs. y \<noteq> x \<and> P y"
proof -
  assume a: "1 < length (filter P xs)" "distinct xs" "x \<in> set xs"
  obtain y z r where f: "filter P xs = y # z # r" using a(1) by (cases "filter P xs" rule: remdups_adj.cases) auto
  have "distinct (filter P xs)" using a(2) by simp
  then have "y \<noteq> z" unfolding f by simp
  moreover have "\<And>w. w \<in> {y, z} \<Longrightarrow> w \<in> set xs \<and> P w"
    using f by (metis (no_types, lifting) filter_eq_ConsD insert_iff list.set_intros mem_Collect_eq set_filter singletonD)
  ultimately show ?thesis by (metis insertCI)
qed

lemma bulk_folds_distinct:
  "distinct (map local_fold (filter (\<lambda>key. key \<notin> case_insensitive_collisions local_fold ps) ps))"
proof -
  let ?f = "\<lambda>ps key. length (by_folded local_fold ps (local_fold key)) \<le> 1"
  have gen: "distinct (map local_fold (filter (?f qs) ps'))" if "mset ps' \<subseteq># mset qs" for qs ps' :: "string list" 
    using that
  proof (induction ps')
    case (Cons k ps')
    have "mset ps' \<subseteq># mset (k # ps')" by simp
    then have sub: "mset ps' \<subseteq># mset qs" using Cons.prems by (rule subset_mset.order_trans)
    have "local_fold k \<notin> set (map local_fold (filter (?f qs) ps'))" if "?f qs k"
    proof
      assume "local_fold k \<in> set (map local_fold (filter (?f qs) ps'))"
      then obtain l where l: "l \<in> set ps'" "local_fold l = local_fold k" by auto
      have "filter_mset (\<lambda>x. local_fold x = local_fold k) (mset (k # ps')) \<subseteq>#
          filter_mset (\<lambda>x. local_fold x = local_fold k) (mset qs)"
        using Cons.prems by (rule multiset_filter_mono)
      then have "size (filter_mset (\<lambda>x. local_fold x = local_fold k) (mset (k # ps'))) \<le>
          size (filter_mset (\<lambda>x. local_fold x = local_fold k) (mset qs))" by (rule size_mset_mono)
      then have "length (by_folded local_fold (k # ps') (local_fold k)) \<le> length (by_folded local_fold qs (local_fold k))"
        by (simp add: by_folded_def mset_filter flip: size_mset)
      moreover have "filter (\<lambda>x. local_fold x = local_fold k) ps' \<noteq> []" using l by (auto simp: filter_empty_conv)
      ultimately show False using that by (cases "filter (\<lambda>x. local_fold x = local_fold k) ps'") (simp_all add: by_folded_def)
    qed
    then show ?case using Cons.IH [OF sub] by simp
  qed simp
  have "filter (\<lambda>key. key \<notin> case_insensitive_collisions local_fold ps) ps = filter (?f ps) ps"
    by (rule filter_cong) (auto simp: collisions_iff)
  then show ?thesis using gen [of ps ps] by simp
qed

text \<open>Nothing the listing names is lost, and no local directory ever has to hold two spellings of one name.
  Of the listed keys, exactly those that are no AppleDouble sidecar, no Excel lock stub and not complete at
  the destination are to be pulled, in order, and the three skip counts account for all the others. The pull
  set splits into a bulk part, whose keys all have different local names, and the case variants; the two parts
  are disjoint, together they are the pull set, no bulk key shares its local name with any other key of it,
  and every variant really has a rival (for a listing without repetitions).\<close>

lemma pull_set_split:
  fixes local_fold sha src ps k groups
  assumes "sel = files_needing_pull local_fold sha ps src k groups"
    and "(bulk, variants) = split_pull_set (sel_to_pull sel) (sel_case_collisions sel)"
  shows "sel_to_pull sel = filter (\<lambda>p. \<not> is_apple_double_basename p \<and> \<not> is_excel_lock_basename p \<and>
      \<not> is_complete groups (group_key sha src p k)) ps \<and>
    length (sel_to_pull sel) + sel_already_done sel + sel_apple_double sel + sel_lock_file sel = length ps \<and>
    set bulk \<union> set variants = set (sel_to_pull sel) \<and> set bulk \<inter> set variants = {} \<and> distinct variants \<and>
    distinct (map local_fold bulk) \<and>
    (\<forall>b \<in> set bulk. \<forall>p \<in> set (sel_to_pull sel). local_fold p = local_fold b \<longrightarrow> p = b) \<and>
    (distinct ps \<longrightarrow> (\<forall>v \<in> set variants. \<exists>w \<in> set variants. w \<noteq> v \<and> local_fold w = local_fold v))"
proof (intro conjI impI)
  let ?c = "case_insensitive_collisions local_fold (sel_to_pull sel)"
  note f = files_needing_pull_fields [of local_fold sha ps src k groups, folded assms(1)]
  have b: "bulk = filter (\<lambda>key. key \<notin> ?c) (sel_to_pull sel)" and v: "variants = sorted_list_of_set ?c"
    using assms(2) f(3) by (simp_all add: split_pull_set_def)
  have v': "set variants = ?c" by (simp add: v)
  show "sel_to_pull sel = filter (\<lambda>p. \<not> is_apple_double_basename p \<and> \<not> is_excel_lock_basename p \<and>
      \<not> is_complete groups (group_key sha src p k)) ps"
    using f(1) by (simp add: wanted_def [abs_def])
  show "length (sel_to_pull sel) + sel_already_done sel + sel_apple_double sel + sel_lock_file sel = length ps" by (fact f(2))
  show "set bulk \<union> set variants = set (sel_to_pull sel)" "set bulk \<inter> set variants = {}"
    using b v' collisions_iff by auto
  show "distinct variants" by (simp add: v)
  show "distinct (map local_fold bulk)" unfolding b by (rule bulk_folds_distinct)
  show "\<forall>b \<in> set bulk. \<forall>p \<in> set (sel_to_pull sel). local_fold p = local_fold b \<longrightarrow> p = b"
  proof (intro ballI impI)
    fix b' p assume b': "b' \<in> set bulk" and p: "p \<in> set (sel_to_pull sel)" "local_fold p = local_fold b'"
    have s: "length (by_folded local_fold (sel_to_pull sel) (local_fold b')) \<le> 1" and m: "b' \<in> set (sel_to_pull sel)"
      using b' b collisions_iff [of b' local_fold "sel_to_pull sel"] by auto
    have "p \<in> set (by_folded local_fold (sel_to_pull sel) (local_fold b'))"
      "b' \<in> set (by_folded local_fold (sel_to_pull sel) (local_fold b'))" using p m by (simp_all add: by_folded_def)
    then show "p = b'" using s
      by (cases "by_folded local_fold (sel_to_pull sel) (local_fold b')") auto
  qed
  assume d: "distinct ps"
  show "\<forall>v \<in> set variants. \<exists>w \<in> set variants. w \<noteq> v \<and> local_fold w = local_fold v"
  proof
    fix v assume "v \<in> set variants"
    then have c: "v \<in> set (sel_to_pull sel)" "1 < length (by_folded local_fold (sel_to_pull sel) (local_fold v))"
      using v' collisions_iff by auto
    have "distinct (sel_to_pull sel)" using d f(1) by simp
    from two_with_property [OF c(2) [unfolded by_folded_def] this c(1)]
    obtain w where w: "w \<in> set (sel_to_pull sel)" "w \<noteq> v" "local_fold w = local_fold v" by auto
    then have "w \<in> ?c" using c(2) by (simp add: collisions_iff)
    then show "\<exists>w \<in> set variants. w \<noteq> v \<and> local_fold w = local_fold v" using w v' by auto
  qed
qed

lemma pull_set_split_witness:
  "let sel = files_needing_pull to_lower zero_digest [''a.md'', ''B.md'', ''A.md'', ''._b.md''] ''s'' MdKind Map.empty;
       (bulk, variants) = split_pull_set (sel_to_pull sel) (sel_case_collisions sel) in
   bulk = [''B.md''] \<and> variants = [''A.md'', ''a.md''] \<and> set bulk \<union> set variants = set (sel_to_pull sel)"
proof -
  let ?sel = "files_needing_pull to_lower zero_digest [''a.md'', ''B.md'', ''A.md'', ''._b.md''] ''s'' MdKind Map.empty"
  have tp: "sel_to_pull ?sel = [''a.md'', ''B.md'', ''A.md'']"
    unfolding files_needing_pull_fields
    by (simp add: wanted_def is_complete_def) code_simp
  have s: "split_pull_set (sel_to_pull ?sel) (sel_case_collisions ?sel) = ([''B.md''], [''A.md'', ''a.md''])"
    unfolding files_needing_pull_fields(3) tp by code_simp
  show ?thesis using pull_set_split [OF refl s [symmetric]] s by (simp add: Let_def insert_commute)
qed

section \<open>Lemmas on slots\<close>

abbreviation slashes :: "string \<Rightarrow> nat" where "slashes s \<equiv> count_list s (CHR ''/'')"

lemma prefixes_from_deeper:
  "acc \<noteq> [] \<Longrightarrow> \<forall>c \<in> set cs. CHR ''/'' \<notin> set c \<Longrightarrow>
     sorted_wrt (<) (map slashes (prefixes_from acc cs)) \<and> (\<forall>p \<in> set (prefixes_from acc cs). slashes acc < slashes p)"
proof (induction cs arbitrary: acc)
  case (Cons c cs)
  have c: "slashes c = 0" using Cons.prems(2) by (simp add: count_list_0_iff)
  have "sorted_wrt (<) (map slashes (prefixes_from (acc @ ''/'' @ c) cs)) \<and>
      (\<forall>p \<in> set (prefixes_from (acc @ ''/'' @ c) cs). slashes (acc @ ''/'' @ c) < slashes p)"
    using Cons.prems(2) by (intro Cons.IH) auto
  then show ?case using Cons.prems(1) c by (auto simp: Let_def)
qed simp

lemma own_folds_differ:
  assumes "\<And>s. slashes (local_fold s) = slashes s" and "\<And>s. local_fold s = [] \<longleftrightarrow> s = []"
    and "p \<in> set (path_prefixes k)" and "q \<in> set (path_prefixes k)" and "local_fold p = local_fold q"
  shows "p = q"
proof -
  have gen: "\<forall>c \<in> set cs. CHR ''/'' \<notin> set c \<Longrightarrow> p \<in> set (prefixes_from [] cs) \<Longrightarrow> q \<in> set (prefixes_from [] cs) \<Longrightarrow>
      local_fold p = local_fold q \<Longrightarrow> p = q" for cs p q
  proof (induction cs)
    case (Cons c cs)
    show ?case
    proof (cases "c = []")
      case True
      then have "p = [] \<or> p \<in> set (prefixes_from [] cs)" "q = [] \<or> q \<in> set (prefixes_from [] cs)"
        using Cons.prems(2,3) by (auto simp: Let_def)
      then show ?thesis using Cons.IH Cons.prems(1,4) assms(2) by (metis list.set_intros(2))
    next
      case False
      have eq: "slashes p = slashes q" using Cons.prems(4) assms(1) by metis
      have d: "sorted_wrt (<) (map slashes (prefixes_from [] (c # cs)))"
        using prefixes_from_deeper [OF False, of cs] Cons.prems(1) by (simp add: Let_def)
      then have "inj_on slashes (set (prefixes_from [] (c # cs)))"
        by (metis distinct_map strict_sorted_iff)
      then show ?thesis using eq Cons.prems(2,3) by (rule inj_onD)
    qed
  qed simp
  show ?thesis using assms(3-5) split_on_pieces gen unfolding path_prefixes_def by meson
qed

lemma claim_other: "f \<notin> local_fold ` set ps \<Longrightarrow> claim local_fold ps m f = m f"
  by (induction ps arbitrary: m) (simp_all add: claim_def)

lemma claim_own:
  assumes "\<And>p q. p \<in> set ps \<Longrightarrow> q \<in> set ps \<Longrightarrow> local_fold p = local_fold q \<Longrightarrow> p = q" and "p \<in> set ps"
  shows "claim local_fold ps m (local_fold p) = Some p"
  using assms
proof (induction ps arbitrary: m)
  case (Cons a ps)
  have IH: "p \<in> set ps \<Longrightarrow> claim local_fold ps (m(local_fold a \<mapsto> a)) (local_fold p) = Some p"
    using Cons.IH Cons.prems(1) by (meson list.set_intros(2))
  have step: "claim local_fold (a # ps) m = claim local_fold ps (m(local_fold a \<mapsto> a))" by (simp add: claim_def)
  show ?case
  proof (cases "p \<in> set ps")
    case False
    then have pa: "p = a" using Cons.prems(2) by simp
    then have "local_fold a \<notin> local_fold ` set ps" using Cons.prems(1) False by fastforce
    then show ?thesis unfolding step using pa claim_other by simp
  qed (use IH step in simp)
qed simp

definition slot_ok :: "(string \<Rightarrow> string) \<Rightarrow> string list \<times> claims \<Rightarrow> bool" where
  "slot_ok local_fold = (\<lambda>(keys, claimed). \<forall>k \<in> set keys. \<forall>p \<in> set (path_prefixes k). claimed (local_fold p) = Some p)"

lemma add_to_slots_ok:
  assumes "\<And>p q. p \<in> set (path_prefixes key) \<Longrightarrow> q \<in> set (path_prefixes key) \<Longrightarrow>
      local_fold p = local_fold q \<Longrightarrow> p = q" and "list_all (slot_ok local_fold) slots"
  shows "list_all (slot_ok local_fold) (add_to_slots local_fold key slots)"
  using assms(2)
proof (induction slots)
  case Nil
  then show ?case using claim_own [OF assms(1)] by (simp add: slot_ok_def)
next
  case (Cons slot slots)
  obtain keys claimed where slot: "slot = (keys, claimed)" by fastforce
  show ?case
  proof (cases "fits local_fold (path_prefixes key) claimed")
    case True
    let ?m = "claim local_fold (path_prefixes key) claimed"
    have "?m (local_fold p) = Some p" if "k \<in> set keys" "p \<in> set (path_prefixes k)" for k p
    proof (cases "local_fold p \<in> local_fold ` set (path_prefixes key)")
      case own: True
      then obtain q where q: "q \<in> set (path_prefixes key)" "local_fold p = local_fold q" by auto
      have "claimed (local_fold q) = Some p" unfolding q(2) [symmetric]
        using Cons.prems that slot by (simp add: slot_ok_def)
      then have "p = q" using True q(1) by (auto simp: fits_def list_all_iff)
      then show ?thesis using claim_own [OF assms(1)] q by simp
    qed (use Cons.prems that slot claim_other in \<open>simp add: slot_ok_def\<close>)
    then show ?thesis using True Cons.prems slot claim_own [OF assms(1)] by (simp add: slot_ok_def)
  qed (use Cons slot in simp)
qed

lemma add_to_slots_mset:
  "mset (concat (map fst (add_to_slots local_fold key slots))) = add_mset key (mset (concat (map fst slots)))"
  by (induction slots) auto

abbreviation claimed_flags :: "(string list \<times> claims) list \<Rightarrow> string \<Rightarrow> bool list" where
  "claimed_flags slots f \<equiv> map (\<lambda>slot. snd slot f \<noteq> None) slots"

lemma add_to_slots_flat:
  assumes "path_prefixes key = [key]" and "\<forall>slot \<in> set slots. snd slot (local_fold key) \<noteq> Some key"
    and "claimed_flags slots (local_fold key) = replicate c True @ replicate d False"
  shows "claimed_flags (add_to_slots local_fold key slots) (local_fold key) =
      replicate (Suc c) True @ replicate (d - 1) False"
    and "f \<noteq> local_fold key \<Longrightarrow> claimed_flags (add_to_slots local_fold key slots) f =
      claimed_flags slots f @ (if d = 0 then [False] else [])"
    and "\<forall>slot \<in> set (add_to_slots local_fold key slots). \<forall>f s. snd slot f = Some s \<longrightarrow>
      s = key \<or> (\<exists>old \<in> set slots. snd old f = Some s)"
  using assms(2,3)
proof (induction slots arbitrary: c)
  case (Cons slot slots)
  obtain keys claimed where slot: "slot = (keys, claimed)" by fastforce
  { case 1
    show ?case using Cons.IH(1) [of "c - 1"] 1 assms(1) slot
      by (cases c; cases d) (auto simp: fits_def claim_def) }
  { case 2
    show ?case using Cons.IH(2) [of "c - 1"] 2 assms(1) slot
      by (cases c; cases d) (auto simp: fits_def claim_def) }
  { case 3
    show ?case using Cons.IH(3) [of "c - 1"] 3 assms(1) slot
      by (cases c; cases d) (auto simp: fits_def claim_def split: if_splits) }
qed (auto simp: claim_def assms(1))

lemma flat_prefixes: "CHR ''/'' \<notin> set k \<Longrightarrow> path_prefixes k = [k]"
  by (simp add: path_prefixes_def)

lemma slots_flat:
  fixes local_fold :: "string \<Rightarrow> string"
  assumes "\<forall>k \<in> set vs. CHR ''/'' \<notin> set k" and "distinct vs"
  defines "slots \<equiv> fold (add_to_slots local_fold) vs []"
  shows "claimed_flags slots f = replicate (length (by_folded local_fold vs f)) True @
      replicate (length slots - length (by_folded local_fold vs f)) False \<and>
    length (by_folded local_fold vs f) \<le> length slots \<and>
    (slots \<noteq> [] \<longrightarrow> (\<exists>k \<in> set vs. length (by_folded local_fold vs (local_fold k)) = length slots)) \<and>
    (\<forall>slot \<in> set slots. \<forall>f s. snd slot f = Some s \<longrightarrow> s \<in> set vs)"
  using assms(1,2) unfolding slots_def
proof (induction vs arbitrary: f rule: rev_induct)
  case (snoc k vs)
  let ?old = "fold (add_to_slots local_fold) vs []"
  let ?n = "\<lambda>vs f. length (by_folded local_fold vs f)"
  let ?c = "?n vs (local_fold k)" and ?d = "length ?old - ?n vs (local_fold k)"
  have IH: "claimed_flags ?old f = replicate (?n vs f) True @ replicate (length ?old - ?n vs f) False \<and>
      ?n vs f \<le> length ?old \<and> (?old \<noteq> [] \<longrightarrow> (\<exists>k \<in> set vs. ?n vs (local_fold k) = length ?old)) \<and>
      (\<forall>slot \<in> set ?old. \<forall>f s. snd slot f = Some s \<longrightarrow> s \<in> set vs)" for f
    using snoc by (intro snoc.IH) auto
  have pre: "path_prefixes k = [k]" using snoc.prems(1) flat_prefixes by simp
  have nk: "\<forall>slot \<in> set ?old. snd slot (local_fold k) \<noteq> Some k" using IH snoc.prems(2) by auto
  have flags: "claimed_flags ?old (local_fold k) = replicate ?c True @ replicate ?d False" using IH by blast
  note add = add_to_slots_flat [where local_fold = local_fold, OF pre nk flags]
  let ?new = "add_to_slots local_fold k ?old"
  have len: "length ?new = Suc ?c + (?d - 1)" using arg_cong [OF add(1), of length] by simp
  have cle: "?c \<le> length ?old" using IH by blast
  have nn: "?n (vs @ [k]) f = ?n vs f + (if f = local_fold k then 1 else 0)" for f by (simp add: by_folded_def)
  have len': "length ?new = (if ?d = 0 then Suc (length ?old) else length ?old)" using len cle by auto
  have a: "claimed_flags ?new f = replicate (?n (vs @ [k]) f) True @ replicate (length ?new - ?n (vs @ [k]) f) False"
  proof (cases "f = local_fold k")
    case True
    then show ?thesis using add(1) nn [of f] len by simp
  next
    case False
    have "claimed_flags ?new f = replicate (?n vs f) True @ replicate (length ?old - ?n vs f) False @ (if ?d = 0 then [False] else [])"
      using add(2) [OF False] IH [of f] by simp
    also have "replicate (length ?old - ?n vs f) False @ (if ?d = 0 then [False] else []) =
        replicate (length ?new - ?n vs f) False"
      using len' IH [of f] by (auto simp: Suc_diff_le replicate_append_same)
    finally show ?thesis using False nn by simp
  qed
  have b: "?n (vs @ [k]) f \<le> length ?new" using nn [of f] IH [of f] len len' by auto
  have c: "\<exists>k' \<in> set (vs @ [k]). ?n (vs @ [k]) (local_fold k') = length ?new"
  proof (cases "?d = 0")
    case True
    then show ?thesis using len cle nn [of "local_fold k"] by auto
  next
    case False
    then have "?old \<noteq> []" by auto
    then obtain k' where k': "k' \<in> set vs" "?n vs (local_fold k') = length ?old" using IH by blast
    then have "local_fold k' \<noteq> local_fold k" using False by auto
    then show ?thesis using k' len' False nn by auto
  qed
  have d: "\<forall>slot \<in> set ?new. \<forall>f s. snd slot f = Some s \<longrightarrow> s \<in> set (vs @ [k])" using add(3) IH by fastforce
  show ?case using a b c d by simp
qed (simp add: by_folded_def)

text \<open>C22. The slots for case variants are safe on a case-insensitive volume and as few as can be. Folding a
  name keeps its number of slashes and only the empty name folds to the empty name. Then the slots hold
  every variant exactly once, and within one slot no two keys, nor any directories on their paths, are
  different spellings of one local name. For keys without directories the number of slots is the size of the
  largest group of colliding keys, which is the least possible.\<close>

theorem slots_collision_free:
  assumes "\<And>s. slashes (local_fold s) = slashes s" and "\<And>s. local_fold s = [] \<longleftrightarrow> s = []"
  shows "mset (concat (assign_case_variant_slots local_fold variants)) = mset variants \<and>
    (\<forall>slot \<in> set (assign_case_variant_slots local_fold variants). \<forall>k \<in> set slot. \<forall>l \<in> set slot.
      \<forall>p \<in> set (path_prefixes k). \<forall>q \<in> set (path_prefixes l). local_fold p = local_fold q \<longrightarrow> p = q) \<and>
    (distinct variants \<longrightarrow> (\<forall>k \<in> set variants. CHR ''/'' \<notin> set k) \<longrightarrow>
      length (assign_case_variant_slots local_fold variants) =
      Max (insert 0 ((\<lambda>k. length (by_folded local_fold variants (local_fold k))) ` set variants)))"
proof (intro conjI impI)
  let ?slots = "fold (add_to_slots local_fold) variants []"
  have "mset (concat (map fst (fold (add_to_slots local_fold) vs slots))) = mset vs + mset (concat (map fst slots))" for vs slots
    by (induction vs arbitrary: slots) (simp_all add: add_to_slots_mset)
  then show "mset (concat (assign_case_variant_slots local_fold variants)) = mset variants"
    by (simp add: assign_case_variant_slots_def)
  have "list_all (slot_ok local_fold) slots \<Longrightarrow> list_all (slot_ok local_fold) (fold (add_to_slots local_fold) vs slots)" for vs slots
    by (induction vs arbitrary: slots) (simp_all add: add_to_slots_ok own_folds_differ [OF assms])
  then have ok: "list_all (slot_ok local_fold) ?slots" by simp
  show "\<forall>slot \<in> set (assign_case_variant_slots local_fold variants). \<forall>k \<in> set slot. \<forall>l \<in> set slot.
      \<forall>p \<in> set (path_prefixes k). \<forall>q \<in> set (path_prefixes l). local_fold p = local_fold q \<longrightarrow> p = q"
    unfolding assign_case_variant_slots_def
  proof (intro ballI impI)
    fix slot k l p q
    assume "slot \<in> set (map fst ?slots)"
    then obtain claimed where "(slot, claimed) \<in> set ?slots" by auto
    then have "slot_ok local_fold (slot, claimed)" using ok by (auto simp: list_all_iff)
    moreover assume "k \<in> set slot" "l \<in> set slot" "p \<in> set (path_prefixes k)" "q \<in> set (path_prefixes l)"
      "local_fold p = local_fold q"
    ultimately show "p = q" unfolding slot_ok_def by (metis (mono_tags, lifting) case_prodD option.inject)
  qed
  assume "distinct variants" and "\<forall>k \<in> set variants. CHR ''/'' \<notin> set k"
  note flat = slots_flat [OF this(2,1), where local_fold = local_fold]
  show "length (assign_case_variant_slots local_fold variants) =
      Max (insert 0 ((\<lambda>k. length (by_folded local_fold variants (local_fold k))) ` set variants))" (is "_ = Max ?sizes")
  proof (rule sym, rule Max_eqI)
    show "length (assign_case_variant_slots local_fold variants) \<in> ?sizes"
    proof (cases "?slots = []")
      case False
      then obtain k where "k \<in> set variants" "length (by_folded local_fold variants (local_fold k)) = length ?slots"
        using flat by blast
      then show ?thesis by (metis assign_case_variant_slots_def imageI insertCI length_map)
    qed (simp add: assign_case_variant_slots_def)
    fix n assume "n \<in> ?sizes"
    then show "n \<le> length (assign_case_variant_slots local_fold variants)"
      using flat by (auto simp: assign_case_variant_slots_def)
  qed simp
qed

theorem slots_collision_free_witness:
  "length (assign_case_variant_slots to_lower [''A.md'', ''B.md'', ''a.md'', ''b.md'']) = 2"
proof -
  have l: "lower_char c = CHR ''/'' \<longleftrightarrow> c = CHR ''/''" for c
    using byte_of_lower [of c] by (auto simp: is_upper_def lower_char_def dest: arg_cong [of _ _ "\<lambda>c. byte_of c :: nat"])
  have s: "slashes (to_lower s) = slashes s" for s by (induction s) (simp_all add: to_lower_def l)
  have e: "to_lower s = [] \<longleftrightarrow> s = []" for s by (simp add: to_lower_def)
  have "Max (insert 0 ((\<lambda>k. length (by_folded to_lower [''A.md'', ''B.md'', ''a.md'', ''b.md''] (to_lower k))) `
      set [''A.md'', ''B.md'', ''a.md'', ''b.md''])) = 2" by code_simp
  then show ?thesis using slots_collision_free [OF s e, of "[''A.md'', ''B.md'', ''a.md'', ''b.md'']"] by simp
qed

end
