(* ===== verification/EmailShape.thy ===== *)
theory EmailShape
  imports Utf8
begin

text \<open>
  \<open>transform/email_shape.rs\<close>: recognising Markdown renderings of messages by their content, from the first and
  last part of a file. Reading bytes as text replaces what is not UTF-8 and is a parameter.
\<close>

definition WINDOW_BYTES :: nat where "WINDOW_BYTES = 64 * 1024"
definition HEADER_TABLE_LINES :: nat where "HEADER_TABLE_LINES = 100"

definition RAW_HEADER_NAMES :: "string list" where
  "RAW_HEADER_NAMES = [''message-id:'', ''received:'', ''return-path:'', ''mime-version:'', ''dkim-signature:'',
     ''delivered-to:'', ''arc-seal:'', ''x-gmail-labels:'']"

record email_signals =
  sg_frontmatter_headers :: bool
  sg_provenance :: bool
  sg_header_table :: bool
  sg_raw_headers :: bool

definition signal_count :: "email_signals \<Rightarrow> nat" where
  "signal_count s = length (filter id [sg_frontmatter_headers s, sg_provenance s, sg_header_table s, sg_raw_headers s])"

definition describe_signals :: "email_signals \<Rightarrow> string" where
  "describe_signals s = join '', '' (map snd (filter fst
     [(sg_frontmatter_headers s, ''frontmatter-headers''), (sg_provenance s, ''provenance''),
      (sg_header_table s, ''header-table''), (sg_raw_headers s, ''raw-headers'')]))"

text \<open>Up to the closing line; the rest of the text is the body.\<close>

fun frontmatter_loop :: "string list \<Rightarrow> string list \<Rightarrow> (string list \<times> string) option" where
  "frontmatter_loop [] frontmatter = None"
| "frontmatter_loop (line # rest) frontmatter =
     (if trim line = ''---'' then Some (frontmatter, concat rest)
      else frontmatter_loop rest (frontmatter @ [trim_end_by (\<lambda>c. c = CR \<or> c = NL) line]))"

definition split_frontmatter :: "string \<Rightarrow> string list option \<times> string" where
  "split_frontmatter tx = (case split_inclusive NL tx of
     [] \<Rightarrow> (None, tx)
   | first # rest \<Rightarrow>
       if trim first \<noteq> ''---'' then (None, tx)
       else case frontmatter_loop rest [] of Some (fm, body) \<Rightarrow> (Some fm, body) | None \<Rightarrow> (None, tx))"

definition key_value :: "string \<Rightarrow> (string \<times> string) option" where
  "key_value line =
     (if line \<noteq> [] \<and> hd line \<in> {CHR '' '', TAB, CHR ''-'', CHR ''#''} then None
      else map_option (\<lambda>(k, v). (trim k, trim v)) (split_once (CHR '':'') line))"

definition unquote :: "string \<Rightarrow> string" where
  "unquote v = trim_by (\<lambda>c. c = CHR 0x22 \<or> c = CHR 0x27) v"

definition is_ws_char :: "string \<Rightarrow> bool" where
  "is_ws_char u = (case u of [a] \<Rightarrow> ws1 a | [a, b] \<Rightarrow> ws2 a b | [a, b, c] \<Rightarrow> ws3 a b c | _ \<Rightarrow> False)"

text \<open>\<open>str::split\<close> at characters with a property.\<close>

fun split_chars :: "(string \<Rightarrow> bool) \<Rightarrow> string list \<Rightarrow> string list" where
  "split_chars P [] = [[]]"
| "split_chars P (u # us) = (if P u then [] # split_chars P us
     else (case split_chars P us of [] \<Rightarrow> [u] | t # ts \<Rightarrow> (u @ t) # ts))"

definition has_taxonomy_tag :: "string \<Rightarrow> bool" where
  "has_taxonomy_tag line \<longleftrightarrow> list_ex (\<lambda>token. starts_with ''mailbox/'' token \<or> starts_with ''identity/'' token)
     (split_chars (\<lambda>u. is_ws_char u \<or> u \<in> {'','', ''['', '']'', [CHR 0x22], [CHR 0x27]}) (chars line))"

definition is_header_label_line :: "string \<Rightarrow> string \<Rightarrow> bool" where
  "is_header_label_line lower label =
     (if starts_with ''|'' lower
      then trim (hd (split_on (CHR ''|'') (trim_start_by (\<lambda>c. c = CHR ''|'') lower))) = ''**'' @ label @ ''**''
      else starts_with (''**'' @ label @ '':**'') lower \<or> starts_with (''**'' @ label @ ''**:'') lower)"

definition HEADER_LABELS :: "string list" where "HEADER_LABELS = [''from'', ''to'', ''subject'', ''date'']"

definition strip_bom :: "string \<Rightarrow> string" where
  "strip_bom tx = (case strip_prefix [CHR 0xEF, CHR 0xBB, CHR 0xBF] tx of Some rest \<Rightarrow> rest | None \<Rightarrow> tx)"

definition frontmatter_keys :: "string list \<Rightarrow> (string \<times> string) list" where
  "frontmatter_keys fm = List.map_filter key_value fm"

definition has_key :: "(string \<times> string) list \<Rightarrow> string \<Rightarrow> bool" where
  "has_key keys name \<longleftrightarrow> list_ex (\<lambda>(k, _). k = name) keys"

definition header_keys_signal :: "(string \<times> string) list \<Rightarrow> bool" where
  "header_keys_signal keys \<longleftrightarrow> has_key keys ''sender_domain'' \<or>
     2 \<le> length (filter (has_key keys) [''from'', ''to'', ''cc'', ''subject''])"

definition provenance_signal :: "string list \<Rightarrow> (string \<times> string) list \<Rightarrow> bool" where
  "provenance_signal fm keys \<longleftrightarrow> has_key keys ''has_attachments'' \<or> has_key keys ''uid'' \<or> has_key keys ''also-in'' \<or>
     list_ex (\<lambda>(k, v). k = ''source'' \<and> ends_with ''.eml'' (to_lower (unquote v))) keys \<or>
     list_ex has_taxonomy_tag fm"

definition original_file_line :: "string \<Rightarrow> bool" where
  "original_file_line line \<longleftrightarrow> contains ''original file'' (to_lower line) \<and> contains ''.eml'' (to_lower line)"

definition signals :: "string \<Rightarrow> email_signals" where
  "signals tx0 =
     (let tx = strip_bom tx0; (frontmatter, body) = split_frontmatter tx; body_lines = lines body;
          (headers, provenance) = (case frontmatter of
              Some fm \<Rightarrow> (let keys = frontmatter_keys fm in (header_keys_signal keys, provenance_signal fm keys))
            | None \<Rightarrow> (False, False));
          labels_seen = filter (\<lambda>label. list_ex (\<lambda>line. is_header_label_line (to_lower (trim line)) label)
            (take HEADER_TABLE_LINES body_lines)) HEADER_LABELS;
          raw_names_seen = filter (\<lambda>name. list_ex (\<lambda>line. starts_with name (to_lower line)) (lines tx)) RAW_HEADER_NAMES in
      \<lparr>sg_frontmatter_headers = headers, sg_provenance = provenance \<or> list_ex original_file_line body_lines,
       sg_header_table = (3 \<le> length labels_seen), sg_raw_headers = (3 \<le> length raw_names_seen)\<rparr>)"

definition classify :: "string \<Rightarrow> email_signals option" where
  "classify tx = (let s = signals tx in if 2 \<le> signal_count s then Some s else None)"

text \<open>The bytes of a file that can be read; \<open>lossy\<close> is \<open>String::from_utf8_lossy\<close>.\<close>

definition read_window :: "(string \<Rightarrow> string) \<Rightarrow> string \<Rightarrow> string" where
  "read_window lossy bytes =
     (if length bytes \<le> 2 * WINDOW_BYTES then lossy bytes
      else lossy (take WINDOW_BYTES bytes) @ [NL] @ lossy (drop (length bytes - WINDOW_BYTES) bytes))"

section \<open>Lemmas\<close>

lemma split_chars_not_Nil [simp]: "split_chars P us \<noteq> []"
  by (induction us) (auto split: list.split)

lemma frontmatter_loop_text:
  "frontmatter_loop ls acc = Some (fm, body) \<Longrightarrow> \<exists>pre. concat ls = pre @ body"
proof (induction ls arbitrary: acc)
  case (Cons l ls)
  show ?case
  proof (cases "trim l = ''---''")
    case False
    then obtain pre where "concat ls = pre @ body" using Cons by fastforce
    then show ?thesis by (intro exI [of _ "l @ pre"]) simp
  qed (use Cons.prems in auto)
qed simp

lemma split_frontmatter_body: "\<exists>pre. tx = pre @ snd (split_frontmatter tx)"
proof (cases "split_inclusive NL tx")
  case (Cons first rest)
  show ?thesis
  proof (cases "frontmatter_loop rest []")
    case (Some r)
    obtain fm body where r: "r = (fm, body)" by fastforce
    then obtain pre where "concat rest = pre @ body" using Some frontmatter_loop_text by blast
    then have "tx = (first @ pre) @ body" using concat_split_inclusive [of NL tx] Cons by simp
    then show ?thesis using Cons Some r by (auto simp: split_frontmatter_def)
  qed (use Cons in \<open>auto simp: split_frontmatter_def\<close>)
qed (simp add: split_frontmatter_def)

lemma classify_two_families: "classify tx = Some s \<longleftrightarrow> s = signals tx \<and> 2 \<le> signal_count s"
  by (auto simp: classify_def Let_def)

text \<open>A plain note without frontmatter, header labels, raw headers or a pointer to a message is never taken
  for mail.\<close>

lemma no_signal_no_skip:
  assumes "fst (split_frontmatter (strip_bom tx)) = None"
    and "\<not> list_ex original_file_line (lines (strip_bom tx))"
  shows "classify tx \<noteq> None \<longleftrightarrow> sg_header_table (signals tx) \<and> sg_raw_headers (signals tx)"
proof -
  have b: "split_frontmatter (strip_bom tx) = (None, strip_bom tx)"
    using assms(1) by (auto simp: split_frontmatter_def split: list.splits option.splits if_splits)
  have "\<not> sg_frontmatter_headers (signals tx)" "\<not> sg_provenance (signals tx)"
    using b assms(2) by (simp_all add: signals_def Let_def)
  then show ?thesis by (auto simp: classify_def signal_count_def Let_def)
qed

end
