(* ===== verification/RcloneLog.thy ===== *)
theory RcloneLog
  imports Utf8 LineStore
begin

text \<open>
  \<open>core/rclone/log.rs\<close>: the tailer that polls rclone's JSON log while rclone still writes it. The
  JSON parser is a library: \<open>json\<close> maps a line to the fields read from it, or to \<open>None\<close> when
  it does not parse. What the tailer logs is kept in \<open>tl_warned\<close>.
\<close>

section \<open>The log and its summaries\<close>

record rclone_stats =
  rs_bytes :: nat
  rs_transfers :: nat
  rs_errors :: nat
  rs_deletes :: nat

record log_line =
  ll_level :: string
  ll_msg :: string
  ll_object :: "string option"
  ll_stats :: "rclone_stats option"

record log_summary =
  ls_transferred :: nat
  ls_errors :: nat
  ls_bytes :: nat
  ls_deletes :: nat
  ls_duplicate_notices :: nat

definition empty_summary :: log_summary where
  "empty_summary = \<lparr>ls_transferred = 0, ls_errors = 0, ls_bytes = 0, ls_deletes = 0, ls_duplicate_notices = 0\<rparr>"

record collapsed_error =
  ce_cause :: string
  ce_first_key :: "string option"
  ce_repeated :: nat

record tail_delta =
  td_transferred :: nat
  td_errors :: nat
  td_bytes :: nat
  td_deletes :: nat
  td_collapsed_repeats :: "collapsed_error list"
  td_copied_objects :: "string list"

definition empty_delta :: tail_delta where
  "empty_delta = \<lparr>td_transferred = 0, td_errors = 0, td_bytes = 0, td_deletes = 0,
     td_collapsed_repeats = [], td_copied_objects = []\<rparr>"

definition delta_is_empty :: "tail_delta \<Rightarrow> bool" where
  "delta_is_empty d \<longleftrightarrow> td_transferred d = 0 \<and> td_errors d = 0 \<and> td_bytes d = 0 \<and> td_deletes d = 0"

record error_streak =
  es_cause :: string
  es_first_key :: "string option"
  es_count :: nat

text \<open>A warning: its message, the object and the cause.\<close>

type_synonym warning = "string \<times> string option \<times> string"

record tailer =
  tl_offset :: nat
  tl_partial_line :: string
  tl_cumulative :: log_summary
  tl_current_streak :: "error_streak option"
  tl_step :: string
  tl_pending_copied :: "string list"
  tl_warned :: "warning list"

definition tailer_new :: "string \<Rightarrow> tailer" where
  "tailer_new step = \<lparr>tl_offset = 0, tl_partial_line = [], tl_cumulative = empty_summary,
     tl_current_streak = None, tl_step = step, tl_pending_copied = [], tl_warned = []\<rparr>"

section \<open>Processing one line\<close>

definition flush_error_streak :: "tailer \<Rightarrow> tailer \<times> collapsed_error option" where
  "flush_error_streak t = (case tl_current_streak t of
     None \<Rightarrow> (t, None)
   | Some streak \<Rightarrow> (t\<lparr>tl_current_streak := None\<rparr>,
       if es_count streak \<le> 1 then None
       else Some \<lparr>ce_cause = es_cause streak, ce_first_key = es_first_key streak,
                  ce_repeated = es_count streak - 1\<rparr>))"

definition warning_for :: "string \<Rightarrow> string option \<Rightarrow> string \<Rightarrow> warning" where
  "warning_for step key cause = (case key of
     Some k \<Rightarrow> (if step = ''delete'' then ''rclone object deletion failed'' else ''rclone object transfer failed'', key, cause)
   | None \<Rightarrow> (''rclone reported an error'', None, cause))"

definition start_streak :: "string option \<Rightarrow> string \<Rightarrow> tailer \<Rightarrow> tailer" where
  "start_streak key cause t = t\<lparr>tl_warned := tl_warned t @ [warning_for (tl_step t) key cause],
     tl_current_streak := Some \<lparr>es_cause = cause, es_first_key = key, es_count = 1\<rparr>\<rparr>"

definition record_error :: "string option \<Rightarrow> string \<Rightarrow> tailer \<Rightarrow> tailer \<times> collapsed_error option" where
  "record_error key cause t = (case tl_current_streak t of
     Some streak \<Rightarrow>
       if es_cause streak = cause
       then (t\<lparr>tl_current_streak := Some (streak\<lparr>es_count := es_count streak + 1\<rparr>)\<rparr>, None)
       else (let (t', flushed) = flush_error_streak t in (start_streak key cause t', flushed))
   | None \<Rightarrow> (let (t', flushed) = flush_error_streak t in (start_streak key cause t', flushed)))"

definition apply_stats :: "rclone_stats option \<Rightarrow> log_summary \<Rightarrow> log_summary" where
  "apply_stats s c = (case s of None \<Rightarrow> c
     | Some st \<Rightarrow> c\<lparr>ls_transferred := rs_transfers st, ls_errors := rs_errors st, ls_bytes := rs_bytes st,
                    ls_deletes := rs_deletes st\<rparr>)"

definition copied_of :: "log_line \<Rightarrow> string list" where
  "copied_of l = (if eq_ignore_case (ll_level l) ''info'' \<and> starts_with ''Copied '' (ll_msg l)
     then (case ll_object l of Some ob \<Rightarrow> [ob] | None \<Rightarrow> []) else [])"

definition is_duplicate_notice :: "log_line \<Rightarrow> bool" where
  "is_duplicate_notice l \<longleftrightarrow> eq_ignore_case (ll_level l) ''notice'' \<and>
     contains ''Duplicate object found in source'' (ll_msg l)"

definition process_line ::
  "(string \<Rightarrow> log_line option) \<Rightarrow> string \<Rightarrow> tailer \<Rightarrow> tailer \<times> collapsed_error option" where
  "process_line json line t =
     (if line = [] then (t, None)
      else case json line of
        None \<Rightarrow> (t, None)
      | Some parsed \<Rightarrow>
          (let c1 = apply_stats (ll_stats parsed) (tl_cumulative t);
               c2 = (if is_duplicate_notice parsed
                     then c1\<lparr>ls_duplicate_notices := ls_duplicate_notices c1 + 1\<rparr> else c1);
               t' = t\<lparr>tl_cumulative := c2, tl_pending_copied := tl_pending_copied t @ copied_of parsed\<rparr> in
           if eq_ignore_case (ll_level parsed) ''error''
           then record_error (ll_object parsed) (ll_msg parsed) t' else (t', None)))"

fun process_lines ::
  "(string \<Rightarrow> log_line option) \<Rightarrow> string list \<Rightarrow> tailer \<Rightarrow> tailer \<times> collapsed_error list" where
  "process_lines json [] t = (t, [])"
| "process_lines json (l # ls) t =
     (let (t1, summary) = process_line json (trim l) t; (t2, rest) = process_lines json ls t1
      in (t2, (case summary of None \<Rightarrow> rest | Some s \<Rightarrow> s # rest)))"

section \<open>Polling\<close>

definition flush_only_delta :: "tailer \<Rightarrow> tailer \<times> tail_delta" where
  "flush_only_delta t =
     (let (t', summary) = flush_error_streak (t\<lparr>tl_pending_copied := []\<rparr>) in
      (t', empty_delta\<lparr>td_copied_objects := tl_pending_copied t,
             td_collapsed_repeats := (case summary of None \<Rightarrow> [] | Some s \<Rightarrow> [s])\<rparr>))"

text \<open>\<open>file\<close> is what the log holds at this poll, \<open>None\<close> when it cannot be opened. Reading to a string
  fails when the unread bytes are not valid UTF-8, as when rclone is in the middle of a character.\<close>

definition poll :: "(string \<Rightarrow> log_line option) \<Rightarrow> string option \<Rightarrow> tailer \<Rightarrow> tailer \<times> tail_delta" where
  "poll json file t = (case file of
     None \<Rightarrow> flush_only_delta t
   | Some contents \<Rightarrow>
       (let buf = drop (tl_offset t) contents in
        if \<not> utf8_ok buf \<or> buf = [] then flush_only_delta t
        else
          (let chunk = tl_partial_line t @ buf;
               pieces = split_on NL chunk;
               t0 = t\<lparr>tl_partial_line := if ends_with [NL] chunk then [] else last pieces\<rparr>;
               before = tl_cumulative t0;
               (t1, repeats) = process_lines json (butlast pieces) t0;
               (t2, last_repeat) = flush_error_streak (t1\<lparr>tl_offset := tl_offset t1 + length buf\<rparr>);
               now = tl_cumulative t2 in
           (t2\<lparr>tl_pending_copied := []\<rparr>,
            \<lparr>td_transferred = ls_transferred now - ls_transferred before,
             td_errors = ls_errors now - ls_errors before,
             td_bytes = ls_bytes now - ls_bytes before,
             td_deletes = ls_deletes now - ls_deletes before,
             td_collapsed_repeats = repeats @ (case last_repeat of None \<Rightarrow> [] | Some s \<Rightarrow> [s]),
             td_copied_objects = tl_pending_copied t2\<rparr>))))"

definition tail_summary :: "tailer \<Rightarrow> log_summary" where "tail_summary t = tl_cumulative t"

text \<open>A run: one poll per observed state of the file.\<close>

fun polls :: "(string \<Rightarrow> log_line option) \<Rightarrow> string option list \<Rightarrow> tailer \<Rightarrow> tailer \<times> tail_delta list" where
  "polls json [] t = (t, [])"
| "polls json (f # fs) t = (let (t1, d) = poll json f t; (t2, ds) = polls json fs t1 in (t2, d # ds))"

section \<open>What the complete lines of a log say\<close>

text \<open>The reference: every complete line read once, in order, with no polling.\<close>

definition parsed_lines :: "(string \<Rightarrow> log_line option) \<Rightarrow> string list \<Rightarrow> log_line list" where
  "parsed_lines json ls = List.map_filter json (filter (\<lambda>l. l \<noteq> []) (map trim ls))"

definition complete_lines :: "string \<Rightarrow> string list" where
  "complete_lines s = butlast (split_on NL s)"

definition count_line :: "log_line \<Rightarrow> log_summary \<Rightarrow> log_summary" where
  "count_line l c = (let c1 = apply_stats (ll_stats l) c in
     if is_duplicate_notice l then c1\<lparr>ls_duplicate_notices := ls_duplicate_notices c1 + 1\<rparr> else c1)"

definition whole_summary :: "(string \<Rightarrow> log_line option) \<Rightarrow> string list \<Rightarrow> log_summary" where
  "whole_summary json ls = fold count_line (parsed_lines json ls) empty_summary"

definition whole_copied :: "(string \<Rightarrow> log_line option) \<Rightarrow> string list \<Rightarrow> string list" where
  "whole_copied json ls = concat (map copied_of (parsed_lines json ls))"

definition error_lines :: "(string \<Rightarrow> log_line option) \<Rightarrow> string list \<Rightarrow> nat" where
  "error_lines json ls = length (filter (\<lambda>l. eq_ignore_case (ll_level l) ''error'') (parsed_lines json ls))"

lemma parsed_lines_append: "parsed_lines json (a @ b) = parsed_lines json a @ parsed_lines json b"
  by (simp add: parsed_lines_def map_filter_append)

lemma parsed_lines_Nil [simp]: "parsed_lines json [] = []"
  by (simp add: parsed_lines_def)

lemma parsed_lines_Cons: "parsed_lines json (l # ls) =
    (if trim l = [] then [] else case json (trim l) of None \<Rightarrow> [] | Some p \<Rightarrow> [p]) @ parsed_lines json ls"
  by (simp add: parsed_lines_def split: option.splits)

text \<open>Splitting a text that arrives in two pieces.\<close>

lemma split_on_concat:
  "split_on c (a @ b) = butlast (split_on c a) @ split_on c (last (split_on c a) @ b)"
proof (induction a)
  case (Cons x a)
  show ?case
  proof (cases "x = c")
    case False
    obtain p ps where p: "split_on c a = p # ps" by (cases "split_on c a") auto
    show ?thesis using Cons False p by (cases ps) (auto split: list.splits)
  qed (use Cons in simp)
qed simp

lemma ends_with_split: "ends_with [NL] s \<Longrightarrow> last (split_on NL s) = []"
  by (auto simp: ends_with_iff)

lemma complete_lines_append:
  "complete_lines (a @ b) = complete_lines a @ butlast (split_on NL (last (split_on NL a) @ b))"
  unfolding complete_lines_def split_on_concat [of NL a b] by (simp add: butlast_append)

lemma last_split_append: "last (split_on NL (a @ b)) = last (split_on NL (last (split_on NL a) @ b))"
  unfolding split_on_concat [of NL a b] by simp

section \<open>One poll against the reference\<close>

text \<open>Error lines already accounted for: logged when seen, or counted in the running streak.\<close>

definition owed :: "tailer \<Rightarrow> nat" where
  "owed t = length (tl_warned t) + (case tl_current_streak t of None \<Rightarrow> 0 | Some s \<Rightarrow> es_count s - 1)"

definition streak_ok :: "tailer \<Rightarrow> bool" where
  "streak_ok t \<longleftrightarrow> (case tl_current_streak t of None \<Rightarrow> True | Some s \<Rightarrow> 1 \<le> es_count s)"

definition repeated_in :: "collapsed_error list \<Rightarrow> nat" where
  "repeated_in rs = sum_list (map ce_repeated rs)"

abbreviation opt_list :: "'a option \<Rightarrow> 'a list" where
  "opt_list x \<equiv> (case x of None \<Rightarrow> [] | Some y \<Rightarrow> [y])"

lemma flush_error_streak_props:
  assumes "flush_error_streak t = (t', s)" and "streak_ok t"
  shows "t' = t\<lparr>tl_current_streak := None\<rparr>" "owed t' + repeated_in (opt_list s) = owed t" "streak_ok t'"
  using assms
  by (auto simp: flush_error_streak_def owed_def streak_ok_def repeated_in_def split: option.splits if_splits)

lemma record_error_props:
  assumes "record_error key cause t = (t', s)" and "streak_ok t"
  shows "streak_ok t'" "owed t' + repeated_in (opt_list s) = owed t + 1"
    "tl_cumulative t' = tl_cumulative t" "tl_pending_copied t' = tl_pending_copied t"
    "tl_offset t' = tl_offset t" "tl_partial_line t' = tl_partial_line t"
  using assms
  by (auto simp: record_error_def flush_error_streak_def start_streak_def owed_def streak_ok_def
      repeated_in_def Let_def split: option.splits if_splits prod.splits)

lemma process_line_props:
  assumes "process_line json l t = (t', s)" and "streak_ok t"
  defines "ps \<equiv> (if l = [] then [] else case json l of None \<Rightarrow> [] | Some p \<Rightarrow> [p])"
  shows "streak_ok t' \<and>
    owed t' + repeated_in (opt_list s) = owed t + length (filter (\<lambda>l. eq_ignore_case (ll_level l) ''error'') ps) \<and>
    tl_cumulative t' = fold count_line ps (tl_cumulative t) \<and>
    tl_pending_copied t' = tl_pending_copied t @ concat (map copied_of ps) \<and>
    tl_offset t' = tl_offset t \<and> tl_partial_line t' = tl_partial_line t"
proof (cases "l = [] \<or> json l = None")
  case True
  then show ?thesis using assms by (auto simp: process_line_def repeated_in_def)
next
  case False
  then obtain p where p: "json l = Some p" "l \<noteq> []" by auto
  let ?t = "t\<lparr>tl_cumulative := count_line p (tl_cumulative t),
      tl_pending_copied := tl_pending_copied t @ copied_of p\<rparr>"
  have t': "(t', s) = (if eq_ignore_case (ll_level p) ''error'' then record_error (ll_object p) (ll_msg p) ?t else (?t, None))"
    using assms(1) [symmetric] p(2)
    by (simp only: process_line_def count_line_def Let_def p(1) option.case if_False)
  have ok: "streak_ok ?t" "owed ?t = owed t" using assms(2) by (simp_all add: streak_ok_def owed_def)
  show ?thesis
  proof (cases "eq_ignore_case (ll_level p) ''error''")
    case True
    then have "record_error (ll_object p) (ll_msg p) ?t = (t', s)" using t' by simp
    from record_error_props [OF this ok(1)] show ?thesis using ok p True by (simp add: ps_def)
  next
    case False
    then show ?thesis using t' ok p by (simp add: ps_def repeated_in_def)
  qed
qed

lemma process_lines_props:
  "process_lines json ls t = (t', rs) \<Longrightarrow> streak_ok t \<Longrightarrow>
    streak_ok t' \<and> owed t' + repeated_in rs = owed t + error_lines json ls \<and>
    tl_cumulative t' = fold count_line (parsed_lines json ls) (tl_cumulative t) \<and>
    tl_pending_copied t' = tl_pending_copied t @ whole_copied json ls \<and>
    tl_offset t' = tl_offset t \<and> tl_partial_line t' = tl_partial_line t"
proof (induction json ls t arbitrary: t' rs rule: process_lines.induct)
  case (1 json t)
  then show ?case by (simp add: repeated_in_def error_lines_def whole_copied_def)
next
  case (2 json l ls t)
  obtain t1 s where t1: "process_line json (trim l) t = (t1, s)" by fastforce
  obtain t2 rest where t2: "process_lines json ls t1 = (t2, rest)" by fastforce
  have eq: "t' = t2" "rs = opt_list s @ rest"
    using "2.prems"(1) t1 t2 by (auto simp: Let_def split: option.splits)
  note p = process_line_props [OF t1 "2.prems"(2)]
  have IH: "streak_ok t2 \<and> owed t2 + repeated_in rest = owed t1 + error_lines json ls \<and>
    tl_cumulative t2 = fold count_line (parsed_lines json ls) (tl_cumulative t1) \<and>
    tl_pending_copied t2 = tl_pending_copied t1 @ whole_copied json ls \<and>
    tl_offset t2 = tl_offset t1 \<and> tl_partial_line t2 = tl_partial_line t1"
    using "2.IH" [OF t1 [symmetric] refl t2] p by simp
  show ?case using p IH
    unfolding eq error_lines_def whole_copied_def parsed_lines_Cons
    by (auto simp: repeated_in_def)
qed

text \<open>What the tailer knows after reading a prefix of the log: its offset, the unfinished line, the
  totals of the complete lines, and no streak left running.\<close>

definition tail_inv :: "(string \<Rightarrow> log_line option) \<Rightarrow> string \<Rightarrow> tailer \<Rightarrow> bool" where
  "tail_inv json read t \<longleftrightarrow> tl_offset t = length read \<and> tl_partial_line t = last (split_on NL read) \<and>
     tl_cumulative t = whole_summary json (complete_lines read) \<and> tl_pending_copied t = [] \<and>
     tl_current_streak t = None"

lemma tailer_new_inv: "tail_inv json [] (tailer_new step)"
  by (simp add: tail_inv_def tailer_new_def whole_summary_def complete_lines_def)

text \<open>One poll: either nothing is read and the state stays, or the whole rest is.\<close>

definition poll_reads :: "string option \<Rightarrow> string \<Rightarrow> string" where
  "poll_reads file read = (case file of None \<Rightarrow> read
     | Some contents \<Rightarrow> let buf = drop (length read) contents in if utf8_ok buf then read @ buf else read)"

lemma flush_only_delta_idle:
  "tail_inv json read t \<Longrightarrow> flush_only_delta t = (t, empty_delta)"
  by (simp add: tail_inv_def flush_only_delta_def flush_error_streak_def empty_delta_def)

lemma whole_append:
  "whole_summary json (a @ b) = fold count_line (parsed_lines json b) (whole_summary json a)"
  "whole_copied json (a @ b) = whole_copied json a @ whole_copied json b"
  "error_lines json (a @ b) = error_lines json a + error_lines json b"
  by (simp_all add: whole_summary_def whole_copied_def error_lines_def parsed_lines_append)

lemma poll_props:
  assumes "tail_inv json read t" and "poll json file t = (t', d)"
  defines "read' \<equiv> poll_reads file read"
  shows "tail_inv json read' t' \<and>
    whole_copied json (complete_lines read') = whole_copied json (complete_lines read) @ td_copied_objects d \<and>
    length (tl_warned t') + repeated_in (td_collapsed_repeats d) + error_lines json (complete_lines read) =
         length (tl_warned t) + error_lines json (complete_lines read') \<and>
    td_transferred d = ls_transferred (tl_cumulative t') - ls_transferred (tl_cumulative t) \<and>
    td_bytes d = ls_bytes (tl_cumulative t') - ls_bytes (tl_cumulative t) \<and>
    td_errors d = ls_errors (tl_cumulative t') - ls_errors (tl_cumulative t) \<and>
    td_deletes d = ls_deletes (tl_cumulative t') - ls_deletes (tl_cumulative t)"
proof (cases "\<exists>contents. file = Some contents \<and> utf8_ok (drop (length read) contents) \<and> drop (length read) contents \<noteq> []")
  case False
  then have "read' = read" by (auto simp: read'_def poll_reads_def Let_def split: option.splits)
  moreover have "poll json file t = flush_only_delta t"
    using False assms(1) by (auto simp: poll_def tail_inv_def Let_def split: option.splits)
  then have "t' = t \<and> d = empty_delta" using assms(2) flush_only_delta_idle [OF assms(1)] by simp
  ultimately show ?thesis
    using assms(1) by (simp add: empty_delta_def repeated_in_def)
next
  case True
  then obtain contents where c: "file = Some contents" "utf8_ok (drop (length read) contents)"
    "drop (length read) contents \<noteq> []" by blast
  define buf where "buf = drop (length read) contents"
  define pieces where "pieces = split_on NL (tl_partial_line t @ buf)"
  define t0 where "t0 = t\<lparr>tl_partial_line := last pieces\<rparr>"
  have inv: "tl_offset t = length read" "tl_partial_line t = last (split_on NL read)"
    "tl_cumulative t = whole_summary json (complete_lines read)" "tl_pending_copied t = []" "tl_current_streak t = None"
    using assms(1) by (simp_all add: tail_inv_def)
  have read': "read' = read @ buf" using c by (simp add: read'_def poll_reads_def buf_def Let_def)
  have pl: "(if ends_with [NL] (tl_partial_line t @ buf) then []
      else last (split_on NL (tl_partial_line t @ buf))) = last pieces"
    using ends_with_split pieces_def by simp
  obtain t1 repeats where t1: "process_lines json (butlast pieces) t0 = (t1, repeats)" by fastforce
  obtain t2 lr where t2: "flush_error_streak (t1\<lparr>tl_offset := tl_offset t1 + length buf\<rparr>) = (t2, lr)" by fastforce
  have cb: "utf8_ok buf" "buf \<noteq> []" using c by (simp_all add: buf_def)
  have body: "(t', d) = (t2\<lparr>tl_pending_copied := []\<rparr>,
            \<lparr>td_transferred = ls_transferred (tl_cumulative t2) - ls_transferred (tl_cumulative t),
             td_errors = ls_errors (tl_cumulative t2) - ls_errors (tl_cumulative t),
             td_bytes = ls_bytes (tl_cumulative t2) - ls_bytes (tl_cumulative t),
             td_deletes = ls_deletes (tl_cumulative t2) - ls_deletes (tl_cumulative t),
             td_collapsed_repeats = repeats @ opt_list lr,
             td_copied_objects = tl_pending_copied t2\<rparr>)"
    using assms(2) cb c(1) inv(1) t1 t2
    by (simp add: poll_def Let_def buf_def [symmetric] pl)
      (simp add: pieces_def [symmetric] t0_def)
  have so: "streak_ok t0" using inv(5) by (simp add: streak_ok_def t0_def)
  note p1 = process_lines_props [OF t1 so]
  have so1: "streak_ok (t1\<lparr>tl_offset := tl_offset t1 + length buf\<rparr>)" using p1 by (simp add: streak_ok_def)
  note p2 = flush_error_streak_props [OF t2 so1]
  have pc: "complete_lines read' = complete_lines read @ butlast pieces" "last (split_on NL read') = last pieces"
    using complete_lines_append last_split_append by (simp_all add: read' pieces_def inv(2))
  have o: "owed t0 = length (tl_warned t)" "owed (t1\<lparr>tl_offset := tl_offset t1 + length buf\<rparr>) = owed t1"
    using inv(5) by (simp_all add: owed_def t0_def)
  have eq: "t' = t2\<lparr>tl_pending_copied := []\<rparr>" using body by simp
  have t2': "tl_current_streak t2 = None" "tl_offset t2 = length read'" "tl_partial_line t2 = last pieces"
    "tl_cumulative t2 = fold count_line (parsed_lines json (butlast pieces)) (tl_cumulative t)"
    "tl_pending_copied t2 = whole_copied json (butlast pieces)"
    using p1 p2(1) inv read' by (simp_all add: t0_def)
  have "owed t2 = length (tl_warned t2)" using t2'(1) by (simp add: owed_def)
  then have "length (tl_warned t2) + repeated_in (repeats @ opt_list lr) = length (tl_warned t) + error_lines json (butlast pieces)"
    using p1 p2(2) o by (simp add: repeated_in_def)
  moreover have "tail_inv json read' t'"
    using t2' inv(3) pc by (simp add: tail_inv_def eq whole_append)
  ultimately show ?thesis
    using body t2'(5) pc(1) by (simp add: whole_append)
qed

section \<open>Whole runs\<close>

definition stat_fields :: "((log_summary \<Rightarrow> nat) \<times> (rclone_stats \<Rightarrow> nat) \<times> (tail_delta \<Rightarrow> nat)) set" where
  "stat_fields = {(ls_transferred, rs_transfers, td_transferred), (ls_errors, rs_errors, td_errors),
     (ls_bytes, rs_bytes, td_bytes), (ls_deletes, rs_deletes, td_deletes)}"

definition stats_of :: "(string \<Rightarrow> log_line option) \<Rightarrow> string list \<Rightarrow> rclone_stats list" where
  "stats_of json ls = List.map_filter ll_stats (parsed_lines json ls)"

lemma fold_count_field:
  "(sel, fld, d) \<in> stat_fields \<Longrightarrow>
     sel (fold count_line ps c) = last (sel c # map fld (List.map_filter ll_stats ps))"
proof (induction ps arbitrary: c)
  case (Cons p ps)
  have "sel (count_line p c) = (case ll_stats p of None \<Rightarrow> sel c | Some s \<Rightarrow> fld s)"
    using Cons.prems
    by (auto simp: stat_fields_def count_line_def apply_stats_def Let_def split: option.splits)
  then show ?case using Cons by (auto split: option.splits)
qed simp

lemma whole_summary_field:
  "(sel, fld, d) \<in> stat_fields \<Longrightarrow> sel (whole_summary json ls) = last (0 # map fld (stats_of json ls))"
  using fold_count_field [of sel fld d "parsed_lines json ls" empty_summary]
  by (auto simp: whole_summary_def stats_of_def stat_fields_def empty_summary_def)

lemma sorted_last_mono: "sorted (a @ b) \<Longrightarrow> last ((0::nat) # a) \<le> last (0 # a @ b)"
  by (cases b rule: rev_cases) (auto simp: sorted_append)

lemma poll_reads_prefix: "\<exists>more. complete_lines (poll_reads f read) = complete_lines read @ more"
  using complete_lines_append by (auto simp: poll_reads_def Let_def split: option.splits)

lemma fold_poll_reads_prefix:
  "\<exists>more. complete_lines (fold poll_reads fs read) = complete_lines read @ more"
proof (induction fs arbitrary: read)
  case (Cons f fs)
  then show ?case using poll_reads_prefix [of f read] by (metis append_assoc fold_simps(2))
qed simp

lemma polls_props:
  assumes "polls json fs t = (t', ds)" and "tail_inv json read t"
  shows "tail_inv json (fold poll_reads fs read) t' \<and>
    whole_copied json (complete_lines (fold poll_reads fs read)) =
      whole_copied json (complete_lines read) @ concat (map td_copied_objects ds) \<and>
    length (tl_warned t') + sum_list (map (repeated_in \<circ> td_collapsed_repeats) ds) +
      error_lines json (complete_lines read) =
      length (tl_warned t) + error_lines json (complete_lines (fold poll_reads fs read))"
  using assms
proof (induction json fs t arbitrary: t' ds read rule: polls.induct)
  case (2 json f fs t)
  obtain t1 d where d: "poll json f t = (t1, d)" by fastforce
  obtain t2 ds2 where d2: "polls json fs t1 = (t2, ds2)" by fastforce
  have eq: "t' = t2" "ds = d # ds2" using "2.prems"(1) d d2 by auto
  note p = poll_props [OF "2.prems"(2) d]
  have "tail_inv json (poll_reads f read) t1" using p by blast
  from "2.IH" [OF d [symmetric] refl d2 this] show ?case using p by (simp add: eq)
qed simp

lemma polls_sum:
  assumes "polls json fs t = (t', ds)" and "tail_inv json read t" and "(sel, fld, dl) \<in> stat_fields"
    and "sorted (map fld (stats_of json (complete_lines (fold poll_reads fs read))))"
  shows "sel (tl_cumulative t) + sum_list (map dl ds) = sel (tl_cumulative t')"
  using assms
proof (induction json fs t arbitrary: t' ds read rule: polls.induct)
  case (2 json f fs t)
  obtain t1 d where d: "poll json f t = (t1, d)" by fastforce
  obtain t2 ds2 where d2: "polls json fs t1 = (t2, ds2)" by fastforce
  have eq: "t' = t2" "ds = d # ds2" using "2.prems"(1) d d2 by auto
  note p = poll_props [OF "2.prems"(2) d]
  then have inv: "tail_inv json (poll_reads f read) t1" by blast
  have "sel (tl_cumulative t1) + sum_list (map dl ds2) = sel (tl_cumulative t2)"
    using "2.IH" [OF d [symmetric] refl d2 inv "2.prems"(3)] "2.prems"(4) by simp
  moreover have "dl d = sel (tl_cumulative t1) - sel (tl_cumulative t)"
    using p "2.prems"(3) by (auto simp: stat_fields_def)
  moreover have "sel (tl_cumulative t) \<le> sel (tl_cumulative t1)"
  proof -
    obtain more where m: "complete_lines (poll_reads f read) = complete_lines read @ more"
      using poll_reads_prefix by blast
    obtain more' where m': "complete_lines (fold poll_reads (f # fs) read) = complete_lines (poll_reads f read) @ more'"
      using fold_poll_reads_prefix [of fs "poll_reads f read"] by auto
    have "sorted (map fld (stats_of json (complete_lines read)) @ map fld (stats_of json more))"
      using "2.prems"(4) unfolding m' m by (simp add: stats_of_def parsed_lines_append map_filter_append sorted_append)
    then show ?thesis
      using sorted_last_mono whole_summary_field [OF "2.prems"(3)] inv "2.prems"(2) m
      by (simp add: tail_inv_def stats_of_def parsed_lines_append map_filter_append del: last.simps)
  qed
  ultimately show ?case by (simp add: eq)
qed simp

text \<open>Polling a growing, well-formed log to its end reads all of it.\<close>

lemma poll_reads_progress:
  assumes "utf8_ok read" and "\<And>c. f = Some c \<Longrightarrow> \<exists>u. tx = c @ u" and "\<exists>u. tx = read @ u"
  shows "utf8_ok (poll_reads f read)" "\<exists>u. tx = poll_reads f read @ u"
proof -
  show "utf8_ok (poll_reads f read)"
    using assms(1) by (auto simp: poll_reads_def Let_def utf8_ok_append split: option.splits)
  show "\<exists>u. tx = poll_reads f read @ u"
  proof (cases f)
    case (Some c)
    then obtain u v where u: "tx = c @ u" "tx = read @ v" using assms(2,3) by blast
    then have "length read \<le> length c \<Longrightarrow> read @ drop (length read) c = c"
      by (metis append_eq_append_conv_if append_take_drop_id)
    then have "poll_reads f read = read \<or> poll_reads f read = c"
      using Some by (cases "length read \<le> length c") (simp_all add: poll_reads_def Let_def)
    then show ?thesis using u(1) assms(3) by auto
  qed (use assms(3) in \<open>simp add: poll_reads_def\<close>)
qed

lemma polls_read_all:
  assumes "\<forall>c. Some c \<in> set fs \<longrightarrow> (\<exists>u. tx = c @ u)" and "utf8_ok tx"
  shows "fold poll_reads (fs @ [Some tx]) [] = tx"
proof -
  have "utf8_ok (fold poll_reads fs r) \<and> (\<exists>u. tx = fold poll_reads fs r @ u)"
    if "utf8_ok r" "\<exists>u. tx = r @ u" for r
    using assms(1) that
  proof (induction fs arbitrary: r)
    case (Cons f fs)
    have "utf8_ok (poll_reads f r)" "\<exists>u. tx = poll_reads f r @ u"
      using poll_reads_progress [of r f tx] Cons.prems by auto
    then show ?case using Cons by simp
  qed simp
  from this [of "[]"] obtain u where u: "utf8_ok (fold poll_reads fs [])" "tx = fold poll_reads fs [] @ u" by auto
  then have "utf8_ok u" using utf8_ok_rest assms(2) by metis
  then have "poll_reads (Some tx) (fold poll_reads fs []) = tx"
    using u(2) by (simp add: poll_reads_def Let_def)
  then show ?thesis by simp
qed

lemma tail_is_log:
  assumes "\<forall>c. Some c \<in> set fs \<longrightarrow> (\<exists>u. tx = c @ u)" and "utf8_ok tx"
    and "polls json (fs @ [Some tx]) (tailer_new step) = (t, ds)"
  shows "tail_summary t = whole_summary json (complete_lines tx)"
    and "concat (map td_copied_objects ds) = whole_copied json (complete_lines tx)"
    and "length (tl_warned t) + sum_list (map (repeated_in \<circ> td_collapsed_repeats) ds) = error_lines json (complete_lines tx)"
proof -
  have read: "fold poll_reads (fs @ [Some tx]) [] = tx" using assms(1,2) by (rule polls_read_all)
  note p = polls_props [OF assms(3) tailer_new_inv, unfolded read]
  have z: "complete_lines [] = []" by (simp add: complete_lines_def)
  show "tail_summary t = whole_summary json (complete_lines tx)"
    "concat (map td_copied_objects ds) = whole_copied json (complete_lines tx)"
    "length (tl_warned t) + sum_list (map (repeated_in \<circ> td_collapsed_repeats) ds) = error_lines json (complete_lines tx)"
    using p by (auto simp: tail_inv_def tail_summary_def z whole_copied_def error_lines_def tailer_new_def)
qed

section \<open>Properties\<close>

text \<open>C6. Live tailing of rclone's log loses and repeats nothing. However the growing file is observed
  (missing at first, cut in the middle of a line or of a character, any number of times), once it has
  been read to its end the totals are those of one pass over its complete lines, the objects reported as
  copied are exactly the copied ones in order, every error line was either logged or counted in exactly
  one collapsed summary, and the deltas of a counter that rclone never decreases add up to its final value.\<close>

theorem tailing_is_exact:
  assumes "\<forall>c. Some c \<in> set fs \<longrightarrow> (\<exists>u. tx = c @ u)" and "utf8_ok tx"
    and "polls json (fs @ [Some tx]) (tailer_new step) = (t, ds)"
  shows "tail_summary t = whole_summary json (complete_lines tx) \<and>
    concat (map td_copied_objects ds) = whole_copied json (complete_lines tx) \<and>
    length (tl_warned t) + sum_list (map (repeated_in \<circ> td_collapsed_repeats) ds) = error_lines json (complete_lines tx) \<and>
    (\<forall>(sel, fld, dl) \<in> stat_fields. sorted (map fld (stats_of json (complete_lines tx))) \<longrightarrow>
       sum_list (map dl ds) = sel (tail_summary t))"
proof -
  have read: "fold poll_reads (fs @ [Some tx]) [] = tx" using assms(1,2) by (rule polls_read_all)
  have "sum_list (map dl ds) = sel (tail_summary t)"
    if f: "(sel, fld, dl) \<in> stat_fields" and s: "sorted (map fld (stats_of json (complete_lines tx)))" for sel fld dl
  proof -
    have "sel (tl_cumulative (tailer_new step)) = 0"
      using f by (auto simp: stat_fields_def tailer_new_def empty_summary_def)
    then show ?thesis
      using polls_sum [OF assms(3) tailer_new_inv f, unfolded read, OF s] by (simp add: tail_summary_def)
  qed
  then show ?thesis using tail_is_log [OF assms] by auto
qed

text \<open>A toy reading of log lines for the witness: each line is its level, and an error carries it as cause.\<close>

definition toy_json :: "string \<Rightarrow> log_line option" where
  "toy_json l = Some \<lparr>ll_level = l, ll_msg = ''quota'', ll_object = None,
     ll_stats = Some \<lparr>rs_bytes = 0, rs_transfers = 2, rs_errors = length l, rs_deletes = 0\<rparr>\<rparr>"

theorem tailing_is_exact_witness:
  "let (t, ds) = polls toy_json [None, Some ''erro'', Some (''error'' @ [NL] @ ''error'' @ [NL] @ ''x'')] (tailer_new ''transfer'')
   in ls_errors (tail_summary t) = 5 \<and> sum_list (map td_errors ds) = 5 \<and>
      length (tl_warned t) + sum_list (map (repeated_in \<circ> td_collapsed_repeats) ds) = 2"
proof -
  let ?tx = "''error'' @ [NL] @ ''error'' @ [NL] @ ''x''"
  let ?fs = "[None, Some ''erro'']"
  obtain t ds where t: "polls toy_json (?fs @ [Some ?tx]) (tailer_new ''transfer'') = (t, ds)" by fastforce
  have cl: "complete_lines ?tx = [''error'', ''error'']" by (simp add: complete_lines_def)
  have tr: "trim ''error'' = ''error''" by (rule trim_id) (simp_all add: visible_def ws1_def)
  have ps: "parsed_lines toy_json [''error'', ''error''] = [the (toy_json ''error''), the (toy_json ''error'')]"
    by (simp add: parsed_lines_def tr toy_json_def)
  have 1: "\<forall>c. Some c \<in> set ?fs \<longrightarrow> (\<exists>u. ?tx = c @ u)" by auto
  have 2: "utf8_ok ?tx" by (rule utf8_ok_ascii) simp
  note p = tailing_is_exact [OF 1 2 t, unfolded cl]
  have s: "sorted (map rs_errors (stats_of toy_json [''error'', ''error'']))"
    unfolding stats_of_def ps by (simp add: toy_json_def)
  have f: "(ls_errors, rs_errors, td_errors) \<in> stat_fields" by (simp add: stat_fields_def)
  have e1: "ls_errors (tail_summary t) = 5"
    using conjunct1 [OF p] whole_summary_field [OF f, of toy_json "[''error'', ''error'']"]
    unfolding stats_of_def ps by (simp add: toy_json_def)
  moreover have "sum_list (map td_errors ds) = ls_errors (tail_summary t)" using p f s by fastforce
  moreover have "length (tl_warned t) + sum_list (map (repeated_in \<circ> td_collapsed_repeats) ds) = 2"
    using p unfolding error_lines_def ps by (simp add: toy_json_def eq_ignore_case_def)
  ultimately show ?thesis using t by simp
qed

end
