(* ===== verification/RcloneRun.thy ===== *)
theory RcloneRun
  imports RcloneLog Recovery RcloneConfig
begin

text \<open>
  Running rclone: \<open>core/rclone/command.rs\<close> (the four commands: their arguments and how they judge an
  outcome), \<open>core/rclone/mod.rs\<close> (the argument vector of every invocation, the live poll loop, the metrics,
  retries), \<open>job/rclone\<close> and the artifact upload of \<open>job/report_upload.rs\<close>. The process is a parameter:
  what it does with an argument vector is a \<open>process\<close>, with the log contents seen at each poll.
\<close>

section \<open>Commands\<close>

record labels =
  lb_job :: string
  lb_step :: string
  lb_success_outcome :: string
  lb_upload_metrics :: bool

text \<open>Whether a caller handed in the two channels.\<close>

record stream_hooks =
  sh_on_copied :: bool
  sh_pid_tx :: bool

definition no_hooks :: stream_hooks where "no_hooks = \<lparr>sh_on_copied = False, sh_pid_tx = False\<rparr>"

datatype observation = Streamed stream_hooks | OneShot

record run_outcome =
  oc_exit_code :: "int option"
  oc_success :: bool
  oc_stdout :: string
  oc_stderr :: string
  oc_log :: log_summary

datatype metric =
    PhaseCount string string string nat
  | UploadBytes string nat
  | UploadOutcomes string string nat

text \<open>The trait as a record of its methods; \<open>finish\<close> also names the counters it increments.\<close>

record 'o rclone_command =
  rc_subcommand :: string
  rc_args :: "string list"
  rc_log_path :: "string option"
  rc_observe :: observation
  rc_labels :: labels
  rc_finish :: "run_outcome \<Rightarrow> metric list \<times> (string + 'o)"
  rc_retry :: "(nat \<times> nat) option"
  rc_config_path :: "string option"

definition dec_int :: "int \<Rightarrow> string" where
  "dec_int i = (if i < 0 then CHR ''-'' # dec (nat (- i)) else dec (nat i))"

definition exit_text :: "int option \<Rightarrow> string" where
  "exit_text code = (case code of Some c \<Rightarrow> dec_int c | None \<Rightarrow> ''unknown (terminated by signal)'')"

definition stderr_text :: "string \<Rightarrow> string" where
  "stderr_text err = (if trim err = [] then [] else '' -- rclone stderr: '' @ trim err)"

record copy_cmd =
  cc_source :: string
  cc_destination :: string
  cc_log_path :: string
  cc_transfers :: nat
  cc_checkers :: nat
  cc_tpslimit :: "nat option"
  cc_files_from :: "string option"
  cc_job :: string
  cc_step :: string
  cc_upload_metrics :: bool
  cc_hooks :: stream_hooks

definition copy_args :: "copy_cmd \<Rightarrow> string list" where
  "copy_args c = [cc_source c, cc_destination c, ''--transfers'', dec (cc_transfers c), ''--checkers'', dec (cc_checkers c)] @
     (case cc_tpslimit c of Some n \<Rightarrow> [''--tpslimit'', dec n] | None \<Rightarrow> []) @
     (case cc_files_from c of Some f \<Rightarrow> [''--files-from-raw'', f] | None \<Rightarrow> []) @
     [''--fast-list'', ''--buffer-size'', ''32M'', ''--multi-thread-streams'', ''4'', ''--multi-thread-cutoff'', ''256M'']"

definition copy_finish :: "copy_cmd \<Rightarrow> run_outcome \<Rightarrow> metric list \<times> (string + log_summary)" where
  "copy_finish c oc = ([], if \<not> oc_success oc
     then Inl (''rclone copy exited with status '' @ exit_text (oc_exit_code oc) @ '' ('' @ dec (ls_transferred (oc_log oc)) @
       '' file(s) transferred, '' @ dec (ls_errors (oc_log oc)) @ '' error(s)); see '' @ cc_log_path c @ '' for details'' @
       stderr_text (oc_stderr oc))
     else Inr (oc_log oc))"

definition copy_command :: "copy_cmd \<Rightarrow> log_summary rclone_command" where
  "copy_command c = \<lparr>rc_subcommand = ''copy'', rc_args = copy_args c, rc_log_path = Some (cc_log_path c),
     rc_observe = Streamed (cc_hooks c),
     rc_labels = \<lparr>lb_job = cc_job c, lb_step = cc_step c, lb_success_outcome = ''transferred'', lb_upload_metrics = cc_upload_metrics c\<rparr>,
     rc_finish = copy_finish c, rc_retry = None, rc_config_path = None\<rparr>"

record purge_cmd =
  pg_source :: string
  pg_log_path :: string
  pg_checkers :: nat
  pg_job :: string
  pg_step :: string

definition purge_finish :: "purge_cmd \<Rightarrow> run_outcome \<Rightarrow> metric list \<times> (string + log_summary)" where
  "purge_finish c oc = ([], if \<not> oc_success oc
     then Inl (''rclone purge exited with status '' @ exit_text (oc_exit_code oc) @ '' ('' @ dec (ls_deletes (oc_log oc)) @
       '' object(s) deleted, '' @ dec (ls_errors (oc_log oc)) @ '' error(s)); see '' @ pg_log_path c @ '' for details'' @
       stderr_text (oc_stderr oc))
     else Inr (oc_log oc))"

definition purge_command :: "purge_cmd \<Rightarrow> log_summary rclone_command" where
  "purge_command c = \<lparr>rc_subcommand = ''purge'', rc_args = [pg_source c, ''--checkers'', dec (pg_checkers c), ''--fast-list''],
     rc_log_path = Some (pg_log_path c), rc_observe = Streamed no_hooks,
     rc_labels = \<lparr>lb_job = pg_job c, lb_step = pg_step c, lb_success_outcome = ''deleted'', lb_upload_metrics = False\<rparr>,
     rc_finish = purge_finish c, rc_retry = None, rc_config_path = None\<rparr>"

record lsjson_entry =
  le_name :: string
  le_path :: string
  le_size :: nat

record lsjson_cmd =
  lj_path :: string
  lj_recursive :: bool
  lj_include_extensions :: "string list"
  lj_missing_ok :: bool
  lj_config_path :: "string option"
  lj_job :: string

definition lsjson_args :: "lsjson_cmd \<Rightarrow> string list" where
  "lsjson_args c = [''--files-only'', ''--no-modtime'', ''--no-mimetype''] @
     (if lj_recursive c then [''--recursive''] else []) @
     (if lj_include_extensions c = [] then []
      else concat (map (\<lambda>extension. [''--include'', ''*.'' @ extension]) (lj_include_extensions c)) @ [''--ignore-case'']) @
     [lj_path c]"

text \<open>\<open>json\<close> is \<open>serde_json::from_slice\<close> at a list of entries.\<close>

definition lsjson_finish ::
  "(string \<Rightarrow> string + lsjson_entry list) \<Rightarrow> lsjson_cmd \<Rightarrow> run_outcome \<Rightarrow> metric list \<times> (string + lsjson_entry list)" where
  "lsjson_finish json c oc = ([], if \<not> oc_success oc
     then if lj_missing_ok c \<and> contains ''directory not found'' (to_lower (oc_stderr oc)) then Inr []
          else Inl (''rclone lsjson '' @ lj_path c @ '' exited with status '' @ exit_text (oc_exit_code oc) @ '': '' @ trim (oc_stderr oc))
     else (case json (oc_stdout oc) of
         Inl err \<Rightarrow> Inl (''failed to parse rclone lsjson output for '' @ lj_path c @ '': '' @ err)
       | Inr entries \<Rightarrow> Inr entries))"

definition lsjson_command :: "(string \<Rightarrow> string + lsjson_entry list) \<Rightarrow> lsjson_cmd \<Rightarrow> lsjson_entry list rclone_command" where
  "lsjson_command json c = \<lparr>rc_subcommand = ''lsjson'', rc_args = lsjson_args c, rc_log_path = None, rc_observe = OneShot,
     rc_labels = \<lparr>lb_job = lj_job c, lb_step = ''list'', lb_success_outcome = ''listed'', lb_upload_metrics = False\<rparr>,
     rc_finish = lsjson_finish json c, rc_retry = Some (3, 2), rc_config_path = lj_config_path c\<rparr>"

record copyto_cmd =
  ct_source :: string
  ct_destination :: string
  ct_log_path :: string
  ct_job :: string
  ct_step :: string
  ct_emit_upload_metrics :: bool
  ct_bytes :: nat

definition copyto_finish :: "copyto_cmd \<Rightarrow> run_outcome \<Rightarrow> metric list \<times> (string + unit)" where
  "copyto_finish c oc =
     (if ct_emit_upload_metrics c
      then (if oc_success oc then [UploadBytes (ct_job c) (ct_bytes c)] else []) @
           [UploadOutcomes (ct_job c) (if oc_success oc then ''uploaded'' else ''failed'') 1]
      else [],
      if \<not> oc_success oc
      then Inl (''rclone copyto '' @ ct_source c @ '' -> '' @ ct_destination c @ '' exited with status '' @
        exit_text (oc_exit_code oc) @ ''; see '' @ ct_log_path c @ '' for details'' @ stderr_text (oc_stderr oc))
      else Inr ())"

definition copyto_command :: "copyto_cmd \<Rightarrow> unit rclone_command" where
  "copyto_command c = \<lparr>rc_subcommand = ''copyto'', rc_args = [ct_source c, ct_destination c], rc_log_path = Some (ct_log_path c),
     rc_observe = OneShot,
     rc_labels = \<lparr>lb_job = ct_job c, lb_step = ct_step c, lb_success_outcome = ''transferred'', lb_upload_metrics = False\<rparr>,
     rc_finish = copyto_finish c, rc_retry = Some (4, 30), rc_config_path = None\<rparr>"

section \<open>One invocation\<close>

text \<open>A started process: its id, the log file at each poll while it runs, how waiting for it ends (the waiting
  task's own failure, the wait's, or the exit code), the log file at the end and its output. On Unix a
  status is a success when the code is zero; a process killed by a signal has no code.\<close>

record process =
  pr_pid :: "nat option"
  pr_polls :: "string option list"
  pr_wait :: "string + string + int option"
  pr_final_log :: "string option"
  pr_stdout :: string
  pr_stderr :: string

record rclone_env =
  re_mkdir :: "string \<Rightarrow> string + unit"
  re_config :: "string + string"
  re_spawn :: "string list \<Rightarrow> string + process"
  re_json :: "string \<Rightarrow> log_line option"

text \<open>What a run does besides its result, in the order it does it.\<close>

datatype effect =
    PidSent nat
  | RepeatsLogged collapsed_error
  | MetricEmitted metric
  | ObjectCopied string
  | ProgressShown nat nat nat

type_synonym effects = "effect list"

definition no_effects :: effects where "no_effects = []"

definition ef_copied :: "effects \<Rightarrow> string list" where
  "ef_copied ef = List.map_filter (\<lambda>e. case e of ObjectCopied key \<Rightarrow> Some key | _ \<Rightarrow> None) ef"

definition delta_metrics :: "labels \<Rightarrow> tail_delta \<Rightarrow> metric list" where
  "delta_metrics lb d =
     (if delta_is_empty d then []
      else (if td_transferred d > 0 then [PhaseCount (lb_job lb) (lb_step lb) (lb_success_outcome lb) (td_transferred d)] else []) @
        (if td_deletes d > 0 then [PhaseCount (lb_job lb) (lb_step lb) (lb_success_outcome lb) (td_deletes d)] else []) @
        (if td_errors d > 0 then [PhaseCount (lb_job lb) (lb_step lb) ''failed'' (td_errors d)] else []) @
        (if \<not> lb_upload_metrics lb then []
         else (if td_bytes d > 0 then [UploadBytes (lb_job lb) (td_bytes d)] else []) @
           (if td_transferred d > 0 then [UploadOutcomes (lb_job lb) ''uploaded'' (td_transferred d)] else []) @
           (if td_errors d > 0 then [UploadOutcomes (lb_job lb) ''failed'' (td_errors d)] else [])))"

definition note_delta :: "labels \<Rightarrow> stream_hooks \<Rightarrow> tail_delta \<Rightarrow> effects \<Rightarrow> effects" where
  "note_delta lb hooks d ef = ef @ map RepeatsLogged (td_collapsed_repeats d) @
     map MetricEmitted (delta_metrics lb d) @
     (if sh_on_copied hooks then map ObjectCopied (td_copied_objects d) else [])"

definition PROGRESS_EVERY_POLLS :: nat where "PROGRESS_EVERY_POLLS = 6"

text \<open>The poll loop: the polls since the last progress line and the totals it showed.\<close>

fun stream_loop ::
  "(string \<Rightarrow> log_line option) \<Rightarrow> labels \<Rightarrow> stream_hooks \<Rightarrow> string option list \<Rightarrow> nat \<Rightarrow> (nat \<times> nat \<times> nat) option \<Rightarrow>
   tailer \<times> effects \<Rightarrow> tailer \<times> effects" where
  "stream_loop json lb hooks [] polls_since last_progress s = s"
| "stream_loop json lb hooks (file # files) polls_since last_progress (t, ef) =
     (let (t', d) = poll json file t; ef' = note_delta lb hooks d ef; n = polls_since + 1 in
      if PROGRESS_EVERY_POLLS \<le> n then
        (let c = tail_summary t'; totals = (ls_transferred c, ls_errors c, ls_bytes c) in
         if last_progress \<noteq> Some totals
         then stream_loop json lb hooks files 0 (Some totals) (t', ef' @ [ProgressShown (ls_transferred c) (ls_errors c) (ls_bytes c)])
         else stream_loop json lb hooks files 0 last_progress (t', ef'))
      else stream_loop json lb hooks files n last_progress (t', ef'))"

text \<open>A streamed command without a log path panics.\<close>

definition execute_streamed :: "rclone_env \<Rightarrow> 'o rclone_command \<Rightarrow> string list \<Rightarrow> stream_hooks \<Rightarrow> effects \<times> 'o result" where
  "execute_streamed env cmd argv hooks = (let json = re_json env in case re_spawn env (rc_subcommand cmd # argv) of
     Inl err \<Rightarrow> (no_effects, Inl (Err (''failed to run rclone: '' @ err)))
   | Inr p \<Rightarrow>
       (let ef0 = (case pr_pid p of Some pid \<Rightarrow> if sh_pid_tx hooks then [PidSent pid] else [] | None \<Rightarrow> []) in
        case rc_log_path cmd of
          None \<Rightarrow> (ef0, Inl Panic)
        | Some _ \<Rightarrow>
            (let lb = rc_labels cmd;
                 (t, ef) = stream_loop json lb hooks (pr_polls p) 0 None (tailer_new (lb_step lb), ef0) in
             case pr_wait p of
               Inl err \<Rightarrow> (ef, Inl (Err (''rclone process join failed: '' @ err)))
             | Inr (Inl err) \<Rightarrow> (ef, Inl (Err (''failed to run rclone: '' @ err)))
             | Inr (Inr code) \<Rightarrow>
                 (let (t', d) = poll json (pr_final_log p) t; ef' = note_delta lb hooks d ef;
                      (ms, r) = rc_finish cmd \<lparr>oc_exit_code = code, oc_success = (code = Some 0), oc_stdout = [],
                        oc_stderr = pr_stderr p, oc_log = tail_summary t'\<rparr> in
                  (ef' @ map MetricEmitted ms, map_sum Err id r)))))"

definition execute_one_shot :: "rclone_env \<Rightarrow> 'o rclone_command \<Rightarrow> string list \<Rightarrow> effects \<times> 'o result" where
  "execute_one_shot env cmd argv = (case re_spawn env (rc_subcommand cmd # argv) of
     Inl err \<Rightarrow> (no_effects, Inl (Err (''failed to run rclone: '' @ err)))
   | Inr p \<Rightarrow> (case pr_wait p of
       Inl err \<Rightarrow> (no_effects, Inl (Err (''failed to run rclone: '' @ err)))
     | Inr (Inl err) \<Rightarrow> (no_effects, Inl (Err (''failed to run rclone: '' @ err)))
     | Inr (Inr code) \<Rightarrow>
         (let lb = rc_labels cmd;
              (ms, r) = rc_finish cmd \<lparr>oc_exit_code = code, oc_success = (code = Some 0), oc_stdout = pr_stdout p,
                oc_stderr = pr_stderr p, oc_log = empty_summary\<rparr> in
          (map MetricEmitted (PhaseCount (lb_job lb) (lb_step lb)
             (if code = Some 0 then lb_success_outcome lb else ''failed'') 1 # ms), map_sum Err id r))))"

definition baseline_args :: "'o rclone_command \<Rightarrow> string list" where
  "baseline_args cmd = [''--retries'', ''5'', ''--low-level-retries'', ''20''] @
     (case rc_log_path cmd of None \<Rightarrow> []
      | Some log_path \<Rightarrow> (case rc_observe cmd of Streamed _ \<Rightarrow> [''--stats'', ''30s''] | OneShot \<Rightarrow> []) @
          [''--use-json-log'', ''--log-level'', ''INFO'', ''--log-file'', log_path])"

definition chosen_config :: "rclone_env \<Rightarrow> 'o rclone_command \<Rightarrow> string + string" where
  "chosen_config env cmd = (case rc_config_path cmd of Some p \<Rightarrow> Inr p | None \<Rightarrow> re_config env)"

lemma chosen_config_spawn [simp]: "chosen_config (env\<lparr>re_spawn := other\<rparr>) cmd = chosen_config env cmd"
  by (simp add: chosen_config_def split: option.split)

definition log_dir_made :: "rclone_env \<Rightarrow> 'o rclone_command \<Rightarrow> string + unit" where
  "log_dir_made env cmd = (case Option.bind (rc_log_path cmd) path_parent of
     Some dir \<Rightarrow> map_sum (\<lambda>err. ''failed to create '' @ dir @ '': '' @ err) id (re_mkdir env dir)
   | None \<Rightarrow> Inr ())"

lemma log_dir_made_spawn [simp]: "log_dir_made (env\<lparr>re_spawn := other\<rparr>) cmd = log_dir_made env cmd"
  by (simp add: log_dir_made_def split: option.split)

definition execute :: "rclone_env \<Rightarrow> 'o rclone_command \<Rightarrow> effects \<times> 'o result" where
  "execute env cmd = (case log_dir_made env cmd of
        Inl err \<Rightarrow> (no_effects, Inl (Err err))
      | Inr _ \<Rightarrow> (case chosen_config env cmd of
          Inl err \<Rightarrow> (no_effects, Inl (Err err))
        | Inr config \<Rightarrow>
            (let argv = rc_args cmd @ baseline_args cmd @ [''--config'', config] in
             case rc_observe cmd of
               Streamed hooks \<Rightarrow> execute_streamed env cmd argv hooks
             | OneShot \<Rightarrow> execute_one_shot env cmd argv)))"

text \<open>With retries, attempt \<open>n\<close> happens in the environment \<open>env n\<close>; a panic is not retried. The results are the
  sleeps, the effects of each attempt made and the outcome.\<close>

definition run_command :: "(nat \<Rightarrow> rclone_env) \<Rightarrow> 'o rclone_command \<Rightarrow> nat list \<times> effects list \<times> 'o result" where
  "run_command env cmd = (case rc_retry cmd of
     None \<Rightarrow> (let (ef, r) = execute (env 0) cmd in ([], [ef], r))
   | Some (attempts, backoff) \<Rightarrow>
       (let (slept, r) = retry_with_backoff attempts backoff (\<lambda>n. case snd (execute (env n) cmd) of
              Inl (Err e) \<Rightarrow> Inl e | Inl Panic \<Rightarrow> Inr (Inl Panic) | Inr v \<Rightarrow> Inr (Inr v)) in
        (slept, map (\<lambda>n. fst (execute (env n) cmd)) [0..<Suc (length slept)],
         case r of Inl e \<Rightarrow> Inl (Err e) | Inr r' \<Rightarrow> r')))"

section \<open>Artifacts of a run\<close>

definition run_prefix :: "nat \<Rightarrow> nat \<Rightarrow> nat \<Rightarrow> string \<Rightarrow> string \<Rightarrow> string" where
  "run_prefix year month day job_name run_id =
     pad_left 4 (dec year) @ ''-'' @ pad_left 2 (dec month) @ ''-'' @ pad_left 2 (dec day) @ ''-'' @ job_name @ ''-'' @ run_id"

text \<open>A source is its lines, \<open>None\<close> when it cannot be opened; a line that cannot be read ends its source.\<close>

definition extract_matching_lines :: "string option list option list \<Rightarrow> string \<Rightarrow> string list" where
  "extract_matching_lines sources run_id =
     (let needle = CHR 0x22 # ''run_id'' @ [CHR 0x22] @ '':'' @ [CHR 0x22] @ run_id @ [CHR 0x22] in
      concat (map (\<lambda>src. case src of None \<Rightarrow> []
        | Some ls \<Rightarrow> filter (contains needle) (map the (takeWhile (\<lambda>l. l \<noteq> None) ls))) sources))"

definition write_run_log_extract ::
  "string + string option list option list \<Rightarrow> string + unit \<Rightarrow> string + unit \<Rightarrow> string \<Rightarrow> string \<Rightarrow> string + (string \<times> string) option" where
  "write_run_log_extract sources created written run_id log_dir = (case sources of
     Inl err \<Rightarrow> Inl err
   | Inr srcs \<Rightarrow>
       (let kept = extract_matching_lines srcs run_id; extract_path = path_join log_dir (''run-log-'' @ run_id @ ''.jsonl'') in
        if kept = [] then Inr None
        else case created of
            Inl err \<Rightarrow> Inl (''failed to create '' @ extract_path @ '': '' @ err)
          | Inr _ \<Rightarrow> (case written of
              Inl err \<Rightarrow> Inl (''failed to write '' @ extract_path @ '': '' @ err)
            | Inr _ \<Rightarrow> Inr (Some (extract_path, write_rows id kept)))))"

definition upload_one_command :: "string \<Rightarrow> string \<Rightarrow> string \<Rightarrow> string \<Rightarrow> unit rclone_command" where
  "upload_one_command destination key path log_dir =
     copyto_command \<lparr>ct_source = path, ct_destination = destination @ key,
       ct_log_path = path_join log_dir (''artifact-'' @ map (\<lambda>c. if c = CHR ''/'' then CHR ''-'' else c) key @ ''.jsonl''),
       ct_job = ''report-upload'', ct_step = ''artifact'', ct_emit_upload_metrics = False, ct_bytes = 0\<rparr>"

text \<open>The uploads attempted, in order; how each ends is only logged. The extract is removed afterwards.\<close>

definition upload_run_artifacts ::
  "string \<Rightarrow> string \<Rightarrow> string \<Rightarrow> string \<Rightarrow> (string \<Rightarrow> string + (string \<times> string) option) \<Rightarrow> unit rclone_command list" where
  "upload_run_artifacts bucket prefix report_path transcript_path extract =
     (let destination = address (bucket_root bucket);
          log_dir = (case path_parent report_path of Some d \<Rightarrow> d | None \<Rightarrow> ''.'') in
      map (\<lambda>(name, path). upload_one_command destination (prefix @ ''/'' @ name) path log_dir)
        [(''report.txt'', report_path), (''transcript.txt'', transcript_path)] @
      (case extract log_dir of
         Inr (Some (extract_path, _)) \<Rightarrow> [upload_one_command destination (prefix @ ''/pigeon.jsonl'') extract_path log_dir]
       | _ \<Rightarrow> []))"

section \<open>Copy and delete jobs\<close>

record rclone_copy_summary =
  cs_transferred :: nat
  cs_errors :: nat
  cs_bytes :: nat
  cs_log_path :: string

definition run_copy_job ::
  "(nat \<Rightarrow> rclone_env) \<Rightarrow> string \<Rightarrow> string \<Rightarrow> string \<Rightarrow> nat \<Rightarrow> nat \<Rightarrow> nat option \<Rightarrow> effects list \<times> rclone_copy_summary result" where
  "run_copy_job env source destination log_path transfers checkers tpslimit =
     (let (_, efs, r) = run_command env (copy_command \<lparr>cc_source = source, cc_destination = destination,
            cc_log_path = log_path, cc_transfers = transfers, cc_checkers = checkers, cc_tpslimit = tpslimit,
            cc_files_from = None, cc_job = ''rclone-copy'', cc_step = ''transfer'', cc_upload_metrics = True,
            cc_hooks = no_hooks\<rparr>) in
      (efs, bindE r (\<lambda>s. Inr \<lparr>cs_transferred = ls_transferred s, cs_errors = ls_errors s, cs_bytes = ls_bytes s,
        cs_log_path = log_path\<rparr>)))"

record rclone_delete_summary =
  ds_deleted :: nat
  ds_errors :: nat
  ds_log_path :: string

definition run_delete_job :: "(nat \<Rightarrow> rclone_env) \<Rightarrow> string \<Rightarrow> string \<Rightarrow> nat \<Rightarrow> effects list \<times> rclone_delete_summary result" where
  "run_delete_job env source log_path checkers =
     (let (_, efs, r) = run_command env (purge_command \<lparr>pg_source = source, pg_log_path = log_path, pg_checkers = checkers,
            pg_job = ''rclone-delete'', pg_step = ''delete''\<rparr>) in
      (efs, bindE r (\<lambda>s. Inr \<lparr>ds_deleted = ls_deletes s, ds_errors = ls_errors s, ds_log_path = log_path\<rparr>)))"

section \<open>The contract of a command\<close>

text \<open>What the runner relies on: a streamed command names its log, and only one-shot commands ask for retries
  (a streamed one has already counted what it transferred).\<close>

locale rclone_implementor =
  fixes cmd :: "'o rclone_command"
  assumes streamed_logs: "rc_observe cmd \<noteq> OneShot \<Longrightarrow> rc_log_path cmd \<noteq> None"
    and retried_once_shot: "rc_retry cmd \<noteq> None \<Longrightarrow> rc_observe cmd = OneShot"
begin

lemma execute_no_panic: "snd (execute env cmd) \<noteq> Inl Panic"
proof -
  have m: "map_sum Err id r \<noteq> Inl Panic" for r :: "string + 'o" by (cases r) auto
  have os: "snd (execute_one_shot env cmd argv) \<noteq> Inl Panic" for argv
    using m by (auto simp: execute_one_shot_def Let_def split: sum.split prod.split)
  have st: "rc_observe cmd = Streamed h \<Longrightarrow> snd (execute_streamed env cmd argv h) \<noteq> Inl Panic" for argv h
    using m streamed_logs by (auto simp: execute_streamed_def Let_def split: sum.split prod.split option.split)
  show ?thesis
    using os st by (auto simp: execute_def Let_def split: sum.split observation.split)
qed

lemma run_no_panic: "snd (snd (run_command env cmd)) \<noteq> Inl Panic"
proof (cases "rc_retry cmd")
  case None
  then show ?thesis using execute_no_panic [of "env 0"] by (simp add: run_command_def case_prod_unfold Let_def)
next
  case (Some ab)
  let ?f = "\<lambda>n. case snd (execute (env n) cmd) of Inl (Err e) \<Rightarrow> Inl e | Inl Panic \<Rightarrow> Inr (Inl Panic) | Inr v \<Rightarrow> Inr (Inr v)"
  have f: "?f n \<noteq> Inr (Inl Panic)" for n
    using execute_no_panic [of "env n"] by (auto split: sum.split fault.split)
  have "snd (retry_from ?f b a n le) \<noteq> Inr (Inl Panic)" for a b n le
  proof (induction n arbitrary: a le)
    case (Suc n)
    show ?case using Suc.IH f [of a] by (auto simp: Let_def case_prod_unfold split: sum.splits)
  qed simp
  then have "snd (retry_with_backoff (fst ab) (snd ab) ?f) \<noteq> Inr (Inl Panic)" by (simp add: retry_with_backoff_def)
  then show ?thesis using Some
    by (auto simp: run_command_def case_prod_unfold Let_def split: sum.splits)
qed

end

interpretation copy: rclone_implementor "copy_command c" for c
  by unfold_locales (simp_all add: copy_command_def)

interpretation purge: rclone_implementor "purge_command c" for c
  by unfold_locales (simp_all add: purge_command_def)

interpretation lsjson: rclone_implementor "lsjson_command json c" for json c
  by unfold_locales (simp_all add: lsjson_command_def)

interpretation copyto: rclone_implementor "copyto_command c" for c
  by unfold_locales (simp_all add: copyto_command_def)

section \<open>Properties\<close>

text \<open>C20. Every process runs in the sandbox. Whatever command is executed, the only processes it can start are
  \<open>rclone\<close> with an argument vector that begins with its own subcommand and arguments and ends with
  \<open>--config\<close> and the one configuration file chosen for it: an environment that answers every other vector
  differently cannot be told apart. When no configuration can be named nothing is started at all, and the run
  fails with that error unless it failed before on a directory for its log that could not be created. None of the four commands can panic, retries included.\<close>

theorem every_invocation_sandboxed:
  fixes env :: rclone_env and cmd :: "'o rclone_command"
  shows "((\<forall>mid p. chosen_config env cmd = Inr p \<longrightarrow> other ((rc_subcommand cmd # rc_args cmd @ mid) @ [''--config'', p]) =
        re_spawn env ((rc_subcommand cmd # rc_args cmd @ mid) @ [''--config'', p])) \<longrightarrow>
      execute (env\<lparr>re_spawn := other\<rparr>) cmd = execute env cmd) \<and>
    (chosen_config env cmd = Inl err \<and> (\<forall>dir. re_mkdir env dir = Inr ()) \<longrightarrow>
      execute env cmd = (no_effects, Inl (Err err))) \<and>
    snd (snd (run_command envs (copy_command cc))) \<noteq> Inl Panic \<and>
    snd (snd (run_command envs (purge_command pg))) \<noteq> Inl Panic \<and>
    snd (snd (run_command envs (lsjson_command json lj))) \<noteq> Inl Panic \<and>
    snd (snd (run_command envs (copyto_command ct))) \<noteq> Inl Panic"
proof (intro conjI impI)
  { assume a: "\<forall>mid p. chosen_config env cmd = Inr p \<longrightarrow> other ((rc_subcommand cmd # rc_args cmd @ mid) @ [''--config'', p]) =
        re_spawn env ((rc_subcommand cmd # rc_args cmd @ mid) @ [''--config'', p])"
    show "execute (env\<lparr>re_spawn := other\<rparr>) cmd = execute env cmd"
    proof (cases "chosen_config env cmd")
      case (Inl e)
      then show ?thesis by (simp add: execute_def split: sum.split)
    next
      case (Inr p)
      let ?argv = "rc_args cmd @ baseline_args cmd @ [''--config'', p]"
      have same: "other (rc_subcommand cmd # ?argv) = re_spawn env (rc_subcommand cmd # ?argv)"
        using a [rule_format, OF Inr, of "baseline_args cmd"] by simp
      then have os: "execute_one_shot (env\<lparr>re_spawn := other\<rparr>) cmd ?argv = execute_one_shot env cmd ?argv"
        and st: "\<And>h. execute_streamed (env\<lparr>re_spawn := other\<rparr>) cmd ?argv h = execute_streamed env cmd ?argv h"
        by (simp_all add: execute_one_shot_def execute_streamed_def)
      show ?thesis using Inr os st by (simp add: execute_def Let_def split: sum.split observation.split)
    qed }
  { assume "chosen_config env cmd = Inl err \<and> (\<forall>dir. re_mkdir env dir = Inr ())"
    then show "execute env cmd = (no_effects, Inl (Err err))"
      by (simp add: execute_def log_dir_made_def split: option.split) }
qed (rule copy.run_no_panic purge.run_no_panic lsjson.run_no_panic copyto.run_no_panic)+

definition quiet_process :: process where
  "quiet_process = \<lparr>pr_pid = Some 7, pr_polls = [], pr_wait = Inr (Inr (Some 0)), pr_final_log = None, pr_stdout = [], pr_stderr = []\<rparr>"

definition quiet_env :: rclone_env where
  "quiet_env = \<lparr>re_mkdir = (\<lambda>_. Inr ()), re_config = Inl ''no config directory'', re_spawn = (\<lambda>_. Inr quiet_process), re_json = (\<lambda>_. None)\<rparr>"

theorem every_invocation_sandboxed_witness:
  "execute quiet_env (purge_command \<lparr>pg_source = ''b:'', pg_log_path = ''/l/x.jsonl'', pg_checkers = 8, pg_job = ''j'', pg_step = ''delete''\<rparr>) =
     (no_effects, Inl (Err ''no config directory''))"
  by (rule every_invocation_sandboxed [THEN conjunct2, THEN conjunct1, THEN mp])
    (simp add: quiet_env_def chosen_config_def purge_command_def)

section \<open>Streamed runs\<close>

lemma ef_copied_simps [simp]:
  "ef_copied [] = []" "ef_copied (a @ b) = ef_copied a @ ef_copied b" "ef_copied (ProgressShown x y z # es) = ef_copied es"
  "ef_copied (PidSent n # es) = ef_copied es" "ef_copied (map MetricEmitted ms) = []" "ef_copied (map RepeatsLogged rs) = []"
  "ef_copied (map ObjectCopied ks) = ks"
  by (simp_all add: ef_copied_def map_filter_append List.map_filter_simps) (simp_all add: List.map_filter_def comp_def)

lemma note_delta_effects:
  "ef_copied (note_delta lb hooks d ef) = ef_copied ef @ (if sh_on_copied hooks then td_copied_objects d else [])"
  "\<exists>more. note_delta lb hooks d ef = ef @ more \<and> (\<forall>n. PidSent n \<notin> set more)"
  by (auto simp: note_delta_def)

lemma stream_loop_polls:
  "polls json files t = (t', ds) \<Longrightarrow>
     fst (stream_loop json lb hooks files n shown (t, ef)) = t' \<and>
     ef_copied (snd (stream_loop json lb hooks files n shown (t, ef))) =
       ef_copied ef @ (if sh_on_copied hooks then concat (map td_copied_objects ds) else []) \<and>
     (\<exists>more. snd (stream_loop json lb hooks files n shown (t, ef)) = ef @ more \<and> (\<forall>n. PidSent n \<notin> set more))"
proof (induction files arbitrary: t t' ds n shown ef)
  case (Cons f fs)
  obtain t1 d where p: "poll json f t = (t1, d)" by fastforce
  obtain t2 ds' where q: "polls json fs t1 = (t2, ds')" by fastforce
  have eq: "t' = t2" "ds = d # ds'" using Cons.prems p q by auto
  obtain more where m: "note_delta lb hooks d ef = ef @ more" "\<forall>n. PidSent n \<notin> set more"
    using note_delta_effects(2) by blast
  have ex: "\<exists>m. snd (stream_loop json lb hooks fs k sh (t1, note_delta lb hooks d ef @ x)) = ef @ m \<and> (\<forall>n. PidSent n \<notin> set m)"
    if "\<forall>n. PidSent n \<notin> set x" for k sh x
  proof -
    obtain m' where "snd (stream_loop json lb hooks fs k sh (t1, note_delta lb hooks d ef @ x)) = (note_delta lb hooks d ef @ x) @ m'"
      "\<forall>n. PidSent n \<notin> set m'" using Cons.IH [OF q] by blast
    then show ?thesis using m that by (intro exI [of _ "more @ x @ m'"]) auto
  qed
  show ?case
    using Cons.IH [OF q] p eq ex [of "[]"] ex [of "[ProgressShown x y z]" for x y z]
    by (simp add: note_delta_effects(1) Let_def)
qed simp

lemma polls_snoc:
  "polls json (fs @ [f]) t = (let (t1, ds) = polls json fs t; (t2, d) = poll json f t1 in (t2, ds @ [d]))"
  by (induction fs arbitrary: t) (simp_all add: case_prod_unfold Let_def)

text \<open>C21. A streamed copy reports exactly what rclone's log says. Let the log only grow while the process runs,
  be whole at the end and valid UTF-8, whatever the moments at which it is polled. Then the objects handed
  to the live listener are the objects the complete lines of the log report as copied, each once and in
  order; the run succeeds exactly if the process exits with code zero; and its summary then is the summary
  of the whole log. The process id, when there is one, is handed on once and before every other effect.\<close>

theorem streamed_copy_exact:
  assumes "\<forall>c. Some c \<in> set (pr_polls p) \<longrightarrow> (\<exists>u. tx = c @ u)" and "utf8_ok tx" and "pr_final_log p = Some tx"
    and "\<And>argv. re_spawn env argv = Inr p" and "\<And>dir. re_mkdir env dir = Inr ()" and "re_config env = Inr config"
    and "pr_wait p = Inr (Inr code)" and "cc_hooks c = \<lparr>sh_on_copied = True, sh_pid_tx = True\<rparr>"
    and "execute env (copy_command c) = (ef, r)"
  shows "ef_copied ef = whole_copied (re_json env) (complete_lines tx) \<and>
    (\<exists>rest. ef = (case pr_pid p of Some pid \<Rightarrow> [PidSent pid] | None \<Rightarrow> []) @ rest \<and> (\<forall>n. PidSent n \<notin> set rest)) \<and>
    (if code = Some 0 then r = Inr (whole_summary (re_json env) (complete_lines tx)) else \<exists>msg. r = Inl (Err msg))"
proof (intro conjI)
  let ?json = "re_json env" and ?lb = "rc_labels (copy_command c)" and ?hooks = "\<lparr>sh_on_copied = True, sh_pid_tx = True\<rparr>"
  let ?ef0 = "case pr_pid p of Some pid \<Rightarrow> [PidSent pid] | None \<Rightarrow> []"
  obtain t1 ds where p1: "polls ?json (pr_polls p) (tailer_new (cc_step c)) = (t1, ds)" by fastforce
  obtain t2 d where p2: "poll ?json (Some tx) t1 = (t2, d)" by fastforce
  have all: "polls ?json (pr_polls p @ [Some tx]) (tailer_new (cc_step c)) = (t2, ds @ [d])"
    using p1 p2 by (simp add: polls_snoc)
  have ok: "tail_summary t2 = whole_summary ?json (complete_lines tx)"
    "concat (map td_copied_objects (ds @ [d])) = whole_copied ?json (complete_lines tx)"
    using tail_is_log [OF assms(1,2) all] by simp_all
  note sl = stream_loop_polls [OF p1, where lb = ?lb and hooks = ?hooks and n = 0 and shown = None and ef = ?ef0]
  obtain te where te: "stream_loop ?json ?lb ?hooks (pr_polls p) 0 None (tailer_new (cc_step c), ?ef0) = (t1, te)"
    using sl by (metis prod.collapse)
  obtain more where more: "te = ?ef0 @ more" "\<forall>n. PidSent n \<notin> set more" using sl te by auto
  obtain rest where rest: "note_delta ?lb ?hooks d te = te @ rest" "\<forall>n. PidSent n \<notin> set rest"
    using note_delta_effects(2) by blast
  have run: "execute env (copy_command c) =
      (let (ms, r) = copy_finish c \<lparr>oc_exit_code = code, oc_success = (code = Some 0), oc_stdout = [],
             oc_stderr = pr_stderr p, oc_log = tail_summary t2\<rparr> in
       (note_delta ?lb ?hooks d te @ map MetricEmitted ms, map_sum Err id r))"
    using assms(3-8) te p2
    by (cases "path_parent (cc_log_path c)"; cases "pr_pid p")
      (simp_all add: execute_def execute_streamed_def log_dir_made_def chosen_config_def copy_command_def Let_def)
  obtain ms where ef: "ef = note_delta ?lb ?hooks d te @ map MetricEmitted ms"
    using run assms(9) by (auto simp: case_prod_unfold Let_def)
  have "ef_copied ?ef0 = []" by (simp split: option.split)
  then show "ef_copied ef = whole_copied ?json (complete_lines tx)"
    using ef sl te ok(2) by (simp add: note_delta_effects(1))
  show "\<exists>rest. ef = ?ef0 @ rest \<and> (\<forall>n. PidSent n \<notin> set rest)"
    using ef more rest by (intro exI [of _ "more @ rest @ map MetricEmitted ms"]) auto
  show "if code = Some 0 then r = Inr (whole_summary ?json (complete_lines tx)) else \<exists>msg. r = Inl (Err msg)"
    using run assms(9) ok(1) by (auto simp: copy_finish_def Let_def)
qed

definition copied_json :: "string \<Rightarrow> log_line option" where
  "copied_json l = Some \<lparr>ll_level = ''info'', ll_msg = ''Copied (new)'', ll_object = Some l, ll_stats = None\<rparr>"

definition two_copied :: process where
  "two_copied = \<lparr>pr_pid = Some 7, pr_polls = [None, Some ''a'', Some (''a'' @ [NL] @ ''b'')], pr_wait = Inr (Inr (Some 0)),
     pr_final_log = Some (''a'' @ [NL] @ ''b'' @ [NL]), pr_stdout = [], pr_stderr = []\<rparr>"

definition two_copied_env :: rclone_env where
  "two_copied_env = \<lparr>re_mkdir = (\<lambda>_. Inr ()), re_config = Inr ''/c/rclone.conf'', re_spawn = (\<lambda>_. Inr two_copied), re_json = copied_json\<rparr>"

definition pull_cmd :: copy_cmd where
  "pull_cmd = \<lparr>cc_source = ''s:'', cc_destination = ''/d'', cc_log_path = ''/l/pull.jsonl'', cc_transfers = 4, cc_checkers = 8,
     cc_tpslimit = None, cc_files_from = None, cc_job = ''transform'', cc_step = ''pull'', cc_upload_metrics = False,
     cc_hooks = \<lparr>sh_on_copied = True, sh_pid_tx = True\<rparr>\<rparr>"

theorem streamed_copy_exact_witness:
  "ef_copied (fst (execute two_copied_env (copy_command pull_cmd))) = [''a'', ''b'']"
proof -
  let ?tx = "''a'' @ [NL] @ ''b'' @ [NL]"
  have pre: "\<forall>c. Some c \<in> set (pr_polls two_copied) \<longrightarrow> (\<exists>u. ?tx = c @ u)" by (auto simp: two_copied_def)
  have u: "utf8_ok ?tx" by (rule utf8_ok_ascii) simp
  have "ef_copied (fst (execute two_copied_env (copy_command pull_cmd))) = whole_copied (re_json two_copied_env) (complete_lines ?tx)"
    by (rule streamed_copy_exact [OF pre u, where code = "Some 0" and config = "''/c/rclone.conf''" and c = pull_cmd and env = two_copied_env
          and r = "snd (execute two_copied_env (copy_command pull_cmd))", THEN conjunct1])
      (simp_all add: two_copied_env_def two_copied_def pull_cmd_def)
  also have "\<dots> = [''a'', ''b'']" by code_simp
  finally show ?thesis .
qed

end
