(* ===== verification/TransformFile.thy ===== *)
theory TransformFile
  imports TransformSelect EmailShape RcloneRun Scratch
begin

text \<open>
  One file of the transform job: \<open>process_one\<close>, \<open>convert_one\<close> and \<open>convert_spreadsheet\<close> of
  \<open>transform/worker.rs\<close>, \<open>push_one\<close> of \<open>transform/push.rs\<close>. The converters, the pushes and the file system are
  parameters: how each call ends. \<open>file_world\<close> is what a file's task can see and change: its local copy, the
  \<open>result/\<close> directory, the destination and the push logs.
\<close>

section \<open>Outcomes\<close>

datatype transform_outcome = Transcoded | CopiedThrough | FailedOutcome | SkippedEmailShaped

fun outcome_name :: "transform_outcome \<Rightarrow> string" where
  "outcome_name Transcoded = ''transcoded''"
| "outcome_name CopiedThrough = ''copied_through''"
| "outcome_name FailedOutcome = ''failed''"
| "outcome_name SkippedEmailShaped = ''skipped_email_shaped''"

datatype failure_stage = PullStage | TranscodeStage | PlaceStage | PushStage

fun stage_name :: "failure_stage \<Rightarrow> string" where
  "stage_name PullStage = ''pull''"
| "stage_name TranscodeStage = ''transcode''"
| "stage_name PlaceStage = ''place''"
| "stage_name PushStage = ''push''"

datatype processed = Pushed "string list" | SkippedEmail email_signals

type_synonym process_result = "failure_stage \<times> string + processed"

definition outcome_for :: "input_file_type \<Rightarrow> transform_outcome" where
  "outcome_for k = (if k \<in> {JpegKind, CsvKind, PdfKind, TxtKind, SvgKind} then CopiedThrough else Transcoded)"

section \<open>Retrying a conversion\<close>

definition TRANSCODE_RETRIES :: nat where "TRANSCODE_RETRIES = 2"
definition TRANSCODE_RETRY_BACKOFF :: nat where "TRANSCODE_RETRY_BACKOFF = 1"

fun retry_transcode_from ::
  "(nat \<Rightarrow> string + 'a) \<Rightarrow> nat \<Rightarrow> nat \<Rightarrow> nat \<Rightarrow> string option \<Rightarrow> nat list \<times> (string + 'a)" where
  "retry_transcode_from f backoff attempt 0 last_err = ([], Inl (case last_err of
       Some err \<Rightarrow> err | None \<Rightarrow> ''retry_transcode_unless_fatal called with zero attempts''))"
| "retry_transcode_from f backoff attempt (Suc left) last_err =
     (let slept = (if attempt > 0 then [backoff * attempt] else []) in
      case f attempt of
        Inr v \<Rightarrow> (slept, Inr v)
      | Inl err \<Rightarrow>
          if is_non_retryable_transcode_error err then (slept, Inl err)
          else (let (more, r) = retry_transcode_from f backoff (attempt + 1) left (Some err) in (slept @ more, r)))"

definition retry_transcode_unless_fatal :: "nat \<Rightarrow> nat \<Rightarrow> (nat \<Rightarrow> string + 'a) \<Rightarrow> nat list \<times> (string + 'a)" where
  "retry_transcode_unless_fatal attempts backoff f = retry_transcode_from f backoff 0 (max attempts 1) None"

section \<open>Conversion\<close>

datatype tool =
    CopyThrough | ToJpg | ToJpgFlattened | ToPng | ProcreateExport | ToSvg | EpsToSvg | IcsToText | VcfToText
  | ToVideo video_quality nat | ToAudio audio_quality | ToPdf input_file_type | EpubToPdf
  | MarkupToText input_file_type | ClippingToText | TsvToCsv

text \<open>The arms of \<open>convert_one\<close>; the spreadsheet kinds never reach it.\<close>

fun tool_for :: "video_quality \<Rightarrow> nat \<Rightarrow> audio_quality \<Rightarrow> input_file_type \<Rightarrow> tool option" where
  "tool_for vq threads aq JpegKind = Some CopyThrough"
| "tool_for vq threads aq PdfKind = Some CopyThrough"
| "tool_for vq threads aq TxtKind = Some CopyThrough"
| "tool_for vq threads aq SvgKind = Some CopyThrough"
| "tool_for vq threads aq AvifKind = Some ToJpgFlattened"
| "tool_for vq threads aq TifKind = Some ToJpgFlattened"
| "tool_for vq threads aq TiffKind = Some ToJpgFlattened"
| "tool_for vq threads aq WebpKind = Some ToJpgFlattened"
| "tool_for vq threads aq BmpKind = Some ToJpgFlattened"
| "tool_for vq threads aq IcoKind = Some ToPng"
| "tool_for vq threads aq IcnsKind = Some ToPng"
| "tool_for vq threads aq ProcreateKind = Some ProcreateExport"
| "tool_for vq threads aq Procreate2Kind = Some ProcreateExport"
| "tool_for vq threads aq AiKind = Some ToSvg"
| "tool_for vq threads aq EmzKind = Some ToSvg"
| "tool_for vq threads aq EpsKind = Some EpsToSvg"
| "tool_for vq threads aq IcsKind = Some IcsToText"
| "tool_for vq threads aq VcfKind = Some VcfToText"
| "tool_for vq threads aq PngKind = Some ToJpg"
| "tool_for vq threads aq HeicKind = Some ToJpg"
| "tool_for vq threads aq MovKind = Some (ToVideo vq threads)"
| "tool_for vq threads aq M4vKind = Some (ToVideo vq threads)"
| "tool_for vq threads aq Mp4Kind = Some (ToVideo vq threads)"
| "tool_for vq threads aq Mp4AudioKind = Some (ToAudio aq)"
| "tool_for vq threads aq M4aKind = Some (ToAudio aq)"
| "tool_for vq threads aq Mp3Kind = Some (ToAudio aq)"
| "tool_for vq threads aq AacKind = Some (ToAudio aq)"
| "tool_for vq threads aq WavKind = Some (ToAudio aq)"
| "tool_for vq threads aq OpusKind = Some (ToAudio aq)"
| "tool_for vq threads aq DocKind = Some (ToPdf DocKind)"
| "tool_for vq threads aq DocxKind = Some (ToPdf DocxKind)"
| "tool_for vq threads aq PagesKind = Some (ToPdf PagesKind)"
| "tool_for vq threads aq RtfKind = Some (ToPdf RtfKind)"
| "tool_for vq threads aq PptxKind = Some (ToPdf PptxKind)"
| "tool_for vq threads aq KeyKind = Some (ToPdf KeyKind)"
| "tool_for vq threads aq EpubKind = Some EpubToPdf"
| "tool_for vq threads aq MdKind = Some (MarkupToText MdKind)"
| "tool_for vq threads aq RstKind = Some (MarkupToText RstKind)"
| "tool_for vq threads aq TextclippingKind = Some ClippingToText"
| "tool_for vq threads aq TsvKind = Some TsvToCsv"
| "tool_for vq threads aq _ = None"

definition retried :: "tool \<Rightarrow> bool" where
  "retried t = (case t of ToJpg \<Rightarrow> True | ToJpgFlattened \<Rightarrow> True | ToPng \<Rightarrow> True | ToVideo _ _ \<Rightarrow> True | ToAudio _ \<Rightarrow> True | _ \<Rightarrow> False)"

record sheet_output =
  so_index :: nat
  so_total :: nat
  so_name :: string
  so_bytes :: string

text \<open>How things end: the window of the file as text; the scratch directory; the free space; the \<open>n\<close>th run of a
  tool, with the bytes it writes; taking the largest image out of an icon; the two halves of a spreadsheet
  conversion; creating \<open>result/\<close>, renaming into it and removing a duplicate; the \<open>n\<close>th push of an output (its
  outcome, and whether the bytes are at the destination after a failure), the gate's answer to it and the
  failure of pushing a file that is gone; removing a pushed output, its log and the source copy.\<close>

record file_env =
  fe_window :: "string option"
  fe_scratch :: "string + unit"
  fe_free :: "nat option"
  fe_run :: "tool \<Rightarrow> nat \<Rightarrow> string + string"
  fe_icns :: "string + unit"
  fe_numbers :: "string + unit"
  fe_sheets :: "string + sheet_output list"
  fe_mkdir :: "string + unit"
  fe_rename :: "string \<Rightarrow> string + unit"
  fe_removable :: bool
  fe_push :: "string \<Rightarrow> nat \<Rightarrow> (string + unit) \<times> bool"
  fe_gate :: "string \<Rightarrow> nat \<Rightarrow> gate_decision"
  fe_missing :: "string \<Rightarrow> string"
  fe_remove_output :: "string \<Rightarrow> bool"
  fe_remove_log :: "string \<Rightarrow> bool"
  fe_remove_source :: bool

text \<open>What a run of transform is given, as far as one file needs it.\<close>

record transform_plan =
  tp_hash :: hasher
  tp_source_path :: string
  tp_kind :: input_file_type
  tp_video_quality :: video_quality
  tp_audio_quality :: audio_quality
  tp_threads :: nat

abbreviation plan_group :: "transform_plan \<Rightarrow> string \<Rightarrow> string" where
  "plan_group plan key \<equiv> group_key (tp_hash plan) (tp_source_path plan) key (tp_kind plan)"

abbreviation plan_name :: "transform_plan \<Rightarrow> string \<Rightarrow> string" where
  "plan_name plan key \<equiv> compute_destination_name (tp_hash plan) (tp_source_path plan) key (tp_kind plan)"

text \<open>An output is its destination name and the bytes in scratch.\<close>

type_synonym pending_output = "string \<times> string"

definition convert_spreadsheet :: "file_env \<Rightarrow> transform_plan \<Rightarrow> string \<Rightarrow> string + pending_output list" where
  "convert_spreadsheet env plan key =
     (if tp_kind plan = CsvKind then bindE (fe_run env CopyThrough 0) (\<lambda>bytes. Inr [(plan_name plan key, bytes)])
      else bindE (if tp_kind plan = NumbersKind then fe_numbers env else Inr ()) (\<lambda>_.
        bindE (fe_sheets env) (\<lambda>outputs. Inr (map (\<lambda>sheet.
          (if so_total sheet = 1 then plan_name plan key
           else sheet_destination_name (plan_group plan key) (so_index sheet) (so_total sheet) (so_name sheet) (tp_kind plan),
           so_bytes sheet)) outputs))))"

definition convert_one :: "file_env \<Rightarrow> transform_plan \<Rightarrow> string \<Rightarrow> string + pending_output list" where
  "convert_one env plan key =
     (if is_spreadsheet (tp_kind plan) then convert_spreadsheet env plan key
      else case tool_for (tp_video_quality plan) (tp_threads plan) (tp_audio_quality plan) (tp_kind plan) of
          None \<Rightarrow> Inl ''handled by the is_spreadsheet() branch above''
        | Some t \<Rightarrow>
            bindE (if tp_kind plan = IcnsKind then fe_icns env else Inr ()) (\<lambda>_.
            bindE (if retried t then snd (retry_transcode_unless_fatal TRANSCODE_RETRIES TRANSCODE_RETRY_BACKOFF (fe_run env t))
                   else fe_run env t 0) (\<lambda>bytes. Inr [(plan_name plan key, bytes)])))"

section \<open>Placing and pushing\<close>

record file_world =
  fw_source :: "string option"
  fw_result :: directory
  fw_remote :: "string \<rightharpoonup> string"
  fw_logs :: "string set"

definition existing_group_outputs :: "directory \<Rightarrow> string \<Rightarrow> string list" where
  "existing_group_outputs dir grp = sort (filter
     (\<lambda>name. starts_with (grp @ ''.'') name \<or> starts_with (grp @ ''-'') name) (map fst dir))"

fun place_outputs :: "file_env \<Rightarrow> transform_plan \<Rightarrow> string \<Rightarrow> pending_output list \<Rightarrow> directory \<Rightarrow> directory \<times> (string + string list)" where
  "place_outputs env plan key [] dir = (dir, Inr [])"
| "place_outputs env plan key ((name, bytes) # outputs) dir =
     (let (_, dir', r) =
        (if is_spreadsheet (tp_kind plan)
         then place_sheet (fe_mkdir env) (fe_rename env name) (fe_removable env) name (Some bytes) dir
         else place_one (fe_mkdir env) (fe_rename env name) key (plan_name plan key) (Some bytes) dir) in
      case r of
        Inl err \<Rightarrow> (dir', Inl err)
      | Inr placed \<Rightarrow> (let (dir'', rs) = place_outputs env plan key outputs dir' in (dir'', map_sum id (Cons placed) rs)))"

definition log_path :: "string \<Rightarrow> string" where "log_path destination_filename = destination_filename @ ''.jsonl''"

text \<open>\<open>push_one\<close>; \<open>bytes\<close> is the size of the local file, zero when it cannot be read.\<close>

definition push_one :: "string \<Rightarrow> string \<Rightarrow> string \<Rightarrow> string \<Rightarrow> nat \<Rightarrow> unit rclone_command" where
  "push_one local_path destination destination_filename push_log_dir bytes =
     copyto_command \<lparr>ct_source = local_path,
       ct_destination = trim_end_by (\<lambda>c. c = CHR ''/'') destination @ ''/'' @ destination_filename,
       ct_log_path = path_join push_log_dir (log_path destination_filename),
       ct_job = ''transform'', ct_step = ''push'', ct_emit_upload_metrics = True, ct_bytes = bytes\<rparr>"

text \<open>The retry loop of one output: its outcome, and whether its bytes are at the destination.\<close>

partial_function (option) push_output ::
  "(nat \<Rightarrow> (string + unit) \<times> bool) \<Rightarrow> (nat \<Rightarrow> gate_decision) \<Rightarrow> nat \<Rightarrow> bool \<Rightarrow> ((string + unit) \<times> bool) option" where
  "push_output attempts decide n landed = (case attempts n of
     (Inr _, _) \<Rightarrow> Some (Inr (), True)
   | (Inl err, arrived) \<Rightarrow>
       if \<not> is_endpoint_unreachable_error err then Some (Inl err, landed \<or> arrived)
       else (case decide n of
          Retry \<Rightarrow> push_output attempts decide (n + 1) (landed \<or> arrived)
        | GiveUp \<Rightarrow> Some (Inl err, landed \<or> arrived)))"

declare push_output.simps [code]

definition push_answer :: "file_env \<Rightarrow> file_world \<Rightarrow> string \<Rightarrow> nat \<Rightarrow> (string + unit) \<times> bool" where
  "push_answer env w name n = (case map_of (fw_result w) name of
     None \<Rightarrow> (Inl (fe_missing env name), False)
   | Some _ \<Rightarrow> fe_push env name n)"

definition dir_remove :: "string \<Rightarrow> directory \<Rightarrow> directory" where
  "dir_remove name dir = filter (\<lambda>(n, _). n \<noteq> name) dir"

fun push_outputs :: "file_env \<Rightarrow> string list \<Rightarrow> file_world \<Rightarrow> (file_world \<times> (string + unit)) option" where
  "push_outputs env [] w = Some (w, Inr ())"
| "push_outputs env (name # names) w = (case push_output (push_answer env w name) (fe_gate env name) 0 False of
     None \<Rightarrow> None
   | Some (r, landed) \<Rightarrow>
       (let w1 = w\<lparr>fw_remote := (if landed then (fw_remote w)(name := map_of (fw_result w) name) else fw_remote w),
                   fw_logs := insert (log_path name) (fw_logs w)\<rparr> in
        case r of
          Inl err \<Rightarrow> Some (w1, Inl err)
        | Inr _ \<Rightarrow> push_outputs env names (w1\<lparr>
            fw_result := (if fe_remove_output env name then dir_remove name (fw_result w1) else fw_result w1),
            fw_logs := (if fe_remove_log env name then fw_logs w1 - {log_path name} else fw_logs w1)\<rparr>)))"

definition remove_source :: "file_env \<Rightarrow> file_world \<Rightarrow> file_world" where
  "remove_source env w = (if fe_remove_source env then w\<lparr>fw_source := None\<rparr> else w)"

definition push_and_clean :: "file_env \<Rightarrow> string list \<Rightarrow> file_world \<Rightarrow> (file_world \<times> process_result) option" where
  "push_and_clean env names w = (case push_outputs env names w of
     None \<Rightarrow> None
   | Some (w', Inl err) \<Rightarrow> Some (w', Inl (PushStage, err))
   | Some (w', Inr _) \<Rightarrow> Some (remove_source env w', Inr (Pushed names)))"

definition process_one :: "file_env \<Rightarrow> transform_plan \<Rightarrow> string \<Rightarrow> file_world \<Rightarrow> (file_world \<times> process_result) option" where
  "process_one env plan key w =
     (let grp = plan_group plan key; existing = existing_group_outputs (fw_result w) grp in
      if existing \<noteq> [] \<and> is_complete (index_names existing) grp then push_and_clean env existing w
      else case (if tp_kind plan = MdKind then Option.bind (fe_window env) classify else None) of
          Some sg \<Rightarrow> Some (remove_source env w, Inr (SkippedEmail sg))
        | None \<Rightarrow> (case fe_scratch env of
            Inl err \<Rightarrow> Some (w, Inl (TranscodeStage, err))
          | Inr _ \<Rightarrow> (case check_disk_space (fe_free env) 0 of
              Inl (Err err) \<Rightarrow> Some (w, Inl (TranscodeStage, err))
            | Inl Panic \<Rightarrow> None
            | Inr _ \<Rightarrow> (case convert_one env plan key of
                Inl err \<Rightarrow> Some (if is_wrong_input_kind_error err then remove_source env w else w, Inl (TranscodeStage, err))
              | Inr outputs \<Rightarrow> (case place_outputs env plan key outputs (fw_result w) of
                  (dir, Inl err) \<Rightarrow> Some (w\<lparr>fw_result := dir\<rparr>, Inl (PlaceStage, err))
                | (dir, Inr placed) \<Rightarrow> push_and_clean env placed (w\<lparr>fw_result := dir\<rparr>))))))"

section \<open>Lemmas on pushing\<close>

lemma push_output_landed:
  assumes "push_output attempts decide n landed = Some y"
  shows "(\<forall>u. fst y = Inr u \<longrightarrow> snd y \<and> (\<exists>m. fst (attempts m) = Inr ())) \<and>
    (snd y \<longrightarrow> landed \<or> (\<exists>m. snd (attempts m) \<or> fst (attempts m) = Inr ()))"
  using assms
proof (rule push_output.raw_induct [rotated, where P = "\<lambda>attempts decide n landed y.
    (\<forall>u. fst y = Inr u \<longrightarrow> snd y \<and> (\<exists>m. fst (attempts m) = Inr ())) \<and>
    (snd y \<longrightarrow> landed \<or> (\<exists>m. snd (attempts m) \<or> fst (attempts m) = Inr ()))"])
  fix rec :: "(nat \<Rightarrow> (string + unit) \<times> bool) \<Rightarrow> (nat \<Rightarrow> gate_decision) \<Rightarrow> nat \<Rightarrow> bool \<Rightarrow> ((string + unit) \<times> bool) option"
    and attempts decide n landed y
  assume IH: "\<And>attempts decide n landed y. rec attempts decide n landed = Some y \<Longrightarrow>
      (\<forall>u. fst y = Inr u \<longrightarrow> snd y \<and> (\<exists>m. fst (attempts m) = Inr ())) \<and>
      (snd y \<longrightarrow> landed \<or> (\<exists>m. snd (attempts m) \<or> fst (attempts m) = Inr ()))"
  assume body: "(case attempts n of
       (Inl err, arrived) \<Rightarrow>
         if \<not> is_endpoint_unreachable_error err then Some (Inl err, landed \<or> arrived)
         else (case decide n of
            Retry \<Rightarrow> rec attempts decide (n + 1) (landed \<or> arrived)
          | GiveUp \<Rightarrow> Some (Inl err, landed \<or> arrived))
     | (Inr _, _) \<Rightarrow> Some (Inr (), True)) = Some y"
  obtain a b where ab: "attempts n = (a, b)" by fastforce
  show "(\<forall>u. fst y = Inr u \<longrightarrow> snd y \<and> (\<exists>m. fst (attempts m) = Inr ())) \<and>
      (snd y \<longrightarrow> landed \<or> (\<exists>m. snd (attempts m) \<or> fst (attempts m) = Inr ()))"
  proof (cases a)
    case (Inl err)
    have b: "b \<Longrightarrow> \<exists>m. snd (attempts m) \<or> fst (attempts m) = Inr ()" using ab by (intro exI [of _ n]) simp
    show ?thesis
    proof (cases "is_endpoint_unreachable_error err \<and> decide n = Retry")
      case True
      then have "rec attempts decide (n + 1) (landed \<or> b) = Some y" using body ab Inl by simp
      from IH [OF this] b show ?thesis by blast
    next
      case False
      then have "y = (Inl err, landed \<or> b)" using body ab Inl by (cases "decide n") (simp_all split: if_splits)
      then show ?thesis using b by auto
    qed
  next
    case (Inr u)
    then have "y = (Inr (), True)" "\<exists>m. fst (attempts m) = Inr ()" using body ab by (auto intro!: exI [of _ n])
    then show ?thesis by auto
  qed
qed

text \<open>What pushing may do to one name: nothing, put its local bytes at the destination, or also remove them.\<close>

definition name_step :: "file_world \<Rightarrow> file_world \<Rightarrow> string \<Rightarrow> bool" where
  "name_step w w' n \<longleftrightarrow>
     (fw_remote w' n = fw_remote w n \<or> (map_of (fw_result w) n \<noteq> None \<and> fw_remote w' n = map_of (fw_result w) n)) \<and>
     (map_of (fw_result w') n = map_of (fw_result w) n \<or>
      (map_of (fw_result w') n = None \<and> fw_remote w' n = map_of (fw_result w) n))"

lemma name_step_refl [simp]: "name_step w w n"
  by (simp add: name_step_def)

lemma name_step_trans: "name_step u v n \<Longrightarrow> name_step v w n \<Longrightarrow> name_step u w n"
  unfolding name_step_def by (cases "map_of (fw_result u) n") auto

lemma dir_remove_get [simp]: "map_of (dir_remove name dir) n = (if n = name then None else map_of dir n)"
  by (induction dir) (auto simp: dir_remove_def)

lemma push_outputs_props:
  assumes "push_outputs env names w = Some (w', r)"
  shows "fw_source w' = fw_source w" and "\<And>n. n \<notin> set names \<Longrightarrow> map_of (fw_result w') n = map_of (fw_result w) n \<and> fw_remote w' n = fw_remote w n"
    and "\<And>n. name_step w w' n"
    and "\<And>n u. r = Inr u \<Longrightarrow> n \<in> set names \<Longrightarrow> map_of (fw_result w) n \<noteq> None \<and> fw_remote w' n = map_of (fw_result w) n"
proof -
  have "fw_source w' = fw_source w \<and>
      (\<forall>n. n \<notin> set names \<longrightarrow> map_of (fw_result w') n = map_of (fw_result w) n \<and> fw_remote w' n = fw_remote w n) \<and>
      (\<forall>n. name_step w w' n) \<and>
      (\<forall>n u. r = Inr u \<longrightarrow> n \<in> set names \<longrightarrow> map_of (fw_result w) n \<noteq> None \<and> fw_remote w' n = map_of (fw_result w) n)"
    using assms
  proof (induction names arbitrary: w)
    case (Cons name names)
    obtain a landed where p: "push_output (push_answer env w name) (fe_gate env name) 0 False = Some (a, landed)"
      using Cons.prems by (auto split: option.splits)
    have content: "map_of (fw_result w) name \<noteq> None" if "landed"
      using push_output_landed [OF p] that by (auto simp: push_answer_def split: option.splits)
    define w1 where "w1 = w\<lparr>fw_remote := (if landed then (fw_remote w)(name := map_of (fw_result w) name) else fw_remote w),
      fw_logs := insert (log_path name) (fw_logs w)\<rparr>"
    have s1: "name_step w w1 n" for n using content by (auto simp: name_step_def w1_def)
    show ?case
    proof (cases a)
      case (Inl err)
      then have "w' = w1" "r = Inl err" using Cons.prems p by (simp_all add: w1_def Let_def)
      then show ?thesis using s1 by (simp add: w1_def)
    next
      case (Inr u)
      then have landed: landed using push_output_landed [OF p] by simp
      define w2 where "w2 = w1\<lparr>fw_result := (if fe_remove_output env name then dir_remove name (fw_result w1) else fw_result w1),
        fw_logs := (if fe_remove_log env name then fw_logs w1 - {log_path name} else fw_logs w1)\<rparr>"
      have run: "push_outputs env names w2 = Some (w', r)"
        using Cons.prems unfolding push_outputs.simps p option.case prod.case Inr sum.case Let_def w2_def w1_def .
      note IH = Cons.IH [OF run]
      have s2: "name_step w w2 n" for n
        using content [OF landed] landed by (auto simp: name_step_def w2_def w1_def)
      have step: "name_step w w' n" for n using s2 IH name_step_trans by blast
      have src: "fw_source w' = fw_source w" using IH by (simp add: w2_def w1_def)
      have frame: "map_of (fw_result w') n = map_of (fw_result w) n \<and> fw_remote w' n = fw_remote w n"
        if "n \<notin> set (name # names)" for n using IH that by (simp add: w2_def w1_def)
      have here: "fw_remote w2 name = map_of (fw_result w) name" using landed by (simp add: w2_def w1_def)
      have arrived: "map_of (fw_result w) n \<noteq> None \<and> fw_remote w' n = map_of (fw_result w) n"
        if ok: "r = Inr v" and n: "n \<in> set (name # names)" for n v
      proof (cases "n \<in> set names")
        case True
        then have "map_of (fw_result w2) n \<noteq> None" "fw_remote w' n = map_of (fw_result w2) n" using IH ok by blast+
        then show ?thesis by (auto simp: w2_def w1_def split: if_splits)
      next
        case False
        then have "n = name" "fw_remote w' n = fw_remote w2 n" using n IH by auto
        then show ?thesis using here content [OF landed] by simp
      qed
      show ?thesis using src frame step arrived by blast
    qed
  qed (auto simp: name_step_def)
  then show "fw_source w' = fw_source w" "\<And>n. n \<notin> set names \<Longrightarrow> map_of (fw_result w') n = map_of (fw_result w) n \<and> fw_remote w' n = fw_remote w n"
    "\<And>n. name_step w w' n"
    "\<And>n u. r = Inr u \<Longrightarrow> n \<in> set names \<Longrightarrow> map_of (fw_result w) n \<noteq> None \<and> fw_remote w' n = map_of (fw_result w) n"
    by blast+
qed

lemma place_outputs_props:
  assumes "place_outputs env plan key outputs dir = (dir', r)"
    and "\<not> is_spreadsheet (tp_kind plan) \<Longrightarrow> \<forall>(n, _) \<in> set outputs. n = plan_name plan key"
  shows "\<And>n c. map_of dir n = Some c \<Longrightarrow> map_of dir' n = Some c"
    and "\<And>n. map_of dir' n \<noteq> map_of dir n \<Longrightarrow> (\<exists>c. (n, c) \<in> set outputs \<and> map_of dir' n = Some c)"
    and "\<And>placed. r = Inr placed \<Longrightarrow> placed = map fst outputs \<and> (\<forall>n \<in> set placed. map_of dir' n \<noteq> None)"
proof -
  have "(\<forall>n c. map_of dir n = Some c \<longrightarrow> map_of dir' n = Some c) \<and>
      (\<forall>n. map_of dir' n \<noteq> map_of dir n \<longrightarrow> (\<exists>c. (n, c) \<in> set outputs \<and> map_of dir' n = Some c)) \<and>
      (\<forall>placed. r = Inr placed \<longrightarrow> placed = map fst outputs \<and> (\<forall>n \<in> set placed. map_of dir' n \<noteq> None))"
    using assms
  proof (induction outputs arbitrary: dir dir' r)
    case (Cons out outputs)
    obtain name bytes where out: "out = (name, bytes)" by fastforce
    obtain s1 dir1 r1 where one: "(if is_spreadsheet (tp_kind plan)
         then place_sheet (fe_mkdir env) (fe_rename env name) (fe_removable env) name (Some bytes) dir
         else place_one (fe_mkdir env) (fe_rename env name) key (plan_name plan key) (Some bytes) dir) = (s1, dir1, r1)"
      by (metis prod_cases3)
    have name: "\<not> is_spreadsheet (tp_kind plan) \<Longrightarrow> plan_name plan key = name" using Cons.prems(2) out by auto
    have d1: "dir1 = dir \<or> (map_of dir name = None \<and> dir1 = (name, bytes) # dir)"
      and r1: "r1 = Inr p \<Longrightarrow> p = name \<and> map_of dir1 name \<noteq> None" for p
      using one name by (auto simp: place_one_def place_sheet_def split: if_splits sum.splits option.splits)
    have keep1: "map_of dir n = Some c \<Longrightarrow> map_of dir1 n = Some c" for n c using d1 by auto
    have new1: "map_of dir1 n \<noteq> map_of dir n \<Longrightarrow> n = name \<and> map_of dir1 n = Some bytes" for n
      using d1 by (auto split: if_splits)
    show ?case
    proof (cases r1)
      case (Inl err)
      then have "dir' = dir1" "r = Inl err" using Cons.prems(1) one out by simp_all
      then show ?thesis using keep1 new1 out by auto
    next
      case (Inr p)
      obtain dir2 rs where rest: "place_outputs env plan key outputs dir1 = (dir2, rs)" by fastforce
      have eq: "dir' = dir2" "r = map_sum id (Cons p) rs" using Cons.prems(1) one out rest Inr by simp_all
      have IH: "(\<forall>n c. map_of dir1 n = Some c \<longrightarrow> map_of dir2 n = Some c)"
        "(\<forall>n. map_of dir2 n \<noteq> map_of dir1 n \<longrightarrow> (\<exists>c. (n, c) \<in> set outputs \<and> map_of dir2 n = Some c))"
        "(\<forall>placed. rs = Inr placed \<longrightarrow> placed = map fst outputs \<and> (\<forall>n \<in> set placed. map_of dir2 n \<noteq> None))"
        using Cons.IH [OF rest] Cons.prems(2) by auto
      have a: "\<forall>n c. map_of dir n = Some c \<longrightarrow> map_of dir2 n = Some c" using keep1 IH(1) by blast
      have b: "\<exists>c. (n, c) \<in> set (out # outputs) \<and> map_of dir2 n = Some c" if "map_of dir2 n \<noteq> map_of dir n" for n
      proof (cases "map_of dir2 n = map_of dir1 n")
        case True
        then show ?thesis using that new1 out by auto
      qed (use IH(2) in auto)
      have c: "placed = map fst (out # outputs) \<and> (\<forall>n \<in> set placed. map_of dir2 n \<noteq> None)" if pl: "r = Inr placed" for placed
      proof -
        obtain ps where ps: "rs = Inr ps" "placed = p # ps" using pl eq by (cases rs) auto
        obtain cc where "map_of dir1 name = Some cc" using r1 [OF Inr] by auto
        then have "map_of dir2 name = Some cc" using IH(1) by blast
        then show ?thesis using ps r1 [OF Inr] IH(3) out by auto
      qed
      show ?thesis using a b c eq(1) by blast
    qed
  qed simp
  then show "\<And>n c. map_of dir n = Some c \<Longrightarrow> map_of dir' n = Some c"
    "\<And>n. map_of dir' n \<noteq> map_of dir n \<Longrightarrow> (\<exists>c. (n, c) \<in> set outputs \<and> map_of dir' n = Some c)"
    "\<And>placed. r = Inr placed \<Longrightarrow> placed = map fst outputs \<and> (\<forall>n \<in> set placed. map_of dir' n \<noteq> None)"
    by blast+
qed

section \<open>Lemmas on a file's run\<close>

definition sheets_numbered :: "file_env \<Rightarrow> bool" where
  "sheets_numbered env \<longleftrightarrow> (\<forall>outputs. fe_sheets env = Inr outputs \<longrightarrow> outputs \<noteq> [] \<and> length outputs \<le> usize_max \<and>
     map so_index outputs = [1..<length outputs + 1] \<and> (\<forall>s \<in> set outputs. so_total s = length outputs))"

lemma tool_for_total: "\<not> is_spreadsheet k \<Longrightarrow> tool_for vq threads aq k \<noteq> None"
  by (cases k) (simp_all add: is_spreadsheet_def)

lemma convert_one_single:
  "\<not> is_spreadsheet (tp_kind plan) \<Longrightarrow> convert_one env plan key = Inr outputs \<Longrightarrow> \<exists>bytes. outputs = [(plan_name plan key, bytes)]"
  by (auto simp: convert_one_def result_simps split: option.splits)

lemma convert_one_names:
  assumes "convert_one env plan key = Inr outputs" and "(n, c) \<in> set outputs"
  shows "starts_with (plan_group plan key) n"
proof (cases "is_spreadsheet (tp_kind plan)")
  case True
  then have "convert_spreadsheet env plan key = Inr outputs" using assms(1) by (simp add: convert_one_def)
  then show ?thesis using assms(2)
    by (auto simp: convert_spreadsheet_def result_simps starts_with_iff compute_destination_name_def sheet_destination_name_def
        split: if_splits)
next
  case False
  then show ?thesis using convert_one_single [OF False assms(1)] assms(2)
    by (auto simp: compute_destination_name_def starts_with_iff)
qed

lemma existing_names:
  "n \<in> set (existing_group_outputs dir grp) \<Longrightarrow> map_of dir n \<noteq> None \<and> starts_with grp n"
  by (auto simp: existing_group_outputs_def starts_with_iff map_of_eq_None_iff)

lemma remove_source_simps [simp]:
  "fw_result (remove_source env w) = fw_result w" "fw_remote (remove_source env w) = fw_remote w"
  by (simp_all add: remove_source_def)

lemma push_and_clean_props:
  assumes "push_and_clean env names w = Some (w', r)"
  shows "\<And>n. name_step w w' n" and "\<And>n. n \<notin> set names \<Longrightarrow> map_of (fw_result w') n = map_of (fw_result w) n \<and> fw_remote w' n = fw_remote w n"
    and "\<And>p. r = Inr p \<Longrightarrow> p = Pushed names \<and> (\<forall>n \<in> set names. map_of (fw_result w) n \<noteq> None \<and> fw_remote w' n = map_of (fw_result w) n)"
    and "\<And>e. r = Inl e \<Longrightarrow> fw_source w' = fw_source w \<and> fst e = PushStage"
proof -
  obtain w1 a where p: "push_outputs env names w = Some (w1, a)"
    using assms by (auto simp: push_and_clean_def split: option.splits)
  note props = push_outputs_props [OF p]
  have res: "(case a of Inl err \<Rightarrow> w' = w1 \<and> r = Inl (PushStage, err)
      | Inr u \<Rightarrow> w' = remove_source env w1 \<and> r = Inr (Pushed names))"
    using assms p by (auto simp: push_and_clean_def split: sum.splits)
  have same: "fw_result w' = fw_result w1" "fw_remote w' = fw_remote w1"
    using res by (simp_all split: sum.splits)
  show "name_step w w' n" for n using props(3) [of n] same by (simp add: name_step_def)
  show "n \<notin> set names \<Longrightarrow> map_of (fw_result w') n = map_of (fw_result w) n \<and> fw_remote w' n = fw_remote w n" for n
    using props(2) [of n] same by simp
  show "p = Pushed names \<and> (\<forall>n \<in> set names. map_of (fw_result w) n \<noteq> None \<and> fw_remote w' n = map_of (fw_result w) n)"
    if "r = Inr p" for p using res that props(4) same by (cases a) auto
  show "fw_source w' = fw_source w \<and> fst e = PushStage" if "r = Inl e" for e
    using res that props(1) by (cases a) auto
qed

text \<open>The ways through \<open>process_one\<close>.\<close>

lemma process_one_cases:
  assumes "process_one env plan key w = Some (w', r)"
  obtains (resume) names where "names = existing_group_outputs (fw_result w) (plan_group plan key)" "names \<noteq> []"
      "is_complete (index_names names) (plan_group plan key)" "push_and_clean env names w = Some (w', r)"
  | (skip) sg where "w' = remove_source env w" "r = Inr (SkippedEmail sg)"
  | (early) err where "w' = w" "r = Inl (TranscodeStage, err)"
  | (convert) err where "convert_one env plan key = Inl err" "r = Inl (TranscodeStage, err)"
      "w' = (if is_wrong_input_kind_error err then remove_source env w else w)"
  | (misplaced) outputs dir err where "convert_one env plan key = Inr outputs"
      "place_outputs env plan key outputs (fw_result w) = (dir, Inl err)" "w' = w\<lparr>fw_result := dir\<rparr>" "r = Inl (PlaceStage, err)"
  | (pushed) outputs dir placed where "convert_one env plan key = Inr outputs"
      "place_outputs env plan key outputs (fw_result w) = (dir, Inr placed)"
      "push_and_clean env placed (w\<lparr>fw_result := dir\<rparr>) = Some (w', r)"
proof -
  let ?existing = "existing_group_outputs (fw_result w) (plan_group plan key)"
  show thesis
  proof (cases "?existing \<noteq> [] \<and> is_complete (index_names ?existing) (plan_group plan key)")
    case True
    then have "push_and_clean env ?existing w = Some (w', r)" using assms by (simp add: process_one_def Let_def)
    then show thesis using resume [OF refl] True by simp
  next
    case fresh: False
    show thesis
    proof (cases "if tp_kind plan = MdKind then Option.bind (fe_window env) classify else None")
      case (Some sg)
      then have "w' = remove_source env w" "r = Inr (SkippedEmail sg)" using assms fresh by (auto simp: process_one_def Let_def)
      then show thesis by (rule skip)
    next
      case None
      show thesis
      proof (cases "fe_scratch env")
        case (Inl err)
        then show thesis using early [of err] assms fresh None by (auto simp: process_one_def Let_def)
      next
        case scratch: (Inr u)
        show thesis
        proof (cases "check_disk_space (fe_free env) 0")
          case (Inl e)
          then show thesis using early assms fresh None scratch by (cases e) (auto simp: process_one_def Let_def)
        next
          case space: (Inr v)
          have go: "(case convert_one env plan key of
                Inl err \<Rightarrow> Some (if is_wrong_input_kind_error err then remove_source env w else w, Inl (TranscodeStage, err))
              | Inr outputs \<Rightarrow> (case place_outputs env plan key outputs (fw_result w) of
                  (dir, Inl err) \<Rightarrow> Some (w\<lparr>fw_result := dir\<rparr>, Inl (PlaceStage, err))
                | (dir, Inr placed) \<Rightarrow> push_and_clean env placed (w\<lparr>fw_result := dir\<rparr>))) = Some (w', r)"
            using assms fresh None scratch space by (auto simp: process_one_def Let_def)
          show thesis
          proof (cases "convert_one env plan key")
            case (Inl err)
            then show thesis using convert [OF Inl] go by auto
          next
            case (Inr outputs)
            obtain dir q where q: "place_outputs env plan key outputs (fw_result w) = (dir, q)" by fastforce
            show thesis
            proof (cases q)
              case (Inl err)
              then show thesis using misplaced [of outputs dir err] go Inr q by auto
            next
              case (Inr placed)
              then show thesis using pushed [of outputs dir placed] go \<open>convert_one env plan key = Inr outputs\<close> q by auto
            qed
          qed
        qed
      qed
    qed
  qed
qed

lemma converted_complete:
  assumes "\<And>x. NAME_HASH_HEX_LEN \<le> length (tp_hash plan x) \<and> list_all is_hexdigit (tp_hash plan x)"
    and "sheets_numbered env" and "convert_one env plan key = Inr outputs"
  shows "is_complete (index_names (map fst outputs)) (plan_group plan key)"
proof -
  let ?g = "plan_group plan key"
  have shaped: "group_shaped ?g" using group_key_shaped assms(1) by blast
  have plain: "plan_name plan key = ?g @ ''.'' @ output_extension (tp_kind plan)" by (simp add: compute_destination_name_def)
  show ?thesis
  proof (cases "map fst outputs = [plan_name plan key]")
    case True
    have "is_complete (index_names [?g @ ''.'' @ output_extension (tp_kind plan)]) ?g"
      using complete_names [OF shaped, of 1 "[?g @ ''.'' @ output_extension (tp_kind plan)]" "tp_kind plan"]
      by (simp add: usize_max_def)
    then show ?thesis using True plain by simp
  next
    case False
    then have "is_spreadsheet (tp_kind plan)" using convert_one_single assms(3) by fastforce
    then obtain sheets where sheets: "fe_sheets env = Inr sheets" and outs: "outputs = map (\<lambda>sheet.
          (if so_total sheet = 1 then plan_name plan key
           else sheet_destination_name ?g (so_index sheet) (so_total sheet) (so_name sheet) (tp_kind plan),
           so_bytes sheet)) sheets"
      using assms(3) False by (auto simp: convert_one_def convert_spreadsheet_def result_simps split: if_splits)
    let ?t = "length sheets"
    have num: "sheets \<noteq> []" "?t \<le> usize_max" "map so_index sheets = [1..<?t + 1]" "\<forall>s \<in> set sheets. so_total s = ?t"
      using assms(2) sheets by (auto simp: sheets_numbered_def)
    have "?t \<noteq> 1"
    proof
      assume "?t = 1"
      then obtain s where "sheets = [s]" by (cases sheets) auto
      then show False using False outs num(4) by simp
    qed
    then have names: "map fst outputs = map (\<lambda>s. sheet_destination_name ?g (so_index s) ?t (so_name s) (tp_kind plan)) sheets"
      using outs num(4) by simp
    have idx: "so_index ` set sheets = {1..?t}" using arg_cong [OF num(3), of set] by auto
    have shape: "\<forall>n \<in> set (map fst outputs). group_remainder ?g (name_stem n) \<noteq> None \<longrightarrow>
        n = ?g @ ''.'' @ output_extension (tp_kind plan) \<or> (\<exists>i \<in> {1..?t}. \<exists>s. n = sheet_destination_name ?g i ?t s (tp_kind plan))"
    proof (intro ballI impI disjI2)
      fix n assume "n \<in> set (map fst outputs)"
      then obtain s where "s \<in> set sheets" "n = sheet_destination_name ?g (so_index s) ?t (so_name s) (tp_kind plan)"
        unfolding names by auto
      moreover from this have "so_index s \<in> {1..?t}" using idx by blast
      ultimately show "\<exists>i \<in> {1..?t}. \<exists>s. n = sheet_destination_name ?g i ?t s (tp_kind plan)" by blast
    qed
    have all: "{i \<in> {1..?t}. \<exists>s. sheet_destination_name ?g i ?t s (tp_kind plan) \<in> set (map fst outputs)} = {1..?t}"
    proof (rule subset_antisym [OF _ subsetI])
      fix i assume i: "i \<in> {1..?t}"
      then obtain s where "s \<in> set sheets" "i = so_index s" using idx by blast
      then have "sheet_destination_name ?g i ?t (so_name s) (tp_kind plan) \<in> set (map fst outputs)" unfolding names by auto
      then show "i \<in> {i \<in> {1..?t}. \<exists>s. sheet_destination_name ?g i ?t s (tp_kind plan) \<in> set (map fst outputs)}" using i by blast
    qed blast
    have "0 < ?t" using num(1) by simp
    from complete_names [OF shaped this num(2) shape] all show ?thesis by blast
  qed
qed

section \<open>Properties\<close>

text \<open>C23. Nothing local is deleted before it is safe. However the run of one file ends: a file of \<open>result/\<close>
  that disappears is at the destination, byte for byte; the local copy of the source disappears only when
  every output was pushed, when the file is a rendered mail that is left at the source, or when the run was
  given the wrong kind for it; a file reported as pushed has all its outputs at the destination, each with
  the bytes a converter produced now or an interrupted run had placed; and names of other groups, which
  belong to other files' tasks, are not touched in either place.\<close>

theorem deleted_only_when_durable:
  assumes "process_one env plan key w = Some (w', r)"
  shows "(map_of (fw_result w) n = Some c \<longrightarrow> map_of (fw_result w') n = None \<longrightarrow> fw_remote w' n = Some c) \<and>
    (fw_source w' \<noteq> fw_source w \<longrightarrow> (\<exists>names. r = Inr (Pushed names)) \<or> (\<exists>sg. r = Inr (SkippedEmail sg)) \<or>
      (\<exists>err. r = Inl (TranscodeStage, err) \<and> is_wrong_input_kind_error err)) \<and>
    (r = Inr (Pushed names) \<longrightarrow> n \<in> set names \<longrightarrow> (\<exists>c. fw_remote w' n = Some c \<and>
      (map_of (fw_result w) n = Some c \<or> (\<exists>outputs. convert_one env plan key = Inr outputs \<and> (n, c) \<in> set outputs)))) \<and>
    (\<not> starts_with (plan_group plan key) n \<longrightarrow>
      (map_of (fw_result w') n, fw_remote w' n) = (map_of (fw_result w) n, fw_remote w n))"
proof (intro conjI impI)
  have placing: "(\<forall>n c. map_of (fw_result w) n = Some c \<longrightarrow> map_of dir n = Some c) \<and>
      (\<forall>n. map_of dir n \<noteq> map_of (fw_result w) n \<longrightarrow> (\<exists>c. (n, c) \<in> set outputs \<and> map_of dir n = Some c)) \<and>
      (\<forall>placed. q = Inr placed \<longrightarrow> placed = map fst outputs)"
    if "convert_one env plan key = Inr outputs" "place_outputs env plan key outputs (fw_result w) = (dir, q)" for outputs dir q
    using place_outputs_props [OF that(2)] convert_one_single [OF _ that(1)] by fastforce
  have group: "starts_with (plan_group plan key) m" if "convert_one env plan key = Inr outputs" "m \<in> fst ` set outputs" for outputs m
    using convert_one_names [OF that(1)] that(2) by fastforce
  show "fw_remote w' n = Some c" if "map_of (fw_result w) n = Some c" "map_of (fw_result w') n = None"
    using assms
  proof (cases rule: process_one_cases)
    case (resume names)
    then show ?thesis using push_and_clean_props(1) [of env names w w' r n] that by (auto simp: name_step_def)
  next
    case (pushed outputs dir placed)
    then have "map_of dir n = Some c" using placing that(1) by blast
    then show ?thesis using push_and_clean_props(1) [OF pushed(3), of n] that(2) by (auto simp: name_step_def)
  next
    case (misplaced outputs dir err)
    then show ?thesis using placing [OF misplaced(1,2)] that by auto
  qed (use that in \<open>auto split: if_splits\<close>)
  show "(\<exists>names. r = Inr (Pushed names)) \<or> (\<exists>sg. r = Inr (SkippedEmail sg)) \<or>
      (\<exists>err. r = Inl (TranscodeStage, err) \<and> is_wrong_input_kind_error err)" if "fw_source w' \<noteq> fw_source w"
    using assms
  proof (cases rule: process_one_cases)
    case (resume names)
    then show ?thesis using push_and_clean_props(3,4) [of env names w w' r] that by (cases r) auto
  next
    case (pushed outputs dir placed)
    then show ?thesis using push_and_clean_props(3,4) [OF pushed(3)] that by (cases r) auto
  qed (use that in \<open>auto split: if_splits\<close>)
  show "\<exists>c. fw_remote w' n = Some c \<and>
      (map_of (fw_result w) n = Some c \<or> (\<exists>outputs. convert_one env plan key = Inr outputs \<and> (n, c) \<in> set outputs))"
    if "r = Inr (Pushed names)" "n \<in> set names"
    using assms
  proof (cases rule: process_one_cases)
    case (resume ns)
    then show ?thesis using push_and_clean_props(3) [of env ns w w' r "Pushed names"] that by auto
  next
    case (pushed outputs dir placed)
    then have "names = placed" "map_of dir n \<noteq> None" "fw_remote w' n = map_of dir n"
      using push_and_clean_props(3) [OF pushed(3) that(1)] that(2) by auto
    then obtain c where c: "map_of dir n = Some c" "fw_remote w' n = Some c" by auto
    show ?thesis
    proof (cases "map_of dir n = map_of (fw_result w) n")
      case False
      then obtain c' where "(n, c') \<in> set outputs" "map_of dir n = Some c'" using placing [OF pushed(1,2)] by blast
      then show ?thesis using c pushed(1) by auto
    qed (metis c)
  qed (use that in auto)
  have "map_of (fw_result w') n = map_of (fw_result w) n \<and> fw_remote w' n = fw_remote w n"
    if "\<not> starts_with (plan_group plan key) n"
    using assms
  proof (cases rule: process_one_cases)
    case (resume names)
    then have "n \<notin> set names" using existing_names that by blast
    then show ?thesis using push_and_clean_props(2) [OF resume(4)] by blast
  next
    case (pushed outputs dir placed)
    have out: "n \<notin> fst ` set outputs" using group [OF pushed(1)] that by blast
    then have "map_of dir n = map_of (fw_result w) n" using placing [OF pushed(1,2)] by (metis fst_conv image_eqI)
    moreover have "n \<notin> set placed" using placing [OF pushed(1,2)] out by auto
    ultimately show ?thesis using push_and_clean_props(2) [OF pushed(3)] by simp
  next
    case (misplaced outputs dir err)
    have "n \<notin> fst ` set outputs" using group [OF misplaced(1)] that by blast
    then have "map_of dir n = map_of (fw_result w) n" using placing [OF misplaced(1,2)] by (metis fst_conv image_eqI)
    then show ?thesis using misplaced(3) by simp
  qed simp_all
  then show "(map_of (fw_result w') n, fw_remote w' n) = (map_of (fw_result w) n, fw_remote w n)"
    if "\<not> starts_with (plan_group plan key) n" using that by simp
qed

definition push_ends :: "file_env \<Rightarrow> bool" where
  "push_ends env \<longleftrightarrow> (\<forall>name. \<not> is_endpoint_unreachable_error (fe_missing env name) \<and>
     (\<exists>m. case fst (fe_push env name m) of
        Inr _ \<Rightarrow> True | Inl err \<Rightarrow> \<not> is_endpoint_unreachable_error err \<or> fe_gate env name m = GiveUp))"

lemma push_output_ends:
  assumes "n \<le> m" and "case fst (attempts m) of Inr _ \<Rightarrow> True | Inl err \<Rightarrow> \<not> is_endpoint_unreachable_error err \<or> decide m = GiveUp"
  shows "push_output attempts decide n landed \<noteq> None"
  using assms
proof (induction "m - n" arbitrary: n landed)
  case 0
  then have "n = m" by simp
  then show ?case using 0(3)
    by (subst push_output.simps) (auto split: prod.splits sum.splits gate_decision.splits)
next
  case (Suc k)
  obtain a b where ab: "attempts n = (a, b)" by fastforce
  have "push_output attempts decide (n + 1) l \<noteq> None" for l using Suc.hyps(1) [of "n + 1"] Suc.hyps(2) Suc.prems by simp
  then show ?case using ab by (subst push_output.simps) (auto split: sum.splits gate_decision.splits)
qed

lemma push_outputs_ends: "push_ends env \<Longrightarrow> push_outputs env names w \<noteq> None"
proof (induction names arbitrary: w)
  case (Cons name names)
  have "push_output (push_answer env w name) (fe_gate env name) 0 False \<noteq> None"
  proof (cases "map_of (fw_result w) name")
    case None
    then show ?thesis using Cons.prems
      by (subst push_output.simps) (simp add: push_answer_def push_ends_def)
  next
    case (Some c)
    then have "push_answer env w name = fe_push env name" by (simp add: push_answer_def fun_eq_iff)
    moreover obtain m where "case fst (fe_push env name m) of Inr _ \<Rightarrow> True
        | Inl err \<Rightarrow> \<not> is_endpoint_unreachable_error err \<or> fe_gate env name m = GiveUp"
      using Cons.prems unfolding push_ends_def by blast
    ultimately show ?thesis using push_output_ends [where n = 0 and m = m and attempts = "fe_push env name" and decide = "fe_gate env name" and landed = False]
      by simp
  qed
  then obtain r landed where p: "push_output (push_answer env w name) (fe_gate env name) 0 False = Some (r, landed)" by auto
  show ?case using Cons.IH [OF Cons.prems] p by (cases r) (simp_all add: Let_def)
qed simp

lemma process_one_ends: "push_ends env \<Longrightarrow> process_one env plan key w \<noteq> None"
proof -
  assume "push_ends env"
  then have p: "push_and_clean env names w \<noteq> None" for names w
    using push_outputs_ends [of env names w] by (auto simp: push_and_clean_def split: option.splits sum.splits)
  have d: "check_disk_space (fe_free env) 0 \<noteq> Inl Panic" by (auto simp: check_disk_space_def split: option.splits if_splits)
  let ?existing = "existing_group_outputs (fw_result w) (plan_group plan key)"
  have go: "(case convert_one env plan key of
        Inl err \<Rightarrow> Some (if is_wrong_input_kind_error err then remove_source env w else w, Inl (TranscodeStage, err))
      | Inr outputs \<Rightarrow> (case place_outputs env plan key outputs (fw_result w) of
          (dir, Inl err) \<Rightarrow> Some (w\<lparr>fw_result := dir\<rparr>, Inl (PlaceStage, err))
        | (dir, Inr placed) \<Rightarrow> push_and_clean env placed (w\<lparr>fw_result := dir\<rparr>))) \<noteq> None"
  proof (cases "convert_one env plan key")
    case (Inr outputs)
    obtain dir q where "place_outputs env plan key outputs (fw_result w) = (dir, q)" by fastforce
    then show ?thesis using Inr p by (cases q) simp_all
  qed simp
  show "process_one env plan key w \<noteq> None"
  proof (cases "?existing \<noteq> [] \<and> is_complete (index_names ?existing) (plan_group plan key)")
    case True
    then show ?thesis using p by (simp add: process_one_def Let_def)
  next
    case False
    show ?thesis
    proof (cases "if tp_kind plan = MdKind then Option.bind (fe_window env) classify else None")
      case None
      show ?thesis
      proof (cases "check_disk_space (fe_free env) 0")
        case (Inl e)
        then show ?thesis using False None d
          by (cases e; cases "fe_scratch env") (auto simp: process_one_def Let_def)
      next
        case (Inr u)
        then show ?thesis using False None go by (cases "fe_scratch env") (auto simp: process_one_def Let_def)
      qed
    qed (use False in \<open>auto simp: process_one_def Let_def\<close>)
  qed
qed

text \<open>C24. What is reported as pushed is a finished group. With a 64-bit hexadecimal digest and a splitter that
  numbers its sheets from one to their count, the outputs of a file reported as pushed are complete as the
  next run reads them off the destination listing, for a plain output and for a workbook, freshly converted
  or resumed. The run of a file ends whenever every push either settles or is given up by the gate.\<close>

theorem pushed_group_is_complete:
  assumes "\<And>x. NAME_HASH_HEX_LEN \<le> length (tp_hash plan x) \<and> list_all is_hexdigit (tp_hash plan x)"
    and "sheets_numbered env"
  shows "(process_one env plan key w = Some (w', Inr (Pushed names)) \<longrightarrow> is_complete (index_names names) (plan_group plan key)) \<and>
    (push_ends env \<longrightarrow> process_one env plan key w \<noteq> None)"
proof (intro conjI impI)
  show "process_one env plan key w \<noteq> None" if "push_ends env" using that by (rule process_one_ends)
  assume p: "process_one env plan key w = Some (w', Inr (Pushed names))"
  then show "is_complete (index_names names) (plan_group plan key)"
  proof (cases rule: process_one_cases)
    case (resume ns)
    then show ?thesis using push_and_clean_props(3) [OF resume(4)] by auto
  next
    case (pushed outputs dir placed)
    have "placed = map fst outputs"
      using place_outputs_props(3) [OF pushed(2) _ refl] convert_one_single [OF _ pushed(1)] by fastforce
    moreover have "names = placed" using push_and_clean_props(3) [OF pushed(3)] by auto
    ultimately show ?thesis using converted_complete [OF assms pushed(1)] by simp
  qed auto
qed

text \<open>For the witnesses: a photograph whose first push meets an outage.\<close>

definition photo_env :: file_env where
  "photo_env = \<lparr>fe_window = None, fe_scratch = Inr (), fe_free = None, fe_run = (\<lambda>_ _. Inr ''jpeg''), fe_icns = Inr (),
     fe_numbers = Inr (), fe_sheets = Inl ''not a workbook'', fe_mkdir = Inr (), fe_rename = (\<lambda>_. Inr ()), fe_removable = True,
     fe_push = (\<lambda>_ n. if n = 0 then (Inl ''dial tcp: no such host'', False) else (Inr (), True)),
     fe_gate = (\<lambda>_ _. Retry), fe_missing = (\<lambda>_. ''no such file''), fe_remove_output = (\<lambda>_. True), fe_remove_log = (\<lambda>_. True),
     fe_remove_source = True\<rparr>"

definition photo_plan :: transform_plan where
  "photo_plan = \<lparr>tp_hash = zero_digest, tp_source_path = ''s:'', tp_kind = JpegKind, tp_video_quality = MediumVideo,
     tp_audio_quality = LowAudio, tp_threads = 1\<rparr>"

definition photo_world :: file_world where
  "photo_world = \<lparr>fw_source = Some ''jpeg'', fw_result = [], fw_remote = Map.empty, fw_logs = {}\<rparr>"

lemma photo_unreachable: "is_endpoint_unreachable_error ''dial tcp: no such host''" "\<not> is_endpoint_unreachable_error ''no such file''"
  by code_simp+

lemma photo_run:
  obtains w' where "process_one photo_env photo_plan ''a.jpg'' photo_world =
    Some (w', Inr (Pushed [plan_name photo_plan ''a.jpg'']))" "fw_source w' = None"
proof -
  let ?n = "plan_name photo_plan ''a.jpg''"
  have c: "convert_one photo_env photo_plan ''a.jpg'' = Inr [(?n, ''jpeg'')]"
    by (simp add: convert_one_def photo_env_def photo_plan_def is_spreadsheet_def retried_def)
  have pl: "place_outputs photo_env photo_plan ''a.jpg'' [(?n, ''jpeg'')] [] = ([(?n, ''jpeg'')], Inr [?n])"
    by (simp add: place_one_def photo_env_def photo_plan_def is_spreadsheet_def)
  have ans: "push_answer photo_env (photo_world\<lparr>fw_result := [(?n, ''jpeg'')]\<rparr>) ?n = fe_push photo_env ?n"
    by (simp add: push_answer_def fun_eq_iff)
  have po: "push_output (fe_push photo_env ?n) (fe_gate photo_env ?n) 0 False = Some (Inr (), True)"
    using photo_unreachable by (simp add: push_output.simps photo_env_def)
  have "\<exists>w'. push_outputs photo_env [?n] (photo_world\<lparr>fw_result := [(?n, ''jpeg'')]\<rparr>) = Some (w', Inr ())"
    using ans po by (simp add: Let_def)
  then obtain w1 where "push_outputs photo_env [?n] (photo_world\<lparr>fw_result := [(?n, ''jpeg'')]\<rparr>) = Some (w1, Inr ())" by blast
  then have "process_one photo_env photo_plan ''a.jpg'' photo_world = Some (remove_source photo_env w1, Inr (Pushed [?n]))"
    using c pl by (simp add: process_one_def existing_group_outputs_def photo_world_def photo_env_def photo_plan_def
        check_disk_space_def push_and_clean_def Let_def)
  moreover have "fw_source (remove_source photo_env w1) = None" by (simp add: remove_source_def photo_env_def)
  ultimately show thesis by (rule that)
qed

theorem deleted_only_when_durable_witness:
  "\<exists>w' c. process_one photo_env photo_plan ''a.jpg'' photo_world = Some (w', Inr (Pushed [plan_name photo_plan ''a.jpg''])) \<and>
     fw_source w' = None \<and> fw_remote w' (plan_name photo_plan ''a.jpg'') = Some c"
proof -
  obtain w' where w: "process_one photo_env photo_plan ''a.jpg'' photo_world = Some (w', Inr (Pushed [plan_name photo_plan ''a.jpg'']))"
    "fw_source w' = None" by (rule photo_run)
  from deleted_only_when_durable [OF w(1), where n = "plan_name photo_plan ''a.jpg''" and names = "[plan_name photo_plan ''a.jpg'']"]
  obtain c where "fw_remote w' (plan_name photo_plan ''a.jpg'') = Some c" by auto
  then show ?thesis using w by blast
qed

theorem pushed_group_is_complete_witness:
  "is_complete (index_names [plan_name photo_plan ''a.jpg'']) (plan_group photo_plan ''a.jpg'')"
proof -
  obtain w' where w: "process_one photo_env photo_plan ''a.jpg'' photo_world = Some (w', Inr (Pushed [plan_name photo_plan ''a.jpg'']))"
    by (rule photo_run)
  show ?thesis
    by (rule pushed_group_is_complete [THEN conjunct1, THEN mp, OF _ _ w])
      (simp_all add: photo_plan_def photo_env_def sheets_numbered_def zero_digest_def NAME_HASH_HEX_LEN_def list_all_iff
        is_hexdigit_def is_digit_def)
qed

end
