(* ===== verification/TransformPool.thy ===== *)
theory TransformPool
  imports TransformFile
begin

text \<open>
  The transform job as a whole: \<open>run_transform_job\<close>, \<open>enqueue\<close> and \<open>write_report\<close> of \<open>transform/worker.rs\<close>, with
  \<open>transform/manifest.rs\<close> and \<open>transform/destination.rs\<close>. What happens before the main loop is a function; the
  loop itself, which races the pull subprocess, the files in flight and the channels between them, is a step
  relation. Its environment reports the copied objects and ends the pull in any order with the workers.
\<close>

section \<open>Listings\<close>

text \<open>A file under \<open>source/\<close> is its path below it; the second result lists the unexpected files skipped.\<close>

definition gather_source :: "string list list result \<Rightarrow> input_file_type \<Rightarrow> string list result" where
  "gather_source collected k = bindE collected (\<lambda>paths. Inr (List.map_filter (\<lambda>path.
     if path = [] then None
     else if matches_extension k (case extension (join ''/'' path) of Some e \<Rightarrow> e | None \<Rightarrow> []) then Some (join ''/'' path)
     else None) paths))"

definition list_existing_filenames ::
  "(string \<Rightarrow> string + lsjson_entry list) \<Rightarrow> (nat \<Rightarrow> rclone_env) \<Rightarrow> string \<Rightarrow> string list result" where
  "list_existing_filenames json env destination =
     (let (_, _, r) = run_command env (lsjson_command json \<lparr>lj_path = destination, lj_recursive = False,
            lj_include_extensions = [], lj_missing_ok = True, lj_config_path = None, lj_job = ''transform''\<rparr>) in
      bindE r (\<lambda>entries. Inr (map le_name entries)))"

definition list_source_relative_paths ::
  "(string \<Rightarrow> string + lsjson_entry list) \<Rightarrow> (nat \<Rightarrow> rclone_env) \<Rightarrow> string \<Rightarrow> string list \<Rightarrow> string list result" where
  "list_source_relative_paths json env source extensions =
     (let (_, _, r) = run_command env (lsjson_command json \<lparr>lj_path = source, lj_recursive = True,
            lj_include_extensions = extensions, lj_missing_ok = False, lj_config_path = None, lj_job = ''transform''\<rparr>) in
      bindE r (\<lambda>entries. Inr (map le_path entries)))"

section \<open>The state of a run\<close>

datatype enqueue_outcome = Queued | AlreadyDone | AlreadyDispatched | SkippedAppleDouble | SkippedLockFile

record transform_failures =
  tf_pull :: nat
  tf_transcode :: nat
  tf_place :: nat
  tf_push :: nat

definition no_transform_failures :: transform_failures where
  "no_transform_failures = \<lparr>tf_pull = 0, tf_transcode = 0, tf_place = 0, tf_push = 0\<rparr>"

definition record_failure :: "failure_stage \<Rightarrow> transform_failures \<Rightarrow> transform_failures" where
  "record_failure stage f = (case stage of
     PullStage \<Rightarrow> f\<lparr>tf_pull := tf_pull f + 1\<rparr>
   | TranscodeStage \<Rightarrow> f\<lparr>tf_transcode := tf_transcode f + 1\<rparr>
   | PlaceStage \<Rightarrow> f\<lparr>tf_place := tf_place f + 1\<rparr>
   | PushStage \<Rightarrow> f\<lparr>tf_push := tf_push f + 1\<rparr>)"

definition failures_total :: "transform_failures \<Rightarrow> nat" where
  "failures_total f = tf_pull f + tf_transcode f + tf_place f + tf_push f"

record file_outcome =
  fo_key :: string
  fo_filenames :: "string list"
  fo_outcome :: transform_outcome
  fo_stage :: "failure_stage option"
  fo_detail :: string

text \<open>A queued file is its key and where its bytes are.\<close>

type_synonym pending_file = "string \<times> string"

text \<open>What stays fixed while the loop runs. \<open>tc_run_file\<close> is how a file's pipeline ends; the two signals say
  whether stopping and continuing the pull process works; \<open>tc_pull_result\<close> is how the pull ends.\<close>

record transform_config =
  tc_plan :: transform_plan
  tc_source_dir :: string
  tc_groups :: destination_groups
  tc_concurrency :: nat
  tc_high_water :: nat
  tc_run_file :: "pending_file \<Rightarrow> process_result"
  tc_stop_ok :: bool
  tc_cont_ok :: bool
  tc_pull_result :: "string + log_summary"

text \<open>The loop's variables, and the world around it: the keys rclone has still to report, the process id on its
  way, whether the process is stopped by a signal and whether the pull task has ended.\<close>

record transform_run =
  tr_queue :: "pending_file list"
  tr_dispatched :: "string set"
  tr_in_flight :: "pending_file list"
  tr_outcomes :: "file_outcome list"
  tr_pushed :: nat
  tr_failures :: transform_failures
  tr_apple_double :: nat
  tr_lock_file :: nat
  tr_email_shaped :: nat
  tr_samples :: nat
  tr_matches :: nat
  tr_tripped :: bool
  tr_example :: "string option"
  tr_pid :: "nat option"
  tr_paused :: bool
  tr_pull_finished :: bool
  tr_rx_closed :: bool
  tr_pull_result :: "(string + log_summary) option"
  tr_coming :: "string list"
  tr_channel :: "string list"
  tr_pid_channel :: "nat option"
  tr_stopped :: bool
  tr_pull_ended :: bool

definition enqueue ::
  "transform_config \<Rightarrow> string \<Rightarrow> string set \<Rightarrow> pending_file list \<Rightarrow> string set \<times> pending_file list \<times> enqueue_outcome" where
  "enqueue cfg rel dispatched queue =
     (if is_apple_double_basename rel then (dispatched, queue, SkippedAppleDouble)
      else if is_excel_lock_basename rel then (dispatched, queue, SkippedLockFile)
      else if is_complete (tc_groups cfg) (plan_group (tc_plan cfg) rel) then (dispatched, queue, AlreadyDone)
      else if rel \<in> dispatched then (dispatched, queue, AlreadyDispatched)
      else (insert rel dispatched, queue @ [(rel, path_join (tc_source_dir cfg) rel)], Queued))"

text \<open>Each call site counts the two kinds of skip.\<close>

definition note_enqueue :: "transform_config \<Rightarrow> string \<Rightarrow> transform_run \<Rightarrow> transform_run" where
  "note_enqueue cfg rel s =
     (let (dispatched, queue, outcome) = enqueue cfg rel (tr_dispatched s) (tr_queue s);
          s' = s\<lparr>tr_dispatched := dispatched, tr_queue := queue\<rparr> in
      case outcome of
        SkippedAppleDouble \<Rightarrow> s'\<lparr>tr_apple_double := tr_apple_double s' + 1\<rparr>
      | SkippedLockFile \<Rightarrow> s'\<lparr>tr_lock_file := tr_lock_file s' + 1\<rparr>
      | _ \<Rightarrow> s')"

section \<open>The main loop\<close>

text \<open>The circuit breaker's sample; when it trips, a paused pull is resumed.\<close>

definition resume_pull :: "transform_config \<Rightarrow> transform_run \<Rightarrow> transform_run" where
  "resume_pull cfg s = s\<lparr>tr_paused := False, tr_stopped := (if tc_cont_ok cfg then False else tr_stopped s)\<rparr>"

definition pause_pull :: "transform_config \<Rightarrow> transform_run \<Rightarrow> transform_run" where
  "pause_pull cfg s = s\<lparr>tr_paused := True, tr_stopped := (if tc_stop_ok cfg then True else tr_stopped s)\<rparr>"

definition take_sample :: "transform_config \<Rightarrow> process_result \<Rightarrow> transform_run \<Rightarrow> transform_run" where
  "take_sample cfg r s =
     (if (case r of Inr (SkippedEmail _) \<Rightarrow> False | _ \<Rightarrow> True) \<and> \<not> tr_tripped s \<and> tr_samples s < CIRCUIT_BREAKER_SAMPLE_SIZE
      then (let s1 = s\<lparr>tr_samples := tr_samples s + 1\<rparr>;
                s2 = (case r of
                    Inl (TranscodeStage, err) \<Rightarrow>
                      if is_non_retryable_transcode_error err
                      then s1\<lparr>tr_matches := tr_matches s1 + 1,
                              tr_example := (case tr_example s1 of None \<Rightarrow> Some err | Some e \<Rightarrow> Some e)\<rparr>
                      else s1
                  | _ \<Rightarrow> s1) in
            if circuit_breaker_should_trip (tr_samples s2) (tr_matches s2)
            then (let s3 = s2\<lparr>tr_tripped := True\<rparr> in
                  if tr_pid s3 \<noteq> None \<and> tr_paused s3 then resume_pull cfg s3 else s3)
            else s2)
      else s)"

definition outcome_row :: "transform_config \<Rightarrow> string \<Rightarrow> process_result \<Rightarrow> file_outcome" where
  "outcome_row cfg key r = (case r of
     Inr (SkippedEmail sg) \<Rightarrow> \<lparr>fo_key = key, fo_filenames = [], fo_outcome = SkippedEmailShaped, fo_stage = None,
       fo_detail = ''email-shaped: '' @ describe_signals sg\<rparr>
   | Inr (Pushed names) \<Rightarrow> \<lparr>fo_key = key, fo_filenames = names, fo_outcome = outcome_for (tp_kind (tc_plan cfg)),
       fo_stage = None, fo_detail = []\<rparr>
   | Inl (stage, err) \<Rightarrow> \<lparr>fo_key = key, fo_filenames = [], fo_outcome = FailedOutcome, fo_stage = Some stage, fo_detail = err\<rparr>)"

definition note_result :: "transform_config \<Rightarrow> string \<Rightarrow> process_result \<Rightarrow> transform_run \<Rightarrow> transform_run" where
  "note_result cfg key r s =
     (let s' = s\<lparr>tr_outcomes := tr_outcomes s @ [outcome_row cfg key r]\<rparr> in
      case r of
        Inr (SkippedEmail _) \<Rightarrow> s'\<lparr>tr_email_shaped := tr_email_shaped s' + 1\<rparr>
      | Inr (Pushed names) \<Rightarrow> s'\<lparr>tr_pushed := tr_pushed s' + length names\<rparr>
      | Inl (stage, _) \<Rightarrow> s'\<lparr>tr_failures := record_failure stage (tr_failures s')\<rparr>)"

definition backlog :: "transform_run \<Rightarrow> nat" where
  "backlog s = length (tr_queue s) + length (tr_in_flight s)"

definition low_water :: "transform_config \<Rightarrow> nat" where
  "low_water cfg = max (tc_high_water cfg div 2) 1"

definition adjust_pull :: "transform_config \<Rightarrow> transform_run \<Rightarrow> transform_run" where
  "adjust_pull cfg s =
     (if tr_pid s \<noteq> None \<and> \<not> tr_pull_finished s then
        (if tr_paused s \<and> backlog s \<le> low_water cfg then resume_pull cfg s
         else if \<not> tr_paused s \<and> tc_high_water cfg \<le> backlog s then pause_pull cfg s
         else s)
      else s)"

definition join_file :: "transform_config \<Rightarrow> pending_file \<Rightarrow> transform_run \<Rightarrow> transform_run" where
  "join_file cfg f s =
     (let r = tc_run_file cfg f in
      adjust_pull cfg (note_result cfg (fst f) r (take_sample cfg r (s\<lparr>tr_in_flight := remove1 f (tr_in_flight s)\<rparr>))))"

definition receive_copied :: "transform_config \<Rightarrow> string \<Rightarrow> transform_run \<Rightarrow> transform_run" where
  "receive_copied cfg rel s = (if tr_tripped s then s else note_enqueue cfg rel s)"

definition join_pull :: "transform_config \<Rightarrow> transform_run \<Rightarrow> transform_run" where
  "join_pull cfg s =
     (fold (receive_copied cfg) (tr_channel s) (s\<lparr>tr_pull_finished := True, tr_paused := False\<rparr>))
       \<lparr>tr_channel := [], tr_pull_result := Some (tc_pull_result cfg)\<rparr>"

definition can_dispatch :: "transform_config \<Rightarrow> transform_run \<Rightarrow> bool" where
  "can_dispatch cfg s \<longleftrightarrow> \<not> tr_tripped s \<and> length (tr_in_flight s) < max (tc_concurrency cfg) 1 \<and> tr_queue s \<noteq> []"

definition loop_done :: "transform_run \<Rightarrow> bool" where
  "loop_done s \<longleftrightarrow> tr_in_flight s = [] \<and> tr_pull_finished s \<and> (tr_queue s = [] \<or> tr_tripped s)"

text \<open>The loop fills the free slots first, then leaves if it can, then takes whichever event comes. The ticks of
  the progress line change nothing and are left out, as are the empty receives on the id channel once its
  sender is gone. The last two steps are the environment's: a running pull copies an object and reports it,
  and ends when it has nothing left to copy.\<close>

inductive transform_step :: "transform_config \<Rightarrow> transform_run \<Rightarrow> transform_run \<Rightarrow> bool" for cfg where
  dispatch: "can_dispatch cfg s \<Longrightarrow>
     transform_step cfg s (s\<lparr>tr_queue := tl (tr_queue s), tr_in_flight := tr_in_flight s @ [hd (tr_queue s)]\<rparr>)"
| receive_pid: "\<not> can_dispatch cfg s \<Longrightarrow> \<not> loop_done s \<Longrightarrow> tr_pid_channel s = Some pid \<Longrightarrow>
     transform_step cfg s (s\<lparr>tr_pid := Some pid, tr_pid_channel := None\<rparr>)"
| join_next: "\<not> can_dispatch cfg s \<Longrightarrow> f \<in> set (tr_in_flight s) \<Longrightarrow> transform_step cfg s (join_file cfg f s)"
| receive: "\<not> can_dispatch cfg s \<Longrightarrow> \<not> loop_done s \<Longrightarrow> \<not> tr_pull_finished s \<Longrightarrow> \<not> tr_rx_closed s \<Longrightarrow>
     tr_channel s = rel # rest \<Longrightarrow> transform_step cfg s (receive_copied cfg rel (s\<lparr>tr_channel := rest\<rparr>))"
| receive_closed: "\<not> can_dispatch cfg s \<Longrightarrow> \<not> loop_done s \<Longrightarrow> \<not> tr_pull_finished s \<Longrightarrow> \<not> tr_rx_closed s \<Longrightarrow>
     tr_channel s = [] \<Longrightarrow> tr_pull_ended s \<Longrightarrow> transform_step cfg s (s\<lparr>tr_rx_closed := True\<rparr>)"
| pull_joined: "\<not> can_dispatch cfg s \<Longrightarrow> \<not> tr_pull_finished s \<Longrightarrow> tr_pull_ended s \<Longrightarrow> transform_step cfg s (join_pull cfg s)"
| copied: "\<not> tr_stopped s \<Longrightarrow> tr_coming s = rel # rest \<Longrightarrow> \<not> tr_pull_ended s \<Longrightarrow>
     transform_step cfg s (s\<lparr>tr_coming := rest, tr_channel := tr_channel s @ [rel]\<rparr>)"
| pull_ends: "\<not> tr_stopped s \<Longrightarrow> tr_coming s = [] \<Longrightarrow> \<not> tr_pull_ended s \<Longrightarrow> transform_step cfg s (s\<lparr>tr_pull_ended := True\<rparr>)"

inductive_cases transform_stepE: "transform_step cfg s s'"

abbreviation transform_steps :: "transform_config \<Rightarrow> transform_run \<Rightarrow> transform_run \<Rightarrow> bool" where
  "transform_steps cfg \<equiv> (transform_step cfg)\<^sup>*\<^sup>*"

section \<open>Before the loop\<close>

definition blank_run :: transform_run where
  "blank_run = \<lparr>tr_queue = [], tr_dispatched = {}, tr_in_flight = [], tr_outcomes = [], tr_pushed = 0,
     tr_failures = no_transform_failures, tr_apple_double = 0, tr_lock_file = 0, tr_email_shaped = 0, tr_samples = 0,
     tr_matches = 0, tr_tripped = False, tr_example = None, tr_pid = None, tr_paused = False, tr_pull_finished = False,
     tr_rx_closed = False, tr_pull_result = None, tr_coming = [], tr_channel = [], tr_pid_channel = None,
     tr_stopped = False, tr_pull_ended = False\<rparr>"

text \<open>How one slot's own copy went: its result, and which of its keys are there as files.\<close>

record slot_pull =
  sp_keys :: "string list"
  sp_result :: "string + log_summary"
  sp_landed :: "string \<Rightarrow> bool"

definition add_summaries :: "log_summary \<Rightarrow> log_summary \<Rightarrow> log_summary" where
  "add_summaries a b = a\<lparr>ls_transferred := ls_transferred a + ls_transferred b, ls_errors := ls_errors a + ls_errors b,
     ls_bytes := ls_bytes a + ls_bytes b, ls_duplicate_notices := ls_duplicate_notices a + ls_duplicate_notices b\<rparr>"

definition slot_dir :: "string \<Rightarrow> nat \<Rightarrow> string" where
  "slot_dir case_variant_dir slot = path_join case_variant_dir (''slot'' @ dec slot)"

type_synonym variant_state = "transform_run \<times> (string \<rightharpoonup> string) \<times> log_summary"

definition note_variant :: "string \<Rightarrow> string option \<Rightarrow> (string \<Rightarrow> bool) \<Rightarrow> string \<Rightarrow> variant_state \<Rightarrow> variant_state" where
  "note_variant dir slot_error landed key = (\<lambda>(s, failures, summary).
     if landed key then
       (if key \<in> tr_dispatched s then (s, failures, summary)
        else (s\<lparr>tr_dispatched := insert key (tr_dispatched s), tr_queue := tr_queue s @ [(key, path_join dir key)]\<rparr>, failures, summary))
     else (case slot_error of Some err \<Rightarrow> (s, failures(key \<mapsto> err), summary) | None \<Rightarrow> (s, failures, summary)))"

definition note_slot :: "string \<Rightarrow> nat \<times> slot_pull \<Rightarrow> variant_state \<Rightarrow> variant_state" where
  "note_slot case_variant_dir = (\<lambda>(slot, sp) (s, failures, summary).
     let (slot_error, summary') = (case sp_result sp of
           Inr sm \<Rightarrow> (None, add_summaries summary sm)
         | Inl err \<Rightarrow> (Some err, summary)) in
     fold (note_variant (slot_dir case_variant_dir slot) slot_error (sp_landed sp)) (sp_keys sp) (s, failures, summary'))"

text \<open>The answers of the phase before the loop: the two listings, the files on disk, creating the directory and
  the disk space, writing the list for the bulk pull, what the pull will copy and its process id, and how each
  slot's copy goes.\<close>

record begin_env =
  be_existing :: "string list result"
  be_on_disk :: "string list list result"
  be_listing :: "string list result"
  be_mkdir :: "string + unit"
  be_free :: "nat option"
  be_files_from :: "string + unit"
  be_coming :: "string list"
  be_pid :: nat
  be_slot_result :: "nat \<Rightarrow> string + log_summary"
  be_landed :: "nat \<Rightarrow> string \<Rightarrow> bool"
  be_fold :: "string \<Rightarrow> string"

record transform_setup =
  ts_run :: transform_run
  ts_to_pull :: "string list"
  ts_already_done :: nat
  ts_collisions :: "string set"
  ts_variant_failures :: "string \<rightharpoonup> string"
  ts_variant_summary :: log_summary

definition start_pull :: "begin_env \<Rightarrow> string list \<Rightarrow> transform_run \<Rightarrow> transform_run" where
  "start_pull env bulk s = (if bulk = [] then s\<lparr>tr_pull_ended := True\<rparr>
     else s\<lparr>tr_coming := be_coming env, tr_pid_channel := Some (be_pid env)\<rparr>)"

definition begin_transform ::
  "begin_env \<Rightarrow> string \<Rightarrow> transform_config \<Rightarrow> (transform_config \<times> transform_setup) result" where
  "begin_transform env variant_dir cfg0 =
     bindE (be_existing env) (\<lambda>existing.
     let plan = tc_plan cfg0; cfg = cfg0\<lparr>tc_groups := index_names existing\<rparr> in
     bindE (gather_source (be_on_disk env) (tp_kind plan)) (\<lambda>on_disk.
     let s0 = fold (note_enqueue cfg) on_disk blank_run in
     bindE (be_listing env) (\<lambda>listing.
     let sel = files_needing_pull (be_fold env) (tp_hash plan) listing (tp_source_path plan) (tp_kind plan) (tc_groups cfg);
         (bulk, variants) = split_pull_set (sel_to_pull sel) (sel_case_collisions sel);
         s1 = s0\<lparr>tr_apple_double := tr_apple_double s0 + sel_apple_double sel, tr_lock_file := tr_lock_file s0 + sel_lock_file sel\<rparr> in
     bindE (if sel_to_pull sel = [] then Inr ()
            else (case be_mkdir env of
                Inl err \<Rightarrow> Inl (Err (''failed to create '' @ tc_source_dir cfg @ '': '' @ err))
              | Inr _ \<Rightarrow> check_disk_space (be_free env) 0)) (\<lambda>_.
     bindE (if bulk = [] then Inr () else map_sum Err id (be_files_from env)) (\<lambda>_.
     let slots = assign_case_variant_slots (be_fold env) variants;
         pulls = map (\<lambda>(i, keys). (i, \<lparr>sp_keys = keys, sp_result = be_slot_result env i, sp_landed = be_landed env i\<rparr>)) (enumerate 0 slots);
         (s2, failures, summary) = fold (note_slot variant_dir) pulls (start_pull env bulk s1, Map.empty, empty_summary) in
     Inr (if bulk = [] then cfg\<lparr>tc_pull_result := Inr empty_summary\<rparr> else cfg, \<lparr>ts_run = s2, ts_to_pull = sel_to_pull sel, ts_already_done = sel_already_done sel,
       ts_collisions = sel_case_collisions sel, ts_variant_failures = failures, ts_variant_summary = summary\<rparr>))))))"

section \<open>After the loop\<close>

definition undelivered_row :: "transform_setup \<Rightarrow> string \<Rightarrow> file_outcome" where
  "undelivered_row setup key = \<lparr>fo_key = key, fo_filenames = [], fo_outcome = FailedOutcome, fo_stage = Some PullStage,
     fo_detail = undelivered_detail key (ts_collisions setup) (ts_variant_failures setup)\<rparr>"

definition reconcile :: "transform_setup \<Rightarrow> transform_run \<Rightarrow> transform_run" where
  "reconcile setup s = fold (\<lambda>key s. if key \<in> tr_dispatched s then s
     else s\<lparr>tr_failures := record_failure PullStage (tr_failures s), tr_outcomes := tr_outcomes s @ [undelivered_row setup key]\<rparr>)
     (ts_to_pull setup) s"

record transform_summary =
  tsm_outcomes :: "file_outcome list"
  tsm_pulled :: nat
  tsm_pushed :: nat
  tsm_failed :: bool
  tsm_failures :: transform_failures
  tsm_already_done :: nat
  tsm_apple_double :: nat
  tsm_lock_file :: nat
  tsm_email_shaped :: nat
  tsm_pull_errors :: nat
  tsm_case_collision_groups :: "string list list"

definition breaker_message :: "string option \<Rightarrow> string" where
  "breaker_message example =
     ''transform circuit breaker tripped: at least '' @ dec CIRCUIT_BREAKER_TRIP_THRESHOLD @ '' of the first '' @
     dec CIRCUIT_BREAKER_SAMPLE_SIZE @ '' completed files failed transcoding with the same '' @
     ''deterministic error signature. That is a systemic problem, not isolated bad source '' @
     ''files, so the run is being aborted instead of grinding through every remaining file '' @
     ''with a guaranteed-identical failure. The usual causes: (1) the wrong '' @
     ''--input-file-type for what this source actually holds -- e.g. a mp4-audio run '' @
     ''pointed at real video, or vice versa (CLI-0143); a spreadsheet kind pointed at '' @
     ''something that is not a workbook (CLI-0149); or a document kind pointed at '' @
     ''something unreadable, which for `key` specifically means a file that is not an '' @
     ''iWork container at all, often a private key (CLI-0154); or (2) an '' @
     ''environment/capability gap, the converter on this job's host lacking support for '' @
     ''this input's format or a feature it uses -- `ffmpeg` for image/video/audio kinds, '' @
     ''`soffice` for numbers/doc/docx/pages/rtf/pptx/key, `ebook-convert` for epub, and '' @
     ''`pandoc` for md/rst; or (3) the converter itself crashing, which says '' @
     ''`converter crashed` and is not the files' fault (CLI-0158). The example error '' @
     ''below distinguishes them. '' @
     ''Example error: '' @ (case example of Some e \<Rightarrow> e | None \<Rightarrow> ''<no example captured>'')"

definition end_transform :: "(string \<Rightarrow> string) \<Rightarrow> transform_setup \<Rightarrow> transform_run \<Rightarrow> transform_summary result" where
  "end_transform local_fold setup s = (case tr_pull_result s of
     None \<Rightarrow> Inl Panic
   | Some (Inl err) \<Rightarrow> Inl (Err err)
   | Some (Inr pulled) \<Rightarrow>
       (let pull_summary = add_summaries pulled (ts_variant_summary setup) in
        if tr_tripped s then Inl (Err (breaker_message (tr_example s)))
        else (let s' = reconcile setup s in
          Inr \<lparr>tsm_outcomes = tr_outcomes s', tsm_pulled = ls_transferred pull_summary, tsm_pushed = tr_pushed s',
            tsm_failed = list_ex (\<lambda>row. fo_outcome row = FailedOutcome) (tr_outcomes s'), tsm_failures = tr_failures s',
            tsm_already_done = ts_already_done setup, tsm_apple_double = tr_apple_double s', tsm_lock_file = tr_lock_file s',
            tsm_email_shaped = tr_email_shaped s', tsm_pull_errors = ls_errors pull_summary,
            tsm_case_collision_groups = case_collision_groups local_fold (ts_collisions setup)\<rparr>)))"

definition transform_report_row :: "file_outcome \<Rightarrow> string" where
  "transform_report_row row = join [TAB] [fo_key row, outcome_name (fo_outcome row),
     (case fo_stage row of Some st \<Rightarrow> stage_name st | None \<Rightarrow> []), join '','' (fo_filenames row), fo_detail row] @ [NL]"

definition count_outcome :: "transform_outcome \<Rightarrow> file_outcome list \<Rightarrow> nat" where
  "count_outcome out rows = length (filter (\<lambda>row. fo_outcome row = out) rows)"

definition report_body :: "transform_summary \<Rightarrow> string" where
  "report_body sm = (let rows = tsm_outcomes sm; f = tsm_failures sm in
     join [TAB] [''source_relative_path'', ''outcome'', ''stage'', ''destination_filenames'', ''detail''] @ [NL] @
     concat (map transform_report_row rows) @
     [NL] @ dec (count_outcome Transcoded rows) @ '' transcoded, '' @ dec (count_outcome CopiedThrough rows) @
       '' copied through, '' @ dec (count_outcome FailedOutcome rows) @ '' failed; '' @ dec (tsm_pushed sm) @ '' output file(s) pushed.'' @ [NL] @
     ''failures by stage: '' @ dec (tf_pull f) @ '' pull, '' @ dec (tf_transcode f) @ '' transcode, '' @ dec (tf_place f) @
       '' place, '' @ dec (tf_push f) @ '' push.'' @ [NL] @
     ''skipped: '' @ dec (tsm_already_done sm) @ '' already done at the destination, '' @ dec (tsm_apple_double sm) @
       '' AppleDouble sidecar(s), '' @ dec (tsm_lock_file sm) @ '' Excel lock stub(s), '' @ dec (tsm_email_shaped sm) @
       '' email-shaped Markdown file(s).'' @ [NL] @
     ''pull: '' @ dec (tsm_pulled sm) @ '' transferred, '' @ dec (tsm_pull_errors sm) @ '' rclone error(s) reported.'' @ [NL] @
     (if tsm_case_collision_groups sm = [] then []
      else ''case-colliding source keys, each pulled separately ('' @ dec (length (tsm_case_collision_groups sm)) @ '' group(s)):'' @ [NL] @
        concat (map (\<lambda>g. ''  '' @ join '' | '' g @ [NL]) (tsm_case_collision_groups sm))))"

definition write_transform_report :: "string + unit \<Rightarrow> string \<Rightarrow> transform_summary \<Rightarrow> (string \<times> string) result" where
  "write_transform_report written local_output sm =
     (let p = path_join local_output ''transform-report.txt'' in
      case written of Inl err \<Rightarrow> Inl (Err (''failed to write '' @ p @ '': '' @ err)) | Inr _ \<Rightarrow> Inr (p, report_body sm))"

section \<open>Accounting\<close>

definition stage_count :: "failure_stage \<Rightarrow> file_outcome list \<Rightarrow> nat" where
  "stage_count stage rows = length (filter (\<lambda>row. fo_stage row = Some stage) rows)"

definition failures_counted :: "transform_failures \<Rightarrow> file_outcome list \<Rightarrow> bool" where
  "failures_counted f rows \<longleftrightarrow> tf_pull f = stage_count PullStage rows \<and> tf_transcode f = stage_count TranscodeStage rows \<and>
     tf_place f = stage_count PlaceStage rows \<and> tf_push f = stage_count PushStage rows"

text \<open>What a row may look like: a stage exactly on failures, outputs only on successes.\<close>

definition row_ok :: "file_outcome \<Rightarrow> bool" where
  "row_ok row \<longleftrightarrow> (fo_stage row = None \<longleftrightarrow> fo_outcome row \<noteq> FailedOutcome) \<and>
     (fo_filenames row = [] \<or> fo_outcome row \<in> {Transcoded, CopiedThrough}) \<and>
     (fo_outcome row = SkippedEmailShaped \<longrightarrow> starts_with ''email-shaped: '' (fo_detail row)) \<and>
     (fo_outcome row \<in> {Transcoded, CopiedThrough} \<longrightarrow> fo_detail row = [])"

definition accounts :: "transform_config \<Rightarrow> transform_run \<Rightarrow> bool" where
  "accounts cfg s \<longleftrightarrow> finite (tr_dispatched s) \<and>
     mset (map fst (tr_queue s)) + mset (map fst (tr_in_flight s)) + mset (map fo_key (tr_outcomes s)) = mset_set (tr_dispatched s) \<and>
     tr_pushed s = sum_list (map (length \<circ> fo_filenames) (tr_outcomes s)) \<and>
     failures_counted (tr_failures s) (tr_outcomes s) \<and>
     tr_email_shaped s = count_outcome SkippedEmailShaped (tr_outcomes s) \<and>
     (\<forall>row \<in> set (tr_outcomes s). \<exists>p. row = outcome_row cfg (fo_key row) (tc_run_file cfg (fo_key row, p)))"

text \<open>The part of a run the accounts speak of.\<close>

abbreviation same_books :: "transform_run \<Rightarrow> transform_run \<Rightarrow> bool" where
  "same_books s t \<equiv> tr_queue s = tr_queue t \<and> tr_in_flight s = tr_in_flight t \<and> tr_outcomes s = tr_outcomes t \<and>
     tr_dispatched s = tr_dispatched t \<and> tr_pushed s = tr_pushed t \<and> tr_failures s = tr_failures t \<and>
     tr_email_shaped s = tr_email_shaped t"

lemma accounts_cong: "same_books s t \<Longrightarrow> accounts cfg s = accounts cfg t"
  by (simp add: accounts_def)

lemma sample_books [simp]: "same_books (take_sample cfg r s) s"
  by (auto simp: take_sample_def resume_pull_def Let_def split: sum.splits processed.splits failure_stage.splits)

lemma adjust_books [simp]: "same_books (adjust_pull cfg s) s"
  by (auto simp: adjust_pull_def resume_pull_def pause_pull_def)

lemma row_fields [simp]: "fo_key (outcome_row cfg key r) = key"
  by (auto simp: outcome_row_def split: sum.splits processed.splits)

lemma row_is_ok: "row_ok (outcome_row cfg key r)"
  by (auto simp: outcome_row_def row_ok_def outcome_for_def starts_with_iff split: sum.splits processed.splits)

lemma note_enqueue_accounts: "accounts cfg s \<Longrightarrow> accounts cfg (note_enqueue cfg rel s)"
  by (auto simp: note_enqueue_def enqueue_def accounts_def Let_def)

lemma note_enqueue_fields [simp]:
  "tr_in_flight (note_enqueue cfg rel s) = tr_in_flight s" "tr_outcomes (note_enqueue cfg rel s) = tr_outcomes s"
  "tr_tripped (note_enqueue cfg rel s) = tr_tripped s" "tr_paused (note_enqueue cfg rel s) = tr_paused s"
  "tr_pid (note_enqueue cfg rel s) = tr_pid s" "tr_pull_finished (note_enqueue cfg rel s) = tr_pull_finished s"
  "tr_stopped (note_enqueue cfg rel s) = tr_stopped s" "tr_pull_ended (note_enqueue cfg rel s) = tr_pull_ended s"
  "tr_coming (note_enqueue cfg rel s) = tr_coming s" "tr_channel (note_enqueue cfg rel s) = tr_channel s"
  "tr_pid_channel (note_enqueue cfg rel s) = tr_pid_channel s" "tr_rx_closed (note_enqueue cfg rel s) = tr_rx_closed s"
  "tr_samples (note_enqueue cfg rel s) = tr_samples s" "tr_matches (note_enqueue cfg rel s) = tr_matches s"
  by (simp_all add: note_enqueue_def enqueue_def Let_def)

lemma note_enqueue_queue:
  "length (tr_queue s) \<le> length (tr_queue (note_enqueue cfg rel s))"
  "length (tr_queue (note_enqueue cfg rel s)) \<le> Suc (length (tr_queue s))"
  by (simp_all add: note_enqueue_def enqueue_def Let_def)

lemma receive_fields [simp]:
  "tr_in_flight (receive_copied cfg rel s) = tr_in_flight s" "tr_outcomes (receive_copied cfg rel s) = tr_outcomes s"
  "tr_tripped (receive_copied cfg rel s) = tr_tripped s" "tr_paused (receive_copied cfg rel s) = tr_paused s"
  "tr_pid (receive_copied cfg rel s) = tr_pid s" "tr_pull_finished (receive_copied cfg rel s) = tr_pull_finished s"
  "tr_stopped (receive_copied cfg rel s) = tr_stopped s" "tr_pull_ended (receive_copied cfg rel s) = tr_pull_ended s"
  "tr_coming (receive_copied cfg rel s) = tr_coming s" "tr_channel (receive_copied cfg rel s) = tr_channel s"
  "tr_pid_channel (receive_copied cfg rel s) = tr_pid_channel s" "tr_rx_closed (receive_copied cfg rel s) = tr_rx_closed s"
  by (simp_all add: receive_copied_def)

lemma receive_queue:
  "length (tr_queue s) \<le> length (tr_queue (receive_copied cfg rel s))"
  "length (tr_queue (receive_copied cfg rel s)) \<le> Suc (length (tr_queue s))"
  using note_enqueue_queue by (simp_all add: receive_copied_def)

lemma fold_receive:
  "accounts cfg s \<Longrightarrow> accounts cfg (fold (receive_copied cfg) ks s)"
  "tr_in_flight (fold (receive_copied cfg) ks s) = tr_in_flight s"
  "tr_tripped (fold (receive_copied cfg) ks s) = tr_tripped s"
  "tr_paused (fold (receive_copied cfg) ks s) = tr_paused s"
  "tr_pull_finished (fold (receive_copied cfg) ks s) = tr_pull_finished s"
  "tr_stopped (fold (receive_copied cfg) ks s) = tr_stopped s"
  "tr_pull_ended (fold (receive_copied cfg) ks s) = tr_pull_ended s"
  "tr_coming (fold (receive_copied cfg) ks s) = tr_coming s"
  "tr_pid_channel (fold (receive_copied cfg) ks s) = tr_pid_channel s"
  "tr_rx_closed (fold (receive_copied cfg) ks s) = tr_rx_closed s"
  "length (tr_queue (fold (receive_copied cfg) ks s)) \<le> length (tr_queue s) + length ks"
proof -
  show "accounts cfg s \<Longrightarrow> accounts cfg (fold (receive_copied cfg) ks s)"
    by (induction ks arbitrary: s) (simp_all add: receive_copied_def note_enqueue_accounts)
  show "length (tr_queue (fold (receive_copied cfg) ks s)) \<le> length (tr_queue s) + length ks"
  proof (induction ks arbitrary: s)
    case (Cons k ks)
    then show ?case using receive_queue(2) [of cfg k s] by (simp add: order_trans [OF Cons.IH])
  qed simp
qed (induction ks arbitrary: s; simp)+

lemma stage_count_snoc: "stage_count st (rows @ [row]) = stage_count st rows + (if fo_stage row = Some st then 1 else 0)"
  by (simp add: stage_count_def)

lemma note_result_accounts:
  assumes "accounts cfg s" and "f \<in> set (tr_in_flight s)"
    and "s' = s\<lparr>tr_in_flight := remove1 f (tr_in_flight s)\<rparr>" and "same_books t s'"
  shows "accounts cfg (note_result cfg (fst f) (tc_run_file cfg f) t)"
proof -
  have m: "mset (map fst (tr_in_flight s)) = add_mset (fst f) (mset (map fst (remove1 f (tr_in_flight s))))"
    using assms(2) by (metis image_mset_add_mset insert_DiffM mset_map mset_remove1 set_mset_mset)
  let ?row = "outcome_row cfg (fst f) (tc_run_file cfg f)"
  let ?t = "note_result cfg (fst f) (tc_run_file cfg f) t"
  have t: "tr_queue t = tr_queue s" "tr_in_flight t = remove1 f (tr_in_flight s)" "tr_outcomes t = tr_outcomes s"
    "tr_dispatched t = tr_dispatched s" "tr_pushed t = tr_pushed s" "tr_failures t = tr_failures s"
    "tr_email_shaped t = tr_email_shaped s"
    using assms(3,4) by simp_all
  have fields: "tr_queue ?t = tr_queue s" "tr_in_flight ?t = remove1 f (tr_in_flight s)"
    "tr_dispatched ?t = tr_dispatched s" "tr_outcomes ?t = tr_outcomes s @ [?row]"
    using t by (auto simp: note_result_def Let_def split: sum.splits processed.splits)
  have pushed: "tr_pushed ?t = tr_pushed s + length (fo_filenames ?row)"
    and email: "tr_email_shaped ?t = tr_email_shaped s + (if fo_outcome ?row = SkippedEmailShaped then 1 else 0)"
    and fails: "tr_failures ?t = (case fo_stage ?row of None \<Rightarrow> tr_failures s | Some st \<Rightarrow> record_failure st (tr_failures s))"
    using t by (auto simp: note_result_def outcome_row_def outcome_for_def Let_def split: sum.splits processed.splits)
  have old: "finite (tr_dispatched s)"
    "mset (map fst (tr_queue s)) + mset (map fst (tr_in_flight s)) + mset (map fo_key (tr_outcomes s)) = mset_set (tr_dispatched s)"
    "tr_pushed s = sum_list (map (length \<circ> fo_filenames) (tr_outcomes s))" "failures_counted (tr_failures s) (tr_outcomes s)"
    "tr_email_shaped s = count_outcome SkippedEmailShaped (tr_outcomes s)"
    "\<forall>row \<in> set (tr_outcomes s). \<exists>p. row = outcome_row cfg (fo_key row) (tc_run_file cfg (fo_key row, p))"
    using assms(1) by (simp_all add: accounts_def)
  have keys: "mset (map fst (tr_queue ?t)) + mset (map fst (tr_in_flight ?t)) + mset (map fo_key (tr_outcomes ?t)) = mset_set (tr_dispatched ?t)"
    using old(2) m unfolding fields by simp
  have count: "failures_counted (tr_failures ?t) (tr_outcomes s @ [?row])"
  proof (cases "fo_stage ?row")
    case None
    then show ?thesis using fails old(4) by (simp add: failures_counted_def stage_count_snoc)
  next
    case (Some st)
    then show ?thesis using fails old(4)
      by (cases st) (simp_all add: failures_counted_def stage_count_snoc record_failure_def)
  qed
  have mail: "tr_email_shaped ?t = count_outcome SkippedEmailShaped (tr_outcomes s @ [?row])"
    using email old(5) by (simp add: count_outcome_def)
  have row: "\<exists>p. ?row = outcome_row cfg (fo_key ?row) (tc_run_file cfg (fo_key ?row, p))"
    by (intro exI [of _ "snd f"]) simp
  show ?thesis
    unfolding accounts_def using keys count mail row old(1,3,6) pushed unfolding fields by simp
qed

lemma step_accounts: "transform_step cfg s s' \<Longrightarrow> accounts cfg s \<Longrightarrow> accounts cfg s'"
proof (induction rule: transform_step.induct)
  case (dispatch s)
  then obtain f q where q: "tr_queue s = f # q" by (cases "tr_queue s") (auto simp: can_dispatch_def)
  then show ?case using dispatch.prems by (simp add: accounts_def)
next
  case (join_next s f)
  let ?s = "s\<lparr>tr_in_flight := remove1 f (tr_in_flight s)\<rparr>"
  have "accounts cfg (note_result cfg (fst f) (tc_run_file cfg f) (take_sample cfg (tc_run_file cfg f) ?s))"
    by (rule note_result_accounts [OF join_next.prems join_next.hyps(2) refl]) (rule sample_books)
  then show ?case unfolding join_file_def Let_def by (subst accounts_cong [OF adjust_books])
next
  case (receive s rel rest)
  then show ?case
    using note_enqueue_accounts [of cfg "s\<lparr>tr_channel := rest\<rparr>"] by (auto simp: receive_copied_def accounts_def)
next
  case (pull_joined s)
  have "accounts cfg (s\<lparr>tr_pull_finished := True, tr_paused := False\<rparr>)" using pull_joined.prems by (simp add: accounts_def)
  from fold_receive(1) [OF this, of "tr_channel s"] show ?case by (simp add: join_pull_def accounts_def)
qed (simp_all add: accounts_def)

section \<open>Progress\<close>

text \<open>While the breaker has not tripped, a paused pull always has work behind it, so a file in flight will resume
  it; and only a paused pull is stopped.\<close>

definition pull_ok :: "transform_config \<Rightarrow> transform_run \<Rightarrow> bool" where
  "pull_ok cfg s \<longleftrightarrow> (tr_paused s \<longrightarrow> tr_pid s \<noteq> None) \<and>
     (\<not> tr_tripped s \<and> tr_paused s \<longrightarrow> min (Suc (low_water cfg)) (tc_high_water cfg) \<le> backlog s) \<and>
     (tr_stopped s \<longrightarrow> tr_paused s \<or> tr_pull_finished s) \<and> (tr_pull_finished s \<longrightarrow> tr_pull_ended s \<and> \<not> tr_paused s)"

lemma take_sample_fields [simp]:
  "tr_pid (take_sample cfg r s) = tr_pid s" "tr_pull_finished (take_sample cfg r s) = tr_pull_finished s"
  "tr_pull_ended (take_sample cfg r s) = tr_pull_ended s" "tr_coming (take_sample cfg r s) = tr_coming s"
  "tr_channel (take_sample cfg r s) = tr_channel s" "tr_pid_channel (take_sample cfg r s) = tr_pid_channel s"
  "tr_rx_closed (take_sample cfg r s) = tr_rx_closed s"
  by (auto simp: take_sample_def resume_pull_def Let_def split: sum.splits processed.splits failure_stage.splits)

lemma take_sample_pull:
  "(tr_paused (take_sample cfg r s) = tr_paused s \<and> tr_stopped (take_sample cfg r s) = tr_stopped s) \<or>
   (tr_tripped (take_sample cfg r s) \<and> tr_paused s \<and> \<not> tr_paused (take_sample cfg r s) \<and>
     tr_stopped (take_sample cfg r s) = (if tc_cont_ok cfg then False else tr_stopped s))"
  "\<not> tr_tripped (take_sample cfg r s) \<Longrightarrow> \<not> tr_tripped s"
  by (auto simp: take_sample_def resume_pull_def Let_def split: sum.splits processed.splits failure_stage.splits)

lemma note_result_fields [simp]:
  "tr_pid (note_result cfg key r s) = tr_pid s" "tr_pull_finished (note_result cfg key r s) = tr_pull_finished s"
  "tr_pull_ended (note_result cfg key r s) = tr_pull_ended s" "tr_coming (note_result cfg key r s) = tr_coming s"
  "tr_channel (note_result cfg key r s) = tr_channel s" "tr_pid_channel (note_result cfg key r s) = tr_pid_channel s"
  "tr_rx_closed (note_result cfg key r s) = tr_rx_closed s" "tr_paused (note_result cfg key r s) = tr_paused s"
  "tr_stopped (note_result cfg key r s) = tr_stopped s" "tr_tripped (note_result cfg key r s) = tr_tripped s"
  "tr_queue (note_result cfg key r s) = tr_queue s" "tr_in_flight (note_result cfg key r s) = tr_in_flight s"
  "tr_samples (note_result cfg key r s) = tr_samples s" "tr_matches (note_result cfg key r s) = tr_matches s"
  by (auto simp: note_result_def Let_def split: sum.splits processed.splits)

lemma adjust_fields [simp]:
  "tr_pid (adjust_pull cfg s) = tr_pid s" "tr_pull_finished (adjust_pull cfg s) = tr_pull_finished s"
  "tr_pull_ended (adjust_pull cfg s) = tr_pull_ended s" "tr_coming (adjust_pull cfg s) = tr_coming s"
  "tr_channel (adjust_pull cfg s) = tr_channel s" "tr_pid_channel (adjust_pull cfg s) = tr_pid_channel s"
  "tr_rx_closed (adjust_pull cfg s) = tr_rx_closed s" "tr_tripped (adjust_pull cfg s) = tr_tripped s"
  by (auto simp: adjust_pull_def resume_pull_def pause_pull_def)

text \<open>After the adjustment the pull is paused only above the low mark or at the high one.\<close>

lemma adjust_pull_ok:
  assumes "tc_cont_ok cfg" and "tr_paused s \<longrightarrow> tr_pid s \<noteq> None" and "tr_stopped s \<longrightarrow> tr_paused s \<or> tr_pull_finished s"
    and "tr_pull_finished s \<longrightarrow> tr_pull_ended s \<and> \<not> tr_paused s"
  shows "pull_ok cfg (adjust_pull cfg s)"
  using assms by (auto simp: pull_ok_def adjust_pull_def resume_pull_def pause_pull_def backlog_def)

lemma join_file_fields [simp]:
  "tr_coming (join_file cfg f s) = tr_coming s" "tr_channel (join_file cfg f s) = tr_channel s"
  "tr_pid_channel (join_file cfg f s) = tr_pid_channel s" "tr_rx_closed (join_file cfg f s) = tr_rx_closed s"
  "tr_pull_finished (join_file cfg f s) = tr_pull_finished s" "tr_pull_ended (join_file cfg f s) = tr_pull_ended s"
  "tr_pid (join_file cfg f s) = tr_pid s" "tr_queue (join_file cfg f s) = tr_queue s"
  "tr_in_flight (join_file cfg f s) = remove1 f (tr_in_flight s)"
  by (simp_all add: join_file_def Let_def)

lemma step_pull_ok:
  assumes "transform_step cfg s s'" and "pull_ok cfg s" and "tc_cont_ok cfg"
  shows "pull_ok cfg s'"
  using assms(1,2)
proof (induction rule: transform_step.induct)
  case (dispatch s)
  then show ?case by (cases "tr_queue s") (auto simp: pull_ok_def backlog_def can_dispatch_def)
next
  case (join_next s f)
  let ?r = "tc_run_file cfg f"
  let ?t = "take_sample cfg ?r (s\<lparr>tr_in_flight := remove1 f (tr_in_flight s)\<rparr>)"
  note t = take_sample_pull(1) [of cfg ?r "s\<lparr>tr_in_flight := remove1 f (tr_in_flight s)\<rparr>"]
  have "tr_paused ?t \<longrightarrow> tr_pid ?t \<noteq> None" "tr_stopped ?t \<longrightarrow> tr_paused ?t \<or> tr_pull_finished ?t"
    "tr_pull_finished ?t \<longrightarrow> tr_pull_ended ?t \<and> \<not> tr_paused ?t"
    using t join_next.prems assms(3) by (auto simp: pull_ok_def)
  then show ?case
    unfolding join_file_def Let_def using assms(3) by (intro adjust_pull_ok) simp_all
next
  case (receive s rel rest)
  have "backlog s \<le> backlog (receive_copied cfg rel (s\<lparr>tr_channel := rest\<rparr>))"
    using receive_queue(1) [of "s\<lparr>tr_channel := rest\<rparr>"] by (simp add: backlog_def)
  then show ?case using receive.prems by (auto simp: pull_ok_def)
next
  case (pull_joined s)
  then show ?case by (simp add: pull_ok_def join_pull_def fold_receive)
qed (auto simp: pull_ok_def backlog_def)

definition remaining :: "transform_run \<Rightarrow> nat" where
  "remaining s = 5 * length (tr_coming s) + 4 * length (tr_channel s) + 2 * length (tr_queue s) + length (tr_in_flight s) +
     (if tr_pid_channel s = None then 0 else 1) + (if tr_pull_ended s then 0 else 1) + (if tr_rx_closed s then 0 else 1) +
     (if tr_pull_finished s then 0 else 1)"

lemma step_remaining: "transform_step cfg s s' \<Longrightarrow> remaining s' < remaining s"
proof (induction rule: transform_step.induct)
  case (dispatch s)
  then show ?case by (cases "tr_queue s") (simp_all add: remaining_def can_dispatch_def)
next
  case (join_next s f)
  then have "length (tr_in_flight s) = Suc (length (remove1 f (tr_in_flight s)))"
    by (metis One_nat_def Suc_pred length_pos_if_in_set length_remove1)
  then show ?case by (simp add: remaining_def)
next
  case (receive s rel rest)
  then show ?case using receive_queue(2) [of cfg rel "s\<lparr>tr_channel := rest\<rparr>"] by (simp add: remaining_def)
next
  case (pull_joined s)
  then show ?case
    using fold_receive(11) [of cfg "tr_channel s" "s\<lparr>tr_pull_finished := True, tr_paused := False\<rparr>"]
    by (simp add: remaining_def join_pull_def fold_receive)
qed (simp_all add: remaining_def)

lemma step_or_end:
  assumes "pull_ok cfg s" and "1 \<le> tc_high_water cfg" and "\<not> tr_tripped s"
  shows "loop_done s \<or> (\<exists>s'. transform_step cfg s s')"
proof (cases "can_dispatch cfg s \<or> tr_in_flight s \<noteq> []")
  case True
  then show ?thesis
  proof (cases "can_dispatch cfg s")
    case False
    then have "hd (tr_in_flight s) \<in> set (tr_in_flight s)" using True by simp
    then show ?thesis using transform_step.join_next [OF False] by blast
  qed (blast intro: transform_step.dispatch)
next
  case False
  then have idle: "tr_queue s = []" "tr_in_flight s = []" using assms(3) by (auto simp: can_dispatch_def)
  then have "\<not> tr_paused s" using assms by (auto simp: pull_ok_def backlog_def low_water_def)
  show ?thesis
  proof (cases "tr_pull_finished s")
    case True
    then show ?thesis using idle by (simp add: loop_done_def)
  next
    case running: False
    then have go: "\<not> tr_stopped s" using assms(1) \<open>\<not> tr_paused s\<close> by (auto simp: pull_ok_def)
    show ?thesis
    proof (cases "tr_pull_ended s")
      case True
      then show ?thesis using transform_step.pull_joined [of cfg s] running False by blast
    next
      case False
      then show ?thesis
        using transform_step.pull_ends [OF go _ False, of cfg] transform_step.copied [OF go _ False, of _ _ cfg]
        by (cases "tr_coming s") blast+
    qed
  qed
qed

section \<open>The start and the end\<close>

lemma fold_note_enqueue:
  "accounts cfg s \<Longrightarrow> accounts cfg (fold (note_enqueue cfg) ks s)"
  "pull_ok cfg s \<Longrightarrow> \<not> tr_paused s \<Longrightarrow> pull_ok cfg (fold (note_enqueue cfg) ks s) \<and> \<not> tr_paused (fold (note_enqueue cfg) ks s)"
  "tr_tripped (fold (note_enqueue cfg) ks s) = tr_tripped s" "tr_in_flight (fold (note_enqueue cfg) ks s) = tr_in_flight s"
proof -
  show "accounts cfg s \<Longrightarrow> accounts cfg (fold (note_enqueue cfg) ks s)"
    by (induction ks arbitrary: s) (simp_all add: note_enqueue_accounts)
  show "pull_ok cfg s \<Longrightarrow> \<not> tr_paused s \<Longrightarrow> pull_ok cfg (fold (note_enqueue cfg) ks s) \<and> \<not> tr_paused (fold (note_enqueue cfg) ks s)"
  proof (induction ks arbitrary: s)
    case (Cons k ks)
    have "pull_ok cfg (note_enqueue cfg k s)" using Cons.prems by (simp add: pull_ok_def)
    then show ?case using Cons by simp
  qed simp
qed (induction ks arbitrary: s; simp)+

definition start_ok :: "transform_config \<Rightarrow> transform_run \<Rightarrow> bool" where
  "start_ok cfg s \<longleftrightarrow> accounts cfg s \<and> pull_ok cfg s \<and> \<not> tr_paused s \<and> \<not> tr_tripped s \<and> tr_in_flight s = [] \<and> tr_outcomes s = []"

lemma note_variant_ok: "start_ok cfg (fst st) \<Longrightarrow> start_ok cfg (fst (note_variant dir e landed key st))"
  by (cases st) (auto simp: note_variant_def start_ok_def accounts_def pull_ok_def backlog_def split: option.splits)

lemma note_slot_ok: "start_ok cfg (fst st) \<Longrightarrow> start_ok cfg (fst (note_slot vd p st))"
proof -
  have "start_ok cfg (fst st) \<Longrightarrow> start_ok cfg (fst (fold (note_variant dir e landed) ks st))" for dir e landed ks st
    by (induction ks arbitrary: st) (simp_all add: note_variant_ok)
  then show "start_ok cfg (fst st) \<Longrightarrow> start_ok cfg (fst (note_slot vd p st))"
    by (cases st; cases p) (simp add: note_slot_def split: sum.splits)
qed

lemma begin_transform_ok:
  assumes "begin_transform env vd cfg0 = Inr (cfg, setup)"
  shows "start_ok cfg (ts_run setup)" and "tc_high_water cfg = tc_high_water cfg0" and "tc_cont_ok cfg = tc_cont_ok cfg0"
    and "tc_run_file cfg = tc_run_file cfg0" and "tc_plan cfg = tc_plan cfg0"
    and "\<exists>listing. be_listing env = Inr listing \<and> ts_to_pull setup = filter (wanted (plan_group (tc_plan cfg)) (tc_groups cfg)) listing"
proof -
  obtain existing on_disk listing where e: "be_existing env = Inr existing" "be_listing env = Inr listing"
      "gather_source (be_on_disk env) (tp_kind (tc_plan cfg0)) = Inr on_disk"
    using assms by (auto simp: begin_transform_def bindE_Inr_iff Let_def)
  define cfg1 where "cfg1 = cfg0\<lparr>tc_groups := index_names existing\<rparr>"
  define sel where "sel = files_needing_pull (be_fold env) (tp_hash (tc_plan cfg0)) listing (tp_source_path (tc_plan cfg0))
      (tp_kind (tc_plan cfg0)) (index_names existing)"
  obtain bulk variants where split: "split_pull_set (sel_to_pull sel) (sel_case_collisions sel) = (bulk, variants)" by fastforce
  define s0 where "s0 = fold (note_enqueue cfg1) on_disk blank_run"
  define s1 where "s1 = s0\<lparr>tr_apple_double := tr_apple_double s0 + sel_apple_double sel, tr_lock_file := tr_lock_file s0 + sel_lock_file sel\<rparr>"
  define pulls where "pulls = map (\<lambda>(i, keys). (i, \<lparr>sp_keys = keys, sp_result = be_slot_result env i, sp_landed = be_landed env i\<rparr>))
      (enumerate 0 (assign_case_variant_slots (be_fold env) variants))"
  obtain s2 failures summary where f: "fold (note_slot vd) pulls (start_pull env bulk s1, Map.empty, empty_summary) = (s2, failures, summary)"
    by (metis prod_cases3)
  have r: "cfg = (if bulk = [] then cfg1\<lparr>tc_pull_result := Inr empty_summary\<rparr> else cfg1)" "ts_run setup = s2"
      "ts_to_pull setup = sel_to_pull sel"
    using assms e split f unfolding begin_transform_def cfg1_def [symmetric] sel_def s1_def s0_def pulls_def
    by (auto simp: bindE_Inr_iff Let_def cfg1_def split: if_splits)
  show "tc_high_water cfg = tc_high_water cfg0" "tc_cont_ok cfg = tc_cont_ok cfg0" "tc_run_file cfg = tc_run_file cfg0" "tc_plan cfg = tc_plan cfg0"
    using r(1) by (simp_all add: cfg1_def)
  show "\<exists>listing. be_listing env = Inr listing \<and> ts_to_pull setup = filter (wanted (plan_group (tc_plan cfg)) (tc_groups cfg)) listing"
    using e r by (simp add: cfg1_def sel_def files_needing_pull_fields)
  have c: "start_ok cfg1 s \<Longrightarrow> start_ok cfg s" for s using r(1) by (auto simp: start_ok_def accounts_def pull_ok_def low_water_def outcome_row_def)
  have blank: "accounts cfg1 blank_run" "pull_ok cfg1 blank_run"
    by (simp_all add: accounts_def pull_ok_def blank_run_def failures_counted_def no_transform_failures_def stage_count_def count_outcome_def)
  have outs: "tr_outcomes (fold (note_enqueue cfg1) ks s) = tr_outcomes s" for ks s by (induction ks arbitrary: s) simp_all
  have "start_ok cfg1 s0"
    using fold_note_enqueue [where cfg = cfg1 and s = blank_run and ks = on_disk] blank outs [of on_disk blank_run]
    by (simp add: start_ok_def s0_def) (simp add: blank_run_def)
  then have "start_ok cfg1 (start_pull env bulk s1)"
    by (auto simp: start_ok_def accounts_def pull_ok_def start_pull_def s1_def backlog_def)
  moreover have "start_ok cfg1 (fst st) \<Longrightarrow> start_ok cfg1 (fst (fold (note_slot vd) ps st))" for ps st
    by (induction ps arbitrary: st) (simp_all add: note_slot_ok)
  ultimately have "start_ok cfg1 s2" using f by (metis fst_conv)
  then show "start_ok cfg (ts_run setup)" using c r(2) by simp
qed

lemma steps_ok:
  assumes "transform_steps cfg s s'"
  shows "accounts cfg s \<Longrightarrow> accounts cfg s'" and "pull_ok cfg s \<Longrightarrow> tc_cont_ok cfg \<Longrightarrow> pull_ok cfg s'"
proof -
  show "accounts cfg s \<Longrightarrow> accounts cfg s'" using assms by (induction rule: rtranclp_induct) (auto dest: step_accounts)
  show "pull_ok cfg s \<Longrightarrow> tc_cont_ok cfg \<Longrightarrow> pull_ok cfg s'" using assms by (induction rule: rtranclp_induct) (auto dest: step_pull_ok)
qed

lemma reconcile_fields:
  "tr_outcomes (reconcile setup s) = tr_outcomes s @ map (undelivered_row setup) (filter (\<lambda>k. k \<notin> tr_dispatched s) (ts_to_pull setup))"
  "tr_pushed (reconcile setup s) = tr_pushed s" "tr_email_shaped (reconcile setup s) = tr_email_shaped s"
  "failures_counted (tr_failures s) (tr_outcomes s) \<Longrightarrow> failures_counted (tr_failures (reconcile setup s)) (tr_outcomes (reconcile setup s))"
proof -
  define f :: "string \<Rightarrow> transform_run \<Rightarrow> transform_run" where "f = (\<lambda>key s. if key \<in> tr_dispatched s then s
     else s\<lparr>tr_failures := record_failure PullStage (tr_failures s), tr_outcomes := tr_outcomes s @ [undelivered_row setup key]\<rparr>)"
  have "tr_outcomes (fold f ks s) = tr_outcomes s @ map (undelivered_row setup) (filter (\<lambda>k. k \<notin> tr_dispatched s) ks) \<and>
      tr_pushed (fold f ks s) = tr_pushed s \<and> tr_email_shaped (fold f ks s) = tr_email_shaped s \<and>
      (failures_counted (tr_failures s) (tr_outcomes s) \<longrightarrow> failures_counted (tr_failures (fold f ks s)) (tr_outcomes (fold f ks s)))" for ks s
  proof (induction ks arbitrary: s)
    case (Cons k ks)
    have f: "tr_dispatched (f k s) = tr_dispatched s" "tr_pushed (f k s) = tr_pushed s" "tr_email_shaped (f k s) = tr_email_shaped s"
      "tr_outcomes (f k s) = tr_outcomes s @ (if k \<in> tr_dispatched s then [] else [undelivered_row setup k])"
      and count: "failures_counted (tr_failures s) (tr_outcomes s) \<Longrightarrow> failures_counted (tr_failures (f k s)) (tr_outcomes (f k s))"
      by (simp_all add: f_def failures_counted_def stage_count_snoc record_failure_def undelivered_row_def)
    note IH = Cons.IH [of "f k s"]
    have "tr_outcomes (fold f (k # ks) s) = tr_outcomes s @ map (undelivered_row setup) (filter (\<lambda>k. k \<notin> tr_dispatched s) (k # ks)) \<and>
      tr_pushed (fold f (k # ks) s) = tr_pushed s \<and> tr_email_shaped (fold f (k # ks) s) = tr_email_shaped s"
      using IH by (simp add: f)
    moreover have "failures_counted (tr_failures (fold f (k # ks) s)) (tr_outcomes (fold f (k # ks) s))"
      if "failures_counted (tr_failures s) (tr_outcomes s)"
      unfolding fold_simps comp_apply by (rule IH [THEN conjunct2, THEN conjunct2, THEN conjunct2, rule_format, OF count [OF that]])
    ultimately show ?case by blast
  qed simp
  note folded = this
  have "reconcile setup s = fold f (ts_to_pull setup) s" by (simp add: reconcile_def f_def)
  note all = folded [where s = s and ks = "ts_to_pull setup", folded this]
  show "tr_outcomes (reconcile setup s) = tr_outcomes s @ map (undelivered_row setup) (filter (\<lambda>k. k \<notin> tr_dispatched s) (ts_to_pull setup))"
    "tr_pushed (reconcile setup s) = tr_pushed s" "tr_email_shaped (reconcile setup s) = tr_email_shaped s"
    using all by blast+
  show "failures_counted (tr_failures s) (tr_outcomes s) \<Longrightarrow> failures_counted (tr_failures (reconcile setup s)) (tr_outcomes (reconcile setup s))"
    using all by blast
qed

lemma end_transform_summary:
  assumes "end_transform local_fold setup s = Inr sm"
  shows "\<not> tr_tripped s" and "tsm_outcomes sm = tr_outcomes (reconcile setup s)" and "tsm_pushed sm = tr_pushed s"
    and "tsm_failures sm = tr_failures (reconcile setup s)" and "tsm_email_shaped sm = tr_email_shaped s"
    and "tsm_failed sm \<longleftrightarrow> (\<exists>row \<in> set (tsm_outcomes sm). fo_outcome row = FailedOutcome)"
  using assms by (auto simp: end_transform_def Let_def reconcile_fields(2,3) list_ex_iff split: option.splits sum.splits if_splits)

lemma undelivered_ok: "row_ok (undelivered_row setup key)"
  by (simp add: undelivered_row_def row_ok_def)

lemma all_rows_ok:
  assumes "accounts cfg s" and "end_transform local_fold setup s = Inr sm" and "row \<in> set (tsm_outcomes sm)"
  shows "row_ok row"
proof -
  have "(\<exists>p. row = outcome_row cfg (fo_key row) (tc_run_file cfg (fo_key row, p))) \<or> (\<exists>k. row = undelivered_row setup k)"
    using assms(1,3) end_transform_summary(2) [OF assms(2)] by (auto simp: reconcile_fields(1) accounts_def)
  then show ?thesis using row_is_ok undelivered_ok by metis
qed

section \<open>Properties\<close>

text \<open>C25. Every file ends in exactly one row. Take any run from its preparation through any interleaving of
  pulling, transforming and pushing to a summary, with a listing that names no key twice. Then the rows of
  the summary are, each once, the files that were dispatched and the files of the pull set that never
  arrived; a row of a dispatched file tells how its own pipeline ended, and each of the others is a pull
  failure that explains itself. The number of pushed outputs, the failures by stage and the skipped mails
  are the counts of those rows, and the job fails exactly if some row did.\<close>

theorem every_file_one_row:
  assumes "begin_transform env vd cfg0 = Inr (cfg, setup)" and "transform_steps cfg (ts_run setup) s" and "loop_done s"
    and "end_transform local_fold setup s = Inr sm" and "\<And>listing. be_listing env = Inr listing \<Longrightarrow> distinct listing"
  shows "mset (map fo_key (tsm_outcomes sm)) = mset_set (tr_dispatched s \<union> set (ts_to_pull setup)) \<and>
    (\<forall>row \<in> set (tsm_outcomes sm). if fo_key row \<in> tr_dispatched s
      then \<exists>p. row = outcome_row cfg (fo_key row) (tc_run_file cfg (fo_key row, p)) else row = undelivered_row setup (fo_key row)) \<and>
    tsm_pushed sm = sum_list (map (length \<circ> fo_filenames) (tsm_outcomes sm)) \<and>
    failures_counted (tsm_failures sm) (tsm_outcomes sm) \<and>
    tsm_email_shaped sm = count_outcome SkippedEmailShaped (tsm_outcomes sm) \<and>
    (tsm_failed sm \<longleftrightarrow> 0 < failures_total (tsm_failures sm))"
proof (intro conjI)
  have start: "accounts cfg (ts_run setup)" using begin_transform_ok(1) [OF assms(1)] by (simp add: start_ok_def)
  then have acc: "accounts cfg s" using steps_ok(1) assms(2) by blast
  note sum = end_transform_summary [OF assms(4)]
  let ?late = "filter (\<lambda>k. k \<notin> tr_dispatched s) (ts_to_pull setup)"
  have rows: "tsm_outcomes sm = tr_outcomes s @ map (undelivered_row setup) ?late" by (simp add: sum(2) reconcile_fields(1))
  have idle: "tr_queue s = []" "tr_in_flight s = []" using assms(3) sum(1) by (auto simp: loop_done_def)
  have keys: "mset (map fo_key (tr_outcomes s)) = mset_set (tr_dispatched s)" and fin: "finite (tr_dispatched s)"
    using acc idle by (simp_all add: accounts_def)
  have "distinct (ts_to_pull setup)" using begin_transform_ok(6) [OF assms(1)] assms(5) by auto
  then have "mset ?late = mset_set (set (ts_to_pull setup) - tr_dispatched s)"
    by (metis distinct_filter mset_set_set set_diff_eq set_filter)
  moreover have "fo_key \<circ> undelivered_row setup = id" by (simp add: fun_eq_iff undelivered_row_def)
  ultimately have "mset (map fo_key (tsm_outcomes sm)) = mset_set (tr_dispatched s) + mset_set (set (ts_to_pull setup) - tr_dispatched s)"
    using keys rows by (simp add: mset_map [symmetric] del: mset_map)
  also have "\<dots> = mset_set (tr_dispatched s \<union> (set (ts_to_pull setup) - tr_dispatched s))"
    using fin by (intro mset_set_Union [symmetric]) auto
  finally show "mset (map fo_key (tsm_outcomes sm)) = mset_set (tr_dispatched s \<union> set (ts_to_pull setup))" by simp
  have own: "fo_key row \<in> tr_dispatched s" if "row \<in> set (tr_outcomes s)" for row
    using arg_cong [OF keys, of set_mset] fin that by auto
  show "\<forall>row \<in> set (tsm_outcomes sm). if fo_key row \<in> tr_dispatched s
      then \<exists>p. row = outcome_row cfg (fo_key row) (tc_run_file cfg (fo_key row, p)) else row = undelivered_row setup (fo_key row)"
    using acc own by (auto simp: rows accounts_def undelivered_row_def)
  show "tsm_pushed sm = sum_list (map (length \<circ> fo_filenames) (tsm_outcomes sm))"
    using acc sum(3) by (simp add: rows accounts_def undelivered_row_def comp_def)
  show counted: "failures_counted (tsm_failures sm) (tsm_outcomes sm)"
    using acc sum(2,4) reconcile_fields(4) by (simp add: accounts_def)
  show "tsm_email_shaped sm = count_outcome SkippedEmailShaped (tsm_outcomes sm)"
    using acc sum(5) by (simp add: rows accounts_def undelivered_row_def count_outcome_def filter_map comp_def)
  show "tsm_failed sm \<longleftrightarrow> 0 < failures_total (tsm_failures sm)"
  proof
    assume "tsm_failed sm"
    then obtain row where row: "row \<in> set (tsm_outcomes sm)" "fo_outcome row = FailedOutcome" using sum(6) by blast
    then obtain st where "fo_stage row = Some st" using all_rows_ok [OF acc assms(4)] by (auto simp: row_ok_def)
    then have "0 < stage_count st (tsm_outcomes sm)" using row(1) by (auto simp: stage_count_def filter_empty_conv)
    then show "0 < failures_total (tsm_failures sm)" using counted by (cases st) (auto simp: failures_counted_def failures_total_def)
  next
    assume "0 < failures_total (tsm_failures sm)"
    then have "\<exists>st. 0 < stage_count st (tsm_outcomes sm)" using counted
      unfolding failures_counted_def failures_total_def by (metis add_is_0 gr0I less_numeral_extra(3))
    then obtain st row where row: "row \<in> set (tsm_outcomes sm)" "fo_stage row = Some st"
      by (auto simp: stage_count_def filter_empty_conv)
    then have "fo_outcome row = FailedOutcome" using all_rows_ok [OF acc assms(4) row(1)] by (simp add: row_ok_def)
    then show "tsm_failed sm" using sum(6) row(1) by blast
  qed
qed

text \<open>Every row of a summary is well formed: it names a stage exactly when it is a failure, it names outputs
  only for a file that was transformed or copied through, a success carries no detail, and a skipped mail
  says which signals it showed.\<close>

lemma summary_rows_typed:
  assumes "begin_transform env vd cfg0 = Inr (cfg, setup)" and "transform_steps cfg (ts_run setup) s"
    and "end_transform local_fold setup s = Inr sm"
  shows "list_all row_ok (tsm_outcomes sm)"
proof -
  have "accounts cfg s" using begin_transform_ok(1) [OF assms(1)] steps_ok(1) [OF assms(2)] by (simp add: start_ok_def)
  then show ?thesis using all_rows_ok assms(3) by (auto simp: list_all_iff)
qed

text \<open>C27. A run cannot hang while the breaker is quiet. With a high-water mark of at least one, as the wizard
  enforces, and a pull process that can be continued, no run goes on forever, and the only states it can
  stop in are the end of the loop and states in which the breaker has tripped: the pull is never left paused
  with nothing under way that would resume it.\<close>

theorem transform_loop_ends:
  assumes "begin_transform env vd cfg0 = Inr (cfg, setup)" and "1 \<le> tc_high_water cfg0" and "tc_cont_ok cfg0"
  shows "wfp (\<lambda>s' s. transform_step cfg s s') \<and>
    (transform_steps cfg (ts_run setup) s \<longrightarrow> loop_done s \<or> tr_tripped s \<or> (\<exists>s'. transform_step cfg s s')) \<and>
    (\<exists>t. transform_steps cfg (ts_run setup) t \<and> (loop_done t \<or> tr_tripped t))"
proof (intro conjI impI)
  show wf: "wfp (\<lambda>s' s. transform_step cfg s s')"
    by (rule wfp_if_convertible_to_nat [of _ remaining]) (rule step_remaining)
  note b = begin_transform_ok(1-3) [OF assms(1)]
  have go: "loop_done s \<or> tr_tripped s \<or> (\<exists>s'. transform_step cfg s s')" if "transform_steps cfg (ts_run setup) s" for s
  proof -
    have "pull_ok cfg s" using steps_ok(2) [OF that] b assms(3) by (simp add: start_ok_def)
    then show ?thesis using step_or_end [of cfg s] b(2) assms(2) by auto
  qed
  have "transform_steps cfg (ts_run setup) s \<Longrightarrow> \<exists>t. transform_steps cfg (ts_run setup) t \<and> (loop_done t \<or> tr_tripped t)" for s
  proof (induction "remaining s" arbitrary: s rule: less_induct)
    case less
    from go [OF less.prems] consider "loop_done s \<or> tr_tripped s" | s' where "transform_step cfg s s'" by blast
    then show ?case
    proof cases
      case 2
      then show ?thesis using less.hyps [OF step_remaining] less.prems by (meson rtranclp.rtrancl_into_rtrancl)
    qed (use less.prems in blast)
  qed
  then show "\<exists>t. transform_steps cfg (ts_run setup) t \<and> (loop_done t \<or> tr_tripped t)" by blast
  show "loop_done s \<or> tr_tripped s \<or> (\<exists>s'. transform_step cfg s s')" if "transform_steps cfg (ts_run setup) s" by (rule go [OF that])
qed

end
