(* ===== verification/TransformTrace.thy ===== *)
theory TransformTrace
  imports TransformPool
begin

text \<open>
  Running the transform loop by hand: \<open>transform_exec\<close> follows a schedule of events through the step relation of
  \<open>TransformPool\<close>, and is equivalent to it. Concrete runs use it, among them the run in which the circuit
  breaker strands a paused pull.
\<close>

section \<open>Schedules\<close>

datatype transform_event = Dispatch | ReceivePid | JoinNext pending_file | Receive | ReceiveClosed | PullJoined | Copied | PullEnds

fun transform_exec :: "transform_config \<Rightarrow> transform_event \<Rightarrow> transform_run \<Rightarrow> transform_run option" where
  "transform_exec cfg Dispatch s =
     (if can_dispatch cfg s then Some (s\<lparr>tr_queue := tl (tr_queue s), tr_in_flight := tr_in_flight s @ [hd (tr_queue s)]\<rparr>) else None)"
| "transform_exec cfg ReceivePid s =
     (if can_dispatch cfg s \<or> loop_done s then None
      else (case tr_pid_channel s of None \<Rightarrow> None | Some pid \<Rightarrow> Some (s\<lparr>tr_pid := Some pid, tr_pid_channel := None\<rparr>)))"
| "transform_exec cfg (JoinNext f) s =
     (if can_dispatch cfg s \<or> f \<notin> set (tr_in_flight s) then None else Some (join_file cfg f s))"
| "transform_exec cfg Receive s =
     (if can_dispatch cfg s \<or> loop_done s \<or> tr_pull_finished s \<or> tr_rx_closed s then None
      else (case tr_channel s of [] \<Rightarrow> None | rel # rest \<Rightarrow> Some (receive_copied cfg rel (s\<lparr>tr_channel := rest\<rparr>))))"
| "transform_exec cfg ReceiveClosed s =
     (if can_dispatch cfg s \<or> loop_done s \<or> tr_pull_finished s \<or> tr_rx_closed s \<or> tr_channel s \<noteq> [] \<or> \<not> tr_pull_ended s then None
      else Some (s\<lparr>tr_rx_closed := True\<rparr>))"
| "transform_exec cfg PullJoined s =
     (if can_dispatch cfg s \<or> tr_pull_finished s \<or> \<not> tr_pull_ended s then None else Some (join_pull cfg s))"
| "transform_exec cfg Copied s =
     (if tr_stopped s \<or> tr_pull_ended s then None
      else (case tr_coming s of [] \<Rightarrow> None | rel # rest \<Rightarrow> Some (s\<lparr>tr_coming := rest, tr_channel := tr_channel s @ [rel]\<rparr>)))"
| "transform_exec cfg PullEnds s =
     (if tr_stopped s \<or> tr_pull_ended s \<or> tr_coming s \<noteq> [] then None else Some (s\<lparr>tr_pull_ended := True\<rparr>))"

fun transform_execs :: "transform_config \<Rightarrow> transform_event list \<Rightarrow> transform_run \<Rightarrow> transform_run option" where
  "transform_execs cfg [] s = Some s"
| "transform_execs cfg (e # es) s = (case transform_exec cfg e s of None \<Rightarrow> None | Some s' \<Rightarrow> transform_execs cfg es s')"

lemma exec_sound: "transform_exec cfg e s = Some s' \<Longrightarrow> transform_step cfg s s'"
  by (cases e) (auto split: if_splits option.splits list.splits intro: transform_step.intros)

lemma exec_complete: "transform_step cfg s s' \<Longrightarrow> \<exists>e. transform_exec cfg e s = Some s'"
proof (induction rule: transform_step.induct)
  case (dispatch s)
  then show ?case by (intro exI [of _ Dispatch]) simp
next
  case (receive_pid s pid)
  then show ?case by (intro exI [of _ ReceivePid]) simp
next
  case (join_next s f)
  then show ?case by (intro exI [of _ "JoinNext f"]) simp
next
  case (receive s rel rest)
  then show ?case by (intro exI [of _ Receive]) simp
next
  case (receive_closed s)
  then show ?case by (intro exI [of _ ReceiveClosed]) simp
next
  case (pull_joined s)
  then show ?case by (intro exI [of _ PullJoined]) simp
next
  case (copied s rel rest)
  then show ?case by (intro exI [of _ Copied]) simp
next
  case (pull_ends s)
  then show ?case by (intro exI [of _ PullEnds]) simp
qed

text \<open>The executable schedule is the relation.\<close>

lemma exec_iff: "transform_step cfg s s' \<longleftrightarrow> (\<exists>e. transform_exec cfg e s = Some s')"
  using exec_sound exec_complete by blast

lemma execs_sound: "transform_execs cfg es s = Some s' \<Longrightarrow> transform_steps cfg s s'"
  by (induction es arbitrary: s) (auto split: option.splits intro: converse_rtranclp_into_rtranclp dest: exec_sound)

section \<open>A stranded pull\<close>

definition stranded :: "transform_config \<Rightarrow> transform_run \<Rightarrow> bool" where
  "stranded cfg s \<longleftrightarrow> tr_tripped s \<and> tr_paused s \<and> tr_stopped s \<and> \<not> tr_pull_finished s \<and> \<not> tr_pull_ended s \<and>
     low_water cfg < length (tr_queue s)"

lemma tripped_join:
  assumes "stranded cfg s"
  shows "stranded cfg (join_file cfg f s)"
proof -
  define t where "t = note_result cfg (fst f) (tc_run_file cfg f)
    (take_sample cfg (tc_run_file cfg f) (s\<lparr>tr_in_flight := remove1 f (tr_in_flight s)\<rparr>))"
  have "stranded cfg t"
    using assms by (auto simp: t_def stranded_def take_sample_def note_result_def Let_def split: sum.splits processed.splits)
  moreover from this have "adjust_pull cfg t = t" by (auto simp: stranded_def adjust_pull_def backlog_def)
  ultimately show ?thesis by (simp add: join_file_def t_def Let_def)
qed

lemma stranded_step: "transform_step cfg s s' \<Longrightarrow> stranded cfg s \<Longrightarrow> stranded cfg s'"
proof (induction rule: transform_step.induct)
  case (join_next s f)
  then show ?case by (simp add: tripped_join)
qed (auto simp: can_dispatch_def receive_copied_def stranded_def)

lemma stranded_forever: "transform_steps cfg s s' \<Longrightarrow> stranded cfg s \<Longrightarrow> stranded cfg s'"
  by (induction rule: rtranclp_induct) (auto intro: stranded_step)

lemma trip_keeps:
  "tr_queue (take_sample cfg r s) = tr_queue s" "tr_in_flight (take_sample cfg r s) = tr_in_flight s"
  "tr_pid (take_sample cfg r s) = tr_pid s" "tr_pull_finished (take_sample cfg r s) = tr_pull_finished s"
  "tr_pull_ended (take_sample cfg r s) = tr_pull_ended s"
  "tr_tripped (take_sample cfg r s) \<Longrightarrow> \<not> tr_tripped s \<Longrightarrow> tr_pid s \<noteq> None \<Longrightarrow> \<not> tr_paused (take_sample cfg r s)"
  by (auto simp: take_sample_def resume_pull_def Let_def split: sum.splits processed.splits failure_stage.splits if_splits)

lemma note_result_pull [simp]:
  "tr_queue (note_result cfg key r s) = tr_queue s" "tr_in_flight (note_result cfg key r s) = tr_in_flight s"
  "tr_pid (note_result cfg key r s) = tr_pid s" "tr_pull_finished (note_result cfg key r s) = tr_pull_finished s"
  "tr_pull_ended (note_result cfg key r s) = tr_pull_ended s" "tr_paused (note_result cfg key r s) = tr_paused s"
  "tr_tripped (note_result cfg key r s) = tr_tripped s" "tr_stopped (note_result cfg key r s) = tr_stopped s"
  by (auto simp: note_result_def Let_def split: sum.splits processed.splits)

text \<open>The join that trips the breaker resumes the pull and, the backlog still being high, pauses it again.\<close>

lemma tripping_join_strands:
  assumes "\<not> tr_tripped s" and "tr_tripped (join_file cfg f s)" and "tr_pid s \<noteq> None"
    and "\<not> tr_pull_finished s" and "\<not> tr_pull_ended s" and "tc_stop_ok cfg"
    and "tc_high_water cfg \<le> length (tr_queue s) + length (remove1 f (tr_in_flight s))" and "low_water cfg < length (tr_queue s)"
  shows "stranded cfg (join_file cfg f s)"
proof -
  define s1 where "s1 = s\<lparr>tr_in_flight := remove1 f (tr_in_flight s)\<rparr>"
  define s2 where "s2 = take_sample cfg (tc_run_file cfg f) s1"
  define s3 where "s3 = note_result cfg (fst f) (tc_run_file cfg f) s2"
  have join: "join_file cfg f s = adjust_pull cfg s3" by (simp add: join_file_def s1_def s2_def s3_def Let_def)
  have "tr_tripped (adjust_pull cfg s3) = tr_tripped s3" by (simp add: adjust_pull_def resume_pull_def pause_pull_def)
  then have t: "tr_tripped s3" using assms(2) join by simp
  have "\<not> tr_tripped s1" "tr_pid s1 \<noteq> None" "tr_tripped s2" using assms(1,3) t by (simp_all add: s1_def s3_def)
  then have "\<not> tr_paused s2" using trip_keeps(6) by (simp add: s2_def)
  then have "\<not> tr_paused s3" by (simp add: s3_def)
  moreover have "tr_queue s3 = tr_queue s" "tr_in_flight s3 = remove1 f (tr_in_flight s)" "tr_pid s3 = tr_pid s"
    "\<not> tr_pull_finished s3" "\<not> tr_pull_ended s3"
    using assms(4,5) by (simp_all add: s3_def s2_def s1_def trip_keeps)
  ultimately show ?thesis using assms(3,6-8) t
    by (simp add: join stranded_def adjust_pull_def pause_pull_def backlog_def)
qed

section \<open>Properties\<close>

text \<open>C28. A tripping breaker can hang the job. Suppose the join that trips the circuit breaker happens while the
  pull is running and known, with a backlog at or above the high-water mark and more than the low-water mark of it
  still queued. Then the pull is left stopped, and in every state reachable from there it is still stopped and the
  loop has not ended: nothing dispatches the queue any more, so the backlog never falls to the mark at which the
  pull would be continued, and the breaker's error is never reported.\<close>

theorem breaker_strands_pull:
  assumes "\<not> tr_tripped s" and "tr_tripped (join_file cfg f s)" and "tr_pid s \<noteq> None"
    and "\<not> tr_pull_finished s" and "\<not> tr_pull_ended s" and "tc_stop_ok cfg"
    and "tc_high_water cfg \<le> length (tr_queue s) + length (remove1 f (tr_in_flight s))" and "low_water cfg < length (tr_queue s)"
    and "transform_steps cfg (join_file cfg f s) s'"
  shows "\<not> loop_done s' \<and> tr_stopped s' \<and> tr_paused s'"
proof -
  have "stranded cfg s'" using tripping_join_strands [OF assms(1-8)] stranded_forever [OF assms(9)] by blast
  then show ?thesis by (simp_all add: stranded_def loop_done_def)
qed

section \<open>Concrete runs\<close>

text \<open>Twenty-six files wait on disk, every one of which fails in the same way, while a pull is running.\<close>

definition demo_plan :: transform_plan where
  "demo_plan = photo_plan\<lparr>tp_kind := Mp3Kind\<rparr>"

definition demo_config :: "nat \<Rightarrow> (pending_file \<Rightarrow> process_result) \<Rightarrow> transform_config" where
  "demo_config mark run = \<lparr>tc_plan = demo_plan, tc_source_dir = ''src'', tc_groups = Map.empty, tc_concurrency = 1,
     tc_high_water = mark, tc_run_file = run, tc_stop_ok = True, tc_cont_ok = True, tc_pull_result = Inr empty_summary\<rparr>"

definition demo_begin :: "string list \<Rightarrow> string list \<Rightarrow> string list \<Rightarrow> begin_env" where
  "demo_begin on_disk listing coming = \<lparr>be_existing = Inr [], be_on_disk = Inr (map (\<lambda>n. [n]) on_disk), be_listing = Inr listing, be_mkdir = Inr (),
     be_free = None, be_files_from = Inr (), be_coming = coming, be_pid = 7, be_slot_result = (\<lambda>_. Inr empty_summary),
     be_landed = (\<lambda>_ _. True), be_fold = to_lower\<rparr>"

definition stall_files :: "string list" where
  "stall_files = map (\<lambda>i. ''f'' @ dec i @ ''.mp3'') [0..<26]"

definition stall_config :: transform_config where
  "stall_config = demo_config 4 (\<lambda>_. Inl (TranscodeStage, ''Unknown encoder''))"

definition stall_begin :: "(transform_config \<times> transform_setup) result" where
  "stall_begin = begin_transform (demo_begin stall_files [''late.mp3''] [''late.mp3'']) ''variants'' stall_config"

definition stall_key :: "nat \<Rightarrow> pending_file" where
  "stall_key i = (stall_files ! i, path_join ''src'' (stall_files ! i))"

definition stall_schedule :: "transform_event list" where
  "stall_schedule = Dispatch # ReceivePid # concat (map (\<lambda>i. [JoinNext (stall_key i), Dispatch]) [0..<19])"

lemma stall_runs: "case stall_begin of Inr (cfg, setup) \<Rightarrow>
    (case transform_execs cfg stall_schedule (ts_run setup) of Some s \<Rightarrow>
      \<not> tr_tripped s \<and> tr_tripped (join_file cfg (stall_key 19) s) \<and> tr_pid s = Some 7 \<and> \<not> tr_pull_finished s \<and>
      \<not> tr_pull_ended s \<and> tc_stop_ok cfg \<and> tc_high_water cfg \<le> length (tr_queue s) + length (remove1 (stall_key 19) (tr_in_flight s)) \<and>
      low_water cfg < length (tr_queue s) \<and> tr_in_flight s = [stall_key 19] \<and>
      \<not> can_dispatch cfg s | None \<Rightarrow> False) | Inl _ \<Rightarrow> False"
  by code_simp

theorem breaker_strands_pull_witness:
  "\<exists>cfg setup s. stall_begin = Inr (cfg, setup) \<and> transform_steps cfg (ts_run setup) s \<and> tr_tripped s \<and>
     (\<forall>s'. transform_steps cfg s s' \<longrightarrow> \<not> loop_done s' \<and> tr_stopped s')"
proof -
  obtain cfg su s where run: "stall_begin = Inr (cfg, su)" "transform_execs cfg stall_schedule (ts_run su) = Some s"
    and trip: "\<not> tr_tripped s" "tr_tripped (join_file cfg (stall_key 19) s)" "tr_pid s = Some 7" "\<not> tr_pull_finished s"
      "\<not> tr_pull_ended s" "tc_stop_ok cfg" "tc_high_water cfg \<le> length (tr_queue s) + length (remove1 (stall_key 19) (tr_in_flight s))"
      "low_water cfg < length (tr_queue s)" "tr_in_flight s = [stall_key 19]" "\<not> can_dispatch cfg s"
    using stall_runs by (auto split: sum.splits option.splits prod.splits)
  have "transform_steps cfg (ts_run su) s" by (rule execs_sound [OF run(2)])
  moreover have "transform_step cfg s (join_file cfg (stall_key 19) s)"
    using trip(9,10) by (intro transform_step.join_next) simp_all
  ultimately have "transform_steps cfg (ts_run su) (join_file cfg (stall_key 19) s)" by (rule rtranclp.rtrancl_into_rtrancl)
  then show ?thesis using run(1) trip(2)
      breaker_strands_pull [OF trip(1,2) _ trip(4-8)] trip(3) by blast
qed

text \<open>One file on disk, and one the pull never brings.\<close>

definition small_begin :: "(transform_config \<times> transform_setup) result" where
  "small_begin = begin_transform (demo_begin [''a.mp3''] [''a.mp3'', ''b.mp3''] []) ''variants''
     (demo_config 4 (\<lambda>f. Inr (Pushed [fst f])))"

definition small_schedule :: "transform_event list" where
  "small_schedule = [Dispatch, JoinNext (''a.mp3'', path_join ''src'' ''a.mp3''), PullEnds, PullJoined]"

lemma small_runs: "case small_begin of Inr (cfg, setup) \<Rightarrow>
    (case transform_execs cfg small_schedule (ts_run setup) of Some s \<Rightarrow> loop_done s \<and> \<not> isl (end_transform to_lower setup s)
     | None \<Rightarrow> False) | Inl _ \<Rightarrow> False"
  by code_simp

lemma small_run:
  obtains cfg su s sm where "begin_transform (demo_begin [''a.mp3''] [''a.mp3'', ''b.mp3''] []) ''variants''
      (demo_config 4 (\<lambda>f. Inr (Pushed [fst f]))) = Inr (cfg, su)"
    and "transform_steps cfg (ts_run su) s" and "loop_done s" and "end_transform to_lower su s = Inr sm"
proof -
  obtain cfg su s where "small_begin = Inr (cfg, su)" "transform_execs cfg small_schedule (ts_run su) = Some s"
      "loop_done s" "\<not> isl (end_transform to_lower su s)"
    using small_runs by (auto split: sum.splits option.splits prod.splits)
  then show ?thesis using that [of cfg su s] execs_sound by (cases "end_transform to_lower su s") (auto simp: small_begin_def)
qed

theorem every_file_one_row_witness:
  "\<exists>cfg setup s sm. small_begin = Inr (cfg, setup) \<and> end_transform to_lower setup s = Inr sm \<and>
     mset (map fo_key (tsm_outcomes sm)) = mset_set (tr_dispatched s \<union> set (ts_to_pull setup))"
proof -
  obtain cfg su s sm where r: "begin_transform (demo_begin [''a.mp3''] [''a.mp3'', ''b.mp3''] []) ''variants''
      (demo_config 4 (\<lambda>f. Inr (Pushed [fst f]))) = Inr (cfg, su)"
    "transform_steps cfg (ts_run su) s" "loop_done s" "end_transform to_lower su s = Inr sm" by (rule small_run)
  have "distinct listing" if "be_listing (demo_begin [''a.mp3''] [''a.mp3'', ''b.mp3''] []) = Inr listing" for listing
    using that by (auto simp: demo_begin_def)
  from every_file_one_row [OF r this] show ?thesis using r by (auto simp: small_begin_def)
qed

lemma summary_rows_typed_witness:
  "\<exists>cfg setup s sm. small_begin = Inr (cfg, setup) \<and> end_transform to_lower setup s = Inr sm \<and> list_all row_ok (tsm_outcomes sm)"
proof -
  obtain cfg su s sm where r: "begin_transform (demo_begin [''a.mp3''] [''a.mp3'', ''b.mp3''] []) ''variants''
      (demo_config 4 (\<lambda>f. Inr (Pushed [fst f]))) = Inr (cfg, su)"
    "transform_steps cfg (ts_run su) s" "loop_done s" "end_transform to_lower su s = Inr sm" by (rule small_run)
  from summary_rows_typed [OF r(1,2,4)] show ?thesis using r by (auto simp: small_begin_def)
qed

theorem transform_loop_ends_witness:
  "\<exists>cfg setup s. small_begin = Inr (cfg, setup) \<and> transform_steps cfg (ts_run setup) s \<and> (loop_done s \<or> tr_tripped s)"
proof -
  obtain cfg su where r: "begin_transform (demo_begin [''a.mp3''] [''a.mp3'', ''b.mp3''] []) ''variants''
      (demo_config 4 (\<lambda>f. Inr (Pushed [fst f]))) = Inr (cfg, su)" by (rule small_run)
  have "1 \<le> tc_high_water (demo_config 4 (\<lambda>f. Inr (Pushed [fst f])))" "tc_cont_ok (demo_config 4 (\<lambda>f. Inr (Pushed [fst f])))"
    by (simp_all add: demo_config_def)
  from transform_loop_ends [OF r this] show ?thesis using r by (auto simp: small_begin_def)
qed

end
