(* ===== verification/Utf8Lossy.thy ===== *)
theory Utf8Lossy
  imports Utf8
begin

text \<open>
  \<open>String::from_utf8_lossy\<close>: bytes as text, every maximal invalid part replaced by U+FFFD; and the conversions
  next to it.
\<close>

definition REPLACEMENT :: string where "REPLACEMENT = [CHR 0xEF, CHR 0xBF, CHR 0xBD]"

text \<open>How long the character is that a byte leads, 0 for a byte that leads none.\<close>

definition lead_len :: "char \<Rightarrow> nat" where
  "lead_len a = (if byte_of a < 0x80 then 1 else if byte_of a < 0xC2 then 0 else if byte_of a < 0xE0 then 2
     else if byte_of a < 0xF0 then 3 else if byte_of a < 0xF5 then 4 else 0)"

text \<open>The next piece of the bytes: its length, and whether it is a character.\<close>

definition next_piece :: "char \<Rightarrow> string \<Rightarrow> nat \<times> bool" where
  "next_piece a r = (let n = lead_len a; cont = (\<lambda>i. i < length r \<and> is_cont (r ! i)) in
     if n = 0 then (1, False)
     else if n = 1 then (1, True)
     else if \<not> (cont 0 \<and> lead_ok (a # r)) then (1, False)
     else if n = 2 then (2, True)
     else if \<not> cont 1 then (2, False)
     else if n = 3 then (3, True)
     else if \<not> cont 2 then (3, False)
     else (4, True))"

lemma next_piece_pos: "0 < fst (next_piece a r)"
  by (simp add: next_piece_def Let_def)

function from_utf8_lossy :: "string \<Rightarrow> string" where
  "from_utf8_lossy [] = []"
| "from_utf8_lossy (a # r) = (let (n, ok) = next_piece a r in
     (if ok then take n (a # r) else REPLACEMENT) @ from_utf8_lossy (drop n (a # r)))"
  by pat_completeness auto
termination
proof (relation "measure length")
  fix a :: char and r p n ok assume "p = next_piece a r" "(n, ok) = p"
  then have "0 < n" using next_piece_pos [of a r] by (metis fst_conv)
  then show "(drop n (a # r), a # r) \<in> measure length" by simp
qed simp

text \<open>Each byte as a Latin-1 character.\<close>

definition latin1_char :: "char \<Rightarrow> string" where
  "latin1_char c = (if byte_of c < 0x80 then [c]
     else [char_of (0xC0 + byte_of c div 64), char_of (0x80 + byte_of c mod 64)])"

definition from_latin1 :: "string \<Rightarrow> string" where "from_latin1 s = concat (map latin1_char s)"

section \<open>Lemmas\<close>

lemma takeWhile_nth_all: "i < length (takeWhile P xs) \<Longrightarrow> P (xs ! i)"
  by (metis nth_mem set_takeWhileD takeWhile_nth)

lemma char_lead:
  assumes "utf8_char (a # t)"
  shows "lead_len a = char_len a" and "lead_len a = Suc (length t)"
proof -
  have h: "\<not> is_cont a" "length t + 1 = char_len a" "lead_ok (a # t)"
    using assms by (simp_all add: utf8_char_def)
  have "byte_of a < 0x80 \<or> (0xC2 \<le> byte_of a \<and> byte_of a \<le> 0xF4)"
  proof (cases t)
    case Nil
    then have "byte_of a < 0xC0" using h(2) by (simp add: char_len_def split: if_splits)
    then show ?thesis using h(1) by (simp add: is_cont_def)
  next
    case (Cons b u)
    then show ?thesis using h(3) by (simp add: lead_ok_def)
  qed
  then show "lead_len a = char_len a" by (elim disjE conjE) (simp_all add: lead_len_def char_len_def)
  then show "lead_len a = Suc (length t)" using h(2) by simp
qed

lemma next_piece_char:
  assumes "utf8_char (a # takeWhile is_cont r)"
  shows "next_piece a r = (Suc (length (takeWhile is_cont r)), True)"
proof -
  let ?t = "takeWhile is_cont r"
  have n: "lead_len a = Suc (length ?t)" by (rule char_lead [OF assms])
  have c: "is_cont (r ! i) \<and> i < length r" if "i < length ?t" for i
    using that takeWhile_nth_all length_takeWhile_le less_le_trans by blast
  have ok: "lead_ok (a # r)" if "length ?t \<noteq> 0"
  proof -
    obtain b s where "r = b # s" "is_cont b" using \<open>length ?t \<noteq> 0\<close> by (cases r) (auto split: if_splits)
    moreover have "lead_ok (a # ?t)" using assms by (simp add: utf8_char_def)
    ultimately show ?thesis by (simp add: lead_ok_def)
  qed
  have "lead_len a \<le> 4" by (simp add: lead_len_def)
  then have "length ?t = 0 \<or> length ?t = 1 \<or> length ?t = 2 \<or> length ?t = 3" using n by arith
  then show ?thesis using n c ok unfolding next_piece_def Let_def by (elim disjE) (auto simp: numeral_2_eq_2 numeral_3_eq_3)
qed

lemma drop_takeWhile: "drop (length (takeWhile P xs)) xs = dropWhile P xs"
  by (metis append_eq_conv_conj takeWhile_dropWhile_id)

text \<open>Nothing in well-formed text is replaced.\<close>

lemma lossy_utf8: "utf8_ok s \<Longrightarrow> from_utf8_lossy s = s"
proof (induction s rule: from_utf8_lossy.induct)
  case (2 a r)
  have c: "utf8_char (a # takeWhile is_cont r)" and d: "utf8_ok (dropWhile is_cont r)"
    using "2.prems" by (simp_all add: utf8_ok_Cons)
  note p = next_piece_char [OF c]
  have "from_utf8_lossy (dropWhile is_cont r) = dropWhile is_cont r"
    using "2.IH" [OF p [symmetric] refl] d by (simp add: drop_takeWhile)
  then show ?case using p by (simp add: drop_takeWhile takeWhile_eq_take [symmetric])
qed simp

lemma utf8_ok_char: "utf8_char p \<Longrightarrow> utf8_ok p"
proof (cases p)
  case (Cons x t)
  assume p: "utf8_char p"
  then have t: "\<forall>c \<in> set t. is_cont c" using Cons by (simp add: utf8_char_def list_all_iff)
  have tw: "takeWhile is_cont t = t" "dropWhile is_cont t = []" using t by (simp_all add: takeWhile_eq_all_conv)
  show ?thesis using p unfolding Cons utf8_ok_Cons tw by simp
qed simp

lemma next_piece_utf8:
  assumes "next_piece a r = (n, True)"
  shows "utf8_char (take n (a # r))"
proof -
  have lead: "\<not> is_cont a" "char_len a = lead_len a" if "lead_len a \<noteq> 0"
    using that by (auto simp: is_cont_def lead_len_def char_len_def split: if_splits)
  have le: "lead_len a \<le> 4" by (simp add: lead_len_def)
  have n: "n = lead_len a" "lead_len a \<noteq> 0" "n \<le> 1 \<or> lead_ok (a # r)"
    using assms le by (auto simp: next_piece_def Let_def split: if_splits)
  have four: "n = 1 \<or> n = 2 \<or> n = 3 \<or> n = 4" using n le by arith
  have c: "2 \<le> n \<Longrightarrow> 0 < length r \<and> is_cont (r ! 0)" "3 \<le> n \<Longrightarrow> 1 < length r \<and> is_cont (r ! 1)"
    "4 \<le> n \<Longrightarrow> 2 < length r \<and> is_cont (r ! 2)"
    using assms by (simp_all add: next_piece_def Let_def split: if_splits)
  have n4: "i < length r \<and> is_cont (r ! i)" if "i < n - 1" for i
  proof -
    have "(i = 0 \<and> 2 \<le> n) \<or> (i = 1 \<and> 3 \<le> n) \<or> (i = 2 \<and> 4 \<le> n)" using that four by arith
    then show ?thesis using c by blast
  qed
  have len: "n - 1 \<le> length r"
  proof (rule ccontr)
    assume "\<not> n - 1 \<le> length r"
    then show False using n4 [of "length r"] by simp
  qed
  have "take n (a # r) = a # take (n - 1) r" using n(1,2) by (simp add: take_Cons')
  moreover have "list_all is_cont (take (n - 1) r)" using n4 by (auto simp: list_all_length)
  moreover have "lead_ok (a # take (n - 1) r)"
  proof (cases "n \<le> 1")
    case False
    then obtain b s where r: "r = b # s" using len by (cases r) auto
    moreover obtain m where "n = Suc (Suc m)" using False by (cases n; cases "n - 1") auto
    ultimately show ?thesis using n(3) by (simp add: lead_ok_def)
  qed (simp add: lead_ok_def)
  ultimately show ?thesis using lead n(1,2) len by (simp add: utf8_char_def)
qed

text \<open>Its result is always well-formed.\<close>

lemma lossy_ok [simp]: "utf8_ok (from_utf8_lossy s)"
proof (induction s rule: from_utf8_lossy.induct)
  case (2 a r)
  obtain n ok where p: "next_piece a r = (n, ok)" by fastforce
  have "utf8_ok REPLACEMENT" by code_simp
  then have "utf8_ok (if ok then take n (a # r) else REPLACEMENT)"
    using p next_piece_utf8 [of a r n] utf8_ok_char by auto
  then show ?case using "2.IH" [OF p [symmetric] refl] p by (simp add: utf8_ok_append)
qed simp

lemma two_byte_char: "0xC2 \<le> byte_of a \<Longrightarrow> byte_of a < 0xE0 \<Longrightarrow> is_cont b \<Longrightarrow> utf8_char [a, b]"
  by (simp add: utf8_char_def is_cont_def char_len_def lead_ok_def)

lemma latin1_char_ok: "utf8_char (latin1_char c)"
proof (cases "byte_of c < 0x80")
  case False
  define m d where "m = byte_of c div 64" and "d = byte_of c mod 64"
  have "byte_of c < 256" by (rule nat_of_char_less_256)
  then have "m < 4" by (simp add: m_def less_mult_imp_div_less)
  moreover have "2 \<le> m" using False div_le_mono [of 128 "byte_of c" 64] by (simp add: m_def)
  moreover have "d < 64" by (simp add: d_def)
  moreover have "latin1_char c = [char_of (0xC0 + m), char_of (0x80 + d)]" using False by (simp add: latin1_char_def m_def d_def)
  moreover have "byte_of (char_of n) = n" if "n < 256" for n using that by simp
  ultimately show ?thesis by (simp only:) (simp add: two_byte_char is_cont_def)
qed (simp add: latin1_char_def utf8_char_ascii)

lemma latin1_ok [simp]: "utf8_ok (from_latin1 s)"
  by (induction s) (simp_all add: from_latin1_def utf8_ok_append utf8_ok_char latin1_char_ok)

end
