(* ===== verification/Vobject.thy ===== *)
theory Vobject
  imports Utf8Lossy TransformSelect
begin

text \<open>
  \<open>transform/vobject.rs\<close>: calendar and contact files as readable text. Content lines are unfolded, split into
  properties, grouped by component and rendered. Reading and writing the files are parameters: how they end.
\<close>

section \<open>Properties\<close>

record property =
  vp_group :: "string option"
  vp_name :: string
  vp_params :: "(string \<times> string) list"
  vp_value :: string

abbreviation DQUOTE :: char where "DQUOTE \<equiv> CHR 0x22"
abbreviation BACKSLASH :: char where "BACKSLASH \<equiv> CHR 0x5C"

definition vo_param :: "property \<Rightarrow> string \<Rightarrow> string option" where
  "vo_param p name = map_of (vp_params p) name"

definition param_values :: "property \<Rightarrow> string \<Rightarrow> string list" where
  "param_values p name = filter (\<lambda>v. v \<noteq> [])
     (map trim (concat (map (\<lambda>(_, v). split_on (CHR '','') v) (filter (\<lambda>(k, _). k = name) (vp_params p)))))"

definition is_base64 :: "property \<Rightarrow> bool" where
  "is_base64 p = (case vo_param p ''ENCODING'' of None \<Rightarrow> False | Some e \<Rightarrow> to_upper e \<in> {''B'', ''BASE64''})"

definition is_quoted_printable :: "property \<Rightarrow> bool" where
  "is_quoted_printable p = (case vo_param p ''ENCODING'' of None \<Rightarrow> False | Some e \<Rightarrow> eq_ignore_case e ''QUOTED-PRINTABLE'')"

text \<open>\<open>u8::from_str_radix\<close> on two bytes: it also takes a sign in front of one digit.\<close>

definition hex_digit :: "char \<Rightarrow> nat option" where
  "hex_digit c = (if is_digit c then Some (byte_of c - 48)
     else if 0x41 \<le> byte_of c \<and> byte_of c \<le> 0x46 then Some (byte_of c - 55)
     else if 0x61 \<le> byte_of c \<and> byte_of c \<le> 0x66 then Some (byte_of c - 87) else None)"

definition hex_octet :: "char \<Rightarrow> char \<Rightarrow> nat option" where
  "hex_octet a b = (if a = CHR ''+'' then hex_digit b
     else (case (hex_digit a, hex_digit b) of (Some x, Some y) \<Rightarrow> Some (16 * x + y) | _ \<Rightarrow> None))"

fun decode_octets :: "string \<Rightarrow> string" where
  "decode_octets [] = []"
| "decode_octets (c # cs) =
     (if c = CHR ''='' then
        (case cs of
           a # b # rest \<Rightarrow> (case hex_octet a b of
               Some n \<Rightarrow> char_of n # decode_octets rest
             | None \<Rightarrow> c # decode_octets cs)
         | _ \<Rightarrow> c # decode_octets cs)
      else c # decode_octets cs)"

definition decode_quoted_printable :: "string \<Rightarrow> string" where
  "decode_quoted_printable tx = (let out = decode_octets tx in if utf8_ok out then out else from_latin1 out)"

definition vo_decoded :: "property \<Rightarrow> string" where
  "vo_decoded p = (if is_quoted_printable p then decode_quoted_printable (vp_value p) else vp_value p)"

fun unescape :: "string \<Rightarrow> string" where
  "unescape [] = []"
| "unescape (c # cs) =
     (if c \<noteq> BACKSLASH then c # unescape cs
      else (case cs of
          [] \<Rightarrow> [BACKSLASH]
        | d # rest \<Rightarrow>
            if d \<in> {CHR ''n'', CHR ''N''} then NL # unescape rest
            else if d \<in> {CHR '','', CHR '';'', CHR '':'', BACKSLASH} then d # unescape rest
            else BACKSLASH # d # unescape rest))"

text \<open>Characters go to the part being built, which comes first in the result.\<close>

definition onto_part :: "string \<Rightarrow> string list \<Rightarrow> string list" where
  "onto_part s parts = (case parts of [] \<Rightarrow> [s] | p # ps \<Rightarrow> (s @ p) # ps)"

fun split_unescaped :: "char \<Rightarrow> string \<Rightarrow> string list" where
  "split_unescaped sep [] = [[]]"
| "split_unescaped sep (c # cs) =
     (if c = BACKSLASH then
        (case cs of [] \<Rightarrow> [[c]] | d # rest \<Rightarrow> onto_part [c, d] (split_unescaped sep rest))
      else if c = sep then [] # split_unescaped sep cs
      else onto_part [c] (split_unescaped sep cs))"

fun split_quoted :: "char \<Rightarrow> bool \<Rightarrow> string \<Rightarrow> string list" where
  "split_quoted sep in_quotes [] = [[]]"
| "split_quoted sep in_quotes (c # cs) =
     (if c = DQUOTE then onto_part [c] (split_quoted sep (\<not> in_quotes) cs)
      else if c = sep \<and> \<not> in_quotes then [] # split_quoted sep in_quotes cs
      else onto_part [c] (split_quoted sep in_quotes cs))"

definition vo_text :: "property \<Rightarrow> string" where
  "vo_text p = unescape (vo_decoded p)"

definition vo_components :: "property \<Rightarrow> string list" where
  "vo_components p = map unescape (split_unescaped (CHR '';'') (vo_decoded p))"

section \<open>Content lines\<close>

text \<open>What a quoted-printable line declares before its first colon.\<close>

definition is_qp_line :: "string \<Rightarrow> bool" where
  "is_qp_line line \<longleftrightarrow> contains ''QUOTED-PRINTABLE'' (to_upper (from_utf8_lossy (takeWhile (\<lambda>c. c \<noteq> CHR '':'') line)))"

text \<open>The logical lines so far, and whether the last of them ends in a soft break.\<close>

type_synonym unfolding_state = "string list \<times> bool"

definition soft_break :: "string list \<Rightarrow> bool" where
  "soft_break logical \<longleftrightarrow> logical \<noteq> [] \<and> ends_with ''='' (List.last logical) \<and> is_qp_line (List.last logical)"

definition unfold_line :: "string \<Rightarrow> unfolding_state \<Rightarrow> unfolding_state" where
  "unfold_line raw = (\<lambda>(logical, in_soft_break).
     let line = (case strip_suffix [CR] raw of Some l \<Rightarrow> l | None \<Rightarrow> raw);
         next = (\<lambda>ls. (ls, soft_break ls)) in
     if in_soft_break \<and> logical \<noteq> [] then next (butlast logical @ [butlast (List.last logical) @ line])
     else if line \<noteq> [] \<and> hd line \<in> {CHR '' '', TAB} \<and> logical \<noteq> [] then next (butlast logical @ [List.last logical @ tl line])
     else if line = [] then (logical, False)
     else next (logical @ [line]))"

definition unfold_lines :: "string \<Rightarrow> string list" where
  "unfold_lines bytes =
     (let body = (case strip_prefix [CHR 0xEF, CHR 0xBB, CHR 0xBF] bytes of Some b \<Rightarrow> b | None \<Rightarrow> bytes) in
      map from_utf8_lossy (fst (fold unfold_line (split_on NL body) ([], False))))"

text \<open>The head of a line is what comes before its first colon outside quotes.\<close>

fun split_head :: "bool \<Rightarrow> string \<Rightarrow> (string \<times> string) option" where
  "split_head in_quotes [] = None"
| "split_head in_quotes (c # cs) =
     (if c = CHR '':'' \<and> \<not> in_quotes then Some ([], cs)
      else map_option (\<lambda>(h, v). (c # h, v)) (split_head (if c = DQUOTE then \<not> in_quotes else in_quotes) cs))"

definition parse_param :: "string \<Rightarrow> string \<times> string" where
  "parse_param param = (case split_once (CHR ''='') param of
     Some (k, v) \<Rightarrow> (to_upper (trim k), trim_by (\<lambda>c. c = DQUOTE) (trim v))
   | None \<Rightarrow> (let bare = trim param in
       if to_upper bare \<in> {''QUOTED-PRINTABLE'', ''BASE64'', ''B''} then (''ENCODING'', bare) else (''TYPE'', bare)))"

definition parse_content_line :: "string \<Rightarrow> property option" where
  "parse_content_line line = (case split_head False line of
     None \<Rightarrow> None
   | Some (head, v) \<Rightarrow> (case split_quoted (CHR '';'') False head of
       [] \<Rightarrow> None
     | full # params \<Rightarrow>
         (let full_name = trim full;
              (grp, name) = (case rsplit_once (CHR ''.'') full_name of Some (g, n) \<Rightarrow> (Some g, n) | None \<Rightarrow> (None, full_name)) in
          Some \<lparr>vp_group = grp, vp_name = to_upper name, vp_params = map parse_param params, vp_value = v\<rparr>)))"

definition MAX_INPUT_BYTES :: nat where "MAX_INPUT_BYTES = 64 * 1024 * 1024"

definition read_properties :: "string \<Rightarrow> string + nat \<Rightarrow> string + string \<Rightarrow> string + property list" where
  "read_properties input stat contents = (case stat of
     Inl err \<Rightarrow> Inl (''failed to stat '' @ input @ '': '' @ err)
   | Inr n \<Rightarrow>
       if MAX_INPUT_BYTES < n
       then Inl (input @ '' is '' @ dec n @ '' bytes, over this job'' @ [CHR 0x27] @ ''s '' @ dec MAX_INPUT_BYTES @ ''-byte calendar/contact limit'')
       else (case contents of
           Inl err \<Rightarrow> Inl (''failed to read '' @ input @ '': '' @ err)
         | Inr bytes \<Rightarrow> Inr (List.map_filter parse_content_line (unfold_lines bytes))))"

definition has_begin :: "property list \<Rightarrow> string \<Rightarrow> bool" where
  "has_begin ps component \<longleftrightarrow> list_ex (\<lambda>p. vp_name p = ''BEGIN'' \<and> eq_ignore_case (trim (vp_value p)) component) ps"

section \<open>Components\<close>

text \<open>The components found with their properties, the stack of open ones, and the depth of the wanted one.\<close>

type_synonym component_state = "(string \<times> property list) list \<times> string list \<times> nat option"

definition component_step :: "string list \<Rightarrow> property \<Rightarrow> component_state \<Rightarrow> component_state" where
  "component_step kinds p = (\<lambda>(found, stack, open_at).
     if vp_name p = ''BEGIN'' then
       (let name = to_upper (trim (vp_value p)) in
        if open_at = None \<and> name \<in> set kinds then (found @ [(name, [])], stack @ [name], Some (length stack))
        else (found, stack @ [name], open_at))
     else if vp_name p = ''END'' then
       (let stack' = butlast stack in (found, stack', if open_at = Some (length stack') then None else open_at))
     else (case open_at of
         None \<Rightarrow> (found, stack, open_at)
       | Some depth \<Rightarrow>
           if length stack = depth + 1 \<and> found \<noteq> []
           then (butlast found @ [(fst (List.last found), snd (List.last found) @ [p])], stack, open_at)
           else (found, stack, open_at)))"

definition vobjects :: "string list \<Rightarrow> property list \<Rightarrow> (string \<times> property list) list" where
  "vobjects kinds ps = fst (fold (component_step kinds) ps ([], [], None))"

definition first_named :: "property list \<Rightarrow> string \<Rightarrow> property option" where
  "first_named ps name = find (\<lambda>p. vp_name p = name) ps"

section \<open>Rendering\<close>

definition push_field :: "string \<Rightarrow> string \<Rightarrow> string \<Rightarrow> string" where
  "push_field out label v0 =
     (let v = trim_end v0 in
      if trim v = [] then out
      else if NL \<in> set v then
        out @ label @ '':'' @ [NL] @
          concat (map (\<lambda>l. (if trim l \<noteq> [] then ''  '' @ trim_end l else []) @ [NL]) (lines v))
      else out @ label @ '': '' @ trim v @ [NL])"

definition with_zone :: "string \<Rightarrow> string option \<Rightarrow> string" where
  "with_zone time zone = (case zone of Some z \<Rightarrow> time @ '' ('' @ z @ '')'' | None \<Rightarrow> time)"

definition digits_at :: "string \<Rightarrow> nat \<Rightarrow> nat \<Rightarrow> string option" where
  "digits_at body i j = (let part = take (j - i) (drop i body) in
     if j \<le> length body \<and> list_all is_digit part then Some part else None)"

definition render_time :: "property \<Rightarrow> string \<times> string option" where
  "render_time p =
     (let raw = trim (vp_value p);
          tzid = vo_param p ''TZID'';
          (body, utc) = (if raw \<noteq> [] \<and> List.last raw \<in> {CHR ''Z'', CHR ''z''} then (butlast raw, True) else (raw, False)) in
      case (digits_at body 0 4, digits_at body 4 6, digits_at body 6 8) of
        (Some year, Some month, Some day) \<Rightarrow>
          (let date = year @ ''-'' @ month @ ''-'' @ day in
           if length body = 8 then (date, tzid)
           else (case (digits_at body 9 11, digits_at body 11 13, digits_at body 13 15) of
               (Some hour, Some minute, Some second) \<Rightarrow>
                 if body ! 8 \<in> {CHR ''T'', CHR ''t''} \<and> length body = 15
                 then (date @ '' '' @ hour @ '':'' @ minute @ (if second = ''00'' then [] else '':'' @ second),
                       case tzid of Some z \<Rightarrow> Some z | None \<Rightarrow> if utc then Some ''UTC'' else None)
                 else (raw, tzid)
             | _ \<Rightarrow> (raw, tzid)))
      | _ \<Rightarrow> (raw, tzid))"

text \<open>An en dash between the ends.\<close>

definition DASH :: string where "DASH = '' '' @ [CHR 0xE2, CHR 0x80, CHR 0x93] @ '' ''"

definition render_when :: "property list \<Rightarrow> string option" where
  "render_when ps =
     (let start = first_named ps ''DTSTART'';
          stop = (case first_named ps ''DTEND'' of Some e \<Rightarrow> Some e | None \<Rightarrow> first_named ps ''DUE'');
          shown = (case (start, stop) of
              (Some s, Some e) \<Rightarrow>
                (let (start_time, start_zone) = render_time s; (end_time, end_zone) = render_time e in
                 Some (if start_zone = end_zone then with_zone (start_time @ DASH @ end_time) start_zone
                       else with_zone start_time start_zone @ DASH @ with_zone end_time end_zone))
            | (Some only, None) \<Rightarrow> (let (time, zone) = render_time only in Some (with_zone time zone))
            | (None, Some only) \<Rightarrow> (let (time, zone) = render_time only in Some (with_zone time zone))
            | (None, None) \<Rightarrow> None) in
      case shown of
        None \<Rightarrow> None
      | Some w \<Rightarrow> Some (case (stop, first_named ps ''DURATION'') of
            (None, Some d) \<Rightarrow> w @ '', lasting '' @ trim (vp_value d)
          | _ \<Rightarrow> w))"

definition render_person :: "property \<Rightarrow> string" where
  "render_person p =
     (let v = vo_text p;
          address = trim (case strip_prefix ''mailto:'' v of
              Some a \<Rightarrow> a
            | None \<Rightarrow> (case strip_prefix ''MAILTO:'' v of
                Some a \<Rightarrow> a
              | None \<Rightarrow> if 7 \<le> length v \<and> eq_ignore_case (take 7 v) ''mailto:'' then drop 7 v else v));
          name = (case vo_param p ''CN'' of None \<Rightarrow> None | Some n \<Rightarrow> if trim n = [] then None else Some (trim n));
          person = (case name of
              Some n \<Rightarrow> if address \<noteq> [] \<and> n \<noteq> address then n @ '' <'' @ address @ ''>'' else n
            | None \<Rightarrow> address) in
      case vo_param p ''PARTSTAT'' of
        Some st \<Rightarrow> person @ '' ('' @ map (\<lambda>c. if c = CHR ''-'' then CHR '' '' else c) (to_lower st) @ '')''
      | None \<Rightarrow> person)"

definition push_optional :: "string \<Rightarrow> (property \<Rightarrow> string) \<Rightarrow> property option \<Rightarrow> string \<Rightarrow> string" where
  "push_optional label show p out = (case p of Some q \<Rightarrow> push_field out label (show q) | None \<Rightarrow> out)"

definition push_each :: "string \<Rightarrow> (property \<Rightarrow> string) \<Rightarrow> property list \<Rightarrow> string \<Rightarrow> string" where
  "push_each label show ps out = fold (\<lambda>p out. push_field out label (show p)) ps out"

abbreviation all_named :: "property list \<Rightarrow> string \<Rightarrow> property list" where
  "all_named ps name \<equiv> filter (\<lambda>p. vp_name p = name) ps"

definition render_item :: "nat \<Rightarrow> nat \<times> string \<times> property list \<Rightarrow> string \<Rightarrow> string" where
  "render_item tot = (\<lambda>(i, kind, ps) out.
     (let noun = (if kind = ''VTODO'' then ''Task'' else ''Event'');
          out1 = out @ [NL] @ noun @ '' '' @ dec (i + 1) @ '' of '' @ dec tot @ [NL];
          summary = (case first_named ps ''SUMMARY'' of
              Some p \<Rightarrow> if trim (vo_text p) = [] then ''(untitled)'' else vo_text p
            | None \<Rightarrow> ''(untitled)'');
          out2 = push_field out1 ''Summary'' summary;
          out3 = (case render_when ps of Some w \<Rightarrow> push_field out2 ''When'' w | None \<Rightarrow> out2) in
      push_optional ''Description'' vo_text (first_named ps ''DESCRIPTION'')
       (push_optional ''URL'' vo_text (first_named ps ''URL'')
       (push_each ''Repeats'' vp_value (all_named ps ''RRULE'')
       (push_optional ''Status'' vo_text (first_named ps ''STATUS'')
       (push_each ''Attendee'' render_person (all_named ps ''ATTENDEE'')
       (push_optional ''Organizer'' render_person (first_named ps ''ORGANIZER'')
       (push_optional ''Where'' vo_text (first_named ps ''LOCATION'') out3))))))))"

definition render_calendar :: "property list \<Rightarrow> string" where
  "render_calendar ps =
     (let calendar_props = concat (map snd (vobjects [''VCALENDAR''] ps));
          plain = ''Calendar'' @ [NL];
          out1 = (case first_named calendar_props ''X-WR-CALNAME'' of
              Some name \<Rightarrow> if trim (vo_text name) \<noteq> [] then push_field [] ''Calendar'' (vo_text name) else plain
            | None \<Rightarrow> plain);
          out2 = push_optional ''Method'' vo_text (first_named calendar_props ''METHOD'') out1;
          items = vobjects [''VEVENT'', ''VTODO''] ps in
      if items = [] then out2 @ [NL] @ ''No events.'' @ [NL]
      else fold (render_item (length items)) (enumerate 0 items) out2)"

section \<open>Contacts\<close>

definition DROPPED_CARD_PROPERTIES :: "string list" where
  "DROPPED_CARD_PROPERTIES = [''PHOTO'', ''LOGO'', ''SOUND'', ''KEY'', ''PRODID'', ''REV'', ''UID'']"

definition join_nonempty :: "string list \<Rightarrow> string \<Rightarrow> string" where
  "join_nonempty parts separator = join separator (filter (\<lambda>p. p \<noteq> []) (map trim parts))"

definition render_structured_name :: "property \<Rightarrow> string" where
  "render_structured_name p = (let parts = vo_components p; get = (\<lambda>i. if i < length parts then parts ! i else []) in
     join_nonempty [get 3, get 1, get 2, get 0, get 4] '' '')"

definition apple_label :: "string \<Rightarrow> string" where
  "apple_label raw = (case strip_prefix ''_$!<'' (trim raw) of
     None \<Rightarrow> trim raw
   | Some rest \<Rightarrow> (case strip_suffix ''>!$_'' rest of Some l \<Rightarrow> l | None \<Rightarrow> trim raw))"

definition card_labels :: "property list \<Rightarrow> (string \<times> string) list" where
  "card_labels ps = List.map_filter (\<lambda>p. map_option (\<lambda>g. (g, apple_label (vo_text p))) (vp_group p)) (all_named ps ''X-ABLABEL'')"

definition card_label :: "property \<Rightarrow> (string \<times> string) list \<Rightarrow> string option" where
  "card_label p labels =
     (let types = map to_lower (filter (\<lambda>k. to_upper k \<notin> {''INTERNET'', ''PREF'', ''X400''}) (param_values p ''TYPE''));
          typed = (if types = [] then None else Some (join '', '' types)) in
      case vp_group p of
        None \<Rightarrow> typed
      | Some grp \<Rightarrow> (case map_of labels grp of Some label \<Rightarrow> if label \<noteq> [] then Some label else typed | None \<Rightarrow> typed))"

definition shown_in_card :: "property \<Rightarrow> bool" where
  "shown_in_card p \<longleftrightarrow> \<not> is_base64 p \<and> \<not> starts_with ''X-'' (vp_name p) \<and> vp_name p \<notin> set DROPPED_CARD_PROPERTIES"

text \<open>\<open>str::replace\<close> of a newline.\<close>

definition commas_for_lines :: "string \<Rightarrow> string" where
  "commas_for_lines s = concat (map (\<lambda>c. if c = NL then '', '' else [c]) s)"

definition push_labelled :: "(string \<times> string) list \<Rightarrow> property list \<Rightarrow> string \<times> string \<Rightarrow> string \<Rightarrow> string" where
  "push_labelled labels ps = (\<lambda>(name, noun) out.
     fold (\<lambda>p out. push_field out (case card_label p labels of Some label \<Rightarrow> noun @ '' ('' @ label @ '')'' | None \<Rightarrow> noun)
         (commas_for_lines (if name = ''ADR'' then join_nonempty (vo_components p) '', '' else vo_text p)))
       (all_named ps name) out)"

definition render_card :: "property list \<Rightarrow> string" where
  "render_card all_props =
     (let labels = card_labels all_props;
          ps = filter shown_in_card all_props;
          structured = map_option render_structured_name (first_named ps ''N'');
          name = (case first_named ps ''FN'' of
              Some p \<Rightarrow> if trim (vo_text p) \<noteq> [] then Some (vo_text p) else structured
            | None \<Rightarrow> structured);
          out1 = (case name of Some n \<Rightarrow> push_field [] ''Name'' n | None \<Rightarrow> []);
          out2 = push_optional ''Organization'' (\<lambda>p. join_nonempty (vo_components p) '', '') (first_named ps ''ORG'') out1;
          out3 = push_optional ''Title'' vo_text (first_named ps ''TITLE'') out2;
          out4 = fold (push_labelled labels ps) [(''TEL'', ''Phone''), (''EMAIL'', ''Email''), (''ADR'', ''Address''), (''URL'', ''URL'')] out3 in
      push_optional ''Note'' vo_text (first_named ps ''NOTE'')
       (push_optional ''Categories'' vo_text (first_named ps ''CATEGORIES'')
       (push_optional ''Birthday'' vo_text (first_named ps ''BDAY'') out4)))"

definition render_cards :: "property list \<Rightarrow> string" where
  "render_cards ps =
     (let cards = vobjects [''VCARD''] ps in
      fold (\<lambda>(i, _, props) out.
        out @ (if i > 0 then [NL] else []) @ ''Contact '' @ dec (i + 1) @ '' of '' @ dec (length cards) @ [NL] @
          (let block = render_card props in if block = [] then ''(no details)'' @ [NL] else block))
        (enumerate 0 cards) [])"

section \<open>The two conversions\<close>

definition write_text :: "string \<Rightarrow> string + unit \<Rightarrow> string \<Rightarrow> string + string" where
  "write_text output written tx = (case written of Inl err \<Rightarrow> Inl (''failed to write '' @ output @ '': '' @ err) | Inr _ \<Rightarrow> Inr tx)"

text \<open>The result is what the output file then holds.\<close>

definition ics_to_text :: "string \<Rightarrow> string \<Rightarrow> string + nat \<Rightarrow> string + string \<Rightarrow> string + unit \<Rightarrow> string + string" where
  "ics_to_text input output stat contents written =
     bindE (read_properties input stat contents) (\<lambda>ps.
       if \<not> has_begin ps ''VCALENDAR'' then Inl (input @ '' '' @ NOT_A_CALENDAR_SIGNATURE @ '' -- it has no BEGIN:VCALENDAR line'')
       else write_text output written (render_calendar ps))"

definition vcf_to_text :: "string \<Rightarrow> string \<Rightarrow> string + nat \<Rightarrow> string + string \<Rightarrow> string + unit \<Rightarrow> string + string" where
  "vcf_to_text input output stat contents written =
     bindE (read_properties input stat contents) (\<lambda>ps.
       if \<not> has_begin ps ''VCARD'' then Inl (input @ '' '' @ NOT_A_VCARD_SIGNATURE @ '' -- it has no BEGIN:VCARD line'')
       else write_text output written (render_cards ps))"

end
