(* ===== verification/VobjectProofs.thy ===== *)
theory VobjectProofs
  imports Vobject
begin

text \<open>
  What \<open>Vobject\<close> promises: reading is the inverse of the writing that the two formats prescribe (folding, escaping,
  quoted-printable, parameters), and what a card withholds never shows in its text.
\<close>

section \<open>Escaped text\<close>

text \<open>The escaping of RFC 5545 and RFC 6350.\<close>

definition escape_text :: "string \<Rightarrow> string" where
  "escape_text s = concat (map (\<lambda>c. if c = NL then [BACKSLASH, CHR ''n'']
     else if c \<in> {CHR '','', CHR '';'', BACKSLASH} then [BACKSLASH, c] else [c]) s)"

lemma unescape_escape: "unescape (escape_text s @ t) = s @ unescape t"
  by (induction s) (auto simp: escape_text_def)

lemma unescape_escape_all [simp]: "unescape (escape_text s) = s"
  using unescape_escape [of s "[]"] by simp

lemma onto_part_onto [simp]: "onto_part a (onto_part b ps) = onto_part (a @ b) ps"
  by (simp add: onto_part_def split: list.split)

lemma onto_part_Cons [simp]: "onto_part a (p # ps) = (a @ p) # ps"
  by (simp add: onto_part_def)

lemma onto_part_empty [simp]: "ps \<noteq> [] \<Longrightarrow> onto_part [] ps = ps"
  by (simp add: onto_part_def split: list.split)

lemma onto_part_not_Nil [simp]: "onto_part a ps \<noteq> []"
  by (simp add: onto_part_def split: list.split)

lemma split_unescaped_not_Nil [simp]: "split_unescaped c s \<noteq> []"
  by (cases s) (auto split: list.split)

lemma split_escaped: "split_unescaped (CHR '';'') (escape_text s @ t) = onto_part (escape_text s) (split_unescaped (CHR '';'') t)"
  by (induction s) (auto simp: escape_text_def)

lemma split_escaped_parts:
  "parts \<noteq> [] \<Longrightarrow> split_unescaped (CHR '';'') (join '';'' (map escape_text parts)) = map escape_text parts"
proof (induction parts)
  case (Cons p ps)
  then show ?case using split_escaped [of p "[]"] by (cases ps) (simp_all add: split_escaped)
qed simp

lemma escape_append [simp]: "escape_text (s @ t) = escape_text s @ escape_text t"
  by (simp add: escape_text_def)

lemma escape_high: "list_all (\<lambda>c. 0x80 \<le> byte_of c) s \<Longrightarrow> escape_text s = s"
  by (induction s) (auto simp: escape_text_def)

lemma utf8_ok_escape: "utf8_ok s \<Longrightarrow> utf8_ok (escape_text s)"
proof (induction "length s" arbitrary: s rule: less_induct)
  case less
  show ?case
  proof (cases s)
    case (Cons x t)
    let ?p = "x # takeWhile is_cont t" and ?r = "dropWhile is_cont t"
    have p: "utf8_char ?p" "utf8_ok ?r" using less.prems Cons by (simp_all add: utf8_ok_Cons)
    have "utf8_ok (escape_text ?p)"
    proof (cases "byte_of x < 0x80")
      case True
      then have "escape_text ?p = escape_text [x]" using utf8_char_ascii_hd [OF p(1)] by simp
      also have "utf8_ok \<dots>" using True by (intro utf8_ok_ascii) (simp add: escape_text_def)
      finally show ?thesis .
    next
      case False
      have "\<forall>c \<in> set (takeWhile is_cont t). 0x80 \<le> byte_of c" by (auto dest: set_takeWhileD simp: is_cont_def)
      then have "escape_text ?p = ?p" using False by (intro escape_high) (simp add: list_all_iff)
      then show ?thesis using p(1) utf8_ok_char by simp
    qed
    moreover have "utf8_ok (escape_text ?r)"
      using less.hyps [of ?r] p(2) Cons by (simp add: le_imp_less_Suc length_dropWhile_le)
    moreover have "escape_text s = escape_text ?p @ escape_text ?r"
      using Cons escape_append [of ?p ?r] by simp
    ultimately show ?thesis by (simp add: utf8_ok_append)
  qed (simp add: escape_text_def)
qed

lemma utf8_ok_join: "utf8_ok sep \<Longrightarrow> list_all utf8_ok parts \<Longrightarrow> utf8_ok (join sep parts)"
  by (induction sep parts rule: join.induct) (simp_all add: utf8_ok_append)

section \<open>Quoted-printable\<close>

definition hex_char :: "nat \<Rightarrow> char" where
  "hex_char n = char_of (if n < 10 then 48 + n else 55 + n)"

definition qp_encode :: "string \<Rightarrow> string" where
  "qp_encode s = concat (map (\<lambda>c. [CHR ''='', hex_char (byte_of c div 16), hex_char (byte_of c mod 16)]) s)"

lemma hex_digit_char: "n < 16 \<Longrightarrow> hex_digit (hex_char n) = Some n"
  by (auto simp: hex_digit_def hex_char_def is_digit_def)

lemma hex_char_not_plus: "n < 16 \<Longrightarrow> hex_char n \<noteq> CHR ''+''"
proof
  assume "n < 16" "hex_char n = CHR ''+''"
  then have "hex_digit (CHR ''+'') = Some n" using hex_digit_char by metis
  then show False by (simp add: hex_digit_def is_digit_def)
qed

lemma decode_encoded: "decode_octets (qp_encode s @ t) = s @ decode_octets t"
proof (induction s)
  case (Cons c s)
  have "byte_of c div 16 < 16" by (rule less_mult_imp_div_less) simp
  moreover have "16 * (byte_of c div 16) + byte_of c mod 16 = byte_of c" by simp
  ultimately have "hex_octet (hex_char (byte_of c div 16)) (hex_char (byte_of c mod 16)) = Some (byte_of c)"
    by (simp add: hex_octet_def hex_digit_char hex_char_not_plus)
  then show ?case using Cons by (simp add: qp_encode_def)
qed (simp add: qp_encode_def)

lemma decode_quoted_printable_encoded: "utf8_ok s \<Longrightarrow> decode_quoted_printable (qp_encode s) = s"
  using decode_encoded [of s "[]"] by (simp add: decode_quoted_printable_def Let_def)

lemma decode_plain: "CHR ''='' \<notin> set s \<Longrightarrow> utf8_ok s \<Longrightarrow> decode_quoted_printable s = s"
proof -
  have "CHR ''='' \<notin> set s \<Longrightarrow> decode_octets s = s" by (induction s rule: decode_octets.induct) auto
  then show "CHR ''='' \<notin> set s \<Longrightarrow> utf8_ok s \<Longrightarrow> decode_quoted_printable s = s"
    by (simp add: decode_quoted_printable_def Let_def)
qed

section \<open>Content lines\<close>

definition format_param :: "string \<times> string \<Rightarrow> string" where
  "format_param = (\<lambda>(k, v). '';'' @ k @ ''='' @ [DQUOTE] @ v @ [DQUOTE])"

definition format_name :: "property \<Rightarrow> string" where
  "format_name p = (case vp_group p of Some g \<Rightarrow> g @ ''.'' | None \<Rightarrow> []) @ vp_name p"

definition format_property :: "property \<Rightarrow> string" where
  "format_property p = format_name p @ concat (map format_param (vp_params p)) @ '':'' @ vp_value p"

text \<open>A name that stands for itself in a head.\<close>

definition plain_name :: "string \<Rightarrow> bool" where
  "plain_name s \<longleftrightarrow> s \<noteq> [] \<and> list_all (\<lambda>c. visible c \<and> c \<notin> {DQUOTE, CHR '':'', CHR '';'', CHR ''=''}) s"

definition writable :: "property \<Rightarrow> bool" where
  "writable p \<longleftrightarrow> plain_name (vp_name p) \<and> CHR ''.'' \<notin> set (vp_name p) \<and> to_upper (vp_name p) = vp_name p \<and>
     (case vp_group p of None \<Rightarrow> True | Some g \<Rightarrow> plain_name g) \<and>
     (\<forall>(k, v) \<in> set (vp_params p). plain_name k \<and> to_upper k = k \<and> DQUOTE \<notin> set v)"

lemma plain_trim: "plain_name s \<Longrightarrow> trim s = s"
  by (intro trim_id) (auto simp: plain_name_def list_all_iff)

lemma split_head_plain:
  "DQUOTE \<notin> set s \<Longrightarrow> CHR '':'' \<notin> set s \<or> q \<Longrightarrow>
     split_head q (s @ t) = map_option (\<lambda>(h, v). (s @ h, v)) (split_head q t)"
  by (cases "split_head q t"; induction s) auto

lemma split_quoted_plain:
  "DQUOTE \<notin> set s \<Longrightarrow> c \<noteq> DQUOTE \<Longrightarrow> c \<notin> set s \<or> q \<Longrightarrow> split_quoted c q (s @ t) = onto_part s (split_quoted c q t)"
proof (induction s)
  case Nil
  have "split_quoted c q t \<noteq> []" by (cases t) auto
  then show ?case by simp
qed auto

lemma split_head_param:
  assumes "plain_name k" and "DQUOTE \<notin> set v"
  shows "split_head False (format_param (k, v) @ t) = map_option (\<lambda>(h, x). (format_param (k, v) @ h, x)) (split_head False t)"
proof -
  have k: "DQUOTE \<notin> set ('';'' @ k @ ''='')" "CHR '':'' \<notin> set ('';'' @ k @ ''='')"
    using assms(1) by (auto simp: plain_name_def list_all_iff)
  show ?thesis
    using split_head_plain [of "'';'' @ k @ ''=''" False "[DQUOTE] @ v @ [DQUOTE] @ t"] k
      split_head_plain [of v True "[DQUOTE] @ t"] assms(2)
    by (cases "split_head False t") (auto simp: format_param_def)
qed

lemma split_quoted_param:
  assumes "plain_name k" and "DQUOTE \<notin> set v"
  shows "split_quoted (CHR '';'') False (format_param (k, v) @ t) =
     [] # onto_part (tl (format_param (k, v))) (split_quoted (CHR '';'') False t)"
proof -
  have k: "DQUOTE \<notin> set (k @ ''='')" "CHR '';'' \<notin> set (k @ ''='')" using assms(1) by (auto simp: plain_name_def list_all_iff)
  show ?thesis
    using split_quoted_plain [of "k @ ''=''" "CHR '';''" False "[DQUOTE] @ v @ [DQUOTE] @ t"] k
      split_quoted_plain [of v "CHR '';''" True "[DQUOTE] @ t"] assms(2)
    by (simp add: format_param_def)
qed

lemma parse_formatted_param:
  assumes "plain_name k" and "to_upper k = k" and "DQUOTE \<notin> set v"
  shows "parse_param (tl (format_param (k, v))) = (k, v)"
proof -
  have "split_once (CHR ''='') (k @ ''='' @ [DQUOTE] @ v @ [DQUOTE]) = Some (k, [DQUOTE] @ v @ [DQUOTE])"
  proof -
    have "CHR ''='' \<notin> set k" using assms(1) unfolding plain_name_def list_all_iff by blast
    from split_once_append [OF this, of "[DQUOTE] @ v @ [DQUOTE]"] show ?thesis by simp
  qed
  moreover have "visible DQUOTE" by (simp add: visible_def ws1_def)
  then have "trim ([DQUOTE] @ v @ [DQUOTE]) = [DQUOTE] @ v @ [DQUOTE]" by (intro trim_id) auto
  moreover have "trim_by (\<lambda>c. c = DQUOTE) ([DQUOTE] @ v @ [DQUOTE]) = v"
  proof (cases "v = []")
    case False
    then have "dropWhile (\<lambda>c. c = DQUOTE) ([DQUOTE] @ v @ [DQUOTE]) = v @ [DQUOTE]"
      using assms(3) by (cases v) auto
    moreover have "dropWhile (\<lambda>c. c = DQUOTE) (rev v) = rev v" using assms(3) False by (cases "rev v") (auto simp: rev_eq_Cons_iff)
    ultimately show ?thesis by (simp add: trim_by_def trim_start_by_def trim_end_by_def)
  qed (simp add: trim_by_def trim_start_by_def trim_end_by_def)
  ultimately show ?thesis using assms(1,2) plain_trim by (simp add: parse_param_def format_param_def)
qed

lemma split_head_params:
  "\<forall>(k, v) \<in> set ps. plain_name k \<and> DQUOTE \<notin> set v \<Longrightarrow>
     split_head False (concat (map format_param ps) @ '':'' @ x) = Some (concat (map format_param ps), x)"
proof (induction ps)
  case (Cons kv ps)
  then show ?case by (cases kv) (simp add: split_head_param)
qed simp

lemma split_quoted_params:
  "\<forall>(k, v) \<in> set ps. plain_name k \<and> DQUOTE \<notin> set v \<Longrightarrow>
     split_quoted (CHR '';'') False (concat (map format_param ps)) = [] # map (tl \<circ> format_param) ps"
proof (induction ps)
  case (Cons kv ps)
  then show ?case by (cases kv) (simp add: split_quoted_param)
qed simp

lemma parse_formatted:
  assumes "writable p"
  shows "parse_content_line (format_property p) = Some p"
proof -
  let ?n = "format_name p" and ?ps = "concat (map format_param (vp_params p))"
  have w: "plain_name (vp_name p)" "CHR ''.'' \<notin> set (vp_name p)" "to_upper (vp_name p) = vp_name p"
      "\<And>g. vp_group p = Some g \<Longrightarrow> plain_name g" "\<forall>(k, v) \<in> set (vp_params p). plain_name k \<and> to_upper k = k \<and> DQUOTE \<notin> set v"
    using assms by (simp_all add: writable_def)
  have vis: "visible (CHR ''.'')" by (simp add: visible_def ws1_def)
  have n: "plain_name ?n" using w(1,4) vis by (auto simp: format_name_def plain_name_def split: option.split)
  have free: "DQUOTE \<notin> set ?n" "CHR '':'' \<notin> set ?n" "CHR '';'' \<notin> set ?n" using n by (auto simp: plain_name_def list_all_iff)
  have params: "\<forall>(k, v) \<in> set (vp_params p). plain_name k \<and> DQUOTE \<notin> set v" using w(5) by auto
  have "split_head False (format_property p) = Some (?n @ ?ps, vp_value p)"
    using free split_head_plain [of ?n False "?ps @ '':'' @ vp_value p"] split_head_params [OF params, of "vp_value p"]
    by (simp add: format_property_def)
  moreover have "split_quoted (CHR '';'') False (?n @ ?ps) = ?n # map (tl \<circ> format_param) (vp_params p)"
    using free split_quoted_plain [of ?n "CHR '';''" False ?ps] split_quoted_params [OF params] by simp
  moreover have "map parse_param (map (tl \<circ> format_param) (vp_params p)) = vp_params p"
    using w(5) by (auto simp: parse_formatted_param intro!: map_idI)
  moreover have "trim ?n = ?n" by (rule plain_trim [OF n])
  moreover have "rsplit_once (CHR ''.'') (vp_name p) = None" using w(2) by (simp only: rsplit_once_None not_False_eq_True)
  then have "(case rsplit_once (CHR ''.'') ?n of Some (g, n) \<Rightarrow> (Some g, n) | None \<Rightarrow> (None, ?n)) = (vp_group p, vp_name p)"
    using w(2) by (cases "vp_group p") (simp_all add: format_name_def del: rsplit_once_None)
  ultimately show ?thesis using w(3) by (simp add: parse_content_line_def)
qed

section \<open>Folding\<close>

text \<open>A logical line written as a first physical line and continuations of it, cut anywhere.\<close>

definition fold_line :: "string list \<Rightarrow> string" where
  "fold_line pieces = concat (map (\<lambda>r. r @ [CR, NL]) (hd pieces # map (\<lambda>c. CHR '' '' # c) (tl pieces)))"

text \<open>A line that ends in an equals sign and declares itself quoted-printable is joined to the next one as
  it is, without its last character, so a continuation after such a cut would keep its leading space.\<close>

definition soft_cut :: "string \<Rightarrow> bool" where
  "soft_cut line \<longleftrightarrow> ends_with ''='' line \<and> is_qp_line line"

fun hard_cuts :: "string \<Rightarrow> string list \<Rightarrow> bool" where
  "hard_cuts acc [] = True"
| "hard_cuts acc (c # cs) = (\<not> soft_cut (acc @ c) \<and> hard_cuts (acc @ c) cs)"

definition foldable :: "string list \<Rightarrow> bool" where
  "foldable pieces \<longleftrightarrow> pieces \<noteq> [] \<and> hd pieces \<noteq> [] \<and> visible (hd (hd pieces)) \<and>
     (\<forall>c \<in> set pieces. NL \<notin> set c) \<and> hard_cuts [] pieces"

lemma split_terminated: "\<forall>r \<in> set rs. NL \<notin> set r \<Longrightarrow> split_on NL (concat (map (\<lambda>r. r @ [NL]) rs)) = rs @ [[]]"
  by (induction rs) simp_all

lemma ends_with_char: "ends_with [x] s \<longleftrightarrow> s \<noteq> [] \<and> List.last s = x"
  by (cases s rule: rev_cases) (simp_all add: ends_with_def strip_suffix_def)

lemma strip_CR: "strip_suffix [CR] (s @ [CR]) = Some s"
  by (simp add: strip_suffix_def)

lemma soft_break_snoc [simp]: "soft_break (logical @ [x]) = soft_cut x"
  by (simp add: soft_break_def soft_cut_def)

lemma unfold_first:
  assumes "c \<noteq> []" and "visible (hd c)" and "\<not> soft_cut c"
  shows "unfold_line (c @ [CR]) (logical, False) = (logical @ [c], False)"
proof -
  have "hd c \<noteq> CHR '' ''" "hd c \<noteq> TAB" using assms(2) by (auto simp: visible_def ws1_def)
  then show ?thesis using assms(1,3) by (simp add: unfold_line_def strip_CR)
qed

lemma unfold_more:
  assumes "hard_cuts acc cs"
  shows "fold unfold_line (map (\<lambda>c. CHR '' '' # c @ [CR]) cs) (logical @ [acc], False) = (logical @ [acc @ concat cs], False)"
  using assms
proof (induction cs arbitrary: acc)
  case (Cons c cs)
  have cr: "strip_suffix [CR] (CHR '' '' # c @ [CR]) = Some (CHR '' '' # c)" using strip_CR [of "CHR '' '' # c"] by simp
  have "unfold_line (CHR '' '' # c @ [CR]) (logical @ [acc], False) = (logical @ [acc @ c], False)"
    using Cons.prems by (simp add: unfold_line_def cr)
  then show ?case using Cons.IH [of "acc @ c"] Cons.prems by simp
qed simp

lemma unfold_pieces:
  assumes "foldable pieces"
  shows "fold unfold_line (map (\<lambda>r. r @ [CR]) (hd pieces # map (\<lambda>c. CHR '' '' # c) (tl pieces))) (logical, False) =
    (logical @ [concat pieces], False)"
proof -
  obtain c cs where p: "pieces = c # cs" using assms by (cases pieces) (auto simp: foldable_def)
  then have "c \<noteq> []" "visible (hd c)" "\<not> soft_cut c" "hard_cuts c cs" using assms by (auto simp: foldable_def)
  then show ?thesis using unfold_first [of c logical] unfold_more [of c cs logical] p by (simp add: comp_def)
qed

lemma unfold_all:
  "\<forall>pieces \<in> set ls. foldable pieces \<Longrightarrow>
     fold unfold_line (concat (map (\<lambda>pieces. map (\<lambda>r. r @ [CR]) (hd pieces # map (\<lambda>c. CHR '' '' # c) (tl pieces))) ls)) (logical, False) =
     (logical @ map concat ls, False)"
proof (induction ls arbitrary: logical)
  case (Cons l ls)
  then show ?case using unfold_pieces [of l logical] by (simp del: fold_simps add: fold_append)
qed simp

lemma ball_concat_map: "(\<And>x. x \<in> set xs \<Longrightarrow> \<forall>y \<in> set (f x). P y) \<Longrightarrow> \<forall>y \<in> set (concat (map f xs)). P y"
  by (induction xs) auto

lemma unfold_folded:
  assumes "\<forall>pieces \<in> set ls. foldable pieces"
  shows "unfold_lines (concat (map fold_line ls)) = map (from_utf8_lossy \<circ> concat) ls"
proof -
  let ?raws = "concat (map (\<lambda>pieces. map (\<lambda>r. r @ [CR]) (hd pieces # map (\<lambda>c. CHR '' '' # c) (tl pieces))) ls)"
  have whole: "concat (map fold_line ls) = concat (map (\<lambda>r. r @ [NL]) ?raws)"
    by (induction ls) (simp_all add: fold_line_def comp_def)
  have "\<forall>r \<in> set (map (\<lambda>r. r @ [CR]) (hd pieces # map (\<lambda>c. CHR '' '' # c) (tl pieces))). NL \<notin> set r"
    if "pieces \<in> set ls" for pieces
  proof -
    have f: "foldable pieces" using assms that by blast
    then obtain c cs where "pieces = c # cs" by (cases pieces) (auto simp: foldable_def)
    then show ?thesis using f by (auto simp: foldable_def)
  qed
  then have "\<forall>r \<in> set ?raws. NL \<notin> set r" by (rule ball_concat_map)
  then have cut: "split_on NL (concat (map fold_line ls)) = ?raws @ [[]]" unfolding whole by (rule split_terminated)
  have bom: "strip_prefix [CHR 0xEF, CHR 0xBB, CHR 0xBF] (concat (map fold_line ls)) = None"
  proof (cases ls)
    case (Cons l rest)
    then obtain c t cs where l: "l = (c # t) # cs" and v: "visible c"
      using assms by (cases l; cases "hd l") (auto simp: foldable_def)
    then have "c \<noteq> CHR 0xEF" by (auto simp: visible_def)
    then show ?thesis using Cons l by (simp add: fold_line_def)
  qed simp
  have "unfold_line [] (x, False) = (x, False)" for x by (simp add: unfold_line_def strip_suffix_def)
  then show ?thesis using unfold_all [OF assms, of "[]"] by (simp add: unfold_lines_def bom cut del: fold_simps)
qed

section \<open>What a card withholds\<close>

text \<open>What a card is made from: the lines that open and close components, Apple's labels, and eleven
  properties by name, unless their value is base64. Photos, logos, sounds, keys, identifiers and every
  other \<open>X-\<close> property are not among them.\<close>

definition card_sources :: "string list" where
  "card_sources = [''FN'', ''N'', ''ORG'', ''TITLE'', ''TEL'', ''EMAIL'', ''ADR'', ''URL'', ''BDAY'', ''CATEGORIES'', ''NOTE'']"

definition binary_value :: "property \<Rightarrow> bool" where
  "binary_value p \<longleftrightarrow> (case map_of (vp_params p) ''ENCODING'' of
     None \<Rightarrow> False | Some e \<Rightarrow> to_upper e = ''B'' \<or> to_upper e = ''BASE64'')"

definition on_card :: "property \<Rightarrow> bool" where
  "on_card p \<longleftrightarrow> vp_name p \<in> {''BEGIN'', ''END'', ''X-ABLABEL''} \<or>
     (vp_name p \<in> set card_sources \<and> \<not> binary_value p)"

lemma on_card_step:
  assumes "on_card p"
  shows "component_step kinds p (map (apsnd (filter on_card)) found, stack, open_at) =
     (let (found', rest) = component_step kinds p (found, stack, open_at) in (map (apsnd (filter on_card)) found', rest))"
  using assms by (cases found rule: rev_cases) (auto simp: component_step_def Let_def split: option.split)

lemma off_card_step:
  assumes "\<not> on_card p" and "component_step kinds p (found, stack, open_at) = (found', stack', open')"
  shows "map (apsnd (filter on_card)) found' = map (apsnd (filter on_card)) found \<and> stack' = stack \<and> open' = open_at"
proof -
  have "vp_name p \<noteq> ''BEGIN''" "vp_name p \<noteq> ''END''" using assms(1) by (auto simp: on_card_def)
  then show ?thesis
    using assms by (cases found rule: rev_cases) (auto simp: component_step_def split: option.splits if_splits)
qed

lemma on_card_vobjects: "vobjects kinds (filter on_card ps) = map (apsnd (filter on_card)) (vobjects kinds ps)"
proof -
  have "fold (component_step kinds) (filter on_card ps) (map (apsnd (filter on_card)) found, stack, open_at) =
      (let (found', rest) = fold (component_step kinds) ps (found, stack, open_at) in (map (apsnd (filter on_card)) found', rest))"
    for found stack open_at
  proof (induction ps arbitrary: found stack open_at)
    case (Cons p ps)
    obtain found' stack' open' where step: "component_step kinds p (found, stack, open_at) = (found', stack', open')" by (metis prod_cases3)
    show ?case
    proof (cases "on_card p")
      case True
      then show ?thesis using Cons.IH [of found' stack' open'] step by (simp add: on_card_step)
    next
      case False
      then show ?thesis using Cons.IH [of found' stack' open'] step off_card_step [OF False step] by simp
    qed
  qed simp
  from this [of "[]" "[]" None] show ?thesis by (simp add: vobjects_def case_prod_beta)
qed

lemma shown_source: "shown_in_card p \<Longrightarrow> vp_name p \<in> set card_sources \<Longrightarrow> on_card p"
  by (auto simp: shown_in_card_def on_card_def is_base64_def binary_value_def vo_param_def split: option.splits)

lemma on_card_sources:
  assumes "n \<in> set card_sources"
  shows "all_named (filter shown_in_card (filter on_card ps)) n = all_named (filter shown_in_card ps) n"
  using assms shown_source by (induction ps) auto

lemma first_of_all_named: "first_named ps n = (case all_named ps n of [] \<Rightarrow> None | p # _ \<Rightarrow> Some p)"
  by (induction ps) (auto simp: first_named_def)

lemma on_card_render: "render_card (filter on_card ps) = render_card ps"
proof -
  have "all_named (filter on_card ps) ''X-ABLABEL'' = all_named ps ''X-ABLABEL''"
    by (induction ps) (auto simp: on_card_def)
  then have labels: "card_labels (filter on_card ps) = card_labels ps" by (simp only: card_labels_def)
  have one: "first_named (filter shown_in_card (filter on_card ps)) n = first_named (filter shown_in_card ps) n"
    and each: "all_named (filter shown_in_card (filter on_card ps)) n = all_named (filter shown_in_card ps) n"
    if "n \<in> set card_sources" for n
    using on_card_sources [OF that, of ps] by (simp_all only: first_of_all_named)
  have groups: "push_labelled labels (filter shown_in_card (filter on_card ps)) (n, noun) = push_labelled labels (filter shown_in_card ps) (n, noun)"
    if "n \<in> set card_sources" for n noun labels
    by (simp only: push_labelled_def prod.case each [OF that])
  have members: "''FN'' \<in> set card_sources" "''N'' \<in> set card_sources" "''ORG'' \<in> set card_sources"
    "''TITLE'' \<in> set card_sources" "''TEL'' \<in> set card_sources" "''EMAIL'' \<in> set card_sources"
    "''ADR'' \<in> set card_sources" "''URL'' \<in> set card_sources" "''BDAY'' \<in> set card_sources"
    "''CATEGORIES'' \<in> set card_sources" "''NOTE'' \<in> set card_sources"
    by (simp_all add: card_sources_def)
  show ?thesis
    unfolding render_card_def labels Let_def
    by (simp only: one members groups fold_simps id_apply comp_apply)
qed

lemma enumerate_map: "enumerate n (map g xs) = map (apsnd g) (enumerate n xs)"
  by (induction xs arbitrary: n) simp_all

lemma on_card_cards: "render_cards (filter on_card ps) = render_cards ps"
  unfolding render_cards_def on_card_vobjects enumerate_map fold_map Let_def length_map
  by (intro fold_cong refl) (auto simp: on_card_render fun_eq_iff)

lemma on_card_begin: "has_begin (filter on_card ps) component = has_begin ps component"
  by (induction ps) (auto simp: has_begin_def on_card_def)

section \<open>Components as a tree\<close>

text \<open>A file as the tree its \<open>BEGIN\<close> and \<open>END\<close> lines spell.\<close>

datatype vtree = Leaf property | Node property "vtree list" property

fun vtree_lines :: "vtree \<Rightarrow> property list" where
  "vtree_lines (Leaf p) = [p]"
| "vtree_lines (Node b ts e) = b # concat (map vtree_lines ts) @ [e]"

fun vtree_ok :: "vtree \<Rightarrow> bool" where
  "vtree_ok (Leaf p) \<longleftrightarrow> vp_name p \<noteq> ''BEGIN'' \<and> vp_name p \<noteq> ''END''"
| "vtree_ok (Node b ts e) \<longleftrightarrow> vp_name b = ''BEGIN'' \<and> vp_name e = ''END'' \<and> list_all vtree_ok ts"

definition leaves :: "vtree list \<Rightarrow> property list" where
  "leaves ts = List.map_filter (\<lambda>t. case t of Leaf p \<Rightarrow> Some p | Node _ _ _ \<Rightarrow> None) ts"

text \<open>The outermost components of the wanted kinds, each with the properties directly inside it.\<close>

fun outermost :: "string list \<Rightarrow> vtree \<Rightarrow> (string \<times> property list) list" where
  "outermost kinds (Leaf p) = []"
| "outermost kinds (Node b ts e) =
     (let name = to_upper (trim (vp_value b)) in
      if name \<in> set kinds then [(name, leaves ts)] else concat (map (outermost kinds) ts))"

lemma leaves_simps [simp]: "leaves [] = []" "leaves (Leaf p # ts) = p # leaves ts" "leaves (Node b us e # ts) = leaves ts"
  by (simp_all add: leaves_def List.map_filter_simps)

lemma component_steps:
  "vp_name p = ''BEGIN'' \<Longrightarrow> component_step kinds p (found, stack, open_at) =
     (if open_at = None \<and> to_upper (trim (vp_value p)) \<in> set kinds
      then (found @ [(to_upper (trim (vp_value p)), [])], stack @ [to_upper (trim (vp_value p))], Some (length stack))
      else (found, stack @ [to_upper (trim (vp_value p))], open_at))"
  "vp_name p = ''END'' \<Longrightarrow> component_step kinds p (found, stack @ [x], open_at) =
     (found, stack, if open_at = Some (length stack) then None else open_at)"
  "vp_name p \<noteq> ''BEGIN'' \<Longrightarrow> vp_name p \<noteq> ''END'' \<Longrightarrow> component_step kinds p (found, stack, None) = (found, stack, None)"
  "vp_name p \<noteq> ''BEGIN'' \<Longrightarrow> vp_name p \<noteq> ''END'' \<Longrightarrow> d + 1 < length stack \<Longrightarrow>
     component_step kinds p (found, stack, Some d) = (found, stack, Some d)"
  "vp_name p \<noteq> ''BEGIN'' \<Longrightarrow> vp_name p \<noteq> ''END'' \<Longrightarrow>
     component_step kinds p (found @ [(n, ps)], stack @ [x], Some (length stack)) = (found @ [(n, ps @ [p])], stack @ [x], Some (length stack))"
  by (simp_all add: component_step_def Let_def)

text \<open>Deeper than the open component nothing is collected.\<close>

lemma deep_tree:
  "vtree_ok t \<Longrightarrow> d + 1 < length stack \<Longrightarrow>
     fold (component_step kinds) (vtree_lines t) (found, stack, Some d) = (found, stack, Some d)"
proof (induction t arbitrary: stack)
  case (Node b ts e)
  have inner: "fold (component_step kinds) (concat (map vtree_lines us)) (found, stack @ [x], Some d) = (found, stack @ [x], Some d)"
    if "set us \<subseteq> set ts" for us x
    using that
  proof (induction us)
    case (Cons u us)
    then show ?case using Node.IH [of u "stack @ [x]"] Node.prems by (auto simp: list_all_iff)
  qed simp
  then show ?case using Node.prems by (simp add: component_steps Let_def)
qed (simp add: component_steps)

lemma open_trees:
  "list_all vtree_ok ts \<Longrightarrow>
     fold (component_step kinds) (concat (map vtree_lines ts)) (found @ [(n, ps)], stack @ [x], Some (length stack)) =
       (found @ [(n, ps @ leaves ts)], stack @ [x], Some (length stack))"
proof (induction ts arbitrary: ps)
  case (Cons t ts)
  show ?case
  proof (cases t)
    case (Leaf p)
    then show ?thesis using Cons.IH [of "ps @ [p]"] Cons.prems by (simp add: component_steps)
  next
    case (Node b us e)
    have "fold (component_step kinds) (concat (map vtree_lines us)) (f, stack @ [x] @ [y], Some (length stack)) =
        (f, stack @ [x] @ [y], Some (length stack))" if "list_all vtree_ok us" for f y us
      using that
    proof (induction us)
      case (Cons u us)
      then show ?case using deep_tree [of u "length stack" "stack @ [x] @ [y]"] by simp
    qed simp
    then show ?thesis using Cons Node component_steps(2) [of e kinds _ "stack @ [x]"] by (simp add: component_steps(1))
  qed
qed simp

lemma closed_tree:
  "vtree_ok t \<Longrightarrow> fold (component_step kinds) (vtree_lines t) (found, stack, None) = (found @ outermost kinds t, stack, None)"
proof (induction t arbitrary: found stack)
  case (Node b ts e)
  let ?n = "to_upper (trim (vp_value b))"
  have inner: "fold (component_step kinds) (concat (map vtree_lines us)) (f, stack @ [?n], None) =
      (f @ concat (map (outermost kinds) us), stack @ [?n], None)" if "set us \<subseteq> set ts" for us f
    using that
  proof (induction us arbitrary: f)
    case (Cons u us)
    then show ?case using Node.IH [of u] Node.prems by (auto simp: list_all_iff)
  qed simp
  show ?case
  proof (cases "?n \<in> set kinds")
    case True
    then show ?thesis using open_trees [of ts kinds found ?n "[]" stack ?n] Node.prems by (simp add: component_steps Let_def)
  next
    case False
    then show ?thesis using inner [of ts found] Node.prems by (simp add: component_steps Let_def)
  qed
qed (simp add: component_steps)

lemma closed_trees:
  "list_all vtree_ok ts \<Longrightarrow>
     fold (component_step kinds) (concat (map vtree_lines ts)) (found, stack, None) = (found @ concat (map (outermost kinds) ts), stack, None)"
  by (induction ts arbitrary: found) (simp_all add: closed_tree)

section \<open>Properties\<close>

text \<open>C29. Reading undoes writing. Take any properties with ordinary names, parameter values without quotes and
  arbitrary UTF-8 values, write them as content lines, and fold every line anywhere, inside a character or an
  escape as well, with one restriction (\<open>foldable\<close>): a line that says \<open>QUOTED-PRINTABLE\<close> before its
  first colon is not cut right after an equals sign and does not end in one, which there is the soft break of
  that encoding. Then the file is read back as exactly those properties; and where a value was made of
  components by escaping them, and encoding the result if the property says quoted-printable, exactly those
  components are seen.\<close>

theorem vobject_round_trip:
  assumes "\<forall>p \<in> set ps. writable p \<and> utf8_ok (format_property p) \<and> foldable (pieces p) \<and> concat (pieces p) = format_property p"
    and "n \<le> MAX_INPUT_BYTES"
  shows "read_properties input (Inr n) (Inr (concat (map (fold_line \<circ> pieces) ps))) = Inr ps \<and>
    (\<forall>p \<in> set ps. \<forall>parts. parts \<noteq> [] \<and> list_all utf8_ok parts \<and>
      vp_value p = (if is_quoted_printable p then qp_encode else id) (join '';'' (map escape_text parts)) \<longrightarrow>
        vo_components p = parts \<and> (length parts = 1 \<longrightarrow> vo_text p = hd parts))"
proof (intro conjI ballI allI impI)
  have "unfold_lines (concat (map fold_line (map pieces ps))) = map (from_utf8_lossy \<circ> concat) (map pieces ps)"
    by (rule unfold_folded) (use assms(1) in auto)
  also have "\<dots> = map format_property ps" using assms(1) by (simp add: lossy_utf8)
  finally have ls: "unfold_lines (concat (map (fold_line \<circ> pieces) ps)) = map format_property ps" by (simp add: comp_def)
  have "List.map_filter parse_content_line (map format_property ps) = ps"
    using assms(1) by (induction ps) (simp_all add: parse_formatted List.map_filter_simps)
  then show "read_properties input (Inr n) (Inr (concat (map (fold_line \<circ> pieces) ps))) = Inr ps"
    using assms(2) by (simp add: read_properties_def ls)
  fix p parts assume p: "parts \<noteq> [] \<and> list_all utf8_ok parts \<and>
      vp_value p = (if is_quoted_printable p then qp_encode else id) (join '';'' (map escape_text parts))"
  have "utf8_ok (join '';'' (map escape_text parts))"
    using p by (intro utf8_ok_join utf8_ok_ascii) (auto simp: list_all_iff utf8_ok_escape)
  then have d: "vo_decoded p = join '';'' (map escape_text parts)"
    using p by (auto simp: vo_decoded_def decode_quoted_printable_encoded)
  then show "vo_components p = parts" using p split_escaped_parts [of parts] by (simp add: vo_components_def comp_def)
  show "vo_text p = hd parts" if "length parts = 1"
    using d that by (cases parts) (simp_all add: vo_text_def)
qed

text \<open>C30. The components of a file are its outermost ones. For every file whose \<open>BEGIN\<close> and \<open>END\<close> lines nest, the
  single pass over its lines finds what the tree holds: each component of a wanted kind that is not inside
  another such component, in file order, with exactly the properties directly inside it and none of those of
  a component nested in it.\<close>

theorem components_are_the_outermost:
  assumes "list_all vtree_ok ts"
  shows "vobjects kinds (concat (map vtree_lines ts)) = concat (map (outermost kinds) ts)"
  using closed_trees [OF assms, of kinds "[]" "[]"] by (simp add: vobjects_def)

text \<open>C31. A card withholds what it drops. The text made of a contact file depends on nothing but the lines that
  open and close components, Apple's \<open>X-ABLabel\<close> labels, and the properties named in \<open>card_sources\<close>
  whose value is not base64 (\<open>on_card\<close>): two files that agree on these, in order, give the same text and
  pass the same check of being a contact file, whatever stands in, is added to or is taken from their photos,
  logos, sounds, keys, identifiers, revisions, other \<open>X-\<close> properties and base64 values.\<close>

theorem card_withholds_payloads:
  assumes "filter on_card ps = filter on_card qs"
  shows "render_cards ps = render_cards qs \<and> has_begin ps ''VCARD'' = has_begin qs ''VCARD''"
  using assms on_card_cards [of ps] on_card_cards [of qs] on_card_begin [of ps] on_card_begin [of qs] by simp

section \<open>Concrete files\<close>

definition home_address :: property where
  "home_address = \<lparr>vp_group = Some ''item1'', vp_name = ''ADR'', vp_params = [(''TYPE'', ''HOME'')],
     vp_value = ''caf'' @ [CHR 0xC3, CHR 0xA9] @ [BACKSLASH] @ '';b;c''\<rparr>"

text \<open>Cut inside the accented character.\<close>

definition home_pieces :: "property \<Rightarrow> string list" where
  "home_pieces p = (let s = format_property p in [take 26 s, drop 26 s])"

lemma home_ok: "writable home_address \<and> utf8_ok (format_property home_address) \<and> foldable (home_pieces home_address) \<and>
    concat (home_pieces home_address) = format_property home_address"
  "drop 25 (format_property home_address) = [CHR 0xC3, CHR 0xA9, BACKSLASH] @ '';b;c''"
  "\<not> is_quoted_printable home_address"
  by code_simp+

theorem vobject_round_trip_witness:
  "read_properties ''c.vcf'' (Inr 40) (Inr (fold_line (home_pieces home_address))) = Inr [home_address] \<and>
     vo_components home_address = [''caf'' @ [CHR 0xC3, CHR 0xA9] @ '';b'', ''c'']"
proof -
  let ?parts = "[''caf'' @ [CHR 0xC3, CHR 0xA9] @ '';b'', ''c'']"
  have "vp_value home_address = join '';'' (map escape_text ?parts)" "list_all utf8_ok ?parts" by code_simp+
  then show ?thesis
    using vobject_round_trip [of "[home_address]" home_pieces 40 "''c.vcf''"] home_ok
    by (simp add: MAX_INPUT_BYTES_def)
qed

definition vo_line :: "string \<Rightarrow> string \<Rightarrow> property" where
  "vo_line name v = \<lparr>vp_group = None, vp_name = name, vp_params = [], vp_value = v\<rparr>"

definition event_tree :: vtree where
  "event_tree = Node (vo_line ''BEGIN'' ''VEVENT'') [Leaf (vo_line ''SUMMARY'' ''lunch''),
     Node (vo_line ''BEGIN'' ''VALARM'') [Leaf (vo_line ''SUMMARY'' ''beep'')] (vo_line ''END'' ''VALARM'')] (vo_line ''END'' ''VEVENT'')"

text \<open>A photo and a name that is base64, beside a plain card.\<close>

definition plain_card :: "property list" where
  "plain_card = [vo_line ''BEGIN'' ''VCARD'', vo_line ''FN'' ''Ann'', vo_line ''END'' ''VCARD'']"

definition photo_card :: "property list" where
  "photo_card = [vo_line ''BEGIN'' ''VCARD'', (vo_line ''PHOTO'' ''/9j/4AAQ'')\<lparr>vp_params := [(''ENCODING'', ''b'')]\<rparr>,
     (vo_line ''NOTE'' ''c2VjcmV0'')\<lparr>vp_params := [(''ENCODING'', ''BASE64'')]\<rparr>, vo_line ''X-KEY'' ''k'',
     vo_line ''FN'' ''Ann'', vo_line ''END'' ''VCARD'']"

theorem card_withholds_payloads_witness: "render_cards photo_card = render_cards plain_card"
proof -
  have "filter on_card photo_card = filter on_card plain_card" by code_simp
  from card_withholds_payloads [OF this] show ?thesis by simp
qed

theorem components_are_the_outermost_witness:
  "vobjects [''VEVENT''] (concat (map vtree_lines [event_tree])) = [(''VEVENT'', [vo_line ''SUMMARY'' ''lunch''])]"
proof -
  have "list_all vtree_ok [event_tree]" "concat (map (outermost [''VEVENT'']) [event_tree]) = [(''VEVENT'', [vo_line ''SUMMARY'' ''lunch''])]"
    by code_simp+
  then show ?thesis using components_are_the_outermost [of "[event_tree]" "[''VEVENT'']"] by simp
qed

end
