(* ===== verification/Icns.thy ===== *)
theory Icns
  imports Utf8Lossy TransformSelect
begin

text \<open>
  \<open>transform/icns.rs\<close>: picking the largest embedded picture out of an icon container, and writing it out. Bytes
  are characters.
\<close>

section \<open>The container\<close>

definition PNG_MAGIC :: string where
  "PNG_MAGIC = [CHR 0x89] @ ''PNG'' @ [CR, NL, CHR 0x1A, NL]"

definition JP2_MAGIC :: string where
  "JP2_MAGIC = [CHR 0x00, CHR 0x00, CHR 0x00, CHR 0x0C] @ ''jP  '' @ [CR, NL, CHR 0x87, NL]"

definition J2K_CODESTREAM_MAGIC :: string where
  "J2K_CODESTREAM_MAGIC = [CHR 0xFF, CHR 0x4F, CHR 0xFF, CHR 0x51]"

datatype icns_encoding = PngEntry | Jpeg2000Entry

fun encoding_extension :: "icns_encoding \<Rightarrow> string" where
  "encoding_extension PngEntry = ''png''"
| "encoding_extension Jpeg2000Entry = ''jp2''"

record icns_entry =
  ic_kind :: string
  ic_encoding :: icns_encoding
  ic_data :: string

definition nominal_size :: "string \<Rightarrow> nat option" where
  "nominal_size kind = map_of [(''icp4'', 16), (''icp5'', 32), (''ic11'', 32), (''icp6'', 64), (''ic12'', 64), (''ic07'', 128),
     (''ic08'', 256), (''ic13'', 256), (''ic09'', 512), (''ic14'', 512), (''ic10'', 1024)] kind"

definition encoding_of :: "string \<Rightarrow> icns_encoding option" where
  "encoding_of payload = (if starts_with PNG_MAGIC payload then Some PngEntry
     else if starts_with JP2_MAGIC payload \<or> starts_with J2K_CODESTREAM_MAGIC payload then Some Jpeg2000Entry else None)"

definition be32 :: "string \<Rightarrow> nat" where
  "be32 bs = foldl (\<lambda>n c. 256 * n + byte_of c) 0 bs"

type_synonym sized_entry = "nat \<times> icns_entry"

definition better_entry :: "sized_entry \<Rightarrow> sized_entry option \<Rightarrow> bool" where
  "better_entry e best = (case best of
     None \<Rightarrow> True
   | Some b \<Rightarrow> fst b < fst e \<or> (fst b = fst e \<and> length (ic_data (snd b)) < length (ic_data (snd e))))"

definition sized_entry_of :: "string \<Rightarrow> string \<Rightarrow> sized_entry option" where
  "sized_entry_of kind payload = (case (nominal_size kind, encoding_of payload) of
     (Some n, Some enc) \<Rightarrow> Some (n, \<lparr>ic_kind = kind, ic_encoding = enc, ic_data = payload\<rparr>)
   | _ \<Rightarrow> None)"

definition note_sized :: "string \<Rightarrow> string \<Rightarrow> sized_entry option \<Rightarrow> sized_entry option" where
  "note_sized kind payload best = (case sized_entry_of kind payload of
     None \<Rightarrow> best
   | Some e \<Rightarrow> if better_entry e best then Some e else best)"

function icns_loop :: "string \<Rightarrow> nat \<Rightarrow> sized_entry option \<Rightarrow> string + sized_entry option" where
  "icns_loop bytes offset best =
     (if offset + 8 \<le> length bytes then
        (let kind = take 4 (drop offset bytes);
             len = be32 (take 4 (drop (offset + 4) bytes)) in
         if len < 8 \<or> length bytes < offset + len
         then Inl (''entry '' @ from_utf8_lossy kind @ '' at byte '' @ dec offset @ '' overruns the file -- '' @ NOT_AN_ICNS_SIGNATURE)
         else icns_loop bytes (offset + len) (note_sized kind (take (len - 8) (drop (offset + 8) bytes)) best))
      else Inr best)"
  by pat_completeness auto
termination by (relation "measure (\<lambda>(bytes, offset, _). length bytes - offset)") auto

declare icns_loop.simps [simp del]

definition largest_entry :: "string \<Rightarrow> string + icns_entry" where
  "largest_entry bytes =
     (if length bytes < 8 \<or> take 4 bytes \<noteq> ''icns'' then Inl (''does not start with an icns header -- '' @ NOT_AN_ICNS_SIGNATURE)
      else bindE (icns_loop bytes 8 None) (\<lambda>best. case best of
          Some (_, e) \<Rightarrow> Inr e
        | None \<Rightarrow> Inl (''has no PNG or JPEG 2000 image -- '' @ NOT_AN_ICNS_SIGNATURE)))"

text \<open>The path and the bytes written there.\<close>

definition extract_largest :: "string \<Rightarrow> string + string \<Rightarrow> string \<Rightarrow> string + unit \<Rightarrow> string + string \<times> string" where
  "extract_largest input contents work_dir written = (case contents of
     Inl err \<Rightarrow> Inl (''failed to read '' @ input @ '': '' @ err)
   | Inr bytes \<Rightarrow> (case largest_entry bytes of
       Inl err \<Rightarrow> Inl (input @ '' '' @ err)
     | Inr e \<Rightarrow>
         (let p = path_join work_dir (''icns-entry.'' @ encoding_extension (ic_encoding e)) in
          case written of Inl err \<Rightarrow> Inl (''failed to write '' @ p @ '': '' @ err) | Inr _ \<Rightarrow> Inr (p, ic_data e))))"

section \<open>Written containers\<close>

definition to_be32 :: "nat \<Rightarrow> string" where
  "to_be32 n = [char_of (n div 16777216), char_of (n div 65536), char_of (n div 256), char_of n]"

definition icns_record :: "string \<times> string \<Rightarrow> string" where
  "icns_record = (\<lambda>(kind, payload). kind @ to_be32 (length payload + 8) @ payload)"

text \<open>The length in the header is not read.\<close>

definition icns_file :: "string \<Rightarrow> (string \<times> string) list \<Rightarrow> string" where
  "icns_file header_len es = ''icns'' @ header_len @ concat (map icns_record es)"

definition entry_fits :: "string \<times> string \<Rightarrow> bool" where
  "entry_fits = (\<lambda>(kind, payload). length kind = 4 \<and> length payload + 8 < 2 ^ 32)"

lemma be32_to_be32:
  assumes "n < 2 ^ 32"
  shows "be32 (to_be32 n) = n"
proof -
  define a where "a = n div 256"
  define b where "b = a div 256"
  define c where "c = b div 256"
  have d: "n div 65536 = b" "n div 16777216 = c" by (simp_all add: a_def b_def c_def div_mult2_eq [symmetric])
  have "c < 256" using assms d(2) by (simp add: less_mult_imp_div_less)
  then have "be32 (to_be32 n) = 256 * (256 * (256 * c + b mod 256) + a mod 256) + n mod 256"
    by (simp add: be32_def to_be32_def d a_def [symmetric])
  moreover have "256 * c + b mod 256 = b" "256 * b + a mod 256 = a" "256 * a + n mod 256 = n"
    by (simp_all add: c_def b_def a_def)
  ultimately show ?thesis by simp
qed

lemma length_to_be32 [simp]: "length (to_be32 n) = 4"
  by (simp add: to_be32_def)

lemma icns_loop_records:
  "\<forall>e \<in> set es. entry_fits e \<Longrightarrow> offset = length pre \<Longrightarrow>
     icns_loop (pre @ concat (map icns_record es)) offset best = Inr (fold (\<lambda>(kind, payload). note_sized kind payload) es best)"
proof (induction es arbitrary: pre offset best)
  case Nil
  then show ?case by (simp add: icns_loop.simps)
next
  case (Cons e es)
  obtain kind payload where e: "e = (kind, payload)" by fastforce
  then have fits: "length kind = 4" "length payload + 8 < 2 ^ 32" using Cons.prems by (auto simp: entry_fits_def)
  let ?rest = "concat (map icns_record es)" and ?len = "length payload + 8"
  let ?bytes = "pre @ icns_record e @ ?rest"
  have rec: "icns_record e = kind @ to_be32 ?len @ payload" by (simp add: icns_record_def e)
  have kind: "take 4 (drop offset ?bytes) = kind" using fits Cons.prems(2) by (simp add: rec)
  have "drop (offset + 4) ?bytes = to_be32 ?len @ payload @ ?rest" using fits Cons.prems(2) by (simp add: rec)
  then have len: "be32 (take 4 (drop (offset + 4) ?bytes)) = ?len" using be32_to_be32 [OF fits(2)] by simp
  have "drop (offset + 8) ?bytes = payload @ ?rest" using fits Cons.prems(2) by (simp add: rec)
  then have body: "take (?len - 8) (drop (offset + 8) ?bytes) = payload" by simp
  have rlen: "length (icns_record e) = ?len" using fits by (simp add: rec)
  have bounds: "offset + 8 \<le> length ?bytes" "\<not> ?len < 8" "\<not> length ?bytes < offset + ?len"
    using Cons.prems(2) rlen by simp_all
  have "icns_loop ?bytes offset best = icns_loop ?bytes (offset + ?len) (note_sized kind payload best)"
    by (subst icns_loop.simps) (simp only: bounds if_True if_False Let_def kind len body simp_thms)
  also have "\<dots> = Inr (fold (\<lambda>(kind, payload). note_sized kind payload) es (note_sized kind payload best))"
    using Cons.IH [where pre = "pre @ icns_record e" and offset = "offset + ?len"] Cons.prems rlen by simp
  finally show ?case by (simp add: e)
qed

text \<open>The pictures of a container, by size.\<close>

definition pictures :: "(string \<times> string) list \<Rightarrow> sized_entry list" where
  "pictures es = List.map_filter (\<lambda>(kind, payload). sized_entry_of kind payload) es"

abbreviation rank :: "sized_entry \<Rightarrow> nat \<times> nat" where
  "rank e \<equiv> (fst e, length (ic_data (snd e)))"

definition before :: "nat \<times> nat \<Rightarrow> nat \<times> nat \<Rightarrow> bool" where
  "before a b \<longleftrightarrow> fst a < fst b \<or> (fst a = fst b \<and> snd a < snd b)"

lemma fold_note_pictures:
  "fold (\<lambda>(kind, payload). note_sized kind payload) es best = fold (\<lambda>e b. if better_entry e b then Some e else b) (pictures es) best"
  by (induction es arbitrary: best)
    (auto simp: pictures_def List.map_filter_simps note_sized_def split: option.splits)

text \<open>The first of the greatest.\<close>

lemma fold_better:
  "case fold (\<lambda>e b. if better_entry e b then Some e else b) xs best of
     None \<Rightarrow> xs = [] \<and> best = None
   | Some m \<Rightarrow> (\<forall>e \<in> set xs \<union> set_option best. \<not> before (rank m) (rank e)) \<and>
       (best = Some m \<or> (\<exists>ys zs. xs = ys @ m # zs \<and> (\<forall>e \<in> set ys \<union> set_option best. before (rank e) (rank m))))"
proof (induction xs rule: rev_induct)
  case Nil
  then show ?case by (auto simp: before_def split: option.split)
next
  case (snoc x xs)
  let ?b = "fold (\<lambda>e b. if better_entry e b then Some e else b) xs best"
  have better: "better_entry x (Some m) \<longleftrightarrow> before (rank m) (rank x)" for m by (auto simp: better_entry_def before_def)
  have trans: "before a c" if "before a b" "before b c" for a b c using that by (auto simp: before_def)
  have total: "before a c" if "\<not> before b a" "before b c" for a b c using that by (auto simp: before_def)
  show ?case
  proof (cases ?b)
    case None
    then have "xs = []" "best = None" using snoc by simp_all
    then show ?thesis by (auto simp: better_entry_def before_def intro: exI [of _ "[]"])
  next
    case (Some m)
    then have m: "\<forall>e \<in> set xs \<union> set_option best. \<not> before (rank m) (rank e)"
      "best = Some m \<or> (\<exists>ys zs. xs = ys @ m # zs \<and> (\<forall>e \<in> set ys \<union> set_option best. before (rank e) (rank m)))"
      using snoc by simp_all
    show ?thesis
    proof (cases "before (rank m) (rank x)")
      case True
      then have "\<forall>e \<in> set xs \<union> set_option best. before (rank e) (rank x)" using m(1) total by blast
      moreover have asym: "\<not> before b a" if "before a b" for a b using that by (auto simp: before_def)
      ultimately have "\<forall>e \<in> set xs \<union> set_option best. \<not> before (rank x) (rank e)" by blast
      then have "\<forall>e \<in> set (xs @ [x]) \<union> set_option best. \<not> before (rank x) (rank e)" by (simp add: before_def)
      then show ?thesis using Some True better \<open>\<forall>e \<in> set xs \<union> set_option best. before (rank e) (rank x)\<close> by auto
    next
      case False
      then have "fold (\<lambda>e b. if better_entry e b then Some e else b) (xs @ [x]) best = Some m" using Some better by simp
      moreover have "\<forall>e \<in> set (xs @ [x]) \<union> set_option best. \<not> before (rank m) (rank e)" using m(1) False by simp
      moreover have "best = Some m \<or> (\<exists>ys zs. xs @ [x] = ys @ m # zs \<and> (\<forall>e \<in> set ys \<union> set_option best. before (rank e) (rank m)))"
        using m(2) by (metis append.assoc append_Cons)
      ultimately show ?thesis by (simp only: option.case simp_thms)
    qed
  qed
qed

section \<open>Property\<close>

text \<open>C32. The best picture of an icon is found. In every well-formed container, whatever its header says of its
  length, the entry taken is one of the PNG or JPEG 2000 pictures in it, no picture is larger by nominal size
  and then by payload, and among equals it is the first; without a picture the container is refused with the
  signature that stops retries and marks a wrong kind. The bytes written out are that picture's, under a name
  with its own extension.\<close>

theorem icns_takes_the_largest:
  assumes "\<forall>e \<in> set es. entry_fits e" and "length header_len = 4"
  shows "case largest_entry (icns_file header_len es) of
      Inl err \<Rightarrow> pictures es = [] \<and> is_wrong_input_kind_error err
    | Inr e \<Rightarrow> \<exists>n ys zs. pictures es = ys @ (n, e) # zs \<and> (\<forall>o' \<in> set (pictures es). \<not> before (rank (n, e)) (rank o')) \<and>
        (\<forall>o' \<in> set ys. before (rank o') (rank (n, e))) \<and>
        extract_largest input (Inr (icns_file header_len es)) dir (Inr ()) =
          Inr (path_join dir (''icns-entry.'' @ encoding_extension (ic_encoding e)), ic_data e)"
proof -
  let ?bytes = "icns_file header_len es"
  have head: "\<not> (length ?bytes < 8 \<or> take 4 ?bytes \<noteq> ''icns'')" using assms(2) by (simp add: icns_file_def)
  have "icns_loop ?bytes 8 None = Inr (fold (\<lambda>e b. if better_entry e b then Some e else b) (pictures es) None)"
    using icns_loop_records [OF assms(1), of 8 "''icns'' @ header_len" None] assms(2)
    by (simp add: icns_file_def fold_note_pictures)
  then have "largest_entry ?bytes = (case fold (\<lambda>e b. if better_entry e b then Some e else b) (pictures es) None of
      Some (_, e) \<Rightarrow> Inr e | None \<Rightarrow> Inl (''has no PNG or JPEG 2000 image -- '' @ NOT_AN_ICNS_SIGNATURE))"
    using head by (simp add: largest_entry_def split: option.split)
  moreover have "is_wrong_input_kind_error (''has no PNG or JPEG 2000 image -- '' @ NOT_AN_ICNS_SIGNATURE)" by code_simp
  moreover note fold_better [of "pictures es" None]
  ultimately show ?thesis
  proof (cases "fold (\<lambda>e b. if better_entry e b then Some e else b) (pictures es) None")
    case None
    then show ?thesis using \<open>largest_entry ?bytes = _\<close> \<open>is_wrong_input_kind_error _\<close> fold_better [of "pictures es" None] by simp
  next
    case (Some m)
    obtain n e where m: "m = (n, e)" by fastforce
    then obtain ys zs where "pictures es = ys @ (n, e) # zs" "\<forall>o' \<in> set ys. before (rank o') (rank (n, e))"
      "\<forall>o' \<in> set (pictures es). \<not> before (rank (n, e)) (rank o')"
      using fold_better [of "pictures es" None] Some by auto
    moreover have "largest_entry ?bytes = Inr e" using \<open>largest_entry ?bytes = _\<close> Some m by simp
    ultimately show ?thesis by (simp only: sum.case extract_largest_def) (auto simp: Let_def)
  qed
qed

definition two_icons :: "(string \<times> string) list" where
  "two_icons = [(''ic07'', PNG_MAGIC), (''is32'', ''raw''), (''ic10'', JP2_MAGIC)]"

theorem icns_takes_the_largest_witness:
  "\<exists>e. largest_entry (icns_file ''size'' two_icons) = Inr e \<and> ic_kind e = ''ic10''"
proof -
  have fits: "\<forall>e \<in> set two_icons. entry_fits e" by (simp add: two_icons_def entry_fits_def PNG_MAGIC_def JP2_MAGIC_def)
  have pics: "map (\<lambda>(n, e). (n, ic_kind e)) (pictures two_icons) = [(128, ''ic07''), (1024, ''ic10'')]"
    by code_simp
  then obtain a b where ab: "pictures two_icons = [(128, a), (1024, b)]" "ic_kind b = ''ic10''" by auto
  note largest = icns_takes_the_largest [OF fits, of "''size''" "''a.icns''" "''scratch''"]
  show ?thesis
  proof (cases "largest_entry (icns_file ''size'' two_icons)")
    case (Inl err)
    then show ?thesis using largest ab by simp
  next
    case (Inr e)
    then obtain n ys zs where e: "pictures two_icons = ys @ (n, e) # zs" "\<forall>o' \<in> set (pictures two_icons). \<not> before (rank (n, e)) (rank o')"
      using largest by auto
    then have "(n, e) \<in> set (pictures two_icons)" by simp
    then show ?thesis using Inr ab e(2) by (auto simp: before_def)
  qed
qed

end
