(* ===== verification/Procreate.thy ===== *)
theory Procreate
  imports Lzo1x TransformSelect Complex_Main
begin

text \<open>
  \<open>transform/procreate.rs\<close>: exporting a Procreate document as an image. The zip and property-list readers, the PNG
  codec, the parsing of a decimal number and the \<open>f64\<close> operations are libraries and are parameters. What is modelled
  is the document's fields, the tiles, the canvas, its orientation and the comparison with the thumbnail.
\<close>

section \<open>Images\<close>

definition MAX_SIDE :: nat where "MAX_SIDE = 16384"
definition THUMBNAIL_PATH :: string where "THUMBNAIL_PATH = ''QuickLook/Thumbnail.png''"

record image =
  im_width :: nat
  im_height :: nat
  im_pixels :: "u8 list"

definition unreadable :: "string \<Rightarrow> 'a result" where
  "unreadable detail = Inl (Err (detail @ '' -- '' @ NOT_A_PROCREATE_SIGNATURE))"

text \<open>An archive: its names in the order it gives them, and how looking up and reading an entry ends.\<close>

record zip_archive =
  za_names :: "string list"
  za_entry :: "string \<Rightarrow> string + (string + u8 list)"

definition read_entry :: "zip_archive \<Rightarrow> string \<Rightarrow> u8 list result" where
  "read_entry z name = (case za_entry z name of
     Inl err \<Rightarrow> unreadable (''missing '' @ name @ '': '' @ err)
   | Inr (Inl err) \<Rightarrow> unreadable (''failed to read '' @ name @ '': '' @ err)
   | Inr (Inr bytes) \<Rightarrow> Inr bytes)"

section \<open>The document\<close>

text \<open>Property lists, as far as they are looked at.\<close>

datatype plist = PDict "(string \<times> plist) list" | PArray "plist list" | PString string | PInteger int | PUid nat | PData string | POther

definition as_dictionary :: "plist \<Rightarrow> (string \<times> plist) list option" where
  "as_dictionary v = (case v of PDict d \<Rightarrow> Some d | _ \<Rightarrow> None)"

definition as_array :: "plist \<Rightarrow> plist list option" where
  "as_array v = (case v of PArray a \<Rightarrow> Some a | _ \<Rightarrow> None)"

definition as_string :: "plist \<Rightarrow> string option" where
  "as_string v = (case v of PString s \<Rightarrow> Some s | _ \<Rightarrow> None)"

definition as_unsigned_integer :: "plist \<Rightarrow> nat option" where
  "as_unsigned_integer v = (case v of PInteger i \<Rightarrow> if 0 \<le> i then Some (nat i) else None | _ \<Rightarrow> None)"

definition as_signed_integer :: "plist \<Rightarrow> int option" where
  "as_signed_integer v = (case v of PInteger i \<Rightarrow> if i < 2 ^ 63 then Some i else None | _ \<Rightarrow> None)"

definition some_or :: "'a option \<Rightarrow> string \<Rightarrow> 'a result" where
  "some_or v detail = (case v of Some x \<Rightarrow> Inr x | None \<Rightarrow> unreadable detail)"

record keyed_archive =
  ka_top :: "(string \<times> plist) list"
  ka_objects :: "plist list"

definition keyed_new :: "plist \<Rightarrow> keyed_archive result" where
  "keyed_new v =
     bindE (some_or (as_dictionary v) ''Document.archive is not a keyed archive'') (\<lambda>d.
     bindE (some_or (Option.bind (map_of d ''$top'') as_dictionary) ''Document.archive has no $top'') (\<lambda>top.
     bindE (some_or (Option.bind (map_of d ''$objects'') as_array) ''Document.archive has no $objects'') (\<lambda>objects.
     Inr \<lparr>ka_top = top, ka_objects = objects\<rparr>)))"

definition keyed_resolve :: "keyed_archive \<Rightarrow> plist \<Rightarrow> plist result" where
  "keyed_resolve k v = (case v of
     PUid uid \<Rightarrow> if uid < length (ka_objects k) then Inr (ka_objects k ! uid) else unreadable ''dangling archive reference''
   | _ \<Rightarrow> Inr v)"

definition keyed_top :: "keyed_archive \<Rightarrow> string \<Rightarrow> plist result" where
  "keyed_top k key = bindE (some_or (map_of (ka_top k) key) (''Document.archive has no $top.'' @ key)) (keyed_resolve k)"

definition keyed_dict :: "plist \<Rightarrow> (string \<times> plist) list result" where
  "keyed_dict v = some_or (as_dictionary v) ''expected an archived object''"

text \<open>A decimal number as \<open>f64\<close> parses it: none, not finite, or its value; \<open>shown\<close> is the text in quotes.\<close>

type_synonym f64_parser = "string \<Rightarrow> rat option option"

definition rounded_side :: "rat \<Rightarrow> nat option" where
  "rounded_side r = (let n = \<lfloor>r + 1 / 2\<rfloor> in if 1 \<le> n \<and> n \<le> int MAX_SIDE then Some (nat n) else None)"

definition parse_size :: "f64_parser \<Rightarrow> string \<Rightarrow> string \<Rightarrow> (nat \<times> nat) result" where
  "parse_size f64 shown tx =
     (case Option.bind (strip_prefix ''{'' (trim tx)) (strip_suffix ''}'') of
        None \<Rightarrow> unreadable (''canvas size '' @ shown @ '' is malformed'')
      | Some inner \<Rightarrow> (case map (f64 \<circ> trim) (split_on (CHR '','') inner) of
          [Some width, Some height] \<Rightarrow>
            (case (Option.bind width rounded_side, Option.bind height rounded_side) of
               (Some w, Some h) \<Rightarrow> Inr (w, h)
             | _ \<Rightarrow> unreadable (''canvas size '' @ shown @ '' is out of range''))
        | _ \<Rightarrow> unreadable (''canvas size '' @ shown @ '' is malformed'')))"

record document =
  do_width :: nat
  do_height :: nat
  do_tile_size :: nat
  do_orientation :: int
  do_composite_uuid :: string

text \<open>The tile size is narrowed to 32 bits before it is checked.\<close>

definition document_parse ::
  "f64_parser \<Rightarrow> (string \<Rightarrow> string) \<Rightarrow> (u8 list \<Rightarrow> string + plist) \<Rightarrow> u8 list \<Rightarrow> document result" where
  "document_parse f64 shown plist_of archive =
     bindE (case plist_of archive of Inl err \<Rightarrow> unreadable (''Document.archive is not a plist: '' @ err) | Inr v \<Rightarrow> Inr v) (\<lambda>v.
     bindE (keyed_new v) (\<lambda>k.
     bindE (keyed_top k ''root'') (\<lambda>root_value.
     bindE (keyed_dict root_value) (\<lambda>root.
     bindE (some_or (map_of root ''size'') ''no canvas size'') (\<lambda>size_ref.
     bindE (keyed_resolve k size_ref) (\<lambda>size_value.
     bindE (some_or (as_string size_value) ''canvas size is not a string'') (\<lambda>size_text.
     bindE (parse_size f64 (shown size_text) size_text) (\<lambda>(width, height).
     bindE (some_or (Option.bind (map_of root ''tileSize'') as_unsigned_integer) ''no tile size'') (\<lambda>tile_wide.
     let tile = tile_wide mod 2 ^ 32 in
     if \<not> (16 \<le> tile \<and> tile \<le> 4096) then unreadable (''implausible tile size '' @ dec tile)
     else
     let orientation = (case Option.bind (map_of root ''orientation'') as_signed_integer of Some i \<Rightarrow> i | None \<Rightarrow> 1) in
     bindE (some_or (map_of root ''composite'') ''no composite layer'') (\<lambda>composite_ref.
     bindE (keyed_resolve k composite_ref) (\<lambda>composite_value.
     bindE (keyed_dict composite_value) (\<lambda>composite.
     bindE (some_or (map_of composite ''UUID'') ''composite layer has no UUID'') (\<lambda>uuid_ref.
     bindE (keyed_resolve k uuid_ref) (\<lambda>uuid_value.
     bindE (some_or (as_string uuid_value) ''composite UUID is not a string'') (\<lambda>uuid.
     if uuid = [] \<or> \<not> list_all (\<lambda>c. is_alnum c \<or> c = CHR ''-'') uuid then unreadable ''composite UUID is malformed''
     else Inr \<lparr>do_width = width, do_height = height, do_tile_size = tile, do_orientation = orientation,
       do_composite_uuid = uuid\<rparr>)))))))))))))))"

section \<open>Tiles\<close>

definition tile_position :: "string \<Rightarrow> string \<Rightarrow> (nat \<times> nat) option" where
  "tile_position name uuid =
     Option.bind (strip_prefix uuid name) (\<lambda>r. Option.bind (strip_prefix ''/'' r) (\<lambda>rest.
     Option.bind (strip_suffix ''.chunk'' rest) (\<lambda>stem. Option.bind (split_once (CHR ''~'') stem) (\<lambda>(col, row).
     Option.bind (parse_u32 col) (\<lambda>c. Option.bind (parse_u32 row) (\<lambda>r. Some (c, r)))))))"

definition overwrite :: "'a list \<Rightarrow> nat \<Rightarrow> 'a list \<Rightarrow> 'a list" where
  "overwrite xs i ys = take i xs @ ys @ drop (i + length ys) xs"

fun foldE :: "('a \<Rightarrow> 's \<Rightarrow> 's result) \<Rightarrow> 'a list \<Rightarrow> 's \<Rightarrow> 's result" where
  "foldE f [] s = Inr s"
| "foldE f (x # xs) s = bindE (f x s) (foldE f xs)"

text \<open>A row of a tile, copied with the bounds checks of the two slices.\<close>

definition blit_row :: "nat \<Rightarrow> nat \<Rightarrow> nat \<Rightarrow> nat \<Rightarrow> u8 list \<Rightarrow> nat \<Rightarrow> u8 list \<Rightarrow> u8 list result" where
  "blit_row width x0 y0 tile_width raw ty pixels =
     (let dst = ((y0 + ty) * width + x0) * 4 in
      if length raw < ty * tile_width * 4 + tile_width * 4 \<or> length pixels < dst + tile_width * 4 then Inl Panic
      else Inr (overwrite pixels dst (take (tile_width * 4) (drop (ty * tile_width * 4) raw))))"

definition place_tile :: "zip_archive \<Rightarrow> document \<Rightarrow> string \<times> nat \<times> nat \<Rightarrow> u8 list \<Rightarrow> u8 list result" where
  "place_tile z doc = (\<lambda>(name, col, row) pixels.
     let width = do_width doc; height = do_height doc; tile = do_tile_size doc; x0 = col * tile; y0 = row * tile in
     if width \<le> x0 \<or> height \<le> y0 then unreadable (''tile '' @ name @ '' lies outside the canvas'')
     else
     let tile_width = min tile (width - x0); tile_height = min tile (height - y0); tile_bytes = tile_width * tile_height * 4 in
     bindE (read_entry z name) (\<lambda>compressed.
     bindE (case decompress compressed tile_bytes of
         Inl (Err err) \<Rightarrow> unreadable (''tile '' @ name @ '': '' @ err) | Inl Panic \<Rightarrow> Inl Panic | Inr raw \<Rightarrow> Inr raw) (\<lambda>raw.
     if length raw \<noteq> tile_bytes
     then unreadable (''tile '' @ name @ '' decompressed to '' @ dec (length raw) @ '' bytes, expected '' @ dec tile_bytes @
       '' ('' @ dec tile_width @ ''x'' @ dec tile_height @ '')'')
     else foldE (blit_row width x0 y0 tile_width raw) [0..<tile_height] pixels)))"

fun unpremultiply :: "u8 list \<Rightarrow> u8 list" where
  "unpremultiply (r # g # b # a # rest) =
     (let alpha = unat a;
          f = (\<lambda>c. if alpha = 0 \<or> alpha = 255 then c else of_nat (min ((unat c * 255 + alpha div 2) div alpha) 255)) in
      f r # f g # f b # a # unpremultiply rest)"
| "unpremultiply rest = rest"

text \<open>The tiles come in the order of a hash map: any order of the entries that are tiles.\<close>

definition assemble ::
  "((string \<times> nat \<times> nat) list \<Rightarrow> (string \<times> nat \<times> nat) list) \<Rightarrow> zip_archive \<Rightarrow> document \<Rightarrow> image result" where
  "assemble order z doc =
     (let tiles = order (List.map_filter (\<lambda>name. map_option (\<lambda>p. (name, p)) (tile_position name (do_composite_uuid doc))) (za_names z)) in
      if tiles = [] then unreadable ''the composite layer has no tiles''
      else bindE (foldE (place_tile z doc) tiles (replicate (do_width doc * do_height doc * 4) 0)) (\<lambda>pixels.
        Inr \<lparr>im_width = do_width doc, im_height = do_height doc, im_pixels = unpremultiply pixels\<rparr>))"

section \<open>Orientation\<close>

definition swap_rows :: "nat \<Rightarrow> nat \<Rightarrow> nat \<Rightarrow> u8 list \<Rightarrow> u8 list result" where
  "swap_rows row height y pixels =
     (let i = y * row; j = (height - 1 - y) * row in
      if length pixels < j \<or> j < i + row \<or> length pixels - j < row then Inl Panic
      else Inr (overwrite (overwrite pixels i (take row (drop j pixels))) j (take row (drop i pixels))))"

definition flip_vertical :: "image \<Rightarrow> image result" where
  "flip_vertical im =
     bindE (foldE (swap_rows (im_width im * 4) (im_height im)) [0..<im_height im div 2] (im_pixels im)) (\<lambda>pixels.
       Inr (im\<lparr>im_pixels := pixels\<rparr>))"

datatype rotation = Clockwise | CounterClockwise | Half

definition rotated_to :: "rotation \<Rightarrow> nat \<Rightarrow> nat \<Rightarrow> nat \<times> nat \<Rightarrow> nat \<times> nat" where
  "rotated_to rot w h = (\<lambda>(x, y). case rot of
     Clockwise \<Rightarrow> (h - 1 - y, x) | CounterClockwise \<Rightarrow> (y, w - 1 - x) | Half \<Rightarrow> (w - 1 - x, h - 1 - y))"

definition rotated_size :: "rotation \<Rightarrow> nat \<Rightarrow> nat \<Rightarrow> nat \<times> nat" where
  "rotated_size rot w h = (case rot of Half \<Rightarrow> (w, h) | _ \<Rightarrow> (h, w))"

definition move_pixel :: "rotation \<Rightarrow> image \<Rightarrow> nat \<times> nat \<Rightarrow> u8 list \<Rightarrow> u8 list result" where
  "move_pixel rot im = (\<lambda>(y, x) pixels.
     let w = im_width im; h = im_height im; (nx, ny) = rotated_to rot w h (x, y);
         src = (y * w + x) * 4; dst = (ny * fst (rotated_size rot w h) + nx) * 4 in
     if length (im_pixels im) < src + 4 \<or> length pixels < dst + 4 then Inl Panic
     else Inr (overwrite pixels dst (take 4 (drop src (im_pixels im)))))"

definition rotate_image :: "image \<Rightarrow> rotation \<Rightarrow> image result" where
  "rotate_image im rot =
     bindE (foldE (move_pixel rot im) (List.product [0..<im_height im] [0..<im_width im]) (replicate (length (im_pixels im)) 0)) (\<lambda>pixels.
       Inr \<lparr>im_width = fst (rotated_size rot (im_width im) (im_height im)),
         im_height = snd (rotated_size rot (im_width im) (im_height im)), im_pixels = pixels\<rparr>)"

definition show_int :: "int \<Rightarrow> string" where
  "show_int i = (if i < 0 then ''-'' @ dec (nat (- i)) else dec (nat i))"

definition orient :: "image \<Rightarrow> int \<Rightarrow> image result" where
  "orient im orientation =
     (if orientation = 1 then Inr im
      else if orientation = 2 then rotate_image im Half
      else if orientation = 3 then rotate_image im CounterClockwise
      else if orientation = 4 then rotate_image im Clockwise
      else unreadable (''unknown canvas orientation '' @ show_int orientation))"

section \<open>The thumbnail\<close>

datatype png_color = PngRgba | PngRgb | PngGrayscaleAlpha | PngGrayscale | PngIndexed

fun rgb_to_rgba :: "u8 list \<Rightarrow> u8 list" where
  "rgb_to_rgba (r # g # b # rest) = r # g # b # 255 # rgb_to_rgba rest"
| "rgb_to_rgba _ = []"

fun grey_alpha_to_rgba :: "u8 list \<Rightarrow> u8 list" where
  "grey_alpha_to_rgba (g # a # rest) = g # g # g # a # grey_alpha_to_rgba rest"
| "grey_alpha_to_rgba _ = []"

definition grey_to_rgba :: "u8 list \<Rightarrow> u8 list" where
  "grey_to_rgba buffer = concat (map (\<lambda>g. [g, g, g, 255]) buffer)"

text \<open>A decoded frame is its colour type, its size and its samples.\<close>

definition decode_png :: "(u8 list \<Rightarrow> string + png_color \<times> nat \<times> nat \<times> u8 list) \<Rightarrow> u8 list \<Rightarrow> string + image" where
  "decode_png reader bytes = bindE (reader bytes) (\<lambda>(color, width, height, buffer).
     let image_of = (\<lambda>pixels. Inr \<lparr>im_width = width, im_height = height, im_pixels = pixels\<rparr>) in
     case color of
       PngRgba \<Rightarrow> image_of buffer
     | PngRgb \<Rightarrow> image_of (rgb_to_rgba buffer)
     | PngGrayscaleAlpha \<Rightarrow> image_of (grey_alpha_to_rgba buffer)
     | PngGrayscale \<Rightarrow> image_of (grey_to_rgba buffer)
     | PngIndexed \<Rightarrow> Inl ''unexpanded palette'')"

section \<open>The comparison with the thumbnail\<close>

text \<open>An \<open>f64\<close> is its 64 bits. Its arithmetic, its comparison, the sum of an iterator, the value of a literal or a
  converted integer, and how it is shown with one decimal are the library's.\<close>

type_synonym f64 = "64 word"

record f64_ops =
  fl_rat :: "rat \<Rightarrow> f64"
  fl_add :: "f64 \<Rightarrow> f64 \<Rightarrow> f64"
  fl_sub :: "f64 \<Rightarrow> f64 \<Rightarrow> f64"
  fl_mul :: "f64 \<Rightarrow> f64 \<Rightarrow> f64"
  fl_div :: "f64 \<Rightarrow> f64 \<Rightarrow> f64"
  fl_abs :: "f64 \<Rightarrow> f64"
  fl_greater :: "f64 \<Rightarrow> f64 \<Rightarrow> bool"
  fl_sum :: "f64 list \<Rightarrow> f64"
  fl_show1 :: "f64 \<Rightarrow> string"

definition fl_nat :: "f64_ops \<Rightarrow> nat \<Rightarrow> f64" where
  "fl_nat fl n = fl_rat fl (of_nat n)"

definition MAX_THUMBNAIL_DIFFERENCE :: rat where "MAX_THUMBNAIL_DIFFERENCE = 6"

definition over_white :: "f64_ops \<Rightarrow> u8 list \<Rightarrow> f64 list" where
  "over_white fl px =
     (let alpha = fl_div fl (fl_nat fl (unat (px ! 3))) (fl_rat fl 255) in
      map (\<lambda>c. fl_add fl (fl_mul fl (fl_nat fl (unat (px ! c))) alpha)
          (fl_mul fl (fl_rat fl 255) (fl_sub fl (fl_rat fl 1) alpha))) [0, 1, 2])"

text \<open>One pixel added to the cell it falls in. The indices are \<open>u32\<close> and wrap; the slice and the cell are bounds-checked.\<close>

type_synonym cell_sums = "f64 list list \<times> nat list"

definition add_to_cell :: "f64_ops \<Rightarrow> image \<Rightarrow> nat \<Rightarrow> nat \<Rightarrow> nat \<times> nat \<Rightarrow> cell_sums \<Rightarrow> cell_sums result" where
  "add_to_cell fl im width height = (\<lambda>(y, x) (totals, counts).
     let cy = y * height div im_height im mod 2 ^ 32; cx = x * width div im_width im mod 2 ^ 32;
         index = (y * im_width im + x) mod 2 ^ 32 * 4; cell = (cy * width + cx) mod 2 ^ 32 in
     if length (im_pixels im) < index + 4 then Inl Panic
     else let rgb = over_white fl (take 4 (drop index (im_pixels im))) in
     if length totals \<le> cell \<or> length counts \<le> cell then Inl Panic
     else Inr (totals[cell := map2 (fl_add fl) (totals ! cell) rgb], counts[cell := (counts ! cell + 1) mod 2 ^ 32]))"

definition downscale :: "f64_ops \<Rightarrow> image \<Rightarrow> nat \<Rightarrow> nat \<Rightarrow> f64 list list result" where
  "downscale fl im width height =
     (let n = width * height mod 2 ^ 32 in
      bindE (foldE (add_to_cell fl im width height) (List.product [0..<im_height im] [0..<im_width im])
          (replicate n (replicate 3 (fl_rat fl 0)), replicate n 0)) (\<lambda>(totals, counts).
        Inr (map2 (\<lambda>sum count. map (\<lambda>v. fl_div fl v (fl_nat fl (max count 1))) sum) totals counts)))"

text \<open>\<open>chunks_exact(4)\<close>.\<close>

fun pixels_of :: "u8 list \<Rightarrow> u8 list list" where
  "pixels_of (r # g # b # a # rest) = [r, g, b, a] # pixels_of rest"
| "pixels_of _ = []"

definition thumbnail_difference :: "f64_ops \<Rightarrow> image \<Rightarrow> image \<Rightarrow> f64 result" where
  "thumbnail_difference fl im thumbnail =
     bindE (downscale fl im (im_width thumbnail) (im_height thumbnail)) (\<lambda>scaled.
       let total = fl_sum fl (map2 (\<lambda>ours theirs. fl_sum fl (map2 (\<lambda>a b. fl_abs fl (fl_sub fl a b)) ours (over_white fl theirs)))
             scaled (pixels_of (im_pixels thumbnail))) in
       Inr (fl_div fl total (fl_mul fl (fl_nat fl (length scaled)) (fl_rat fl 3))))"

definition verify_against_thumbnail :: "f64_ops \<Rightarrow> image \<Rightarrow> image \<Rightarrow> unit result" where
  "verify_against_thumbnail fl im thumbnail =
     (let expected_height = fl_div fl (fl_mul fl (fl_nat fl (im_width thumbnail)) (fl_nat fl (im_height im))) (fl_nat fl (im_width im)) in
      if fl_greater fl (fl_abs fl (fl_sub fl expected_height (fl_nat fl (im_height thumbnail)))) (fl_rat fl (3 / 2))
      then Inl (Err (''export is '' @ dec (im_width im) @ ''x'' @ dec (im_height im) @ '' but the thumbnail is '' @
        dec (im_width thumbnail) @ ''x'' @ dec (im_height thumbnail) @ '', a different shape -- '' @ PROCREATE_UNVERIFIED_SIGNATURE))
      else bindE (thumbnail_difference fl im thumbnail) (\<lambda>difference.
        if fl_greater fl difference (fl_rat fl MAX_THUMBNAIL_DIFFERENCE)
        then Inl (Err (''export differs from the thumbnail by '' @ fl_show1 fl difference @ '' (limit 6) -- '' @
          PROCREATE_UNVERIFIED_SIGNATURE))
        else Inr ()))"

section \<open>The export\<close>

text \<open>The libraries an export uses: opening the file and the zip, the plist reader, the number parser and the quoted
  text, the order of the tiles, the PNG reader, \<open>f64\<close>, the encoder and writing the result.\<close>

record export_env =
  ex_open :: "string + unit"
  ex_zip :: "string + zip_archive"
  ex_plist :: "u8 list \<Rightarrow> string + plist"
  ex_f64 :: f64_parser
  ex_shown :: "string \<Rightarrow> string"
  ex_order :: "(string \<times> nat \<times> nat) list \<Rightarrow> (string \<times> nat \<times> nat) list"
  ex_png :: "u8 list \<Rightarrow> string + png_color \<times> nat \<times> nat \<times> u8 list"
  ex_float :: f64_ops
  ex_encode :: "image \<Rightarrow> string + u8 list"
  ex_write :: "string + unit"

text \<open>The exported image and the bytes written.\<close>

definition export_png :: "export_env \<Rightarrow> string \<Rightarrow> string \<Rightarrow> (image \<times> u8 list) result" where
  "export_png env input output =
     bindE (map_sum (\<lambda>err. Err (''failed to open '' @ input @ '': '' @ err)) id (ex_open env)) (\<lambda>_.
     bindE (case ex_zip env of Inl err \<Rightarrow> unreadable (input @ '' is not a zip: '' @ err) | Inr z \<Rightarrow> Inr z) (\<lambda>z.
     bindE (read_entry z ''Document.archive'') (\<lambda>archive.
     bindE (document_parse (ex_f64 env) (ex_shown env) (ex_plist env) archive) (\<lambda>doc.
     bindE (assemble (ex_order env) z doc) (\<lambda>composite.
     bindE (flip_vertical composite) (\<lambda>flipped.
     bindE (orient flipped (do_orientation doc)) (\<lambda>oriented.
     bindE (read_entry z THUMBNAIL_PATH) (\<lambda>thumbnail_bytes.
     bindE (map_sum (\<lambda>err. Err (input @ '': its thumbnail could not be decoded ('' @ err @
         ''), so the export cannot be verified -- '' @ PROCREATE_UNVERIFIED_SIGNATURE)) id (decode_png (ex_png env) thumbnail_bytes)) (\<lambda>thumbnail.
     bindE (case verify_against_thumbnail (ex_float env) oriented thumbnail of
         Inl (Err err) \<Rightarrow> Inl (Err (input @ '': '' @ err)) | r \<Rightarrow> r) (\<lambda>_.
     bindE (map_sum (\<lambda>err. Err (''failed to encode PNG: '' @ err)) id (ex_encode env oriented)) (\<lambda>bytes.
     bindE (map_sum (\<lambda>err. Err (''failed to write '' @ output @ '': '' @ err)) id (ex_write env)) (\<lambda>_.
     Inr (oriented, bytes)))))))))))))"

end
