(* ===== verification/ProcreateProofs.thy ===== *)
theory ProcreateProofs
  imports Procreate
begin

text \<open>
  The image a Procreate export produces, pixel by pixel, and that no document makes it panic. A buffer is looked at
  as its four-byte pixels; every copying loop is a fold whose invariant is proved over the part already done.
\<close>

section \<open>Pixels\<close>

definition pixel :: "u8 list \<Rightarrow> nat \<Rightarrow> u8 list" where
  "pixel px i = take 4 (drop (4 * i) px)"

lemma length_overwrite [simp]: "i + length ys \<le> length xs \<Longrightarrow> length (overwrite xs i ys) = length xs"
  by (simp add: overwrite_def)

lemma pixel_overwrite:
  assumes "length b = 4 * m" and "4 * (j + m) \<le> length px"
  shows "pixel (overwrite px (4 * j) b) i = (if j \<le> i \<and> i < j + m then pixel b (i - j) else pixel px i)"
proof -
  have j: "length (take (4 * j) px) = 4 * j" using assms(2) by simp
  consider "i < j" | "j \<le> i" "i < j + m" | "j + m \<le> i" by linarith
  then show ?thesis
  proof cases
    case 1
    then have "4 * i + 4 \<le> 4 * j" by simp
    then have "take 4 (drop (4 * i) (take (4 * j) px) @ r) = take 4 (drop (4 * i) px)" for r
      using j by (simp add: drop_take)
    then show ?thesis using 1 assms(2) by (simp add: pixel_def overwrite_def)
  next
    case 2
    then have "4 * (i - j) + 4 \<le> length b" "4 * i - 4 * j = 4 * (i - j)" using assms(1) by simp_all
    then show ?thesis using 2 j by (simp add: pixel_def overwrite_def)
  next
    case 3
    then have "4 * i - 4 * j - length b + (4 * j + length b) = 4 * i" using assms(1) by simp
    then show ?thesis using 3 j assms(1) by (simp add: pixel_def overwrite_def)
  qed
qed

lemma pixel_part: "i < m \<Longrightarrow> pixel (take (4 * m) (drop (4 * k) px)) i = pixel px (k + i)"
proof -
  assume "i < m"
  then have "4 * i + 4 \<le> 4 * m" by simp
  then show ?thesis by (simp add: pixel_def drop_take min_def add.commute [of k] algebra_simps)
qed

lemma pixel_pixel [simp]: "pixel (pixel px i) 0 = pixel px i"
  by (simp add: pixel_def)

text \<open>A pixel in part of a row.\<close>

lemma row_index:
  assumes "x < w" and "x0 + n \<le> (w :: nat)"
  shows "Y * w + x0 \<le> y * w + x \<and> y * w + x < Y * w + x0 + n \<longleftrightarrow> y = Y \<and> x0 \<le> x \<and> x < x0 + n"
proof -
  have lt: "y * w + x < Y * w" if "y < Y" for y Y
  proof -
    have "y * w + w \<le> Y * w" using mult_le_mono1 [of "Suc y" Y w] that by simp
    then show ?thesis using assms(1) by simp
  qed
  consider "y < Y" | "y = Y" | "Y < y" by linarith
  then show ?thesis
  proof cases
    case 3
    have "Y * w + w \<le> y * w" using mult_le_mono1 [of "Suc Y" y w] 3 by simp
    then show ?thesis using 3 assms by linarith
  qed (use lt in fastforce)+
qed

lemma pixel_index_less: "x < w \<Longrightarrow> y < h \<Longrightarrow> y * w + x < h * (w :: nat)"
  using mult_le_mono1 [of "Suc y" h w] by simp

lemma pixel_index_inj: "x < w \<Longrightarrow> x' < w \<Longrightarrow> y * w + x = y' * w + x' \<Longrightarrow> x = x' \<and> y = (y' :: nat)"
  using row_index [of x w x' 1 y' y] by auto

section \<open>Loops with errors\<close>

lemma foldE_append: "foldE f (xs @ ys) s = bindE (foldE f xs s) (foldE f ys)"
  by (induction xs arbitrary: s) (simp_all add: bindE_def split: sum.split)

lemma foldE_rule:
  assumes "P [] s" and "\<And>ys x zs t. xs = ys @ x # zs \<Longrightarrow> P ys t \<Longrightarrow> \<exists>t'. f x t = Inr t' \<and> P (ys @ [x]) t'"
  shows "\<exists>t. foldE f xs s = Inr t \<and> P xs t"
proof -
  have "xs = ys @ zs \<Longrightarrow> \<exists>t. foldE f ys s = Inr t \<and> P ys t" for ys zs
  proof (induction ys arbitrary: zs rule: rev_induct)
    case (snoc y ys)
    then obtain t where t: "foldE f ys s = Inr t" "P ys t" by fastforce
    then obtain t' where "f y t = Inr t'" "P (ys @ [y]) t'" using assms(2) [of ys y zs t] snoc.prems by auto
    then show ?case using t by (simp add: foldE_append)
  qed (use assms(1) in simp)
  then show ?thesis by simp
qed

lemma foldE_upto:
  assumes "P 0 s" and "\<And>k t. k < n \<Longrightarrow> P k t \<Longrightarrow> \<exists>t'. f k t = Inr t' \<and> P (Suc k) t'"
  shows "\<exists>t. foldE f [0..<n] s = Inr t \<and> P n t"
proof -
  have "\<exists>t. foldE f [0..<n] s = Inr t \<and> P (length [0..<n]) t"
  proof (rule foldE_rule)
    fix ys x zs t assume e: "[0..<n] = ys @ x # zs" and t: "P (length ys) t"
    have "length ys < n" using arg_cong [OF e, of length] by simp
    moreover have "x = length ys" using arg_cong [OF e, of "\<lambda>l. l ! length ys"] \<open>length ys < n\<close> by (simp add: nth_append)
    ultimately show "\<exists>t'. f x t = Inr t' \<and> P (length (ys @ [x])) t'" using assms(2) t by simp
  qed (use assms(1) in simp)
  then show ?thesis by simp
qed

lemma foldE_not_panic:
  assumes "P s" and "\<And>x t. x \<in> set xs \<Longrightarrow> P t \<Longrightarrow> f x t \<noteq> Inl Panic" and "\<And>x t t'. x \<in> set xs \<Longrightarrow> P t \<Longrightarrow> f x t = Inr t' \<Longrightarrow> P t'"
  shows "foldE f xs s \<noteq> Inl Panic \<and> (\<forall>t. foldE f xs s = Inr t \<longrightarrow> P t)"
  using assms
proof (induction xs arbitrary: s)
  case (Cons x xs)
  show ?case
  proof (cases "f x s")
    case (Inl e)
    then show ?thesis using Cons.prems(2) [OF list.set_intros(1) Cons.prems(1)] by simp
  next
    case (Inr t)
    then have "P t" using Cons.prems(1) Cons.prems(3) [of x s t] by simp
    have "foldE f xs t \<noteq> Inl Panic \<and> (\<forall>u. foldE f xs t = Inr u \<longrightarrow> P u)"
    proof (rule Cons.IH [OF \<open>P t\<close>])
      fix y u assume y: "y \<in> set xs" "P u"
      show "f y u \<noteq> Inl Panic" using Cons.prems(2) [OF list.set_intros(2) y(2)] y(1) by blast
      fix v assume "f y u = Inr v"
      then show "P v" using Cons.prems(3) [OF list.set_intros(2) y(2)] y(1) by blast
    qed
    then show ?thesis using Inr by simp
  qed
qed simp

section \<open>One tile\<close>

lemma blit_tile:
  assumes "x0 + tw \<le> w" and "y0 + th \<le> h" and "length px = w * h * 4" and "length raw = tw * th * 4"
  shows "\<exists>px'. foldE (blit_row w x0 y0 tw raw) [0..<th] px = Inr px' \<and> length px' = length px \<and>
    (\<forall>x < w. \<forall>y < h. pixel px' (y * w + x) = (if x0 \<le> x \<and> x < x0 + tw \<and> y0 \<le> y \<and> y < y0 + th
       then pixel raw ((y - y0) * tw + (x - x0)) else pixel px (y * w + x)))"
proof -
  let ?P = "\<lambda>k t. length t = length px \<and> (\<forall>x < w. \<forall>y < h. pixel t (y * w + x) =
    (if x0 \<le> x \<and> x < x0 + tw \<and> y0 \<le> y \<and> y < y0 + k then pixel raw ((y - y0) * tw + (x - x0)) else pixel px (y * w + x)))"
  have "\<exists>t. foldE (blit_row w x0 y0 tw raw) [0..<th] px = Inr t \<and> ?P th t"
  proof (rule foldE_upto [where P = ?P])
    fix k t assume k: "k < th" and t: "?P k t"
    let ?j = "(y0 + k) * w + x0" and ?b = "take (4 * tw) (drop (4 * (k * tw)) raw)"
    have r: "k * tw + tw \<le> tw * th" using mult_le_mono1 [of "Suc k" th tw] k by (simp add: mult.commute)
    have "(y0 + k) * w + w \<le> h * w" using mult_le_mono1 [of "Suc (y0 + k)" h w] k assms(2) by simp
    then have fits: "4 * (?j + tw) \<le> length t" using assms(1,3) t by (simp add: mult.commute)
    have b: "length ?b = 4 * tw" using r assms(4) by simp
    have scale: "?j * 4 = 4 * ?j" "tw * 4 = 4 * tw" "k * tw * 4 = 4 * (k * tw)" by simp_all
    have "\<not> (length raw < 4 * (k * tw) + 4 * tw \<or> length t < 4 * ?j + 4 * tw)" using fits r assms(4) by simp
    then have run: "blit_row w x0 y0 tw raw k t = Inr (overwrite t (4 * ?j) ?b)"
      unfolding blit_row_def Let_def scale by simp
    have "pixel (overwrite t (4 * ?j) ?b) (y * w + x) = (if x0 \<le> x \<and> x < x0 + tw \<and> y0 \<le> y \<and> y < y0 + Suc k
        then pixel raw ((y - y0) * tw + (x - x0)) else pixel px (y * w + x))" if "x < w" "y < h" for x y
    proof (cases "y = y0 + k \<and> x0 \<le> x \<and> x < x0 + tw")
      case True
      then have "y * w + x - ?j = x - x0" "x - x0 < tw" by auto
      moreover have "?j \<le> y * w + x \<and> y * w + x < ?j + tw" using row_index [OF \<open>x < w\<close> assms(1), of "y0 + k" y] True by blast
      ultimately show ?thesis using True pixel_part [of "x - x0" tw "k * tw" raw]
        by (simp only: pixel_overwrite [OF b fits] if_True) simp
    next
      case False
      then have "\<not> (?j \<le> y * w + x \<and> y * w + x < ?j + tw)" using row_index [OF \<open>x < w\<close> assms(1), of "y0 + k" y] by blast
      then have "pixel (overwrite t (4 * ?j) ?b) (y * w + x) = pixel t (y * w + x)"
        by (simp only: pixel_overwrite [OF b fits] if_False)
      then show ?thesis using t that False by (auto simp: less_Suc_eq)
    qed
    moreover have "length (overwrite t (4 * ?j) ?b) = length px" using fits b t by simp
    ultimately show "\<exists>t'. blit_row w x0 y0 tw raw k t = Inr t' \<and> ?P (Suc k) t'" using run by blast
  qed (use assms in auto)
  then show ?thesis by blast
qed

section \<open>The canvas\<close>

type_synonym tile = "string \<times> nat \<times> nat"

definition tile_width :: "document \<Rightarrow> nat \<Rightarrow> nat" where
  "tile_width doc col = min (do_tile_size doc) (do_width doc - col * do_tile_size doc)"

definition tile_height :: "document \<Rightarrow> nat \<Rightarrow> nat" where
  "tile_height doc row = min (do_tile_size doc) (do_height doc - row * do_tile_size doc)"

text \<open>A tile inside the canvas whose entry decompresses to exactly its pixels.\<close>

definition tile_holds :: "zip_archive \<Rightarrow> document \<Rightarrow> tile \<Rightarrow> u8 list \<Rightarrow> bool" where
  "tile_holds z doc = (\<lambda>(name, col, row) raw.
     col * do_tile_size doc < do_width doc \<and> row * do_tile_size doc < do_height doc \<and>
     length raw = tile_width doc col * tile_height doc row * 4 \<and>
     (\<exists>compressed. read_entry z name = Inr compressed \<and> decompress compressed (length raw) = Inr raw))"

text \<open>What the tiles say a pixel of the canvas is: nothing where there is no tile.\<close>

definition canvas_pixel :: "document \<Rightarrow> (string \<Rightarrow> u8 list) \<Rightarrow> tile list \<Rightarrow> nat \<Rightarrow> nat \<Rightarrow> u8 list" where
  "canvas_pixel doc raw tiles x y = (let t = do_tile_size doc in
     case map_of (map (\<lambda>(name, col, row). ((col, row), name)) tiles) (x div t, y div t) of
       Some name \<Rightarrow> pixel (raw name) (y mod t * tile_width doc (x div t) + x mod t)
     | None \<Rightarrow> [0, 0, 0, 0])"

abbreviation positions :: "tile list \<Rightarrow> (nat \<times> nat) list" where
  "positions tiles \<equiv> map (\<lambda>(name, col, row). (col, row)) tiles"

lemma in_tile_iff:
  "0 < t \<Longrightarrow> x < w \<Longrightarrow> (col * t \<le> x \<and> x < col * t + min t (w - col * t)) \<longleftrightarrow> x div t = (col :: nat)"
proof -
  assume t: "0 < t" and x: "x < w"
  have "x div t = col" if "col * t \<le> x" "x < col * t + t"
    using that div_nat_eqI [of t col x] by (simp add: mult.commute)
  moreover have "x div t * t \<le> x" "x < x div t * t + t"
    using t dividend_less_div_times [of t x] by (simp_all add: add.commute)
  ultimately show ?thesis using x by auto
qed

lemma place_one_tile:
  assumes "tile_holds z doc (name, col, row) raw" and "0 < do_tile_size doc" and "length px = do_width doc * do_height doc * 4"
  shows "\<exists>px'. place_tile z doc (name, col, row) px = Inr px' \<and> length px' = length px \<and>
    (\<forall>x < do_width doc. \<forall>y < do_height doc. pixel px' (y * do_width doc + x) =
      (if (x div do_tile_size doc, y div do_tile_size doc) = (col, row)
       then pixel raw (y mod do_tile_size doc * tile_width doc col + x mod do_tile_size doc) else pixel px (y * do_width doc + x)))"
proof -
  let ?w = "do_width doc" and ?h = "do_height doc" and ?t = "do_tile_size doc"
  let ?tw = "tile_width doc col" and ?th = "tile_height doc row"
  obtain compressed where h: "col * ?t < ?w" "row * ?t < ?h" "length raw = ?tw * ?th * 4"
      "read_entry z name = Inr compressed" "decompress compressed (?tw * ?th * 4) = Inr raw"
    using assms(1) by (auto simp: tile_holds_def)
  have "col * ?t + ?tw \<le> ?w" "row * ?t + ?th \<le> ?h" using h(1,2) by (simp_all add: tile_width_def tile_height_def)
  from blit_tile [OF this assms(3) h(3)] obtain px' where px': "foldE (blit_row ?w (col * ?t) (row * ?t) ?tw raw) [0..<?th] px = Inr px'"
      "length px' = length px" "\<And>x y. x < ?w \<Longrightarrow> y < ?h \<Longrightarrow> pixel px' (y * ?w + x) =
        (if col * ?t \<le> x \<and> x < col * ?t + ?tw \<and> row * ?t \<le> y \<and> y < row * ?t + ?th
         then pixel raw ((y - row * ?t) * ?tw + (x - col * ?t)) else pixel px (y * ?w + x))" by blast
  have "place_tile z doc (name, col, row) px = Inr px'"
    using h px'(1) by (simp add: place_tile_def Let_def tile_width_def [symmetric] tile_height_def [symmetric])
  moreover have "pixel px' (y * ?w + x) = (if (x div ?t, y div ?t) = (col, row)
      then pixel raw (y mod ?t * ?tw + x mod ?t) else pixel px (y * ?w + x))" if "x < ?w" "y < ?h" for x y
  proof -
    have "(col * ?t \<le> x \<and> x < col * ?t + ?tw \<and> row * ?t \<le> y \<and> y < row * ?t + ?th) \<longleftrightarrow> (x div ?t, y div ?t) = (col, row)"
      using in_tile_iff [OF assms(2) that(1), of col] in_tile_iff [OF assms(2) that(2), of row]
      by (auto simp: tile_width_def tile_height_def)
    moreover have "x - x div ?t * ?t = x mod ?t" "y - y div ?t * ?t = y mod ?t" by (simp_all add: minus_div_mult_eq_mod)
    ultimately show ?thesis using px'(3) [OF that] by auto
  qed
  ultimately show ?thesis using px'(2) by blast
qed

lemma place_all_tiles:
  assumes "\<forall>tl \<in> set tiles. tile_holds z doc tl (raw (fst tl))" and "distinct (positions tiles)" and "0 < do_tile_size doc"
  shows "\<exists>px. foldE (place_tile z doc) tiles (replicate (do_width doc * do_height doc * 4) 0) = Inr px \<and>
    length px = do_width doc * do_height doc * 4 \<and>
    (\<forall>x < do_width doc. \<forall>y < do_height doc. pixel px (y * do_width doc + x) = canvas_pixel doc raw tiles x y)"
proof -
  let ?w = "do_width doc" and ?h = "do_height doc"
  let ?P = "\<lambda>ts px. length px = ?w * ?h * 4 \<and> (\<forall>x < ?w. \<forall>y < ?h. pixel px (y * ?w + x) = canvas_pixel doc raw ts x y)"
  have "\<exists>px. foldE (place_tile z doc) tiles (replicate (?w * ?h * 4) 0) = Inr px \<and> ?P tiles px"
  proof (rule foldE_rule [where P = ?P])
    have "pixel (replicate (?w * ?h * 4) 0) (y * ?w + x) = [0, 0, 0, 0]" if "x < ?w" "y < ?h" for x y
    proof -
      have "4 * (y * ?w + x) + 4 \<le> ?w * ?h * 4" using pixel_index_less [OF that] by (simp add: mult.commute)
      then have "min 4 (?w * ?h * 4 - 4 * (y * ?w + x)) = 4" by simp
      then show ?thesis by (simp add: pixel_def numeral_eq_Suc)
    qed
    then show "?P [] (replicate (?w * ?h * 4) 0)" by (simp add: canvas_pixel_def Let_def)
  next
    fix ys tl zs px assume e: "tiles = ys @ tl # zs" and px: "?P ys px"
    obtain name col row where tl: "tl = (name, col, row)" by (metis prod_cases3)
    have holds: "tile_holds z doc (name, col, row) (raw name)" and new: "(col, row) \<notin> set (positions ys)"
      using assms(1,2) e tl by auto
    from place_one_tile [OF holds assms(3)] px obtain px' where px': "place_tile z doc tl px = Inr px'" "length px' = length px"
      "\<And>x y. x < ?w \<Longrightarrow> y < ?h \<Longrightarrow> pixel px' (y * ?w + x) = (if (x div do_tile_size doc, y div do_tile_size doc) = (col, row)
       then pixel (raw name) (y mod do_tile_size doc * tile_width doc col + x mod do_tile_size doc) else pixel px (y * ?w + x))"
      using tl by blast
    have "map_of (map (\<lambda>(name, col, row). ((col, row), name)) ys) (col, row) = None"
      using new by (auto simp: map_of_eq_None_iff) force
    then have "canvas_pixel doc raw (ys @ [tl]) x y = (if (x div do_tile_size doc, y div do_tile_size doc) = (col, row)
       then pixel (raw name) (y mod do_tile_size doc * tile_width doc col + x mod do_tile_size doc) else canvas_pixel doc raw ys x y)" for x y
      by (auto simp: canvas_pixel_def Let_def tl map_add_def split: option.split)
    then show "\<exists>t'. place_tile z doc tl px = Inr t' \<and> ?P (ys @ [tl]) t'" using px px' by simp
  qed
  then show ?thesis by blast
qed

text \<open>The order of the tiles does not matter.\<close>

lemma canvas_any_order:
  assumes "mset tiles' = mset tiles" and "distinct (positions tiles)"
  shows "canvas_pixel doc raw tiles' = canvas_pixel doc raw tiles" and "distinct (positions tiles')"
proof -
  let ?f = "\<lambda>(name, col, row). ((col, row), name)"
  have keys: "map fst (map ?f ts) = positions ts" for ts :: "tile list" by (simp add: comp_def case_prod_beta)
  have "mset (positions tiles') = mset (positions tiles)" using assms(1) by simp
  then show d: "distinct (positions tiles')" using assms(2) mset_eq_imp_distinct_iff by blast
  have "set tiles' = set tiles" using assms(1) by (rule mset_eq_setD)
  then have "map_of (map ?f tiles') = map_of (map ?f tiles)"
    using map_of_inject_set [of "map ?f tiles'" "map ?f tiles"] d assms(2) by (simp add: keys del: map_map)
  then show "canvas_pixel doc raw tiles' = canvas_pixel doc raw tiles" by (simp add: canvas_pixel_def [abs_def])
qed

section \<open>Straight alpha\<close>

lemma length_unpremultiply [simp]: "length (unpremultiply px) = length px"
  by (induction px rule: unpremultiply.induct) (simp_all add: Let_def)

lemma pixel_Suc: "pixel (r # g # b # a # rest) (Suc k) = pixel rest k"
proof -
  have "4 * Suc k = Suc (Suc (Suc (Suc (4 * k))))" by simp
  then show ?thesis by (simp only: pixel_def drop_Suc_Cons)
qed

lemma pixel_unpremultiply:
  assumes "length px = 4 * n" and "i < n"
  shows "pixel (unpremultiply px) i = unpremultiply (pixel px i)"
  using assms
proof (induction px arbitrary: n i rule: unpremultiply.induct)
  case (1 r g b a rest)
  then obtain m where m: "n = Suc m" "length rest = 4 * m" by (cases n) auto
  show ?case
  proof (cases i)
    case 0
    then show ?thesis by (simp add: pixel_def Let_def)
  next
    case (Suc k)
    then have "pixel (unpremultiply rest) k = unpremultiply (pixel rest k)" using 1(1) [OF refl refl m(2), of k] 1(3) m by simp
    then show ?thesis using Suc by (simp add: pixel_Suc Let_def)
  qed
qed simp_all

section \<open>Flipping and turning\<close>

lemma flip_vertical_pixels:
  assumes "length (im_pixels im) = im_width im * im_height im * 4"
  shows "\<exists>f. flip_vertical im = Inr f \<and> im_width f = im_width im \<and> im_height f = im_height im \<and>
    length (im_pixels f) = length (im_pixels im) \<and> (\<forall>x < im_width im. \<forall>y < im_height im.
      pixel (im_pixels f) (y * im_width im + x) = pixel (im_pixels im) ((im_height im - 1 - y) * im_width im + x))"
proof -
  let ?w = "im_width im" and ?h = "im_height im" and ?px = "im_pixels im"
  let ?P = "\<lambda>k t. length t = length ?px \<and> (\<forall>x < ?w. \<forall>y < ?h. pixel t (y * ?w + x) =
    pixel ?px ((if y < k \<or> ?h - k \<le> y then ?h - 1 - y else y) * ?w + x))"
  have "\<exists>t. foldE (swap_rows (?w * 4) ?h) [0..<?h div 2] ?px = Inr t \<and> ?P (?h div 2) t"
  proof (rule foldE_upto [where P = ?P])
    fix k t assume k: "k < ?h div 2" and t: "?P k t"
    let ?m = "?h - 1 - k"
    let ?low = "take (4 * ?w) (drop (4 * (k * ?w)) t)" and ?high = "take (4 * ?w) (drop (4 * (?m * ?w)) t)"
    have km: "k < ?m" "?m < ?h" using k by auto
    have "Suc ?m \<le> ?h" "Suc k \<le> ?m" using km by linarith+
    from this [THEN mult_le_mono1, of ?w]
    have top: "?m * ?w + ?w \<le> ?h * ?w" and bottom: "k * ?w + ?w \<le> ?m * ?w" by (simp_all only: mult_Suc add.commute)
    have len: "length t = 4 * (?h * ?w)" using t assms by (simp add: mult.commute)
    have fits: "4 * (k * ?w + ?w) \<le> length t" "4 * (?m * ?w + ?w) \<le> length t" using top bottom len by simp_all
    have lens: "length ?low = 4 * ?w" "length ?high = 4 * ?w" using fits by simp_all
    let ?t1 = "overwrite t (4 * (k * ?w)) ?high"
    let ?t2 = "overwrite ?t1 (4 * (?m * ?w)) ?low"
    have l1: "length ?t1 = length t" using fits lens by simp
    have fits1: "4 * (?m * ?w + ?w) \<le> length ?t1" using fits l1 by simp
    have scale: "k * (?w * 4) = 4 * (k * ?w)" "?m * (?w * 4) = 4 * (?m * ?w)" "?w * 4 = 4 * ?w" by simp_all
    have "\<not> (length t < 4 * (?m * ?w) \<or> 4 * (?m * ?w) < 4 * (k * ?w) + 4 * ?w \<or> length t - 4 * (?m * ?w) < 4 * ?w)"
      using fits bottom by simp
    then have run: "swap_rows (?w * 4) ?h k t = Inr ?t2" unfolding swap_rows_def Let_def scale(1,2) unfolding scale(3) by simp
    have "pixel ?t2 (y * ?w + x) = pixel ?px ((if y < Suc k \<or> ?h - Suc k \<le> y then ?h - 1 - y else y) * ?w + x)"
      if "x < ?w" "y < ?h" for x y
    proof -
      have row: "(Y * ?w \<le> y * ?w + x \<and> y * ?w + x < Y * ?w + ?w) = (y = Y)" for Y
        using row_index [OF \<open>x < ?w\<close>, of 0 ?w Y y] that by simp
      have "pixel ?t2 (y * ?w + x) = (if y = ?m then pixel ?low (y * ?w + x - ?m * ?w)
          else if y = k then pixel ?high (y * ?w + x - k * ?w) else pixel t (y * ?w + x))"
        unfolding pixel_overwrite [OF lens(1) fits1] pixel_overwrite [OF lens(2) fits(1)] row by (rule refl)
      also have "\<dots> = (if y = ?m then pixel t (k * ?w + x) else if y = k then pixel t (?m * ?w + x) else pixel t (y * ?w + x))"
        using that by (simp add: pixel_part)
      also have "\<dots> = pixel ?px ((if y < Suc k \<or> ?h - Suc k \<le> y then ?h - 1 - y else y) * ?w + x)"
        using t that km by (auto simp: less_Suc_eq)
      finally show ?thesis .
    qed
    moreover have "length ?t2 = length ?px" using fits1 lens l1 t by simp
    ultimately show "\<exists>t'. swap_rows (?w * 4) ?h k t = Inr t' \<and> ?P (Suc k) t'" using run by blast
  qed simp
  then obtain t where t: "foldE (swap_rows (?w * 4) ?h) [0..<?h div 2] ?px = Inr t" "?P (?h div 2) t" by blast
  have "pixel t (y * ?w + x) = pixel ?px ((?h - 1 - y) * ?w + x)" if "x < ?w" "y < ?h" for x y
  proof (cases "y < ?h div 2 \<or> ?h - ?h div 2 \<le> y")
    case False
    then have "y = ?h - 1 - y" by linarith
    then show ?thesis using t(2) that False by simp
  qed (use t(2) that in simp)
  then show ?thesis using t by (simp add: flip_vertical_def)
qed

lemma rotated_to_bounds:
  "x < w \<Longrightarrow> y < h \<Longrightarrow> fst (rotated_to rot w h (x, y)) < fst (rotated_size rot w h) \<and>
    snd (rotated_to rot w h (x, y)) < snd (rotated_size rot w h)"
  by (cases rot) (simp_all add: rotated_to_def rotated_size_def)

lemma rotated_to_inj:
  "x < w \<Longrightarrow> y < h \<Longrightarrow> x' < w \<Longrightarrow> y' < h \<Longrightarrow> rotated_to rot w h (x, y) = rotated_to rot w h (x', y') \<Longrightarrow> x = x' \<and> y = y'"
  by (cases rot) (auto simp: rotated_to_def)

lemma rotated_size_product: "fst (rotated_size rot w h) * snd (rotated_size rot w h) = w * h"
  by (cases rot) (simp_all add: rotated_size_def)

definition rotated_index :: "rotation \<Rightarrow> nat \<Rightarrow> nat \<Rightarrow> nat \<Rightarrow> nat \<Rightarrow> nat" where
  "rotated_index rot w h x y = (let (nx, ny) = rotated_to rot w h (x, y) in ny * fst (rotated_size rot w h) + nx)"

lemma rotated_index_less: "x < w \<Longrightarrow> y < h \<Longrightarrow> rotated_index rot w h x y < w * h"
  using rotated_to_bounds [of x w y h rot] rotated_size_product [of rot w h]
    pixel_index_less [of "fst (rotated_to rot w h (x, y))" "fst (rotated_size rot w h)"
      "snd (rotated_to rot w h (x, y))" "snd (rotated_size rot w h)"]
  by (simp add: rotated_index_def case_prod_beta Let_def mult.commute)

lemma rotated_index_inj:
  assumes "x < w" "y < h" "x' < w" "y' < h" "rotated_index rot w h x y = rotated_index rot w h x' y'"
  shows "x = x' \<and> y = y'"
proof -
  let ?p = "rotated_to rot w h (x, y)" and ?p' = "rotated_to rot w h (x', y')" and ?W = "fst (rotated_size rot w h)"
  have "snd ?p * ?W + fst ?p = snd ?p' * ?W + fst ?p'" using assms(5) by (simp add: rotated_index_def case_prod_beta Let_def)
  from pixel_index_inj [OF conjunct1 [OF rotated_to_bounds [OF assms(1,2)]] conjunct1 [OF rotated_to_bounds [OF assms(3,4)]] this]
  have "?p = ?p'" by (simp add: prod_eq_iff)
  then show ?thesis by (rule rotated_to_inj [OF assms(1-4)])
qed

lemma rotate_image_pixels:
  assumes "length (im_pixels im) = im_width im * im_height im * 4"
  shows "\<exists>f. rotate_image im rot = Inr f \<and> (im_width f, im_height f) = rotated_size rot (im_width im) (im_height im) \<and>
    length (im_pixels f) = length (im_pixels im) \<and> (\<forall>x < im_width im. \<forall>y < im_height im.
      pixel (im_pixels f) (rotated_index rot (im_width im) (im_height im) x y) = pixel (im_pixels im) (y * im_width im + x))"
proof -
  let ?w = "im_width im" and ?h = "im_height im" and ?px = "im_pixels im" and ?xs = "List.product [0..<im_height im] [0..<im_width im]"
  let ?P = "\<lambda>ys t. length t = length ?px \<and> (\<forall>(y, x) \<in> set ys. pixel t (rotated_index rot ?w ?h x y) = pixel ?px (y * ?w + x))"
  have "\<exists>t. foldE (move_pixel rot im) ?xs (replicate (length ?px) 0) = Inr t \<and> ?P ?xs t"
  proof (rule foldE_rule [where P = ?P])
    fix ys p zs t assume e: "?xs = ys @ p # zs" and t: "?P ys t"
    obtain y x where p: "p = (y, x)" by (cases p)
    have "set ys \<subseteq> set ?xs" "p \<in> set ?xs" using e by auto
    then have range: "x < ?w" "y < ?h" "\<And>y' x'. (y', x') \<in> set ys \<Longrightarrow> x' < ?w \<and> y' < ?h" using p by auto
    have "distinct ?xs" by (simp add: distinct_product)
    then have new: "(y, x) \<notin> set ys" using e p by simp
    let ?j = "rotated_index rot ?w ?h x y" and ?b = "take 4 (drop (4 * (y * ?w + x)) ?px)"
    have len: "length ?px = 4 * (?w * ?h)" using assms by simp
    have src: "4 * (y * ?w + x) + 4 \<le> length ?px" using pixel_index_less [OF range(1,2)] len by (simp add: mult.commute)
    have fits: "4 * (?j + 1) \<le> length t" using rotated_index_less [OF range(1,2), of rot] len t by simp
    have b: "length ?b = 4 * 1" using src by simp
    have scale: "n * 4 = 4 * n" for n :: nat by simp
    have "\<not> (length ?px < 4 * (y * ?w + x) + 4 \<or> length t < 4 * ?j + 4)" using src fits by simp
    then have run: "move_pixel rot im p t = Inr (overwrite t (4 * ?j) ?b)"
      unfolding move_pixel_def rotated_index_def Let_def p case_prod_beta scale by simp
    define t' where t': "t' = overwrite t (4 * ?j) ?b"
    have at: "pixel t' i = (if i = ?j then pixel ?px (y * ?w + x) else pixel t i)" for i
    proof -
      have "pixel ?b 0 = pixel ?px (y * ?w + x)" by (simp add: pixel_def)
      then show ?thesis unfolding t' pixel_overwrite [OF b fits] by auto
    qed
    have "length t' = length t" using fits b by (simp add: t')
    moreover have "rotated_index rot ?w ?h x' y' \<noteq> ?j" if "(y', x') \<in> set ys" for y' x'
      using rotated_index_inj [OF _ _ range(1,2), of x' y' rot] range(3) [OF that] new that by blast
    ultimately have "?P (ys @ [p]) t'" using t p by (auto simp: at)
    then show "\<exists>t'. move_pixel rot im p t = Inr t' \<and> ?P (ys @ [p]) t'" using run t' by blast
  qed simp
  then show ?thesis by (auto simp: rotate_image_def)
qed

text \<open>Where a pixel of the canvas, whose rows are stored from the bottom, is shown.\<close>

definition shown_size :: "int \<Rightarrow> nat \<Rightarrow> nat \<Rightarrow> nat \<times> nat" where
  "shown_size orientation w h = (if orientation \<in> {3, 4} then (h, w) else (w, h))"

definition shown_at :: "int \<Rightarrow> nat \<Rightarrow> nat \<Rightarrow> nat \<Rightarrow> nat \<Rightarrow> nat \<times> nat" where
  "shown_at orientation w h x y =
     (if orientation = 1 then (x, h - 1 - y) else if orientation = 2 then (w - 1 - x, y)
      else if orientation = 3 then (h - 1 - y, w - 1 - x) else (y, x))"

definition shown_pixel :: "image \<Rightarrow> nat \<times> nat \<Rightarrow> nat \<times> nat \<Rightarrow> u8 list" where
  "shown_pixel im extent pos = pixel (im_pixels im) (snd pos * fst extent + fst pos)"

lemma oriented_pixels:
  assumes "length (im_pixels im) = im_width im * im_height im * 4" and "orientation \<in> {1, 2, 3, 4}"
  shows "\<exists>f out. flip_vertical im = Inr f \<and> orient f orientation = Inr out \<and>
    (im_width out, im_height out) = shown_size orientation (im_width im) (im_height im) \<and>
    (\<forall>x < im_width im. \<forall>y < im_height im. shown_pixel out (shown_size orientation (im_width im) (im_height im))
       (shown_at orientation (im_width im) (im_height im) x y) = pixel (im_pixels im) (y * im_width im + x))"
proof -
  let ?w = "im_width im" and ?h = "im_height im"
  obtain f where f: "flip_vertical im = Inr f" "im_width f = ?w" "im_height f = ?h" "length (im_pixels f) = length (im_pixels im)"
    "\<And>x y. x < ?w \<Longrightarrow> y < ?h \<Longrightarrow> pixel (im_pixels f) (y * ?w + x) = pixel (im_pixels im) ((?h - 1 - y) * ?w + x)"
    using flip_vertical_pixels [OF assms(1)] by blast
  have len: "length (im_pixels f) = im_width f * im_height f * 4" using f assms(1) by simp
  have turned: "\<exists>out. rotate_image f rot = Inr out \<and> (im_width out, im_height out) = rotated_size rot ?w ?h \<and>
      (\<forall>x < ?w. \<forall>y < ?h. pixel (im_pixels out) (rotated_index rot ?w ?h x (?h - 1 - y)) = pixel (im_pixels im) (y * ?w + x))" for rot
  proof -
    obtain out where out: "rotate_image f rot = Inr out" "(im_width out, im_height out) = rotated_size rot ?w ?h"
      "\<And>x y. x < ?w \<Longrightarrow> y < ?h \<Longrightarrow> pixel (im_pixels out) (rotated_index rot ?w ?h x y) = pixel (im_pixels f) (y * ?w + x)"
      using rotate_image_pixels [OF len, of rot] f(2,3) by auto
    have "pixel (im_pixels out) (rotated_index rot ?w ?h x (?h - 1 - y)) = pixel (im_pixels im) (y * ?w + x)" if "x < ?w" "y < ?h" for x y
    proof -
      have "?h - 1 - y < ?h" "?h - 1 - (?h - 1 - y) = y" using that by auto
      then show ?thesis using out(3) [OF that(1)] f(5) [OF that(1)] by metis
    qed
    then show ?thesis using out by blast
  qed
  have upright: "pixel (im_pixels f) ((?h - 1 - y) * ?w + x) = pixel (im_pixels im) (y * ?w + x)" if "x < ?w" "y < ?h" for x y
  proof -
    have "?h - 1 - y < ?h" "?h - 1 - (?h - 1 - y) = y" using that by auto
    then show ?thesis using f(5) [OF that(1)] by metis
  qed
  have back_y: "?h - 1 - (?h - 1 - y) = y" "?h - Suc (?h - Suc y) = y" if "y < ?h" for y using that by auto
  from assms(2) consider "orientation = 1" | "orientation = 2" | "orientation = 3" | "orientation = 4" by auto
  then show ?thesis
  proof cases
    case 1
    then show ?thesis using f upright by (simp add: orient_def shown_size_def shown_at_def shown_pixel_def)
  next
    case 2
    then show ?thesis using f turned [of Half]
      by (auto simp: orient_def shown_size_def shown_at_def shown_pixel_def rotated_index_def rotated_to_def rotated_size_def back_y)
  next
    case 3
    then show ?thesis using f turned [of CounterClockwise]
      by (auto simp: orient_def shown_size_def shown_at_def shown_pixel_def rotated_index_def rotated_to_def rotated_size_def)
  next
    case 4
    then show ?thesis using f turned [of Clockwise]
      by (auto simp: orient_def shown_size_def shown_at_def shown_pixel_def rotated_index_def rotated_to_def rotated_size_def back_y)
  qed
qed

section \<open>The export\<close>

definition composite_tiles :: "zip_archive \<Rightarrow> document \<Rightarrow> tile list" where
  "composite_tiles z doc = List.map_filter (\<lambda>name. map_option (\<lambda>p. (name, p)) (tile_position name (do_composite_uuid doc))) (za_names z)"

lemma assemble_pixels:
  assumes "\<forall>tl \<in> set (composite_tiles z doc). tile_holds z doc tl (raw (fst tl))"
    and "composite_tiles z doc \<noteq> []" and "distinct (positions (composite_tiles z doc))"
    and "mset (order (composite_tiles z doc)) = mset (composite_tiles z doc)" and "0 < do_tile_size doc"
  shows "\<exists>c. assemble order z doc = Inr c \<and> im_width c = do_width doc \<and> im_height c = do_height doc \<and>
    length (im_pixels c) = do_width doc * do_height doc * 4 \<and> (\<forall>x < do_width doc. \<forall>y < do_height doc.
      pixel (im_pixels c) (y * do_width doc + x) = unpremultiply (canvas_pixel doc raw (composite_tiles z doc) x y))"
proof -
  let ?w = "do_width doc" and ?h = "do_height doc" and ?tiles = "composite_tiles z doc"
  have "set (order ?tiles) = set ?tiles" using assms(4) by (rule mset_eq_setD)
  then have "\<forall>tl \<in> set (order ?tiles). tile_holds z doc tl (raw (fst tl))" and ne: "order ?tiles \<noteq> []"
    using assms(1,2) by auto
  from place_all_tiles [OF this(1) canvas_any_order(2) [OF assms(4,3)] assms(5)] obtain px where px:
    "foldE (place_tile z doc) (order ?tiles) (replicate (?w * ?h * 4) 0) = Inr px" "length px = ?w * ?h * 4"
    "\<And>x y. x < ?w \<Longrightarrow> y < ?h \<Longrightarrow> pixel px (y * ?w + x) = canvas_pixel doc raw (order ?tiles) x y" by blast
  have "pixel (unpremultiply px) (y * ?w + x) = unpremultiply (canvas_pixel doc raw ?tiles x y)" if "x < ?w" "y < ?h" for x y
  proof -
    have "length px = 4 * (?h * ?w)" using px(2) by simp
    from pixel_unpremultiply [OF this pixel_index_less [OF that]] show ?thesis
      using px(3) [OF that] canvas_any_order(1) [OF assms(4,3), of doc raw] by simp
  qed
  then show ?thesis using px(1,2) ne by (simp add: assemble_def Let_def composite_tiles_def [symmetric])
qed

text \<open>C33. A Procreate export shows the canvas: whatever the order in which a hash map gives the tiles, when the composite
  layer has tiles, no two of them at one position, each in the canvas and decompressing to its size, and the
  orientation is one of the four known ones (any other is refused), every pixel of the exported image
  is the pixel the tile covering it holds (edge tiles have their own, narrower rows), with straight alpha, fully
  transparent where there is no tile, at the place the orientation puts it; the image has the turned size.\<close>

theorem export_shows_canvas:
  assumes "\<forall>tl \<in> set (composite_tiles z doc). tile_holds z doc tl (raw (fst tl))"
    and "composite_tiles z doc \<noteq> []" and "distinct (positions (composite_tiles z doc))"
    and "mset (order (composite_tiles z doc)) = mset (composite_tiles z doc)"
    and "0 < do_tile_size doc" and "do_orientation doc \<in> {1, 2, 3, 4}"
  shows "\<exists>im. bindE (assemble order z doc) (\<lambda>c. bindE (flip_vertical c) (\<lambda>f. orient f (do_orientation doc))) = Inr im \<and>
    (im_width im, im_height im) = shown_size (do_orientation doc) (do_width doc) (do_height doc) \<and>
    (\<forall>x < do_width doc. \<forall>y < do_height doc.
      shown_pixel im (shown_size (do_orientation doc) (do_width doc) (do_height doc))
        (shown_at (do_orientation doc) (do_width doc) (do_height doc) x y) =
      unpremultiply (canvas_pixel doc raw (composite_tiles z doc) x y))"
proof -
  obtain c where c: "assemble order z doc = Inr c" "im_width c = do_width doc" "im_height c = do_height doc"
    "length (im_pixels c) = do_width doc * do_height doc * 4"
    "\<forall>x < do_width doc. \<forall>y < do_height doc.
      pixel (im_pixels c) (y * do_width doc + x) = unpremultiply (canvas_pixel doc raw (composite_tiles z doc) x y)"
    using assemble_pixels [where raw = raw and order = order, OF assms(1-5)] by blast
  then have "length (im_pixels c) = im_width c * im_height c * 4" by simp
  from oriented_pixels [OF this assms(6)] show ?thesis using c by fastforce
qed

definition example_pixels :: "string \<Rightarrow> u8 list" where
  "example_pixels name = (if name = ''U/0~0.chunk'' then [1, 2, 3, 255] else [9, 8, 7, 255])"

definition example_archive :: zip_archive where
  "example_archive = \<lparr>za_names = [''U/1~0.chunk'', ''U/0~0.chunk''],
     za_entry = (\<lambda>name. Inr (Inr (stored (example_pixels name))))\<rparr>"

definition example_document :: document where
  "example_document = \<lparr>do_width = 2, do_height = 1, do_tile_size = 1, do_orientation = 3, do_composite_uuid = ''U''\<rparr>"

lemma example_tiles: "composite_tiles example_archive example_document = [(''U/1~0.chunk'', 1, 0), (''U/0~0.chunk'', 0, 0)]"
  by (simp add: composite_tiles_def example_archive_def example_document_def List.map_filter_simps tile_position_def
    strip_suffix_def parse_uint_def digits_value_def is_digit_def u32_max_def)

lemma example_stored: "decompress (stored (example_pixels name)) 4 = Inr (example_pixels name)"
proof -
  have "length (stored (example_pixels name) @ []) \<le> usize_max"
    by (simp add: stored_def example_pixels_def end_marker_def usize_max_def)
  from decompress_stored_eq [OF this, of 4] show ?thesis by (simp add: example_pixels_def)
qed

theorem export_shows_canvas_witness:
  "\<exists>im. bindE (assemble rev example_archive example_document) (\<lambda>c. bindE (flip_vertical c) (\<lambda>f. orient f 3)) = Inr im \<and>
    (im_width im, im_height im) = (1, 2) \<and> shown_pixel im (1, 2) (0, 1) = [1, 2, 3, 255] \<and> shown_pixel im (1, 2) (0, 0) = [9, 8, 7, 255]"
proof -
  note defs = example_document_def example_archive_def
  have "\<forall>tl \<in> set (composite_tiles example_archive example_document). tile_holds example_archive example_document tl (example_pixels (fst tl))"
    using example_stored [of "''U/1~0.chunk''"] example_stored [of "''U/0~0.chunk''"] unfolding example_tiles
    by (simp add: tile_holds_def tile_width_def tile_height_def defs read_entry_def)
      (simp add: example_pixels_def eval_nat_numeral)
  from export_shows_canvas [OF this, of rev] obtain im where
    im: "bindE (assemble rev example_archive example_document) (\<lambda>c. bindE (flip_vertical c) (\<lambda>f. orient f 3)) = Inr im"
      "(im_width im, im_height im) = shown_size 3 2 1"
      "\<And>x. x < 2 \<Longrightarrow> shown_pixel im (shown_size 3 2 1) (shown_at 3 2 1 x 0) =
        unpremultiply (canvas_pixel example_document example_pixels (composite_tiles example_archive example_document) x 0)"
    by (auto simp: example_tiles) (auto simp: defs)
  have "canvas_pixel example_document example_pixels (composite_tiles example_archive example_document) 0 0 = [1, 2, 3, 255]"
    "canvas_pixel example_document example_pixels (composite_tiles example_archive example_document) 1 0 = [9, 8, 7, 255]"
    unfolding example_tiles by (simp_all add: canvas_pixel_def example_document_def example_pixels_def pixel_def tile_width_def Let_def)
  then show ?thesis using im(1,2) im(3) [of 0] im(3) [of 1] by (auto simp: shown_size_def shown_at_def)
qed

section \<open>No panic\<close>

lemma bindE_not_panic: "m \<noteq> Inl Panic \<Longrightarrow> (\<And>x. m = Inr x \<Longrightarrow> f x \<noteq> Inl Panic) \<Longrightarrow> bindE m f \<noteq> Inl Panic"
  by (auto simp: bindE_def split: sum.split)

lemma map_sum_not_panic [simp]: "map_sum (\<lambda>err. Err (f err)) g v \<noteq> Inl Panic"
  by (cases v) auto

lemma unreadable_simps [simp]: "unreadable d \<noteq> Inl Panic" "unreadable d \<noteq> Inr v"
  by (simp_all add: unreadable_def)

lemma some_or_simps [simp]: "some_or v d \<noteq> Inl Panic"
  by (simp add: some_or_def split: option.split)

lemma read_entry_safe [simp]: "read_entry z name \<noteq> Inl Panic"
  by (auto simp: read_entry_def split: sum.split)

lemma keyed_safe [simp]: "keyed_new v \<noteq> Inl Panic" "keyed_resolve k v \<noteq> Inl Panic" "keyed_top k key \<noteq> Inl Panic"
    "keyed_dict v \<noteq> Inl Panic"
  by (auto simp: keyed_new_def keyed_resolve_def keyed_top_def keyed_dict_def result_simps split: plist.split)

lemma parse_size_safe [simp]: "parse_size f64 shown tx \<noteq> Inl Panic"
  by (auto simp: parse_size_def split: option.splits list.splits)

lemma document_parse_safe: "document_parse f64 shown plist_of archive \<noteq> Inl Panic"
  by (auto simp: document_parse_def Let_def result_simps split: sum.splits)

lemma place_tile_safe:
  assumes "length px = do_width doc * do_height doc * 4"
  shows "place_tile z doc (name, col, row) px \<noteq> Inl Panic \<and>
    (\<forall>px'. place_tile z doc (name, col, row) px = Inr px' \<longrightarrow> length px' = length px)"
proof -
  let ?w = "do_width doc" and ?h = "do_height doc" and ?t = "do_tile_size doc"
  let ?tw = "min ?t (?w - col * ?t)" and ?th = "min ?t (?h - row * ?t)"
  show ?thesis
  proof (cases "?w \<le> col * ?t \<or> ?h \<le> row * ?t")
    case False
    then have fits: "col * ?t + ?tw \<le> ?w" "row * ?t + ?th \<le> ?h" by auto
    have raw: "foldE (blit_row ?w (col * ?t) (row * ?t) ?tw raw) [0..<?th] px \<noteq> Inl Panic"
      "foldE (blit_row ?w (col * ?t) (row * ?t) ?tw raw) [0..<?th] px = Inr px' \<Longrightarrow> length px' = length px"
      if "length raw = ?tw * ?th * 4" for raw px'
      using blit_tile [OF fits assms that] by auto
    have dec: "decompress c n \<noteq> Inl Panic" for c n using decompress_bounded [of c n] by blast
    let ?read = "\<lambda>compressed. case decompress compressed (?tw * ?th * 4) of
      Inl (Err err) \<Rightarrow> unreadable (''tile '' @ name @ '': '' @ err) | Inl Panic \<Rightarrow> Inl Panic | Inr raw \<Rightarrow> Inr raw"
    obtain msg where run: "place_tile z doc (name, col, row) px = bindE (read_entry z name) (\<lambda>compressed. bindE (?read compressed) (\<lambda>raw.
        if length raw \<noteq> ?tw * ?th * 4 then unreadable (msg raw)
        else foldE (blit_row ?w (col * ?t) (row * ?t) ?tw raw) [0..<?th] px))"
      using False by (simp add: place_tile_def Let_def)
    have "place_tile z doc (name, col, row) px \<noteq> Inl Panic"
      unfolding run by (intro bindE_not_panic) (use dec raw(1) in \<open>auto split: sum.split fault.split\<close>)
    moreover have "length px' = length px" if placed: "place_tile z doc (name, col, row) px = Inr px'" for px'
    proof -
      obtain raw' where "length raw' = ?tw * ?th * 4"
        "foldE (blit_row ?w (col * ?t) (row * ?t) ?tw raw') [0..<?th] px = Inr px'"
        using placed unfolding run by (auto simp only: bindE_Inr_iff unreadable_simps split: if_split_asm)
      then show ?thesis using raw(2) by blast
    qed
    ultimately show ?thesis by blast
  qed (auto simp: place_tile_def Let_def)
qed

lemma assemble_safe:
  "assemble order z doc \<noteq> Inl Panic \<and>
   (\<forall>c. assemble order z doc = Inr c \<longrightarrow> length (im_pixels c) = im_width c * im_height c * 4)"
proof -
  have "foldE (place_tile z doc) ts (replicate (do_width doc * do_height doc * 4) 0) \<noteq> Inl Panic \<and>
      (\<forall>px. foldE (place_tile z doc) ts (replicate (do_width doc * do_height doc * 4) 0) = Inr px \<longrightarrow>
        length px = do_width doc * do_height doc * 4)" for ts
  proof (rule foldE_not_panic [where P = "\<lambda>px. length px = do_width doc * do_height doc * 4"])
    fix tl :: tile and px assume px: "length (px :: u8 list) = do_width doc * do_height doc * 4"
    obtain name col row where "tl = (name, col, row)" by (cases tl)
    then show "place_tile z doc tl px \<noteq> Inl Panic" "\<And>px'. place_tile z doc tl px = Inr px' \<Longrightarrow> length px' = do_width doc * do_height doc * 4"
      using place_tile_safe [OF px] px by simp_all
  qed simp
  then show ?thesis by (auto simp: assemble_def Let_def result_simps)
qed

lemma orient_safe:
  assumes "length (im_pixels im) = im_width im * im_height im * 4"
  shows "orient im orientation \<noteq> Inl Panic \<and>
    (\<forall>out. orient im orientation = Inr out \<longrightarrow> length (im_pixels out) = im_width out * im_height out * 4)"
proof -
  have "\<exists>out. rotate_image im rot = Inr out \<and> length (im_pixels out) = im_width out * im_height out * 4" for rot
    using rotate_image_pixels [OF assms, of rot] assms by (cases rot) (auto simp: rotated_size_def)
  from this [of Half] this [of CounterClockwise] this [of Clockwise] show ?thesis
    using assms by (auto simp: orient_def)
qed

text \<open>The cells of the thumbnail: each pixel of the image falls in one of them, so long as their number is a \<open>u32\<close>.\<close>

lemma scaled_less: "y < h \<Longrightarrow> 0 < n \<Longrightarrow> y * n div h mod 2 ^ 32 < (n :: nat)"
proof -
  assume "y < h" "0 < n"
  then have "y * n < h * n" by simp
  then have "y * n div h < n" by (simp add: less_mult_imp_div_less mult.commute)
  then show "y * n div h mod 2 ^ 32 < n" by (rule le_less_trans [OF mod_less_eq_dividend])
qed

lemma add_to_cell_safe:
  assumes "length (im_pixels im) = im_width im * im_height im * 4" and "x < im_width im" and "y < im_height im"
    and "width * height < 2 ^ 32" and "0 < width" and "0 < height"
    and "length totals = width * height" and "length counts = width * height"
  shows "\<exists>totals' counts'. add_to_cell fl im width height (y, x) (totals, counts) = Inr (totals', counts') \<and>
    length totals' = width * height \<and> length counts' = width * height"
proof -
  have "(y * im_width im + x) mod 2 ^ 32 \<le> y * im_width im + x" by (rule mod_less_eq_dividend)
  also have "\<dots> < im_height im * im_width im" using pixel_index_less [OF assms(2,3)] .
  finally have "\<not> length (im_pixels im) < (y * im_width im + x) mod 2 ^ 32 * 4 + 4" using assms(1) by (simp add: mult.commute)
  moreover have "(y * height div im_height im mod 2 ^ 32 * width + x * width div im_width im mod 2 ^ 32) mod 2 ^ 32 < width * height"
  proof -
    have "y * height div im_height im mod 2 ^ 32 * width + x * width div im_width im mod 2 ^ 32 < height * width"
      by (rule pixel_index_less; rule scaled_less) (use assms in auto)
    then show ?thesis by (simp add: mult.commute le_less_trans [OF mod_less_eq_dividend])
  qed
  ultimately show ?thesis using assms(7,8) by (simp add: add_to_cell_def Let_def)
qed

lemma downscale_safe:
  assumes "length (im_pixels im) = im_width im * im_height im * 4"
    and "width * height < 2 ^ 32" and "0 < width" and "0 < height"
  shows "\<exists>scaled. downscale fl im width height = Inr scaled \<and> length scaled = width * height"
proof -
  let ?P = "\<lambda>_ t. length (fst (t :: cell_sums)) = width * height \<and> length (snd t) = width * height"
  let ?xs = "List.product [0..<im_height im] [0..<im_width im]" and ?n = "width * height mod 2 ^ 32"
  have n: "?n = width * height" using assms(2) by simp
  have "\<exists>t. foldE (add_to_cell fl im width height) ?xs (replicate ?n (replicate 3 (fl_rat fl 0)), replicate ?n 0) = Inr t \<and> ?P ?xs t"
  proof (rule foldE_rule [where P = ?P])
    fix ys p zs t assume e: "?xs = ys @ p # zs" and t: "?P ys t"
    have "p \<in> set ?xs" by (simp only: e set_append list.set) simp
    then obtain y x where p: "p = (y, x)" "y < im_height im" "x < im_width im" by auto
    obtain totals counts where "t = (totals, counts)" by (cases t)
    then show "\<exists>t'. add_to_cell fl im width height p t = Inr t' \<and> ?P (ys @ [p]) t'"
      using add_to_cell_safe [OF assms(1) p(3,2) assms(2-4), of totals counts fl] t p(1) by auto
  qed (unfold n, simp)
  then show ?thesis by (auto simp: downscale_def Let_def)
qed

lemma verify_safe:
  assumes "length (im_pixels im) = im_width im * im_height im * 4"
    and "im_width thumbnail * im_height thumbnail < 2 ^ 32" and "0 < im_width thumbnail" and "0 < im_height thumbnail"
  shows "verify_against_thumbnail fl im thumbnail \<noteq> Inl Panic"
proof -
  obtain scaled where "downscale fl im (im_width thumbnail) (im_height thumbnail) = Inr scaled"
    using downscale_safe [OF assms] by blast
  then obtain d where "thumbnail_difference fl im thumbnail = Inr d" by (simp add: thumbnail_difference_def Let_def)
  then show ?thesis by (simp add: verify_against_thumbnail_def Let_def)
qed

text \<open>The hypothesis is needed: the number of cells is a product of two \<open>u32\<close> that the thumbnail gives, and nothing checks it.
  (With overflow checks the product itself panics.)\<close>

lemma huge_thumbnail_panics:
  "downscale fl \<lparr>im_width = 1, im_height = 1, im_pixels = [r, g, b, a]\<rparr> 65536 65536 = Inl Panic"
  by (simp add: downscale_def add_to_cell_def Let_def)

text \<open>What the PNG reader answers: a frame with both sides positive and fewer than 2 to the 32 pixels. PNG has no empty
  images, and the reader's default limit of 64 MiB for a frame keeps it far below.\<close>

definition png_within_limits :: "(u8 list \<Rightarrow> string + png_color \<times> nat \<times> nat \<times> u8 list) \<Rightarrow> bool" where
  "png_within_limits reader \<longleftrightarrow> (\<forall>bytes color width height buffer.
     reader bytes = Inr (color, width, height, buffer) \<longrightarrow> 0 < width \<and> 0 < height \<and> width * height < 2 ^ 32)"

lemma decode_png_limits:
  "png_within_limits reader \<Longrightarrow> decode_png reader bytes = Inr im \<Longrightarrow>
     0 < im_width im \<and> 0 < im_height im \<and> im_width im * im_height im < 2 ^ 32"
  unfolding png_within_limits_def decode_png_def bindE_Inr_iff by (fastforce split: png_color.splits)


text \<open>A document of one 16 by 16 tile, as far as the property list and the zip tell, with a thumbnail of one pixel.\<close>

definition small_export :: export_env where
  "small_export = \<lparr>ex_open = Inr (),
     ex_zip = Inr \<lparr>za_names = [''U/0~0.chunk''], za_entry = (\<lambda>_. Inr (Inr [22, 1, 2, 3, 4, 5, 17, 0, 0]))\<rparr>,
     ex_plist = (\<lambda>_. Inr (PDict [(''$top'', PDict [(''root'', PUid 0)]), (''$objects'', PArray [
       PDict [(''size'', PString ''{1, 1}''), (''tileSize'', PInteger 16), (''composite'', PUid 1)],
       PDict [(''UUID'', PString ''U'')]])])),
     ex_f64 = (\<lambda>_. Some (Some 1)), ex_shown = (\<lambda>s. s), ex_order = (\<lambda>ts. ts), ex_png = (\<lambda>_. Inr (PngGrayscale, 1, 1, [9])),
     ex_float = \<lparr>fl_rat = (\<lambda>_. 0), fl_add = (+), fl_sub = (-), fl_mul = (*), fl_div = (\<lambda>a b. a), fl_abs = (\<lambda>a. a),
       fl_greater = (\<lambda>a b. b < a), fl_sum = sum_list, fl_show1 = (\<lambda>_. ''0.0'')\<rparr>,
     ex_encode = (\<lambda>im. Inr (im_pixels im)), ex_write = Inr ()\<rparr>"


section \<open>The nearest straight value\<close>

lemma straight_is_nearest:
  assumes "0 < a" and "c \<le> (a :: nat)"
  shows "let v = min ((c * 255 + a div 2) div a) 255 in 2 * (v * a) \<le> 2 * (c * 255) + a \<and> 2 * (c * 255) \<le> 2 * (v * a) + a"
proof -
  define q where q: "q = (c * 255 + a div 2) div a"
  have "q * a \<le> c * 255 + a div 2" unfolding q by simp
  moreover have "c * 255 + a div 2 < q * a + a"
    using dividend_less_div_times [OF assms(1), of "c * 255 + a div 2"] by (simp add: q)
  moreover have "q < 256"
  proof -
    have "c * 255 + a div 2 < 256 * a" using assms by linarith
    then show ?thesis unfolding q by (simp add: less_mult_imp_div_less)
  qed
  moreover have "2 * (a div 2) \<le> a" "a \<le> Suc (2 * (a div 2))" by simp_all
  ultimately have "2 * (q * a) \<le> 2 * (c * 255) + a \<and> 2 * (c * 255) \<le> 2 * (q * a) + a" "min q 255 = q" by linarith+
  then show ?thesis by (simp only: Let_def q [symmetric])
qed

end
