(* ===== verification/Subprocess.thy ===== *)
theory Subprocess
  imports Utf8Lossy TransformSelect RcloneRun
begin

text \<open>
  Running external programs from the transform job. A machine is what a converter can see and change: programs,
  with and without a time limit, files and directories. Its state is passed explicitly, so that what a converter
  left undone is a state that did not change.
\<close>

section \<open>The machine\<close>

text \<open>How a program ended: its exit code, unless a signal ended it, and what it wrote, as bytes.\<close>

record exited =
  ed_code :: "int option"
  ed_signal :: "int option"
  ed_stdout :: string
  ed_stderr :: string

definition succeeded :: "exited \<Rightarrow> bool" where
  "succeeded e \<longleftrightarrow> ed_code e = Some 0"

text \<open>A program that could not be started is an error; one stopped by its time limit, in seconds, has no status. A
  read gives at most the bytes asked for; a directory as a \<open>file:\<close> URL is the work of two libraries.\<close>

record 'w machine =
  mc_run :: "string list \<Rightarrow> 'w \<Rightarrow> (string + exited) \<times> 'w"
  mc_run_within :: "nat \<Rightarrow> string list \<Rightarrow> 'w \<Rightarrow> (string + exited option) \<times> 'w"
  mc_len :: "string \<Rightarrow> 'w \<Rightarrow> string + nat"
  mc_exists :: "string \<Rightarrow> 'w \<Rightarrow> bool"
  mc_head :: "nat \<Rightarrow> string \<Rightarrow> 'w \<Rightarrow> (string + string) + string"
  mc_text :: "string \<Rightarrow> 'w \<Rightarrow> string + string"
  mc_mkdir :: "string \<Rightarrow> 'w \<Rightarrow> (string + unit) \<times> 'w"
  mc_write :: "string \<Rightarrow> string \<Rightarrow> 'w \<Rightarrow> (string + unit) \<times> 'w"
  mc_copy :: "string \<Rightarrow> string \<Rightarrow> 'w \<Rightarrow> (string + unit) \<times> 'w"
  mc_absolute :: "string \<Rightarrow> string + string"
  mc_directory_url :: "string \<Rightarrow> string option"

section \<open>Steps\<close>

type_synonym ('w, 'a) op = "'w \<Rightarrow> (string + 'a) \<times> 'w"

definition bindW :: "('w, 'a) op \<Rightarrow> ('a \<Rightarrow> ('w, 'b) op) \<Rightarrow> ('w, 'b) op" where
  "bindW m f = (\<lambda>w. case m w of (Inl e, w') \<Rightarrow> (Inl e, w') | (Inr x, w') \<Rightarrow> f x w')"

definition pureW :: "string + 'a \<Rightarrow> ('w, 'a) op" where
  "pureW r = (\<lambda>w. (r, w))"

definition askW :: "('w \<Rightarrow> 'a) \<Rightarrow> ('w, 'a) op" where
  "askW f = (\<lambda>w. (Inr (f w), w))"

text \<open>\<open>map_err\<close>.\<close>

definition errW :: "(string \<Rightarrow> string) \<Rightarrow> ('w, 'a) op \<Rightarrow> ('w, 'a) op" where
  "errW f m = (\<lambda>w. case m w of (Inl e, w') \<Rightarrow> (Inl (f e), w') | (Inr x, w') \<Rightarrow> (Inr x, w'))"

named_theorems op_simps \<open>the steps, evaluated\<close>

lemma pureW_simps [simp, op_simps]: "pureW r w = (r, w)"
  by (simp add: pureW_def)

lemma askW_simps [simp, op_simps]: "askW f w = (Inr (f w), w)"
  by (simp add: askW_def)

lemma bindW_Inl [simp, op_simps]: "m w = (Inl e, w') \<Longrightarrow> bindW m f w = (Inl e, w')"
  by (simp add: bindW_def)

lemma bindW_Inr [simp, op_simps]: "m w = (Inr x, w') \<Longrightarrow> bindW m f w = f x w'"
  by (simp add: bindW_def)

lemma bindW_Inr_iff: "bindW m f w = (Inr y, w'') \<longleftrightarrow> (\<exists>x w'. m w = (Inr x, w') \<and> f x w' = (Inr y, w''))"
  by (auto simp: bindW_def split: prod.split sum.split)

lemma bindW_Inl_iff:
  "bindW m f w = (Inl e, w'') \<longleftrightarrow> m w = (Inl e, w'') \<or> (\<exists>x w'. m w = (Inr x, w') \<and> f x w' = (Inl e, w''))"
  by (auto simp: bindW_def split: prod.split sum.split)

lemma errW_Inr_iff: "errW f m w = (Inr y, w') \<longleftrightarrow> m w = (Inr y, w')"
  by (auto simp: errW_def split: prod.split sum.split)

lemma errW_Inl_iff: "errW f m w = (Inl e, w') \<longleftrightarrow> (\<exists>d. m w = (Inl d, w') \<and> e = f d)"
  by (auto simp: errW_def split: prod.split sum.split)

lemma pureW_iff: "pureW r w = (x, w') \<longleftrightarrow> r = x \<and> w' = w"
  by auto

lemma askW_iff: "askW f w = (x, w') \<longleftrightarrow> x = Inr (f w) \<and> w' = w"
  by auto

lemmas op_iff = bindW_Inr_iff bindW_Inl_iff errW_Inr_iff errW_Inl_iff pureW_iff askW_iff

section \<open>Messages\<close>

definition in_quotes :: "string \<Rightarrow> string" where "in_quotes s = [CHR 0x27] @ s @ [CHR 0x27]"

text \<open>An optional exit code as \<open>{:?}\<close> shows it; output as trimmed text.\<close>

definition debug_code :: "int option \<Rightarrow> string" where
  "debug_code code = (case code of Some c \<Rightarrow> ''Some('' @ dec_int c @ '')'' | None \<Rightarrow> ''None'')"

definition output_text :: "string \<Rightarrow> string" where
  "output_text bytes = trim (from_utf8_lossy bytes)"

definition outputs_text :: "exited \<Rightarrow> string" where
  "outputs_text e = ''. stdout: '' @ output_text (ed_stdout e) @ '' stderr: '' @ output_text (ed_stderr e)"

definition make_dir :: "'w machine \<Rightarrow> string \<Rightarrow> ('w, unit) op" where
  "make_dir m dir = errW (\<lambda>err. ''failed to create '' @ dir @ '': '' @ err) (mc_mkdir m dir)"

definition usable_stem :: "string \<Rightarrow> string + string" where
  "usable_stem input = (case file_stem input of Some stem \<Rightarrow> Inr stem | None \<Rightarrow> Inl (input @ '' has no usable file stem''))"

lemma contains_append: "contains needle a \<or> contains needle b \<Longrightarrow> contains needle (a @ b)"
  unfolding contains_iff by (metis append.assoc)

lemma contains_self [simp]: "contains needle needle"
  unfolding contains_iff by (metis append_Nil append_Nil2)

section \<open>Availability\<close>

definition check_binary :: "'w machine \<Rightarrow> string \<Rightarrow> string list \<Rightarrow> string \<Rightarrow> ('w, unit) op" where
  "check_binary m binary args why =
     bindW (errW (\<lambda>_. in_quotes binary @ '' was not found on PATH -- '' @ why) (mc_run m (binary # args))) (\<lambda>e.
     pureW (if succeeded e then Inr ()
       else Inl (in_quotes (binary @ '' '' @ join '' '' args) @ '' failed (exit '' @ debug_code (ed_code e) @ '') -- '' @ why @
         ''. stderr: '' @ output_text (ed_stderr e))))"

section \<open>A machine on which everything succeeds\<close>

definition steady_exit :: exited where
  "steady_exit = \<lparr>ed_code = Some 0, ed_signal = None, ed_stdout = [], ed_stderr = []\<rparr>"

definition steady_machine :: "unit machine" where
  "steady_machine = \<lparr>mc_run = (\<lambda>argv w. (Inr steady_exit, w)), mc_run_within = (\<lambda>n argv w. (Inr (Some steady_exit), w)),
     mc_len = (\<lambda>p w. Inr 5), mc_exists = (\<lambda>p w. True), mc_head = (\<lambda>n p w. Inr ''----''), mc_text = (\<lambda>p w. Inr []),
     mc_mkdir = (\<lambda>p w. (Inr (), w)), mc_write = (\<lambda>p tx w. (Inr (), w)), mc_copy = (\<lambda>p q w. (Inr (), w)),
     mc_absolute = Inr, mc_directory_url = Some\<rparr>"

end
