(* ===== verification/Documents.thy ===== *)
theory Documents
  imports Subprocess Procreate EmailShape
begin

text \<open>
  \<open>transform/soffice.rs\<close> and \<open>transform/documents.rs\<close>: LibreOffice, Calibre, Ghostscript and pandoc as programs, the
  test that keeps private keys from being converted, the test that an SVG draws something, text clippings and
  tab-separated tables. The property-list and CSV libraries are parameters.
\<close>

section \<open>LibreOffice\<close>

definition len_or_zero :: "string + nat \<Rightarrow> nat" where
  "len_or_zero len = (case len of Inr n \<Rightarrow> n | Inl _ \<Rightarrow> 0)"

definition SOFFICE_TIMEOUT :: nat where "SOFFICE_TIMEOUT = 300"

definition soffice_check_available :: "'w machine \<Rightarrow> ('w, unit) op" where
  "soffice_check_available m =
     bindW (errW (\<lambda>_. in_quotes ''soffice'' @ '' was not found on PATH -- required for '' @
       in_quotes ''pigeon job run transform'' @ '' with an Apple Numbers or document input kind (doc, docx, pages, rtf, pptx, key)'')
       (mc_run m [''soffice'', ''--version''])) (\<lambda>e.
     pureW (if succeeded e then Inr ()
       else Inl (in_quotes ''soffice --version'' @ '' failed (exit '' @ debug_code (ed_code e) @ '') -- required for '' @
         in_quotes ''pigeon job run transform'' @ '' with an Apple Numbers or document input kind. stderr: '' @
         output_text (ed_stderr e))))"

definition directory_url :: "'w machine \<Rightarrow> string \<Rightarrow> string + string" where
  "directory_url m path = bindE (case mc_absolute m path of Inl err \<Rightarrow> Inl (''failed to resolve '' @ path @ '': '' @ err) | Inr a \<Rightarrow> Inr a) (\<lambda>absolute.
     case mc_directory_url m absolute of None \<Rightarrow> Inl (absolute @ '' cannot be expressed as a file URL'') | Some url \<Rightarrow> Inr url)"

definition termination_signal :: "exited \<Rightarrow> string" where
  "termination_signal e = (case ed_signal e of Some signal \<Rightarrow> ''signal '' @ dec_int signal | None \<Rightarrow> ''no exit code'')"

definition soffice_argv :: "string \<Rightarrow> string \<Rightarrow> string \<Rightarrow> string \<Rightarrow> string list" where
  "soffice_argv profile_url outdir_url target_ext input =
     [''soffice'', ''--headless'', ''-env:UserInstallation='' @ profile_url, ''--convert-to'', target_ext, ''--outdir'', outdir_url, input]"

text \<open>What is wanted is a file that is not empty; the exit code only decides the message.\<close>

definition soffice_convert :: "'w machine \<Rightarrow> string \<Rightarrow> string \<Rightarrow> string \<Rightarrow> string \<Rightarrow> ('w, string) op" where
  "soffice_convert m input work_dir target_ext signature =
     bindW (make_dir m work_dir) (\<lambda>_.
     bindW (pureW (directory_url m (path_join work_dir ''lo-profile''))) (\<lambda>profile_url.
     bindW (pureW (directory_url m work_dir)) (\<lambda>outdir_url.
     bindW (errW (\<lambda>err. ''failed to run soffice: '' @ err)
       (mc_run_within m SOFFICE_TIMEOUT (soffice_argv profile_url outdir_url target_ext input))) (\<lambda>ended.
     bindW (pureW (case ended of Some e \<Rightarrow> Inr e
       | None \<Rightarrow> Inl (''soffice timed out after '' @ dec SOFFICE_TIMEOUT @ ''s converting '' @ input @ '' -- '' @ signature @
           '' this run can process''))) (\<lambda>e.
     bindW (pureW (usable_stem input)) (\<lambda>stem.
     let produced = path_join work_dir (stem @ ''.'' @ target_ext) in
     bindW (askW (mc_len m produced)) (\<lambda>len.
     pureW (if len_or_zero len > 0 then Inr produced
       else
         (case ed_code e of
            None \<Rightarrow> Inl (''soffice crashed ('' @ termination_signal e @ '') converting '' @ input @ '' -- '' @
              CONVERTER_CRASHED_SIGNATURE @ ''. stderr: '' @ output_text (ed_stderr e))
          | Some _ \<Rightarrow> Inl (''soffice produced no usable .'' @ target_ext @ '' for '' @ input @ '' (exit '' @ debug_code (ed_code e) @
              '') -- '' @ signature @ outputs_text e))))))))))"

section \<open>The private-key guard\<close>

definition ZIP_MAGIC :: string where "ZIP_MAGIC = ''PK'' @ [CHR 3, CHR 4]"
definition MAX_TEXT_BYTES :: nat where "MAX_TEXT_BYTES = 512 * 1024 * 1024"

definition check_calibre_available :: "'w machine \<Rightarrow> ('w, unit) op" where
  "check_calibre_available m = check_binary m ''ebook-convert'' [''--version'']
     (''required for '' @ in_quotes ''pigeon job run transform --input-file-type epub'' @ ''. LibreOffice cannot read EPUB '' @
      ''(its filter is export-only), so this kind needs Calibre'')"

definition check_pandoc_available :: "'w machine \<Rightarrow> ('w, unit) op" where
  "check_pandoc_available m = check_binary m ''pandoc'' [''--version'']
     (''required for '' @ in_quotes ''pigeon job run transform'' @
      '' with a markdown or reStructuredText input kind (md, markdown, mkd, rst)'')"

definition check_ghostscript_available :: "'w machine \<Rightarrow> ('w, unit) op" where
  "check_ghostscript_available m = check_binary m ''gs'' [''--version'']
     (''required for '' @ in_quotes ''pigeon job run transform --input-file-type eps'' @ ''. LibreOffice alone turns an EPS '' @
      ''into an empty page, so Ghostscript converts it to PDF first'')"

text \<open>Opening fails, reading fails, or the first bytes of the file, as many as there are.\<close>

definition read_header :: "'w machine \<Rightarrow> nat \<Rightarrow> string \<Rightarrow> 'w \<Rightarrow> string + string" where
  "read_header m n input w = (case mc_head m n input w of
     Inl (Inl err) \<Rightarrow> Inl (''failed to open '' @ input @ '': '' @ err)
   | Inl (Inr err) \<Rightarrow> Inl (''failed to read '' @ input @ '': '' @ err)
   | Inr bytes \<Rightarrow> Inr (take n bytes))"

definition ensure_keynote :: "'w machine \<Rightarrow> string \<Rightarrow> ('w, unit) op" where
  "ensure_keynote m input =
     bindW (\<lambda>w. (read_header m (length ZIP_MAGIC) input w, w)) (\<lambda>header.
     pureW (if header = ZIP_MAGIC then Inr ()
       else Inl (input @ '' '' @ NOT_A_KEYNOTE_SIGNATURE @ '' -- a Keynote document is a zip container, and this file '' @
         ''does not begin with one. A '' @ in_quotes ''.key'' @ '' file is often a private key rather than a '' @
         ''presentation; it has not been converted, and its local copy is removed'')))"

definition to_pdf :: "'w machine \<Rightarrow> string \<Rightarrow> input_file_type \<Rightarrow> string \<Rightarrow> ('w, string) op" where
  "to_pdf m input kind work_dir =
     bindW (if kind = KeyKind then ensure_keynote m input else pureW (Inr ())) (\<lambda>_.
     soffice_convert m input work_dir ''pdf'' NOT_A_DOCUMENT_SIGNATURE)"

definition to_svg :: "'w machine \<Rightarrow> string \<Rightarrow> string \<Rightarrow> ('w, string) op" where
  "to_svg m input work_dir = soffice_convert m input work_dir ''svg'' NOT_A_DOCUMENT_SIGNATURE"

section \<open>Does an SVG draw anything\<close>

text \<open>\<open>str::find\<close> of a text: what is before its first occurrence and what is after it.\<close>

fun find_text :: "string \<Rightarrow> string \<Rightarrow> (string \<times> string) option" where
  "find_text needle [] = (if needle = [] then Some ([], []) else None)"
| "find_text needle (c # s) = (case strip_prefix needle (c # s) of
     Some after \<Rightarrow> Some ([], after)
   | None \<Rightarrow> map_option (\<lambda>(a, b). (c # a, b)) (find_text needle s))"

lemma find_text_eq: "find_text needle s = Some (a, b) \<Longrightarrow> s = a @ needle @ b"
proof (induction s arbitrary: a)
  case (Cons c s)
  then show ?case by (auto split: option.splits)
qed (auto split: if_splits)

text \<open>Up to and including the first \<open>>\<close>, and the rest.\<close>

definition split_tag :: "string \<Rightarrow> string \<times> string" where
  "split_tag s = (case split_once (CHR ''>'') s of Some (a, b) \<Rightarrow> (a @ ''>'', b) | None \<Rightarrow> (s, []))"

lemma split_tag_eq: "split_tag s = (a, b) \<Longrightarrow> s = a @ b"
  by (auto simp: split_tag_def split: option.splits simp: split_once_Some)

function strip_defs :: "string \<Rightarrow> string" where
  "strip_defs rest = (case find_text ''<defs'' rest of
     None \<Rightarrow> rest
   | Some (before, after) \<Rightarrow>
       let (tag, inside) = split_tag (''<defs'' @ after) in
       before @ (if ends_with ''/>'' tag then strip_defs inside
         else (case find_text ''</defs>'' (''<defs'' @ after) of
           Some (_, later) \<Rightarrow> strip_defs later
         | None \<Rightarrow> strip_defs [])))"
  by pat_completeness auto

termination
proof (relation "measure length")
  fix rest p before after q tag inside
  assume e: "find_text ''<defs'' rest = Some p" "(before, after) = p" "q = split_tag (''<defs'' @ after)" "(tag, inside) = q" "ends_with ''/>'' tag"
  then have "''<defs'' @ after = tag @ inside" "tag \<noteq> []" using split_tag_eq by (fastforce simp: ends_with_def)+
  then show "(inside, rest) \<in> measure length" using e find_text_eq [of "''<defs''" rest before after]
    by (auto dest: arg_cong [of _ _ length])
next
  fix rest p before after q tag inside r u later
  assume e: "find_text ''<defs'' rest = Some p" "(before, after) = p" "find_text ''</defs>'' (''<defs'' @ after) = Some r" "(u, later) = r"
  then show "(later, rest) \<in> measure length"
    using find_text_eq [of "''<defs''" rest before after] find_text_eq [of "''</defs>''" "''<defs'' @ after" u later]
    by (auto dest: arg_cong [of _ _ length])
next
  fix rest p before after
  assume "find_text ''<defs'' rest = Some p" "(before, after) = p"
  then show "([], rest) \<in> measure length" using find_text_eq [of "''<defs''" rest before after] by auto
qed simp

declare strip_defs.simps [simp del]

definition DRAWING :: "string list" where
  "DRAWING = [''path'', ''image'', ''text'', ''polygon'', ''polyline'', ''rect'', ''circle'', ''ellipse'', ''line'']"

definition BOUNDING_BOX :: string where
  "BOUNDING_BOX = ''class='' @ [CHR 0x22] @ ''BoundingBox'' @ [CHR 0x22]"

definition tag_name :: "string \<Rightarrow> string" where
  "tag_name rest = concat (takeWhile (\<lambda>u. \<not> (is_ws_char u \<or> u = ''/'' \<or> u = ''>'')) (chars rest))"

definition draws_here :: "string \<Rightarrow> bool" where
  "draws_here rest \<longleftrightarrow> tag_name rest \<in> set DRAWING \<and>
     \<not> (tag_name rest = ''rect'' \<and> contains BOUNDING_BOX (takeWhile (\<lambda>c. c \<noteq> CHR ''>'') rest))"

fun draws_loop :: "string \<Rightarrow> bool" where
  "draws_loop [] = False"
| "draws_loop (c # rest) = (if c = CHR ''<'' \<and> draws_here rest then True else draws_loop rest)"

definition svg_draws_something :: "string \<Rightarrow> bool" where
  "svg_draws_something svg = draws_loop (strip_defs svg)"

section \<open>Ghostscript, Calibre and pandoc\<close>

definition GHOSTSCRIPT_TIMEOUT :: nat where "GHOSTSCRIPT_TIMEOUT = 120"

definition gs_argv :: "string \<Rightarrow> string \<Rightarrow> string list" where
  "gs_argv pdf input = [''gs'', ''-dSAFER'', ''-dBATCH'', ''-dNOPAUSE'', ''-dQUIET'', ''-dEPSCrop'', ''-sDEVICE=pdfwrite'', ''-o'', pdf,
     ''-f'', input]"

definition eps_to_svg :: "'w machine \<Rightarrow> string \<Rightarrow> string \<Rightarrow> ('w, string) op" where
  "eps_to_svg m input work_dir =
     bindW (make_dir m work_dir) (\<lambda>_.
     bindW (pureW (usable_stem input)) (\<lambda>stem.
     let pdf = path_join work_dir (stem @ ''.pdf'') in
     bindW (errW (\<lambda>err. ''failed to run gs: '' @ err) (mc_run_within m GHOSTSCRIPT_TIMEOUT (gs_argv pdf input))) (\<lambda>ended.
     bindW (pureW (case ended of Some e \<Rightarrow> Inr e
       | None \<Rightarrow> Inl (''gs timed out after '' @ dec GHOSTSCRIPT_TIMEOUT @ ''s interpreting '' @ input @ '' -- '' @
           NOT_A_DOCUMENT_SIGNATURE @ '' this run can process''))) (\<lambda>e.
     bindW (askW (mc_len m pdf)) (\<lambda>len.
     bindW (pureW (if \<not> succeeded e \<or> len_or_zero len = 0
       then Inl (''gs could not interpret '' @ input @ '' as PostScript (exit '' @ debug_code (ed_code e) @ '') -- '' @
         NOT_A_DOCUMENT_SIGNATURE @ outputs_text e)
       else Inr ())) (\<lambda>_.
     bindW (soffice_convert m pdf work_dir ''svg'' NOT_A_DOCUMENT_SIGNATURE) (\<lambda>svg.
     bindW (errW (\<lambda>err. ''failed to read '' @ svg @ '': '' @ err) (\<lambda>w. (mc_text m svg w, w))) (\<lambda>body.
     pureW (if \<not> svg_draws_something body
       then Inl (input @ '' '' @ SVG_DREW_NOTHING_SIGNATURE @ '' -- no drawing element outside its definitions'')
       else Inr svg)))))))))"

definition epub_to_pdf :: "'w machine \<Rightarrow> string \<Rightarrow> string \<Rightarrow> ('w, string) op" where
  "epub_to_pdf m input work_dir =
     bindW (make_dir m work_dir) (\<lambda>_.
     bindW (pureW (usable_stem input)) (\<lambda>stem.
     let produced = path_join work_dir (stem @ ''.pdf'') in
     bindW (errW (\<lambda>err. ''failed to run ebook-convert: '' @ err) (mc_run m [''ebook-convert'', input, produced])) (\<lambda>e.
     bindW (askW (mc_len m produced)) (\<lambda>len.
     pureW (if len_or_zero len > 0 then Inr produced
       else Inl (''ebook-convert produced no usable .pdf for '' @ input @ '' (exit '' @ debug_code (ed_code e) @ '') -- '' @
         NOT_A_DOCUMENT_SIGNATURE @ outputs_text e))))))"

definition markup_to_text :: "'w machine \<Rightarrow> string \<Rightarrow> input_file_type \<Rightarrow> string \<Rightarrow> ('w, unit) op" where
  "markup_to_text m input kind output =
     bindW (pureW (if kind = MdKind then Inr ''markdown'' else if kind = RstKind then Inr ''rst''
       else Inl (kind_name kind @ '' is not a pandoc-readable markup kind''))) (\<lambda>reader.
     bindW (errW (\<lambda>err. ''failed to run pandoc: '' @ err)
       (mc_run m [''pandoc'', ''-f'', reader, ''-t'', ''plain'', ''-o'', output, input])) (\<lambda>e.
     bindW (pureW (if \<not> succeeded e
       then Inl (''pandoc failed to render '' @ input @ '' (exit '' @ debug_code (ed_code e) @ '') -- '' @
         NOT_A_DOCUMENT_SIGNATURE @ ''. stderr: '' @ output_text (ed_stderr e))
       else Inr ())) (\<lambda>_.
     bindW (askW (mc_exists m output)) (\<lambda>there.
     pureW (if \<not> there
       then Inl (''pandoc reported success but wrote no '' @ output @ '' for '' @ input @ '' -- '' @ NOT_A_DOCUMENT_SIGNATURE)
       else Inr ())))))"

section \<open>Clippings and tables\<close>

definition plain_text :: "plist \<Rightarrow> string option" where
  "plain_text v = (case v of PString tx \<Rightarrow> Some tx | PData bytes \<Rightarrow> if utf8_ok bytes then Some bytes else None | _ \<Rightarrow> None)"

definition clipping_text :: "string \<Rightarrow> string + plist \<Rightarrow> string + string" where
  "clipping_text input parsed =
     bindE (case parsed of Inl err \<Rightarrow> Inl (input @ '' '' @ NOT_A_TEXTCLIPPING_SIGNATURE @ '': '' @ err) | Inr v \<Rightarrow> Inr v) (\<lambda>v.
     bindE (case Option.bind (Option.bind (as_dictionary v) (\<lambda>d. map_of d ''UTI-Data'')) as_dictionary of
         Some d \<Rightarrow> Inr d
       | None \<Rightarrow> Inl (input @ '' '' @ NOT_A_TEXTCLIPPING_SIGNATURE @ '': no '' @ in_quotes ''UTI-Data'' @ '' dictionary'')) (\<lambda>d.
     case List.map_filter (\<lambda>key. Option.bind (map_of d key) plain_text)
         [''public.utf8-plain-text'', ''com.apple.traditional-mac-plain-text''] of
       tx # _ \<Rightarrow> Inr tx
     | [] \<Rightarrow> Inl (input @ '' '' @ NOT_A_TEXTCLIPPING_SIGNATURE @ '': '' @ in_quotes ''UTI-Data'' @
         '' carries no plain-text representation'')))"

definition clipping_to_text :: "'w machine \<Rightarrow> (string \<Rightarrow> 'w \<Rightarrow> string + plist) \<Rightarrow> string \<Rightarrow> string \<Rightarrow> ('w, unit) op" where
  "clipping_to_text m plist_of input output =
     bindW (\<lambda>w. (clipping_text input (plist_of input w), w)) (\<lambda>tx.
     errW (\<lambda>err. ''failed to write '' @ output @ '': '' @ err) (mc_write m output tx))"

text \<open>The CSV library: opening a table gives its records, each read or failed; a writer is created, takes records and
  is flushed.\<close>

record 'w tables =
  tb_open :: "string \<Rightarrow> 'w \<Rightarrow> string + (string + string list) list"
  tb_create :: "string \<Rightarrow> 'w \<Rightarrow> (string + unit) \<times> 'w"
  tb_record :: "string \<Rightarrow> string list \<Rightarrow> 'w \<Rightarrow> (string + unit) \<times> 'w"
  tb_flush :: "string \<Rightarrow> 'w \<Rightarrow> (string + unit) \<times> 'w"

fun write_csv_rows :: "'w tables \<Rightarrow> string \<Rightarrow> string list list \<Rightarrow> ('w, nat) op" where
  "write_csv_rows t path [] = pureW (Inr 0)"
| "write_csv_rows t path (row # rows) =
     bindW (errW (\<lambda>err. ''failed to write a row to '' @ path @ '': '' @ err) (tb_record t path row)) (\<lambda>_.
     bindW (write_csv_rows t path rows) (\<lambda>n. pureW (Inr (Suc n))))"

fun copy_records :: "'w tables \<Rightarrow> string \<Rightarrow> string \<Rightarrow> (string + string list) list \<Rightarrow> ('w, nat) op" where
  "copy_records t input output [] = pureW (Inr 0)"
| "copy_records t input output (r # rs) =
     bindW (pureW (case r of Inl err \<Rightarrow> Inl (input @ '' '' @ NOT_A_DOCUMENT_SIGNATURE @ '': '' @ err) | Inr row \<Rightarrow> Inr row)) (\<lambda>row.
     bindW (errW (\<lambda>err. ''failed to write a row to '' @ output @ '': '' @ err) (tb_record t output row)) (\<lambda>_.
     bindW (copy_records t input output rs) (\<lambda>n. pureW (Inr (Suc n)))))"

definition tsv_to_csv :: "'w machine \<Rightarrow> 'w tables \<Rightarrow> string \<Rightarrow> string \<Rightarrow> ('w, unit) op" where
  "tsv_to_csv m t input output =
     bindW (errW (\<lambda>err. ''failed to stat '' @ input @ '': '' @ err) (\<lambda>w. (mc_len m input w, w))) (\<lambda>len.
     bindW (pureW (if len > MAX_TEXT_BYTES
       then Inl (input @ '' is '' @ dec len @ '' bytes, over this job'' @ [CHR 0x27] @ ''s '' @ dec MAX_TEXT_BYTES @ ''-byte text limit'')
       else Inr ())) (\<lambda>_.
     bindW (errW (\<lambda>err. input @ '' '' @ NOT_A_DOCUMENT_SIGNATURE @ '': '' @ err) (\<lambda>w. (tb_open t input w, w))) (\<lambda>records.
     bindW (errW (\<lambda>err. ''failed to create '' @ output @ '': '' @ err) (tb_create t output)) (\<lambda>_.
     bindW (copy_records t input output records) (\<lambda>rows.
     bindW (errW (\<lambda>err. ''failed to flush '' @ output @ '': '' @ err) (tb_flush t output)) (\<lambda>_.
     pureW (if rows = 0 then Inl (input @ '' '' @ NOT_A_DOCUMENT_SIGNATURE @ '': no rows to convert'') else Inr ())))))))"

end
