(* ===== verification/DocumentsProofs.thy ===== *)
theory DocumentsProofs
  imports Documents
begin

text \<open>
  What the document converters promise: a file that is not a Keynote presentation never reaches LibreOffice, a
  converter that succeeds has left a file, and an SVG counts as drawing something exactly when its element tree does.
\<close>

section \<open>The private-key guard\<close>

lemma length_ZIP_MAGIC: "length ZIP_MAGIC = 4"
  by (simp add: ZIP_MAGIC_def)

text \<open>A file given as \<open>.key\<close> is converted only when it begins with the zip magic of a Keynote document. Otherwise,
  a private key among others, nothing at all has happened on the machine, no program has run, and when the file could
  be read the refusal is one that is not retried and has the local copy removed.\<close>

lemma private_key_never_converted:
  "case read_header m 4 input w of
     Inl e \<Rightarrow> to_pdf m input KeyKind work_dir w = (Inl e, w)
   | Inr header \<Rightarrow> if header = ZIP_MAGIC
       then to_pdf m input KeyKind work_dir w = soffice_convert m input work_dir ''pdf'' NOT_A_DOCUMENT_SIGNATURE w
       else (\<exists>err. to_pdf m input KeyKind work_dir w = (Inl err, w) \<and>
         is_wrong_input_kind_error err \<and> is_non_retryable_transcode_error err)"
proof (cases "read_header m 4 input w")
  case (Inl e)
  then show ?thesis by (simp add: to_pdf_def ensure_keynote_def length_ZIP_MAGIC bindW_def)
next
  case (Inr header)
  show ?thesis
  proof (cases "header = ZIP_MAGIC")
    case True
    then show ?thesis using Inr by (simp add: to_pdf_def ensure_keynote_def length_ZIP_MAGIC bindW_def)
  next
    case False
    let ?err = "input @ '' '' @ NOT_A_KEYNOTE_SIGNATURE @ '' -- a Keynote document is a zip container, and this file '' @
         ''does not begin with one. A '' @ in_quotes ''.key'' @ '' file is often a private key rather than a '' @
         ''presentation; it has not been converted, and its local copy is removed''"
    have "contains NOT_A_KEYNOTE_SIGNATURE ?err" by (intro contains_append) (simp add: contains_append)
    then have "is_wrong_input_kind_error ?err" by (simp add: is_wrong_input_kind_error_def)
    moreover have "to_pdf m input KeyKind work_dir w = (Inl ?err, w)"
      using Inr False by (simp add: to_pdf_def ensure_keynote_def length_ZIP_MAGIC bindW_def)
    ultimately show ?thesis using Inr False wrong_kind_non_retryable by auto
  qed
qed

section \<open>A conversion that succeeds has left a file\<close>

lemma len_or_zero_pos: "0 < len_or_zero len \<longleftrightarrow> (\<exists>n. len = Inr n \<and> 0 < n)"
  by (cases len) (simp_all add: len_or_zero_def)

lemma soffice_leaves_a_file:
  "soffice_convert m input work_dir ext signature w = (Inr produced, w') \<Longrightarrow> \<exists>n. mc_len m produced w' = Inr n \<and> 0 < n"
  by (auto simp: soffice_convert_def op_iff Let_def len_or_zero_pos split: if_splits option.splits)

lemma epub_leaves_a_file:
  "epub_to_pdf m input work_dir w = (Inr produced, w') \<Longrightarrow> \<exists>n. mc_len m produced w' = Inr n \<and> 0 < n"
  by (auto simp: epub_to_pdf_def op_iff Let_def len_or_zero_pos split: if_splits)

text \<open>A vector drawing of a PostScript file is only returned when LibreOffice left a file and it draws something.\<close>

lemma eps_draws_something:
  assumes "eps_to_svg m input work_dir w = (Inr svg, w')"
  shows "\<exists>body n. mc_text m svg w' = Inr body \<and> svg_draws_something body \<and> mc_len m svg w' = Inr n \<and> 0 < n"
proof -
  obtain pdf w1 body where "soffice_convert m pdf work_dir ''svg'' NOT_A_DOCUMENT_SIGNATURE w1 = (Inr svg, w')"
    "mc_text m svg w' = Inr body" "svg_draws_something body"
    using assms by (auto simp: eps_to_svg_def op_iff Let_def split: option.splits if_splits)
  then show ?thesis using soffice_leaves_a_file [of m pdf] by blast
qed

section \<open>SVG trees\<close>

text \<open>Text, a declaration or comment (what stands between \<open><\<close> and \<open>>\<close> of \<open><?xml ...?>\<close>,
  \<open><!DOCTYPE ...>\<close> or \<open><!-- ... -->\<close>), and elements with and without content.\<close>

datatype svg = SvgText string | SvgDecl string | SvgLeaf string string | SvgElem string string "svg list"

primrec svg_text :: "svg \<Rightarrow> string" where
  "svg_text (SvgText s) = s"
| "svg_text (SvgDecl d) = ''<'' @ d @ ''>''"
| "svg_text (SvgLeaf n a) = ''<'' @ n @ a @ ''/>''"
| "svg_text (SvgElem n a cs) = ''<'' @ n @ a @ ''>'' @ concat (map svg_text cs) @ ''</'' @ n @ ''>''"

abbreviation svg_document :: "svg list \<Rightarrow> string" where
  "svg_document cs \<equiv> concat (map svg_text cs)"

text \<open>What is drawn: a drawing element outside every \<open>defs\<close>, other than the rectangle that is a bounding box.\<close>

definition draws_tag :: "string \<Rightarrow> string \<Rightarrow> bool" where
  "draws_tag n a \<longleftrightarrow> n \<in> set DRAWING \<and> \<not> (n = ''rect'' \<and> contains BOUNDING_BOX (n @ a))"

primrec drawn :: "svg \<Rightarrow> bool" where
  "drawn (SvgText s) = False"
| "drawn (SvgDecl d) = False"
| "drawn (SvgLeaf n a) = draws_tag n (a @ ''/'')"
| "drawn (SvgElem n a cs) = (n \<noteq> ''defs'' \<and> (draws_tag n a \<or> list_ex id (map drawn cs)))"

text \<open>Names, attributes and texts as they are written: no markup inside them.\<close>

definition name_char :: "char \<Rightarrow> bool" where
  "name_char c \<longleftrightarrow> is_alnum c \<or> c \<in> {CHR ''-'', CHR ''_'', CHR '':'', CHR ''.''}"

definition name_ok :: "string \<Rightarrow> bool" where
  "name_ok n \<longleftrightarrow> n \<noteq> [] \<and> list_all name_char n \<and> (starts_with ''defs'' n \<longrightarrow> n = ''defs'')"

definition attributes_ok :: "string \<Rightarrow> bool" where
  "attributes_ok a \<longleftrightarrow> a = [] \<or> (hd a = CHR '' '' \<and> utf8_ok (tl a) \<and> CHR ''<'' \<notin> set a \<and> CHR ''>'' \<notin> set a)"

definition declaration_ok :: "string \<Rightarrow> bool" where
  "declaration_ok d \<longleftrightarrow> d \<noteq> [] \<and> hd d \<in> {CHR ''?'', CHR ''!''} \<and> utf8_ok (tl d) \<and> CHR ''<'' \<notin> set d"

primrec no_defs :: "svg \<Rightarrow> bool" where
  "no_defs (SvgText s) = True"
| "no_defs (SvgDecl d) = True"
| "no_defs (SvgLeaf n a) = True"
| "no_defs (SvgElem n a cs) = (n \<noteq> ''defs'' \<and> list_all id (map no_defs cs))"

primrec svg_wf :: "svg \<Rightarrow> bool" where
  "svg_wf (SvgText s) = (utf8_ok s \<and> CHR ''<'' \<notin> set s)"
| "svg_wf (SvgDecl d) = declaration_ok d"
| "svg_wf (SvgLeaf n a) = (name_ok n \<and> attributes_ok a)"
| "svg_wf (SvgElem n a cs) = (name_ok n \<and> attributes_ok a \<and> \<not> ends_with ''/'' a \<and> list_all id (map svg_wf cs) \<and>
     (n = ''defs'' \<longrightarrow> list_all no_defs cs))"

section \<open>Stripping the definitions\<close>

lemma declaration_cases:
  assumes "declaration_ok d"
  obtains c t where "d = c # t" and "c = CHR ''?'' \<or> c = CHR ''!''" and "utf8_ok t" and "CHR ''<'' \<notin> set (c # t @ ''>'')"
  using assms by (cases d) (auto simp: declaration_ok_def)

lemma find_text_skip: "\<not> starts_with needle (c # s) \<Longrightarrow>
    find_text needle (c # s) = map_option (\<lambda>(a, b). (c # a, b)) (find_text needle s)"
  by (cases "strip_prefix needle (c # s)") (simp_all add: starts_with_def)

lemma strip_defs_skip: "\<not> starts_with ''<defs'' (c # s) \<Longrightarrow> strip_defs (c # s) = c # strip_defs s"
  unfolding strip_defs.simps [of "c # s"] strip_defs.simps [of s] find_text_skip
  by (simp add: Let_def split: option.split prod.split)

lemma strip_defs_plain: "CHR ''<'' \<notin> set x \<Longrightarrow> strip_defs (x @ s) = x @ strip_defs s"
  by (induction x) (auto simp: strip_defs_skip starts_with_def)

text \<open>What follows the first occurrence of the closing tag.\<close>

definition after_defs :: "string \<Rightarrow> string option" where
  "after_defs s = map_option snd (find_text ''</defs>'' s)"

lemma after_defs_skip: "\<not> starts_with ''</defs>'' (c # s) \<Longrightarrow> after_defs (c # s) = after_defs s"
  unfolding after_defs_def find_text_skip by (simp add: option.map_comp comp_def case_prod_beta)

lemma after_defs_plain: "CHR ''<'' \<notin> set x \<Longrightarrow> after_defs (x @ s) = after_defs s"
  by (induction x) (auto simp: after_defs_skip starts_with_def)

lemma after_defs_here: "after_defs (''</defs>'' @ s) = Some s"
  by (simp add: after_defs_def)

lemma name_props:
  assumes "name_ok n"
  shows "n \<noteq> []" "CHR ''<'' \<notin> set n" "CHR ''>'' \<notin> set n" "CHR ''/'' \<notin> set n"
  using assms by (auto simp: name_ok_def list_all_iff name_char_def is_alnum_def is_digit_def is_upper_def is_lower_def)

lemma name_prefix:
  assumes "name_ok n" and "\<not> name_char y"
  shows "starts_with ''defs'' (n @ y # s) \<longleftrightarrow> n = ''defs''"
proof
  assume "starts_with ''defs'' (n @ y # s)"
  then obtain t where t: "n @ y # s = ''defs'' @ t" unfolding starts_with_iff by blast
  have "4 \<le> length n"
  proof (rule ccontr)
    assume less: "\<not> 4 \<le> length n"
    then have short: "length n < length ''defs''" by simp
    have "y = (n @ y # s) ! length n" by simp
    also have "\<dots> = (''defs'' @ t) ! length n" by (simp only: t)
    also have "\<dots> = ''defs'' ! length n" by (simp only: nth_append short if_True)
    finally have "y \<in> set ''defs''" using nth_mem [OF short] by (simp only:)
    moreover have "\<forall>c \<in> set ''defs''. name_char c" by (simp add: name_char_def is_alnum_def is_lower_def)
    ultimately show False using assms(2) by blast
  qed
  then have "take 4 n = ''defs''" using arg_cong [OF t, of "take 4"] by simp
  then have "\<exists>u. n = ''defs'' @ u" using append_take_drop_id [of 4 n] by metis
  then show "n = ''defs''" using assms(1) by (auto simp: name_ok_def starts_with_iff)
qed (simp add: starts_with_iff)

lemma strip_defs_open:
  assumes "name_ok n" and "n \<noteq> ''defs''" and "\<not> name_char y"
  shows "strip_defs (''<'' @ n @ y # s) = ''<'' @ n @ strip_defs (y # s)"
proof -
  have "\<not> starts_with ''<defs'' (CHR ''<'' # n @ y # s)" using name_prefix [OF assms(1,3), of s] assms(2) by (simp add: starts_with_iff)
  then show ?thesis using strip_defs_plain [of n "y # s"] name_props [OF assms(1)] by (simp add: strip_defs_skip)
qed

lemma strip_defs_close: "CHR ''<'' \<notin> set n \<Longrightarrow> strip_defs (''</'' @ n @ ''>'' @ s) = ''</'' @ n @ ''>'' @ strip_defs s"
  using strip_defs_plain [of "CHR ''/'' # n @ ''>''" s] by (simp add: strip_defs_skip starts_with_def)

lemma attributes_end: "attributes_ok a \<Longrightarrow> \<exists>y ys. a @ CHR ''>'' # s = y # ys \<and> \<not> name_char y"
  by (cases a) (auto simp: attributes_ok_def name_char_def is_alnum_def is_digit_def is_upper_def is_lower_def)

lemma strip_defs_tag:
  assumes "name_ok n" and "n \<noteq> ''defs''" and "attributes_ok a"
  shows "strip_defs (''<'' @ n @ a @ ''>'' @ s) = ''<'' @ n @ a @ ''>'' @ strip_defs s"
    and "strip_defs (''<'' @ n @ a @ ''/>'' @ s) = ''<'' @ n @ a @ ''/>'' @ strip_defs s"
proof -
  have plain: "CHR ''<'' \<notin> set (a @ ''>'')" "CHR ''<'' \<notin> set (a @ ''/>'')" using assms(3) by (auto simp: attributes_ok_def)
  obtain y ys where y: "a @ CHR ''>'' # s = y # ys" "\<not> name_char y" using attributes_end [OF assms(3)] by blast
  then show "strip_defs (''<'' @ n @ a @ ''>'' @ s) = ''<'' @ n @ a @ ''>'' @ strip_defs s"
    using strip_defs_open [OF assms(1,2) y(2), of ys] strip_defs_plain [OF plain(1), of s] by simp
  have "\<not> name_char (CHR ''/'')" by (simp add: name_char_def is_alnum_def is_digit_def is_upper_def is_lower_def)
  then obtain z zs where z: "a @ CHR ''/'' # CHR ''>'' # s = z # zs" "\<not> name_char z"
    using assms(3) by (cases a) (auto simp: attributes_ok_def name_char_def is_alnum_def is_digit_def is_upper_def is_lower_def)
  then show "strip_defs (''<'' @ n @ a @ ''/>'' @ s) = ''<'' @ n @ a @ ''/>'' @ strip_defs s"
    using strip_defs_open [OF assms(1,2) z(2), of zs] strip_defs_plain [OF plain(2), of s] by simp
qed

text \<open>Inside a \<open>defs\<close> element nothing looks like its end.\<close>

lemma after_defs_open:
  assumes "name_ok n" and "attributes_ok a"
  shows "after_defs (''<'' @ n @ a @ ''>'' @ s) = after_defs s" and "after_defs (''<'' @ n @ a @ ''/>'' @ s) = after_defs s"
proof -
  obtain c n' where "n = c # n'" "CHR ''/'' \<noteq> c" using name_props [OF assms(1)] by (cases n) auto
  then have first: "\<not> starts_with ''</defs>'' (CHR ''<'' # n @ r)" for r by (simp add: starts_with_def)
  have plain: "CHR ''<'' \<notin> set (n @ a @ ''>'')" "CHR ''<'' \<notin> set (n @ a @ ''/>'')"
    using assms name_props(2) by (auto simp: attributes_ok_def)
  show "after_defs (''<'' @ n @ a @ ''>'' @ s) = after_defs s" "after_defs (''<'' @ n @ a @ ''/>'' @ s) = after_defs s"
    using after_defs_skip [OF first] after_defs_plain [OF plain(1), of s] after_defs_plain [OF plain(2), of s] by simp_all
qed

lemma after_defs_close:
  assumes "name_ok n" and "n \<noteq> ''defs''"
  shows "after_defs (''</'' @ n @ ''>'' @ s) = after_defs s"
proof -
  have "\<not> name_char (CHR ''>'')" by (simp add: name_char_def is_alnum_def is_digit_def is_upper_def is_lower_def)
  from name_prefix [OF assms(1) this, of s] assms(2) have "\<not> starts_with ''</defs>'' (CHR ''<'' # CHR ''/'' # n @ CHR ''>'' # s)"
    by (auto simp: starts_with_iff)
  then show ?thesis using after_defs_skip after_defs_plain [of "CHR ''/'' # n @ ''>''" s] name_props [OF assms(1)] by simp
qed

lemma after_defs_declaration:
  assumes "declaration_ok d"
  shows "after_defs (''<'' @ d @ ''>'' @ s) = after_defs s"
proof -
  obtain c t where d: "d = c # t" "c = CHR ''?'' \<or> c = CHR ''!''" "CHR ''<'' \<notin> set (c # t @ ''>'')"
    using declaration_cases [OF assms] by metis
  then have "\<not> starts_with ''</defs>'' (CHR ''<'' # c # t @ ''>'' @ s)" by (auto simp: starts_with_def)
  then show ?thesis using d after_defs_skip after_defs_plain [OF d(3), of s] by simp
qed

lemma strip_defs_declaration:
  assumes "declaration_ok d"
  shows "strip_defs (''<'' @ d @ ''>'' @ s) = ''<'' @ d @ ''>'' @ strip_defs s"
proof -
  obtain c t where d: "d = c # t" "c = CHR ''?'' \<or> c = CHR ''!''" "CHR ''<'' \<notin> set (c # t @ ''>'')"
    using declaration_cases [OF assms] by metis
  then have "\<not> starts_with ''<defs'' (CHR ''<'' # c # t @ ''>'' @ s)" by (auto simp: starts_with_def)
  then show ?thesis using d strip_defs_skip strip_defs_plain [OF d(3), of s] by simp
qed

lemma after_defs_tree: "svg_wf t \<Longrightarrow> no_defs t \<Longrightarrow> after_defs (svg_text t @ s) = after_defs s"
proof (induction t arbitrary: s)
  case (SvgElem n a cs)
  have "after_defs (concat (map svg_text ts) @ r) = after_defs r" if "set ts \<subseteq> set cs" for ts r
    using that
  proof (induction ts)
    case (Cons t ts)
    then have "t \<in> set cs" "svg_wf t" "no_defs t" using SvgElem.prems by (auto simp: list_all_iff)
    then show ?case using SvgElem.IH [of t] Cons by simp
  qed simp
  from this [of cs] show ?case using SvgElem.prems after_defs_open(1) [of n a] after_defs_close [of n] by simp
next
  case (SvgLeaf n a)
  then show ?case using after_defs_open(2) [of n a s] by simp
next
  case (SvgDecl d)
  then show ?case using after_defs_declaration [of d s] by simp
qed (simp add: after_defs_plain)

lemma after_defs_trees: "list_all svg_wf cs \<Longrightarrow> list_all no_defs cs \<Longrightarrow> after_defs (svg_document cs @ s) = after_defs s"
  by (induction cs) (simp_all add: after_defs_tree)

lemma ends_with_snoc: "ends_with (p @ [c]) (s @ [c]) \<longleftrightarrow> ends_with p s"
  by (simp add: ends_with_def strip_suffix_def)

lemma strip_defs_leaf:
  assumes "attributes_ok a"
  shows "strip_defs (''<defs'' @ a @ ''/>'' @ s) = strip_defs s"
proof -
  have "CHR ''>'' \<notin> set (''<defs'' @ a @ ''/'')" using assms by (auto simp: attributes_ok_def)
  from split_once_append [OF this, of s]
  have tag: "split_tag (''<defs'' @ a @ ''/>'' @ s) = (''<defs'' @ a @ ''/>'', s)" by (simp add: split_tag_def)
  have "ends_with ''/>'' (''<defs'' @ a @ ''/>'')" by (simp add: ends_with_def strip_suffix_def)
  then show ?thesis using tag by (subst strip_defs.simps) simp
qed

lemma strip_defs_defs:
  assumes "attributes_ok a" and "\<not> ends_with ''/'' a" and "list_all svg_wf cs" and "list_all no_defs cs"
  shows "strip_defs (''<defs'' @ a @ ''>'' @ svg_document cs @ ''</defs>'' @ s) = strip_defs s"
proof -
  let ?inside = "svg_document cs @ ''</defs>'' @ s"
  have "CHR ''>'' \<notin> set (''<defs'' @ a)" using assms(1) by (auto simp: attributes_ok_def)
  from split_once_append [OF this, of ?inside]
  have tag: "split_tag (''<defs'' @ a @ ''>'' @ ?inside) = (''<defs'' @ a @ ''>'', ?inside)" by (simp add: split_tag_def)
  have "\<not> ends_with ''/'' (''<defs'' @ a)" using assms(2) by (cases a rule: rev_cases) (auto simp: ends_with_def strip_suffix_def)
  then have open_tag: "\<not> ends_with ''/>'' (''<defs'' @ a @ ''>'')" using ends_with_snoc [of "''/''" "CHR ''>''" "''<defs'' @ a"] by simp
  have "name_ok ''defs''" by (simp add: name_ok_def name_char_def is_alnum_def is_lower_def)
  from after_defs_open(1) [OF this assms(1), of ?inside] after_defs_trees [OF assms(3,4), of "''</defs>'' @ s"] after_defs_here [of s]
  have "after_defs (''<defs'' @ a @ ''>'' @ ?inside) = Some s" by simp
  then obtain u where u: "find_text ''</defs>'' (''<defs'' @ a @ ''>'' @ ?inside) = Some (u, s)" by (auto simp: after_defs_def)
  have "find_text ''<defs'' (''<defs'' @ a @ ''>'' @ ?inside) = Some ([], a @ ''>'' @ ?inside)" by simp
  then show ?thesis using tag open_tag u by (subst strip_defs.simps) (simp only: option.case prod.case Let_def if_False append_Nil)
qed

primrec kept :: "svg \<Rightarrow> string" where
  "kept (SvgText s) = s"
| "kept (SvgDecl d) = ''<'' @ d @ ''>''"
| "kept (SvgLeaf n a) = (if n = ''defs'' then [] else ''<'' @ n @ a @ ''/>'')"
| "kept (SvgElem n a cs) = (if n = ''defs'' then [] else ''<'' @ n @ a @ ''>'' @ concat (map kept cs) @ ''</'' @ n @ ''>'')"

lemma strip_defs_tree: "svg_wf t \<Longrightarrow> strip_defs (svg_text t @ s) = kept t @ strip_defs s"
proof (induction t arbitrary: s)
  case (SvgElem n a cs)
  have trees: "strip_defs (concat (map svg_text ts) @ r) = concat (map kept ts) @ strip_defs r" if "set ts \<subseteq> set cs" for ts r
    using that
  proof (induction ts)
    case (Cons t ts)
    then have "t \<in> set cs" "svg_wf t" using SvgElem.prems by (auto simp: list_all_iff)
    then show ?case using SvgElem.IH [of t] Cons by simp
  qed simp
  show ?case
  proof (cases "n = ''defs''")
    case True
    have "list_all svg_wf cs" using SvgElem.prems by (simp add: list_all_iff)
    then show ?thesis using True SvgElem.prems strip_defs_defs [of a cs s] by simp
  next
    case False
    have "CHR ''<'' \<notin> set n" using SvgElem.prems name_props by simp
    then show ?thesis using False SvgElem.prems trees [of cs] strip_defs_tag(1) [of n a] strip_defs_close [of n s] by simp
  qed
next
  case (SvgLeaf n a)
  then show ?case using strip_defs_tag(2) [of n a s] strip_defs_leaf [of a s] by auto
next
  case (SvgDecl d)
  then show ?case using strip_defs_declaration [of d s] by simp
qed (simp add: strip_defs_plain)

section \<open>Looking for a drawing element\<close>

definition starts_char :: "string \<Rightarrow> bool" where
  "starts_char s \<longleftrightarrow> s = [] \<or> \<not> is_cont (hd s)"

lemma chars_ascii: "starts_char s \<Longrightarrow> chars (c # s) = [c] # chars s"
  by (cases s) (auto simp: starts_char_def chars_Cons)

lemma name_char_props: "name_char c \<Longrightarrow> \<not> is_cont c \<and> \<not> is_ws_char [c] \<and> c \<noteq> CHR ''/'' \<and> c \<noteq> CHR ''>''"
  by (auto simp: name_char_def is_alnum_def is_digit_def is_upper_def is_lower_def is_cont_def is_ws_char_def ws1_def)

lemma tag_name_exact:
  assumes "list_all name_char n" and "y = CHR '' '' \<or> y = CHR ''/'' \<or> y = CHR ''>''" and "starts_char ys"
  shows "tag_name (n @ y # ys) = n"
  using assms(1)
proof (induction n)
  case Nil
  then show ?case using assms(2) chars_ascii [OF assms(3), of y] by (auto simp: tag_name_def is_ws_char_def ws1_def)
next
  case (Cons c n)
  have "\<not> is_cont y" using assms(2) by (auto simp: is_cont_def)
  then have "starts_char (n @ y # ys)" using Cons.prems name_char_props by (cases n) (auto simp: starts_char_def)
  then show ?case using Cons name_char_props [of c] by (simp add: tag_name_def chars_ascii)
qed

lemma draws_plain: "CHR ''<'' \<notin> set x \<Longrightarrow> draws_loop (x @ s) = draws_loop s"
  by (induction x) auto

lemma takeWhile_upto: "c \<notin> set x \<Longrightarrow> takeWhile (\<lambda>d. d \<noteq> c) (x @ c # s) = x"
  by (induction x) auto

lemma draws_open:
  assumes "name_ok n" and "attributes_ok a" and "starts_char s"
  shows "draws_here (n @ a @ ''>'' @ s) = draws_tag n a" and "draws_here (n @ a @ ''/>'' @ s) = draws_tag n (a @ ''/'')"
proof -
  have n: "list_all name_char n" using assms(1) by (simp add: name_ok_def)
  have close: "starts_char (CHR ''>'' # s)" by (simp add: starts_char_def is_cont_def)
  have names: "tag_name (n @ a @ CHR ''>'' # s) = n" "tag_name (n @ a @ CHR ''/'' # CHR ''>'' # s) = n"
  proof -
    have "starts_char (a' @ CHR ''>'' # s)" "starts_char (a' @ CHR ''/'' # CHR ''>'' # s)" if "a = CHR '' '' # a'" for a'
      using assms(2) that utf8_ok_hd [of a'] by (auto simp: attributes_ok_def starts_char_def is_cont_def hd_append)
    then show "tag_name (n @ a @ CHR ''>'' # s) = n" "tag_name (n @ a @ CHR ''/'' # CHR ''>'' # s) = n"
      using tag_name_exact [OF n, of "CHR '' ''"] tag_name_exact [OF n _ assms(3), of "CHR ''>''"]
        tag_name_exact [OF n _ close, of "CHR ''/''"] assms(2)
      by (cases a; simp add: attributes_ok_def)+
  qed
  have "CHR ''>'' \<notin> set (n @ a)" "CHR ''>'' \<notin> set (n @ a @ ''/'')"
    using assms(2) name_props [OF assms(1)] by (auto simp: attributes_ok_def)
  from this [THEN takeWhile_upto, of s] have inside: "takeWhile (\<lambda>c. c \<noteq> CHR ''>'') (n @ a @ CHR ''>'' # s) = n @ a"
    "takeWhile (\<lambda>c. c \<noteq> CHR ''>'') (n @ a @ CHR ''/'' # CHR ''>'' # s) = n @ a @ ''/''"
    by simp_all
  show "draws_here (n @ a @ ''>'' @ s) = draws_tag n a" "draws_here (n @ a @ ''/>'' @ s) = draws_tag n (a @ ''/'')"
    using names inside by (simp_all add: draws_here_def draws_tag_def)
qed

lemma draws_loop_open:
  assumes "name_ok n" and "attributes_ok a" and "starts_char s"
  shows "draws_loop (''<'' @ n @ a @ ''>'' @ s) = (draws_tag n a \<or> draws_loop s)"
    and "draws_loop (''<'' @ n @ a @ ''/>'' @ s) = (draws_tag n (a @ ''/'') \<or> draws_loop s)"
proof -
  have "CHR ''<'' \<notin> set (n @ a @ ''>'')" "CHR ''<'' \<notin> set (n @ a @ ''/>'')"
    using assms(2) name_props [OF assms(1)] by (auto simp: attributes_ok_def)
  from this [THEN draws_plain, of s] draws_open [OF assms]
  show "draws_loop (''<'' @ n @ a @ ''>'' @ s) = (draws_tag n a \<or> draws_loop s)"
    "draws_loop (''<'' @ n @ a @ ''/>'' @ s) = (draws_tag n (a @ ''/'') \<or> draws_loop s)" by simp_all
qed

lemma draws_loop_close:
  assumes "CHR ''<'' \<notin> set n" and "starts_char (n @ ''>'')"
  shows "draws_loop (''</'' @ n @ ''>'' @ s) = draws_loop s"
proof -
  have "starts_char (n @ CHR ''>'' # s)" using assms(2) by (cases n) (auto simp: starts_char_def)
  then have "tag_name (CHR ''/'' # n @ CHR ''>'' # s) = []" by (simp add: tag_name_def chars_ascii)
  then have "\<not> draws_here (CHR ''/'' # n @ CHR ''>'' # s)" by (simp add: draws_here_def DRAWING_def)
  then show ?thesis using draws_plain [of "CHR ''/'' # n @ ''>''" s] assms(1) by simp
qed

lemma draws_loop_declaration:
  assumes "declaration_ok d"
  shows "draws_loop (''<'' @ d @ ''>'' @ s) = draws_loop s"
proof -
  obtain c t where d: "d = c # t" "c = CHR ''?'' \<or> c = CHR ''!''" "utf8_ok t" "CHR ''<'' \<notin> set (c # t @ ''>'')"
    using declaration_cases [OF assms] by metis
  have "starts_char (t @ CHR ''>'' # s)"
    using utf8_ok_hd [of t] d(3) by (cases t) (auto simp: starts_char_def is_cont_def)
  then have "\<not> draws_here (c # t @ CHR ''>'' # s)"
    using d(2) by (auto simp: draws_here_def tag_name_def chars_ascii DRAWING_def is_ws_char_def ws1_def)
  then show ?thesis using d draws_plain [OF d(4), of s] by simp
qed

lemma kept_starts: "svg_wf t \<Longrightarrow> starts_char s \<Longrightarrow> starts_char (kept t @ s)"
  using utf8_ok_hd by (cases t) (auto simp: starts_char_def is_cont_def hd_append)

lemma draws_tree: "svg_wf t \<Longrightarrow> starts_char s \<Longrightarrow> draws_loop (kept t @ s) = (drawn t \<or> draws_loop s)"
proof (induction t arbitrary: s)
  case (SvgElem n a cs)
  have trees: "starts_char (concat (map kept ts) @ r) \<and> draws_loop (concat (map kept ts) @ r) = (list_ex id (map drawn ts) \<or> draws_loop r)"
    if "set ts \<subseteq> set cs" "starts_char r" for ts r
    using that
  proof (induction ts)
    case (Cons t ts)
    then have "t \<in> set cs" "svg_wf t" using SvgElem.prems by (auto simp: list_all_iff)
    then show ?case using SvgElem.IH [of t] Cons kept_starts by simp
  qed simp
  show ?case
  proof (cases "n = ''defs''")
    case False
    have n: "name_ok n" "attributes_ok a" "CHR ''<'' \<notin> set n" using SvgElem.prems name_props by simp_all
    have close: "starts_char (''</'' @ n @ ''>'' @ s)" by (simp add: starts_char_def is_cont_def)
    have "starts_char (n @ ''>'')" using n name_char_props by (cases n) (auto simp: starts_char_def name_ok_def)
    then show ?thesis using False trees [of cs "''</'' @ n @ ''>'' @ s"] close draws_loop_close [OF n(3), of s]
        draws_loop_open(1) [OF n(1,2), of "concat (map kept cs) @ ''</'' @ n @ ''>'' @ s"] by simp
  qed simp
next
  case (SvgLeaf n a)
  then show ?case using draws_loop_open(2) [of n a s] by (auto simp: draws_tag_def DRAWING_def)
next
  case (SvgDecl d)
  then show ?case using draws_loop_declaration [of d s] by simp
qed (simp add: draws_plain)

lemma strip_defs_document: "list_all svg_wf cs \<Longrightarrow> strip_defs (svg_document cs) = concat (map kept cs)"
proof (induction cs)
  case Nil
  show ?case by (subst strip_defs.simps) simp
qed (simp add: strip_defs_tree)

lemma draws_document:
  "list_all svg_wf cs \<Longrightarrow> starts_char (concat (map kept cs)) \<and> draws_loop (concat (map kept cs)) = list_ex drawn cs"
  by (induction cs) (auto simp: kept_starts draws_tree starts_char_def [of "[]"])

text \<open>A \<open>defs\<close> inside another one ends the definitions at the inner closing tag: what the outer one still
  holds then counts as drawn.\<close>

lemma nested_defs_misjudged:
  "svg_draws_something ''<defs><defs></defs><path/></defs>''"
  "\<not> drawn (SvgElem ''defs'' [] [SvgElem ''defs'' [] [], SvgLeaf ''path'' []])"
  by code_simp+

text \<open>C36. The test on the SVG a PostScript file became is the test it is meant to be. Take any document of elements,
  texts, declarations and comments in which no \<open><\<close> stands inside a text, an attribute, a declaration or a comment,
  no \<open>>\<close> inside an attribute, no element name merely begins with \<open>defs\<close>, and no \<open>defs\<close> holds
  another (\<open>svg_wf\<close>; \<open>nested_defs_misjudged\<close> is why). Scanning its text answers whether the element
  tree has a drawing element outside every \<open>defs\<close>, not counting the rectangle that only marks a bounding box.\<close>

theorem svg_draws_exactly:
  assumes "list_all svg_wf cs"
  shows "svg_draws_something (svg_document cs) \<longleftrightarrow> list_ex drawn cs"
  using strip_defs_document [OF assms] draws_document [OF assms] by (simp add: svg_draws_something_def)

theorem svg_draws_exactly_witness:
  "\<not> svg_draws_something (''<?xml?><!-- a --><svg><defs><path d/></defs><rect '' @ BOUNDING_BOX @ ''/></svg>'')"
proof -
  let ?doc = "[SvgDecl ''?xml?'', SvgDecl ''!-- a --'', SvgElem ''svg'' [] [SvgElem ''defs'' [] [SvgLeaf ''path'' '' d''],
     SvgLeaf ''rect'' (CHR '' '' # BOUNDING_BOX)]]"
  have box: "utf8_ok BOUNDING_BOX" "CHR ''<'' \<notin> set BOUNDING_BOX" "CHR ''>'' \<notin> set BOUNDING_BOX"
    by (simp_all add: BOUNDING_BOX_def utf8_ok_def chars_Cons utf8_char_def is_cont_def char_len_def lead_ok_def)
  have wf: "list_all svg_wf ?doc"
    using box by (simp add: declaration_ok_def name_ok_def name_char_def is_alnum_def is_lower_def attributes_ok_def ends_with_def strip_suffix_def
        starts_with_def utf8_ok_def chars_Cons utf8_char_def is_cont_def char_len_def lead_ok_def)
  have "contains BOUNDING_BOX (''rect'' @ CHR '' '' # BOUNDING_BOX @ ''/'')"
    using contains_iff by (metis append_Cons append_assoc append_Nil)
  then have "\<not> list_ex drawn ?doc" by (simp add: draws_tag_def DRAWING_def)
  then show ?thesis using svg_draws_exactly [OF wf] by simp
qed

end
