(* ===== verification/Media.thy ===== *)
theory Media
  imports Subprocess TransformFormat
begin

text \<open>
  \<open>transform/media.rs\<close>: ffmpeg and ffprobe as programs: still images, video and audio, with the guards on the
  result. Parsing JSON and \<open>f64\<close> arithmetic (reading a duration, showing it, the test for a truncated encode) are
  parameters.
\<close>

section \<open>Probes\<close>

text \<open>What ffprobe's JSON says: the streams and the components of the stream groups with their sizes, and for every
  video stream whether it is an attached picture.\<close>

type_synonym dimensions = "nat option \<times> nat option"

record probed_dimensions =
  pd_streams :: "dimensions list"
  pd_groups :: "dimensions list list"

record 'f media_library =
  ml_dimensions :: "string \<Rightarrow> probed_dimensions option"
  ml_attached_pics :: "string \<Rightarrow> nat list option"
  ml_f64 :: "string \<Rightarrow> 'f option"
  ml_truncated :: "'f \<Rightarrow> 'f \<Rightarrow> bool"
  ml_seconds :: "'f \<Rightarrow> string"

definition check_ffmpeg_binary :: "'w machine \<Rightarrow> string \<Rightarrow> ('w, unit) op" where
  "check_ffmpeg_binary m binary =
     bindW (errW (\<lambda>_. in_quotes binary @ '' was not found on PATH -- required for '' @ in_quotes ''pigeon job run transform'' @
       '' to transcode images'') (mc_run m [binary, ''-version''])) (\<lambda>_. pureW (Inr ()))"

definition check_ffmpeg_available :: "'w machine \<Rightarrow> ('w, unit) op" where
  "check_ffmpeg_available m = bindW (check_ffmpeg_binary m ''ffmpeg'') (\<lambda>_. check_ffmpeg_binary m ''ffprobe'')"

text \<open>A probe that cannot run, or fails, answers nothing.\<close>

definition probe :: "'w machine \<Rightarrow> string list \<Rightarrow> (string \<Rightarrow> 'a option) \<Rightarrow> ('w, 'a option) op" where
  "probe m argv read = (\<lambda>w. case mc_run m argv w of
     (Inl _, w') \<Rightarrow> (Inr None, w')
   | (Inr e, w') \<Rightarrow> (Inr (if succeeded e then read (ed_stdout e) else None), w'))"

definition both_sides :: "dimensions \<Rightarrow> (nat \<times> nat) option" where
  "both_sides d = (case d of (Some width, Some height) \<Rightarrow> Some (width, height) | _ \<Rightarrow> None)"

definition dimensions_of :: "probed_dimensions \<Rightarrow> (nat \<times> nat) option" where
  "dimensions_of p =
     (case (case pd_groups p of (component # _) # _ \<Rightarrow> both_sides component | _ \<Rightarrow> None) of
        Some d \<Rightarrow> Some d
      | None \<Rightarrow> (case pd_streams p of stream # _ \<Rightarrow> both_sides stream | [] \<Rightarrow> None))"

definition probe_dimensions :: "'w machine \<Rightarrow> 'f media_library \<Rightarrow> string \<Rightarrow> ('w, (nat \<times> nat) option) op" where
  "probe_dimensions m ml path = probe m
     [''ffprobe'', ''-v'', ''error'', ''-print_format'', ''json'', ''-select_streams'', ''v:0'', ''-show_entries'',
      ''stream=width,height'', ''-show_stream_groups'', path]
     (\<lambda>out. Option.bind (ml_dimensions ml out) dimensions_of)"

definition probe_duration_seconds :: "'w machine \<Rightarrow> 'f media_library \<Rightarrow> string \<Rightarrow> ('w, 'f option) op" where
  "probe_duration_seconds m ml path = probe m
     [''ffprobe'', ''-v'', ''error'', ''-show_entries'', ''format=duration'', ''-of'', ''default=noprint_wrappers=1:nokey=1'', path]
     (\<lambda>out. ml_f64 ml (output_text out))"

definition probe_video_diagnostics :: "'w machine \<Rightarrow> string \<Rightarrow> ('w, string) op" where
  "probe_video_diagnostics m path = bindW (probe m
     [''ffprobe'', ''-v'', ''error'', ''-print_format'', ''json'', ''-show_entries'',
      ''stream=index,codec_type,width,height,sample_aspect_ratio,display_aspect_ratio:'' @
      ''stream_side_data=side_data_type,rotation,crop_top,crop_bottom,crop_left,crop_right:stream_tags=rotate'', path]
     (\<lambda>out. Some ('' (diagnostics: '' @ output_text out @ '')''))) (\<lambda>answer.
     pureW (Inr (case answer of Some d \<Rightarrow> d | None \<Rightarrow> [])))"

definition has_video_stream :: "'w machine \<Rightarrow> 'f media_library \<Rightarrow> string \<Rightarrow> ('w, bool) op" where
  "has_video_stream m ml path = bindW (probe m
     [''ffprobe'', ''-v'', ''error'', ''-select_streams'', ''v'', ''-show_entries'',
      ''stream=index:stream_disposition=attached_pic'', ''-of'', ''json'', path]
     (\<lambda>out. map_option (list_ex (\<lambda>attached_pic. attached_pic = 0)) (ml_attached_pics ml out))) (\<lambda>answer.
     pureW (Inr (answer = Some True)))"

section \<open>Guards\<close>

definition debug_pair :: "nat \<times> nat \<Rightarrow> string" where
  "debug_pair p = ''('' @ dec (fst p) @ '', '' @ dec (snd p) @ '')''"

text \<open>The area changed: the message up to the diagnostics.\<close>

definition area_changed :: "string \<Rightarrow> (nat \<times> nat) option \<Rightarrow> (nat \<times> nat) option \<Rightarrow> string option" where
  "area_changed input before after = (case (before, after) of
     (Some b, Some a) \<Rightarrow>
       if fst b * snd b \<noteq> fst a * snd a
       then Some (''transcoding '' @ input @ '' changed pixel area from '' @ debug_pair b @ '' ('' @ dec (fst b * snd b) @ '' px) to '' @
         debug_pair a @ '' ('' @ dec (fst a * snd a) @ '' px); refusing an output that isn'' @ [CHR 0x27] @ ''t full-size'')
       else None
   | _ \<Rightarrow> None)"

definition duration_guard :: "'f media_library \<Rightarrow> string \<Rightarrow> 'f option \<Rightarrow> 'f option \<Rightarrow> string + unit" where
  "duration_guard ml input before after = (case (before, after) of
     (Some b, Some a) \<Rightarrow>
       if ml_truncated ml b a
       then Inl (''transcoding '' @ input @ '' shortened duration from '' @ ml_seconds ml b @ ''s to '' @ ml_seconds ml a @
         ''s (allowance 0.5s or 2% of the input, whichever is larger); refusing a truncated or partial encode'')
       else Inr ()
   | _ \<Rightarrow> Inr ())"

text \<open>Running ffmpeg: it must start and succeed.\<close>

definition run_ffmpeg :: "'w machine \<Rightarrow> string \<Rightarrow> string list \<Rightarrow> ('w, unit) op" where
  "run_ffmpeg m input args =
     bindW (errW (\<lambda>err. ''failed to run ffmpeg: '' @ err) (mc_run m (''ffmpeg'' # args))) (\<lambda>e.
     pureW (if succeeded e then Inr () else Inl (''ffmpeg failed to transcode '' @ input @ '': '' @ output_text (ed_stderr e))))"

definition guard_duration :: "'w machine \<Rightarrow> 'f media_library \<Rightarrow> string \<Rightarrow> string \<Rightarrow> ('w, unit) op" where
  "guard_duration m ml input output =
     bindW (probe_duration_seconds m ml input) (\<lambda>before.
     bindW (probe_duration_seconds m ml output) (\<lambda>after. pureW (duration_guard ml input before after)))"

section \<open>Still images\<close>

definition JPG_ARGS :: "string list" where
  "JPG_ARGS = [''-q:v'', ''1'', ''-pix_fmt'', ''yuvj444p'', ''-f'', ''mjpeg'']"

definition FLATTEN_ONTO_WHITE :: string where
  "FLATTEN_ONTO_WHITE = ''format=rgba,split[fg][bg0];[bg0]drawbox=t=fill:c=white@1,'' @
     ''format=rgb24[bg];[bg][fg]overlay=format=auto:shortest=1''"

definition transcode_still :: "'w machine \<Rightarrow> 'f media_library \<Rightarrow> string \<Rightarrow> string \<Rightarrow> string list \<Rightarrow> ('w, unit) op" where
  "transcode_still m ml input output encode_args =
     bindW (run_ffmpeg m input ([''-y'', ''-loglevel'', ''error'', ''-i'', input, ''-frames:v'', ''1''] @ encode_args @ [output])) (\<lambda>_.
     bindW (probe_dimensions m ml input) (\<lambda>before.
     bindW (probe_dimensions m ml output) (\<lambda>after.
     pureW (case area_changed input before after of Some err \<Rightarrow> Inl err | None \<Rightarrow> Inr ()))))"

definition transcode_to_jpg :: "'w machine \<Rightarrow> 'f media_library \<Rightarrow> string \<Rightarrow> string \<Rightarrow> ('w, unit) op" where
  "transcode_to_jpg m ml input output = transcode_still m ml input output JPG_ARGS"

definition transcode_to_jpg_flattened :: "'w machine \<Rightarrow> 'f media_library \<Rightarrow> string \<Rightarrow> string \<Rightarrow> ('w, unit) op" where
  "transcode_to_jpg_flattened m ml input output =
     transcode_still m ml input output ([''-filter_complex'', FLATTEN_ONTO_WHITE] @ JPG_ARGS)"

definition transcode_to_png :: "'w machine \<Rightarrow> 'f media_library \<Rightarrow> string \<Rightarrow> string \<Rightarrow> ('w, unit) op" where
  "transcode_to_png m ml input output = transcode_still m ml input output [''-c:v'', ''png'', ''-f'', ''image2'']"

section \<open>Video and audio\<close>

definition video_args :: "string \<Rightarrow> string \<Rightarrow> video_quality \<Rightarrow> nat \<Rightarrow> string list" where
  "video_args input output quality threads =
     [''-y'', ''-loglevel'', ''error'', ''-noautorotate'', ''-apply_cropping:v'', ''codec'', ''-i'', input,
      ''-map'', ''0:v:0'', ''-map'', ''0:a:0?'', ''-c:v'', ''libx265'', ''-tag:v'', ''hvc1'', ''-preset'', ''medium'',
      ''-threads'', dec (max threads 1)] @
     (case crf quality of Some q \<Rightarrow> [''-crf'', dec q] | None \<Rightarrow> [''-x265-params'', ''lossless=1'']) @
     [''-c:a'', ''aac'', ''-b:a'', ''256k'', ''-f'', ''mp4'', output]"

definition transcode_video ::
  "'w machine \<Rightarrow> 'f media_library \<Rightarrow> string \<Rightarrow> string \<Rightarrow> video_quality \<Rightarrow> nat \<Rightarrow> ('w, unit) op" where
  "transcode_video m ml input output quality threads =
     bindW (has_video_stream m ml input) (\<lambda>video.
     bindW (pureW (if video then Inr ()
       else Inl (input @ '' '' @ NO_VIDEO_STREAM_SIGNATURE @ '' (likely an audio-only recording saved with a video '' @
         ''extension); see CLI-0142 for an audio-preserving input type''))) (\<lambda>_.
     bindW (run_ffmpeg m input (video_args input output quality threads)) (\<lambda>_.
     bindW (probe_dimensions m ml input) (\<lambda>before.
     bindW (probe_dimensions m ml output) (\<lambda>after.
     bindW (case area_changed input before after of
         None \<Rightarrow> pureW (Inr ())
       | Some err \<Rightarrow> bindW (probe_video_diagnostics m input) (\<lambda>diagnostics. pureW (Inl (err @ diagnostics)))) (\<lambda>_.
     guard_duration m ml input output))))))"

definition audio_args :: "string \<Rightarrow> string \<Rightarrow> audio_quality \<Rightarrow> string list" where
  "audio_args input output quality =
     [''-y'', ''-loglevel'', ''error'', ''-i'', input, ''-map'', ''0:a:0'', ''-c:a'', ''libopus'', ''-b:a'', bitrate quality,
      ''-application'', ''audio'', ''-f'', ''opus'', output]"

definition transcode_audio :: "'w machine \<Rightarrow> 'f media_library \<Rightarrow> string \<Rightarrow> string \<Rightarrow> audio_quality \<Rightarrow> ('w, unit) op" where
  "transcode_audio m ml input output quality =
     bindW (has_video_stream m ml input) (\<lambda>video.
     bindW (pureW (if video
       then Inl (input @ '' has a video stream, so it '' @ UNEXPECTED_VIDEO_STREAM_SIGNATURE @ ''; refusing to '' @
         ''discard video (use --input-file-type mp4 to transcode it as video)'')
       else Inr ())) (\<lambda>_.
     bindW (run_ffmpeg m input (audio_args input output quality)) (\<lambda>_.
     guard_duration m ml input output)))"

definition copy_through :: "'w machine \<Rightarrow> string \<Rightarrow> string \<Rightarrow> ('w, unit) op" where
  "copy_through m input output = errW (\<lambda>err. ''failed to copy '' @ input @ '' to '' @ output @ '': '' @ err) (mc_copy m input output)"

section \<open>The guards at work\<close>

lemma probe_Inr: "probe m argv read w = (r, w') \<Longrightarrow> \<exists>a. r = Inr a"
  by (auto simp: probe_def split: prod.splits sum.splits)

lemma has_video_stream_Inr: "\<exists>b w'. has_video_stream m ml path w = (Inr b, w')"
  by (auto simp: has_video_stream_def probe_def bindW_def split: prod.split sum.split)

text \<open>The order in which a transcode is refused: on the wrong kind of stream nothing but the probe has run.\<close>

lemma video_wants_video:
  assumes "has_video_stream m ml input w = (Inr False, w')"
  shows "\<exists>err. transcode_video m ml input output quality threads w = (Inl err, w') \<and> is_wrong_input_kind_error err"
proof -
  have "contains NO_VIDEO_STREAM_SIGNATURE (input @ '' '' @ NO_VIDEO_STREAM_SIGNATURE @ x)" for x by (simp add: contains_append)
  then show ?thesis using assms by (simp add: transcode_video_def bindW_def is_wrong_input_kind_error_def)
qed

lemma audio_refuses_video:
  assumes "has_video_stream m ml input w = (Inr True, w')"
  shows "\<exists>err. transcode_audio m ml input output quality w = (Inl err, w') \<and> is_wrong_input_kind_error err"
proof -
  have "contains UNEXPECTED_VIDEO_STREAM_SIGNATURE (input @ '' has a video stream, so it '' @ UNEXPECTED_VIDEO_STREAM_SIGNATURE @ x)" for x
    by (simp add: contains_append)
  then show ?thesis using assms by (simp add: transcode_audio_def bindW_def is_wrong_input_kind_error_def)
qed

text \<open>Cover art is not a video stream; one stream that is not an attached picture is.\<close>

lemma has_video_stream_answer:
  assumes "mc_run m [''ffprobe'', ''-v'', ''error'', ''-select_streams'', ''v'', ''-show_entries'',
      ''stream=index:stream_disposition=attached_pic'', ''-of'', ''json'', path] w = (Inr e, w')"
    and "succeeded e" and "ml_attached_pics ml (ed_stdout e) = Some pics"
  shows "has_video_stream m ml path w = (Inr (0 \<in> set pics), w')"
  using assms by (auto simp: has_video_stream_def probe_def bindW_def list_ex_iff)

text \<open>An accepted picture has the area of its source, wherever both can be told.\<close>

lemma still_full_size:
  assumes "transcode_still m ml input output args w = (Inr (), w')"
  shows "\<exists>w1 w2 before after. probe_dimensions m ml input w1 = (Inr before, w2) \<and> probe_dimensions m ml output w2 = (Inr after, w') \<and>
    (\<forall>b a. before = Some b \<longrightarrow> after = Some a \<longrightarrow> fst b * snd b = fst a * snd a)"
proof -
  obtain w1 w2 before after where "probe_dimensions m ml input w1 = (Inr before, w2)"
    "probe_dimensions m ml output w2 = (Inr after, w')" "area_changed input before after = None"
    using assms by (auto simp: transcode_still_def op_iff split: option.splits)
  moreover from this have "\<forall>b a. before = Some b \<longrightarrow> after = Some a \<longrightarrow> fst b * snd b = fst a * snd a"
    by (auto simp: area_changed_def split: if_splits)
  ultimately show ?thesis by blast
qed

text \<open>The guard of an audio transcode is open when the probe itself fails: whatever the file holds, ffmpeg is run on
  its first audio stream and the result is accepted.\<close>

lemma audio_guard_open_without_probe:
  assumes "mc_run m [''ffprobe'', ''-v'', ''error'', ''-select_streams'', ''v'', ''-show_entries'',
      ''stream=index:stream_disposition=attached_pic'', ''-of'', ''json'', input] w = (Inl err, w1)"
  shows "transcode_audio m ml input output quality w =
    bindW (run_ffmpeg m input (audio_args input output quality)) (\<lambda>_. guard_duration m ml input output) w1"
  using assms by (simp add: transcode_audio_def has_video_stream_def probe_def bindW_def)

end
