(* ===== verification/Wizards.thy ===== *)
theory Wizards
  imports KeyringWizard Documents Media TransformPool EmailScan DedupPool
begin

text \<open>
  The wizards of the jobs: \<open>job/shared_wizard.rs\<close> and the \<open>wizard.rs\<close> of rclone, transform, deduplicate, email import
  and email scan. An input is what its flag says, what its prompt gives and what it falls back to; a wizard resolves
  its inputs in order and ends refused, cancelled, or with the job to run. The terminal, the keyring file, the
  generated configuration and the machine's core count are parameters.
\<close>

section \<open>Inputs\<close>

record 'a wizard_input =
  wi_flag_value :: "'a result option"
  wi_prompt :: "'a result"
  wi_fallback :: "'a result"

definition resolve_input :: "ui \<Rightarrow> bool \<Rightarrow> 'a wizard_input \<Rightarrow> 'a result" where
  "resolve_input u non_interactive i =
     wizard_resolve (is_terminal u) non_interactive (wi_flag_value i) (wi_prompt i) (wi_fallback i)"

definition required :: "string \<Rightarrow> 'a result" where
  "required flag = Inl (Err (flag @ '' is required when not running interactively''))"

definition number_input :: "ui \<Rightarrow> nat option \<Rightarrow> string \<Rightarrow> string \<Rightarrow> nat \<Rightarrow> nat wizard_input" where
  "number_input u flag prompt what default_value =
     \<lparr>wi_flag_value = map_option (\<lambda>v. Inr (max v 1)) flag,
      wi_prompt = bindE (map_err (\<lambda>err. ''failed to read '' @ what @ '': '' @ err) (ask_number u prompt (Some default_value))) (\<lambda>v. Inr (max v 1)),
      wi_fallback = Inr default_value\<rparr>"

definition bucket_input :: "(string + nat) \<Rightarrow> store \<Rightarrow> string \<Rightarrow> string option \<Rightarrow> remote_target wizard_input" where
  "bucket_input answer st flag_name flag =
     \<lparr>wi_flag_value = map_option (\<lambda>v. remote_parse v st) flag,
      wi_prompt = bindE (prompt_select_bucket answer st) (\<lambda>b. Inr (bucket_root (bc_alias b))),
      wi_fallback = required flag_name\<rparr>"

text \<open>\<open>shared_wizard.rs\<close>.\<close>

definition load_keyring :: "string result \<Rightarrow> string option \<Rightarrow> (string \<Rightarrow> bool) \<Rightarrow> (string \<Rightarrow> store result) \<Rightarrow> store result" where
  "load_keyring resolve_path override file_exists load = bindE resolve_path (\<lambda>path.
     case override of
       Some explicit \<Rightarrow> if \<not> file_exists explicit then Inl (Err (''--keyring-path '' @ explicit @ '' does not exist'')) else load path
     | None \<Rightarrow> load path)"

definition prepare_rclone :: "bool \<Rightarrow> string result \<Rightarrow> (store \<Rightarrow> string \<Rightarrow> unit result) \<Rightarrow> store \<Rightarrow> unit result" where
  "prepare_rclone available config_path write_config st =
     (if \<not> available then Inl (Err (in_quotes ''rclone'' @ '' was not found on PATH -- required for every bucket-addressed job''))
      else bindE config_path (write_config st))"

definition debug_log_bucket_input :: "(string + nat) \<Rightarrow> store \<Rightarrow> string option \<Rightarrow> string wizard_input" where
  "debug_log_bucket_input answer st flag =
     \<lparr>wi_flag_value = map_option Inr flag,
      wi_prompt = bindE (prompt_select_bucket answer st) (\<lambda>b. Inr (bc_alias b)),
      wi_fallback = required ''--debug-log-bucket''\<rparr>"

definition ledger_bucket_input :: "(string + nat) \<Rightarrow> store \<Rightarrow> string option \<Rightarrow> remote_target wizard_input" where
  "ledger_bucket_input answer st flag = bucket_input answer st ''--ledger-bucket'' flag"

definition upload_target_input :: "ui \<Rightarrow> (string + nat) \<Rightarrow> store \<Rightarrow> string option \<Rightarrow> string option wizard_input" where
  "upload_target_input u answer st flag =
     \<lparr>wi_flag_value = map_option (\<lambda>alias_given. Inr (Some alias_given)) flag,
      wi_prompt = bindE (map_err (\<lambda>err. ''failed to read confirmation: '' @ err) (ask_confirm u ''Upload to a bucket-config?'' False)) (\<lambda>upload.
        if \<not> upload then Inr None
        else (case prompt_select_bucket answer st of Inr b \<Rightarrow> Inr (Some (bc_alias b)) | Inl Panic \<Rightarrow> Inl Panic | Inl (Err _) \<Rightarrow> Inr None)),
      wi_fallback = Inr None\<rparr>"

definition default_concurrency :: "nat option \<Rightarrow> nat" where
  "default_concurrency cores = (case cores of Some n \<Rightarrow> n | None \<Rightarrow> 4)"

definition CONCURRENCY_CLAMP_MULTIPLIER :: nat where "CONCURRENCY_CLAMP_MULTIPLIER = 2"

definition cpu_concurrency_input :: "ui \<Rightarrow> nat option \<Rightarrow> nat option \<Rightarrow> nat wizard_input" where
  "cpu_concurrency_input u cores flag =
     \<lparr>wi_flag_value = map_option (\<lambda>v. let value = max v 1; ceiling = default_concurrency cores * CONCURRENCY_CLAMP_MULTIPLIER in
        Inr (if value > ceiling then ceiling else value)) flag,
      wi_prompt = bindE (map_err (\<lambda>err. ''failed to read concurrency: '' @ err)
        (ask_number u ''Concurrency'' (Some (default_concurrency cores)))) (\<lambda>v. Inr (max v 1)),
      wi_fallback = required ''--concurrency''\<rparr>"

definition TRANSFERS_DEFAULT :: nat where "TRANSFERS_DEFAULT = 8"
definition CHECKERS_DEFAULT :: nat where "CHECKERS_DEFAULT = 16"

definition transfers_input :: "ui \<Rightarrow> nat option \<Rightarrow> nat wizard_input" where
  "transfers_input u flag = number_input u flag ''rclone --transfers'' ''transfers'' TRANSFERS_DEFAULT"

definition checkers_input :: "ui \<Rightarrow> nat option \<Rightarrow> nat wizard_input" where
  "checkers_input u flag = number_input u flag ''rclone --checkers'' ''checkers'' CHECKERS_DEFAULT"

definition tpslimit_input :: "ui \<Rightarrow> nat option \<Rightarrow> nat option wizard_input" where
  "tpslimit_input u flag =
     \<lparr>wi_flag_value = map_option (\<lambda>v. Inr (Some v)) flag,
      wi_prompt = bindE (map_err (\<lambda>err. ''failed to read tpslimit: '' @ err) (ask_text u ''rclone --tpslimit (blank = no cap)'' None)) (\<lambda>value.
        let trimmed = trim value in
        if trimmed = [] then Inr None
        else (case parse_usize trimmed of Some n \<Rightarrow> Inr (Some n) | None \<Rightarrow> Inl (Err (in_quotes trimmed @ '' is not a valid tpslimit'')))),
      wi_fallback = Inr None\<rparr>"

definition confirm_input :: "ui \<Rightarrow> bool \<Rightarrow> bool wizard_input" where
  "confirm_input u non_interactive =
     \<lparr>wi_flag_value = (if non_interactive then Some (Inr True) else None),
      wi_prompt = map_err (\<lambda>err. ''failed to read confirmation: '' @ err) (ask_confirm u ''Proceed?'' True),
      wi_fallback = Inl (Err (''confirmation is required when not running interactively (pass --non-interactive to skip)''))\<rparr>"

text \<open>Where a run stages its files; \<open>temp\<close> is the temporary directory.\<close>

definition default_local_output :: "string \<Rightarrow> string" where
  "default_local_output temp = path_join temp ''pigeon-job''"

definition local_output_input :: "ui \<Rightarrow> string \<Rightarrow> string \<Rightarrow> string option \<Rightarrow> string wizard_input" where
  "local_output_input u temp prompt flag =
     \<lparr>wi_flag_value = map_option Inr flag,
      wi_prompt = map_err (\<lambda>err. ''failed to read local output directory: '' @ err) (ask_text u prompt (Some (default_local_output temp))),
      wi_fallback = Inr (default_local_output temp)\<rparr>"

text \<open>\<open>report_upload::resolve\<close>.\<close>

definition find_bucket :: "store \<Rightarrow> string \<Rightarrow> bucket_config result" where
  "find_bucket st name = (case List.find (\<lambda>b. bc_alias b = name) (bucket_configs st) of
     Some b \<Rightarrow> Inr b | None \<Rightarrow> Inl (Err (''no bucket-config named '' @ in_quotes name)))"

definition resolve_debug_log_bucket :: "ui \<Rightarrow> bool \<Rightarrow> (string + nat) \<Rightarrow> store \<Rightarrow> string option \<Rightarrow> bucket_config result" where
  "resolve_debug_log_bucket u non_interactive answer st flag =
     bindE (resolve_input u non_interactive (debug_log_bucket_input answer st flag)) (find_bucket st)"

fun collect_results :: "'a result list \<Rightarrow> 'a list result" where
  "collect_results [] = Inr []"
| "collect_results (r # rs) = bindE r (\<lambda>x. bindE (collect_results rs) (\<lambda>xs. Inr (x # xs)))"

section \<open>What every wizard starts from\<close>

text \<open>The keyring, the configuration of rclone, the answers of the bucket menus and of the multiple choice, the number
  of cores and the temporary directory.\<close>

record wizard_env =
  we_ui :: ui
  we_keyring :: "store result"
  we_rclone :: "store \<Rightarrow> unit result"
  we_bucket :: "string \<Rightarrow> string + nat"
  we_multi :: "string \<Rightarrow> string + nat list"
  we_cores :: "nat option"
  we_temp :: string

definition start_wizard :: "wizard_env \<Rightarrow> store result" where
  "start_wizard env = bindE (we_keyring env) (\<lambda>st. bindE (we_rclone env st) (\<lambda>_. Inr st))"

text \<open>The final question: the job, or nothing when it is declined.\<close>

definition confirmed :: "wizard_env \<Rightarrow> bool \<Rightarrow> 'a \<Rightarrow> 'a option result" where
  "confirmed env non_interactive job =
     bindE (resolve_input (we_ui env) non_interactive (confirm_input (we_ui env) non_interactive)) (\<lambda>yes. Inr (if yes then Some job else None))"

section \<open>rclone\<close>

record copy_request =
  cq_source :: string
  cq_destination :: string
  cq_local_output :: string
  cq_transfers :: nat
  cq_checkers :: nat
  cq_tpslimit :: "nat option"
  cq_debug_log :: bucket_config

record copy_flags =
  cf_source_bucket :: "string option"
  cf_destination_bucket :: "string option"
  cf_local_output :: "string option"
  cf_debug_log_bucket :: "string option"
  cf_transfers :: "nat option"
  cf_checkers :: "nat option"
  cf_tpslimit :: "nat option"

definition RCLONE_OUTPUT_PROMPT :: string where
  "RCLONE_OUTPUT_PROMPT = ''Local directory this run'' @ [CHR 0x27] @ ''s rclone log and transcript are written under''"

definition dispatch_copy :: "wizard_env \<Rightarrow> copy_flags \<Rightarrow> bool \<Rightarrow> copy_request option result" where
  "dispatch_copy env f non_interactive =
     (let u = we_ui env in
      bindE (start_wizard env) (\<lambda>st.
      bindE (resolve_input u non_interactive (bucket_input (we_bucket env ''source'') st ''--source-bucket'' (cf_source_bucket f))) (\<lambda>source.
      bindE (resolve_input u non_interactive (bucket_input (we_bucket env ''destination'') st ''--destination-bucket'' (cf_destination_bucket f))) (\<lambda>destination.
      bindE (resolve_input u non_interactive (local_output_input u (we_temp env) RCLONE_OUTPUT_PROMPT (cf_local_output f))) (\<lambda>local_output.
      bindE (resolve_input u non_interactive (transfers_input u (cf_transfers f))) (\<lambda>transfers.
      bindE (resolve_input u non_interactive (checkers_input u (cf_checkers f))) (\<lambda>checkers.
      bindE (resolve_input u non_interactive (tpslimit_input u (cf_tpslimit f))) (\<lambda>tpslimit.
      bindE (resolve_debug_log_bucket u non_interactive (we_bucket env ''debug'') st (cf_debug_log_bucket f)) (\<lambda>debug_log.
      confirmed env non_interactive
        \<lparr>cq_source = address source, cq_destination = address destination, cq_local_output = local_output, cq_transfers = transfers,
         cq_checkers = checkers, cq_tpslimit = tpslimit, cq_debug_log = debug_log\<rparr>)))))))))"

definition copy_message :: "rclone_copy_summary \<Rightarrow> string" where
  "copy_message s = ''Transferred '' @ dec (cs_transferred s) @ '' file(s) ('' @ dec (cs_bytes s) @ '' bytes), '' @ dec (cs_errors s) @ '' error(s).''"

definition copy_exit_code :: "rclone_copy_summary result \<Rightarrow> int" where
  "copy_exit_code r = (case r of Inr s \<Rightarrow> if cs_errors s > 0 then FAILURE_EXIT_CODE else 0 | Inl _ \<Rightarrow> FAILURE_EXIT_CODE)"

record delete_request =
  dq_source :: string
  dq_local_output :: string
  dq_checkers :: nat
  dq_debug_log :: bucket_config

definition dispatch_delete ::
  "wizard_env \<Rightarrow> string option \<Rightarrow> string option \<Rightarrow> string option \<Rightarrow> nat option \<Rightarrow> bool \<Rightarrow> delete_request option result" where
  "dispatch_delete env source_bucket local_output debug_log_bucket checkers non_interactive =
     (let u = we_ui env in
      bindE (start_wizard env) (\<lambda>st.
      bindE (resolve_input u non_interactive (bucket_input (we_bucket env ''source'') st ''--source-bucket'' source_bucket)) (\<lambda>source.
      bindE (resolve_input u non_interactive (local_output_input u (we_temp env) RCLONE_OUTPUT_PROMPT local_output)) (\<lambda>local_output.
      bindE (resolve_input u non_interactive (checkers_input u checkers)) (\<lambda>checkers.
      bindE (resolve_debug_log_bucket u non_interactive (we_bucket env ''debug'') st debug_log_bucket) (\<lambda>debug_log.
      confirmed env non_interactive
        \<lparr>dq_source = address source, dq_local_output = local_output, dq_checkers = checkers, dq_debug_log = debug_log\<rparr>))))))"

definition delete_message :: "rclone_delete_summary \<Rightarrow> string" where
  "delete_message s = ''Deleted '' @ dec (ds_deleted s) @ '' object(s), '' @ dec (ds_errors s) @ '' error(s).''"

definition delete_exit_code :: "rclone_delete_summary result \<Rightarrow> int" where
  "delete_exit_code r = (case r of Inr s \<Rightarrow> if ds_errors s > 0 then FAILURE_EXIT_CODE else 0 | Inl _ \<Rightarrow> FAILURE_EXIT_CODE)"

section \<open>Transform\<close>

definition INTERACTIVE_INPUT_FILE_TYPES :: "string list" where
  "INTERACTIVE_INPUT_FILE_TYPES =
    [''png'', ''jpeg'', ''heic'', ''mov'', ''m4v'', ''mp4'', ''mp4-audio'', ''m4a'', ''mp3'', ''aac'', ''wav'', ''opus'', ''numbers'',
     ''xlsx'', ''xls'', ''csv'', ''doc'', ''docx'', ''pages'', ''rtf'', ''pdf'', ''epub'', ''pptx'', ''key'', ''txt'', ''md'',
     ''markdown'', ''mkd'', ''rst'', ''textclipping'', ''tsv'', ''avif'', ''tif'', ''tiff'', ''webp'', ''bmp'', ''ico'', ''icns'',
     ''procreate'', ''procreate-2'', ''ai'', ''emz'', ''eps'', ''svg'', ''ics'', ''vcf'']"

text \<open>A menu: the chosen option, parsed.\<close>

definition menu :: "ui \<Rightarrow> string \<Rightarrow> string \<Rightarrow> string list \<Rightarrow> nat \<Rightarrow> (string \<Rightarrow> string + 'a) \<Rightarrow> 'a result" where
  "menu u prompt what options default_value parse =
     bindE (map_err (\<lambda>err. ''failed to read '' @ what @ '': '' @ err) (ask_select u prompt default_value)) (\<lambda>selected.
     bindE (idx options selected) (\<lambda>option_text. map_err id (parse option_text)))"

definition input_file_type_input :: "ui \<Rightarrow> string option \<Rightarrow> input_file_type wizard_input" where
  "input_file_type_input u flag =
     \<lparr>wi_flag_value = map_option (\<lambda>v. map_err id (parse_kind v)) flag,
      wi_prompt = menu u ''Input file type'' ''input file type'' INTERACTIVE_INPUT_FILE_TYPES 0 parse_kind,
      wi_fallback = required ''--input-file-type''\<rparr>"

definition video_quality_input :: "ui \<Rightarrow> string option \<Rightarrow> video_quality wizard_input" where
  "video_quality_input u flag =
     \<lparr>wi_flag_value = map_option (\<lambda>v. map_err id (parse_video_quality v)) flag,
      wi_prompt = menu u ''Video quality'' ''video quality'' [''low'', ''medium'', ''high'', ''lossless''] 1 parse_video_quality,
      wi_fallback = Inr MediumVideo\<rparr>"

definition audio_quality_input :: "ui \<Rightarrow> input_file_type \<Rightarrow> string option \<Rightarrow> audio_quality wizard_input" where
  "audio_quality_input u kind flag =
     (let options = [''low'', ''medium'', ''high'', ''transparent''];
          default_index = (case position (\<lambda>o'. o' = audio_name (default_audio_quality kind)) options of Some i \<Rightarrow> i | None \<Rightarrow> 1) in
      \<lparr>wi_flag_value = map_option (\<lambda>v. map_err id (parse_audio_quality v)) flag,
       wi_prompt = menu u ''Audio quality'' ''audio quality'' options default_index parse_audio_quality,
       wi_fallback = Inr (default_audio_quality kind)\<rparr>)"

definition prefixed_bucket_input :: "(string + nat) \<Rightarrow> store \<Rightarrow> string \<Rightarrow> string \<Rightarrow> string option \<Rightarrow> remote_target wizard_input" where
  "prefixed_bucket_input answer st flag_name default_prefix flag =
     \<lparr>wi_flag_value = map_option (\<lambda>v. bindE (remote_parse v st) (\<lambda>t. with_default_prefix t default_prefix)) flag,
      wi_prompt = bindE (prompt_select_bucket answer st) (\<lambda>b. with_default_prefix (bucket_root (bc_alias b)) default_prefix),
      wi_fallback = required flag_name\<rparr>"

definition DOWNLOAD_TRANSFERS_DEFAULT :: nat where "DOWNLOAD_TRANSFERS_DEFAULT = 8"
definition DOWNLOAD_CHECKERS_DEFAULT :: nat where "DOWNLOAD_CHECKERS_DEFAULT = 16"
definition UPLOAD_TRANSFERS_DEFAULT :: nat where "UPLOAD_TRANSFERS_DEFAULT = 8"

definition download_transfers_input :: "ui \<Rightarrow> nat option \<Rightarrow> nat wizard_input" where
  "download_transfers_input u flag =
     number_input u flag ''rclone --downloads-transfers (pull phase)'' ''download transfers'' DOWNLOAD_TRANSFERS_DEFAULT"

definition download_checkers_input :: "ui \<Rightarrow> nat option \<Rightarrow> nat wizard_input" where
  "download_checkers_input u flag =
     number_input u flag ''rclone --download-checkers (pull phase)'' ''download checkers'' DOWNLOAD_CHECKERS_DEFAULT"

definition upload_transfers_input :: "ui \<Rightarrow> nat option \<Rightarrow> nat wizard_input" where
  "upload_transfers_input u flag =
     number_input u flag ''concurrent push operations (upload phase)'' ''upload transfers'' UPLOAD_TRANSFERS_DEFAULT"

definition max_pending_downloads_input :: "ui \<Rightarrow> nat \<Rightarrow> nat option \<Rightarrow> nat wizard_input" where
  "max_pending_downloads_input u concurrency flag =
     number_input u flag ''max pending downloads before pause (blank = auto)'' ''max pending downloads'' (concurrency * 4)"

datatype converter = NoConverter | Ffmpeg | Soffice | Calibre | Pandoc | GhostscriptThenSoffice

definition converter_for :: "input_file_type \<Rightarrow> converter" where
  "converter_for k =
     (if k \<in> {PngKind, JpegKind, HeicKind, MovKind, M4vKind, Mp4Kind, Mp4AudioKind, M4aKind, Mp3Kind, AacKind, WavKind, OpusKind,
              AvifKind, TifKind, TiffKind, WebpKind, IcoKind, IcnsKind, BmpKind} then Ffmpeg
      else if k \<in> {NumbersKind, DocKind, DocxKind, PagesKind, RtfKind, PptxKind, KeyKind, AiKind, EmzKind} then Soffice
      else if k = EpubKind then Calibre
      else if k \<in> {MdKind, RstKind} then Pandoc
      else if k = EpsKind then GhostscriptThenSoffice
      else NoConverter)"

definition required_converter_available :: "'w machine \<Rightarrow> input_file_type \<Rightarrow> ('w, unit) op" where
  "required_converter_available m k = (case converter_for k of
     NoConverter \<Rightarrow> pureW (Inr ())
   | Ffmpeg \<Rightarrow> check_ffmpeg_available m
   | Soffice \<Rightarrow> soffice_check_available m
   | Calibre \<Rightarrow> check_calibre_available m
   | Pandoc \<Rightarrow> check_pandoc_available m
   | GhostscriptThenSoffice \<Rightarrow> bindW (check_ghostscript_available m) (\<lambda>_. soffice_check_available m))"

record transform_flags =
  tg_input_file_type :: "string option"
  tg_video_quality :: "string option"
  tg_audio_quality :: "string option"
  tg_source :: "string option"
  tg_destination :: "string option"
  tg_local_output :: "string option"
  tg_concurrency :: "nat option"
  tg_download_transfers :: "nat option"
  tg_download_checkers :: "nat option"
  tg_upload_transfers :: "nat option"
  tg_max_pending_downloads :: "nat option"
  tg_tpslimit :: "nat option"
  tg_debug_log_bucket :: "string option"

record transform_request =
  tq_kind :: input_file_type
  tq_video_quality :: video_quality
  tq_audio_quality :: audio_quality
  tq_source :: string
  tq_destination :: string
  tq_local_output :: string
  tq_concurrency :: nat
  tq_download_transfers :: nat
  tq_download_checkers :: nat
  tq_upload_transfers :: nat
  tq_max_pending_downloads :: nat
  tq_tpslimit :: "nat option"
  tq_debug_log :: bucket_config

definition TRANSFORM_OUTPUT_PROMPT :: string where
  "TRANSFORM_OUTPUT_PROMPT = ''Local directory this run stages source/result/bookkeeping under''"

text \<open>\<open>available\<close> is how the check of the converter ends.\<close>

definition dispatch_transform ::
  "wizard_env \<Rightarrow> (input_file_type \<Rightarrow> string + unit) \<Rightarrow> transform_flags \<Rightarrow> bool \<Rightarrow> transform_request option result" where
  "dispatch_transform env available f non_interactive =
     (let u = we_ui env in
      bindE (resolve_input u non_interactive (input_file_type_input u (tg_input_file_type f))) (\<lambda>kind.
      bindE (map_err id (available kind)) (\<lambda>_.
      bindE (start_wizard env) (\<lambda>st.
      bindE (if is_video kind then resolve_input u non_interactive (video_quality_input u (tg_video_quality f)) else Inr MediumVideo) (\<lambda>vq.
      bindE (if is_audio kind then resolve_input u non_interactive (audio_quality_input u kind (tg_audio_quality f))
             else Inr (default_audio_quality kind)) (\<lambda>aq.
      bindE (resolve_input u non_interactive
        (prefixed_bucket_input (we_bucket env ''source'') st ''--source'' (canonical_extension kind) (tg_source f))) (\<lambda>source.
      bindE (resolve_input u non_interactive
        (prefixed_bucket_input (we_bucket env ''destination'') st ''--destination'' (output_extension kind) (tg_destination f))) (\<lambda>destination.
      bindE (resolve_input u non_interactive (local_output_input u (we_temp env) TRANSFORM_OUTPUT_PROMPT (tg_local_output f))) (\<lambda>local_output.
      bindE (resolve_input u non_interactive (cpu_concurrency_input u (we_cores env) (tg_concurrency f))) (\<lambda>concurrency.
      bindE (resolve_input u non_interactive (download_transfers_input u (tg_download_transfers f))) (\<lambda>download_transfers.
      bindE (resolve_input u non_interactive (download_checkers_input u (tg_download_checkers f))) (\<lambda>download_checkers.
      bindE (resolve_input u non_interactive (upload_transfers_input u (tg_upload_transfers f))) (\<lambda>upload_transfers.
      bindE (resolve_input u non_interactive (max_pending_downloads_input u concurrency (tg_max_pending_downloads f))) (\<lambda>max_pending.
      bindE (resolve_input u non_interactive (tpslimit_input u (tg_tpslimit f))) (\<lambda>tpslimit.
      bindE (resolve_debug_log_bucket u non_interactive (we_bucket env ''debug'') st (tg_debug_log_bucket f)) (\<lambda>debug_log.
      confirmed env non_interactive
        \<lparr>tq_kind = kind, tq_video_quality = vq, tq_audio_quality = aq, tq_source = address source, tq_destination = address destination,
         tq_local_output = local_output, tq_concurrency = concurrency, tq_download_transfers = download_transfers,
         tq_download_checkers = download_checkers, tq_upload_transfers = upload_transfers, tq_max_pending_downloads = max_pending,
         tq_tpslimit = tpslimit, tq_debug_log = debug_log\<rparr>))))))))))))))))"

definition transform_message :: "transform_summary \<Rightarrow> string" where
  "transform_message s =
     (let tally = (\<lambda>o'. dec (length (filter (\<lambda>r. fo_outcome r = o') (tsm_outcomes s)))); f = tsm_failures s in
      ''Pulled '' @ dec (tsm_pulled s) @ '' file(s); '' @ tally Transcoded @ '' transcoded, '' @ tally CopiedThrough @
      '' copied through, '' @ tally FailedOutcome @ '' failed; pushed '' @ dec (tsm_pushed s) @ '' output file(s).'' @
      (if tsm_already_done s > 0 \<or> tsm_apple_double s > 0
       then '' Skipped '' @ dec (tsm_already_done s) @ '' already done, '' @ dec (tsm_apple_double s) @ '' AppleDouble sidecar(s).'' else []) @
      (if tsm_failed s
       then '' Failures by stage: '' @ dec (tf_pull f) @ '' pull, '' @ dec (tf_transcode f) @ '' transcode, '' @ dec (tf_place f) @
         '' place, '' @ dec (tf_push f) @ '' push.'' else []))"

definition transform_exit_code :: "transform_summary result \<Rightarrow> int" where
  "transform_exit_code r = (case r of Inr s \<Rightarrow> if tsm_failed s then FAILURE_EXIT_CODE else 0 | Inl _ \<Rightarrow> FAILURE_EXIT_CODE)"

section \<open>Deduplicate\<close>

definition source_buckets_input :: "(string + nat list) \<Rightarrow> store \<Rightarrow> string list \<Rightarrow> string list wizard_input" where
  "source_buckets_input chosen st flag =
     \<lparr>wi_flag_value = (if flag = [] then None else Some (collect_results (map (\<lambda>a. bindE (find_bucket st a) (\<lambda>_. Inr a)) flag))),
      wi_prompt = (let all_buckets = bucket_configs st in
        if all_buckets = [] then Inl (Err (''no bucket-configs configured; run '' @ in_quotes ''pigeon keyring add bucket'' @ '' first''))
        else bindE (map_err (\<lambda>err. ''failed to read bucket selection: '' @ err) chosen) (\<lambda>selected.
          if selected = [] then Inl (Err ''at least one source bucket-config must be selected'')
          else collect_results (map (\<lambda>i. bindE (idx all_buckets i) (\<lambda>b. Inr (bc_alias b))) selected))),
      wi_fallback = required ''--source-bucket''\<rparr>"

definition resolve_bucket :: "(string \<Rightarrow> string option) \<Rightarrow> store \<Rightarrow> string \<Rightarrow> (bucket_config \<times> string) result" where
  "resolve_bucket env st name = bindE (find_bucket st name) (\<lambda>b. Inr (b, resolve_secret env (bc_alias b) (bc_secret_key b)))"

definition ensure_local_output_dir :: "(string \<Rightarrow> string + unit) \<Rightarrow> string \<Rightarrow> unit result" where
  "ensure_local_output_dir create path = map_err (\<lambda>err. ''failed to create '' @ path @ '': '' @ err) (create path)"

record dedup_flags =
  gf_source_bucket :: "string list"
  gf_local_output :: "string option"
  gf_destination_bucket :: "string option"
  gf_concurrency :: "nat option"
  gf_transfers :: "nat option"
  gf_checkers :: "nat option"
  gf_tpslimit :: "nat option"
  gf_debug_log_bucket :: "string option"

record dedup_request =
  gq_source_buckets :: "(bucket_config \<times> string) list"
  gq_local_output :: string
  gq_remote :: "(bucket_config \<times> string) option"
  gq_transfers :: nat
  gq_checkers :: nat
  gq_tpslimit :: "nat option"
  gq_concurrency :: nat
  gq_debug_log :: bucket_config

definition DEDUP_OUTPUT_PROMPT :: string where
  "DEDUP_OUTPUT_PROMPT = ''Local directory to stage and store output under''"

text \<open>\<open>gather\<close> lists the pending objects of the sources; with none there is nothing to do. \<open>create\<close> makes the local
  directory, after the confirmation.\<close>

definition dispatch_deduplicate ::
  "wizard_env \<Rightarrow> (string \<Rightarrow> string option) \<Rightarrow> (dedup_buckets \<Rightarrow> string \<Rightarrow> deduplicate_task list result) \<Rightarrow> (string \<Rightarrow> string + unit) \<Rightarrow>
   dedup_flags \<Rightarrow> bool \<Rightarrow> dedup_request option result" where
  "dispatch_deduplicate env secrets gather create f non_interactive =
     (let u = we_ui env in
      bindE (start_wizard env) (\<lambda>st.
      bindE (resolve_input u non_interactive (source_buckets_input (we_multi env ''source'') st (gf_source_bucket f))) (\<lambda>source_aliases.
      bindE (collect_results (map (resolve_bucket secrets st) source_aliases)) (\<lambda>source_buckets.
      bindE (resolve_input u non_interactive (local_output_input u (we_temp env) DEDUP_OUTPUT_PROMPT (gf_local_output f))) (\<lambda>local_output.
      bindE (resolve_input u non_interactive (transfers_input u (gf_transfers f))) (\<lambda>transfers.
      bindE (resolve_input u non_interactive (checkers_input u (gf_checkers f))) (\<lambda>checkers.
      bindE (resolve_input u non_interactive (tpslimit_input u (gf_tpslimit f))) (\<lambda>tpslimit.
      bindE (gather source_buckets local_output) (\<lambda>tasks.
      if tasks = [] then Inr None
      else
      bindE (resolve_input u non_interactive (upload_target_input u (we_bucket env ''destination'') st (gf_destination_bucket f))) (\<lambda>remote_alias.
      bindE (case remote_alias of None \<Rightarrow> Inr None | Some a \<Rightarrow> bindE (resolve_bucket secrets st a) (\<lambda>r. Inr (Some r))) (\<lambda>remote.
      bindE (resolve_input u non_interactive (cpu_concurrency_input u (we_cores env) (gf_concurrency f))) (\<lambda>concurrency.
      bindE (resolve_debug_log_bucket u non_interactive (we_bucket env ''debug'') st (gf_debug_log_bucket f)) (\<lambda>debug_log.
      bindE (confirmed env non_interactive
        \<lparr>gq_source_buckets = source_buckets, gq_local_output = local_output, gq_remote = remote, gq_transfers = transfers,
         gq_checkers = checkers, gq_tpslimit = tpslimit, gq_concurrency = concurrency, gq_debug_log = debug_log\<rparr>) (\<lambda>go.
      case go of None \<Rightarrow> Inr None
      | Some job \<Rightarrow> bindE (ensure_local_output_dir create local_output) (\<lambda>_. Inr (Some job))))))))))))))))"

definition dedup_message :: "deduplicate_summary \<Rightarrow> string" where
  "dedup_message s = (let f = ds_failure_breakdown s in
     ''Processed '' @ dec (ds_processed s) @ '' file(s), '' @ dec (ds_failed s) @ '' failed ('' @ dec (df_download f) @ '' download, '' @
     dec (df_archive f) @ '' archive, '' @ dec (df_hash f) @ '' hash), '' @ dec (ds_duplicates_skipped s) @ '' duplicate(s) skipped, '' @
     dec (ds_dropped_members s) @ '' zip member(s) dropped (extraction cap), '' @ dec (ds_skipped_apple_double s) @
     '' AppleDouble object(s) skipped, '' @ dec (ds_uploaded s) @ '' uploaded, '' @ dec (ds_upload_failed s) @ '' upload failed.'' @
     (if ds_archive_failures s \<noteq> [] then '' '' @ dec (length (ds_archive_failures s)) @ '' archive(s) need manual attention (see report).'' else []))"

definition dedup_exit_code :: "deduplicate_summary result \<Rightarrow> int" where
  "dedup_exit_code r = (case r of Inr s \<Rightarrow> if ds_failed s > 0 \<or> ds_upload_failed s > 0 then FAILURE_EXIT_CODE else 0 | Inl _ \<Rightarrow> FAILURE_EXIT_CODE)"

text \<open>\<open>--upload-only\<close>: the checkpoint exists and the result directory has an entry.\<close>

definition upload_only_preflight_ok :: "(string \<Rightarrow> bool) \<Rightarrow> (string \<Rightarrow> string + string list) \<Rightarrow> string \<Rightarrow> bool" where
  "upload_only_preflight_ok file_exists read_dir local_output \<longleftrightarrow>
     file_exists (path_join (path_join local_output ''.staging'') PROCESSED_FILE_NAME) \<and>
     (case read_dir (path_join local_output ''result'') of Inr names \<Rightarrow> names \<noteq> [] | Inl _ \<Rightarrow> False)"

record upload_request =
  uq_local_output :: string
  uq_remote :: "bucket_config \<times> string"
  uq_transfers :: nat
  uq_checkers :: nat
  uq_tpslimit :: "nat option"
  uq_debug_log :: bucket_config

definition dispatch_upload_only ::
  "wizard_env \<Rightarrow> (string \<Rightarrow> string option) \<Rightarrow> (string \<Rightarrow> bool) \<Rightarrow> store \<Rightarrow> dedup_flags \<Rightarrow> bool \<Rightarrow> upload_request option result" where
  "dispatch_upload_only env secrets preflight st f non_interactive =
     (let u = we_ui env in
      bindE (resolve_input u non_interactive (local_output_input u (we_temp env) DEDUP_OUTPUT_PROMPT (gf_local_output f))) (\<lambda>local_output.
      if \<not> preflight local_output
      then Inl (Err (''no completed deduplicate run found under '' @ local_output @ ''; run without --upload-only first''))
      else
      bindE (resolve_input u non_interactive (upload_target_input u (we_bucket env ''destination'') st (gf_destination_bucket f))) (\<lambda>remote_alias.
      bindE (ok_or remote_alias ''--destination-bucket is required with --upload-only'') (\<lambda>a.
      bindE (resolve_bucket secrets st a) (\<lambda>remote.
      bindE (resolve_input u non_interactive (transfers_input u (gf_transfers f))) (\<lambda>transfers.
      bindE (resolve_input u non_interactive (checkers_input u (gf_checkers f))) (\<lambda>checkers.
      bindE (resolve_input u non_interactive (tpslimit_input u (gf_tpslimit f))) (\<lambda>tpslimit.
      bindE (resolve_debug_log_bucket u non_interactive (we_bucket env ''debug'') st (gf_debug_log_bucket f)) (\<lambda>debug_log.
      confirmed env non_interactive
        \<lparr>uq_local_output = local_output, uq_remote = remote, uq_transfers = transfers, uq_checkers = checkers,
         uq_tpslimit = tpslimit, uq_debug_log = debug_log\<rparr>)))))))))"

definition upload_only_message :: "log_summary \<Rightarrow> string" where
  "upload_only_message s = ''Uploaded '' @ dec (ls_transferred s) @ '' file(s), '' @ dec (ls_errors s) @ '' upload failed.''"

definition upload_only_exit_code :: "log_summary result \<Rightarrow> int" where
  "upload_only_exit_code r = (case r of Inr s \<Rightarrow> if ls_errors s > 0 then FAILURE_EXIT_CODE else 0 | Inl _ \<Rightarrow> FAILURE_EXIT_CODE)"

section \<open>Email import and scan\<close>

definition DEFAULT_MESSAGES_PER_MINUTE :: nat where "DEFAULT_MESSAGES_PER_MINUTE = 120"
definition DEFAULT_BATCH_SIZE :: nat where "DEFAULT_BATCH_SIZE = 20"
definition DEFAULT_MAX_CONNECTIONS :: nat where "DEFAULT_MAX_CONNECTIONS = 2"
definition DEFAULT_PUSH_CONCURRENCY :: nat where "DEFAULT_PUSH_CONCURRENCY = 4"

definition find_identity :: "store \<Rightarrow> string \<Rightarrow> identity result" where
  "find_identity st name = (case List.find (\<lambda>i. id_alias i = name) (email_identities st) of
     Some i \<Rightarrow> Inr i | None \<Rightarrow> Inl (Err (''no identity with alias '' @ in_quotes name)))"

definition identities_input :: "(string + nat list) \<Rightarrow> store \<Rightarrow> string list option \<Rightarrow> identity list wizard_input" where
  "identities_input chosen st flag =
     \<lparr>wi_flag_value = map_option (\<lambda>aliases. collect_results (map (find_identity st) aliases)) flag,
      wi_prompt = (let all_identities = email_identities st in
        if all_identities = [] then Inl (Err (''no identities configured; run '' @ in_quotes ''pigeon keyring add email'' @ '' first''))
        else bindE (map_err (\<lambda>err. ''failed to read identity selection: '' @ err) chosen) (\<lambda>selected.
          if selected = [] then Inl (Err ''at least one identity must be selected'')
          else collect_results (map (idx all_identities) selected))),
      wi_fallback = required ''--identities''\<rparr>"

definition destination_input :: "(string + nat) \<Rightarrow> store \<Rightarrow> string option \<Rightarrow> remote_target wizard_input" where
  "destination_input answer st flag = bucket_input answer st ''--destination'' flag"

definition messages_per_minute_input :: "ui \<Rightarrow> nat option \<Rightarrow> nat wizard_input" where
  "messages_per_minute_input u flag = number_input u flag ''Messages per minute'' ''messages per minute'' DEFAULT_MESSAGES_PER_MINUTE"

definition batch_size_input :: "ui \<Rightarrow> nat option \<Rightarrow> nat wizard_input" where
  "batch_size_input u flag = number_input u flag ''UIDs per IMAP fetch'' ''batch size'' DEFAULT_BATCH_SIZE"

definition max_connections_input :: "ui \<Rightarrow> nat option \<Rightarrow> nat wizard_input" where
  "max_connections_input u flag = number_input u flag ''Max IMAP connections per identity'' ''max connections'' DEFAULT_MAX_CONNECTIONS"

definition push_concurrency_input :: "ui \<Rightarrow> nat option \<Rightarrow> nat wizard_input" where
  "push_concurrency_input u flag = number_input u flag ''Concurrent pushes'' ''push concurrency'' DEFAULT_PUSH_CONCURRENCY"

record import_flags =
  mf_identities :: "string list option"
  mf_destination :: "string option"
  mf_local_output :: "string option"
  mf_messages_per_minute :: "nat option"
  mf_batch_size :: "nat option"
  mf_max_connections :: "nat option"
  mf_push_concurrency :: "nat option"
  mf_debug_log_bucket :: "string option"
  mf_ledger_bucket :: "string option"
  mf_legacy :: bool

record import_request =
  mq_identities :: "identity list"
  mq_destination :: remote_target
  mq_mode :: import_mode
  mq_local_output :: string
  mq_messages_per_minute :: nat
  mq_batch_size :: nat
  mq_max_connections :: nat
  mq_push_concurrency :: nat
  mq_debug_log :: bucket_config

definition IMPORT_OUTPUT_PROMPT :: string where
  "IMPORT_OUTPUT_PROMPT = ''Local directory to stage in-flight messages under''"

text \<open>Here the directory is made before the question, and \<open>gather\<close> counts the pending messages.\<close>

definition dispatch_import ::
  "wizard_env \<Rightarrow> (string \<Rightarrow> string + unit) \<Rightarrow> (import_request \<Rightarrow> nat list result) \<Rightarrow> import_flags \<Rightarrow> bool \<Rightarrow> import_request option result" where
  "dispatch_import env create gather f non_interactive =
     (let u = we_ui env in
      bindE (start_wizard env) (\<lambda>st.
      bindE (resolve_input u non_interactive (identities_input (we_multi env ''identities'') st (mf_identities f))) (\<lambda>identities.
      bindE (resolve_input u non_interactive (destination_input (we_bucket env ''destination'') st (mf_destination f))) (\<lambda>destination.
      bindE (if mf_legacy f then Inr LegacyMode
        else bindE (resolve_input u non_interactive (ledger_bucket_input (we_bucket env ''ledger'') st (mf_ledger_bucket f))) (\<lambda>t. Inr (LedgerMode t))) (\<lambda>mode.
      bindE (resolve_input u non_interactive (local_output_input u (we_temp env) IMPORT_OUTPUT_PROMPT (mf_local_output f))) (\<lambda>local_output.
      bindE (resolve_input u non_interactive (messages_per_minute_input u (mf_messages_per_minute f))) (\<lambda>messages_per_minute.
      bindE (resolve_input u non_interactive (batch_size_input u (mf_batch_size f))) (\<lambda>batch_size.
      bindE (resolve_input u non_interactive (max_connections_input u (mf_max_connections f))) (\<lambda>max_connections.
      bindE (resolve_input u non_interactive (push_concurrency_input u (mf_push_concurrency f))) (\<lambda>push_concurrency.
      bindE (resolve_debug_log_bucket u non_interactive (we_bucket env ''debug'') st (mf_debug_log_bucket f)) (\<lambda>debug_log.
      bindE (ensure_local_output_dir create local_output) (\<lambda>_.
      let job = \<lparr>mq_identities = identities, mq_destination = destination, mq_mode = mode, mq_local_output = local_output,
         mq_messages_per_minute = messages_per_minute, mq_batch_size = batch_size, mq_max_connections = max_connections,
         mq_push_concurrency = push_concurrency, mq_debug_log = debug_log\<rparr> in
      bindE (gather job) (\<lambda>pending.
      if sum_list pending = 0 then Inr None else confirmed env non_interactive job)))))))))))))"

record scan_request =
  sq_identities :: "identity list"
  sq_ledger :: remote_target
  sq_destination :: "remote_target option"
  sq_local_output :: string
  sq_debug_log :: bucket_config

definition dispatch_scan ::
  "wizard_env \<Rightarrow> (string \<Rightarrow> string + unit) \<Rightarrow> string list option \<Rightarrow> string option \<Rightarrow> string option \<Rightarrow> string option \<Rightarrow> string option \<Rightarrow> bool \<Rightarrow>
   scan_request result" where
  "dispatch_scan env create identities ledger_bucket destination local_output debug_log_bucket non_interactive =
     (let u = we_ui env in
      bindE (start_wizard env) (\<lambda>st.
      bindE (resolve_input u non_interactive (identities_input (we_multi env ''identities'') st identities)) (\<lambda>identities.
      bindE (resolve_input u non_interactive (ledger_bucket_input (we_bucket env ''ledger'') st ledger_bucket)) (\<lambda>ledger.
      bindE (case destination of None \<Rightarrow> Inr None | Some v \<Rightarrow> bindE (remote_parse v st) (\<lambda>t. Inr (Some t))) (\<lambda>destination.
      bindE (resolve_input u non_interactive (local_output_input u (we_temp env) IMPORT_OUTPUT_PROMPT local_output)) (\<lambda>local_output.
      bindE (resolve_debug_log_bucket u non_interactive (we_bucket env ''debug'') st debug_log_bucket) (\<lambda>debug_log.
      bindE (ensure_local_output_dir create local_output) (\<lambda>_.
      Inr \<lparr>sq_identities = identities, sq_ledger = ledger, sq_destination = destination, sq_local_output = local_output,
        sq_debug_log = debug_log\<rparr>))))))))"

text \<open>One identity's failure does not abandon the rest.\<close>

fun scan_all :: "(identity \<Rightarrow> identity_scan result) \<Rightarrow> identity list \<Rightarrow> identity_scan list \<times> (string \<times> string) list \<Rightarrow>
    (identity_scan list \<times> (string \<times> string) list) result" where
  "scan_all scan [] (scans, failures) = Inr (scans, failures)"
| "scan_all scan (i # rest) (scans, failures) = (case scan i of
     Inr r \<Rightarrow> scan_all scan rest (scans @ [r], failures)
   | Inl (Err err) \<Rightarrow> scan_all scan rest (scans, failures @ [(id_alias i, err)])
   | Inl Panic \<Rightarrow> Inl Panic)"

definition scan_exit_code :: "(string \<times> string) list \<Rightarrow> int" where
  "scan_exit_code failures = (if failures = [] then 0 else FAILURE_EXIT_CODE)"

fun trim_hashes :: "string \<Rightarrow> string" where
  "trim_hashes (c # d # s) = (if c = CHR ''#'' \<and> d = CHR '' '' then trim_hashes s else c # d # s)"
| "trim_hashes s = s"

definition render_report :: "identity_scan list \<Rightarrow> (string \<times> string) list \<Rightarrow> string" where
  "render_report scans failures =
     ''identity'' @ [TAB] @ trim_end (trim_hashes (status_serialize [])) @ [NL] @
     concat (map (\<lambda>scan. concat (map (\<lambda>row. sc_alias scan @ [TAB] @ format_status_row row @ [NL]) (sc_rows scan))) scans) @
     concat (map (\<lambda>(name, err). ''# failed'' @ [TAB] @ name @ [TAB] @ err @ [NL]) failures)"

end
