(* ===== verification/WizardsProofs.thy ===== *)
theory WizardsProofs
  imports Wizards
begin

text \<open>
  What the wizards promise: a non-interactive run reads nothing from the terminal, whatever it would answer; nothing
  is purged without consent; and the numbers a run starts with are in range.
\<close>

section \<open>Resolving\<close>

definition unattended :: "'a result option \<Rightarrow> 'a result \<Rightarrow> 'a result" where
  "unattended flag_value fallback = (case flag_value of Some r \<Rightarrow> r | None \<Rightarrow> fallback)"

lemma resolve_input_True: "resolve_input u True i = unattended (wi_flag_value i) (wi_fallback i)"
  by (simp add: resolve_input_def wizard_resolve_def unattended_def)

lemma resolve_input_Inr:
  assumes "resolve_input u non_interactive i = Inr v"
  shows "wi_flag_value i = Some (Inr v) \<or> (wi_flag_value i = None \<and>
    (if \<not> non_interactive \<and> is_terminal u then wi_prompt i = Inr v else wi_fallback i = Inr v))"
  using assms by (auto simp: resolve_input_def wizard_resolve_def split: option.splits if_splits)

text \<open>The inputs that involve the terminal, without their prompts.\<close>

lemma number_input_quiet [simp]:
  "wi_flag_value (number_input u flag p w d) = map_option (\<lambda>v. Inr (max v 1)) flag" "wi_fallback (number_input u flag p w d) = Inr d"
  by (simp_all add: number_input_def)

lemma bucket_input_quiet [simp]:
  "wi_flag_value (bucket_input a st n flag) = map_option (\<lambda>v. remote_parse v st) flag" "wi_fallback (bucket_input a st n flag) = required n"
  by (simp_all add: bucket_input_def)

lemma prefixed_bucket_input_quiet [simp]:
  "wi_flag_value (prefixed_bucket_input a st n d flag) = map_option (\<lambda>v. bindE (remote_parse v st) (\<lambda>t. with_default_prefix t d)) flag"
  "wi_fallback (prefixed_bucket_input a st n d flag) = required n"
  by (simp_all add: prefixed_bucket_input_def)

named_theorems quiet_inputs \<open>the inputs, to be looked at without their prompts\<close>

lemmas [quiet_inputs] = transfers_input_def checkers_input_def tpslimit_input_def local_output_input_def debug_log_bucket_input_def
  ledger_bucket_input_def upload_target_input_def cpu_concurrency_input_def confirm_input_def input_file_type_input_def
  video_quality_input_def audio_quality_input_def download_transfers_input_def download_checkers_input_def upload_transfers_input_def
  max_pending_downloads_input_def source_buckets_input_def identities_input_def destination_input_def messages_per_minute_input_def
  batch_size_input_def max_connections_input_def push_concurrency_input_def

section \<open>Never a prompt\<close>

definition other_terminal :: "wizard_env \<Rightarrow> ui \<Rightarrow> (string \<Rightarrow> string + nat) \<Rightarrow> (string \<Rightarrow> string + nat list) \<Rightarrow> wizard_env" where
  "other_terminal env u bucket multi = env\<lparr>we_ui := u, we_bucket := bucket, we_multi := multi\<rparr>"

lemma quiet_start: "start_wizard (other_terminal env u b m) = start_wizard env"
  by (simp add: start_wizard_def other_terminal_def)

lemma quiet_confirmed: "confirmed (other_terminal env u b m) True job = confirmed env True job"
  by (simp add: confirmed_def resolve_input_True confirm_input_def)

lemma quiet_debug: "resolve_debug_log_bucket u True a st f = bindE (unattended (map_option Inr f) (required ''--debug-log-bucket'')) (find_bucket st)"
  by (simp add: resolve_debug_log_bucket_def resolve_input_True debug_log_bucket_input_def)

lemma other_terminal_rest [simp]: "we_cores (other_terminal env u b m) = we_cores env" "we_temp (other_terminal env u b m) = we_temp env"
  by (simp_all add: other_terminal_def)

lemmas never_prompts = quiet_start quiet_confirmed quiet_debug resolve_input_True quiet_inputs

lemma quiet_copy: "dispatch_copy (other_terminal env u b m) f True = dispatch_copy env f True"
  by (simp add: dispatch_copy_def never_prompts)

lemma quiet_delete: "dispatch_delete (other_terminal env u b m) s l d c True = dispatch_delete env s l d c True"
  by (simp add: dispatch_delete_def never_prompts)

lemma quiet_transform: "dispatch_transform (other_terminal env u b m) available f True = dispatch_transform env available f True"
  by (simp add: dispatch_transform_def never_prompts Let_def cong: if_cong)

lemma quiet_deduplicate:
  "dispatch_deduplicate (other_terminal env u b m) secrets gather create f True = dispatch_deduplicate env secrets gather create f True"
  by (simp add: dispatch_deduplicate_def never_prompts Let_def cong: if_cong)

lemma quiet_upload_only:
  "dispatch_upload_only (other_terminal env u b m) secrets preflight st f True = dispatch_upload_only env secrets preflight st f True"
  by (simp add: dispatch_upload_only_def never_prompts Let_def cong: if_cong)

lemma quiet_import: "dispatch_import (other_terminal env u b m) create gather f True = dispatch_import env create gather f True"
  by (simp add: dispatch_import_def never_prompts Let_def cong: if_cong)

lemma quiet_scan: "dispatch_scan (other_terminal env u b m) create i l d o' g True = dispatch_scan env create i l d o' g True"
  by (simp add: dispatch_scan_def never_prompts Let_def cong: if_cong)

text \<open>C38. With \<open>--non-interactive\<close> no job asks anything: what the terminal is and everything it, a bucket menu or a
  multiple choice would answer make no difference to what any of the seven wizards decides, be it an error, that
  there is nothing to do, or the job to run.\<close>

theorem non_interactive_never_prompts:
  "dispatch_copy (other_terminal env u b m) cf True = dispatch_copy env cf True \<and>
   dispatch_delete (other_terminal env u b m) source lo debug checkers True = dispatch_delete env source lo debug checkers True \<and>
   dispatch_transform (other_terminal env u b m) available tf True = dispatch_transform env available tf True \<and>
   dispatch_deduplicate (other_terminal env u b m) secrets listing create df True = dispatch_deduplicate env secrets listing create df True \<and>
   dispatch_upload_only (other_terminal env u b m) secrets preflight st df True = dispatch_upload_only env secrets preflight st df True \<and>
   dispatch_import (other_terminal env u b m) create gather mf True = dispatch_import env create gather mf True \<and>
   dispatch_scan (other_terminal env u b m) create ids ledger destination lo debug True =
     dispatch_scan env create ids ledger destination lo debug True"
  by (intro conjI quiet_copy quiet_delete quiet_transform quiet_deduplicate quiet_upload_only quiet_import quiet_scan)

section \<open>Consent\<close>

lemma confirmed_Some:
  assumes "confirmed env non_interactive job = Inr (Some job')"
  shows "job' = job \<and> (non_interactive \<or> (is_terminal (we_ui env) \<and> ask_confirm (we_ui env) ''Proceed?'' True = Inr True))"
proof -
  obtain yes where "resolve_input (we_ui env) non_interactive (confirm_input (we_ui env) non_interactive) = Inr yes" "yes" "job' = job"
    using assms by (auto simp: confirmed_def result_simps split: if_splits)
  then show ?thesis using resolve_input_Inr
    by (fastforce simp: confirm_input_def map_err_def split: sum.splits if_splits)
qed

text \<open>C35. Nothing is purged without consent: \<open>rclone delete\<close> only comes to a job when \<open>--non-interactive\<close> was given or the
  question asked at the terminal was answered with yes. What it purges is what the flag names or, without the flag,
  the bucket chosen at the terminal; there is no default source.\<close>

theorem purge_needs_consent:
  assumes "dispatch_delete env source_bucket local_output debug checkers non_interactive = Inr (Some job)"
  shows "(non_interactive \<or> (is_terminal (we_ui env) \<and> ask_confirm (we_ui env) ''Proceed?'' True = Inr True)) \<and>
    (\<exists>st. we_keyring env = Inr st \<and>
      (case source_bucket of
         Some value \<Rightarrow> \<exists>t. remote_parse value st = Inr t \<and> dq_source job = address t
       | None \<Rightarrow> \<not> non_interactive \<and> is_terminal (we_ui env) \<and>
           (\<exists>bucket. prompt_select_bucket (we_bucket env ''source'') st = Inr bucket \<and>
             dq_source job = address (bucket_root (bc_alias bucket)))))"
proof -
  obtain st source lo c d where s: "start_wizard env = Inr st"
      "resolve_input (we_ui env) non_interactive (bucket_input (we_bucket env ''source'') st ''--source-bucket'' source_bucket) = Inr source"
      "confirmed env non_interactive \<lparr>dq_source = address source, dq_local_output = lo, dq_checkers = c, dq_debug_log = d\<rparr> = Inr (Some job)"
    using assms by (auto simp: dispatch_delete_def Let_def bindE_Inr_iff)
  have "we_keyring env = Inr st" using s(1) by (auto simp: start_wizard_def bindE_Inr_iff)
  moreover have "dq_source job = address source" using confirmed_Some [OF s(3)] by simp
  moreover have "case source_bucket of Some value \<Rightarrow> remote_parse value st = Inr source
      | None \<Rightarrow> \<not> non_interactive \<and> is_terminal (we_ui env) \<and>
          (\<exists>bucket. prompt_select_bucket (we_bucket env ''source'') st = Inr bucket \<and> source = bucket_root (bc_alias bucket))"
    using resolve_input_Inr [OF s(2)] by (auto simp: bucket_input_def required_def bindE_Inr_iff split: option.splits if_splits)
  ultimately show ?thesis using confirmed_Some [OF s(3)] by (auto split: option.splits)
qed

definition answering :: "string + bool \<Rightarrow> ui" where
  "answering yes = \<lparr>is_terminal = True, ask_text = (\<lambda>_ _. Inl ''closed''), ask_number = (\<lambda>_ _. Inr 0), ask_select = (\<lambda>_ _. Inr 0),
     ask_password = (\<lambda>_. Inl ''closed''), ask_confirm = (\<lambda>_ _. yes), stdin_line = (\<lambda>_. Inl ''closed'')\<rparr>"

definition lone_bucket :: store where
  "lone_bucket = \<lparr>st_entries = [BucketEntry \<lparr>bc_alias = ''b'', bc_endpoint = ''e'', bc_bucket = ''k'', bc_access_key_id = ''i'', bc_secret_key = ''s''\<rparr>]\<rparr>"

definition lone_bucket_env :: "string + bool \<Rightarrow> wizard_env" where
  "lone_bucket_env yes = \<lparr>we_ui = answering yes, we_keyring = Inr lone_bucket, we_rclone = (\<lambda>_. Inr ()), we_bucket = (\<lambda>_. Inr 0),
     we_multi = (\<lambda>_. Inr []), we_cores = Some 8, we_temp = ''/tmp''\<rparr>"

theorem purge_needs_consent_witness:
  "dispatch_delete (lone_bucket_env (Inr False)) (Some ''b:old/'') (Some ''/out'') (Some ''b'') None False = Inr None \<and>
   (\<exists>job. dispatch_delete (lone_bucket_env (Inr True)) (Some ''b:old/'') (Some ''/out'') (Some ''b'') None False = Inr (Some job) \<and>
     dq_source job = ''b:old/'')"
proof -
  have parse: "remote_parse ''b:old/'' lone_bucket = Inr \<lparr>rt_alias = ''b'', rt_prefix = Some ''old/''\<rparr>" by code_simp
  note defs = dispatch_delete_def start_wizard_def lone_bucket_env_def resolve_input_def wizard_resolve_def bucket_input_def parse
    local_output_input_def checkers_input_def number_input_def answering_def map_err_def resolve_debug_log_bucket_def
    debug_log_bucket_input_def find_bucket_def lone_bucket_def bucket_configs_def confirmed_def confirm_input_def List.map_filter_simps Let_def
  have no: "dispatch_delete (lone_bucket_env (Inr False)) (Some ''b:old/'') (Some ''/out'') (Some ''b'') None False = Inr None"
    using parse by (simp add: defs)
  have "\<exists>job. dispatch_delete (lone_bucket_env (Inr True)) (Some ''b:old/'') (Some ''/out'') (Some ''b'') None False = Inr (Some job)"
    using parse by (simp add: defs)
  then obtain job where job: "dispatch_delete (lone_bucket_env (Inr True)) (Some ''b:old/'') (Some ''/out'') (Some ''b'') None False = Inr (Some job)"
    by blast
  from purge_needs_consent [OF job] have "dq_source job = ''b:old/''"
    using parse by (auto simp: lone_bucket_env_def address_def)
  then show ?thesis using no job by blast
qed

section \<open>Numbers\<close>

lemma number_positive:
  assumes "resolve_input u non_interactive (number_input u' flag prompt what d) = Inr n" and "1 \<le> d"
  shows "1 \<le> n"
  using resolve_input_Inr [OF assms(1)] assms(2)
  by (auto simp: number_input_def bindE_Inr_iff split: if_splits)

lemma map_err_id_iff: "map_err id r = Inr v \<longleftrightarrow> r = Inr v"
  by (cases r) (auto simp: map_err_def)

lemma concurrency_positive:
  assumes "resolve_input u non_interactive (cpu_concurrency_input u' cores flag) = Inr n" and "cores \<noteq> Some 0"
  shows "1 \<le> n \<and> (flag \<noteq> None \<longrightarrow> n \<le> 2 * default_concurrency cores)"
proof -
  have "1 \<le> default_concurrency cores" using assms(2) by (cases cores) (auto simp: default_concurrency_def)
  then show ?thesis using resolve_input_Inr [OF assms(1)]
    by (auto simp: cpu_concurrency_input_def required_def bindE_Inr_iff CONCURRENCY_CLAMP_MULTIPLIER_def Let_def split: if_splits)
qed

text \<open>The numbers a transform starts with are in range: at least one file at a time, one transfer, one checker, one
  push, and a high-water mark of at least one, so that backpressure can release the pull again; a concurrency given
  as a flag is at most twice the cores. The addresses carry the prefix of the input and of the output kind unless one
  is given.\<close>

lemma transform_numbers_in_range:
  assumes "dispatch_transform env available f non_interactive = Inr (Some job)" and "we_cores env \<noteq> Some 0"
  shows "1 \<le> tq_concurrency job \<and> 1 \<le> tq_download_transfers job \<and> 1 \<le> tq_download_checkers job \<and> 1 \<le> tq_upload_transfers job \<and>
    1 \<le> tq_max_pending_downloads job \<and>
    (tg_concurrency f \<noteq> None \<longrightarrow> tq_concurrency job \<le> 2 * default_concurrency (we_cores env)) \<and>
    available (tq_kind job) = Inr () \<and>
    (\<forall>value. tg_source f = Some value \<longrightarrow> (\<exists>st t t'. we_keyring env = Inr st \<and> remote_parse value st = Inr t \<and>
      with_default_prefix t (canonical_extension (tq_kind job)) = Inr t' \<and> tq_source job = address t'))"
proof -
  let ?u = "we_ui env"
  obtain kind ok st vq aq source destination lo c dt dc ut mp tps d where s:
      "available kind = Inr ok" "start_wizard env = Inr st"
      "resolve_input ?u non_interactive (prefixed_bucket_input (we_bucket env ''source'') st ''--source'' (canonical_extension kind) (tg_source f)) = Inr source"
      "resolve_input ?u non_interactive (cpu_concurrency_input ?u (we_cores env) (tg_concurrency f)) = Inr c"
      "resolve_input ?u non_interactive (download_transfers_input ?u (tg_download_transfers f)) = Inr dt"
      "resolve_input ?u non_interactive (download_checkers_input ?u (tg_download_checkers f)) = Inr dc"
      "resolve_input ?u non_interactive (upload_transfers_input ?u (tg_upload_transfers f)) = Inr ut"
      "resolve_input ?u non_interactive (max_pending_downloads_input ?u c (tg_max_pending_downloads f)) = Inr mp"
      "confirmed env non_interactive \<lparr>tq_kind = kind, tq_video_quality = vq, tq_audio_quality = aq, tq_source = address source,
         tq_destination = address destination, tq_local_output = lo, tq_concurrency = c, tq_download_transfers = dt,
         tq_download_checkers = dc, tq_upload_transfers = ut, tq_max_pending_downloads = mp, tq_tpslimit = tps,
         tq_debug_log = d\<rparr> = Inr (Some job)"
    using assms(1) unfolding dispatch_transform_def Let_def bindE_Inr_iff map_err_id_iff
    by (elim exE conjE) (rule that, assumption+)
  have c: "1 \<le> c" "tg_concurrency f \<noteq> None \<longrightarrow> c \<le> 2 * default_concurrency (we_cores env)"
    using concurrency_positive [OF s(4) assms(2)] by auto
  have n: "1 \<le> dt" using number_positive [OF s(5) [unfolded download_transfers_input_def]] by (simp add: DOWNLOAD_TRANSFERS_DEFAULT_def)
  have n2: "1 \<le> dc" using number_positive [OF s(6) [unfolded download_checkers_input_def]] by (simp add: DOWNLOAD_CHECKERS_DEFAULT_def)
  have n3: "1 \<le> ut" using number_positive [OF s(7) [unfolded upload_transfers_input_def]] by (simp add: UPLOAD_TRANSFERS_DEFAULT_def)
  have n4: "1 \<le> mp" using number_positive [OF s(8) [unfolded max_pending_downloads_input_def]] c(1) by simp
  have keyring: "we_keyring env = Inr st" using s(2) by (auto simp: start_wizard_def bindE_Inr_iff)
  have parsed: "\<exists>t. remote_parse v st = Inr t \<and> with_default_prefix t (canonical_extension kind) = Inr source"
    if "tg_source f = Some v" for v
    using resolve_input_Inr [OF s(3)] by (simp add: that bindE_Inr_iff)
  have job: "job = \<lparr>tq_kind = kind, tq_video_quality = vq, tq_audio_quality = aq, tq_source = address source,
      tq_destination = address destination, tq_local_output = lo, tq_concurrency = c, tq_download_transfers = dt,
      tq_download_checkers = dc, tq_upload_transfers = ut, tq_max_pending_downloads = mp, tq_tpslimit = tps, tq_debug_log = d\<rparr>"
    by (rule conjunct1 [OF confirmed_Some [OF s(9)]])
  show ?thesis unfolding job transform_request.simps
    by (intro conjI allI impI c n n2 n3 n4) (use s(1) c(2) keyring parsed in \<open>auto\<close>)
qed

text \<open>The menu of input kinds offers every kind, and nothing that is not one.\<close>

lemma menu_is_complete: "list_all (\<lambda>v. \<not> isl (parse_kind v)) INTERACTIVE_INPUT_FILE_TYPES"
  by code_simp

end
