(* ===== verification/Sheets.thy ===== *)
theory Sheets
  imports Documents TransformFile
begin

text \<open>
  \<open>transform/sheets.rs\<close>: a workbook split into one CSV file per sheet that is not empty. The workbook reader and
  the CSV writer are libraries and are parameters: what they answer for a sheet, and how a write ends.
\<close>

section \<open>Cells\<close>

text \<open>An Excel date is a duration or a calendar time; its arithmetic, in \<open>f64\<close>, is the library's: the whole seconds of
  the duration, and year, month, day, hour, minute and second. A float comes as the text \<open>Display\<close> gives it.\<close>

record excel_date_time =
  xd_is_duration :: bool
  xd_seconds :: nat
  xd_ymd :: "nat \<times> nat \<times> nat"
  xd_hms :: "nat \<times> nat \<times> nat"

datatype cell = CellEmpty | CellString string | CellInt int | CellFloat string | CellBool bool | CellDateTimeIso string
  | CellDurationIso string | CellDateTime excel_date_time | CellError string

abbreviation two_digits :: "nat \<Rightarrow> string" where "two_digits n \<equiv> pad_left 2 (dec n)"

definition render_duration :: "nat \<Rightarrow> string" where
  "render_duration total_seconds =
     two_digits (total_seconds div 3600) @ '':'' @ two_digits (total_seconds mod 3600 div 60) @ '':'' @ two_digits (total_seconds mod 60)"

definition render_date_time :: "excel_date_time \<Rightarrow> string" where
  "render_date_time v =
     (if xd_is_duration v then render_duration (xd_seconds v)
      else (let (year, month, day) = xd_ymd v; (hour, minute, second) = xd_hms v;
                date = pad_left 4 (dec year) @ ''-'' @ two_digits month @ ''-'' @ two_digits day in
        if hour = 0 \<and> minute = 0 \<and> second = 0 then date
        else date @ ''T'' @ two_digits hour @ '':'' @ two_digits minute @ '':'' @ two_digits second))"

fun render_cell :: "cell \<Rightarrow> string" where
  "render_cell CellEmpty = []"
| "render_cell (CellString v) = v"
| "render_cell (CellInt v) = dec_int v"
| "render_cell (CellFloat v) = v"
| "render_cell (CellBool v) = (if v then ''true'' else ''false'')"
| "render_cell (CellDateTimeIso v) = v"
| "render_cell (CellDurationIso v) = v"
| "render_cell (CellDateTime v) = render_date_time v"
| "render_cell (CellError err) = []"

section \<open>Sheets\<close>

record sheet_range =
  sr_is_empty :: bool
  sr_size :: "nat \<times> nat"
  sr_rows :: "cell list list"

type_synonym 'w workbooks = "string \<Rightarrow> 'w \<Rightarrow> string + string list \<times> (string \<Rightarrow> string + sheet_range)"

definition MAX_WORKBOOK_BYTES :: nat where "MAX_WORKBOOK_BYTES = 512 * 1024 * 1024"
definition MAX_SHEET_CELLS :: nat where "MAX_SHEET_CELLS = 50000000"

record sheet_file =
  sf_index :: nat
  sf_total :: nat
  sf_sheet_name :: string
  sf_path :: string

definition convert_numbers_to_xlsx :: "'w machine \<Rightarrow> string \<Rightarrow> string \<Rightarrow> ('w, string) op" where
  "convert_numbers_to_xlsx m input work_dir = soffice_convert m input work_dir ''xlsx'' NOT_A_WORKBOOK_SIGNATURE"

fun sheet_ranges :: "string \<Rightarrow> (string \<Rightarrow> string + sheet_range) \<Rightarrow> string list \<Rightarrow> string + (string \<times> sheet_range) list" where
  "sheet_ranges input range_of [] = Inr []"
| "sheet_ranges input range_of (name # names) =
     bindE (case range_of name of Inl err \<Rightarrow> Inl (''failed to read sheet '' @ in_quotes name @ '' of '' @ input @ '': '' @ err)
       | Inr used \<Rightarrow> Inr used) (\<lambda>used.
     if sr_is_empty used then sheet_ranges input range_of names
     else
     let (rows, columns) = sr_size used; cells = min (rows * columns) usize_max in
     if cells > MAX_SHEET_CELLS
     then Inl (''sheet '' @ in_quotes name @ '' of '' @ input @ '' declares '' @ dec rows @ ''x'' @ dec columns @ '' = '' @ dec cells @
       '' cells, over this job'' @ [CHR 0x27] @ ''s '' @ dec MAX_SHEET_CELLS @ ''-cell limit'')
     else bindE (sheet_ranges input range_of names) (\<lambda>ranges. Inr ((name, used) # ranges)))"

definition write_range_csv :: "'w tables \<Rightarrow> sheet_range \<Rightarrow> string \<Rightarrow> ('w, nat) op" where
  "write_range_csv t used path =
     bindW (errW (\<lambda>err. ''failed to create '' @ path @ '': '' @ err) (tb_create t path)) (\<lambda>_.
     bindW (write_csv_rows t path (map (map render_cell) (sr_rows used))) (\<lambda>rows.
     bindW (errW (\<lambda>err. ''failed to flush '' @ path @ '': '' @ err) (tb_flush t path)) (\<lambda>_.
     pureW (Inr rows))))"

definition sheet_path :: "string \<Rightarrow> nat \<Rightarrow> string" where
  "sheet_path work_dir index = path_join work_dir (''sheet-'' @ two_digits index @ ''.csv'')"

fun write_sheets ::
  "'w machine \<Rightarrow> 'w tables \<Rightarrow> string \<Rightarrow> string \<Rightarrow> nat \<Rightarrow> nat \<Rightarrow> (string \<times> sheet_range) list \<Rightarrow> ('w, sheet_file list) op" where
  "write_sheets m t input work_dir of_all position [] = pureW (Inr [])"
| "write_sheets m t input work_dir of_all position ((sheet_name, used) # ranges) =
     (let index = position + 1; path = sheet_path work_dir index; expected_rows = fst (sr_size used) in
      bindW (write_range_csv t used path) (\<lambda>written_rows.
      bindW (pureW (if written_rows \<noteq> expected_rows
        then Inl (''sheet '' @ in_quotes sheet_name @ '' of '' @ input @ '' has '' @ dec expected_rows @ '' row(s) but '' @
          dec written_rows @ '' were written to '' @ path)
        else Inr ())) (\<lambda>_.
      bindW (askW (mc_len m path)) (\<lambda>len.
      bindW (pureW (if len_or_zero len = 0
        then Inl (''sheet '' @ in_quotes sheet_name @ '' of '' @ input @ '' produced an empty '' @ path) else Inr ())) (\<lambda>_.
      bindW (write_sheets m t input work_dir of_all (position + 1) ranges) (\<lambda>outputs.
      pureW (Inr (\<lparr>sf_index = index, sf_total = of_all, sf_sheet_name = sheet_name, sf_path = path\<rparr> # outputs))))))))"

definition split_workbook_blocking ::
  "'w machine \<Rightarrow> 'w workbooks \<Rightarrow> 'w tables \<Rightarrow> string \<Rightarrow> string \<Rightarrow> ('w, sheet_file list) op" where
  "split_workbook_blocking m workbooks t input work_dir =
     bindW (errW (\<lambda>err. ''failed to stat '' @ input @ '': '' @ err) (\<lambda>w. (mc_len m input w, w))) (\<lambda>len.
     bindW (pureW (if len > MAX_WORKBOOK_BYTES
       then Inl (input @ '' is '' @ dec len @ '' bytes, over this job'' @ [CHR 0x27] @ ''s '' @ dec MAX_WORKBOOK_BYTES @
         ''-byte workbook limit -- reading it would have to hold a whole sheet in memory at once'')
       else Inr ())) (\<lambda>_.
     bindW (make_dir m work_dir) (\<lambda>_.
     bindW (errW (\<lambda>err. input @ '' '' @ NOT_A_WORKBOOK_SIGNATURE @ '': '' @ err) (\<lambda>w. (workbooks input w, w))) (\<lambda>(sheet_names, range_of).
     bindW (pureW (sheet_ranges input range_of sheet_names)) (\<lambda>ranges.
     bindW (pureW (if ranges = []
       then Inl (input @ '' has no non-empty sheets -- '' @ NOT_A_WORKBOOK_SIGNATURE @ '' with any data to extract'')
       else Inr ())) (\<lambda>_.
     bindW (write_sheets m t input work_dir (length ranges) 0 ranges) (\<lambda>outputs.
     pureW (if length outputs \<noteq> length ranges
       then Inl (input @ '' produced '' @ dec (length outputs) @ '' CSV(s) for '' @ dec (length ranges) @ '' non-empty sheet(s)'')
       else Inr outputs))))))))"

section \<open>Every sheet, in order\<close>

definition nonempty_sheets :: "(string \<Rightarrow> string + sheet_range) \<Rightarrow> string list \<Rightarrow> string list" where
  "nonempty_sheets range_of names = filter (\<lambda>name. \<exists>r. range_of name = Inr r \<and> \<not> sr_is_empty r) names"

lemma sheet_ranges_Inr:
  "sheet_ranges input range_of names = Inr ranges \<Longrightarrow>
     map fst ranges = nonempty_sheets range_of names \<and>
     (\<forall>(name, r) \<in> set ranges. range_of name = Inr r \<and> min (fst (sr_size r) * snd (sr_size r)) usize_max \<le> MAX_SHEET_CELLS)"
proof (induction names arbitrary: ranges)
  case (Cons name names)
  then show ?case
    by (fastforce simp: nonempty_sheets_def result_simps not_less case_prod_beta Let_def split: sum.splits if_splits)
qed (simp add: nonempty_sheets_def)

lemma write_rows_Inr: "write_csv_rows t path rows w = (Inr n, w') \<Longrightarrow> n = length rows"
  by (induction rows arbitrary: n w) (auto simp: op_iff)

lemma write_range_csv_Inr: "write_range_csv t used path w = (Inr n, w') \<Longrightarrow> n = length (sr_rows used)"
  by (auto simp: write_range_csv_def op_iff dest!: write_rows_Inr)

lemma write_sheets_Inr:
  "write_sheets m t input work_dir of_all position ranges w = (Inr outputs, w') \<Longrightarrow>
     map sf_sheet_name outputs = map fst ranges \<and> map sf_index outputs = [position + 1..<position + 1 + length ranges] \<and>
     (\<forall>s \<in> set outputs. sf_total s = of_all \<and> sf_path s = sheet_path work_dir (sf_index s)) \<and>
     (\<forall>(name, r) \<in> set ranges. length (sr_rows r) = fst (sr_size r))"
proof (induction m t input work_dir of_all position ranges arbitrary: w outputs rule: write_sheets.induct)
  case (2 m t input work_dir of_all position sheet_name used ranges)
  from 2(2) obtain outputs' w1 where o: "outputs = \<lparr>sf_index = position + 1, sf_total = of_all, sf_sheet_name = sheet_name,
      sf_path = sheet_path work_dir (position + 1)\<rparr> # outputs'"
    "write_sheets m t input work_dir of_all (position + 1) ranges w1 = (Inr outputs', w')"
    "length (sr_rows used) = fst (sr_size used)"
    by (auto simp: op_iff Let_def split: if_splits dest!: write_range_csv_Inr)
  show ?case using 2(1) [OF refl refl refl o(2)] o by (simp add: upt_conv_Cons del: upt_Suc)
qed simp

lemma sheet_path_inj: "sheet_path d i = sheet_path d j \<Longrightarrow> i = j"
proof -
  assume e: "sheet_path d i = sheet_path d j"
  have rel: "sheet_path d i = (if d = [] \<or> ends_with ''/'' d then d else d @ ''/'') @ ''sheet-'' @ two_digits i @ ''.csv''" for i
    by (simp add: sheet_path_def path_join_def starts_with_def)
  have "two_digits i = two_digits j" using e unfolding rel by simp
  then show ?thesis using arg_cong [of _ _ digits_value] by fastforce
qed

section \<open>What lies in the files\<close>

text \<open>A CSV writer as documented, seen through the records \<open>rows_at\<close> a path holds: creating a file empties it, a
  record goes to its end, flushing changes nothing, and no other path is touched. Only calls that succeed are bound.\<close>

definition csv_store :: "'w tables \<Rightarrow> ('w \<Rightarrow> string \<Rightarrow> string list list) \<Rightarrow> bool" where
  "csv_store t rows_at \<longleftrightarrow>
     (\<forall>p w w'. tb_create t p w = (Inr (), w') \<longrightarrow> rows_at w' = (rows_at w)(p := [])) \<and>
     (\<forall>p r w w'. tb_record t p r w = (Inr (), w') \<longrightarrow> rows_at w' = (rows_at w)(p := rows_at w p @ [r])) \<and>
     (\<forall>p w w'. tb_flush t p w = (Inr (), w') \<longrightarrow> rows_at w' = rows_at w)"

lemma csv_rows_stored:
  "csv_store t rows_at \<Longrightarrow> write_csv_rows t path rows w = (Inr n, w') \<Longrightarrow>
     rows_at w' = (rows_at w)(path := rows_at w path @ rows)"
proof (induction rows arbitrary: n w)
  case (Cons r rows)
  from Cons.prems(2) obtain w1 n' where "tb_record t path r w = (Inr (), w1)" "write_csv_rows t path rows w1 = (Inr n', w')"
    by (auto simp: op_iff)
  then show ?case using Cons.IH [of w1 n'] Cons.prems(1) by (auto simp: csv_store_def fun_eq_iff)
qed (simp add: op_iff)

text \<open>The text of a sheet's used range, row by row.\<close>

definition sheet_table :: "sheet_range \<Rightarrow> string list list" where
  "sheet_table r = map (map render_cell) (sr_rows r)"

lemma range_stored:
  assumes "csv_store t rows_at" and "write_range_csv t used path w = (Inr n, w')"
  shows "rows_at w' = (rows_at w)(path := sheet_table used)"
proof -
  from assms(2) obtain w1 w2 n' where "tb_create t path w = (Inr (), w1)"
    "write_csv_rows t path (sheet_table used) w1 = (Inr n', w2)" "tb_flush t path w2 = (Inr (), w')"
    by (auto simp: write_range_csv_def op_iff sheet_table_def)
  then show ?thesis using csv_rows_stored [OF assms(1), of path "sheet_table used" w1 n' w2] assms(1) by (simp add: csv_store_def)
qed

lemma sheets_stored:
  "csv_store t rows_at \<Longrightarrow> write_sheets m t input work_dir of_all position ranges w = (Inr outputs, w') \<Longrightarrow>
     list_all2 (\<lambda>s (name, r). sf_sheet_name s = name \<and> rows_at w' (sf_path s) = sheet_table r) outputs ranges \<and>
     (\<forall>i \<le> position. rows_at w' (sheet_path work_dir i) = rows_at w (sheet_path work_dir i))"
proof (induction m t input work_dir of_all position ranges arbitrary: w outputs rule: write_sheets.induct)
  case (2 m t input work_dir of_all position sheet_name used ranges)
  let ?p = "sheet_path work_dir (position + 1)"
  from 2(3) obtain outputs' w1 n where o: "outputs = \<lparr>sf_index = position + 1, sf_total = of_all, sf_sheet_name = sheet_name,
      sf_path = ?p\<rparr> # outputs'"
    "write_range_csv t used ?p w = (Inr n, w1)" "write_sheets m t input work_dir of_all (position + 1) ranges w1 = (Inr outputs', w')"
    by (auto simp: op_iff Let_def split: if_splits)
  note IH = 2(1) [OF refl refl refl 2(2) o(3)] and here = range_stored [OF 2(2) o(2)]
  have "rows_at w1 (sheet_path work_dir i) = rows_at w (sheet_path work_dir i)" if "i \<le> position" for i
    using here sheet_path_inj [of work_dir i "position + 1"] that by auto
  then show ?case using IH here o(1) by simp
qed (simp add: op_iff)

text \<open>C37. Splitting a workbook yields every sheet that is not empty exactly once and in workbook order: the files are
  numbered 1 to \<open>n\<close> with \<open>n\<close> as the declared total (so the outputs satisfy the numbering on which the completeness
  of a pushed group rests) and lie at different paths of the work directory. With a CSV writer that stores what it is given
  (\<open>csv_store\<close>), each file in the end holds exactly the rendered rows of its own sheet, as many as the sheet declares;
  no sheet has more cells than the limit, and the workbook no more bytes than its own.\<close>

theorem workbook_split_exact:
  assumes "split_workbook_blocking m workbooks t input work_dir w = (Inr outputs, w')" and "csv_store t rows_at"
  shows "\<exists>names range_of bytes. mc_len m input w = Inr bytes \<and> bytes \<le> MAX_WORKBOOK_BYTES \<and>
    workbooks input (snd (mc_mkdir m work_dir w)) = Inr (names, range_of) \<and>
    outputs \<noteq> [] \<and> map sf_sheet_name outputs = nonempty_sheets range_of names \<and>
    map sf_index outputs = [1..<length outputs + 1] \<and> (\<forall>s \<in> set outputs. sf_total s = length outputs) \<and>
    map sf_path outputs = map (sheet_path work_dir) [1..<length outputs + 1] \<and> distinct (map sf_path outputs) \<and>
    (\<forall>s \<in> set outputs. \<exists>r. range_of (sf_sheet_name s) = Inr r \<and>
       rows_at w' (sf_path s) = map (map render_cell) (sr_rows r) \<and> length (rows_at w' (sf_path s)) = fst (sr_size r) \<and>
       fst (sr_size r) * snd (sr_size r) \<le> MAX_SHEET_CELLS)"
proof -
  from assms(1) obtain bytes w1 names range_of ranges where
    b: "mc_len m input w = Inr bytes" "bytes \<le> MAX_WORKBOOK_BYTES" "mc_mkdir m work_dir w = (Inr (), w1)"
      "workbooks input w1 = Inr (names, range_of)" "sheet_ranges input range_of names = Inr ranges" "ranges \<noteq> []"
      "write_sheets m t input work_dir (length ranges) 0 ranges w1 = (Inr outputs, w')" "length outputs = length ranges"
    by (auto simp: split_workbook_blocking_def make_dir_def op_iff split: if_splits)
  note r = sheet_ranges_Inr [OF b(5)] and o = write_sheets_Inr [OF b(7)] and stored = sheets_stored [OF assms(2) b(7)]
  have "map sf_path outputs = map (\<lambda>s. sheet_path work_dir (sf_index s)) outputs" using o by simp
  also have "\<dots> = map (sheet_path work_dir) (map sf_index outputs)" by simp
  finally have "map sf_path outputs = map (sheet_path work_dir) (map sf_index outputs)" .
  then have paths: "map sf_path outputs = map (sheet_path work_dir) [1..<length outputs + 1]" using o b(8) by (simp del: upt_Suc)
  have "distinct (map (sheet_path work_dir) [1..<length outputs + 1])"
    by (simp add: distinct_map inj_on_def sheet_path_inj del: upt_Suc)
  moreover have "\<exists>r. range_of (sf_sheet_name s) = Inr r \<and> rows_at w' (sf_path s) = map (map render_cell) (sr_rows r) \<and>
      length (rows_at w' (sf_path s)) = fst (sr_size r) \<and> fst (sr_size r) * snd (sr_size r) \<le> MAX_SHEET_CELLS"
    if "s \<in> set outputs" for s
  proof -
    from \<open>s \<in> set outputs\<close> obtain i where i: "i < length outputs" "s = outputs ! i" unfolding in_set_conv_nth by blast
    define x where "x = ranges ! i"
    have "sf_sheet_name s = fst x \<and> rows_at w' (sf_path s) = sheet_table (snd x)"
      using list_all2_nthD [OF conjunct1 [OF stored] i(1)] by (simp add: x_def i(2) case_prod_beta)
    then have x: "x \<in> set ranges" "sf_sheet_name s = fst x" "rows_at w' (sf_path s) = sheet_table (snd x)"
      using i(1) b(8) by (simp_all add: x_def)
    have "MAX_SHEET_CELLS < usize_max" by (simp add: MAX_SHEET_CELLS_def usize_max_def)
    moreover have "range_of (fst x) = Inr (snd x)" "min (fst (sr_size (snd x)) * snd (sr_size (snd x))) usize_max \<le> MAX_SHEET_CELLS"
      "length (sr_rows (snd x)) = fst (sr_size (snd x))" using r o x(1) by (auto simp: case_prod_beta)
    ultimately show ?thesis using x by (intro exI [of _ "snd x"]) (simp add: sheet_table_def)
  qed
  ultimately show ?thesis using b r o paths by (intro exI [of _ names] exI [of _ range_of] exI [of _ bytes]) (auto simp del: upt_Suc)
qed

text \<open>A world that is nothing but the records of each path.\<close>

type_synonym record_world = "string \<Rightarrow> string list list"

definition record_tables :: "record_world tables" where
  "record_tables = \<lparr>tb_open = (\<lambda>p w. Inr []), tb_create = (\<lambda>p w. (Inr (), w(p := []))),
     tb_record = (\<lambda>p r w. (Inr (), w(p := w p @ [r]))), tb_flush = (\<lambda>p w. (Inr (), w))\<rparr>"

definition record_machine :: "record_world machine" where
  "record_machine = \<lparr>mc_run = (\<lambda>argv w. (Inr steady_exit, w)), mc_run_within = (\<lambda>n argv w. (Inr (Some steady_exit), w)),
     mc_len = (\<lambda>p w. Inr 5), mc_exists = (\<lambda>p w. True), mc_head = (\<lambda>n p w. Inr ''----''), mc_text = (\<lambda>p w. Inr []),
     mc_mkdir = (\<lambda>p w. (Inr (), w)), mc_write = (\<lambda>p tx w. (Inr (), w)), mc_copy = (\<lambda>p q w. (Inr (), w)),
     mc_absolute = Inr, mc_directory_url = Some\<rparr>"

text \<open>A writer that always succeeds and keeps nothing.\<close>

definition steady_tables :: "unit tables" where
  "steady_tables = \<lparr>tb_open = (\<lambda>p w. Inr []), tb_create = (\<lambda>p w. (Inr (), w)), tb_record = (\<lambda>p r w. (Inr (), w)),
     tb_flush = (\<lambda>p w. (Inr (), w))\<rparr>"

definition example_range :: "string \<Rightarrow> string + sheet_range" where
  "example_range name = Inr (if name = ''B'' then \<lparr>sr_is_empty = True, sr_size = (0, 0), sr_rows = []\<rparr>
     else \<lparr>sr_is_empty = False, sr_size = (1, 1), sr_rows = [[CellString name]]\<rparr>)"

definition example_split :: "(string + sheet_file list) \<times> record_world" where
  "example_split = split_workbook_blocking record_machine (\<lambda>p w. Inr ([''A'', ''B'', ''C''], example_range)) record_tables
     ''x.xlsx'' ''work'' (\<lambda>_. [])"

theorem workbook_split_exact_witness:
  "\<exists>a c. fst example_split = Inr [a, c] \<and> sf_sheet_name a = ''A'' \<and> sf_sheet_name c = ''C'' \<and>
     snd example_split (sf_path a) = [[''A'']] \<and> snd example_split (sf_path c) = [[''C'']]"
proof -
  have "\<exists>outputs w'. example_split = (Inr outputs, w')"
    by (simp add: example_split_def split_workbook_blocking_def make_dir_def errW_def record_machine_def record_tables_def
        example_range_def MAX_WORKBOOK_BYTES_def MAX_SHEET_CELLS_def usize_max_def write_range_csv_def len_or_zero_def bindW_def Let_def)
  then obtain outputs w' where run: "example_split = (Inr outputs, w')" by blast
  have lawful: "csv_store record_tables (\<lambda>w. w)" by (simp add: csv_store_def record_tables_def)
  from workbook_split_exact [OF run [unfolded example_split_def] lawful]
  have names: "map sf_sheet_name outputs = nonempty_sheets example_range [''A'', ''B'', ''C'']"
    and tables: "\<forall>s \<in> set outputs. \<exists>r. example_range (sf_sheet_name s) = Inr r \<and> w' (sf_path s) = map (map render_cell) (sr_rows r)"
    by auto
  have "nonempty_sheets example_range [''A'', ''B'', ''C''] = [''A'', ''C'']" by (simp add: nonempty_sheets_def example_range_def)
  then obtain a c where o: "outputs = [a, c]" "sf_sheet_name a = ''A''" "sf_sheet_name c = ''C''"
    using names by (auto simp: map_eq_Cons_conv)
  then have "w' (sf_path a) = [[''A'']] \<and> w' (sf_path c) = [[''C'']]"
    using tables by (simp add: example_range_def)
  moreover have "fst example_split = Inr [a, c]" "snd example_split = w'" unfolding run o(1) by simp_all
  ultimately show ?thesis using o by blast
qed

text \<open>The numbering the transform of one file relies on is the numbering of the split.\<close>

lemma split_is_numbered:
  assumes "split_workbook_blocking m workbooks t input work_dir w = (Inr files, w')" and "length files \<le> usize_max"
    and "fe_sheets env = Inr (map (\<lambda>f. \<lparr>so_index = sf_index f, so_total = sf_total f, so_name = sf_sheet_name f, so_bytes = content f\<rparr>) files)"
  shows "sheets_numbered env"
proof -
  from assms(1) obtain w1 ranges where
    b: "ranges \<noteq> []" "write_sheets m t input work_dir (length ranges) 0 ranges w1 = (Inr files, w')" "length files = length ranges"
    by (auto simp: split_workbook_blocking_def make_dir_def op_iff split: if_splits)
  show ?thesis using write_sheets_Inr [OF b(2)] b assms(2,3) by (auto simp: sheets_numbered_def comp_def)
qed

end
