(* ===== verification/Converters.thy ===== *)
theory Converters
  imports TransformFile Sheets Media Vobject Icns
begin

text \<open>
  \<open>convert_one\<close> and \<open>convert_spreadsheet\<close> of \<open>transform/worker.rs\<close> over the converters themselves: which of them an
  input kind goes to, what it works on, and the retries. The environment that the model of a file is given in
  \<open>TransformFile\<close> is what these converters answer; the programs they start are the ones the preflight looked for.
\<close>

section \<open>The libraries of the in-process converters\<close>

text \<open>Reading a whole file, the property lists of clippings, tables, workbooks, the libraries under a Procreate export,
  and the text of the error when a task panicked.\<close>

record ('f, 'w) libraries =
  lb_media :: "'f media_library"
  lb_bytes :: "string \<Rightarrow> 'w \<Rightarrow> string + string"
  lb_plist :: "string \<Rightarrow> 'w \<Rightarrow> string + plist"
  lb_tables :: "'w tables"
  lb_workbooks :: "'w workbooks"
  lb_procreate :: "string \<Rightarrow> 'w \<Rightarrow> export_env"
  lb_panicked :: string

definition write_output :: "'w machine \<Rightarrow> string \<Rightarrow> string \<Rightarrow> ('w, unit) op" where
  "write_output m path bytes = errW (\<lambda>err. ''failed to write '' @ path @ '': '' @ err) (mc_write m path bytes)"

text \<open>The rendering of calendars and contacts, the largest picture of an icon, and a Procreate export: computed from what
  is read, then written.\<close>

definition render_text ::
  "(string \<Rightarrow> string \<Rightarrow> string + nat \<Rightarrow> string + string \<Rightarrow> string + unit \<Rightarrow> string + string) \<Rightarrow>
   'w machine \<Rightarrow> ('f, 'w) libraries \<Rightarrow> string \<Rightarrow> string \<Rightarrow> ('w, unit) op" where
  "render_text render m lb input output =
     bindW (\<lambda>w. (render input output (mc_len m input w) (lb_bytes lb input w) (Inr ()), w)) (write_output m output)"

definition largest_picture :: "'w machine \<Rightarrow> ('f, 'w) libraries \<Rightarrow> string \<Rightarrow> string \<Rightarrow> ('w, string) op" where
  "largest_picture m lb input work_dir =
     bindW (\<lambda>w. (extract_largest input (lb_bytes lb input w) work_dir (Inr ()), w)) (\<lambda>(path, bytes).
     bindW (write_output m path bytes) (\<lambda>_. pureW (Inr path)))"

definition procreate_export :: "'w machine \<Rightarrow> ('f, 'w) libraries \<Rightarrow> string \<Rightarrow> string \<Rightarrow> ('w, unit) op" where
  "procreate_export m lb input output =
     bindW (\<lambda>w. (case export_png ((lb_procreate lb input w)\<lparr>ex_write := Inr ()\<rparr>) input output of
         Inl Panic \<Rightarrow> Inl (''procreate export task failed: '' @ lb_panicked lb)
       | Inl (Err err) \<Rightarrow> Inl err
       | Inr (_, bytes) \<Rightarrow> Inr (map (\<lambda>b. char_of (unat b)) bytes), w)) (write_output m output)"

section \<open>Converting one file\<close>

text \<open>A converter told where to write; and one that says itself where it wrote.\<close>

definition onto :: "string \<Rightarrow> ('w, unit) op \<Rightarrow> ('w, string) op" where
  "onto output f = bindW f (\<lambda>_. pureW (Inr output))"

fun run_tool :: "'w machine \<Rightarrow> ('f, 'w) libraries \<Rightarrow> string \<Rightarrow> string \<Rightarrow> string \<Rightarrow> tool \<Rightarrow> ('w, string) op" where
  "run_tool m lb input scratch output CopyThrough = onto output (copy_through m input output)"
| "run_tool m lb input scratch output ToJpg = onto output (transcode_to_jpg m (lb_media lb) input output)"
| "run_tool m lb input scratch output ToJpgFlattened = onto output (transcode_to_jpg_flattened m (lb_media lb) input output)"
| "run_tool m lb input scratch output ToPng = onto output (transcode_to_png m (lb_media lb) input output)"
| "run_tool m lb input scratch output ProcreateExport = onto output (procreate_export m lb input output)"
| "run_tool m lb input scratch output ToSvg = to_svg m input scratch"
| "run_tool m lb input scratch output EpsToSvg = eps_to_svg m input scratch"
| "run_tool m lb input scratch output IcsToText = onto output (render_text ics_to_text m lb input output)"
| "run_tool m lb input scratch output VcfToText = onto output (render_text vcf_to_text m lb input output)"
| "run_tool m lb input scratch output (ToVideo quality threads) =
     onto output (transcode_video m (lb_media lb) input output quality threads)"
| "run_tool m lb input scratch output (ToAudio quality) = onto output (transcode_audio m (lb_media lb) input output quality)"
| "run_tool m lb input scratch output (ToPdf kind) = to_pdf m input kind scratch"
| "run_tool m lb input scratch output EpubToPdf = epub_to_pdf m input scratch"
| "run_tool m lb input scratch output (MarkupToText kind) = onto output (markup_to_text m input kind output)"
| "run_tool m lb input scratch output ClippingToText = onto output (clipping_to_text m (lb_plist lb) input output)"
| "run_tool m lb input scratch output TsvToCsv = onto output (tsv_to_csv m (lb_tables lb) input output)"

text \<open>The retries: the machine as the failed attempt left it is where the next one starts.\<close>

fun retry_op :: "('w, 'a) op \<Rightarrow> nat \<Rightarrow> string option \<Rightarrow> ('w, 'a) op" where
  "retry_op f 0 last_err = pureW (Inl (case last_err of
       Some err \<Rightarrow> err | None \<Rightarrow> ''retry_transcode_unless_fatal called with zero attempts''))"
| "retry_op f (Suc left) last_err = (\<lambda>w. case f w of
       (Inr v, w') \<Rightarrow> (Inr v, w')
     | (Inl err, w') \<Rightarrow> if is_non_retryable_transcode_error err then (Inl err, w') else retry_op f left (Some err) w')"

definition sheet_output_name :: "transform_plan \<Rightarrow> string \<Rightarrow> sheet_file \<Rightarrow> string" where
  "sheet_output_name plan key sheet =
     (if sf_total sheet = 1 then plan_name plan key
      else sheet_destination_name (plan_group plan key) (sf_index sheet) (sf_total sheet) (sf_sheet_name sheet) (tp_kind plan))"

definition scratch_output :: "transform_plan \<Rightarrow> string \<Rightarrow> string \<Rightarrow> string" where
  "scratch_output plan key scratch = path_join scratch (plan_name plan key @ ''.scratch'')"

definition spreadsheet_on_machine ::
  "'w machine \<Rightarrow> ('f, 'w) libraries \<Rightarrow> transform_plan \<Rightarrow> string \<Rightarrow> string \<Rightarrow> string \<Rightarrow> ('w, (string \<times> string) list) op" where
  "spreadsheet_on_machine m lb plan key input scratch =
     (if tp_kind plan = CsvKind
      then bindW (run_tool m lb input scratch (scratch_output plan key scratch) CopyThrough) (\<lambda>path. pureW (Inr [(plan_name plan key, path)]))
      else
      bindW (if tp_kind plan = NumbersKind then convert_numbers_to_xlsx m input scratch else pureW (Inr input)) (\<lambda>workbook.
      bindW (split_workbook_blocking m (lb_workbooks lb) (lb_tables lb) workbook scratch) (\<lambda>outputs.
      pureW (Inr (map (\<lambda>sheet. (sheet_output_name plan key sheet, sf_path sheet)) outputs)))))"

definition convert_on_machine ::
  "'w machine \<Rightarrow> ('f, 'w) libraries \<Rightarrow> transform_plan \<Rightarrow> string \<Rightarrow> string \<Rightarrow> string \<Rightarrow> ('w, (string \<times> string) list) op" where
  "convert_on_machine m lb plan key input scratch =
     (if is_spreadsheet (tp_kind plan) then spreadsheet_on_machine m lb plan key input scratch
      else case tool_for (tp_video_quality plan) (tp_threads plan) (tp_audio_quality plan) (tp_kind plan) of
          None \<Rightarrow> pureW (Inl ''handled by the is_spreadsheet() branch above'')
        | Some t \<Rightarrow>
            bindW (if tp_kind plan = IcnsKind then largest_picture m lb input scratch else pureW (Inr input)) (\<lambda>source.
            let f = run_tool m lb source scratch (scratch_output plan key scratch) t in
            bindW (if retried t then retry_op f (max TRANSCODE_RETRIES 1) None else f) (\<lambda>path.
            pureW (Inr [(plan_name plan key, path)]))))"

end
