(* ===== verification/ConvertersProofs.thy ===== *)
theory ConvertersProofs
  imports Converters DocumentsProofs Wizards
begin

text \<open>
  The converters and the job meet: what \<open>TransformFile\<close> takes from its environment is what the converters answer on a
  machine; the preflight of the wizard has started every program a conversion can start; and a private key among the
  presentations stays where it is.
\<close>

section \<open>The environment of a file, answered by the machine\<close>

text \<open>The machine before the \<open>n\<close>th attempt, and the answer to it; an output is the contents of the file that was written.\<close>

fun before_attempt :: "('w, 'a) op \<Rightarrow> nat \<Rightarrow> 'w \<Rightarrow> 'w" where
  "before_attempt f 0 w = w"
| "before_attempt f (Suc n) w = snd (f (before_attempt f n w))"

definition with_contents :: "(string \<Rightarrow> 'w \<Rightarrow> string) \<Rightarrow> (string + string) \<times> 'w \<Rightarrow> string + string" where
  "with_contents contents = (\<lambda>(r, w). map_sum id (\<lambda>path. contents path w) r)"

definition source_step :: "'w machine \<Rightarrow> ('f, 'w) libraries \<Rightarrow> transform_plan \<Rightarrow> string \<Rightarrow> string \<Rightarrow> ('w, string) op" where
  "source_step m lb plan input scratch = (if tp_kind plan = IcnsKind then largest_picture m lb input scratch else pureW (Inr input))"

definition workbook_step :: "'w machine \<Rightarrow> transform_plan \<Rightarrow> string \<Rightarrow> string \<Rightarrow> ('w, string) op" where
  "workbook_step m plan input scratch = (if tp_kind plan = NumbersKind then convert_numbers_to_xlsx m input scratch else pureW (Inr input))"

definition read_sheet :: "(string \<Rightarrow> 'w \<Rightarrow> string) \<Rightarrow> 'w \<Rightarrow> sheet_file \<Rightarrow> sheet_output" where
  "read_sheet contents w s = \<lparr>so_index = sf_index s, so_total = sf_total s, so_name = sf_sheet_name s, so_bytes = contents (sf_path s) w\<rparr>"

definition machine_env ::
  "'w machine \<Rightarrow> ('f, 'w) libraries \<Rightarrow> (string \<Rightarrow> 'w \<Rightarrow> string) \<Rightarrow> transform_plan \<Rightarrow> string \<Rightarrow> string \<Rightarrow> string \<Rightarrow> 'w \<Rightarrow> file_env \<Rightarrow> file_env" where
  "machine_env m lb contents plan key input scratch w env =
     env\<lparr>fe_run := (\<lambda>t n.
           let (r, w1) = source_step m lb plan input scratch w;
               source = (case r of Inr s \<Rightarrow> s | Inl _ \<Rightarrow> input);
               f = run_tool m lb source scratch (scratch_output plan key scratch) t
           in with_contents contents (f (before_attempt f n w1))),
         fe_icns := map_sum id (\<lambda>_. ()) (fst (source_step m lb plan input scratch w)),
         fe_numbers := map_sum id (\<lambda>_. ()) (fst (workbook_step m plan input scratch w)),
         fe_sheets := (case bindW (workbook_step m plan input scratch)
               (\<lambda>workbook. split_workbook_blocking m (lb_workbooks lb) (lb_tables lb) workbook scratch) w of
             (r, w') \<Rightarrow> map_sum id (map (read_sheet contents w')) r)\<rparr>"

lemma retry_on_machine:
  "snd (retry_transcode_from (\<lambda>n. with_contents contents (f (before_attempt f n w))) backoff k left last_err) =
     with_contents contents (retry_op f left last_err (before_attempt f k w))"
proof (induction left arbitrary: k last_err)
  case (Suc left)
  obtain r w' where f: "f (before_attempt f k w) = (r, w')" by fastforce
  show ?case
  proof (cases r)
    case (Inl err)
    then show ?thesis using f Suc.IH [of "Suc k" "Some err"] by (simp add: with_contents_def split_beta Let_def)
  next
    case (Inr path)
    then show ?thesis using f by (simp add: with_contents_def)
  qed
qed (simp add: with_contents_def split: option.split)

lemma attempt_once: "f (before_attempt f 0 w) = f w"
  by simp

lemma bindE_map_sum: "bindE (map_sum id g r) h = bindE r (\<lambda>x. h (g x))"
  by (cases r) simp_all

definition outputs_with ::
  "(string \<Rightarrow> 'w \<Rightarrow> string) \<Rightarrow> (string + (string \<times> string) list) \<times> 'w \<Rightarrow> string + pending_output list" where
  "outputs_with contents = (\<lambda>(r, w). map_sum id (map (\<lambda>(name, path). (name, contents path w))) r)"

lemma spreadsheet_on_machine_refines:
  assumes "is_spreadsheet (tp_kind plan)"
  shows "convert_spreadsheet (machine_env m lb contents plan key input scratch w env) plan key =
    outputs_with contents (spreadsheet_on_machine m lb plan key input scratch w)"
proof (cases "tp_kind plan = CsvKind")
  case True
  obtain r w' where "run_tool m lb input scratch (scratch_output plan key scratch) CopyThrough w = (r, w')" by fastforce
  then show ?thesis using True
    by (cases r) (simp_all add: convert_spreadsheet_def spreadsheet_on_machine_def machine_env_def outputs_with_def with_contents_def
        source_step_def del: run_tool.simps)
next
  case False
  obtain r w1 where wb: "workbook_step m plan input scratch w = (r, w1)" by fastforce
  have step: "(if tp_kind plan = NumbersKind then convert_numbers_to_xlsx m input scratch else pureW (Inr input)) = workbook_step m plan input scratch"
    by (simp add: workbook_step_def)
  have numbers: "(if tp_kind plan = NumbersKind then fe_numbers (machine_env m lb contents plan key input scratch w env) else Inr ()) = map_sum id (\<lambda>_. ()) r"
    using wb by (cases r) (auto simp: machine_env_def workbook_step_def split: if_splits)
  show ?thesis
  proof (cases r)
    case (Inl err)
    then show ?thesis using False wb numbers unfolding convert_spreadsheet_def spreadsheet_on_machine_def step
      by (simp add: outputs_with_def)
  next
    case (Inr workbook)
    obtain rs w2 where sp: "split_workbook_blocking m (lb_workbooks lb) (lb_tables lb) workbook scratch w1 = (rs, w2)" by fastforce
    have sheets: "fe_sheets (machine_env m lb contents plan key input scratch w env) = map_sum id (map (read_sheet contents w2)) rs"
      using wb Inr sp by (simp add: machine_env_def)
    show ?thesis using False wb numbers Inr sp sheets unfolding convert_spreadsheet_def spreadsheet_on_machine_def step
      by (cases rs) (simp_all add: outputs_with_def read_sheet_def sheet_output_name_def)
  qed
qed

text \<open>The model of a file in the job is faithful to its converters. Whatever the machine, its state and the libraries:
  taking the answers of the environment from the converters as they run, each attempt on the machine the one before
  left behind, converting a file in the job's model gives what converting it on the machine gives, the same error or
  the same names with the contents of the files written.\<close>

lemma convert_one_on_machine:
  "convert_one (machine_env m lb contents plan key input scratch w env) plan key =
     outputs_with contents (convert_on_machine m lb plan key input scratch w)"
proof (cases "is_spreadsheet (tp_kind plan)")
  case True
  then show ?thesis by (simp add: convert_one_def convert_on_machine_def spreadsheet_on_machine_refines)
next
  case False
  let ?env = "machine_env m lb contents plan key input scratch w env"
  obtain t where t: "tool_for (tp_video_quality plan) (tp_threads plan) (tp_audio_quality plan) (tp_kind plan) = Some t"
    using tool_for_total [OF False] by blast
  obtain r w1 where src: "source_step m lb plan input scratch w = (r, w1)" by fastforce
  have step: "(if tp_kind plan = IcnsKind then largest_picture m lb input scratch else pureW (Inr input)) = source_step m lb plan input scratch"
    by (simp add: source_step_def)
  have icns: "(if tp_kind plan = IcnsKind then fe_icns ?env else Inr ()) = map_sum id (\<lambda>_. ()) r"
    using src by (cases r) (auto simp: machine_env_def source_step_def split: if_splits)
  show ?thesis
  proof (cases r)
    case (Inl err)
    then show ?thesis using False t src icns unfolding convert_one_def convert_on_machine_def step by (simp add: outputs_with_def)
  next
    case (Inr source)
    let ?f = "run_tool m lb source scratch (scratch_output plan key scratch) t"
    have run: "fe_run ?env t = (\<lambda>n. with_contents contents (?f (before_attempt ?f n w1)))"
      using src Inr by (simp add: machine_env_def Let_def)
    define g where "g = (if retried t then retry_op ?f (max TRANSCODE_RETRIES 1) None else ?f)"
    have bytes: "(if retried t then snd (retry_transcode_unless_fatal TRANSCODE_RETRIES TRANSCODE_RETRY_BACKOFF (fe_run ?env t))
        else fe_run ?env t 0) = with_contents contents (g w1)"
      unfolding g_def run retry_transcode_unless_fatal_def by (simp add: retry_on_machine del: run_tool.simps)
    obtain p w2 where g: "g w1 = (p, w2)" by fastforce
    have "convert_on_machine m lb plan key input scratch w = bindW g (\<lambda>path. pureW (Inr [(plan_name plan key, path)])) w1"
      using False t src Inr unfolding convert_on_machine_def step g_def by simp
    moreover have "convert_one ?env plan key = bindE (with_contents contents (g w1)) (\<lambda>bytes. Inr [(plan_name plan key, bytes)])"
      using False t icns Inr bytes unfolding convert_one_def by simp
    ultimately show ?thesis using g by (cases p) (simp_all add: outputs_with_def with_contents_def)
  qed
qed

section \<open>The programs a conversion starts\<close>

definition programs_of :: "converter \<Rightarrow> string list" where
  "programs_of c = (case c of NoConverter \<Rightarrow> [] | Ffmpeg \<Rightarrow> [''ffmpeg'', ''ffprobe''] | Soffice \<Rightarrow> [''soffice''] | Calibre \<Rightarrow> [''ebook-convert'']
     | Pandoc \<Rightarrow> [''pandoc''] | GhostscriptThenSoffice \<Rightarrow> [''gs'', ''soffice''])"

text \<open>A machine that agrees with another on these programs only.\<close>

definition other_than ::
  "string list \<Rightarrow> (string list \<Rightarrow> 'w \<Rightarrow> (string + exited) \<times> 'w) \<Rightarrow> (nat \<Rightarrow> string list \<Rightarrow> 'w \<Rightarrow> (string + exited option) \<times> 'w) \<Rightarrow>
   'w machine \<Rightarrow> 'w machine" where
  "other_than ps run run_within m = m\<lparr>
     mc_run := (\<lambda>argv. if argv \<noteq> [] \<and> hd argv \<in> set ps then mc_run m argv else run argv),
     mc_run_within := (\<lambda>n argv. if argv \<noteq> [] \<and> hd argv \<in> set ps then mc_run_within m n argv else run_within n argv)\<rparr>"

lemma other_than_run [simp]:
  "p \<in> set ps \<Longrightarrow> mc_run (other_than ps run run_within m) (p # args) = mc_run m (p # args)"
  "p \<in> set ps \<Longrightarrow> mc_run_within (other_than ps run run_within m) n (p # args) = mc_run_within m n (p # args)"
  by (simp_all add: other_than_def)

lemma other_than_rest [simp]:
  "mc_len (other_than ps run run_within m) = mc_len m" "mc_exists (other_than ps run run_within m) = mc_exists m"
  "mc_head (other_than ps run run_within m) = mc_head m" "mc_text (other_than ps run run_within m) = mc_text m"
  "mc_mkdir (other_than ps run run_within m) = mc_mkdir m" "mc_write (other_than ps run run_within m) = mc_write m"
  "mc_copy (other_than ps run run_within m) = mc_copy m" "mc_absolute (other_than ps run run_within m) = mc_absolute m"
  "mc_directory_url (other_than ps run run_within m) = mc_directory_url m"
  by (simp_all add: other_than_def)

named_theorems same_programs \<open>what runs only programs of the list is the same on both machines\<close>

lemma same_probe [same_programs]:
  "''ffprobe'' \<in> set ps \<Longrightarrow> probe (other_than ps run run_within m) (''ffprobe'' # args) f = probe m (''ffprobe'' # args) f"
  by (simp add: fun_eq_iff probe_def)

lemma same_ffmpeg [same_programs]:
  "''ffmpeg'' \<in> set ps \<Longrightarrow> run_ffmpeg (other_than ps run run_within m) input args = run_ffmpeg m input args"
  by (simp add: run_ffmpeg_def)

lemma same_probes [same_programs]:
  assumes "''ffprobe'' \<in> set ps"
  shows "probe_dimensions (other_than ps run run_within m) ml path = probe_dimensions m ml path"
    "probe_duration_seconds (other_than ps run run_within m) ml path = probe_duration_seconds m ml path"
    "probe_video_diagnostics (other_than ps run run_within m) path = probe_video_diagnostics m path"
    "has_video_stream (other_than ps run run_within m) ml path = has_video_stream m ml path"
  using assms by (simp_all add: probe_dimensions_def probe_duration_seconds_def probe_video_diagnostics_def has_video_stream_def same_probe)

lemma same_media [same_programs]:
  assumes "''ffmpeg'' \<in> set ps" and "''ffprobe'' \<in> set ps"
  shows "transcode_to_jpg (other_than ps run run_within m) ml input output = transcode_to_jpg m ml input output"
    "transcode_to_jpg_flattened (other_than ps run run_within m) ml input output = transcode_to_jpg_flattened m ml input output"
    "transcode_to_png (other_than ps run run_within m) ml input output = transcode_to_png m ml input output"
    "transcode_video (other_than ps run run_within m) ml input output vq threads = transcode_video m ml input output vq threads"
    "transcode_audio (other_than ps run run_within m) ml input output aq = transcode_audio m ml input output aq"
  using assms by (simp_all add: transcode_to_jpg_def transcode_to_jpg_flattened_def transcode_to_png_def transcode_still_def
      transcode_video_def transcode_audio_def guard_duration_def same_programs cong: if_cong option.case_cong)

lemma same_make_dir [same_programs]: "make_dir (other_than ps run run_within m) dir = make_dir m dir"
  by (simp add: make_dir_def)

lemma same_url [same_programs]: "directory_url (other_than ps run run_within m) path = directory_url m path"
  by (simp add: directory_url_def)

lemma same_soffice [same_programs]:
  "''soffice'' \<in> set ps \<Longrightarrow> soffice_convert (other_than ps run run_within m) input dir ext signature = soffice_convert m input dir ext signature"
  by (simp add: soffice_convert_def same_programs soffice_argv_def)

lemma same_documents [same_programs]:
  "''soffice'' \<in> set ps \<Longrightarrow> to_pdf (other_than ps run run_within m) input kind dir = to_pdf m input kind dir"
  "''soffice'' \<in> set ps \<Longrightarrow> to_svg (other_than ps run run_within m) input dir = to_svg m input dir"
  "''soffice'' \<in> set ps \<Longrightarrow> convert_numbers_to_xlsx (other_than ps run run_within m) input dir = convert_numbers_to_xlsx m input dir"
  "''soffice'' \<in> set ps \<Longrightarrow> ''gs'' \<in> set ps \<Longrightarrow> eps_to_svg (other_than ps run run_within m) input dir = eps_to_svg m input dir"
  "''ebook-convert'' \<in> set ps \<Longrightarrow> epub_to_pdf (other_than ps run run_within m) input dir = epub_to_pdf m input dir"
  "''pandoc'' \<in> set ps \<Longrightarrow> markup_to_text (other_than ps run run_within m) input kind output = markup_to_text m input kind output"
  by (simp_all add: to_pdf_def ensure_keynote_def read_header_def to_svg_def convert_numbers_to_xlsx_def eps_to_svg_def gs_argv_def
      epub_to_pdf_def markup_to_text_def same_programs cong: if_cong)

lemma same_in_process [same_programs]:
  "copy_through (other_than ps run run_within m) input output = copy_through m input output"
  "clipping_to_text (other_than ps run run_within m) plist_of input output = clipping_to_text m plist_of input output"
  "tsv_to_csv (other_than ps run run_within m) t input output = tsv_to_csv m t input output"
  "write_output (other_than ps run run_within m) path bytes = write_output m path bytes"
  "render_text render (other_than ps run run_within m) lb input output = render_text render m lb input output"
  "largest_picture (other_than ps run run_within m) lb input dir = largest_picture m lb input dir"
  "procreate_export (other_than ps run run_within m) lb input output = procreate_export m lb input output"
  by (simp_all add: copy_through_def clipping_to_text_def tsv_to_csv_def write_output_def [abs_def] render_text_def largest_picture_def procreate_export_def)

lemma same_write_sheets [same_programs]:
  "write_sheets (other_than ps run run_within m) t input dir n i ranges = write_sheets m t input dir n i ranges"
  by (induction ranges arbitrary: i) (auto simp: Let_def)

lemma same_split [same_programs]:
  "split_workbook_blocking (other_than ps run run_within m) wbs t input dir = split_workbook_blocking m wbs t input dir"
  by (simp add: split_workbook_blocking_def same_programs)

text \<open>A tool of the kind, on the programs of its converter.\<close>

lemma same_tool:
  assumes "tool_for vq threads aq kind = Some t"
  shows "run_tool (other_than (programs_of (converter_for kind)) run run_within m) lb input scratch output t =
    run_tool m lb input scratch output t"
  using assms by (cases kind) (auto simp: converter_for_def programs_of_def same_programs)

text \<open>C39. The preflight looks for what is needed. Whatever the input kind, a machine that agrees with the given one only on
  the programs of the kind's converter converts every file in the same way, so a conversion starts no other program;
  and when the preflight lets a run begin, each of these programs has been started once.\<close>

theorem preflight_covers_conversion:
  assumes "required_converter_available m (tp_kind plan) w = (Inr (), w')"
  shows "convert_on_machine (other_than (programs_of (converter_for (tp_kind plan))) run run_within m) lb plan key input scratch =
      convert_on_machine m lb plan key input scratch \<and>
    set (programs_of (converter_for (tp_kind plan))) \<subseteq> {p. \<exists>args w1 e w2. mc_run m (p # args) w1 = (Inr e, w2)}"
proof
  let ?m = "other_than (programs_of (converter_for (tp_kind plan))) run run_within m"
  have sheet: "is_spreadsheet (tp_kind plan) \<Longrightarrow> spreadsheet_on_machine ?m lb plan key input scratch = spreadsheet_on_machine m lb plan key input scratch"
    by (auto simp: spreadsheet_on_machine_def same_programs programs_of_def converter_for_def)
  have source: "(if tp_kind plan = IcnsKind then largest_picture ?m lb input scratch else pureW (Inr input)) =
      (if tp_kind plan = IcnsKind then largest_picture m lb input scratch else pureW (Inr input))"
    by (simp add: same_programs)
  show "convert_on_machine ?m lb plan key input scratch = convert_on_machine m lb plan key input scratch"
    unfolding convert_on_machine_def source using sheet
    by (cases "tool_for (tp_video_quality plan) (tp_threads plan) (tp_audio_quality plan) (tp_kind plan)")
      (simp_all del: run_tool.simps tool_for.simps add: same_tool)
  show "set (programs_of (converter_for (tp_kind plan))) \<subseteq> {p. \<exists>args w1 e w2. mc_run m (p # args) w1 = (Inr e, w2)}"
    using assms unfolding required_converter_available_def programs_of_def
    by (cases "converter_for (tp_kind plan)")
      (auto simp: op_iff check_ffmpeg_available_def check_ffmpeg_binary_def soffice_check_available_def check_calibre_available_def
        check_pandoc_available_def check_ghostscript_available_def check_binary_def)
qed

text \<open>For the witnesses: a machine on which every program succeeds, and libraries that find nothing.\<close>

definition no_libraries :: "(unit, unit) libraries" where
  "no_libraries = \<lparr>lb_media = \<lparr>ml_dimensions = Map.empty, ml_attached_pics = Map.empty, ml_f64 = Map.empty,
       ml_truncated = (\<lambda>_ _. False), ml_seconds = (\<lambda>_. [])\<rparr>,
     lb_bytes = (\<lambda>_ _. Inl ''not found''), lb_plist = (\<lambda>_ _. Inl ''not found''), lb_tables = steady_tables,
     lb_workbooks = (\<lambda>_ _. Inl ''not found''), lb_procreate = (\<lambda>_ _. undefined), lb_panicked = ''panic''\<rparr>"

definition plan_of :: "input_file_type \<Rightarrow> transform_plan" where
  "plan_of kind = photo_plan\<lparr>tp_kind := kind\<rparr>"

theorem preflight_covers_conversion_witness:
  "convert_on_machine (other_than [''gs'', ''soffice''] (\<lambda>_ w. (Inl ''absent'', w)) (\<lambda>_ _ w. (Inl ''absent'', w)) steady_machine)
     no_libraries (plan_of EpsKind) ''a.eps'' ''/s/a.eps'' ''/scratch'' () =
   convert_on_machine steady_machine no_libraries (plan_of EpsKind) ''a.eps'' ''/s/a.eps'' ''/scratch'' ()"
proof -
  have "required_converter_available steady_machine (tp_kind (plan_of EpsKind)) () = (Inr (), ())"
    by (simp add: plan_of_def photo_plan_def required_converter_available_def converter_for_def check_ghostscript_available_def
        soffice_check_available_def check_binary_def steady_machine_def steady_exit_def errW_def bindW_def succeeded_def)
  moreover have "programs_of (converter_for (tp_kind (plan_of EpsKind))) = [''gs'', ''soffice'']"
    by (simp add: plan_of_def converter_for_def programs_of_def)
  ultimately show ?thesis using preflight_covers_conversion [where m = steady_machine and plan = "plan_of EpsKind" and lb = no_libraries]
    by simp
qed

section \<open>A private key among the presentations\<close>

lemma key_conversion_fails:
  assumes "tp_kind plan = KeyKind" and "read_header m 4 input w = Inr header" and "header \<noteq> ZIP_MAGIC"
  obtains err where "is_wrong_input_kind_error err" "convert_on_machine m lb plan key input scratch w = (Inl err, w)"
    "convert_one (machine_env m lb contents plan key input scratch w env) plan key = Inl err"
proof -
  obtain err where err: "to_pdf m input KeyKind scratch w = (Inl err, w)" "is_wrong_input_kind_error err"
    using private_key_never_converted [where m = m and input = input and w = w and work_dir = scratch] assms(2,3) by auto
  have "convert_on_machine m lb plan key input scratch w = (Inl err, w)"
    using err assms(1) by (simp add: convert_on_machine_def is_spreadsheet_def retried_def)
  moreover have "convert_one (machine_env m lb contents plan key input scratch w env) plan key = Inl err"
    using err assms(1)
    by (simp add: convert_one_def is_spreadsheet_def retried_def machine_env_def source_step_def with_contents_def)
  ultimately show thesis using that err(2) by blast
qed

text \<open>C40. A private key does not leave the machine. When a run over \<open>.key\<close> files meets one that does not begin with the
  zip magic of a Keynote document, nothing happens on the machine and no program sees the file; it ends in a failure
  of the transcode stage, with the result directory and the destination as they were; and when it got as far as the
  conversion, its staged copy is removed. This is so unless the complete outputs of an earlier run already lie in the
  result directory, which a run takes up instead of converting.\<close>

theorem private_key_stays_local:
  assumes "tp_kind plan = KeyKind" and "read_header m 4 input w = Inr header" and "header \<noteq> ZIP_MAGIC"
    and "\<not> is_complete (index_names (existing_group_outputs (fw_result fw) (plan_group plan key))) (plan_group plan key)"
    and "process_one (machine_env m lb contents plan key input scratch w env) plan key fw = Some (fw', r)"
  shows "snd (convert_on_machine m lb plan key input scratch w) = w \<and> (\<exists>err. r = Inl (TranscodeStage, err)) \<and>
    fw_remote fw' = fw_remote fw \<and> fw_result fw' = fw_result fw \<and>
    (fe_scratch env = Inr () \<longrightarrow> check_disk_space (fe_free env) 0 = Inr () \<longrightarrow> fw' = remove_source env fw)"
proof -
  let ?env = "machine_env m lb contents plan key input scratch w env"
  obtain err where err: "is_wrong_input_kind_error err" "convert_on_machine m lb plan key input scratch w = (Inl err, w)"
    "convert_one ?env plan key = Inl err" by (rule key_conversion_fails [OF assms(1,2,3)])
  have "(case fe_scratch env of Inl e \<Rightarrow> Some (fw, Inl (TranscodeStage, e))
      | Inr _ \<Rightarrow> (case check_disk_space (fe_free env) 0 of
          Inl (Err e) \<Rightarrow> Some (fw, Inl (TranscodeStage, e))
        | Inl Panic \<Rightarrow> None
        | Inr _ \<Rightarrow> Some (remove_source ?env fw, Inl (TranscodeStage, err)))) = Some (fw', r)"
    using assms(1,4,5) err(1,3) by (simp add: process_one_def Let_def machine_env_def split: sum.splits)
  moreover have "remove_source ?env fw = remove_source env fw" by (simp add: remove_source_def machine_env_def)
  ultimately show ?thesis using err(2)
    by (auto simp: remove_source_def split: sum.splits fault.splits)
qed

theorem private_key_stays_local_witness:
  "\<exists>fw' r. process_one (machine_env steady_machine no_libraries (\<lambda>_ _. []) (plan_of KeyKind) ''id.key'' ''/s/id.key'' ''/scratch'' ()
      photo_env) (plan_of KeyKind) ''id.key'' photo_world = Some (fw', r) \<and> fw_source fw' = None \<and> fw_remote fw' = Map.empty"
proof -
  let ?env = "machine_env steady_machine no_libraries (\<lambda>_ _. []) (plan_of KeyKind) ''id.key'' ''/s/id.key'' ''/scratch'' () photo_env"
  have key: "tp_kind (plan_of KeyKind) = KeyKind" "read_header steady_machine 4 ''/s/id.key'' () = Inr ''----''" "''----'' \<noteq> ZIP_MAGIC"
    by (simp_all add: plan_of_def read_header_def steady_machine_def ZIP_MAGIC_def)
  have fresh: "\<not> is_complete (index_names (existing_group_outputs (fw_result photo_world) g)) g" for g
    by (simp add: existing_group_outputs_def photo_world_def index_names_def is_complete_def)
  obtain err where err: "is_wrong_input_kind_error err" "convert_one ?env (plan_of KeyKind) ''id.key'' = Inl err"
    by (rule key_conversion_fails [OF key])
  have env: "fe_scratch photo_env = Inr ()" "check_disk_space (fe_free photo_env) 0 = Inr ()"
    by (simp_all add: photo_env_def check_disk_space_def)
  have run: "process_one ?env (plan_of KeyKind) ''id.key'' photo_world = Some (remove_source ?env photo_world, Inl (TranscodeStage, err))"
    using err fresh env by (simp add: process_one_def key(1) Let_def machine_env_def)
  from private_key_stays_local [OF key fresh run] have "fw_remote (remove_source ?env photo_world) = Map.empty"
    "remove_source ?env photo_world = remove_source photo_env photo_world"
    using env by (simp_all add: photo_world_def)
  then show ?thesis using run by (simp add: remove_source_def photo_env_def)
qed

end
