(* ===== verification/Spec2Isabelle.thy ===== *)
theory Spec2Isabelle
  imports KeyringWizard Lzo1x ImportPool EmailScan DedupPool TransformTrace VobjectProofs Icns ProcreateProofs DocumentsProofs WizardsProofs ConvertersProofs
begin

text \<open>
  A verification development for pigeon-cli. The program imports mail from IMAP servers into object storage
  (\<open>job run email import\<close>), compares servers with what was imported (\<open>email scan\<close>), deduplicates buckets
  (\<open>deduplicate\<close>), copies and purges buckets (\<open>rclone copy\<close>, \<open>rclone delete\<close>) and converts the files of a bucket
  (\<open>transform\<close>). Identities and buckets live in a keyring file; every access to a bucket goes through \<open>rclone\<close>, run
  as a subprocess with a configuration generated from the keyring. Paths below are relative to \<open>src/src/\<close>.

  \<^bold>\<open>How the program is modelled.\<close> Strings are lists of octets in UTF-8, as Rust has them; a path is such a string.
  A function that can fail returns \<open>string + 'a\<close>, or \<open>'a result\<close> where it can also panic (\<open>Prelude\<close>): an index out of
  bounds, an overflow that debug builds check, and an \<open>unwrap\<close> of nothing are the value \<open>Panic\<close> and never left
  unspecified. \<open>BTreeMap\<close> is a sorted association list; a hash map is a list in any order. Code that is not in the
  repository (TOML, JSON, zip, property list, PNG, workbook and CSV libraries, SHA-256, IMAP, external programs, Unicode
  case folding, the terminal) is an argument of the definitions that use it: a function, or a record of functions from
  a state of the world to an answer and the next state. Concurrent code is a step relation on the state its tasks
  share, one step per piece of code between two suspension points, and its theorems hold for every schedule. No
  definition is given fuel: loops are structural, have a measure, or, where the code may wait for ever on an endpoint
  (\<open>push_with_gate\<close>, \<open>push_output\<close>), are partial functions with \<open>None\<close> for not returning. All numeric limits are the
  constants of the source, under their names. Lengths of buffers are natural numbers where the source adds \<open>usize\<close>
  values; the two differ only beyond \<open>2 ^ 64\<close> (in \<open>Lzo1x\<close>, on inputs of more than about \<open>7 * 10 ^ 16\<close> octets).

  \<^bold>\<open>Shared ground.\<close>
  \<^item> \<open>Prelude\<close>: results, panics, machine arithmetic, Rust's string functions, decimal text. \<open>BTreeMap\<close>. \<open>Utf8\<close> and
    \<open>Utf8Lossy\<close>: characters of a byte string and \<open>from_utf8_lossy\<close>.
  \<^item> \<open>LineStore\<close>: the locale \<open>line_format\<close>, the contract of the line-oriented state files: rows that read back are read
    back after any append, also one cut off by a crash. It is interpreted for the content index (\<open>DataCore\<close>), the
    ledger and the checkpoint of the import (\<open>Ledger\<close>), the processed list (\<open>Dedup\<close>) and the scan status (\<open>EmailScan\<close>).
  \<^item> \<open>DataCore\<close> (\<open>core/data.rs\<close>): content index, file names, directory walk. \<open>Scratch\<close>: local directories.
  \<^item> \<open>Recovery\<close> (\<open>core/retry.rs\<close>, \<open>email_import/pace.rs\<close>, \<open>gate.rs\<close>): backoff, the pacer, which holds its rate (C26), and the
    gate through which tasks share one bounded wait for an unreachable endpoint (C8).

  \<^bold>\<open>Keyring.\<close>
  \<^item> \<open>Keyring\<close> (\<open>commands/keyring/store.rs\<close>, \<open>email/identity.rs\<close>, \<open>email/provider.rs\<close>, \<open>core/keyring/credentials.rs\<close>): entries and
    the store. The locale \<open>alias_store\<close> is its contract, a map from aliases; the store is its interpretation.
  \<^item> \<open>ImapClient\<close> (\<open>email/imap_client.rs\<close>): a login as a trace of events on the wire; none of the traces sends credentials
    before the handshake (C3).
  \<^item> \<open>RcloneConfig\<close> (\<open>core/rclone/config.rs\<close>): the generated configuration (C4) and bucket addresses. Fields are
    written unescaped, so C4 is about fields without line breaks; \<open>newline_injects_section\<close> shows what one does.
  \<^item> \<open>KeyringWizard\<close> (\<open>keyring/wizard.rs\<close>, \<open>core/wizard.rs\<close>): the four commands, refined to the abstract map (C2), with
    their failures (C5). What a probe of a bucket answers is a function of the address alone: that rclone reads the
    temporary configuration it is given is outside the model.

  \<^bold>\<open>rclone.\<close>
  \<^item> \<open>RcloneLog\<close> (\<open>core/rclone/log.rs\<close>): tailing a growing log equals one pass over it (C6).
  \<^item> \<open>RcloneRun\<close> (\<open>core/rclone/mod.rs\<close>, \<open>command.rs\<close>, \<open>job/rclone/worker.rs\<close>, \<open>job/report_upload.rs\<close>): running a command, its
    hooks, the copy and delete jobs, and the artifacts of a run. The locale \<open>rclone_implementor\<close> is the contract of the
    trait \<open>RcloneCommand\<close>, interpreted for its four implementors (C20). What a run does to the outside
    (the process id handed on, objects reported, metrics) is a list in the order it happens (C21).

  \<^bold>\<open>Email.\<close>
  \<^item> \<open>Ledger\<close> (\<open>email_import/ledger.rs\<close>, \<open>manifest.rs\<close>): what was delivered, on disk (C7); a mailbox whose name begins with \<open>#\<close> is
    written and forgotten.
  \<^item> \<open>EmailImport\<close> (\<open>sink.rs\<close>, \<open>mod.rs\<close>): what is due, in batches, measured against the server's answers and the record
    as it lies on disk (C9), and loading the ledger (C10).
  \<^item> \<open>ImportWorker\<close> (\<open>attach.rs\<close>, \<open>push.rs\<close>, parts of \<open>worker.rs\<close>): one message with every attachment the
    parser found, delivered or not (C11).
  \<^item> \<open>ImportPool\<close> (\<open>worker.rs\<close>): the workers, \<open>pool_step\<close>: the multiset of messages queued or in hand stays within the
    pending ones and the rest is counted (C12), and every schedule ends with all of them counted (C13).
  \<^item> \<open>EmailScan\<close> (\<open>email_scan/\<close>): counting attachments with bisection around unreadable messages (C14), status rows.

  \<^bold>\<open>Deduplicate.\<close>
  \<^item> \<open>Archive\<close> (\<open>job/archive.rs\<close>): capped zip expansion (C15).
  \<^item> \<open>Dedup\<close> (\<open>deduplicate/manifest.rs\<close>, \<open>dedup.rs\<close>): listing, resuming, placement by content (C16).
  \<^item> \<open>DedupPool\<close> (\<open>deduplicate/worker.rs\<close>): the workers, \<open>dedup_step\<close>; they end (C17), by a multiset order on the nesting
    depth left to the queued items, and a run checkpoints what it may (C18).

  \<^bold>\<open>Transform, the job\<close> (\<open>job/transform/\<close>).
  \<^item> \<open>TransformFormat\<close> (\<open>format.rs\<close>): kinds. \<open>Placement\<close> (\<open>placement.rs\<close>): names of outputs and the index of complete groups (C19).
  \<^item> \<open>TransformSelect\<close>, \<open>TransformFile\<close>, \<open>TransformPool\<close>, \<open>TransformTrace\<close> (\<open>worker.rs\<close>, \<open>push.rs\<close>, \<open>manifest.rs\<close>,
    \<open>destination.rs\<close>): what is pulled and into which slot (C22); one file from its conversion to the removal of its local
    copy (C23, C24); the loop that pulls, transforms and pushes with backpressure and a circuit breaker, \<open>transform_step\<close>
    (C25, C27); and an executable schedule that shows the breaker leaving the pull stopped (C28).
  \<^item> \<open>EmailShape\<close> (\<open>email_shape.rs\<close>): recognising rendered mail.

  \<^bold>\<open>Transform, the converters.\<close>
  \<^item> \<open>Lzo1x\<close> (\<open>lzo1x.rs\<close>), on \<open>8 word\<close>: the decompressor, memory safe and bounded on every input (C1).
  \<^item> \<open>Procreate\<close>, \<open>ProcreateProofs\<close> (\<open>procreate.rs\<close>): the tiles of a drawing put together (C33) and compared
    with the thumbnail, without a panic (C34).
  \<^item> \<open>Icns\<close> (\<open>icns.rs\<close>): the largest picture of an icon (C32).
  \<^item> \<open>Vobject\<close>, \<open>VobjectProofs\<close> (\<open>vobject.rs\<close>): calendars and contacts, read back as written (C29), the outermost
    components (C30), and a card's text a function of the few properties it names, payloads withheld (C31).
  \<^item> \<open>Subprocess\<close>: the machine the converters run programs on. \<open>Media\<close> (\<open>media.rs\<close>): ffmpeg. \<open>Documents\<close>,
    \<open>DocumentsProofs\<close> (\<open>documents.rs\<close>, \<open>soffice.rs\<close>): LibreOffice, Calibre, pandoc and Ghostscript, and the test of an SVG (C36). \<open>Sheets\<close>
    (\<open>sheets.rs\<close>): workbooks (C37).
  \<^item> \<open>Converters\<close>, \<open>ConvertersProofs\<close> (\<open>convert_one\<close> of \<open>worker.rs\<close>): the kinds and their converters on one machine. Its
    answers are an environment \<open>TransformFile\<close> can be given (\<open>convert_one_on_machine\<close>); it starts only programs the
    preflight has started (C39), and keeps a private key named like a presentation where it is (C40).

  \<^bold>\<open>Wizards.\<close> \<open>Wizards\<close>, \<open>WizardsProofs\<close> (\<open>job/shared_wizard.rs\<close> and the \<open>wizard.rs\<close> of every job): flags, prompts and
  fallbacks, resolved in the order of the code to a refusal, a cancellation or a job; a non-interactive run asks
  nothing (C38), and nothing is purged without consent (C35).

  \<^bold>\<open>How the parts meet.\<close> A wizard reads the keyring, has the configuration written, and hands a request to a job; the
  jobs of \<open>ImportPool\<close>, \<open>DedupPool\<close> and \<open>TransformPool\<close> use the operations of the theories above them and reach a bucket
  only by the commands of \<open>RcloneRun\<close>. What one run leaves behind (ledger, checkpoint, processed list, names of
  outputs) is what the next run reads: C7, C9, C18, C19 and C24 are about that hand-over.

  \<^bold>\<open>Not modelled.\<close>
  \<^item> \<open>observability/\<close> and \<open>core/observability.rs\<close>: logging, metrics, resource samples; they take values and return none to the
    program. Metrics the code derives from a log are values in \<open>RcloneRun\<close>; the transcript of a run is left out.
  \<^item> \<open>cli.rs\<close>, \<open>main.rs\<close>, the \<open>cli.rs\<close> and \<open>commands.rs\<close> of the jobs, \<open>core/job.rs\<close>: argument parsing by clap, the match that hands
    flags to a wizard, and a trait without code. Starting the async runtime, and its failure, are left out.
  \<^item> Progress bars, the tables printed before a run, and the rounded texts of sizes and durations: output only.
  \<^item> Floating point: reading the decimal sizes of a Procreate document, the \<open>f64\<close> operations of the comparison of an
    export with its thumbnail, the duration guard of \<open>media.rs\<close> and the dates of a workbook are parameters.
  \<^item> In the import, the task that flushes the ledger periodically and panics of a worker; in the loop of the
    transform job, the gate's own steps (its answers are an environment; the gate is proved in \<open>Recovery\<close>).
  \<^item> Panics of the blocking tasks, except that of a Procreate export, and the sleep between retries of a converter.
  \<^item> The random run identifier, which is a parameter.
\<close>

end
